(* ===== verification/Prelude.thy ===== *)
theory Prelude
  imports Main "HOL-Library.Word" "HOL-Library.While_Combinator"
begin

section \<open>Shared types, automation and lemmas\<close>

text \<open>
  What every component of the development uses: results of code that may throw (a sum whose
  left side is the thrown error), bytes and big-endian numbers, typed-array writes, insertion
  ordered maps (the JavaScript \<open>Map\<close>), and the collections of rewrite rules the component
  proofs share.
\<close>

named_theorems result_simps \<open>rewriting of results of code that may throw\<close>
named_theorems map_simps \<open>rewriting of insertion ordered maps\<close>

subsection \<open>Results of code that may throw\<close>

text \<open>\<open>Inl e\<close>: the code threw \<open>e\<close>; \<open>Inr x\<close>: it returned \<open>x\<close>.\<close>

fun and_then :: "'e + 'a \<Rightarrow> ('a \<Rightarrow> 'e + 'b) \<Rightarrow> 'e + 'b" where
  "and_then (Inl e) f = Inl e"
| "and_then (Inr x) f = f x"

lemma and_then_Inr_iff [result_simps]:
  "and_then m f = Inr y \<longleftrightarrow> (\<exists>x. m = Inr x \<and> f x = Inr y)"
  by (cases m) auto

lemma and_then_Inl_iff [result_simps]:
  "and_then m f = Inl e \<longleftrightarrow> m = Inl e \<or> (\<exists>x. m = Inr x \<and> f x = Inl e)"
  by (cases m) auto

lemma and_then_Inr_eq [result_simps]:
  "Inr y = and_then m f \<longleftrightarrow> (\<exists>x. m = Inr x \<and> f x = Inr y)"
  by (cases m) auto

lemma and_then_assoc: "and_then (and_then m f) g = and_then m (\<lambda>x. and_then (f x) g)"
  by (cases m) auto

lemma and_then_cong [fundef_cong]:
  assumes "m = m'" and "\<And>x. m' = Inr x \<Longrightarrow> f x = g x"
  shows "and_then m f = and_then m' g"
  using assms by (cases m') auto

lemma and_then_Inr [simp]: "and_then m Inr = m"
  by (cases m) auto

text \<open>A guard clause: throw \<open>e\<close> when \<open>b\<close> holds.\<close>

definition throw_if :: "bool \<Rightarrow> 'e \<Rightarrow> 'e + unit" where
  "throw_if b e = (if b then Inl e else Inr ())"

lemma throw_if_Inr_iff [result_simps, simp]: "throw_if b e = Inr u \<longleftrightarrow> \<not> b"
  by (auto simp: throw_if_def)

lemma throw_if_Inl_iff [result_simps, simp]: "throw_if b e = Inl e' \<longleftrightarrow> b \<and> e' = e"
  by (auto simp: throw_if_def)

lemma throw_if_True [simp]: "b \<Longrightarrow> throw_if b e = Inl e"
  by (simp add: throw_if_def)

lemma throw_if_False [simp]: "\<not> b \<Longrightarrow> throw_if b e = Inr ()"
  by (simp add: throw_if_def)

subsection \<open>Bytes and big-endian numbers\<close>

type_synonym byte = "8 word"

text \<open>
  Storing a number in a \<open>Uint8Array\<close> element keeps its low eight bits; \<open>n >>> k\<close> is
  \<open>drop_bit k n\<close>.
\<close>

definition byte_of :: "nat \<Rightarrow> byte" where
  "byte_of n = word_of_nat n"

definition be_bytes32 :: "nat \<Rightarrow> byte list" where
  "be_bytes32 n = [byte_of (drop_bit 24 n), byte_of (drop_bit 16 n), byte_of (drop_bit 8 n), byte_of n]"

text \<open>\<open>b[0] * 0x1_000_000 + b[1] * 0x1_0000 + b[2] * 0x100 + b[3]\<close>\<close>

definition be_nat32 :: "byte list \<Rightarrow> nat" where
  "be_nat32 bs = unat (bs ! 0) * 0x1000000 + unat (bs ! 1) * 0x10000 + unat (bs ! 2) * 0x100 + unat (bs ! 3)"

lemma unat_byte_of [simp]: "unat (byte_of n) = n mod 256"
  by (simp add: byte_of_def unat_of_nat)

lemma byte_of_unat [simp]: "byte_of (unat b) = b"
  by (simp add: byte_of_def)

lemma length_be_bytes32 [simp]: "length (be_bytes32 n) = 4"
  by (simp add: be_bytes32_def)

lemma nat_split_bytes:
  "(n :: nat) = n div 16777216 * 16777216 + n div 65536 mod 256 * 65536 + n div 256 mod 256 * 256 + n mod 256"
proof -
  have 1: "n = n div 256 * 256 + n mod 256"
    by simp
  have 2: "n div 256 = n div 65536 * 256 + n div 256 mod 256"
    using div_mult_mod_eq[of "n div 256" 256] by (simp add: div_mult2_eq[symmetric])
  have 3: "n div 65536 = n div 16777216 * 256 + n div 65536 mod 256"
    using div_mult_mod_eq[of "n div 65536" 256] by (simp add: div_mult2_eq[symmetric])
  show ?thesis
    using 1 2 3 by linarith
qed

lemma be_nat32_bytes32:
  assumes "n < 2 ^ 32"
  shows "be_nat32 (be_bytes32 n @ bs) = n"
proof -
  have "n div 16777216 < 256"
    using assms by (simp add: less_mult_imp_div_less)
  then show ?thesis
    using nat_split_bytes[of n]
    by (simp add: be_nat32_def be_bytes32_def drop_bit_eq_div)
qed

lemma be_nat32_bytes32_Nil: "n < 2 ^ 32 \<Longrightarrow> be_nat32 (be_bytes32 n) = n"
  using be_nat32_bytes32[of n "[]"] by simp

lemma be_nat32_take: "4 \<le> length bs \<Longrightarrow> be_nat32 (take 4 bs) = be_nat32 bs"
  by (simp add: be_nat32_def)

lemma unat_byte_less [simp]: "unat (b :: byte) < 256"
  using unsigned_less[of b] by simp

lemma be_nat32_less: "be_nat32 bs < 4294967296"
proof -
  have "unat (bs ! 0) \<le> 255" "unat (bs ! 1) \<le> 255" "unat (bs ! 2) \<le> 255" "unat (bs ! 3) \<le> 255"
    using unat_byte_less[of "bs ! 0"] unat_byte_less[of "bs ! 1"]
      unat_byte_less[of "bs ! 2"] unat_byte_less[of "bs ! 3"] by linarith+
  then show ?thesis
    unfolding be_nat32_def by linarith
qed

subsection \<open>Typed arrays\<close>

text \<open>\<open>buf.set(xs, off)\<close> on a typed array: overwrite \<open>length xs\<close> elements from \<open>off\<close>.\<close>

definition typed_set :: "'a list \<Rightarrow> nat \<Rightarrow> 'a list \<Rightarrow> 'a list" where
  "typed_set buf off xs = take off buf @ xs @ drop (off + length xs) buf"

lemma length_typed_set:
  "off + length xs \<le> length buf \<Longrightarrow> length (typed_set buf off xs) = length buf"
  by (simp add: typed_set_def)

lemma take_typed_set:
  "off + length xs \<le> length buf \<Longrightarrow>
   take (off + length xs) (typed_set buf off xs) = take off buf @ xs"
  by (simp add: typed_set_def)

lemma typed_set_all: "length xs = length buf \<Longrightarrow> typed_set buf 0 xs = xs"
  by (simp add: typed_set_def)

end
