(* ===== verification/JsValues.thy ===== *)
theory JsValues
  imports Prelude
begin

section \<open>JavaScript values\<close>

text \<open>
  The part of JavaScript's values the protocol package works on. A string is its list of UTF-16
  code units. A number is an IEEE double, represented canonically: \<open>JInt n\<close> for a double with
  an integral value other than \<open>-0\<close>, \<open>JDouble w\<close> with the bit pattern \<open>w\<close> for every
  other one (fractions, \<open>-0\<close>, the infinities, NaN); \<open>number_of_bits\<close> is the reading of a
  bit pattern. An object lists its own enumerable string-keyed properties in JavaScript's order:
  array-index keys first, by their number, then the others in the order of their insertion.
\<close>

type_synonym js_string = "16 word list"

datatype js_number = JInt int | JDouble "64 word"

definition double_exponent :: "64 word \<Rightarrow> nat" where
  "double_exponent w = unat w div 2 ^ 52 mod 2048"

definition double_mantissa :: "64 word \<Rightarrow> nat" where
  "double_mantissa w = unat w mod 2 ^ 52"

definition double_negative :: "64 word \<Rightarrow> bool" where
  "double_negative w \<longleftrightarrow> 2 ^ 63 \<le> unat w"

definition negative_zero :: "64 word" where
  "negative_zero = 0x8000000000000000"

text \<open>
  A normal double has the value \<open>(2^52 + mantissa) * 2^(exponent - 1075)\<close>; it is integral when
  the exponent is at least 1075 or the shift divides the significand.
\<close>

definition number_of_bits :: "64 word \<Rightarrow> js_number" where
  "number_of_bits w =
     (let e = double_exponent w; m = double_mantissa w;
          signed = (\<lambda>n :: nat. JInt (if double_negative w then - int n else int n))
      in if e = 2047 then JDouble w
         else if e = 0 then (if m = 0 \<and> \<not> double_negative w then JInt 0 else JDouble w)
         else if 1075 \<le> e then signed ((2 ^ 52 + m) * 2 ^ (e - 1075))
         else if (2 ^ 52 + m) mod 2 ^ (1075 - e) = 0 then signed ((2 ^ 52 + m) div 2 ^ (1075 - e))
         else JDouble w)"

definition MAX_SAFE_INTEGER :: int where
  "MAX_SAFE_INTEGER = 9007199254740991"

fun is_finite :: "js_number \<Rightarrow> bool" where
  "is_finite (JInt n) = True"
| "is_finite (JDouble w) = (double_exponent w \<noteq> 2047)"

fun is_integer :: "js_number \<Rightarrow> bool" where
  "is_integer (JInt n) = True"
| "is_integer (JDouble w) = (w = negative_zero)"

fun is_safe_integer :: "js_number \<Rightarrow> bool" where
  "is_safe_integer (JInt n) = (\<bar>n\<bar> \<le> MAX_SAFE_INTEGER)"
| "is_safe_integer (JDouble w) = (w = negative_zero)"

text \<open>The integer a number compares as; \<open>-0\<close> compares as 0.\<close>

fun integer_value :: "js_number \<Rightarrow> int" where
  "integer_value (JInt n) = n"
| "integer_value (JDouble w) = 0"

text \<open>A number in its canonical representation.\<close>

fun canonical_number :: "js_number \<Rightarrow> bool" where
  "canonical_number (JInt n) = True"
| "canonical_number (JDouble w) = (number_of_bits w = JDouble w)"

lemma number_of_bits_cases: "number_of_bits w = JDouble w \<or> (\<exists>n. number_of_bits w = JInt n)"
  by (auto simp: number_of_bits_def Let_def)

lemma canonical_number_of_bits: "canonical_number (number_of_bits w)"
  using number_of_bits_cases[of w] by auto

text \<open>
  Values. \<open>JOther t\<close> is a value the codec rejects, with its \<open>typeof\<close> (a function, a symbol, a
  bigint, or an object that is neither an array, a byte array nor a plain object). An array hole
  reads as \<open>JUndefined\<close>. The flag of \<open>JObject\<close> says that the object has an enumerable
  symbol-keyed property. Values are trees, so that no object is its own ancestor.
\<close>

datatype js_value =
    JUndefined
  | JNull
  | JBool bool
  | JNumber js_number
  | JString js_string
  | JBytes "byte list"
  | JArray "js_value list"
  | JObject bool "(js_string \<times> js_value) list"
  | JOther string

subsection \<open>Own property order\<close>

text \<open>
  An array-index key is the decimal numeral of a number below \<open>2^32 - 1\<close>, with no leading zero.
\<close>

definition digit_of :: "16 word \<Rightarrow> nat option" where
  "digit_of c = (if 48 \<le> unat c \<and> unat c \<le> 57 then Some (unat c - 48) else None)"

fun digits_value :: "nat \<Rightarrow> js_string \<Rightarrow> nat option" where
  "digits_value acc [] = Some acc"
| "digits_value acc (c # cs) =
     (case digit_of c of None \<Rightarrow> None | Some d \<Rightarrow> digits_value (10 * acc + d) cs)"

definition index_key :: "js_string \<Rightarrow> nat option" where
  "index_key k =
     (case k of
        [] \<Rightarrow> None
      | c # cs \<Rightarrow>
          if c = 48 \<and> cs \<noteq> [] then None
          else (case digits_value 0 k of
                  None \<Rightarrow> None
                | Some n \<Rightarrow> if n < 4294967295 then Some n else None))"

text \<open>Key \<open>k\<close> comes before key \<open>k'\<close> in an object that has both, \<open>k'\<close> being the older one.\<close>

definition key_precedes :: "js_string \<Rightarrow> js_string \<Rightarrow> bool" where
  "key_precedes k k' =
     (case index_key k of
        None \<Rightarrow> False
      | Some i \<Rightarrow> (case index_key k' of None \<Rightarrow> True | Some j \<Rightarrow> i < j))"

text \<open>
  Defining a new own property: it goes before the first existing key that it precedes
  (\<open>Object.defineProperty\<close> with a key the object does not have).
\<close>

fun define_property :: "js_string \<Rightarrow> 'v \<Rightarrow> (js_string \<times> 'v) list \<Rightarrow> (js_string \<times> 'v) list" where
  "define_property k v [] = [(k, v)]"
| "define_property k v ((k', v') # es) =
     (if key_precedes k k' then (k, v) # (k', v') # es else (k', v') # define_property k v es)"

text \<open>An object's own properties are in JavaScript's order, without repetition.\<close>

definition own_order :: "(js_string \<times> 'v) list \<Rightarrow> bool" where
  "own_order es \<longleftrightarrow>
     distinct (map fst es) \<and> sorted_wrt (\<lambda>e e'. \<not> key_precedes (fst e') (fst e)) es"

lemma define_property_last:
  "\<forall>e \<in> set es. \<not> key_precedes k (fst e) \<Longrightarrow> define_property k v es = es @ [(k, v)]"
  by (induction es) auto

lemma own_order_snoc:
  "own_order (es @ [(k, v)]) \<Longrightarrow> define_property k v es = es @ [(k, v)]"
  by (rule define_property_last) (auto simp: own_order_def sorted_wrt_append)

lemma own_order_appendD: "own_order (es @ fs) \<Longrightarrow> own_order es"
  by (auto simp: own_order_def sorted_wrt_append)

lemma length_define_property: "length (define_property k v es) = Suc (length es)"
  by (induction es) auto

lemma set_define_property: "set (define_property k v es) = insert (k, v) (set es)"
  by (induction es) (auto split: if_splits)

lemma key_precedes_not: "key_precedes k k' \<Longrightarrow> \<not> key_precedes e k' \<Longrightarrow> \<not> key_precedes e k"
  by (auto simp: key_precedes_def split: option.splits)

lemma own_order_define_property:
  "own_order es \<Longrightarrow> k \<notin> fst ` set es \<Longrightarrow> own_order (define_property k v es)"
proof (induction es)
  case Nil
  show ?case by (simp add: own_order_def)
next
  case (Cons e es)
  obtain k' v' where e: "e = (k', v')" by (cases e)
  from Cons.prems(1) have "own_order es"
    by (auto simp: own_order_def)
  with Cons have IH: "own_order (define_property k v es)" by simp
  show ?case
  proof (cases "key_precedes k k'")
    case True
    with Cons.prems key_precedes_not[OF True] have "\<not> key_precedes k' k" "\<forall>e \<in> set es. \<not> key_precedes (fst e) k"
      using e by (auto simp: own_order_def key_precedes_def split: option.splits)
    with True Cons.prems e show ?thesis by (auto simp: own_order_def)
  next
    case False
    with IH Cons.prems e show ?thesis
      by (auto simp: own_order_def set_define_property)
  qed
qed

end
