(* ===== verification/Messages.thy ===== *)
theory Messages
  imports Complex_Main JsValues
begin

section \<open>Messages\<close>

text \<open>
  The messages an agent's transcript is made of: the model messages of
  \<^verbatim>\<open>packages/ai/src/types.ts\<close> and the agent's own kinds of
  \<^verbatim>\<open>packages/agent/src/harness/messages.ts\<close>, with the conversion of a transcript to what a model
  is sent. Payloads the code never looks into (arguments, details, handles) are JavaScript values.
  Token counts are integers and costs rationals; text is a list of characters.
\<close>

subsection \<open>Content\<close>

record usage_cost =
  priceInput :: rat
  priceOutput :: rat
  priceCacheRead :: rat
  priceCacheWrite :: rat
  priceTotal :: rat

record usage =
  usageInput :: int
  usageOutput :: int
  usageCacheRead :: int
  usageCacheWrite :: int
  usageCacheWrite1h :: "int option"
  usageReasoning :: "int option"
  usageTotalTokens :: int
  usageCost :: usage_cost

datatype stop_reason = PendingStop | StopStop | LengthStop | ToolUseStop | ErrorStop | AbortedStop | DeferredStop

record tool_call =
  callId :: string
  callName :: string
  callArguments :: js_value

datatype content_block =
    TextContent string
  | ThinkingContent string
  | ImageContent string string          \<comment> \<open>data and MIME type\<close>
  | ToolCallContent tool_call

datatype message_content = PlainContent string | BlockContent "content_block list"

subsection \<open>The kinds of messages\<close>

record assistant_message =
  asstContent :: "content_block list"
  asstProvider :: string
  asstModel :: string
  asstUsage :: usage
  asstStopReason :: stop_reason
  asstDeferred :: "js_value option"
  asstErrorMessage :: "string option"
  asstTimestamp :: int

record tool_result =
  resToolCallId :: string
  resToolName :: string
  resContent :: "content_block list"
  resDetails :: js_value
  resUsage :: "usage option"
  resAddedToolNames :: "string list"
  resIsError :: bool
  resTimestamp :: int

record bash_execution =
  bashCommand :: string
  bashOutput :: string
  bashExitCode :: "int option"
  bashCancelled :: bool
  bashTruncated :: bool
  bashFullOutputPath :: "string option"
  bashTimestamp :: int
  bashExcludeFromContext :: bool

datatype agent_message =
    UserMessage message_content int
  | AssistantMessage assistant_message
  | ToolResultMessage tool_result
  | BashExecutionMessage bash_execution
  | CustomMessage string message_content bool js_value int   \<comment> \<open>custom type, content, display, details, timestamp\<close>
  | BranchSummaryMessage string string int                   \<comment> \<open>summary, fromId, timestamp\<close>
  | CompactionSummaryMessage string int int                  \<comment> \<open>summary, tokensBefore, timestamp\<close>

datatype role = UserRole | AssistantRole | ToolResultRole | BashExecutionRole | CustomRole | BranchSummaryRole
  | CompactionSummaryRole

fun role_of :: "agent_message \<Rightarrow> role" where
  "role_of (UserMessage _ _) = UserRole"
| "role_of (AssistantMessage _) = AssistantRole"
| "role_of (ToolResultMessage _) = ToolResultRole"
| "role_of (BashExecutionMessage _) = BashExecutionRole"
| "role_of (CustomMessage _ _ _ _ _) = CustomRole"
| "role_of (BranchSummaryMessage _ _ _) = BranchSummaryRole"
| "role_of (CompactionSummaryMessage _ _ _) = CompactionSummaryRole"

text \<open>The tool calls of an assistant message, in the order of its content.\<close>

fun tool_calls_of :: "content_block list \<Rightarrow> tool_call list" where
  "tool_calls_of [] = []"
| "tool_calls_of (ToolCallContent c # bs) = c # tool_calls_of bs"
| "tool_calls_of (b # bs) = tool_calls_of bs"

lemma tool_calls_of_append [simp]: "tool_calls_of (bs @ cs) = tool_calls_of bs @ tool_calls_of cs"
  by (induction bs rule: tool_calls_of.induct) auto

subsection \<open>Numbers in text\<close>

fun show_nat :: "nat \<Rightarrow> string" where
  "show_nat n = (if n < 10 then [char_of (48 + n)] else show_nat (n div 10) @ [char_of (48 + n mod 10)])"

declare show_nat.simps [simp del]

definition show_int :: "int \<Rightarrow> string" where
  "show_int i = (if i < 0 then CHR ''-'' # show_nat (nat (- i)) else show_nat (nat i))"

subsection \<open>What a model is sent\<close>

definition newline :: string where "newline = [CHR 0x0A]"

definition code_fence :: string where "code_fence = [CHR 0x60, CHR 0x60, CHR 0x60]"

definition COMPACTION_SUMMARY_PREFIX :: string where
  "COMPACTION_SUMMARY_PREFIX =
     ''The conversation history before this point was compacted into the following summary:'' @
     newline @ newline @ ''<summary>'' @ newline"

definition COMPACTION_SUMMARY_SUFFIX :: string where
  "COMPACTION_SUMMARY_SUFFIX = newline @ ''</summary>''"

definition BRANCH_SUMMARY_PREFIX :: string where
  "BRANCH_SUMMARY_PREFIX =
     ''The following is a summary of a branch that this conversation came back from:'' @
     newline @ newline @ ''<summary>'' @ newline"

definition BRANCH_SUMMARY_SUFFIX :: string where
  "BRANCH_SUMMARY_SUFFIX = ''</summary>''"

definition bashExecutionToText :: "bash_execution \<Rightarrow> string" where
  "bashExecutionToText msg =
     ''Ran '' @ [CHR 0x60] @ bashCommand msg @ [CHR 0x60] @ newline @
     (if bashOutput msg \<noteq> '''' then code_fence @ newline @ bashOutput msg @ newline @ code_fence
      else ''(no output)'') @
     (if bashCancelled msg then newline @ newline @ ''(command cancelled)''
      else (case bashExitCode msg of
              None \<Rightarrow> ''''
            | Some code \<Rightarrow> if code = 0 then '''' else newline @ newline @ ''Command exited with code '' @ show_int code)) @
     (if bashTruncated msg
      then (case bashFullOutputPath msg of
              None \<Rightarrow> ''''
            | Some path \<Rightarrow> if path = '''' then ''''
                else newline @ newline @ ''[Output truncated. Full output: '' @ path @ '']'')
      else '''')"

definition user_text :: "string \<Rightarrow> int \<Rightarrow> agent_message" where
  "user_text t timestamp = UserMessage (BlockContent [TextContent t]) timestamp"

fun convert_message :: "agent_message \<Rightarrow> agent_message option" where
  "convert_message (BashExecutionMessage m) =
     (if bashExcludeFromContext m then None else Some (user_text (bashExecutionToText m) (bashTimestamp m)))"
| "convert_message (CustomMessage t content display details timestamp) =
     Some (UserMessage (BlockContent (case content of PlainContent s \<Rightarrow> [TextContent s] | BlockContent bs \<Rightarrow> bs)) timestamp)"
| "convert_message (BranchSummaryMessage summary fromId timestamp) =
     Some (user_text (BRANCH_SUMMARY_PREFIX @ summary @ BRANCH_SUMMARY_SUFFIX) timestamp)"
| "convert_message (CompactionSummaryMessage summary tokensBefore timestamp) =
     Some (user_text (COMPACTION_SUMMARY_PREFIX @ summary @ COMPACTION_SUMMARY_SUFFIX) timestamp)"
| "convert_message (UserMessage content timestamp) = Some (UserMessage content timestamp)"
| "convert_message (AssistantMessage m) = Some (AssistantMessage m)"
| "convert_message (ToolResultMessage m) = Some (ToolResultMessage m)"

definition convertToLlm :: "agent_message list \<Rightarrow> agent_message list" where
  "convertToLlm messages = List.map_filter convert_message messages"

text \<open>A message a model accepts; such messages are left as they are.\<close>

definition llm_message :: "agent_message \<Rightarrow> bool" where
  "llm_message m \<longleftrightarrow> role_of m \<in> {UserRole, AssistantRole, ToolResultRole}"

lemma convert_message_llm: "convert_message m = Some m' \<Longrightarrow> llm_message m'"
  by (cases m) (auto simp: llm_message_def user_text_def split: if_splits)

lemma convert_llm_message: "llm_message m \<Longrightarrow> convert_message m = Some m"
  by (cases m) (auto simp: llm_message_def)

lemma convertToLlm_append: "convertToLlm (ms @ ns) = convertToLlm ms @ convertToLlm ns"
  by (simp add: convertToLlm_def map_filter_def)

lemma convertToLlm_llm: "m \<in> set (convertToLlm ms) \<Longrightarrow> llm_message m"
  by (auto simp: convertToLlm_def map_filter_def convert_message_llm)

lemma convertToLlm_id: "\<forall>m \<in> set ms. llm_message m \<Longrightarrow> convertToLlm ms = ms"
  by (induction ms) (auto simp: convertToLlm_def map_filter_def convert_llm_message)

end
