(* ===== verification/JsonText.thy ===== *)
theory JsonText
  imports Messages
begin

section \<open>Values as text\<close>

text \<open>
  What the program uses of \<open>JSON.stringify\<close> and of the conversion of numbers to text: the
  algorithms of the ECMAScript standard over the values of \<open>JsValues\<close>. The text of the
  development's messages is a list of characters below 256; \<open>js_of\<close> and \<open>text_of\<close>
  go between it and the code units of a JavaScript string.
\<close>

definition js_of :: "string \<Rightarrow> js_string" where
  "js_of s = map (\<lambda>c. word_of_nat (of_char c)) s"

definition text_of :: "js_string \<Rightarrow> string" where
  "text_of us = map (\<lambda>u. char_of (unat u)) us"

lemma of_char_less: "(of_char c :: nat) < 256"
  by (metis mod_less_divisor of_char_mod_256 zero_less_numeral)

lemma text_of_js_of [simp]: "text_of (js_of s) = s"
proof -
  have "of_char c mod (65536 :: nat) = of_char c" for c
    by (rule mod_less) (rule less_trans[OF of_char_less], simp)
  then show ?thesis
    by (simp add: text_of_def js_of_def o_def unsigned_of_nat take_bit_eq_mod map_idI)
qed

lemma length_js_of [simp]: "length (js_of s) = length s"
  by (simp add: js_of_def)

lemma length_text_of [simp]: "length (text_of us) = length us"
  by (simp add: text_of_def)

subsection \<open>Numbers\<close>

text \<open>The significand and the exponent of a double: its magnitude is \<open>m * 2^e\<close>.\<close>

definition significand :: "64 word \<Rightarrow> nat \<times> int" where
  "significand w =
     (let e = double_exponent w; m = double_mantissa w
      in if e = 0 then (m, - 1074) else (2 ^ 52 + m, int e - 1075))"

text \<open>The same for the double with an integral magnitude.\<close>

fun bit_count :: "nat \<Rightarrow> nat" where
  "bit_count n = (if n = 0 then 0 else Suc (bit_count (n div 2)))"

declare bit_count.simps [simp del]

definition integral_significand :: "nat \<Rightarrow> nat \<times> int" where
  "integral_significand n = (let e = bit_count n - 53 in (n div 2 ^ e, int e))"

definition pow :: "rat \<Rightarrow> int \<Rightarrow> rat" where
  "pow b n = (if 0 \<le> n then b ^ nat n else 1 / b ^ nat (- n))"

text \<open>A decimal whose nearest double, ties to an even significand, is the given one.\<close>

definition reads_back :: "nat \<times> int \<Rightarrow> rat \<Rightarrow> bool" where
  "reads_back d x =
     (case d of (m, e) \<Rightarrow>
        let low = (of_nat m - (if m = 2 ^ 52 \<and> - 1074 < e then 1 / 4 else 1 / 2)) * pow 2 e;
            high = (of_nat m + 1 / 2) * pow 2 e
        in if even m then low \<le> x \<and> x \<le> high else low < x \<and> x < high)"

text \<open>
  \<open>Number::toString\<close>: integers \<open>s\<close>, \<open>k\<close> and \<open>n\<close> with \<open>10^(k-1) \<le> s < 10^k\<close> such that
  \<open>s * 10^(n-k)\<close> reads back, \<open>k\<close> as small as possible and then \<open>s * 10^(n-k)\<close> as close as possible.
\<close>

definition decimals :: "nat \<times> int \<Rightarrow> int \<Rightarrow> nat \<Rightarrow> (nat \<times> int) list" where
  "decimals d n k =
     (let v = of_nat (fst d) * pow 2 (snd d)
      in concat (map (\<lambda>n'. let y = v / pow 10 (n' - int k)
           in map (\<lambda>s. (nat s, n'))
                (filter (\<lambda>s. 10 ^ (k - 1) \<le> s \<and> s < 10 ^ k \<and> reads_back d (of_int s * pow 10 (n' - int k)))
                  [\<lfloor>y\<rfloor>, \<lceil>y\<rceil>])) [n, n + 1]))"

definition shortest_decimal :: "nat \<times> int \<Rightarrow> nat \<times> int" where
  "shortest_decimal d =
     (let v = of_nat (fst d) * pow 2 (snd d);
          n = the (find (\<lambda>n. v < pow 10 n) [- 323 .. 310])
      in case find (\<lambda>k. decimals d n k \<noteq> []) [1..<22] of
           None \<Rightarrow> (0, 0)
         | Some k \<Rightarrow> hd (sort_key (\<lambda>(s, n'). \<bar>of_nat s * pow 10 (n' - int k) - v\<bar>) (decimals d n k)))"

definition decimal_text :: "nat \<times> int \<Rightarrow> string" where
  "decimal_text sn =
     (case sn of (s, n) \<Rightarrow>
        let ds = show_nat s; k = int (length ds); zero = CHR ''0''; e = n - 1
        in if k \<le> n \<and> n \<le> 21 then ds @ replicate (nat (n - k)) zero
           else if 0 < n \<and> n \<le> 21 then take (nat n) ds @ ''.'' @ drop (nat n) ds
           else if - 6 < n \<and> n \<le> 0 then ''0.'' @ replicate (nat (- n)) zero @ ds
           else hd ds # (if k = 1 then '''' else ''.'' @ tl ds) @ ''e'' @
                (if e < 0 then ''-'' else ''+'') @ show_nat (nat \<bar>e\<bar>))"

definition number_text :: "js_number \<Rightarrow> string" where
  "number_text x =
     (case x of
        JInt n \<Rightarrow>
          if \<bar>n\<bar> < 2 ^ 53 then show_int n
          else (if n < 0 then ''-'' else '''') @ decimal_text (shortest_decimal (integral_significand (nat \<bar>n\<bar>)))
      | JDouble w \<Rightarrow>
          if w = negative_zero then ''0''
          else if double_exponent w = 2047 then
            (if double_mantissa w \<noteq> 0 then ''NaN'' else if double_negative w then ''-Infinity'' else ''Infinity'')
          else (if double_negative w then ''-'' else '''') @ decimal_text (shortest_decimal (significand w)))"

subsection \<open>JSON\<close>

definition hex_digit :: "nat \<Rightarrow> 16 word" where
  "hex_digit d = word_of_nat (if d < 10 then 48 + d else 87 + d)"

definition unicode_escape :: "16 word \<Rightarrow> js_string" where
  "unicode_escape u =
     (let n = unat u
      in [0x5C, 0x75, hex_digit (n div 4096), hex_digit (n div 256 mod 16), hex_digit (n div 16 mod 16), hex_digit (n mod 16)])"

fun quoted_units :: "js_string \<Rightarrow> js_string" where
  "quoted_units [] = []"
| "quoted_units (u # us) =
     (if u = 8 then 0x5C # 0x62 # quoted_units us
      else if u = 9 then 0x5C # 0x74 # quoted_units us
      else if u = 10 then 0x5C # 0x6E # quoted_units us
      else if u = 12 then 0x5C # 0x66 # quoted_units us
      else if u = 13 then 0x5C # 0x72 # quoted_units us
      else if u = 0x22 \<or> u = 0x5C then 0x5C # u # quoted_units us
      else if unat u < 0x20 then unicode_escape u @ quoted_units us
      else if 0xD800 \<le> unat u \<and> unat u \<le> 0xDBFF then
        (case us of
           v # vs \<Rightarrow>
             if 0xDC00 \<le> unat v \<and> unat v \<le> 0xDFFF then u # v # quoted_units vs
             else unicode_escape u @ quoted_units us
         | [] \<Rightarrow> unicode_escape u)
      else if 0xDC00 \<le> unat u \<and> unat u \<le> 0xDFFF then unicode_escape u @ quoted_units us
      else u # quoted_units us)"

definition quote :: "js_string \<Rightarrow> js_string" where
  "quote us = 0x22 # quoted_units us @ [0x22]"

text \<open>\<open>parts.join(separator)\<close>\<close>

fun join :: "'a list \<Rightarrow> 'a list list \<Rightarrow> 'a list" where
  "join separator [] = []"
| "join separator [p] = p"
| "join separator (p # q # ps) = p @ separator @ join separator (q # ps)"

text \<open>
  \<open>JSON.stringify\<close>: \<open>Inl ()\<close> is a thrown error (a bigint), \<open>Inr None\<close> is \<open>undefined\<close>. A value of
  another class is one without enumerable properties of its own.
\<close>

fun json_text :: "js_value \<Rightarrow> unit + js_string option"
  and json_elements :: "js_value list \<Rightarrow> unit + js_string list"
  and json_properties :: "(js_string \<times> js_value) list \<Rightarrow> unit + js_string list" where
  "json_text JUndefined = Inr None"
| "json_text JNull = Inr (Some (js_of ''null''))"
| "json_text (JBool b) = Inr (Some (js_of (if b then ''true'' else ''false'')))"
| "json_text (JNumber x) = Inr (Some (js_of (if is_finite x then number_text x else ''null'')))"
| "json_text (JString s) = Inr (Some (quote s))"
| "json_text (JBytes bs) =
     Inr (Some (js_of ''{'' @ join (js_of '','')
       (map (\<lambda>(i, b). quote (js_of (show_nat i)) @ js_of '':'' @ js_of (show_nat (unat b))) (enumerate 0 bs)) @ js_of ''}''))"
| "json_text (JArray vs) =
     and_then (json_elements vs) (\<lambda>ps. Inr (Some (js_of ''['' @ join (js_of '','') ps @ js_of '']'')))"
| "json_text (JObject symbols es) =
     and_then (json_properties es) (\<lambda>ps. Inr (Some (js_of ''{'' @ join (js_of '','') ps @ js_of ''}'')))"
| "json_text (JOther t) =
     (if t = ''bigint'' then Inl () else if t = ''object'' then Inr (Some (js_of ''{}'')) else Inr None)"
| "json_elements [] = Inr []"
| "json_elements (v # vs) =
     and_then (json_text v) (\<lambda>p. and_then (json_elements vs) (\<lambda>ps.
       Inr ((case p of None \<Rightarrow> js_of ''null'' | Some t \<Rightarrow> t) # ps)))"
| "json_properties [] = Inr []"
| "json_properties ((k, v) # es) =
     and_then (json_text v) (\<lambda>p. and_then (json_properties es) (\<lambda>ps.
       Inr (case p of None \<Rightarrow> ps | Some t \<Rightarrow> (quote k @ js_of '':'' @ t) # ps)))"

definition safeJsonStringify :: "js_value \<Rightarrow> js_string" where
  "safeJsonStringify v =
     (case json_text v of
        Inl e \<Rightarrow> js_of ''[unserializable]''
      | Inr None \<Rightarrow> js_of ''undefined''
      | Inr (Some t) \<Rightarrow> t)"

end
