(* ===== verification/JsonParse.thy ===== *)
theory JsonParse
  imports JsonText
begin

section \<open>Reading JSON\<close>

text \<open>
  What the program uses of \<open>JSON.parse\<close>: the grammar of the JSON text of the ECMAScript standard,
  as a recursive descent whose fuel bounds the number of its calls. \<open>None\<close> is a syntax error.
\<close>

subsection \<open>Strings\<close>

definition json_space :: "16 word \<Rightarrow> bool" where
  "json_space u \<longleftrightarrow> u = 9 \<or> u = 10 \<or> u = 13 \<or> u = 32"

definition skip_space :: "js_string \<Rightarrow> js_string" where
  "skip_space s = dropWhile json_space s"

definition hex_value :: "16 word \<Rightarrow> nat option" where
  "hex_value u =
     (let n = unat u
      in if 48 \<le> n \<and> n \<le> 57 then Some (n - 48)
         else if 65 \<le> n \<and> n \<le> 70 then Some (n - 55)
         else if 97 \<le> n \<and> n \<le> 102 then Some (n - 87)
         else None)"

definition hex_unit :: "16 word \<Rightarrow> 16 word \<Rightarrow> 16 word \<Rightarrow> 16 word \<Rightarrow> 16 word option" where
  "hex_unit a b c d =
     (case (hex_value a, hex_value b, hex_value c, hex_value d) of
        (Some i, Some j, Some k, Some l) \<Rightarrow> Some (word_of_nat (((i * 16 + j) * 16 + k) * 16 + l))
      | _ \<Rightarrow> None)"

definition escaped :: "16 word \<Rightarrow> 16 word option" where
  "escaped u =
     (if u = 0x22 \<or> u = 0x5C \<or> u = 0x2F then Some u
      else if u = 0x62 then Some 8
      else if u = 0x66 then Some 12
      else if u = 0x6E then Some 10
      else if u = 0x72 then Some 13
      else if u = 0x74 then Some 9
      else None)"

definition prepend :: "16 word \<Rightarrow> (js_string \<times> js_string) option \<Rightarrow> (js_string \<times> js_string) option" where
  "prepend u r = map_option (\<lambda>(t, rest). (u # t, rest)) r"

text \<open>The content of a string after its opening quote, and what follows its closing quote.\<close>

fun read_string :: "js_string \<Rightarrow> (js_string \<times> js_string) option" where
  "read_string [] = None"
| "read_string (u # us) =
     (if u = 0x22 then Some ([], us)
      else if unat u < 0x20 then None
      else if u = 0x5C then
        (case us of
           [] \<Rightarrow> None
         | e # vs \<Rightarrow>
             if e = 0x75 then
               (case vs of
                  a # b # c # d # ws \<Rightarrow>
                    (case hex_unit a b c d of None \<Rightarrow> None | Some x \<Rightarrow> prepend x (read_string ws))
                | _ \<Rightarrow> None)
             else (case escaped e of None \<Rightarrow> None | Some x \<Rightarrow> prepend x (read_string vs)))
      else prepend u (read_string us))"

subsection \<open>Numbers\<close>

text \<open>
  The double nearest to a magnitude, ties to an even significand: the magnitude is between \<open>n\<close> and
  \<open>n + 1\<close> units of \<open>2^q\<close>, the spacing of the doubles there.
\<close>

definition round_half_even :: "rat \<Rightarrow> nat" where
  "round_half_even x =
     (let n = nat \<lfloor>x\<rfloor>; r = x - of_nat n
      in if r < 1 / 2 then n else if 1 / 2 < r then Suc n else if even n then n else Suc n)"

definition nearest_double :: "bool \<Rightarrow> rat \<Rightarrow> js_number" where
  "nearest_double negative x =
     (let bits = (if pow 2 1024 \<le> x then 2047 * 2 ^ 52
                  else let e = (case find (\<lambda>k. pow 2 k \<le> x) (rev [- 1022 .. 1023]) of None \<Rightarrow> - 1022 | Some k \<Rightarrow> k);
                           q = e - 52
                       in nat (q + 1074) * 2 ^ 52 + round_half_even (x / pow 2 q))
      in number_of_bits (word_of_nat ((if negative then 2 ^ 63 else 0) + bits)))"

definition is_digit :: "16 word \<Rightarrow> bool" where
  "is_digit u \<longleftrightarrow> digit_of u \<noteq> None"

definition digits_number :: "js_string \<Rightarrow> nat" where
  "digits_number ds = (case digits_value 0 ds of None \<Rightarrow> 0 | Some n \<Rightarrow> n)"

text \<open>The digits after a point, and the exponent, if there is one; \<open>None\<close> is an error.\<close>

definition read_fraction :: "js_string \<Rightarrow> (js_string \<times> js_string) option" where
  "read_fraction s =
     (case s of
        u # us \<Rightarrow>
          if u = 0x2E then (if takeWhile is_digit us = [] then None else Some (takeWhile is_digit us, dropWhile is_digit us))
          else Some ([], s)
      | [] \<Rightarrow> Some ([], s))"

definition read_exponent :: "js_string \<Rightarrow> (int \<times> js_string) option" where
  "read_exponent s =
     (case s of
        u # us \<Rightarrow>
          if u = 0x65 \<or> u = 0x45 then
            (let sign = (case us of v # vs \<Rightarrow> if v = 0x2D then - 1 else 1 | [] \<Rightarrow> 1);
                 ds = (case us of v # vs \<Rightarrow> if v = 0x2D \<or> v = 0x2B then vs else us | [] \<Rightarrow> us)
             in if takeWhile is_digit ds = [] then None
                else Some (sign * int (digits_number (takeWhile is_digit ds)), dropWhile is_digit ds))
          else Some (0, s)
      | [] \<Rightarrow> Some (0, s))"

text \<open>An integer below \<open>2^53\<close> is its own nearest double.\<close>

definition number_of_digits :: "bool \<Rightarrow> js_string \<Rightarrow> js_string \<Rightarrow> int \<Rightarrow> js_number" where
  "number_of_digits negative ds fs e =
     (let n = digits_number (ds @ fs)
      in if fs = [] \<and> e = 0 \<and> n < 2 ^ 53
         then (if n = 0 \<and> negative then JDouble negative_zero else JInt (if negative then - int n else int n))
         else nearest_double negative (of_nat n * pow 10 (e - int (length fs))))"

definition read_unsigned :: "bool \<Rightarrow> js_string \<Rightarrow> (js_number \<times> js_string) option" where
  "read_unsigned negative s =
     (let ds = takeWhile is_digit s
      in if ds = [] \<or> hd ds = 48 \<and> 1 < length ds then None
         else (case read_fraction (dropWhile is_digit s) of
                 None \<Rightarrow> None
               | Some (fs, s') \<Rightarrow>
                   (case read_exponent s' of
                      None \<Rightarrow> None
                    | Some (e, rest) \<Rightarrow> Some (number_of_digits negative ds fs e, rest))))"

definition read_number :: "js_string \<Rightarrow> (js_number \<times> js_string) option" where
  "read_number s =
     (case s of
        u # us \<Rightarrow> if u = 0x2D then read_unsigned True us else read_unsigned False s
      | [] \<Rightarrow> None)"

subsection \<open>Values\<close>

definition read_word :: "string \<Rightarrow> js_value \<Rightarrow> js_string \<Rightarrow> (js_value \<times> js_string) option" where
  "read_word w v s = (if take (length w) s = js_of w then Some (v, drop (length w) s) else None)"

definition set_property :: "js_string \<Rightarrow> 'v \<Rightarrow> (js_string \<times> 'v) list \<Rightarrow> (js_string \<times> 'v) list" where
  "set_property k v es =
     (if k \<in> fst ` set es then map (\<lambda>(k', v'). (k', if k' = k then v else v')) es else define_property k v es)"

fun read_value :: "nat \<Rightarrow> js_string \<Rightarrow> (js_value \<times> js_string) option"
  and read_elements :: "nat \<Rightarrow> js_string \<Rightarrow> (js_value list \<times> js_string) option"
  and read_members :: "nat \<Rightarrow> (js_string \<times> js_value) list \<Rightarrow> js_string \<Rightarrow> ((js_string \<times> js_value) list \<times> js_string) option" where
  "read_value 0 s = None"
| "read_value (Suc n) s =
     (case skip_space s of
        [] \<Rightarrow> None
      | u # us \<Rightarrow>
          if u = 0x7B then
            (case skip_space us of
               v # vs \<Rightarrow>
                 if v = 0x7D then Some (JObject False [], vs)
                 else map_option (\<lambda>(es, rest). (JObject False es, rest)) (read_members n [] (v # vs))
             | [] \<Rightarrow> None)
          else if u = 0x5B then
            (case skip_space us of
               v # vs \<Rightarrow>
                 if v = 0x5D then Some (JArray [], vs)
                 else map_option (\<lambda>(xs, rest). (JArray xs, rest)) (read_elements n (v # vs))
             | [] \<Rightarrow> None)
          else if u = 0x22 then map_option (\<lambda>(t, rest). (JString t, rest)) (read_string us)
          else if u = 0x74 then read_word ''true'' (JBool True) (u # us)
          else if u = 0x66 then read_word ''false'' (JBool False) (u # us)
          else if u = 0x6E then read_word ''null'' JNull (u # us)
          else map_option (\<lambda>(x, rest). (JNumber x, rest)) (read_number (u # us)))"
| "read_elements 0 s = None"
| "read_elements (Suc n) s =
     (case read_value n s of
        None \<Rightarrow> None
      | Some (v, s') \<Rightarrow>
          (case skip_space s' of
             [] \<Rightarrow> None
           | u # us \<Rightarrow>
               if u = 0x5D then Some ([v], us)
               else if u = 0x2C then map_option (\<lambda>(vs, rest). (v # vs, rest)) (read_elements n us)
               else None))"
| "read_members 0 es s = None"
| "read_members (Suc n) es s =
     (case skip_space s of
        [] \<Rightarrow> None
      | u # us \<Rightarrow>
          if u \<noteq> 0x22 then None
          else (case read_string us of
                  None \<Rightarrow> None
                | Some (k, s1) \<Rightarrow>
                    (case skip_space s1 of
                       [] \<Rightarrow> None
                     | c # s2 \<Rightarrow>
                         if c \<noteq> 0x3A then None
                         else (case read_value n s2 of
                                 None \<Rightarrow> None
                               | Some (v, s3) \<Rightarrow>
                                   (case skip_space s3 of
                                      [] \<Rightarrow> None
                                    | d # s4 \<Rightarrow>
                                        if d = 0x7D then Some (set_property k v es, s4)
                                        else if d = 0x2C then read_members n (set_property k v es) s4
                                        else None)))))"

definition json_parse :: "js_string \<Rightarrow> js_value option" where
  "json_parse s =
     (case read_value (2 * length s + 1) s of
        None \<Rightarrow> None
      | Some (v, rest) \<Rightarrow> if skip_space rest = [] then Some v else None)"

subsection \<open>More text and more fuel\<close>

text \<open>What may follow a number without being read as a part of it.\<close>

definition number_stop :: "js_string \<Rightarrow> bool" where
  "number_stop q \<longleftrightarrow> q = [] \<or> (\<not> is_digit (hd q) \<and> hd q \<notin> {0x2E, 0x65, 0x45})"

lemma skip_space_append: "skip_space s = u # us \<Longrightarrow> skip_space (s @ q) = u # us @ q"
  by (induction s) (auto simp: skip_space_def split: if_splits)

lemma digits_append:
  "dropWhile is_digit s \<noteq> [] \<or> number_stop q \<Longrightarrow>
   takeWhile is_digit (s @ q) = takeWhile is_digit s \<and> dropWhile is_digit (s @ q) = dropWhile is_digit s @ q"
  by (induction s; cases q) (auto simp: number_stop_def)

lemma prepend_Some: "prepend x r = Some (t, rest) \<longleftrightarrow> (\<exists>t'. r = Some (t', rest) \<and> t = x # t')"
  by (auto simp: prepend_def)

lemma read_string_append: "read_string s = Some (t, r) \<Longrightarrow> read_string (s @ q) = Some (t, r @ q)"
proof (induction s arbitrary: t r rule: read_string.induct)
  case (2 u us)
  consider "u = 0x22" | "u = 0x5C" "\<not> unat u < 0x20" | "u \<noteq> 0x22" "u \<noteq> 0x5C" "\<not> unat u < 0x20"
    using 2(4) by (auto split: if_splits)
  then show ?case
  proof cases
    case 1
    with 2(4) show ?thesis by simp
  next
    case esc: 2
    with 2(4) obtain e vs where us: "us = e # vs" by (cases us) auto
    show ?thesis
    proof (cases "e = 0x75")
      case True
      from 2(4) esc us True obtain a b c d ws x where x: "vs = a # b # c # d # ws" "hex_unit a b c d = Some x"
        "prepend x (read_string ws) = Some (t, r)"
        by (simp split: list.splits option.splits)
      then obtain t' where t': "read_string ws = Some (t', r)" "t = x # t'" by (auto simp: prepend_Some)
      have "read_string (ws @ q) = Some (t', r @ q)" by (rule 2(1)) (use esc us True x t' in simp_all)
      with esc us True x t' show ?thesis by (simp add: prepend_def)
    next
      case False
      with 2(4) esc us obtain x where x: "escaped e = Some x" "prepend x (read_string vs) = Some (t, r)"
        by (simp split: option.splits)
      then obtain t' where t': "read_string vs = Some (t', r)" "t = x # t'" by (auto simp: prepend_Some)
      have "read_string (vs @ q) = Some (t', r @ q)" by (rule 2(2)) (use esc us False x t' in simp_all)
      with esc us False x t' show ?thesis by (simp add: prepend_def)
    qed
  next
    case plain: 3
    with 2(4) obtain t' where t': "read_string us = Some (t', r)" "t = u # t'" by (auto simp: prepend_Some)
    with 2(3)[of t' r] plain show ?thesis by (simp add: prepend_def)
  qed
qed simp

lemma read_fraction_Nil: "read_fraction [] = Some ([], [])"
  by (simp add: read_fraction_def)

lemma read_exponent_Nil: "read_exponent [] = Some (0, [])"
  by (simp add: read_exponent_def)

lemma read_fraction_append:
  "read_fraction s = Some (fs, r) \<Longrightarrow> r \<noteq> [] \<or> number_stop q \<Longrightarrow> read_fraction (s @ q) = Some (fs, r @ q)"
proof (cases s)
  case Nil
  then show "read_fraction s = Some (fs, r) \<Longrightarrow> r \<noteq> [] \<or> number_stop q \<Longrightarrow> ?thesis"
    by (cases q) (auto simp: read_fraction_def number_stop_def)
next
  case (Cons u us)
  then show "read_fraction s = Some (fs, r) \<Longrightarrow> r \<noteq> [] \<or> number_stop q \<Longrightarrow> ?thesis"
    using digits_append[of us q] by (auto simp: read_fraction_def split: if_splits)
qed

lemma read_exponent_append:
  "read_exponent s = Some (e, r) \<Longrightarrow> r \<noteq> [] \<or> number_stop q \<Longrightarrow> read_exponent (s @ q) = Some (e, r @ q)"
proof (cases s)
  case Nil
  then show "read_exponent s = Some (e, r) \<Longrightarrow> r \<noteq> [] \<or> number_stop q \<Longrightarrow> ?thesis"
    by (cases q) (auto simp: read_exponent_def number_stop_def)
next
  case (Cons u us)
  then show "read_exponent s = Some (e, r) \<Longrightarrow> r \<noteq> [] \<or> number_stop q \<Longrightarrow> ?thesis"
    using digits_append[of us q] digits_append[of "tl us" q]
    by (cases us) (auto simp: read_exponent_def Let_def split: if_splits)
qed

lemma read_unsigned_append:
  assumes "read_unsigned negative s = Some (x, r)" and "r \<noteq> [] \<or> number_stop q"
  shows "read_unsigned negative (s @ q) = Some (x, r @ q)"
proof -
  let ?ds = "takeWhile is_digit s"
  from assms(1) obtain fs s' e where ok: "\<not> (?ds = [] \<or> hd ?ds = 48 \<and> 1 < length ?ds)"
    and run: "read_fraction (dropWhile is_digit s) = Some (fs, s')" "read_exponent s' = Some (e, r)"
    and x: "x = number_of_digits negative ?ds fs e"
    by (auto simp: read_unsigned_def Let_def simp del: takeWhile_eq_Nil_iff split: if_splits option.splits)
  have "s' = [] \<Longrightarrow> r = []" using run(2) read_exponent_Nil by auto
  with assms(2) have more: "s' \<noteq> [] \<or> number_stop q" by blast
  have "dropWhile is_digit s = [] \<Longrightarrow> s' = []" using run(1) read_fraction_Nil by (auto simp del: dropWhile_eq_Nil_conv)
  with more have "dropWhile is_digit s \<noteq> [] \<or> number_stop q" by blast
  from digits_append[OF this] read_fraction_append[OF run(1) more] read_exponent_append[OF run(2) assms(2)]
  have steps: "takeWhile is_digit (s @ q) = ?ds" "read_fraction (dropWhile is_digit (s @ q)) = Some (fs, s' @ q)"
    "read_exponent (s' @ q) = Some (e, r @ q)" by auto
  show ?thesis unfolding read_unsigned_def Let_def steps if_not_P[OF ok] x by (simp add: steps)
qed

lemma read_unsigned_Nil: "read_unsigned negative [] = None"
  by (simp add: read_unsigned_def)

lemma read_number_append:
  "read_number s = Some (x, r) \<Longrightarrow> r \<noteq> [] \<or> number_stop q \<Longrightarrow> read_number (s @ q) = Some (x, r @ q)"
  using read_unsigned_append[of False s x r q] read_unsigned_append[of True "tl s" x r q]
  by (cases s) (auto simp: read_number_def split: if_splits)

definition reads_on :: "js_value \<Rightarrow> js_string \<Rightarrow> js_string \<Rightarrow> bool" where
  "reads_on v r q \<longleftrightarrow> r \<noteq> [] \<or> number_stop q \<or> (\<forall>x. v \<noteq> JNumber x)"

lemma read_word_append: "read_word w v s = Some (v', r) \<Longrightarrow> read_word w v (s @ q) = Some (v', r @ q)"
  by (auto simp: read_word_def split: if_splits) (metis length_js_of length_take min_def_raw nle_le diff_is_0_eq' append_Nil2 take0)

lemma read_append:
  "read_value n s = Some (v, r) \<Longrightarrow> n \<le> m \<Longrightarrow> reads_on v r q \<Longrightarrow> read_value m (s @ q) = Some (v, r @ q)"
  "read_elements n s = Some (vs, r) \<Longrightarrow> n \<le> m \<Longrightarrow> read_elements m (s @ q) = Some (vs, r @ q)"
  "read_members n es s = Some (es', r) \<Longrightarrow> n \<le> m \<Longrightarrow> read_members m es (s @ q) = Some (es', r @ q)"
proof (induction n s and n s and n es s arbitrary: v r m and vs r m and es' r m
    rule: read_value_read_elements_read_members.induct)
  case (2 n s)
  then obtain m' where m: "m = Suc m'" "n \<le> m'" by (cases m) auto
  from 2(3) obtain u us where s: "skip_space s = u # us" by (auto split: list.splits)
  show ?case
  proof (cases "u = 0x7B \<or> u = 0x5B")
    case True
    with 2(3) s obtain c cs where c: "skip_space us = c # cs" by (auto split: list.splits if_splits)
    show ?thesis
      using 2 s c m True skip_space_append[OF s, of q] skip_space_append[OF c, of q]
      by (auto split: if_splits)
  next
    case False
    with 2(3) s show ?thesis
      using 2(5) m skip_space_append[OF s, of q] read_string_append[of us] read_word_append[of _ _ "u # us" _ _ q]
        read_number_append[of "u # us" _ _ q]
      by (auto simp: reads_on_def split: if_splits)
  qed
next
  case (4 n s)
  then obtain m' where m: "m = Suc m'" "n \<le> m'" by (cases m) auto
  from 4(3) obtain v s' u us where run: "read_value n s = Some (v, s')" "skip_space s' = u # us"
    by (auto split: option.splits list.splits)
  then have "reads_on v s' q" by (auto simp: reads_on_def skip_space_def)
  with 4(1)[OF run(1) m(2)] have "read_value m' (s @ q) = Some (v, s' @ q)" by simp
  with 4 run m skip_space_append[OF run(2), of q] show ?case by (auto split: if_splits)
next
  case (6 n es s)
  then obtain m' where m: "m = Suc m'" "n \<le> m'" by (cases m) auto
  from 6(3) obtain u us k s1 c s2 v s3 d s4 where run: "skip_space s = u # us" "u = 0x22" "read_string us = Some (k, s1)"
    "skip_space s1 = c # s2" "c = 0x3A" "read_value n s2 = Some (v, s3)" "skip_space s3 = d # s4"
    by (auto split: option.splits list.splits if_splits)
  then have "reads_on v s3 q" by (auto simp: reads_on_def skip_space_def)
  with 6(1)[OF run(1) _ run(3) _ run(4) _ run(6) m(2)] run have "read_value m' (s2 @ q) = Some (v, s3 @ q)" by simp
  with 6 run m skip_space_append[OF run(1), of q] skip_space_append[OF run(4), of q] skip_space_append[OF run(7), of q]
    read_string_append[OF run(3), of q] show ?case by (auto split: if_splits)
qed auto

subsection \<open>Reading what \<open>JSON.stringify\<close> wrote\<close>

lemma hex_value_digit: "d < 16 \<Longrightarrow> hex_value (hex_digit d) = Some d"
  by (auto simp: hex_value_def hex_digit_def unsigned_of_nat take_bit_eq_mod Let_def)

lemma hex_digits_nat: "((n div 4096 * 16 + n div 256 mod 16) * 16 + n div 16 mod 16) * 16 + n mod 16 = (n :: nat)"
proof -
  have "n div 4096 * 16 + n div 256 mod 16 = n div 256"
    using div_mult_mod_eq[of "n div 256" 16] by (simp add: div_mult2_eq[symmetric])
  moreover have "n div 256 * 16 + n div 16 mod 16 = n div 16"
    using div_mult_mod_eq[of "n div 16" 16] by (simp add: div_mult2_eq[symmetric])
  ultimately show ?thesis by simp
qed

lemma hex_unit_digits:
  "hex_unit (hex_digit (unat u div 4096)) (hex_digit (unat u div 256 mod 16)) (hex_digit (unat u div 16 mod 16))
     (hex_digit (unat u mod 16)) = Some u"
proof -
  have "unat u < 65536" using unsigned_less[of u] by simp
  then have "unat u div 4096 < 16" by (simp add: less_mult_imp_div_less)
  then show ?thesis
    unfolding hex_unit_def by (simp only: hex_value_digit hex_digits_nat mod_less_divisor zero_less_numeral option.case prod.case) simp
qed

lemma read_unicode_escape: "read_string (unicode_escape u @ s) = prepend u (read_string s)"
  using hex_unit_digits[of u] by (simp add: unicode_escape_def Let_def)

lemma read_quoted: "read_string (quoted_units s @ 0x22 # rest) = Some (s, rest)"
proof (induction s rule: length_induct)
  case (1 s)
  then have ih: "length s' < length s \<Longrightarrow> read_string (quoted_units s' @ 0x22 # rest) = Some (s', rest)" for s' by blast
  show ?case
  proof (cases s)
    case Nil
    then show ?thesis by simp
  next
    case (Cons u us)
    then have us: "read_string (quoted_units us @ 0x22 # rest) = Some (us, rest)" by (intro ih) simp
    consider "u \<in> {8, 9, 10, 12, 13, 0x22, 0x5C}" | "u \<notin> {8, 9, 10, 12, 13, 0x22, 0x5C}" "unat u < 0x20"
      | "u \<notin> {8, 9, 10, 12, 13, 0x22, 0x5C}" "\<not> unat u < 0x20" "0xD800 \<le> unat u \<and> unat u \<le> 0xDBFF"
      | "u \<notin> {8, 9, 10, 12, 13, 0x22, 0x5C}" "\<not> unat u < 0x20" "\<not> (0xD800 \<le> unat u \<and> unat u \<le> 0xDBFF)"
      by blast
    then show ?thesis
    proof cases
      case 1
      with us Cons show ?thesis by (auto simp: escaped_def prepend_def)
    next
      case 2
      with us Cons show ?thesis by (auto simp: read_unicode_escape prepend_def)
    next
      case high: 3
      show ?thesis
      proof (cases "\<exists>v vs. us = v # vs \<and> 0xDC00 \<le> unat v \<and> unat v \<le> 0xDFFF")
        case True
        then obtain v vs where v: "us = v # vs" "0xDC00 \<le> unat v" "unat v \<le> 0xDFFF" by blast
        then have "v \<noteq> 0x22" "v \<noteq> 0x5C" by auto
        moreover have "read_string (quoted_units vs @ 0x22 # rest) = Some (vs, rest)" by (intro ih) (simp add: Cons v(1))
        ultimately show ?thesis using v high by (simp add: prepend_def Cons)
      next
        case False
        then have "quoted_units (u # us) = unicode_escape u @ quoted_units us"
          using high by (cases us) auto
        with us Cons show ?thesis by (simp add: read_unicode_escape prepend_def del: quoted_units.simps)
      qed
    next
      case plain: 4
      then show ?thesis
        using us Cons by (cases "0xDC00 \<le> unat u \<and> unat u \<le> 0xDFFF") (auto simp: read_unicode_escape prepend_def)
    qed
  qed
qed

text \<open>A value that \<open>JSON.stringify\<close> writes without loss, apart from how its numbers read.\<close>

definition number_reads :: "js_number \<Rightarrow> bool" where
  "number_reads x \<longleftrightarrow> is_finite x \<and> read_number (js_of (number_text x)) = Some (x, [])"

fun json_ok :: "js_value \<Rightarrow> bool" and json_all :: "js_value list \<Rightarrow> bool" and json_entries :: "(js_string \<times> js_value) list \<Rightarrow> bool" where
  "json_ok JNull = True"
| "json_ok (JBool b) = True"
| "json_ok (JNumber x) = number_reads x"
| "json_ok (JString s) = True"
| "json_ok (JArray vs) = json_all vs"
| "json_ok (JObject symbols es) = (\<not> symbols \<and> own_order es \<and> json_entries es)"
| "json_ok v = False"
| "json_all [] = True"
| "json_all (v # vs) = (json_ok v \<and> json_all vs)"
| "json_entries [] = True"
| "json_entries ((k, v) # es) = (json_ok v \<and> json_entries es)"

text \<open>What may follow a value.\<close>

definition value_stop :: "js_string \<Rightarrow> bool" where
  "value_stop q \<longleftrightarrow> q = [] \<or> hd q \<in> {0x2C, 0x5D, 0x7D}"

lemma value_stop_number: "value_stop q \<Longrightarrow> number_stop q"
  by (auto simp: value_stop_def number_stop_def is_digit_def digit_of_def)

lemma read_number_start: "read_number (u # us) = Some r \<Longrightarrow> u = 0x2D \<or> is_digit u"
  by (auto simp: read_number_def read_unsigned_def split: if_splits)

lemma skip_none: "\<not> json_space u \<Longrightarrow> skip_space (u # s) = u # s"
  by (simp add: skip_space_def)

lemma set_property_snoc: "own_order (es @ [(k, v)]) \<Longrightarrow> set_property k v es = es @ [(k, v)]"
  using own_order_snoc[of es k v] by (auto simp: set_property_def own_order_def)

lemma number_text_start:
  "number_reads x \<Longrightarrow> \<exists>u us. js_of (number_text x) = u # us \<and> u \<notin> {9, 10, 13, 32, 0x7B, 0x5B, 0x5D, 0x22, 0x74, 0x66, 0x6E}"
proof -
  assume "number_reads x"
  then have x: "read_number (js_of (number_text x)) = Some (x, [])" by (simp add: number_reads_def)
  then obtain u us where u: "js_of (number_text x) = u # us" by (cases "js_of (number_text x)") (auto simp: read_number_def)
  with x have "u = 0x2D \<or> is_digit u" by (auto dest: read_number_start)
  then have "u \<notin> {9, 10, 13, 32, 0x7B, 0x5B, 0x5D, 0x22, 0x74, 0x66, 0x6E}" by (auto simp: is_digit_def digit_of_def)
  with u show ?thesis by blast
qed

lemma read_number_value:
  assumes "number_reads x" "value_stop q" "0 < n"
  shows "read_value n (js_of (number_text x) @ q) = Some (JNumber x, q)"
proof -
  from assms(1) have x: "read_number (js_of (number_text x)) = Some (x, [])" by (simp add: number_reads_def)
  from number_text_start[OF assms(1)] obtain u us where u: "js_of (number_text x) = u # us"
    "u \<notin> {9, 10, 13, 32, 0x7B, 0x5B, 0x5D, 0x22, 0x74, 0x66, 0x6E}" by blast
  from x have "read_number (u # us @ q) = Some (x, q)"
    using read_number_append[OF x] value_stop_number[OF assms(2)] by (simp add: u)
  moreover obtain m where "n = Suc m" using assms(3) by (cases n) auto
  ultimately show ?thesis using u by (simp add: skip_space_def json_space_def)
qed

lemma json_ok_text:
  "json_ok v \<Longrightarrow> \<exists>t. json_text v = Inr (Some t)"
  "json_all vs \<Longrightarrow> \<exists>ps. json_elements vs = Inr ps"
  "json_entries es \<Longrightarrow> \<exists>ps. json_properties es = Inr ps"
  by (induction v and vs and es rule: json_ok_json_all_json_entries.induct) (auto simp: result_simps)

lemma json_elements_length: "json_elements vs = Inr ps \<Longrightarrow> length ps = length vs"
  by (induction vs arbitrary: ps) (auto simp: result_simps)

lemma json_properties_length: "json_entries es \<Longrightarrow> json_properties es = Inr ps \<Longrightarrow> length ps = length es"
proof (induction es arbitrary: ps)
  case (Cons e es)
  obtain k v where e: "e = (k, v)" by fastforce
  with Cons json_ok_text(1)[of v] show ?case by (auto simp: result_simps)
qed simp

lemma json_literals [simp]:
  "js_of '''' = []" "js_of ''['' = [0x5B]" "js_of '']'' = [0x5D]" "js_of ''{'' = [0x7B]" "js_of ''}'' = [0x7D]"
  "js_of '','' = [0x2C]" "js_of '':'' = [0x3A]"
  "js_of ''null'' = [0x6E, 0x75, 0x6C, 0x6C]" "js_of ''true'' = [0x74, 0x72, 0x75, 0x65]"
  "js_of ''false'' = [0x66, 0x61, 0x6C, 0x73, 0x65]"
  by (simp_all add: js_of_def)

lemma join_more: "ps \<noteq> [] \<Longrightarrow> join sep (p # ps) = p @ sep @ join sep ps"
  by (cases ps) auto

lemma read_json_text:
  "json_ok v \<Longrightarrow> json_text v = Inr (Some t) \<Longrightarrow> value_stop q \<Longrightarrow> 2 * length t \<le> n \<Longrightarrow>
     t \<noteq> [] \<and> \<not> json_space (hd t) \<and> hd t \<noteq> 0x5D \<and> read_value n (t @ q) = Some (v, q)"
  "json_all vs \<Longrightarrow> vs \<noteq> [] \<Longrightarrow> json_elements vs = Inr ps \<Longrightarrow> 2 * length (join [0x2C] ps) + 1 \<le> n \<Longrightarrow>
     ps \<noteq> [] \<and> join [0x2C] ps \<noteq> [] \<and> \<not> json_space (hd (join [0x2C] ps)) \<and> hd (join [0x2C] ps) \<noteq> 0x5D \<and>
     read_elements n (join [0x2C] ps @ 0x5D # q) = Some (vs, q)"
  "json_entries es \<Longrightarrow> es \<noteq> [] \<Longrightarrow> own_order (acc @ es) \<Longrightarrow> json_properties es = Inr ps \<Longrightarrow>
     2 * length (join [0x2C] ps) + 1 \<le> n \<Longrightarrow>
     ps \<noteq> [] \<and> join [0x2C] ps \<noteq> [] \<and> hd (join [0x2C] ps) = 0x22 \<and>
     read_members n acc (join [0x2C] ps @ 0x7D # q) = Some (acc @ es, q)"
proof (induction v and vs and es arbitrary: t q n and ps q n and acc ps q n rule: json_ok_json_all_json_entries.induct)
  case 1
  then show ?case by (cases n) (auto simp: read_word_def skip_none json_space_def)
next
  case (2 b)
  then show ?case by (cases n) (auto simp: read_word_def skip_none json_space_def split: if_splits)
next
  case (3 x)
  then have x: "number_reads x" "t = js_of (number_text x)" by (auto simp: number_reads_def)
  from number_text_start[OF x(1)] obtain u us where u: "js_of (number_text x) = u # us"
    "u \<notin> {9, 10, 13, 32, 0x7B, 0x5B, 0x5D, 0x22, 0x74, 0x66, 0x6E}" by blast
  with 3(4) x(2) have "0 < n" by simp
  with read_number_value[OF x(1) 3(3)] u x(2) show ?case by (simp add: json_space_def)
next
  case (4 s)
  then show ?case by (cases n) (auto simp: quote_def read_quoted skip_none json_space_def)
next
  case (5 vs)
  then obtain ps where ps: "json_elements vs = Inr ps" "t = 0x5B # join [0x2C] ps @ [0x5D]" by (auto simp: result_simps)
  from 5(5) ps obtain m where n: "n = Suc m" "2 * length (join [0x2C] ps) + 1 \<le> m" by (cases n) auto
  show ?case
  proof (cases "vs = []")
    case True
    with ps n show ?thesis by (simp add: skip_none json_space_def)
  next
    case False
    from 5(1)[OF _ False ps(1) n(2)] 5(2)
    have "join [0x2C] ps \<noteq> []" "\<not> json_space (hd (join [0x2C] ps))" "hd (join [0x2C] ps) \<noteq> 0x5D"
      "read_elements m (join [0x2C] ps @ 0x5D # q) = Some (vs, q)" for q by auto
    with ps n show ?thesis by (cases "join [0x2C] ps") (auto simp: skip_none json_space_def)
  qed
next
  case (6 symbols es)
  then obtain ps where ps: "json_properties es = Inr ps" "t = 0x7B # join [0x2C] ps @ [0x7D]" by (auto simp: result_simps)
  from 6(5) ps obtain m where n: "n = Suc m" "2 * length (join [0x2C] ps) + 1 \<le> m" by (cases n) auto
  show ?case
  proof (cases "es = []")
    case True
    with ps n 6(2) show ?thesis by (simp add: skip_none json_space_def)
  next
    case False
    from 6(1)[OF _ False _ ps(1) n(2), of "[]"] 6(2)
    have "join [0x2C] ps \<noteq> []" "hd (join [0x2C] ps) = 0x22"
      "read_members m [] (join [0x2C] ps @ 0x7D # q) = Some (es, q)" for q by auto
    with ps n 6(2) show ?thesis by (cases "join [0x2C] ps") (auto simp: skip_none json_space_def)
  qed
next
  case (9 v vs)
  then obtain t ps' where t: "json_text v = Inr (Some t)" "json_elements vs = Inr ps'" "ps = t # ps'"
    using json_ok_text(1)[of v] by (auto simp: result_simps)
  from 9(6) obtain m where n: "n = Suc m" by (cases n) auto
  show ?case
  proof (cases "vs = []")
    case True
    with t have ps: "ps = [t]" by simp
    have "t \<noteq> [] \<and> \<not> json_space (hd t) \<and> hd t \<noteq> 0x5D \<and> read_value m (t @ 0x5D # q) = Some (v, 0x5D # q)"
      by (rule 9(1)) (use 9(3,6) t ps n in \<open>auto simp: value_stop_def\<close>)
    with True ps n show ?thesis by (simp add: skip_none json_space_def)
  next
    case False
    with 9(3) json_elements_length[OF t(2)] have ps': "ps' \<noteq> []" by auto
    from 9(6) ps' t n have m: "2 * length t \<le> m" "2 * length (join [0x2C] ps') + 1 \<le> m" by (auto simp: join_more)
    have "t \<noteq> [] \<and> \<not> json_space (hd t) \<and> hd t \<noteq> 0x5D \<and>
        read_value m (t @ 0x2C # join [0x2C] ps' @ 0x5D # q) = Some (v, 0x2C # join [0x2C] ps' @ 0x5D # q)"
      by (rule 9(1)) (use 9(3) t m in \<open>auto simp: value_stop_def\<close>)
    moreover have "read_elements m (join [0x2C] ps' @ 0x5D # q) = Some (vs, q)"
      using 9(2)[OF _ False t(2) m(2)] 9(3) by simp
    ultimately show ?thesis using t(3) n ps' by (simp add: join_more skip_none json_space_def)
  qed
next
  case (11 k v es)
  then obtain t ps' where t: "json_text v = Inr (Some t)" "json_properties es = Inr ps'" "ps = (quote k @ 0x3A # t) # ps'"
    using json_ok_text(1)[of v] by (auto simp: result_simps)
  from 11(7) obtain m where n: "n = Suc m" by (cases n) auto
  have acc: "set_property k v acc = acc @ [(k, v)]"
    using 11(5) own_order_appendD[of "acc @ [(k, v)]" es] by (intro set_property_snoc) simp
  show ?case
  proof (cases "es = []")
    case True
    with t have ps: "ps = [quote k @ 0x3A # t]" by simp
    have "read_value m (t @ 0x7D # q) = Some (v, 0x7D # q)"
      using 11(1)[OF _ t(1), of "0x7D # q" m] 11(3,7) ps n by (auto simp: value_stop_def quote_def)
    with True ps n acc show ?thesis by (simp add: skip_none json_space_def quote_def read_quoted)
  next
    case False
    with 11(3) json_properties_length[OF _ t(2)] have ps': "ps' \<noteq> []" by auto
    from 11(7) ps' t n have m: "2 * length t \<le> m" "2 * length (join [0x2C] ps') + 1 \<le> m" by (auto simp: join_more)
    have "read_value m (t @ 0x2C # join [0x2C] ps' @ 0x7D # q) = Some (v, 0x2C # join [0x2C] ps' @ 0x7D # q)"
      using 11(1)[OF _ t(1), of "0x2C # join [0x2C] ps' @ 0x7D # q" m] 11(3) m by (auto simp: value_stop_def)
    moreover have "read_members m (acc @ [(k, v)]) (join [0x2C] ps' @ 0x7D # q) = Some ((acc @ [(k, v)]) @ es, q)"
      using 11(2)[OF _ False _ t(2) m(2), of "acc @ [(k, v)]"] 11(3,5) by simp
    ultimately show ?thesis using t(3) n ps' acc by (simp add: join_more skip_none json_space_def quote_def read_quoted)
  qed
qed auto

theorem json_parse_stringify:
  "json_ok v \<Longrightarrow> json_text v = Inr (Some t) \<Longrightarrow> json_parse t = Some v"
  using read_json_text(1)[of v t "[]" "2 * length t + 1"] by (simp add: json_parse_def value_stop_def skip_space_def)

text \<open>A proper prefix of the text of an object is not JSON.\<close>

lemma value_start_object: "read_value n (0x7B # s) = Some (v, r) \<Longrightarrow> v \<noteq> JNumber x"
  by (cases n) (auto simp: skip_space_def json_space_def split: list.splits if_splits)

theorem json_parse_torn:
  assumes "json_ok (JObject symbols es)" and "json_text (JObject symbols es) = Inr (Some (p @ q))" and "q \<noteq> []"
  shows "json_parse p = None"
proof (rule ccontr)
  assume "json_parse p \<noteq> None"
  then obtain v r where p: "read_value (2 * length p + 1) p = Some (v, r)" "skip_space r = []"
    by (auto simp: json_parse_def split: option.splits if_splits)
  then obtain u us where "p = u # us" by (cases p) (auto simp: skip_space_def)
  moreover from assms(2) have "\<exists>ts. p @ q = 0x7B # ts" by (auto simp: result_simps dest: sym)
  ultimately have "p = 0x7B # us" by auto
  with p(1) have "v \<noteq> JNumber x" for x using value_start_object[of "2 * length p + 1" us v r] by simp
  then have "reads_on v r q" by (simp add: reads_on_def)
  from read_append(1)[OF p(1) _ this, of "2 * length (p @ q) + 1"]
  have "read_value (2 * length (p @ q) + 1) (p @ q) = Some (v, r @ q)" by simp
  moreover have "read_value (2 * length (p @ q) + 1) (p @ q) = Some (JObject symbols es, [])"
    using read_json_text(1)[OF assms(1,2), of "[]" "2 * length (p @ q) + 1"] by (simp add: value_stop_def)
  ultimately show False using assms(3) by simp
qed

text \<open>The text of a value is one line.\<close>

lemma not_digit_newline [simp]: "\<not> is_digit 10"
  by (simp add: is_digit_def digit_of_def)

lemma digits_no_newline: "10 \<notin> set (takeWhile is_digit s)"
  by (auto dest!: set_takeWhileD simp: is_digit_def digit_of_def)

lemma newline_in_rest: "10 \<in> set s \<Longrightarrow> 10 \<in> set (dropWhile is_digit s)"
  using digits_no_newline[of s] takeWhile_dropWhile_id[of is_digit s] by (metis Un_iff set_append)

lemma read_fraction_newline: "read_fraction s = Some (fs, r) \<Longrightarrow> 10 \<in> set s \<Longrightarrow> 10 \<in> set r"
  by (auto simp: read_fraction_def newline_in_rest split: list.splits if_splits)

lemma read_exponent_newline: "read_exponent s = Some (e, r) \<Longrightarrow> 10 \<in> set s \<Longrightarrow> 10 \<in> set r"
  by (auto simp: read_exponent_def newline_in_rest Let_def split: list.splits if_splits)

lemma read_unsigned_newline: "read_unsigned negative s = Some (x, r) \<Longrightarrow> 10 \<in> set s \<Longrightarrow> 10 \<in> set r"
proof -
  assume *: "read_unsigned negative s = Some (x, r)" "10 \<in> set s"
  from *(1) obtain fs s' e where "read_fraction (dropWhile is_digit s) = Some (fs, s')" "read_exponent s' = Some (e, r)"
    by (auto simp: read_unsigned_def Let_def simp del: takeWhile_eq_Nil_iff split: if_splits option.splits)
  with newline_in_rest[OF *(2)] show ?thesis by (blast dest: read_fraction_newline read_exponent_newline)
qed

lemma read_number_newline: "read_number s = Some (x, r) \<Longrightarrow> 10 \<in> set s \<Longrightarrow> 10 \<in> set r"
  by (auto simp: read_number_def split: list.splits if_splits dest: read_unsigned_newline)

lemma hex_digit_no_newline: "d < 16 \<Longrightarrow> hex_digit d \<noteq> 10"
proof
  assume "d < 16" "hex_digit d = 10"
  then have "hex_value 10 = Some d" using hex_value_digit by metis
  then show False by (simp add: hex_value_def)
qed

lemma escape_no_newline: "10 \<notin> set (unicode_escape u)"
proof -
  have "unat u < 65536" using unsigned_less[of u] by simp
  then have "unat u div 4096 < 16" by (simp add: less_mult_imp_div_less)
  then show ?thesis
    using hex_digit_no_newline by (auto simp: unicode_escape_def Let_def dest: sym)
qed

lemma quoted_no_newline: "10 \<notin> set (quoted_units s)"
proof (induction s rule: length_induct)
  case (1 s)
  then have ih: "length s' < length s \<Longrightarrow> 10 \<notin> set (quoted_units s')" for s' by blast
  show ?case
  proof (cases s)
    case (Cons u us)
    then have us: "10 \<notin> set (quoted_units us)" by (intro ih) simp
    show ?thesis
    proof (cases "0xD800 \<le> unat u \<and> unat u \<le> 0xDBFF")
      case True
      then have u: "u \<notin> {8, 9, 10, 12, 13, 0x22, 0x5C}" "\<not> unat u < 0x20" by auto
      show ?thesis
      proof (cases us)
        case Nil
        with True u Cons show ?thesis by (simp add: escape_no_newline)
      next
        case v: (Cons v vs)
        have "10 \<notin> set (quoted_units vs)" by (intro ih) (simp add: Cons v)
        moreover have "quoted_units (u # v # vs) = (if 0xDC00 \<le> unat v \<and> unat v \<le> 0xDFFF then u # v # quoted_units vs
            else unicode_escape u @ quoted_units (v # vs))" using True u by (subst quoted_units.simps(2)) simp
        moreover have "u \<noteq> 10" "0xDC00 \<le> unat v \<Longrightarrow> v \<noteq> 10" using u by auto
        ultimately show ?thesis using us Cons v by (simp add: escape_no_newline del: quoted_units.simps)
      qed
    next
      case False
      then show ?thesis unfolding Cons quoted_units.simps(2) if_not_P[OF False] using us by (simp add: escape_no_newline)
    qed
  qed simp
qed

lemma quote_no_newline: "10 \<notin> set (quote s)"
  using quoted_no_newline[of s] by (simp add: quote_def)

lemma join_no_newline: "10 \<in> set (join [0x2C] ps) \<longleftrightarrow> (\<exists>p \<in> set ps. 10 \<in> set (p :: js_string))"
  by (induction "[0x2C] :: js_string" ps rule: join.induct) auto

lemma json_one_line:
  "json_ok v \<Longrightarrow> json_text v = Inr (Some t) \<Longrightarrow> 10 \<notin> set t"
  "json_all vs \<Longrightarrow> json_elements vs = Inr ps \<Longrightarrow> \<forall>p \<in> set ps. 10 \<notin> set p"
  "json_entries es \<Longrightarrow> json_properties es = Inr ps \<Longrightarrow> \<forall>p \<in> set ps. 10 \<notin> set p"
proof (induction v and vs and es arbitrary: t and ps and ps rule: json_ok_json_all_json_entries.induct)
  case (3 x)
  then show ?case using read_number_newline by (fastforce simp: number_reads_def)
next
  case (9 v vs)
  with json_ok_text(1)[of v] show ?case by (auto simp: result_simps)
next
  case (11 k v es)
  with json_ok_text(1)[of v] quote_no_newline[of k] show ?case by (auto simp: result_simps)
qed (auto simp: result_simps quote_no_newline join_no_newline split: if_splits)

subsection \<open>Integers\<close>

lemma digits_value_append:
  "digits_value a (xs @ ys) = (case digits_value a xs of None \<Rightarrow> None | Some n \<Rightarrow> digits_value n ys)"
  by (induction xs arbitrary: a) (auto split: option.splits)

lemma js_of_append: "js_of (s @ t) = js_of s @ js_of t"
  by (simp add: js_of_def)

lemma js_digit: "d < 10 \<Longrightarrow> js_of [char_of (48 + d)] = [word_of_nat (48 + d)] \<and> digit_of (word_of_nat (48 + d)) = Some d"
  by (simp add: js_of_def digit_of_def unsigned_of_nat take_bit_eq_mod del: of_nat_add)

lemma show_nat_digits:
  "digits_value 0 (js_of (show_nat n)) = Some n \<and> (\<forall>u \<in> set (js_of (show_nat n)). is_digit u) \<and> show_nat n \<noteq> [] \<and>
   (hd (js_of (show_nat n)) = 48 \<longrightarrow> n = 0)"
proof (induction n rule: show_nat.induct)
  case (1 n)
  show ?case
  proof (cases "n < 10")
    case True
    then show ?thesis
      using js_digit[OF True] by (subst (1 2 3 4) show_nat.simps) (auto simp: is_digit_def digit_of_def)
  next
    case False
    then have s: "show_nat n = show_nat (n div 10) @ [char_of (48 + n mod 10)]" by (subst show_nat.simps) simp
    have "n mod 10 < 10" by simp
    from js_digit[OF this] have d: "digits_value 0 (js_of (show_nat n)) = Some n" "\<forall>u \<in> set (js_of (show_nat n)). is_digit u"
      using 1[OF False] by (auto simp: s js_of_append digits_value_append is_digit_def)
    have "js_of (show_nat (n div 10)) \<noteq> []" using 1[OF False] by (simp add: js_of_def)
    then have "hd (js_of (show_nat n)) = hd (js_of (show_nat (n div 10)))" by (simp add: s js_of_append)
    with d 1[OF False] False show ?thesis by (auto simp: s)
  qed
qed

lemma read_unsigned_numeral:
  "int n < 2 ^ 53 \<Longrightarrow> read_unsigned negative (js_of (show_nat n)) =
     Some (if n = 0 \<and> negative then JDouble negative_zero else JInt (if negative then - int n else int n), [])"
proof -
  assume n: "int n < 2 ^ 53"
  note d = show_nat_digits[of n]
  have "length (show_nat 0) = 1" by (subst show_nat.simps) simp
  then have lead: "\<not> (js_of (show_nat n) = [] \<or> hd (js_of (show_nat n)) = 48 \<and> 1 < length (js_of (show_nat n)))"
    using d by (cases "n = 0") (auto simp: js_of_def)
  have all: "takeWhile is_digit (js_of (show_nat n)) = js_of (show_nat n)" "dropWhile is_digit (js_of (show_nat n)) = []"
    using d by auto
  have "n < 2 ^ 53" using n by simp
  then show ?thesis
    unfolding read_unsigned_def Let_def all if_not_P[OF lead] read_fraction_Nil
    using d by (simp add: read_exponent_Nil number_of_digits_def digits_number_def)
qed

lemma integer_reads: "\<bar>n\<bar> < 2 ^ 53 \<Longrightarrow> number_reads (JInt n)"
proof (cases "n < 0")
  case True
  assume "\<bar>n\<bar> < 2 ^ 53"
  with True read_unsigned_numeral[of "nat (- n)" True] show ?thesis
    by (auto simp: number_reads_def number_text_def show_int_def read_number_def js_of_def)
next
  case False
  assume small: "\<bar>n\<bar> < 2 ^ 53"
  obtain u us where u: "js_of (show_nat (nat n)) = u # us" using show_nat_digits[of "nat n"] by (cases "js_of (show_nat (nat n))") (auto simp: js_of_def)
  with show_nat_digits[of "nat n"] have "u \<noteq> 0x2D" by (auto simp: is_digit_def digit_of_def)
  with False small u read_unsigned_numeral[of "nat n" False] show ?thesis
    by (simp add: number_reads_def number_text_def show_int_def read_number_def)
qed


subsection \<open>The fuel is enough\<close>

lemma read_string_shorter: "read_string s = Some (t, r) \<Longrightarrow> length r < length s"
proof (induction s arbitrary: t r rule: length_induct)
  case (1 s)
  then obtain u us where s: "s = u # us" by (cases s) auto
  have ih: "length r' < length s'" if "length s' < length s" "read_string s' = Some (t', r')" for s' t' r'
    using 1(1) that by blast
  consider "u = 0x22" | "u = 0x5C" "\<not> unat u < 0x20" | "u \<noteq> 0x22" "u \<noteq> 0x5C" "\<not> unat u < 0x20"
    using 1(2) s by (auto split: if_splits)
  then show ?case
  proof cases
    case 2
    with 1(2) s obtain e vs where us: "us = e # vs" by (cases us) auto
    show ?thesis
    proof (cases "e = 0x75")
      case True
      from 1(2) 2 s us True obtain a b c d ws x where x: "vs = a # b # c # d # ws" "hex_unit a b c d = Some x"
        "prepend x (read_string ws) = Some (t, r)"
        by (simp split: list.splits option.splits)
      with ih[of ws] s us show ?thesis by (auto simp: prepend_Some)
    next
      case False
      with 1(2) 2 s us obtain x where "prepend x (read_string vs) = Some (t, r)" by (simp split: option.splits)
      with ih[of vs] s us show ?thesis by (auto simp: prepend_Some)
    qed
  next
    case 3
    with 1(2) s ih[of us] show ?thesis by (auto simp: prepend_Some)
  qed (use 1(2) s in auto)
qed

lemma skip_space_length: "length (skip_space s) \<le> length s"
  by (simp add: skip_space_def length_dropWhile_le)

lemma read_fraction_shorter: "read_fraction s = Some (fs, r) \<Longrightarrow> length r \<le> length s"
  using length_dropWhile_le[of is_digit "tl s"] by (auto simp: read_fraction_def split: list.splits if_splits)

lemma read_exponent_shorter: "read_exponent s = Some (e, r) \<Longrightarrow> length r \<le> length s"
proof (cases s)
  case (Cons u us)
  then show "read_exponent s = Some (e, r) \<Longrightarrow> ?thesis"
    using length_dropWhile_le[of is_digit us] length_dropWhile_le[of is_digit "tl us"]
    by (cases us) (auto simp: read_exponent_def Let_def split: if_splits)
qed (simp add: read_exponent_def)

lemma read_unsigned_shorter: "read_unsigned negative s = Some (x, r) \<Longrightarrow> length r < length s"
proof -
  assume *: "read_unsigned negative s = Some (x, r)"
  then obtain fs s' e where run: "takeWhile is_digit s \<noteq> []" "read_fraction (dropWhile is_digit s) = Some (fs, s')"
    "read_exponent s' = Some (e, r)"
    by (auto simp: read_unsigned_def Let_def simp del: takeWhile_eq_Nil_iff split: if_splits option.splits)
  have "length (takeWhile is_digit s) + length (dropWhile is_digit s) = length s"
    by (metis length_append takeWhile_dropWhile_id)
  with run(1) have "length (dropWhile is_digit s) < length s" by (cases "takeWhile is_digit s") auto
  with read_fraction_shorter[OF run(2)] read_exponent_shorter[OF run(3)] show ?thesis by simp
qed

lemma read_number_shorter: "read_number s = Some (x, r) \<Longrightarrow> length r < length s"
  by (auto simp: read_number_def split: list.splits if_splits dest!: read_unsigned_shorter)

lemma read_word_shorter: "w \<noteq> [] \<Longrightarrow> read_word w v (u # us) = Some (v', r) \<Longrightarrow> length r < Suc (length us)"
  by (cases w) (auto simp: read_word_def split: if_splits)

lemma read_shorter:
  "read_value n s = Some (v, r) \<Longrightarrow> length r < length s"
  "read_elements n s = Some (vs, r) \<Longrightarrow> length r < length s"
  "read_members n es s = Some (es', r) \<Longrightarrow> length r < length s"
proof (induction n s and n s and n es s arbitrary: v r and vs r and es' r
    rule: read_value_read_elements_read_members.induct)
  case (2 n s)
  from 2(3) obtain u us where s: "skip_space s = u # us" by (auto split: list.splits)
  with skip_space_length[of s] have len: "Suc (length us) \<le> length s" by simp
  show ?case
  proof (cases "u = 0x7B \<or> u = 0x5B")
    case True
    with 2(3) s obtain c cs where c: "skip_space us = c # cs" by (auto split: list.splits if_splits)
    with skip_space_length[of us] len have "Suc (Suc (length cs)) \<le> length s" by simp
    then show ?thesis using 2 s c True by (fastforce split: if_splits)
  next
    case False
    with 2(3) s len show ?thesis
      by (auto split: if_splits dest!: read_string_shorter read_number_shorter read_word_shorter[rotated])
  qed
next
  case (4 n s)
  from 4(3) obtain v s' u us where run: "read_value n s = Some (v, s')" "skip_space s' = u # us"
    by (auto split: option.splits list.splits)
  with skip_space_length[of s'] 4(1)[OF run(1)] have "Suc (length us) < length s" by simp
  with 4 run show ?case by (fastforce split: if_splits)
next
  case (6 n es s)
  from 6(3) obtain u us k s1 c s2 v s3 d s4 where run: "skip_space s = u # us" "u = 0x22" "read_string us = Some (k, s1)"
    "skip_space s1 = c # s2" "c = 0x3A" "read_value n s2 = Some (v, s3)" "skip_space s3 = d # s4"
    by (auto split: option.splits list.splits if_splits)
  have "length s3 < length s2" using 6(1)[OF run(1) _ run(3) _ run(4) _ run(6)] run by simp
  with skip_space_length[of s] read_string_shorter[OF run(3)] skip_space_length[of s1] skip_space_length[of s3] run(1,4,7)
  have "length s4 < length s" by simp
  with 6 run show ?case by (fastforce split: if_splits)
qed auto

text \<open>From some fuel on, linear in the length of the text, the result does not depend on the fuel.\<close>

lemma fuel_enough:
  "2 * length s + 1 \<le> n \<Longrightarrow> 2 * length s + 1 \<le> m \<Longrightarrow> read_value n s = read_value m s"
  "2 * length s + 2 \<le> n \<Longrightarrow> 2 * length s + 2 \<le> m \<Longrightarrow> read_elements n s = read_elements m s"
  "2 * length s + 2 \<le> n \<Longrightarrow> 2 * length s + 2 \<le> m \<Longrightarrow> read_members n es s = read_members m es s"
proof (induction n s and n s and n es s arbitrary: m and m and m rule: read_value_read_elements_read_members.induct)
  case (2 n s)
  from 2(4) obtain m' where m: "m = Suc m'" by (cases m) auto
  show ?case
  proof (cases "skip_space s")
    case Nil
    then show ?thesis by (simp add: m)
  next
    case (Cons u us)
    show ?thesis
    proof (cases "skip_space us")
      case Nil
      with Cons show ?thesis by (simp add: m)
    next
      case c: (Cons c cs)
      from Cons skip_space_length[of s] c skip_space_length[of us] have "length (c # cs) + 1 \<le> length s" by simp
      then have "read_members n [] (c # cs) = read_members m' [] (c # cs)" if "u = 0x7B" "c \<noteq> 0x7D"
        using 2(1)[OF Cons that(1) c that(2)] 2(3,4) m by simp
      moreover have "read_elements n (c # cs) = read_elements m' (c # cs)" if "u = 0x5B" "c \<noteq> 0x5D"
        using 2(2)[OF Cons _ that(1) c that(2)] 2(3,4) m that \<open>length (c # cs) + 1 \<le> length s\<close> by simp
      ultimately show ?thesis using Cons c by (cases "c = 0x7D"; cases "c = 0x5D") (simp_all add: m)
    qed
  qed
next
  case (4 n s)
  from 4(4) obtain m' where m: "m = Suc m'" by (cases m) auto
  have v: "read_value n s = read_value m' s" by (rule 4(1)) (use 4(3,4) m in auto)
  show ?case
  proof (cases "read_value n s")
    case None
    with v show ?thesis by (simp add: m)
  next
    case (Some p)
    obtain x s' where p: "p = (x, s')" by fastforce
    with v Some have v': "read_value m' s = Some (x, s')" by simp
    show ?thesis
    proof (cases "skip_space s'")
      case Nil
      with v' Some p show ?thesis by (simp add: m)
    next
      case (Cons u us)
      with skip_space_length[of s'] read_shorter(1)[of n s x s'] Some p have "Suc (length us) < length s" by simp
      then have "read_elements n us = read_elements m' us" if "u \<noteq> 0x5D" "u = 0x2C"
        using 4(2)[OF Some p[symmetric] Cons that] 4(3,4) m by simp
      with v' Some p Cons show ?thesis by (simp add: m)
    qed
  qed
next
  case (6 n es s)
  from 6(4) obtain m' where m: "m = Suc m'" by (cases m) auto
  show ?case
  proof (cases "\<exists>u us k s1 c s2. skip_space s = u # us \<and> u = 0x22 \<and> read_string us = Some (k, s1) \<and> skip_space s1 = c # s2 \<and> c = 0x3A")
    case False
    then show ?thesis by (auto simp: m split: list.splits option.splits)
  next
    case True
    then obtain u us k s1 c s2 where run: "skip_space s = u # us" "u = 0x22" "read_string us = Some (k, s1)"
      "skip_space s1 = c # s2" "c = 0x3A" by blast
    with skip_space_length[of s] read_string_shorter[OF run(3)] skip_space_length[of s1] have len: "length s2 + 3 \<le> length s" by simp
    have v: "read_value n s2 = read_value m' s2"
      by (rule 6(1)) (use run 6(3,4) m len in auto)
    show ?thesis
    proof (cases "\<exists>x s3 d s4. read_value n s2 = Some (x, s3) \<and> skip_space s3 = d # s4 \<and> d = 0x2C")
      case False
      with v run show ?thesis by (auto simp: m split: list.splits option.splits)
    next
      case True
      then obtain x s3 d s4 where more: "read_value n s2 = Some (x, s3)" "skip_space s3 = d # s4" "d = 0x2C" by blast
      with skip_space_length[of s3] read_shorter(1)[OF more(1)] len have "length s4 < length s" by simp
      then have "read_members n (set_property k x es) s4 = read_members m' (set_property k x es) s4"
        using 6(2)[OF run(1) _ run(3) refl run(4) _ more(1) refl more(2) _ more(3)] run 6(3,4) m more(3) by simp
      moreover from v more(1) have "read_value m' s2 = Some (x, s3)" by simp
      ultimately show ?thesis using run more by (simp add: m)
    qed
  qed
qed auto

end
