(* ===== verification/JsonlCodec.thy ===== *)
theory JsonlCodec
  imports JsonParse
begin

section \<open>Sessions as lines of JSON\<close>

text \<open>
  \<^verbatim>\<open>packages/agent/src/harness/session/jsonl/codec.ts\<close>: the header line and the mutation lines of a
  session file. The codec looks into the properties named below and keeps an entry and a record as the
  object it is; a decoded mutation therefore holds the properties of that object.
\<close>

type_synonym properties = "(js_string \<times> js_value) list"

datatype decode_kind = JsonlSyntax | JsonlSchema

record decode_error =
  decodeKind :: decode_kind
  decodeMessage :: js_string

record jsonl_header =
  headerId :: js_string
  headerCreatedAt :: js_number
  headerCwd :: js_string
  headerParent :: "js_string option"
  headerLegacyParent :: "js_string option"
  headerMetadata :: "properties option"

datatype json_mutation =
    JEntry "js_string option" properties          \<comment> \<open>lane, entry\<close>
  | JRecord properties
  | JLane js_number js_string "js_string option"  \<comment> \<open>seq, lane, leaf id\<close>
  | JName js_number "js_string option"            \<comment> \<open>seq, name\<close>
  | JLabel js_number js_string "js_string option" \<comment> \<open>seq, target id, label\<close>

subsection \<open>Reading\<close>

definition schema_error :: "js_string \<Rightarrow> decode_error" where
  "schema_error message = \<lparr>decodeKind = JsonlSchema, decodeMessage = message\<rparr>"

definition ENTRY_TYPES :: "string list" where
  "ENTRY_TYPES = [''message'', ''model_change'', ''thinking_level_change'', ''active_tools_change'', ''compaction'',
     ''branch_summary'', ''custom'']"

definition RECORD_TYPES :: "string list" where
  "RECORD_TYPES = [''operation_started'', ''abort_requested'', ''operation_finished'', ''step_attempt'', ''tool_started'',
     ''queue_enqueued'', ''queue_cancelled'', ''write_deferred'', ''usage'']"

definition OPERATION_KINDS :: "string list" where
  "OPERATION_KINDS = [''run'', ''compaction'', ''navigation'']"

text \<open>\<open>value.name\<close>, which is \<open>undefined\<close> for a property the object does not have.\<close>

definition field :: "string \<Rightarrow> properties \<Rightarrow> js_value" where
  "field k es = (case map_of es (js_of k) of None \<Rightarrow> JUndefined | Some v \<Rightarrow> v)"

definition parseObject :: "js_string \<Rightarrow> decode_error + properties" where
  "parseObject line =
     (case json_parse line of
        None \<Rightarrow> Inl \<lparr>decodeKind = JsonlSyntax, decodeMessage = js_of ''is not valid JSON''\<rparr>
      | Some (JObject symbols es) \<Rightarrow> Inr es
      | Some v \<Rightarrow> Inl (schema_error (js_of ''is not a JSON object'')))"

definition requireString :: "js_value \<Rightarrow> string \<Rightarrow> decode_error + js_string" where
  "requireString v what =
     (case v of JString s \<Rightarrow> Inr s | _ \<Rightarrow> Inl (schema_error (js_of (''has invalid '' @ what))))"

definition requireSequence :: "js_value \<Rightarrow> decode_error + js_number" where
  "requireSequence v =
     (case v of
        JNumber n \<Rightarrow> if \<not> is_safe_integer n \<or> integer_value n \<le> 0 then Inl (schema_error (js_of ''has invalid seq'')) else Inr n
      | _ \<Rightarrow> Inl (schema_error (js_of ''has invalid seq'')))"

definition requireTimestamp :: "js_value \<Rightarrow> decode_error + js_number" where
  "requireTimestamp v =
     (case v of
        JNumber n \<Rightarrow> if \<not> is_safe_integer n \<or> integer_value n < 0 then Inl (schema_error (js_of ''has invalid timestamp'')) else Inr n
      | _ \<Rightarrow> Inl (schema_error (js_of ''has invalid timestamp'')))"

definition requireNullableId :: "js_value \<Rightarrow> string \<Rightarrow> decode_error + js_string option" where
  "requireNullableId v what =
     (case v of JNull \<Rightarrow> Inr None | JString s \<Rightarrow> Inr (Some s)
      | _ \<Rightarrow> Inl (schema_error (js_of (''has invalid '' @ what))))"

text \<open>A property that is \<open>undefined\<close> or a string.\<close>

definition optional_string :: "js_value \<Rightarrow> string \<Rightarrow> decode_error + js_string option" where
  "optional_string v what = (case v of JUndefined \<Rightarrow> Inr None | _ \<Rightarrow> and_then (requireString v what) (\<lambda>s. Inr (Some s)))"

definition decodeHeader :: "js_string \<Rightarrow> decode_error + jsonl_header" where
  "decodeHeader line =
     and_then (parseObject line) (\<lambda>v.
     and_then (throw_if (field ''kind'' v \<noteq> JString (js_of ''header'')) (schema_error (js_of ''is not a header''))) (\<lambda>_.
     and_then (throw_if (field ''version'' v \<noteq> JNumber (JInt 4)) (schema_error (js_of ''has unsupported session version''))) (\<lambda>_.
     and_then (optional_string (field ''parentSessionId'' v) ''parentSessionId'') (\<lambda>parent.
     and_then (optional_string (field ''legacyParentSessionPath'' v) ''legacyParentSessionPath'') (\<lambda>legacy.
     and_then (throw_if (parent \<noteq> None \<and> legacy \<noteq> None)
       (schema_error (js_of ''has both parentSessionId and legacyParentSessionPath''))) (\<lambda>_.
     and_then (case field ''metadata'' v of JUndefined \<Rightarrow> Inr None | JObject symbols es \<Rightarrow> Inr (Some es)
               | _ \<Rightarrow> Inl (schema_error (js_of ''has invalid metadata''))) (\<lambda>metadata.
     and_then (requireString (field ''id'' v) ''id'') (\<lambda>i.
     and_then (requireTimestamp (field ''createdAt'' v)) (\<lambda>created.
     and_then (requireString (field ''cwd'' v) ''cwd'') (\<lambda>cwd.
     Inr \<lparr>headerId = i, headerCreatedAt = created, headerCwd = cwd, headerParent = parent, headerLegacyParent = legacy,
       headerMetadata = metadata\<rparr>))))))))))"

text \<open>\<open>{ ...fields, name: value, ... }\<close>\<close>

definition without :: "string list \<Rightarrow> properties \<Rightarrow> properties" where
  "without ks es = filter (\<lambda>e. fst e \<notin> js_of ` set ks) es"

definition with_properties :: "properties \<Rightarrow> (string \<times> js_value) list \<Rightarrow> properties" where
  "with_properties es kvs = fold (\<lambda>(k, v). set_property (js_of k) v) kvs es"

definition nullable :: "js_string option \<Rightarrow> js_value" where
  "nullable s = (case s of None \<Rightarrow> JNull | Some s \<Rightarrow> JString s)"

definition optional :: "js_string option \<Rightarrow> js_value" where
  "optional s = (case s of None \<Rightarrow> JUndefined | Some s \<Rightarrow> JString s)"

definition parseEntryMutation :: "properties \<Rightarrow> js_number \<Rightarrow> decode_error + json_mutation" where
  "parseEntryMutation v seq =
     and_then (optional_string (field ''lane'' v) ''lane'') (\<lambda>lane.
     and_then (requireString (field ''id'' v) ''id'') (\<lambda>i.
     and_then (requireString (field ''type'' v) ''entry type'') (\<lambda>type.
     and_then (throw_if (type \<notin> js_of ` set ENTRY_TYPES) (schema_error (js_of ''has unknown entry type '' @ type))) (\<lambda>_.
     and_then (requireNullableId (field ''parentId'' v) ''parentId'') (\<lambda>parent.
     and_then (requireTimestamp (field ''timestamp'' v)) (\<lambda>timestamp.
     and_then (if type = js_of ''custom'' then requireString (field ''customType'' v) ''customType'' else Inr []) (\<lambda>_.
     Inr (JEntry lane (with_properties (without [''kind'', ''lane''] v)
       [(''id'', JString i), (''type'', JString type), (''parentId'', nullable parent), (''seq'', JNumber seq),
        (''timestamp'', JNumber timestamp)])))))))))"

definition parseRecordMutation :: "properties \<Rightarrow> js_number \<Rightarrow> decode_error + json_mutation" where
  "parseRecordMutation v seq =
     and_then (requireString (field ''id'' v) ''id'') (\<lambda>i.
     and_then (requireString (field ''lane'' v) ''lane'') (\<lambda>lane.
     and_then (requireString (field ''type'' v) ''record type'') (\<lambda>type.
     and_then (throw_if (type \<notin> js_of ` set RECORD_TYPES) (schema_error (js_of ''has unknown record type '' @ type))) (\<lambda>_.
     and_then (requireTimestamp (field ''timestamp'' v)) (\<lambda>timestamp.
     and_then
       (if type = js_of ''operation_started'' then
          (case field ''intent'' v of
             JObject symbols intent \<Rightarrow>
               and_then (requireString (field ''kind'' intent) ''operation kind'') (\<lambda>kind.
               throw_if (kind \<notin> js_of ` set OPERATION_KINDS) (schema_error (js_of ''has unknown operation kind '' @ kind)))
           | _ \<Rightarrow> Inl (schema_error (js_of ''has invalid intent'')))
        else Inr ()) (\<lambda>_.
     and_then (if type = js_of ''operation_finished'' then requireString (field ''runId'' v) ''runId'' else Inr []) (\<lambda>_.
     Inr (JRecord (with_properties (without [''kind''] v)
       [(''id'', JString i), (''lane'', JString lane), (''type'', JString type), (''seq'', JNumber seq),
        (''timestamp'', JNumber timestamp)])))))))))"

definition parseLaneMutation :: "properties \<Rightarrow> js_number \<Rightarrow> decode_error + json_mutation" where
  "parseLaneMutation v seq =
     and_then (requireString (field ''lane'' v) ''lane'') (\<lambda>lane.
     and_then (requireNullableId (field ''leafId'' v) ''leafId'') (\<lambda>leaf.
     Inr (JLane seq lane leaf)))"

definition parseFactMutation :: "properties \<Rightarrow> js_number \<Rightarrow> decode_error + json_mutation" where
  "parseFactMutation v seq =
     (if field ''fact'' v = JString (js_of ''name'') then
        and_then (optional_string (field ''name'' v) ''name'') (\<lambda>nm. Inr (JName seq nm))
      else if field ''fact'' v = JString (js_of ''label'') then
        and_then (optional_string (field ''label'' v) ''label'') (\<lambda>label.
        and_then (requireString (field ''targetId'' v) ''targetId'') (\<lambda>target.
        Inr (JLabel seq target label)))
      else Inl (schema_error (js_of ''has unknown fact type'')))"

definition parseMutation :: "js_string \<Rightarrow> decode_error + json_mutation" where
  "parseMutation line =
     and_then (parseObject line) (\<lambda>v.
     and_then (requireSequence (field ''seq'' v)) (\<lambda>seq.
     if field ''kind'' v = JString (js_of ''entry'') then parseEntryMutation v seq
     else if field ''kind'' v = JString (js_of ''record'') then parseRecordMutation v seq
     else if field ''kind'' v = JString (js_of ''lane'') then parseLaneMutation v seq
     else if field ''kind'' v = JString (js_of ''fact'') then parseFactMutation v seq
     else Inl (schema_error (js_of ''has unknown mutation kind''))))"

subsection \<open>Writing\<close>

text \<open>An object literal, and \<open>JSON.stringify\<close> of it; \<open>undefined\<close> properties are left out of the text.\<close>

definition literal :: "(string \<times> js_value) list \<Rightarrow> properties" where
  "literal kvs = map (\<lambda>(k, v). (js_of k, v)) kvs"

definition spread :: "properties \<Rightarrow> properties \<Rightarrow> properties" where
  "spread es fs = fold (\<lambda>(k, v). set_property k v) fs es"

fun mutation_object :: "json_mutation \<Rightarrow> properties" where
  "mutation_object (JEntry lane e) = spread (literal [(''kind'', JString (js_of ''entry'')), (''lane'', optional lane)]) e"
| "mutation_object (JRecord r) = spread (literal [(''kind'', JString (js_of ''record''))]) r"
| "mutation_object (JLane seq lane leaf) =
     literal [(''kind'', JString (js_of ''lane'')), (''seq'', JNumber seq), (''lane'', JString lane), (''leafId'', nullable leaf)]"
| "mutation_object (JName seq nm) =
     literal [(''kind'', JString (js_of ''fact'')), (''seq'', JNumber seq), (''fact'', JString (js_of ''name'')), (''name'', optional nm)]"
| "mutation_object (JLabel seq target label) =
     literal [(''kind'', JString (js_of ''fact'')), (''seq'', JNumber seq), (''fact'', JString (js_of ''label'')),
       (''targetId'', JString target), (''label'', optional label)]"

definition line_text :: "properties \<Rightarrow> js_string" where
  "line_text es = (case json_text (JObject False es) of Inr (Some t) \<Rightarrow> t | _ \<Rightarrow> [])"

definition encodeMutation :: "json_mutation \<Rightarrow> js_string" where
  "encodeMutation m = line_text (mutation_object m) @ [10]"

definition header_object :: "jsonl_header \<Rightarrow> properties" where
  "header_object h =
     literal [(''kind'', JString (js_of ''header'')), (''version'', JNumber (JInt 4)), (''id'', JString (headerId h)),
       (''createdAt'', JNumber (headerCreatedAt h)), (''cwd'', JString (headerCwd h)),
       (''parentSessionId'', optional (headerParent h)), (''legacyParentSessionPath'', optional (headerLegacyParent h)),
       (''metadata'', case headerMetadata h of None \<Rightarrow> JUndefined | Some es \<Rightarrow> JObject False es)]"

definition encodeHeader :: "jsonl_header \<Rightarrow> js_string" where
  "encodeHeader h = line_text (header_object h) @ [10]"

text \<open>The properties that \<open>JSON.stringify\<close> keeps.\<close>

definition defined :: "properties \<Rightarrow> properties" where
  "defined es = filter (\<lambda>e. snd e \<noteq> JUndefined) es"

lemma json_properties_defined: "json_properties (defined es) = json_properties es"
  by (induction es) (auto simp: defined_def)

lemma line_text_defined: "line_text es = line_text (defined es)"
  by (simp add: line_text_def json_properties_defined)

lemma js_of_inj [simp]: "js_of s = js_of t \<longleftrightarrow> s = t"
  by (metis text_of_js_of)

text \<open>Objects whose text is read back.\<close>

definition plain_object :: "properties \<Rightarrow> bool" where
  "plain_object es \<longleftrightarrow> own_order es \<and> json_entries es"

lemma line_text_eq: "plain_object (defined es) \<Longrightarrow> json_text (JObject False (defined es)) = Inr (Some (line_text es))"
  using json_ok_text(1)[of "JObject False (defined es)"] line_text_defined[of es]
  by (auto simp: plain_object_def line_text_def)

lemma parse_line: "plain_object (defined es) \<Longrightarrow> parseObject (line_text es) = Inr (defined es)"
  using json_parse_stringify[OF _ line_text_eq] by (simp add: parseObject_def plain_object_def)

lemma parse_torn_line:
  assumes "plain_object (defined es)" and "line_text es = p @ q" and "q \<noteq> []"
  shows "parseMutation p = Inl \<lparr>decodeKind = JsonlSyntax, decodeMessage = js_of ''is not valid JSON''\<rparr>"
  using json_parse_torn[of False "defined es" p q] line_text_eq[OF assms(1)] assms
  by (simp add: parseMutation_def parseObject_def plain_object_def)

lemma line_text_one_line: "plain_object (defined es) \<Longrightarrow> 10 \<notin> set (line_text es)"
  using json_one_line(1)[OF _ line_text_eq] by (simp add: plain_object_def)

subsection \<open>Round trips\<close>

text \<open>The keys of an object that are no array indices keep the order they were defined in.\<close>

definition named_keys :: "properties \<Rightarrow> bool" where
  "named_keys es \<longleftrightarrow> distinct (map fst es) \<and> (\<forall>e \<in> set es. index_key (fst e) = None)"

lemma named_own_order: "named_keys es \<Longrightarrow> own_order es"
  by (auto simp: named_keys_def own_order_def key_precedes_def sorted_wrt_iff_nth_less)

lemma set_property_new:
  "index_key k = None \<Longrightarrow> k \<notin> fst ` set es \<Longrightarrow> set_property k v es = es @ [(k, v)]"
  by (simp add: set_property_def define_property_last key_precedes_def)

lemma spread_new: "named_keys (es @ fs) \<Longrightarrow> spread es fs = es @ fs"
proof (induction fs arbitrary: es)
  case (Cons f fs)
  obtain k v where f: "f = (k, v)" by fastforce
  with Cons.prems have "set_property k v es = es @ [(k, v)]"
    by (intro set_property_new) (auto simp: named_keys_def)
  with Cons.IH[of "es @ [(k, v)]"] Cons.prems f show ?case by (simp add: spread_def)
qed (simp add: spread_def)

lemma set_property_same: "map_of es k = Some v \<Longrightarrow> distinct (map fst es) \<Longrightarrow> set_property k v es = es"
proof -
  assume *: "map_of es k = Some v" "distinct (map fst es)"
  then have "k \<in> fst ` set es" by (force dest: map_of_SomeD)
  moreover have "map (\<lambda>(k', v'). (k', if k' = k then v else v')) es = es"
    by (rule map_idI) (use * in \<open>auto dest: eq_key_imp_eq_value\<close>)
  ultimately show ?thesis by (simp add: set_property_def)
qed

lemma field_literal: "field k (literal ((k', v) # kvs) @ es) = (if k = k' then v else field k (literal kvs @ es))"
  by (simp add: field_def literal_def)

lemma field_Nil: "field k (literal [] @ es) = field k es"
  by (simp add: field_def literal_def)

text \<open>The objects that the codec accepts for an entry and for a record, and what it can write.\<close>

definition entry_object :: "properties \<Rightarrow> bool" where
  "entry_object es \<longleftrightarrow> named_keys es \<and> json_entries es \<and> js_of ''kind'' \<notin> fst ` set es \<and> js_of ''lane'' \<notin> fst ` set es \<and>
     (\<exists>i. field ''id'' es = JString i) \<and> (\<exists>t \<in> set ENTRY_TYPES. field ''type'' es = JString (js_of t)) \<and>
     (\<exists>p. field ''parentId'' es = nullable p) \<and>
     (\<exists>n. field ''seq'' es = JNumber (JInt n) \<and> 0 < n \<and> n \<le> MAX_SAFE_INTEGER) \<and>
     (\<exists>n. field ''timestamp'' es = JNumber (JInt n) \<and> 0 \<le> n \<and> n \<le> MAX_SAFE_INTEGER) \<and>
     (field ''type'' es = JString (js_of ''custom'') \<longrightarrow> (\<exists>t. field ''customType'' es = JString t))"

definition record_object :: "properties \<Rightarrow> bool" where
  "record_object es \<longleftrightarrow> named_keys es \<and> json_entries es \<and> js_of ''kind'' \<notin> fst ` set es \<and>
     (\<exists>i. field ''id'' es = JString i) \<and> (\<exists>l. field ''lane'' es = JString l) \<and>
     (\<exists>t \<in> set RECORD_TYPES. field ''type'' es = JString (js_of t)) \<and>
     (\<exists>n. field ''seq'' es = JNumber (JInt n) \<and> 0 < n \<and> n \<le> MAX_SAFE_INTEGER) \<and>
     (\<exists>n. field ''timestamp'' es = JNumber (JInt n) \<and> 0 \<le> n \<and> n \<le> MAX_SAFE_INTEGER) \<and>
     (field ''type'' es = JString (js_of ''operation_started'') \<longrightarrow>
        (\<exists>s intent. field ''intent'' es = JObject s intent \<and>
          (\<exists>k \<in> set OPERATION_KINDS. field ''kind'' intent = JString (js_of k)))) \<and>
     (field ''type'' es = JString (js_of ''operation_finished'') \<longrightarrow> (\<exists>r. field ''runId'' es = JString r))"

definition sequence_number :: "js_number \<Rightarrow> bool" where
  "sequence_number n \<longleftrightarrow> (\<exists>k. n = JInt k \<and> 0 < k \<and> k \<le> MAX_SAFE_INTEGER)"

fun writable :: "json_mutation \<Rightarrow> bool" where
  "writable (JEntry lane e) = entry_object e"
| "writable (JRecord r) = record_object r"
| "writable (JLane seq lane leaf) = sequence_number seq"
| "writable (JName seq nm) = sequence_number seq"
| "writable (JLabel seq target label) = sequence_number seq"

lemma safe_number_reads: "0 \<le> n \<Longrightarrow> n \<le> MAX_SAFE_INTEGER \<Longrightarrow> number_reads (JInt n)"
  by (rule integer_reads) (simp add: MAX_SAFE_INTEGER_def)

lemma map_of_field: "field k es = v \<Longrightarrow> v \<noteq> JUndefined \<Longrightarrow> map_of es (js_of k) = Some v"
  by (auto simp: field_def split: option.splits)

lemma with_properties_same:
  "distinct (map fst es) \<Longrightarrow> \<forall>(k, v) \<in> set kvs. field k es = v \<and> v \<noteq> JUndefined \<Longrightarrow> with_properties es kvs = es"
  by (induction kvs) (auto simp: with_properties_def set_property_same map_of_field)

lemma nullable_defined [simp]: "nullable p \<noteq> JUndefined"
  by (cases p) (auto simp: nullable_def)

lemma entries_defined: "json_entries es \<Longrightarrow> defined es = es"
  by (induction es) (auto simp: defined_def)

lemma js_index_key: "\<not> is_digit (word_of_nat (of_char c)) \<Longrightarrow> index_key (js_of (c # cs)) = None"
  by (simp add: index_key_def js_of_def is_digit_def)

lemma literal_keys: "named_keys (literal kvs @ es) \<longleftrightarrow>
    distinct (map fst kvs) \<and> (\<forall>k \<in> fst ` set kvs. index_key (js_of k) = None \<and> js_of k \<notin> fst ` set es) \<and> named_keys es"
proof -
  have keys: "map fst (literal kvs) = map js_of (map fst kvs)" by (simp add: literal_def case_prod_unfold)
  have "inj js_of" by (simp add: inj_def)
  then have distinct: "distinct (map fst (literal kvs)) \<longleftrightarrow> distinct (map fst kvs)"
    unfolding keys distinct_map[of js_of] using inj_on_subset by blast
  have set: "fst ` set (literal kvs) = js_of ` fst ` set kvs"
    using arg_cong[OF keys, of set] by (simp add: image_image)
  have all: "(\<forall>e \<in> set (literal kvs). index_key (fst e) = None) \<longleftrightarrow> (\<forall>k \<in> fst ` set kvs. index_key (js_of k) = None)"
    by (simp add: literal_def case_prod_unfold)
  have disjoint: "set (map fst (literal kvs)) \<inter> set (map fst es) = {} \<longleftrightarrow> (\<forall>k \<in> fst ` set kvs. js_of k \<notin> fst ` set es)"
    unfolding set_map set by blast
  show ?thesis unfolding named_keys_def map_append distinct_append set_append ball_Un distinct all disjoint ball_conj_distrib by (simp only: conj_ac)
qed

lemma literal_keys_Nil: "named_keys (literal kvs) \<longleftrightarrow>
    distinct (map fst kvs) \<and> (\<forall>k \<in> fst ` set kvs. index_key (js_of k) = None)"
  using literal_keys[of kvs "[]"] by (simp add: named_keys_def)

lemma literal_Nil: "literal [] = []"
  by (simp add: literal_def)

lemma named_filter: "named_keys es \<Longrightarrow> named_keys (filter P es)"
  by (auto simp: named_keys_def distinct_map inj_on_def)

lemma names_no_index:
  "index_key (js_of ''kind'') = None" "index_key (js_of ''lane'') = None" "index_key (js_of ''seq'') = None"
  "index_key (js_of ''leafId'') = None" "index_key (js_of ''fact'') = None" "index_key (js_of ''name'') = None"
  "index_key (js_of ''targetId'') = None" "index_key (js_of ''label'') = None"
  by (simp_all add: js_index_key is_digit_def digit_of_def)

lemma literal_literal: "literal kvs = literal kvs @ []"
  by simp

lemma defined_append: "defined (es @ fs) = defined es @ defined fs"
  by (simp add: defined_def)

lemma defined_literal: "defined (literal kvs) = literal (filter (\<lambda>e. snd e \<noteq> JUndefined) kvs)"
  by (induction kvs) (auto simp: defined_def literal_def)

lemma entries_literal: "json_entries (literal kvs @ es) \<longleftrightarrow> (\<forall>e \<in> set kvs. json_ok (snd e)) \<and> json_entries es"
  by (induction kvs) (auto simp: literal_def)

lemma ok_names [simp]: "json_ok (nullable p)"
  by (cases p) (auto simp: nullable_def)

lemma ok_optional: "optional s \<noteq> JUndefined \<Longrightarrow> json_ok (optional s)"
  by (cases s) (auto simp: optional_def)

lemma sequence_ok: "sequence_number n \<Longrightarrow> json_ok (JNumber n)"
  by (auto simp: sequence_number_def safe_number_reads)

lemma entry_object_eq: "entry_object e \<Longrightarrow>
    mutation_object (JEntry lane e) = literal [(''kind'', JString (js_of ''entry'')), (''lane'', optional lane)] @ e"
  by (simp add: spread_new literal_keys entry_object_def names_no_index)

lemma record_object_eq: "record_object r \<Longrightarrow> mutation_object (JRecord r) = literal [(''kind'', JString (js_of ''record''))] @ r"
  by (simp add: spread_new literal_keys record_object_def names_no_index)

lemma writable_plain: "writable m \<Longrightarrow> plain_object (defined (mutation_object m))"
proof -
  assume m: "writable m"
  have "\<exists>kvs es. mutation_object m = literal kvs @ es \<and> named_keys (literal kvs @ es) \<and> json_entries es \<and>
      (\<forall>e \<in> set kvs. snd e \<noteq> JUndefined \<longrightarrow> json_ok (snd e))"
  proof (cases m)
    case (JEntry lane e)
    with m show ?thesis
      by (intro exI[of _ "[(''kind'', JString (js_of ''entry'')), (''lane'', optional lane)]"] exI[of _ e])
        (auto simp: entry_object_eq literal_keys names_no_index ok_optional entry_object_def simp del: mutation_object.simps)
  next
    case (JRecord r)
    with m show ?thesis
      by (intro exI[of _ "[(''kind'', JString (js_of ''record''))]"] exI[of _ r])
        (auto simp: record_object_eq literal_keys names_no_index record_object_def simp del: mutation_object.simps)
  next
    case (JLane seq lane leaf)
    with m show ?thesis
      by (intro exI[of _ "[(''kind'', JString (js_of ''lane'')), (''seq'', JNumber seq), (''lane'', JString lane), (''leafId'', nullable leaf)]"] exI[of _ "[]"])
        (auto simp: literal_keys names_no_index sequence_ok literal_keys_Nil simp del: json_ok.simps(3))
  next
    case (JName seq nm)
    with m show ?thesis
      by (intro exI[of _ "[(''kind'', JString (js_of ''fact'')), (''seq'', JNumber seq), (''fact'', JString (js_of ''name'')), (''name'', optional nm)]"] exI[of _ "[]"])
        (auto simp: literal_keys names_no_index sequence_ok ok_optional literal_keys_Nil simp del: json_ok.simps(3))
  next
    case (JLabel seq target label)
    with m show ?thesis
      by (intro exI[of _ "[(''kind'', JString (js_of ''fact'')), (''seq'', JNumber seq), (''fact'', JString (js_of ''label'')),
          (''targetId'', JString target), (''label'', optional label)]"] exI[of _ "[]"])
        (auto simp: literal_keys names_no_index sequence_ok ok_optional literal_keys_Nil simp del: json_ok.simps(3))
  qed
  then obtain kvs es where obj: "mutation_object m = literal kvs @ es" "named_keys (literal kvs @ es)" "json_entries es"
    "\<forall>e \<in> set kvs. snd e \<noteq> JUndefined \<longrightarrow> json_ok (snd e)" by blast
  have "json_entries (defined (mutation_object m))"
    using obj by (simp add: defined_append defined_literal entries_literal entries_defined)
  moreover have "own_order (defined (mutation_object m))"
    using named_filter[OF obj(2)] obj(1) by (simp add: named_own_order defined_def)
  ultimately show ?thesis by (simp add: plain_object_def)
qed

lemma field_absent: "js_of k \<notin> fst ` set es \<Longrightarrow> field k es = JUndefined"
  using map_of_eq_None_iff[of es "js_of k"] by (simp add: field_def)

lemma optional_string_optional: "optional_string (optional s) what = Inr s"
  by (cases s) (auto simp: optional_string_def optional_def requireString_def)

lemma without_none: "\<forall>k \<in> set ks. js_of k \<notin> fst ` set es \<Longrightarrow> without ks es = es"
  unfolding without_def by (rule filter_True) (metis image_iff)

lemma without_literal: "without ks (literal kvs @ es) = literal (filter (\<lambda>e. fst e \<notin> set ks) kvs) @ without ks es"
  by (induction kvs) (auto simp: without_def literal_def)

lemma parse_entry_fields:
  assumes "entry_object e" and seq: "field ''seq'' e = JNumber seq"
    and fields: "\<And>k. k \<notin> {''kind'', ''lane''} \<Longrightarrow> field k x = field k e"
    and lane: "field ''lane'' x = optional lane" and rest: "without [''kind'', ''lane''] x = e"
  shows "parseEntryMutation x seq = Inr (JEntry lane e)"
proof -
  from assms(1) have named: "named_keys e" by (simp add: entry_object_def)
  from assms(1) obtain i t p ts where e: "field ''id'' e = JString i" "t \<in> set ENTRY_TYPES" "field ''type'' e = JString (js_of t)"
    "field ''parentId'' e = nullable p" "field ''timestamp'' e = JNumber (JInt ts)" "0 \<le> ts" "ts \<le> MAX_SAFE_INTEGER"
    unfolding entry_object_def by blast
  have same: "with_properties e [(''id'', JString i), (''type'', JString (js_of t)), (''parentId'', nullable p),
      (''seq'', JNumber seq), (''timestamp'', JNumber (JInt ts))] = e"
    using seq e named by (intro with_properties_same) (simp_all add: named_keys_def)
  have null: "requireNullableId (nullable p) what = Inr p" for what by (cases p) (auto simp: requireNullableId_def nullable_def)
  have "\<exists>c. (if js_of t = js_of ''custom'' then requireString (field ''customType'' e) ''customType'' else Inr []) = Inr c"
    using assms(1) e(3) unfolding entry_object_def by (auto simp: requireString_def)
  then obtain c where c: "(if js_of t = js_of ''custom'' then requireString (field ''customType'' e) ''customType'' else Inr []) = Inr c" ..
  have str: "requireString (JString s) what = Inr s" for s what by (simp add: requireString_def)
  have time: "requireTimestamp (JNumber (JInt ts)) = Inr (JInt ts)" using e(6,7) by (simp add: requireTimestamp_def)
  have known: "throw_if (js_of t \<notin> js_of ` set ENTRY_TYPES) err = Inr ()" for err using e(2) by simp
  have names: "field ''id'' x = JString i" "field ''type'' x = JString (js_of t)" "field ''parentId'' x = nullable p"
    "field ''timestamp'' x = JNumber (JInt ts)" "field ''customType'' x = field ''customType'' e"
    using fields e by simp_all
  show ?thesis
    unfolding parseEntryMutation_def names lane rest optional_string_optional str and_then.simps known null time c same ..
qed

lemma parse_entry:
  assumes "entry_object e" and "field ''seq'' e = JNumber seq"
  shows "parseEntryMutation (defined (mutation_object (JEntry lane e))) seq = Inr (JEntry lane e)"
proof (rule parse_entry_fields[OF assms])
  from assms(1) have obj_facts: "js_of ''kind'' \<notin> fst ` set e" "js_of ''lane'' \<notin> fst ` set e" "json_entries e"
    by (simp_all add: entry_object_def)
  let ?kvs = "filter (\<lambda>e. snd e \<noteq> JUndefined) [(''kind'', JString (js_of ''entry'')), (''lane'', optional lane)]"
  have obj: "defined (mutation_object (JEntry lane e)) = literal ?kvs @ e"
    using obj_facts(3) unfolding entry_object_eq[OF assms(1)] defined_append defined_literal by (simp add: entries_defined)
  show "field k (defined (mutation_object (JEntry lane e))) = field k e" if "k \<notin> {''kind'', ''lane''}" for k
    using that unfolding obj by (auto simp: field_literal field_Nil)
  show "field ''lane'' (defined (mutation_object (JEntry lane e))) = optional lane"
    using obj_facts unfolding obj by (auto simp: field_literal field_Nil field_absent)
  show "without [''kind'', ''lane''] (defined (mutation_object (JEntry lane e))) = e"
    using obj_facts unfolding obj without_literal by (auto simp: without_none literal_Nil)
qed

lemma parse_record_fields:
  assumes "record_object r" and seq: "field ''seq'' r = JNumber seq"
    and fields: "\<And>k. k \<noteq> ''kind'' \<Longrightarrow> field k x = field k r" and rest: "without [''kind''] x = r"
  shows "parseRecordMutation x seq = Inr (JRecord r)"
proof -
  from assms(1) have named: "named_keys r" by (simp add: record_object_def)
  from assms(1) obtain i l t ts where r: "field ''id'' r = JString i" "field ''lane'' r = JString l" "t \<in> set RECORD_TYPES"
    "field ''type'' r = JString (js_of t)" "field ''timestamp'' r = JNumber (JInt ts)" "0 \<le> ts" "ts \<le> MAX_SAFE_INTEGER"
    unfolding record_object_def by blast
  have same: "with_properties r [(''id'', JString i), (''lane'', JString l), (''type'', JString (js_of t)),
      (''seq'', JNumber seq), (''timestamp'', JNumber (JInt ts))] = r"
    using seq r named by (intro with_properties_same) (simp_all add: named_keys_def)
  have str: "requireString (JString s) what = Inr s" for s what by (simp add: requireString_def)
  have time: "requireTimestamp (JNumber (JInt ts)) = Inr (JInt ts)" using r(6,7) by (simp add: requireTimestamp_def)
  have known: "throw_if (js_of t \<notin> js_of ` set RECORD_TYPES) err = Inr ()" for err using r(3) by simp
  have names: "field ''id'' x = JString i" "field ''lane'' x = JString l" "field ''type'' x = JString (js_of t)"
    "field ''timestamp'' x = JNumber (JInt ts)" "field ''intent'' x = field ''intent'' r" "field ''runId'' x = field ''runId'' r"
    using fields r by simp_all
  have intent: "(if js_of t = js_of ''operation_started'' then
          (case field ''intent'' r of
             JObject symbols intent \<Rightarrow>
               and_then (requireString (field ''kind'' intent) ''operation kind'') (\<lambda>kind.
               throw_if (kind \<notin> js_of ` set OPERATION_KINDS) (schema_error (js_of ''has unknown operation kind '' @ kind)))
           | _ \<Rightarrow> Inl (schema_error (js_of ''has invalid intent'')))
        else Inr ()) = Inr ()"
  proof (cases "t = ''operation_started''")
    case True
    with assms(1) r(4) obtain s intent k where "field ''intent'' r = JObject s intent" "k \<in> set OPERATION_KINDS"
      "field ''kind'' intent = JString (js_of k)" unfolding record_object_def by blast
    with True show ?thesis by (simp add: str)
  qed simp
  have "\<exists>c. (if js_of t = js_of ''operation_finished'' then requireString (field ''runId'' r) ''runId'' else Inr []) = Inr c"
    using assms(1) r(4) unfolding record_object_def by (auto simp: requireString_def)
  then obtain c where c: "(if js_of t = js_of ''operation_finished'' then requireString (field ''runId'' r) ''runId'' else Inr []) = Inr c" ..
  show ?thesis
    unfolding parseRecordMutation_def names rest str and_then.simps known time intent c same ..
qed

lemma parse_record:
  assumes "record_object r" and "field ''seq'' r = JNumber seq"
  shows "parseRecordMutation (defined (mutation_object (JRecord r))) seq = Inr (JRecord r)"
proof (rule parse_record_fields[OF assms])
  from assms(1) have obj_facts: "js_of ''kind'' \<notin> fst ` set r" "json_entries r" by (simp_all add: record_object_def)
  have obj: "defined (mutation_object (JRecord r)) = literal [(''kind'', JString (js_of ''record''))] @ r"
    using obj_facts(2) unfolding record_object_eq[OF assms(1)] defined_append defined_literal by (simp add: entries_defined)
  show "field k (defined (mutation_object (JRecord r))) = field k r" if "k \<noteq> ''kind''" for k
    using that unfolding obj by (auto simp: field_literal field_Nil)
  show "without [''kind''] (defined (mutation_object (JRecord r))) = r"
    using obj_facts unfolding obj without_literal by (simp add: without_none literal_Nil)
qed

lemma field_only: "field k (literal ((k', v) # kvs)) = (if k = k' then v else field k (literal kvs))"
  and field_empty: "field k (literal []) = JUndefined"
  by (simp_all add: field_def literal_def)

text \<open>Every line that is written is read back, and no proper prefix of it is valid JSON.\<close>

lemma parse_written: "writable m \<Longrightarrow> parseMutation (line_text (mutation_object m)) = Inr m"
proof -
  assume m: "writable m"
  have seq: "requireSequence (JNumber n) = Inr n" if "sequence_number n" for n
    using that by (auto simp: sequence_number_def requireSequence_def)
  have str: "requireString (JString s) what = Inr s" for s what by (simp add: requireString_def)
  have null: "requireNullableId (nullable p) what = Inr p" for p what by (cases p) (auto simp: requireNullableId_def nullable_def)
  note line = parse_line[OF writable_plain[OF m]]
  show ?thesis
  proof (cases m)
    case (JEntry lane e)
    with m obtain n where n: "field ''seq'' e = JNumber (JInt n)" "sequence_number (JInt n)"
      by (auto simp: entry_object_def sequence_number_def)
    have "field ''seq'' (defined (mutation_object m)) = field ''seq'' e" "field ''kind'' (defined (mutation_object m)) = JString (js_of ''entry'')"
      using m JEntry unfolding JEntry entry_object_eq[OF m[unfolded JEntry writable.simps]] defined_append defined_literal
      by (auto simp: field_literal field_Nil entries_defined entry_object_def)
    with line n parse_entry[of e "JInt n" lane] m JEntry show ?thesis by (simp add: parseMutation_def seq del: mutation_object.simps)
  next
    case (JRecord r)
    with m obtain n where n: "field ''seq'' r = JNumber (JInt n)" "sequence_number (JInt n)"
      by (auto simp: record_object_def sequence_number_def)
    have "field ''seq'' (defined (mutation_object m)) = field ''seq'' r" "field ''kind'' (defined (mutation_object m)) = JString (js_of ''record'')"
      using m JRecord unfolding JRecord record_object_eq[OF m[unfolded JRecord writable.simps]] defined_append defined_literal
      by (auto simp: field_literal field_Nil entries_defined record_object_def)
    with line n parse_record[of r "JInt n"] m JRecord show ?thesis by (simp add: parseMutation_def seq del: mutation_object.simps)
  next
    case (JLane n lane leaf)
    with m line show ?thesis
      by (simp add: parseMutation_def defined_literal field_only field_empty seq str null parseLaneMutation_def)
  next
    case (JName n nm)
    with m line show ?thesis
      by (cases nm) (simp_all add: parseMutation_def defined_literal field_only field_empty seq optional_def optional_string_def
          requireString_def parseFactMutation_def)
  next
    case (JLabel n target label)
    with m line show ?thesis
      by (cases label) (simp_all add: parseMutation_def defined_literal field_only field_empty seq optional_def optional_string_def
          requireString_def parseFactMutation_def)
  qed
qed


subsection \<open>The header\<close>

definition good_header :: "jsonl_header \<Rightarrow> bool" where
  "good_header h \<longleftrightarrow> (\<exists>n. headerCreatedAt h = JInt n \<and> 0 \<le> n \<and> n \<le> MAX_SAFE_INTEGER) \<and>
     (headerParent h = None \<or> headerLegacyParent h = None) \<and>
     (case headerMetadata h of None \<Rightarrow> True | Some es \<Rightarrow> plain_object es)"

lemma header_names:
  "index_key (js_of ''version'') = None" "index_key (js_of ''id'') = None" "index_key (js_of ''createdAt'') = None"
  "index_key (js_of ''cwd'') = None" "index_key (js_of ''parentSessionId'') = None"
  "index_key (js_of ''legacyParentSessionPath'') = None" "index_key (js_of ''metadata'') = None"
  by (simp_all add: js_index_key is_digit_def digit_of_def)

lemma header_plain: "good_header h \<Longrightarrow> plain_object (defined (header_object h))"
proof -
  assume h: "good_header h"
  have "json_ok (JNumber (headerCreatedAt h))" "json_ok (JNumber (JInt 4))"
    using h by (auto simp: good_header_def safe_number_reads MAX_SAFE_INTEGER_def)
  moreover have "headerMetadata h = Some es \<Longrightarrow> json_ok (JObject False es)" for es
    using h by (auto simp: good_header_def plain_object_def)
  ultimately have "json_entries (defined (header_object h))"
    unfolding header_object_def defined_literal
    using entries_literal[of _ "[]"] by (auto simp: ok_optional simp del: json_ok.simps(3) split: option.splits)
  moreover have "named_keys (header_object h)"
    unfolding header_object_def by (simp add: literal_keys_Nil names_no_index header_names)
  then have "own_order (defined (header_object h))" by (simp add: named_own_order defined_def named_filter)
  ultimately show ?thesis by (simp add: plain_object_def)
qed

lemma field_defined: "distinct (map fst es) \<Longrightarrow> field k (defined es) = field k es"
proof (induction es)
  case (Cons e es)
  obtain k' v where e: "e = (k', v)" by fastforce
  show ?case
  proof (cases "v = JUndefined")
    case True
    with Cons e have "js_of k = k' \<Longrightarrow> field k (defined es) = JUndefined"
      by (intro field_absent) (auto simp: defined_def image_iff)
    with True Cons e show ?thesis by (auto simp: field_def defined_def)
  next
    case False
    with Cons e show ?thesis by (auto simp: field_def defined_def)
  qed
qed (simp add: defined_def)

lemma header_read: "good_header h \<Longrightarrow> decodeHeader (line_text (header_object h)) = Inr h"
proof -
  assume h: "good_header h"
  then obtain n where n: "headerCreatedAt h = JInt n" "0 \<le> n" "n \<le> MAX_SAFE_INTEGER" by (auto simp: good_header_def)
  have "named_keys (header_object h)"
    unfolding header_object_def by (simp add: literal_keys_Nil names_no_index header_names)
  then have fields: "field k (defined (header_object h)) = field k (header_object h)" for k
    by (intro field_defined) (simp add: named_keys_def)
  have str: "requireString (JString s) what = Inr s" for s what by (simp add: requireString_def)
  have time: "requireTimestamp (JNumber (headerCreatedAt h)) = Inr (headerCreatedAt h)" using n by (simp add: requireTimestamp_def)
  have metadata: "(case (case headerMetadata h of None \<Rightarrow> JUndefined | Some es \<Rightarrow> JObject False es) of
      JUndefined \<Rightarrow> Inr None | JObject symbols es \<Rightarrow> Inr (Some es) | _ \<Rightarrow> Inl e) = Inr (headerMetadata h)" for e :: decode_error
    by (simp split: option.splits)
  have one: "throw_if (headerParent h \<noteq> None \<and> headerLegacyParent h \<noteq> None) e = Inr ()" for e :: decode_error
    using h by (auto simp: good_header_def)
  have vals: "field ''kind'' (header_object h) = JString (js_of ''header'')" "field ''version'' (header_object h) = JNumber (JInt 4)"
    "field ''id'' (header_object h) = JString (headerId h)" "field ''createdAt'' (header_object h) = JNumber (headerCreatedAt h)"
    "field ''cwd'' (header_object h) = JString (headerCwd h)" "field ''parentSessionId'' (header_object h) = optional (headerParent h)"
    "field ''legacyParentSessionPath'' (header_object h) = optional (headerLegacyParent h)"
    "field ''metadata'' (header_object h) = (case headerMetadata h of None \<Rightarrow> JUndefined | Some es \<Rightarrow> JObject False es)"
    unfolding header_object_def by (simp_all only: field_only) simp_all
  have no: "throw_if False e = Inr ()" for e :: decode_error by simp
  show ?thesis
    unfolding decodeHeader_def parse_line[OF header_plain[OF h]] and_then.simps fields vals optional_string_optional one metadata str time
    by (simp add: no)
qed

subsection \<open>The codec as an interface\<close>

text \<open>
  What a session file relies on: a line is read back, it is one line, and a proper prefix of it is a
  syntax error, so that a torn line is told from every other one.
\<close>

locale line_codec =
  fixes encode :: "'m \<Rightarrow> js_string" and decode :: "js_string \<Rightarrow> decode_error + 'm" and good :: "'m \<Rightarrow> bool"
  assumes encoded: "good m \<Longrightarrow> \<exists>t. encode m = t @ [10] \<and> 10 \<notin> set t \<and> t \<noteq> [] \<and> decode t = Inr m"
    and torn: "good m \<Longrightarrow> encode m = p @ q @ [10] \<Longrightarrow> q \<noteq> [] \<Longrightarrow> \<exists>e. decode p = Inl e \<and> decodeKind e = JsonlSyntax"
begin

definition line_of :: "'m \<Rightarrow> js_string" where
  "line_of m = butlast (encode m)"

lemma encode_line: "good m \<Longrightarrow> encode m = line_of m @ [10] \<and> 10 \<notin> set (line_of m) \<and> line_of m \<noteq> [] \<and> decode (line_of m) = Inr m"
  using encoded[of m] by (auto simp: line_of_def)

end

interpretation mutations: line_codec encodeMutation parseMutation writable
proof (unfold_locales, goal_cases)
  case (1 m)
  have "line_text (mutation_object m) \<noteq> []"
    using parse_written[OF 1] by (auto simp: parseMutation_def parseObject_def json_parse_def skip_space_def)
  with parse_written[OF 1] line_text_one_line[OF writable_plain[OF 1]] show ?case by (auto simp: encodeMutation_def)
next
  case (2 m p q)
  then show ?case using parse_torn_line[OF writable_plain[OF 2(1)], of p q] by (auto simp: encodeMutation_def)
qed

subsection \<open>Types of what is read\<close>

text \<open>The shape of a parsed mutation, which the rest of the program relies on without checking it again.\<close>

definition typed_sequence :: "js_number \<Rightarrow> bool" where
  "typed_sequence n \<longleftrightarrow> is_safe_integer n \<and> 0 < integer_value n"

definition typed_timestamp :: "js_value \<Rightarrow> bool" where
  "typed_timestamp v \<longleftrightarrow> (\<exists>n. v = JNumber n \<and> is_safe_integer n \<and> 0 \<le> integer_value n)"

definition typed_entry :: "properties \<Rightarrow> bool" where
  "typed_entry es \<longleftrightarrow>
     (\<exists>i. field ''id'' es = JString i) \<and> (\<exists>t \<in> set ENTRY_TYPES. field ''type'' es = JString (js_of t)) \<and>
     (\<exists>p. field ''parentId'' es = nullable p) \<and> (\<exists>n. field ''seq'' es = JNumber n \<and> typed_sequence n) \<and>
     typed_timestamp (field ''timestamp'' es) \<and>
     (field ''type'' es = JString (js_of ''custom'') \<longrightarrow> (\<exists>t. field ''customType'' es = JString t)) \<and>
     field ''kind'' es = JUndefined \<and> field ''lane'' es = JUndefined"

definition typed_record :: "properties \<Rightarrow> bool" where
  "typed_record es \<longleftrightarrow>
     (\<exists>i. field ''id'' es = JString i) \<and> (\<exists>l. field ''lane'' es = JString l) \<and>
     (\<exists>t \<in> set RECORD_TYPES. field ''type'' es = JString (js_of t)) \<and>
     (\<exists>n. field ''seq'' es = JNumber n \<and> typed_sequence n) \<and> typed_timestamp (field ''timestamp'' es) \<and>
     (field ''type'' es = JString (js_of ''operation_started'') \<longrightarrow>
        (\<exists>s intent. field ''intent'' es = JObject s intent \<and>
          (\<exists>k \<in> set OPERATION_KINDS. field ''kind'' intent = JString (js_of k)))) \<and>
     (field ''type'' es = JString (js_of ''operation_finished'') \<longrightarrow> (\<exists>r. field ''runId'' es = JString r)) \<and>
     field ''kind'' es = JUndefined"

fun typed_mutation :: "json_mutation \<Rightarrow> bool" where
  "typed_mutation (JEntry lane e) = typed_entry e"
| "typed_mutation (JRecord r) = typed_record r"
| "typed_mutation (JLane seq lane leaf) = typed_sequence seq"
| "typed_mutation (JName seq nm) = typed_sequence seq"
| "typed_mutation (JLabel seq target label) = typed_sequence seq"

lemma map_of_overwritten:
  "map_of (map (\<lambda>(k', v'). (k', if k' = k then v else v')) es) x =
     (if x = k then (case map_of es k of None \<Rightarrow> None | Some w \<Rightarrow> Some v) else map_of es x)"
  by (induction es) auto

lemma map_of_define_property: "k \<notin> fst ` set es \<Longrightarrow> map_of (define_property k v es) = (map_of es)(k \<mapsto> v)"
  by (induction es) auto

lemma map_of_set_property: "map_of (set_property k v es) = (map_of es)(k \<mapsto> v)"
proof (cases "k \<in> fst ` set es")
  case True
  then obtain w where "map_of es k = Some w" by (metis map_of_eq_None_iff not_None_eq)
  with True show ?thesis by (auto simp: set_property_def map_of_overwritten)
qed (simp add: set_property_def map_of_define_property)

lemma field_set_property: "field k (set_property (js_of k') v es) = (if k = k' then v else field k es)"
  by (simp add: field_def map_of_set_property inj_eq)

lemma field_with_properties:
  "field k (with_properties es ((k', v) # kvs)) = field k (with_properties (set_property (js_of k') v es) kvs)"
  "field k (with_properties es []) = field k es"
  by (simp_all add: with_properties_def)

lemma field_without: "field k (without ks es) = (if k \<in> set ks then JUndefined else field k es)"
proof (induction es)
  case (Cons e es)
  then show ?case by (cases e) (auto simp: field_def without_def)
qed (simp add: field_def without_def)

lemma require_string_Inr: "requireString v what = Inr s \<longleftrightarrow> v = JString s"
  by (auto simp: requireString_def split: js_value.splits)

lemma require_timestamp_Inr: "requireTimestamp v = Inr n \<Longrightarrow> typed_timestamp (JNumber n)"
  by (auto simp: requireTimestamp_def typed_timestamp_def split: js_value.splits if_splits)

lemma require_sequence_Inr: "requireSequence v = Inr n \<Longrightarrow> typed_sequence n"
  by (auto simp: requireSequence_def typed_sequence_def split: js_value.splits if_splits)

lemmas parsed_fields = field_with_properties field_set_property field_without

lemma parsed_entry:
  "parseEntryMutation v seq = Inr m \<Longrightarrow> typed_sequence seq \<Longrightarrow> typed_mutation m"
  by (auto simp: parseEntryMutation_def result_simps typed_entry_def parsed_fields require_string_Inr require_timestamp_Inr
      split: if_splits)

lemma parsed_record:
  "parseRecordMutation v seq = Inr m \<Longrightarrow> typed_sequence seq \<Longrightarrow> typed_mutation m"
  by (auto simp: parseRecordMutation_def result_simps typed_record_def parsed_fields require_string_Inr require_timestamp_Inr
      split: if_splits js_value.splits)

lemma parsed_lane: "parseLaneMutation v seq = Inr m \<Longrightarrow> typed_sequence seq \<Longrightarrow> typed_mutation m"
  by (auto simp: parseLaneMutation_def result_simps)

lemma parsed_fact: "parseFactMutation v seq = Inr m \<Longrightarrow> typed_sequence seq \<Longrightarrow> typed_mutation m"
  by (auto simp: parseFactMutation_def result_simps split: if_splits)

text \<open>C31: What a line of a session file is parsed to is well typed: the sequence number is a positive safe integer,
  an entry has an id, a known type, a parent or null and a timestamp and carries neither kind nor lane, a
  record has its id, lane, known type and timestamp, a started operation a known kind, a finished one its run.\<close>

theorem parsed_mutation_typed:
  assumes "parseMutation line = Inr m"
  shows "typed_mutation m"
  using assms
  by (auto simp: parseMutation_def result_simps split: if_splits
      dest!: require_sequence_Inr dest: parsed_entry parsed_record parsed_lane parsed_fact)

lemma parsed_mutation_typed_witness: "typed_mutation (JName (JInt 1) None)"
proof (rule parsed_mutation_typed)
  show "parseMutation (line_text (mutation_object (JName (JInt 1) None))) = Inr (JName (JInt 1) None)"
    by (rule parse_written) (simp add: sequence_number_def MAX_SAFE_INTEGER_def)
qed

end
