(* ===== verification/JsonGlue.thy ===== *)
theory JsonGlue
  imports JsonParse
begin

section \<open>Text glued to torn text\<close>

text \<open>
  What a reader makes of a line whose first part is the torn text of an object and whose rest is the
  text of another: a syntax error, wherever the first one is torn. A reader that finds the first text
  incomplete takes the second for the missing value, or for a part of a string that its first quote
  closes, or stops at its brace; in no case does what follows continue the first text.
\<close>

text \<open>What stops a reader that has just read a value or a name.\<close>

definition stuck :: "js_string \<Rightarrow> bool" where
  "stuck r \<longleftrightarrow> (case skip_space r of [] \<Rightarrow> True | u # us \<Rightarrow> u \<notin> {0x2C, 0x5D, 0x7D, 0x3A})"

text \<open>The text \<open>{"c...\<close> of a whole object, \<open>c\<close> being the start of its first name.\<close>

definition whole_object :: "js_string \<Rightarrow> bool" where
  "whole_object g \<longleftrightarrow> (\<exists>c g'. g = 0x7B # 0x22 # c # g' \<and> \<not> json_space c \<and> c \<notin> {0x2C, 0x5D, 0x7D, 0x3A}) \<and>
     (\<forall>n v r. read_value n g = Some (v, r) \<longrightarrow> r = [])"

lemma whole_objectE:
  assumes "whole_object g"
  obtains c g' where "g = 0x7B # 0x22 # c # g'" "skip_space g = g" "stuck (c # g')" "hd g = 0x7B"
  using assms by (auto simp: whole_object_def skip_none json_space_def stuck_def)

lemma stuck_Nil [simp]: "stuck []"
  by (simp add: stuck_def skip_space_def)

lemma skip_space_glued:
  "skip_space (s @ g) = (if skip_space s = [] then skip_space g else skip_space s @ g)"
  by (auto simp: skip_space_def dropWhile_append)

subsection \<open>Strings, words, numbers\<close>

lemma hex_brace [simp]: "hex_value 0x7B = None" "hex_value 0x22 = None"
  by (simp_all add: hex_value_def is_digit_def digit_of_def)

lemma hex_unit_brace:
  "hex_unit 0x7B b c d = None" "hex_unit a 0x7B c d = None" "hex_unit a b 0x7B d = None" "hex_unit a b c 0x7B = None"
  by (simp_all add: hex_unit_def split: option.split)

lemma unicode_glued:
  assumes "length vs < 4"
  shows "read_string (0x5C # 0x75 # vs @ 0x7B # 0x22 # g') = None"
proof -
  obtain a b c where vs: "vs = [] \<or> vs = [a] \<or> vs = [a, b] \<or> vs = [a, b, c]"
    using assms by (cases vs; cases "tl vs"; cases "tl (tl vs)"; cases "tl (tl (tl vs))") auto
  show ?thesis
    using vs by (cases g'; cases "tl g'") (elim disjE; simp add: hex_unit_brace)+
qed

lemma prepend_None: "prepend x r = None \<longleftrightarrow> r = None"
  by (simp add: prepend_def)

lemma read_string_glued:
  assumes g: "g = 0x7B # 0x22 # g'"
  shows "read_string s = None \<Longrightarrow> read_string (s @ g) = Some (t, r) \<Longrightarrow> r = g'"
proof (induction "length s" arbitrary: s t rule: less_induct)
  case less
  have step: "r = g'" if "length s' < length s" "prepend x (read_string s') = None" "prepend x (read_string (s' @ g)) = Some (t, r)" for x s'
    using less.hyps[OF that(1)] that(2,3) by (auto simp: prepend_None prepend_Some)
  show ?case
  proof (cases s)
    case Nil
    with less.prems(2) show ?thesis by (simp add: g prepend_Some)
  next
    case (Cons u us)
    show ?thesis
    proof (cases "u = 0x5C")
      case False
      have quote: "u \<noteq> 0x22" using less.prems(1) Cons by auto
      moreover have "\<not> unat u < 0x20" using less.prems(2) Cons quote by auto
      ultimately have "u \<noteq> 0x22" "\<not> unat u < 0x20" by auto
      with False less.prems Cons step[of us u] show ?thesis by simp
    next
      case esc: True
      show ?thesis
      proof (cases us)
        case Nil
        with less.prems(2) esc Cons show ?thesis by (simp add: g escaped_def)
      next
        case us: (Cons e vs)
        show ?thesis
        proof (cases "e = 0x75")
          case False
          then obtain x where "escaped e = Some x" using less.prems(2) esc Cons us by (cases "escaped e") simp_all
          with False less.prems esc Cons us step[of vs x] show ?thesis by simp
        next
          case unicode: True
          show ?thesis
          proof (cases "length vs < 4")
            case True
            with less.prems(2) esc Cons us unicode unicode_glued[of vs g'] show ?thesis by (simp add: g del: read_string.simps)
          next
            case False
            then obtain a b c d ws where vs: "vs = a # b # c # d # ws"
              by (cases vs; cases "tl vs"; cases "tl (tl vs)"; cases "tl (tl (tl vs))") auto
            then obtain x where "hex_unit a b c d = Some x"
              using less.prems(2) esc Cons us unicode by (cases "hex_unit a b c d") simp_all
            with less.prems esc Cons us unicode vs step[of ws x] show ?thesis by simp
          qed
        qed
      qed
    qed
  qed
qed

lemma read_word_glued:
  assumes "read_word w v s = None" and "0x7B \<notin> set (js_of w)"
  shows "read_word w v (s @ 0x7B # g) = None"
proof (rule ccontr)
  assume "read_word w v (s @ 0x7B # g) \<noteq> None"
  then have w: "take (length w) (s @ 0x7B # g) = js_of w" by (simp add: read_word_def split: if_splits)
  show False
  proof (cases "length w \<le> length s")
    case True
    with w assms(1) show False by (simp add: read_word_def)
  next
    case False
    then have "0x7B \<in> set (take (length w) (s @ 0x7B # g))" by (auto simp: take_Cons')
    with w assms(2) show False by simp
  qed
qed

lemma brace_stops: "number_stop (0x7B # g)"
  by (simp add: number_stop_def is_digit_def digit_of_def)

lemma no_digits_glued: "takeWhile is_digit (s @ 0x7B # g) = takeWhile is_digit s" "dropWhile is_digit (s @ 0x7B # g) = dropWhile is_digit s @ 0x7B # g"
  using digits_append[of s "0x7B # g"] brace_stops by auto

lemma read_fraction_glued: "read_fraction s = None \<Longrightarrow> read_fraction (s @ 0x7B # g) = None"
  by (cases s) (auto simp: read_fraction_def no_digits_glued simp del: takeWhile_eq_Nil_iff split: if_splits)

lemma read_exponent_glued: "read_exponent s = None \<Longrightarrow> read_exponent (s @ 0x7B # g) = None"
proof (cases s)
  case (Cons u us)
  then show "read_exponent s = None \<Longrightarrow> ?thesis"
    using no_digits_glued[of us g] no_digits_glued[of "tl us" g] no_digits_glued[of "[]" g]
    by (cases us) (auto simp: read_exponent_def Let_def simp del: takeWhile_eq_Nil_iff split: if_splits)
qed (simp add: read_exponent_def)

lemma read_unsigned_glued: "read_unsigned negative s = None \<Longrightarrow> read_unsigned negative (s @ 0x7B # g) = None"
  using brace_stops[of g]
  by (auto simp: read_unsigned_def Let_def no_digits_glued read_fraction_glued read_exponent_glued
      dest: read_fraction_append[where q = "0x7B # g"] read_exponent_append[where q = "0x7B # g"]
      simp del: takeWhile_eq_Nil_iff split: if_splits option.splits)

lemma read_number_glued: "read_number s = None \<Longrightarrow> s \<noteq> [] \<Longrightarrow> read_number (s @ 0x7B # g) = None"
  using read_unsigned_glued[of False s g] read_unsigned_glued[of True "tl s" g]
  by (cases s) (auto simp: read_number_def split: if_splits)

subsection \<open>Values\<close>

lemma read_glued:
  assumes g: "whole_object g"
  shows "read_value n p = None \<Longrightarrow> read_value n (p @ g) = Some (v, r) \<Longrightarrow> stuck r \<and> (\<forall>us. skip_space p \<noteq> 0x7B # us)"
    and "read_elements n p = None \<Longrightarrow> read_elements n (p @ g) = None"
    and "read_members n es p = None \<Longrightarrow> read_members n es (p @ g) = None"
proof -
  obtain c g' where g0: "g = 0x7B # 0x22 # c # g'" "skip_space g = g" "stuck (c # g')" "hd g = 0x7B" using whole_objectE[OF g] .
  have stop: "number_stop g" by (simp add: g0(1) number_stop_def is_digit_def digit_of_def)
  have on: "reads_on v r g" for v r using stop by (simp add: reads_on_def)
  have whole: "read_value n g = Some (v, r) \<Longrightarrow> r = []" for n v r using g by (simp add: whole_object_def)
  have els: "read_elements n g = None" for n
  proof (cases n)
    case (Suc m)
    show ?thesis
    proof (cases "read_value m g")
      case (Some w)
      with whole have "snd w = []" by (metis prod.collapse)
      with Suc Some show ?thesis by (simp add: skip_space_def split_beta)
    qed (use Suc in simp)
  qed simp
  have mems: "read_members n es g = None" for n es
    by (cases n) (simp_all add: g0(1) skip_none json_space_def)
  show "read_value n p = None \<Longrightarrow> read_value n (p @ g) = Some (v, r) \<Longrightarrow> stuck r \<and> (\<forall>us. skip_space p \<noteq> 0x7B # us)"
    "read_elements n p = None \<Longrightarrow> read_elements n (p @ g) = None"
    "read_members n es p = None \<Longrightarrow> read_members n es (p @ g) = None"
  proof (induction n p and n p and n es p arbitrary: v r rule: read_value_read_elements_read_members.induct)
    case (2 n p)
    show ?case
    proof (cases "skip_space p")
      case Nil
      then have "read_value (Suc n) (p @ g) = read_value (Suc n) g"
        by (simp only: read_value.simps skip_space_glued if_True g0(2) simp_thms)
      with 2(4) whole[of "Suc n"] Nil show ?thesis by (simp del: read_value.simps)
    next
      case (Cons u us)
      then have skip: "skip_space (p @ g) = u # us @ g" by (simp add: skip_space_glued)
      have inner: "skip_space us = [] \<Longrightarrow> skip_space (us @ g) = g" "skip_space us = v # vs \<Longrightarrow> skip_space (us @ g) = v # vs @ g" for v vs
        by (simp_all add: skip_space_glued g0(2))
      consider (object) "u = 0x7B" | (array) "u = 0x5B" | (string) "u = 0x22" | (word) "u \<in> {0x74, 0x66, 0x6E}"
        | (number) "u \<notin> {0x7B, 0x5B, 0x22, 0x74, 0x66, 0x6E}" by blast
      then show ?thesis
      proof cases
        case object
        have "read_value (Suc n) (p @ g) = None"
        proof (cases "skip_space us")
          case Nil
          with inner(1)[OF Nil] skip object mems[of n "[]"] g0(1) show ?thesis by simp
        next
          case (Cons v vs)
          have v: "v \<noteq> 0x7D" using 2(3) \<open>skip_space p = u # us\<close> object Cons by auto
          then have "read_members n [] (v # vs) = None" using 2(3) \<open>skip_space p = u # us\<close> object Cons by simp
          from 2(1)[OF \<open>skip_space p = u # us\<close> object Cons v this] inner(2)[OF Cons] skip object v show ?thesis by simp
        qed
        with 2(4) show ?thesis by simp
      next
        case array
        have "read_value (Suc n) (p @ g) = None"
        proof (cases "skip_space us")
          case Nil
          with inner(1)[OF Nil] skip array els[of n] g0(1) show ?thesis by simp
        next
          case (Cons v vs)
          have v: "v \<noteq> 0x5D" using 2(3) \<open>skip_space p = u # us\<close> array Cons by auto
          then have "read_elements n (v # vs) = None" using 2(3) \<open>skip_space p = u # us\<close> array Cons by simp
          with 2(2)[OF \<open>skip_space p = u # us\<close> _ array Cons v] inner(2)[OF Cons] skip array v show ?thesis by simp
        qed
        with 2(4) show ?thesis by simp
      next
        case string
        then have "read_string us = None" using 2(3) \<open>skip_space p = u # us\<close> by simp
        moreover obtain t where "read_string (us @ g) = Some (t, r)" using 2(4) skip string by auto
        ultimately have "r = c # g'" by (rule read_string_glued[OF g0(1)])
        with g0(3) \<open>skip_space p = u # us\<close> string show ?thesis by simp
      next
        case word
        then have "read_value (Suc n) (p @ g) = None"
          using 2(3) \<open>skip_space p = u # us\<close> skip g0(1) read_word_glued[of _ _ "u # us" "0x22 # c # g'"] by auto
        with 2(4) show ?thesis by simp
      next
        case number
        then have "read_number (u # us) = None" using 2(3) \<open>skip_space p = u # us\<close> by simp
        with number skip g0(1) read_number_glued[of "u # us" "0x22 # c # g'"] have "read_value (Suc n) (p @ g) = None" by simp
        with 2(4) show ?thesis by simp
      qed
    qed
  next
    case (4 n p)
    show ?case
    proof (cases "read_value n p")
      case None
      with 4(1) show ?thesis
        by (auto simp: stuck_def split: option.split list.split)
    next
      case (Some w)
      obtain x s where w: "w = (x, s)" by fastforce
      with Some have *: "read_value n (p @ g) = Some (x, s @ g)" using read_append(1) on by blast
      show ?thesis
        using 4 Some w * g0 by (auto simp: skip_space_glued split: list.splits if_splits)
    qed
  next
    case (6 n es p)
    show ?case
    proof (cases "skip_space p")
      case Nil
      then show ?thesis by (simp add: skip_space_glued g0(2)) (simp add: g0(1))
    next
      case (Cons u us)
      then have skip: "skip_space (p @ g) = u # us @ g" by (simp add: skip_space_glued)
      show ?thesis
      proof (cases "u = 0x22")
        case quote: True
        show ?thesis
        proof (cases "read_string us")
          case None
          show ?thesis
          proof (cases "read_string (us @ g)")
            case (Some w)
            obtain k s where w: "w = (k, s)" by fastforce
            with read_string_glued[OF g0(1) None] Some have "s = c # g'" by simp
            with g0(3) Some w skip quote show ?thesis by (auto simp: stuck_def split: list.splits)
          qed (use skip quote in simp)
        next
          case (Some w)
          obtain k s1 where w: "read_string us = Some (k, s1)" using Some by fastforce
          note name = read_string_append[OF w, of g]
          show ?thesis
          proof (cases "skip_space s1")
            case Nil
            with w name skip quote g0(1,2) show ?thesis by (simp add: skip_space_glued)
          next
            case colon: (Cons d s2)
            then have skip1: "skip_space (s1 @ g) = d # s2 @ g" by (simp add: skip_space_glued)
            show ?thesis
            proof (cases "d = 0x3A \<and> read_value n s2 = None")
              case True
              have "read_value n (s2 @ g) = Some (v, s3) \<Longrightarrow> stuck s3" for v s3
                using 6(1)[OF Cons _ w refl colon _ conjunct2[OF True]] quote True by simp
              with True name skip quote skip1 show ?thesis by (auto simp: stuck_def split: option.split list.split)
            next
              case False
              show ?thesis
              proof (cases "d = 0x3A")
                case d: True
                with False obtain v s3 where v: "read_value n s2 = Some (v, s3)"
                  by (cases "read_value n s2") auto
                with on have v': "read_value n (s2 @ g) = Some (v, s3 @ g)" using read_append(1) by blast
                have "read_members n (set_property k v es) s4 = None" if "skip_space s3 = 0x2C # s4" for s4
                  using 6(3) Cons quote w colon d v that by simp
                then show ?thesis
                  using 6(2)[OF Cons _ w refl colon _ v refl] 6(3) Cons quote w colon d v v' skip skip1 name g0(1,2)
                  by (cases "skip_space s3") (auto simp: skip_space_glued split: if_splits)
              qed (use skip quote name skip1 in simp)
            qed
          qed
        qed
      qed (use skip in simp)
    qed
  qed (simp_all add: g0(1))
qed

subsection \<open>Glued objects\<close>

lemma whole_object_text:
  assumes "json_ok (JObject False es)" and "json_text (JObject False es) = Inr (Some g)"
    and "g = 0x7B # 0x22 # c # g'" and "\<not> json_space c" and "c \<notin> {0x2C, 0x5D, 0x7D, 0x3A}"
  shows "whole_object g"
proof -
  have "r = []" if "read_value n g = Some (v, r)" for n v r
  proof -
    let ?m = "max n (2 * length g)"
    have "read_value ?m (g @ []) = Some (v, r @ [])"
      by (rule read_append(1)[OF that]) (simp_all add: reads_on_def number_stop_def)
    moreover have "read_value ?m (g @ []) = Some (JObject False es, [])"
      using read_json_text(1)[OF assms(1,2), of "[]" ?m] by (simp add: value_stop_def)
    ultimately show ?thesis by simp
  qed
  with assms(3-5) show ?thesis unfolding whole_object_def by blast
qed

theorem json_parse_glued:
  assumes "json_ok (JObject symbols es)" and "json_text (JObject symbols es) = Inr (Some (p @ q))" and "p \<noteq> []"
    and g: "whole_object g"
  shows "json_parse (p @ g) = None"
proof (rule ccontr)
  assume "json_parse (p @ g) \<noteq> None"
  then obtain n v r where read: "read_value n (p @ g) = Some (v, r)" "skip_space r = []"
    unfolding json_parse_def by (auto simp del: read_value.simps split: option.splits if_splits)
  obtain us where p: "p = 0x7B # us"
    using assms(2,3) by (cases p) (auto simp: result_simps)
  have whole: "read_value (max n (2 * length (p @ q))) (p @ q) = Some (JObject symbols es, [])"
    using read_json_text(1)[OF assms(1,2), of "[]"] by (simp add: value_stop_def)
  obtain c g' where g0: "g = 0x7B # 0x22 # c # g'" "skip_space g = g" using whole_objectE[OF g] .
  show False
  proof (cases "read_value n p")
    case None
    with read_glued(1)[OF g None read(1)] p show False by (simp add: skip_none json_space_def)
  next
    case (Some w)
    obtain x s where w: "read_value n p = Some (x, s)" using Some by fastforce
    then have num: "x \<noteq> JNumber y" for y using value_start_object p by blast
    have "read_value n (p @ g) = Some (x, s @ g)"
      by (rule read_append(1)[OF w]) (simp_all add: reads_on_def num)
    with read(1,2) g0 have "skip_space s \<noteq> []" by (auto simp: skip_space_glued)
    moreover have "read_value (max n (2 * length (p @ q))) (p @ q) = Some (x, s @ q)"
      by (rule read_append(1)[OF w]) (simp_all add: reads_on_def num)
    with whole have "s = []" by simp
    ultimately show False by (simp add: skip_space_def)
  qed
qed

end
