(* ===== verification/SessionTypes.thy ===== *)
theory SessionTypes
  imports Messages
begin

section \<open>Session data\<close>

text \<open>
  The data of \<^verbatim>\<open>packages/agent/src/harness/session/types.ts\<close>: the entries of a session's tree, the
  records of its lanes, queries, mutations and errors. A member of a tagged union is its common part
  (a record) with a body (a datatype with the union's constructors); a provisioned entry is one
  without the fields that storage assigns.
\<close>

subsection \<open>Entries\<close>

datatype entry_body =
    MessageEntry agent_message bool                  \<comment> \<open>message, \<open>terminate\<close>\<close>
  | ModelChangeEntry string string                   \<comment> \<open>provider, model id\<close>
  | ThinkingLevelEntry string
  | ActiveToolsEntry "string list"
  | CompactionEntry string "agent_message list" int js_value "usage option"
      \<comment> \<open>summary, retained tail, tokens before, details, usage\<close>
  | BranchSummaryEntry string string js_value "usage option"  \<comment> \<open>fromId, summary, details, usage\<close>
  | CustomEntry string js_value                      \<comment> \<open>custom type, data\<close>

datatype entry_type = MessageType | ModelChangeType | ThinkingLevelType | ActiveToolsType | CompactionType
  | BranchSummaryType | CustomType

fun body_type :: "entry_body \<Rightarrow> entry_type" where
  "body_type (MessageEntry _ _) = MessageType"
| "body_type (ModelChangeEntry _ _) = ModelChangeType"
| "body_type (ThinkingLevelEntry _) = ThinkingLevelType"
| "body_type (ActiveToolsEntry _) = ActiveToolsType"
| "body_type (CompactionEntry _ _ _ _ _) = CompactionType"
| "body_type (BranchSummaryEntry _ _ _ _) = BranchSummaryType"
| "body_type (CustomEntry _ _) = CustomType"

record provisioned_entry =
  entryId :: string
  entryBody :: entry_body

record entry = provisioned_entry +
  entrySeq :: nat
  entryParent :: "string option"
  entryTimestamp :: int

definition entry_type :: "entry \<Rightarrow> entry_type" where
  "entry_type e = body_type (entryBody e)"

text \<open>An entry without its storage-assigned fields, and with them.\<close>

definition payload_of_entry :: "entry \<Rightarrow> provisioned_entry" where
  "payload_of_entry e = \<lparr>entryId = entryId e, entryBody = entryBody e\<rparr>"

definition provision :: "provisioned_entry \<Rightarrow> nat \<Rightarrow> string option \<Rightarrow> int \<Rightarrow> entry" where
  "provision p seq parent now =
     \<lparr>entryId = entryId p, entryBody = entryBody p, entrySeq = seq, entryParent = parent, entryTimestamp = now\<rparr>"

lemma payload_of_provision [simp]: "payload_of_entry (provision p seq parent now) = p"
  by (simp add: payload_of_entry_def provision_def)

lemma provision_simps [simp]:
  "entryId (provision p seq parent now) = entryId p" "entryBody (provision p seq parent now) = entryBody p"
  "entrySeq (provision p seq parent now) = seq" "entryParent (provision p seq parent now) = parent"
  by (simp_all add: provision_def)

subsection \<open>Lane records\<close>

datatype operation_kind = RunKind | CompactionKind | NavigationKind

datatype operation_intent =
    RunIntent "agent_message list" "provisioned_entry list" "string option" js_value
      \<comment> \<open>original prompt, initial messages, system prompt override, resume data\<close>
  | CompactionIntent "string option" string
      \<comment> \<open>custom instructions, result entry id\<close>
  | NavigationIntent "string option" bool "string option" "string option" "string option"
      \<comment> \<open>target id, summarize, custom instructions, label, summary entry id\<close>

fun intent_kind :: "operation_intent \<Rightarrow> operation_kind" where
  "intent_kind (RunIntent _ _ _ _) = RunKind"
| "intent_kind (CompactionIntent _ _) = CompactionKind"
| "intent_kind (NavigationIntent _ _ _ _ _) = NavigationKind"

datatype operation_outcome = CompletedOutcome | AbortedOutcome | FailedOutcome | DeclinedOutcome

datatype attempt_step = AssistantStep | CompactionStep | BranchSummaryStep

datatype queue_name = SteerQueue | FollowUpQueue | NextRunQueue

datatype usage_cause = AssistantCause | CompactionCause | BranchSummaryCause | DeferredFetchCause | ToolCause | HookCause
  | AdjustmentCause

datatype record_body =
    OperationStarted "string option" operation_intent            \<comment> \<open>source leaf id, intent\<close>
  | AbortRequested string                                        \<comment> \<open>run id\<close>
  | OperationFinished string operation_outcome "(string \<times> string) option"  \<comment> \<open>run id, outcome, error\<close>
  | StepAttempt string attempt_step nat string "string option"
      \<comment> \<open>run id, step, attempt, result entry id, compaction reason\<close>
  | ToolStarted string string nat string string js_value string bool
      \<comment> \<open>run id, assistant entry id, tool index, tool call id, tool name, arguments, result entry id, replay safe\<close>
  | QueueEnqueued queue_name "string option" provisioned_entry   \<comment> \<open>queue, run id, target\<close>
  | QueueCancelled "string option" string                        \<comment> \<open>run id, entry id\<close>
  | WriteDeferred string provisioned_entry                       \<comment> \<open>run id, target\<close>
  | UsageRecorded usage usage_cause "string option" "string option"   \<comment> \<open>usage, cause, run id, entry id\<close>

datatype record_type = OperationStartedType | AbortRequestedType | OperationFinishedType | StepAttemptType
  | ToolStartedType | QueueEnqueuedType | QueueCancelledType | WriteDeferredType | UsageType

fun type_of_record :: "record_body \<Rightarrow> record_type" where
  "type_of_record (OperationStarted _ _) = OperationStartedType"
| "type_of_record (AbortRequested _) = AbortRequestedType"
| "type_of_record (OperationFinished _ _ _) = OperationFinishedType"
| "type_of_record (StepAttempt _ _ _ _ _) = StepAttemptType"
| "type_of_record (ToolStarted _ _ _ _ _ _ _ _) = ToolStartedType"
| "type_of_record (QueueEnqueued _ _ _) = QueueEnqueuedType"
| "type_of_record (QueueCancelled _ _) = QueueCancelledType"
| "type_of_record (WriteDeferred _ _) = WriteDeferredType"
| "type_of_record (UsageRecorded _ _ _ _) = UsageType"

text \<open>The \<open>runId\<close> property of a record that has one.\<close>

fun run_id :: "record_body \<Rightarrow> string option" where
  "run_id (OperationStarted _ _) = None"
| "run_id (AbortRequested r) = Some r"
| "run_id (OperationFinished r _ _) = Some r"
| "run_id (StepAttempt r _ _ _ _) = Some r"
| "run_id (ToolStarted r _ _ _ _ _ _ _) = Some r"
| "run_id (QueueEnqueued _ r _) = r"
| "run_id (QueueCancelled r _) = r"
| "run_id (WriteDeferred r _) = Some r"
| "run_id (UsageRecorded _ _ r _) = r"

record new_record =
  recordId :: string
  recordLane :: string
  recordBody :: record_body

record lane_record = new_record +
  recordSeq :: nat
  recordTimestamp :: int

definition record_of_new :: "new_record \<Rightarrow> nat \<Rightarrow> int \<Rightarrow> lane_record" where
  "record_of_new r seq now = \<lparr>recordId = recordId r, recordLane = recordLane r, recordBody = recordBody r,
     recordSeq = seq, recordTimestamp = now\<rparr>"

lemma record_of_new_simps [simp]:
  "recordId (record_of_new r seq now) = recordId r" "recordLane (record_of_new r seq now) = recordLane r"
  "recordBody (record_of_new r seq now) = recordBody r" "recordSeq (record_of_new r seq now) = seq"
  by (simp_all add: record_of_new_def)

subsection \<open>Queries\<close>

datatype entry_order = NewestFirst | OldestFirst

record entry_query =
  queryType :: "entry_type option"
  queryCustomType :: "string option"
  queryOrder :: "entry_order option"
  queryLimit :: "js_number option"
  queryCursor :: "js_number option"    \<comment> \<open>\<open>cursor.afterSeq\<close>\<close>

record branch_bounds =
  stopAtType :: "entry_type option"
  stopAtId :: "string option"

record record_query =
  rqLane :: "string option"
  rqType :: "record_type option"
  rqRunId :: "string option"
  rqOperationKind :: "operation_kind option"
  rqAfterSeq :: "js_number option"
  rqOrder :: "entry_order option"
  rqLimit :: "js_number option"

subsection \<open>The log, statistics, forks\<close>

datatype session_mutation =
    EntryMutation "string option" entry          \<comment> \<open>lane, entry\<close>
  | RecordMutation lane_record
  | LaneMutation nat string "string option"      \<comment> \<open>seq, lane, leaf id\<close>
  | NameMutation nat "string option"
  | LabelMutation nat string "string option"     \<comment> \<open>seq, target id, label\<close>

datatype log_item =
    EntryItem nat entry
  | RecordItem nat lane_record
  | LaneItem nat string "string option"
  | NameItem nat "string option"
  | LabelItem nat string "string option"

fun item_seq :: "log_item \<Rightarrow> nat" where
  "item_seq (EntryItem n _) = n"
| "item_seq (RecordItem n _) = n"
| "item_seq (LaneItem n _ _) = n"
| "item_seq (NameItem n _) = n"
| "item_seq (LabelItem n _ _) = n"

fun mutation_seq :: "session_mutation \<Rightarrow> nat" where
  "mutation_seq (EntryMutation _ e) = entrySeq e"
| "mutation_seq (RecordMutation r) = recordSeq r"
| "mutation_seq (LaneMutation n _ _) = n"
| "mutation_seq (NameMutation n _) = n"
| "mutation_seq (LabelMutation n _ _) = n"

record session_stats =
  messageCount :: nat
  cachedTokens :: int
  uncachedTokens :: int
  totalTokens :: int
  costTotal :: rat

datatype fork_position = ForkBefore | ForkAt

datatype fork_options = ForkTree | ForkBranch "string option" "fork_position option"

record session_metadata =
  metadataId :: string
  createdAt :: int
  parentSessionId :: "string option"

subsection \<open>Errors\<close>

datatype session_error_code = NotFound | AlreadyExists | InvalidEntry | InvalidPayload | InvalidLane | InvalidQuery
  | InvalidForkTarget | StorageError

datatype session_error = SessionError (error_code: session_error_code) string

end
