(* ===== verification/SessionState.thy ===== *)
theory SessionState
  imports SessionTypes "HOL-Library.AList"
begin

section \<open>Session state\<close>

text \<open>
  The model of \<^verbatim>\<open>packages/agent/src/harness/session/state.ts\<close>. A JavaScript \<open>Map\<close> is an association
  list in insertion order, written with \<open>AList.update\<close> (which keeps the place of an existing key) and
  \<open>AList.delete\<close>. An operation that throws returns the error and no state: every check of
  \<open>applyMutation\<close> precedes its first assignment.
\<close>

subsection \<open>State\<close>

record session_state =
  sequence :: nat
  usedIds :: "string set"
  entries :: "entry list"
  entriesById :: "(string \<times> entry) list"
  records :: "lane_record list"
  openOperationsByLane :: "(string \<times> (string \<times> lane_record) list) list"
  lanes :: "(string \<times> string option) list"
  log :: "log_item list"
  stats :: session_stats
  name :: "string option"
  labels :: "(string \<times> string) list"

definition newSessionState :: session_state where
  "newSessionState =
     \<lparr>sequence = 0, usedIds = {}, entries = [], entriesById = [], records = [], openOperationsByLane = [],
      lanes = [(''main'', None)], log = [],
      stats = \<lparr>messageCount = 0, cachedTokens = 0, uncachedTokens = 0, totalTokens = 0, costTotal = 0\<rparr>,
      name = None, labels = []\<rparr>"

definition nextSequence :: "session_state \<Rightarrow> nat" where
  "nextSequence st = sequence st + 1"

definition invalidMutation :: "string \<Rightarrow> session_error" where
  "invalidMutation message = SessionError InvalidEntry (''Invalid session mutation: '' @ message)"

definition assertValidLimit :: "js_number option \<Rightarrow> session_error + unit" where
  "assertValidLimit limit =
     throw_if (case limit of None \<Rightarrow> False | Some n \<Rightarrow> \<not> is_integer n \<or> integer_value n \<le> 0)
       (SessionError InvalidQuery ''limit must be a positive integer'')"

definition assertValidCursor :: "js_number option \<Rightarrow> session_error + unit" where
  "assertValidCursor afterSeq =
     throw_if (case afterSeq of None \<Rightarrow> False | Some n \<Rightarrow> \<not> is_integer n \<or> integer_value n < 0)
       (SessionError InvalidQuery ''cursor sequence must be a non-negative integer'')"

definition ordered :: "'a list \<Rightarrow> entry_order option \<Rightarrow> 'a list" where
  "ordered items order = (if order = Some OldestFirst then items else rev items)"

subsection \<open>Validation\<close>

definition requireLane :: "session_state \<Rightarrow> string \<Rightarrow> session_error + string option" where
  "requireLane st lane =
     (case map_of (lanes st) lane of
        None \<Rightarrow> Inl (SessionError InvalidLane (''Lane not found: '' @ lane))
      | Some leafId \<Rightarrow> Inr leafId)"

definition validateNewLane :: "session_state \<Rightarrow> string \<Rightarrow> session_error + unit" where
  "validateNewLane st lane =
     throw_if (map_of (lanes st) lane \<noteq> None) (SessionError AlreadyExists (''Lane already exists: '' @ lane))"

definition has_entry :: "session_state \<Rightarrow> string \<Rightarrow> bool" where
  "has_entry st i \<longleftrightarrow> map_of (entriesById st) i \<noteq> None"

definition validateTarget :: "session_state \<Rightarrow> string option \<Rightarrow> session_error + unit" where
  "validateTarget st targetId =
     (case targetId of
        None \<Rightarrow> Inr ()
      | Some i \<Rightarrow> throw_if (\<not> has_entry st i) (SessionError NotFound (''Entry not found: '' @ i)))"

definition validateUnusedId :: "session_state \<Rightarrow> string \<Rightarrow> session_error + unit" where
  "validateUnusedId st i =
     throw_if (i \<in> usedIds st) (SessionError AlreadyExists (''Session id already exists: '' @ i))"

subsection \<open>Mutations\<close>

definition open_operations :: "session_state \<Rightarrow> string \<Rightarrow> (string \<times> lane_record) list" where
  "open_operations st lane = (case map_of (openOperationsByLane st) lane of None \<Rightarrow> [] | Some m \<Rightarrow> m)"

text \<open>The bookkeeping of open operations on a record.\<close>

definition track_operation :: "lane_record \<Rightarrow> session_state \<Rightarrow> session_state" where
  "track_operation r st =
     (case recordBody r of
        OperationStarted _ _ \<Rightarrow>
          st\<lparr>openOperationsByLane :=
               AList.update (recordLane r) (AList.update (recordId r) r (open_operations st (recordLane r)))
                 (openOperationsByLane st)\<rparr>
      | OperationFinished runId _ _ \<Rightarrow>
          (case map_of (openOperationsByLane st) (recordLane r) of
             None \<Rightarrow> st
           | Some m \<Rightarrow> st\<lparr>openOperationsByLane :=
               AList.update (recordLane r) (AList.delete runId m) (openOperationsByLane st)\<rparr>)
      | _ \<Rightarrow> st)"

definition add_usage :: "lane_record \<Rightarrow> session_stats \<Rightarrow> session_stats" where
  "add_usage r s =
     (case recordBody r of
        UsageRecorded u _ _ _ \<Rightarrow>
          s\<lparr>cachedTokens := cachedTokens s + usageCacheRead u,
            uncachedTokens := uncachedTokens s + (usageInput u + usageCacheWrite u),
            totalTokens := totalTokens s + usageTotalTokens u,
            costTotal := costTotal s + priceTotal (usageCost u)\<rparr>
      | _ \<Rightarrow> s)"

definition count_message :: "entry \<Rightarrow> session_stats \<Rightarrow> session_stats" where
  "count_message e s = (if entry_type e = MessageType then s\<lparr>messageCount := messageCount s + 1\<rparr> else s)"

definition check_entry :: "session_state \<Rightarrow> string option \<Rightarrow> entry \<Rightarrow> (string \<Rightarrow> session_error) \<Rightarrow> session_error + unit" where
  "check_entry st lane e invalid =
     and_then (throw_if (entryId e \<in> usedIds st) (invalid (''contains duplicate id '' @ entryId e))) (\<lambda>_.
     and_then
       (case lane of
          None \<Rightarrow> Inr ()
        | Some l \<Rightarrow>
            (case map_of (lanes st) l of
               None \<Rightarrow> Inl (invalid (''references missing lane '' @ l))
             | Some leafId \<Rightarrow> throw_if (entryParent e \<noteq> leafId) (invalid ''does not chain to the lane leaf''))) (\<lambda>_.
     case entryParent e of
       None \<Rightarrow> Inr ()
     | Some p \<Rightarrow> throw_if (\<not> has_entry st p) (invalid (''references missing parent '' @ p))))"

definition apply_entry :: "session_state \<Rightarrow> string option \<Rightarrow> entry \<Rightarrow> session_state" where
  "apply_entry st lane e =
     st\<lparr>sequence := entrySeq e,
        usedIds := insert (entryId e) (usedIds st),
        entries := entries st @ [e],
        entriesById := AList.update (entryId e) e (entriesById st),
        lanes := (case lane of None \<Rightarrow> lanes st | Some l \<Rightarrow> AList.update l (Some (entryId e)) (lanes st)),
        log := log st @ [EntryItem (entrySeq e) e],
        stats := count_message e (stats st)\<rparr>"

definition check_record :: "session_state \<Rightarrow> lane_record \<Rightarrow> (string \<Rightarrow> session_error) \<Rightarrow> session_error + unit" where
  "check_record st r invalid =
     and_then (throw_if (map_of (lanes st) (recordLane r) = None)
       (invalid (''references missing lane '' @ recordLane r))) (\<lambda>_.
     throw_if (recordId r \<in> usedIds st) (invalid (''contains duplicate id '' @ recordId r)))"

definition apply_record :: "session_state \<Rightarrow> lane_record \<Rightarrow> session_state" where
  "apply_record st r =
     (track_operation r st)\<lparr>sequence := recordSeq r,
        usedIds := insert (recordId r) (usedIds st),
        records := records st @ [r],
        log := log st @ [RecordItem (recordSeq r) r],
        stats := add_usage r (stats st)\<rparr>"

definition applyMutation ::
  "session_state \<Rightarrow> session_mutation \<Rightarrow> (string \<Rightarrow> session_error) \<Rightarrow> session_error + session_state" where
  "applyMutation st mutation invalid =
     and_then (throw_if (mutation_seq mutation \<noteq> sequence st + 1)
       (invalid (''has non-consecutive seq '' @ show_nat (mutation_seq mutation)))) (\<lambda>_.
     case mutation of
       EntryMutation lane e \<Rightarrow> and_then (check_entry st lane e invalid) (\<lambda>_. Inr (apply_entry st lane e))
     | RecordMutation r \<Rightarrow> and_then (check_record st r invalid) (\<lambda>_. Inr (apply_record st r))
     | LaneMutation seq lane leafId \<Rightarrow>
         and_then (case leafId of None \<Rightarrow> Inr ()
                   | Some i \<Rightarrow> throw_if (\<not> has_entry st i) (invalid (''references missing lane target '' @ i))) (\<lambda>_.
         Inr (st\<lparr>sequence := seq, lanes := AList.update lane leafId (lanes st),
                 log := log st @ [LaneItem seq lane leafId]\<rparr>))
     | NameMutation seq n \<Rightarrow> Inr (st\<lparr>sequence := seq, name := n, log := log st @ [NameItem seq n]\<rparr>)
     | LabelMutation seq targetId label \<Rightarrow>
         and_then (throw_if (\<not> has_entry st targetId) (invalid (''references missing label target '' @ targetId))) (\<lambda>_.
         Inr (st\<lparr>sequence := seq,
                 labels := (case label of None \<Rightarrow> AList.delete targetId (labels st)
                            | Some l \<Rightarrow> AList.update targetId l (labels st)),
                 log := log st @ [LabelItem seq targetId label]\<rparr>)))"

fun applyMutations :: "session_state \<Rightarrow> session_mutation list \<Rightarrow> session_error + session_state" where
  "applyMutations st [] = Inr st"
| "applyMutations st (m # ms) = and_then (applyMutation st m invalidMutation) (\<lambda>st. applyMutations st ms)"

subsection \<open>Queries\<close>

definition above :: "nat \<Rightarrow> js_number \<Rightarrow> bool" where
  "above seq n \<longleftrightarrow> int seq > integer_value n"

definition matchesEntryQuery :: "entry \<Rightarrow> entry_query \<Rightarrow> bool" where
  "matchesEntryQuery e q \<longleftrightarrow>
     (case queryType q of None \<Rightarrow> True | Some t \<Rightarrow> entry_type e = t) \<and>
     (case queryCustomType q of None \<Rightarrow> True
      | Some t \<Rightarrow> (case entryBody e of CustomEntry t' _ \<Rightarrow> t' = t | _ \<Rightarrow> False)) \<and>
     (case queryCursor q of None \<Rightarrow> True
      | Some n \<Rightarrow> if queryOrder q = Some OldestFirst then above (entrySeq e) n
                  else int (entrySeq e) < integer_value n)"

definition matchesRecordQuery :: "lane_record \<Rightarrow> record_query \<Rightarrow> bool" where
  "matchesRecordQuery r q \<longleftrightarrow>
     (case rqLane q of None \<Rightarrow> True | Some l \<Rightarrow> recordLane r = l) \<and>
     (case rqType q of None \<Rightarrow> True | Some t \<Rightarrow> type_of_record (recordBody r) = t) \<and>
     (case rqRunId q of None \<Rightarrow> True
      | Some i \<Rightarrow> (case recordBody r of OperationStarted _ _ \<Rightarrow> recordId r = i | b \<Rightarrow> run_id b = Some i)) \<and>
     (case rqOperationKind q of None \<Rightarrow> True
      | Some k \<Rightarrow> (case recordBody r of OperationStarted _ intent \<Rightarrow> intent_kind intent = k | _ \<Rightarrow> False)) \<and>
     (case rqAfterSeq q of None \<Rightarrow> True | Some n \<Rightarrow> above (recordSeq r) n)"

definition reached_limit :: "js_number option \<Rightarrow> 'a list \<Rightarrow> bool" where
  "reached_limit limit results \<longleftrightarrow>
     (case limit of None \<Rightarrow> False | Some n \<Rightarrow> is_integer n \<and> int (length results) = integer_value n)"

text \<open>The loop of a query: skip what does not match, push the rest, stop at the limit.\<close>

fun collect :: "('a \<Rightarrow> bool) \<Rightarrow> js_number option \<Rightarrow> 'a list \<Rightarrow> 'a list \<Rightarrow> 'a list" where
  "collect p limit results [] = results"
| "collect p limit results (x # xs) =
     (if \<not> p x then collect p limit results xs
      else let results = results @ [x]
           in if reached_limit limit results then results else collect p limit results xs)"

text \<open>The loop of a branch query, which checks the bound and the limit after every entry.\<close>

fun collect_branch :: "(entry \<Rightarrow> bool) \<Rightarrow> (entry \<Rightarrow> bool) \<Rightarrow> js_number option \<Rightarrow> entry list \<Rightarrow> entry list \<Rightarrow>
    entry list \<times> bool" where
  "collect_branch p bound limit results [] = (results, False)"
| "collect_branch p bound limit results (e # es) =
     (let results = (if p e then results @ [e] else results)
      in if bound e \<or> reached_limit limit results then (results, True) else collect_branch p bound limit results es)"

text \<open>
  \<open>walkToRoot\<close>: the entries it yields, and the error it then throws, if any; a consumer that stops
  earlier does not see the error. \<open>missing\<close> is the error for an id that is not there.
\<close>

definition at_bound :: "branch_bounds option \<Rightarrow> entry \<Rightarrow> bool" where
  "at_bound bounds e =
     (case bounds of None \<Rightarrow> False
      | Some b \<Rightarrow> Some (entryId e) = stopAtId b \<or> Some (entry_type e) = stopAtType b)"

definition entry_ids :: "(string \<times> entry) list \<Rightarrow> string set" where
  "entry_ids m = entryId ` snd ` set m"

function walk :: "(string \<times> entry) list \<Rightarrow> branch_bounds option \<Rightarrow> string set \<Rightarrow> session_error_code \<Rightarrow> string \<Rightarrow>
    entry list \<times> session_error option" where
  "walk m bounds visited missing i =
     (case map_of m i of
        None \<Rightarrow> ([], Some (SessionError missing (''Entry not found: '' @ i)))
      | Some current \<Rightarrow>
          if entryId current \<in> visited
          then ([], Some (SessionError InvalidEntry (''Session branch contains a cycle at '' @ entryId current)))
          else (case entryParent current of
              None \<Rightarrow> ([current], None)
            | Some parentId \<Rightarrow>
                if at_bound bounds current then ([current], None)
                else (let (es, err) = walk m bounds (insert (entryId current) visited) InvalidEntry parentId
                      in (current # es, err))))"
  by pat_completeness auto
termination
proof (relation "measure (\<lambda>(m, bounds, visited, missing, i). card (entry_ids m - visited))", goal_cases)
  case (2 m bounds visited missing i current parentId)
  have "entryId current \<in> entry_ids m"
    using map_of_SomeD[OF 2(1)] by (force simp: entry_ids_def)
  with 2(2) have "entryId current \<in> entry_ids m - visited" by simp
  moreover have "finite (entry_ids m - visited)"
    by (simp add: entry_ids_def)
  moreover have "entry_ids m - insert (entryId current) visited = entry_ids m - visited - {entryId current}"
    by blast
  ultimately show ?case
    by (simp only: in_measure prod.case card_Diff1_less)
qed simp

declare walk.simps [simp del]

definition walkToRoot :: "session_state \<Rightarrow> string \<Rightarrow> branch_bounds option \<Rightarrow> entry list \<times> session_error option" where
  "walkToRoot st start bounds = walk (entriesById st) bounds {} NotFound start"

definition findEntries :: "session_state \<Rightarrow> entry_query \<Rightarrow> session_error + entry list" where
  "findEntries st q =
     and_then (assertValidLimit (queryLimit q)) (\<lambda>_.
     and_then (assertValidCursor (queryCursor q)) (\<lambda>_.
     Inr (collect (\<lambda>e. matchesEntryQuery e q) (queryLimit q) [] (ordered (entries st) (queryOrder q)))))"

definition findEntriesOnBranch ::
  "session_state \<Rightarrow> entry_query \<Rightarrow> branch_bounds \<Rightarrow> string \<Rightarrow> session_error + entry list" where
  "findEntriesOnBranch st q bounds start =
     and_then (assertValidLimit (queryLimit q)) (\<lambda>_.
     and_then (assertValidCursor (queryCursor q)) (\<lambda>_.
     if queryOrder q = Some OldestFirst then
       (case walkToRoot st start None of
          (path, Some e) \<Rightarrow> Inl e
        | (path, None) \<Rightarrow> Inr (fst (collect_branch (\<lambda>e. matchesEntryQuery e q) (at_bound (Some bounds)) (queryLimit q) []
                                (rev path))))
     else
       (case walkToRoot st start (Some bounds) of
          (path, err) \<Rightarrow>
            (case collect_branch (\<lambda>e. matchesEntryQuery e q) (\<lambda>e. False) (queryLimit q) [] path of
               (results, stopped) \<Rightarrow>
                 if stopped then Inr results
                 else (case err of None \<Rightarrow> Inr results | Some e \<Rightarrow> Inl e)))))"

definition findRecords :: "session_state \<Rightarrow> record_query \<Rightarrow> session_error + lane_record list" where
  "findRecords st q =
     and_then (assertValidLimit (rqLimit q)) (\<lambda>_.
     and_then (assertValidCursor (rqAfterSeq q)) (\<lambda>_.
     Inr (collect (\<lambda>r. matchesRecordQuery r q) (rqLimit q) [] (ordered (records st) (rqOrder q)))))"

definition findOpenOperations :: "session_state \<Rightarrow> string \<Rightarrow> js_number option \<Rightarrow> session_error + lane_record list" where
  "findOpenOperations st lane limit =
     and_then (assertValidLimit limit) (\<lambda>_.
     let openOperations = rev (map snd (open_operations st lane))
     in Inr (case limit of None \<Rightarrow> openOperations | Some n \<Rightarrow> take (nat (integer_value n)) openOperations))"

definition getLog :: "session_state \<Rightarrow> js_number option \<Rightarrow> js_number option \<Rightarrow> session_error + log_item list" where
  "getLog st afterSeq limit =
     and_then (assertValidLimit limit) (\<lambda>_.
     and_then (assertValidCursor afterSeq) (\<lambda>_.
     Inr (collect (\<lambda>i. case afterSeq of None \<Rightarrow> True | Some n \<Rightarrow> above (item_seq i) n) limit [] (log st))))"

subsection \<open>Forks\<close>

definition all_entries :: entry_query where
  "all_entries = \<lparr>queryType = None, queryCustomType = None, queryOrder = Some OldestFirst, queryLimit = None,
     queryCursor = None\<rparr>"

definition no_bounds :: branch_bounds where
  "no_bounds = \<lparr>stopAtType = None, stopAtId = None\<rparr>"

text \<open>The entry a branch fork ends at (\<open>None\<close>: before the first entry).\<close>

definition fork_target :: "session_state \<Rightarrow> string option \<Rightarrow> fork_position option \<Rightarrow> session_error + string option" where
  "fork_target st entryId0 position =
     and_then (case entryId0 of Some i \<Rightarrow> Inr (Some i) | None \<Rightarrow> requireLane st ''main'') (\<lambda>selected.
     case selected of
       None \<Rightarrow> Inr None
     | Some i \<Rightarrow>
         (case map_of (entriesById st) i of
            None \<Rightarrow> Inl (SessionError InvalidForkTarget (''Fork target is not a message entry: '' @ i))
          | Some e \<Rightarrow>
              if entry_type e \<noteq> MessageType
              then Inl (SessionError InvalidForkTarget (''Fork target is not a message entry: '' @ i))
              else let pos = (case position of Some p \<Rightarrow> p | None \<Rightarrow> if entryId0 = None then ForkAt else ForkBefore)
                   in Inr (if pos = ForkAt then Some (entryId e) else entryParent e)))"

definition fork_source :: "session_state \<Rightarrow> fork_options \<Rightarrow> session_error + (entry list \<times> (string \<times> string option) list)" where
  "fork_source st options =
     (case options of
        ForkTree \<Rightarrow> and_then (findEntries st all_entries) (\<lambda>es. Inr (es, lanes st))
      | ForkBranch i position \<Rightarrow>
          and_then (fork_target st i position) (\<lambda>target.
          and_then (case target of None \<Rightarrow> Inr [] | Some t \<Rightarrow> findEntriesOnBranch st all_entries no_bounds t) (\<lambda>es.
          Inr (es, [(''main'', target)]))))"

definition entry_mutations :: "nat \<Rightarrow> entry list \<Rightarrow> session_mutation list" where
  "entry_mutations n es = map (\<lambda>(seq, e). EntryMutation None (e\<lparr>entrySeq := seq\<rparr>)) (enumerate n es)"

definition lane_mutations :: "nat \<Rightarrow> (string \<times> string option) list \<Rightarrow> session_mutation list" where
  "lane_mutations n ls = map (\<lambda>(seq, (lane, leafId)). LaneMutation seq lane leafId) (enumerate n ls)"

definition name_mutations :: "nat \<Rightarrow> string option \<Rightarrow> session_mutation list" where
  "name_mutations n nm = (case nm of None \<Rightarrow> [] | Some x \<Rightarrow> [NameMutation n (Some x)])"

fun label_mutations :: "nat \<Rightarrow> (string \<times> string) list \<Rightarrow> entry list \<Rightarrow> session_mutation list" where
  "label_mutations n ls [] = []"
| "label_mutations n ls (e # es) =
     (case map_of ls (entryId e) of
        None \<Rightarrow> label_mutations n ls es
      | Some label \<Rightarrow> LabelMutation n (entryId e) (Some label) # label_mutations (Suc n) ls es)"

definition createForkMutations :: "session_state \<Rightarrow> fork_options \<Rightarrow> session_error + session_mutation list" where
  "createForkMutations st options =
     and_then (fork_source st options) (\<lambda>(copied, forkLanes).
       let n = 1 + length copied; m = n + length forkLanes; k = m + length (name_mutations m (name st))
       in Inr (entry_mutations 1 copied @ lane_mutations n forkLanes @ name_mutations m (name st) @
               label_mutations k (labels st) copied))"

end
