(* ===== verification/SessionInvariant.thy ===== *)
theory SessionInvariant
  imports SessionState
begin

section \<open>Session state: invariant\<close>

text \<open>
  Every state that mutations can build is well formed: its sequence counts its log, ids are unique
  across entries and records, the parent of an entry is an earlier entry, lanes and labels point to
  entries, and the open operations and the statistics are those of the records.
\<close>

subsection \<open>The invariant\<close>

definition log_entries :: "log_item list \<Rightarrow> entry list" where
  "log_entries = List.map_filter (\<lambda>i. case i of EntryItem n e \<Rightarrow> Some e | _ \<Rightarrow> None)"

definition log_records :: "log_item list \<Rightarrow> lane_record list" where
  "log_records = List.map_filter (\<lambda>i. case i of RecordItem n r \<Rightarrow> Some r | _ \<Rightarrow> None)"

definition item_ok :: "log_item \<Rightarrow> bool" where
  "item_ok i = (case i of EntryItem n e \<Rightarrow> entrySeq e = n | RecordItem n r \<Rightarrow> recordSeq r = n | _ \<Rightarrow> True)"

definition log_ok :: "session_state \<Rightarrow> bool" where
  "log_ok st \<longleftrightarrow> sequence st = length (log st) \<and> map item_seq (log st) = [1..<Suc (length (log st))] \<and>
     list_all item_ok (log st) \<and> entries st = log_entries (log st) \<and> records st = log_records (log st)"

definition ids_ok :: "session_state \<Rightarrow> bool" where
  "ids_ok st \<longleftrightarrow> distinct (map entryId (entries st) @ map recordId (records st)) \<and>
     usedIds st = entryId ` set (entries st) \<union> recordId ` set (records st) \<and>
     entriesById st = map (\<lambda>e. (entryId e, e)) (entries st)"

definition known_leaf :: "string set \<Rightarrow> string option \<Rightarrow> bool" where
  "known_leaf ids leaf \<longleftrightarrow> (case leaf of None \<Rightarrow> True | Some i \<Rightarrow> i \<in> ids)"

text \<open>Every parent is an entry that comes earlier in the list.\<close>

fun chained :: "string set \<Rightarrow> entry list \<Rightarrow> bool" where
  "chained known [] = True"
| "chained known (e # es) =
     (known_leaf known (entryParent e) \<and> chained (insert (entryId e) known) es)"

definition tree_ok :: "session_state \<Rightarrow> bool" where
  "tree_ok st \<longleftrightarrow> chained {} (entries st) \<and> sorted_wrt (<) (map entrySeq (entries st)) \<and>
     (\<forall>e \<in> set (entries st). entrySeq e \<le> sequence st)"

definition lanes_ok :: "session_state \<Rightarrow> bool" where
  "lanes_ok st \<longleftrightarrow> distinct (map fst (lanes st)) \<and> ''main'' \<in> fst ` set (lanes st) \<and>
     (\<forall>leaf \<in> snd ` set (lanes st). known_leaf (entryId ` set (entries st)) leaf) \<and>
     (\<forall>r \<in> set (records st). recordLane r \<in> fst ` set (lanes st)) \<and>
     distinct (map fst (labels st)) \<and> fst ` set (labels st) \<subseteq> entryId ` set (entries st)"

text \<open>The operations of a lane that some record starts and no later record of the lane finishes.\<close>

definition starts_in :: "string \<Rightarrow> lane_record \<Rightarrow> bool" where
  "starts_in lane r \<longleftrightarrow> recordLane r = lane \<and> (case recordBody r of OperationStarted _ _ \<Rightarrow> True | _ \<Rightarrow> False)"

definition finishes :: "string \<Rightarrow> string \<Rightarrow> lane_record \<Rightarrow> bool" where
  "finishes lane i r \<longleftrightarrow> recordLane r = lane \<and> (case recordBody r of OperationFinished runId _ _ \<Rightarrow> runId = i | _ \<Rightarrow> False)"

fun unfinished :: "string \<Rightarrow> lane_record list \<Rightarrow> lane_record list" where
  "unfinished lane [] = []"
| "unfinished lane (r # rs) =
     (if starts_in lane r \<and> \<not> list_ex (finishes lane (recordId r)) rs then r # unfinished lane rs
      else unfinished lane rs)"

definition ops_ok :: "session_state \<Rightarrow> bool" where
  "ops_ok st \<longleftrightarrow> (\<forall>lane. open_operations st lane = map (\<lambda>r. (recordId r, r)) (unfinished lane (records st)))"

definition stats_of :: "entry list \<Rightarrow> lane_record list \<Rightarrow> session_stats" where
  "stats_of es rs =
     (let us = List.map_filter (\<lambda>r. case recordBody r of UsageRecorded u _ _ _ \<Rightarrow> Some u | _ \<Rightarrow> None) rs
      in \<lparr>messageCount = length (filter (\<lambda>e. entry_type e = MessageType) es),
          cachedTokens = sum_list (map usageCacheRead us),
          uncachedTokens = sum_list (map (\<lambda>u. usageInput u + usageCacheWrite u) us),
          totalTokens = sum_list (map usageTotalTokens us),
          costTotal = sum_list (map (\<lambda>u. priceTotal (usageCost u)) us)\<rparr>)"

definition session_inv :: "session_state \<Rightarrow> bool" where
  "session_inv st \<longleftrightarrow> log_ok st \<and> ids_ok st \<and> tree_ok st \<and> lanes_ok st \<and> ops_ok st \<and>
     stats st = stats_of (entries st) (records st)"

subsection \<open>Lemmas\<close>

lemma update_fresh: "k \<notin> fst ` set xs \<Longrightarrow> AList.update k v xs = xs @ [(k, v)]"
  by (induction xs) auto

lemma map_of_pairs [simp]: "map_of (map (\<lambda>e. (f e, e)) xs) k = find (\<lambda>e. f e = k) xs"
  by (induction xs) auto

lemma find_None_image: "find (\<lambda>e. f e = k) xs = None \<longleftrightarrow> k \<notin> f ` set xs"
  by (auto simp: find_None_iff)

lemma has_entry_iff: "ids_ok st \<Longrightarrow> has_entry st i \<longleftrightarrow> i \<in> entryId ` set (entries st)"
  using find_None_image[of entryId i "entries st"] by (simp add: has_entry_def ids_ok_def)

lemma known_leaf_simps [simp]: "known_leaf ids None" "known_leaf ids (Some i) \<longleftrightarrow> i \<in> ids"
  by (simp_all add: known_leaf_def)

lemma known_leaf_mono: "known_leaf ids leaf \<Longrightarrow> ids \<subseteq> ids' \<Longrightarrow> known_leaf ids' leaf"
  by (auto simp: known_leaf_def split: option.splits)

lemma snd_update: "snd ` set (AList.update k v xs) \<subseteq> insert v (snd ` set xs)"
  by (induction xs) auto

lemma fst_update: "fst ` set (AList.update k v xs) = insert k (fst ` set xs)"
  by (induction xs) auto

lemma fst_delete: "fst ` set (AList.delete k xs) \<subseteq> fst ` set xs"
  by (induction xs) auto

lemma distinct_fst_delete: "distinct (map fst xs) \<Longrightarrow> distinct (map fst (AList.delete k xs))"
proof (induction xs)
  case (Cons x xs)
  then show ?case using subsetD[OF fst_delete, of "fst x" k xs] by (cases "fst x = k") auto
qed simp

lemma fst_map_of: "map_of xs k = Some v \<Longrightarrow> k \<in> fst ` set xs"
  by (force dest: map_of_SomeD)

lemma lanes_okI:
  assumes "lanes_ok st" and "entryId ` set (entries st) \<subseteq> entryId ` set (entries st')"
    and "\<And>x. x \<in> snd ` set (lanes st') \<Longrightarrow> x \<in> snd ` set (lanes st) \<or> known_leaf (entryId ` set (entries st')) x"
    and "distinct (map fst (lanes st'))" and "fst ` set (lanes st) \<subseteq> fst ` set (lanes st')"
    and "records st' = records st"
    and "distinct (map fst (labels st'))" and "fst ` set (labels st') \<subseteq> entryId ` set (entries st')"
  shows "lanes_ok st'"
proof -
  have "known_leaf (entryId ` set (entries st')) x" if "x \<in> snd ` set (lanes st')" for x
    using assms(1,2) assms(3)[OF that] unfolding lanes_ok_def by (blast intro: known_leaf_mono)
  moreover note l = assms(1)[unfolded lanes_ok_def]
  have "''main'' \<in> fst ` set (lanes st')"
    using l by (intro subsetD[OF assms(5)]) simp
  moreover have "recordLane r \<in> fst ` set (lanes st')" if "r \<in> set (records st')" for r
    using l that assms(6) by (intro subsetD[OF assms(5)]) simp
  ultimately show ?thesis
    unfolding lanes_ok_def using assms(4,7,8) by (intro conjI ballI)
qed

lemma lanes_ok_grow:
  assumes "lanes_ok st" and "entryId ` set (entries st) \<subseteq> entryId ` set (entries st')"
    and "lanes st' = lanes st" "records st' = records st" "labels st' = labels st"
  shows "lanes_ok st'"
  using assms(1,2)
proof (rule lanes_okI)
  show "fst ` set (labels st') \<subseteq> entryId ` set (entries st')"
    unfolding assms(5) by (rule subset_trans[OF _ assms(2)]) (use assms(1) in \<open>simp add: lanes_ok_def\<close>)
qed (use assms(1,3-5) in \<open>simp_all add: lanes_ok_def\<close>)

lemma lanes_ok_update:
  assumes "lanes_ok st" and "entryId ` set (entries st) \<subseteq> entryId ` set (entries st')"
    and "known_leaf (entryId ` set (entries st')) leaf"
    and "lanes st' = AList.update l leaf (lanes st)" "records st' = records st" "labels st' = labels st"
  shows "lanes_ok st'"
  using assms(1,2)
proof (rule lanes_okI)
  show "fst ` set (labels st') \<subseteq> entryId ` set (entries st')"
    unfolding assms(6) by (rule subset_trans[OF _ assms(2)]) (use assms(1) in \<open>simp add: lanes_ok_def\<close>)
  show "x \<in> snd ` set (lanes st') \<Longrightarrow> x \<in> snd ` set (lanes st) \<or> known_leaf (entryId ` set (entries st')) x" for x
    unfolding assms(4) using snd_update[of l leaf "lanes st"] assms(3) by blast
  show "fst ` set (lanes st) \<subseteq> fst ` set (lanes st')"
    unfolding assms(4) fst_update by blast
qed (use assms(1,4-6) in \<open>simp_all add: lanes_ok_def distinct_update\<close>)

lemma log_entries_snoc [simp]:
  "log_entries (l @ [i]) = log_entries l @ (case i of EntryItem n e \<Rightarrow> [e] | _ \<Rightarrow> [])"
  by (simp add: log_entries_def map_filter_def split: log_item.splits)

lemma log_records_snoc [simp]:
  "log_records (l @ [i]) = log_records l @ (case i of RecordItem n r \<Rightarrow> [r] | _ \<Rightarrow> [])"
  by (simp add: log_records_def map_filter_def split: log_item.splits)

lemma chained_append:
  "chained known (es @ fs) \<longleftrightarrow> chained known es \<and> chained (known \<union> entryId ` set es) fs"
  by (induction known es rule: chained.induct) auto

lemma unfinished_snoc:
  "unfinished lane (rs @ [r]) = filter (\<lambda>s. \<not> finishes lane (recordId s) r) (unfinished lane rs) @
     (if starts_in lane r then [r] else [])"
  by (induction rs) (auto simp: list_ex_iff)

lemma stats_of_entry: "count_message e (stats_of es rs) = stats_of (es @ [e]) rs"
  by (simp add: count_message_def stats_of_def Let_def)

lemma stats_of_record: "add_usage r (stats_of es rs) = stats_of es (rs @ [r])"
  by (cases "recordBody r") (simp_all add: add_usage_def stats_of_def Let_def map_filter_def)

lemma open_operations_update:
  "open_operations (st\<lparr>openOperationsByLane := AList.update l m (openOperationsByLane st)\<rparr>) lane =
   (if lane = l then m else open_operations st lane)"
  by (simp add: open_operations_def update_conv')

lemma delete_pairs: "AList.delete k (map (\<lambda>r. (f r, r)) rs) = map (\<lambda>r. (f r, r)) (filter (\<lambda>r. f r \<noteq> k) rs)"
  by (induction rs) auto

lemma unfinished_subset: "set (unfinished lane rs) \<subseteq> set rs"
  by (induction rs) auto

lemma open_operations_track:
  assumes "ops_ok st" and "recordId r \<notin> recordId ` set (records st)"
  shows "open_operations (track_operation r st) lane =
    map (\<lambda>r. (recordId r, r)) (unfinished lane (records st @ [r]))"
proof (cases "recordBody r")
  case (OperationStarted leaf intent)
  have nf: "\<not> finishes lane i r" for i
    by (simp add: finishes_def OperationStarted)
  have "recordId r \<notin> recordId ` set (unfinished lane (records st))"
    using assms(2) unfinished_subset by blast
  with assms(1) OperationStarted show ?thesis
    by (auto simp: track_operation_def open_operations_update unfinished_snoc nf starts_in_def ops_ok_def update_fresh image_image)
next
  case (OperationFinished runId outcome err)
  have ns: "\<not> starts_in lane r"
    by (simp add: starts_in_def OperationFinished)
  have fin: "finishes lane i r \<longleftrightarrow> recordLane r = lane \<and> runId = i" for i
    by (simp add: finishes_def OperationFinished)
  have ops: "open_operations st lane = map (\<lambda>r. (recordId r, r)) (unfinished lane (records st))"
    using assms(1) by (simp add: ops_ok_def)
  show ?thesis
  proof (cases "map_of (openOperationsByLane st) (recordLane r)")
    case None
    have "unfinished lane (records st) = [] \<or> lane \<noteq> recordLane r"
      using None ops by (auto simp: open_operations_def)
    with None ops OperationFinished show ?thesis
      by (auto simp: track_operation_def unfinished_snoc ns fin)
  next
    case (Some m)
    then have "lane = recordLane r \<Longrightarrow> m = map (\<lambda>r. (recordId r, r)) (unfinished lane (records st))"
      using ops by (simp add: open_operations_def)
    with Some ops OperationFinished show ?thesis
      by (auto simp: track_operation_def open_operations_update unfinished_snoc ns fin delete_pairs eq_commute[of runId])
  qed
qed (use assms(1) in \<open>simp_all add: track_operation_def unfinished_snoc ops_ok_def starts_in_def finishes_def\<close>)

lemma track_operation_fields [simp]:
  "sequence (track_operation r st) = sequence st" "usedIds (track_operation r st) = usedIds st"
  "entries (track_operation r st) = entries st" "entriesById (track_operation r st) = entriesById st"
  "records (track_operation r st) = records st" "lanes (track_operation r st) = lanes st"
  "log (track_operation r st) = log st" "stats (track_operation r st) = stats st"
  "name (track_operation r st) = name st" "labels (track_operation r st) = labels st"
  by (simp_all add: track_operation_def split: record_body.splits option.splits)

lemma inv_new: "session_inv newSessionState"
  by (simp add: session_inv_def newSessionState_def log_ok_def ids_ok_def tree_ok_def lanes_ok_def ops_ok_def
      stats_of_def open_operations_def log_entries_def log_records_def map_filter_def)

subsection \<open>Every mutation preserves it\<close>

lemma upt_snoc: "1 \<le> n \<Longrightarrow> [1..<Suc n] = [1..<n] @ [n]"
  by simp

lemma inv_apply_entry:
  assumes inv: "session_inv st" and seq: "entrySeq e = sequence st + 1"
    and chk: "check_entry st lane e invalid = Inr ()"
  shows "session_inv (apply_entry st lane e)"
proof -
  note i = inv[unfolded session_inv_def]
  have fresh: "entryId e \<notin> entryId ` set (entries st)" "entryId e \<notin> recordId ` set (records st)"
    using chk i by (auto simp: check_entry_def ids_ok_def result_simps)
  have parent: "known_leaf (entryId ` set (entries st)) (entryParent e)"
    using chk i by (auto simp: check_entry_def has_entry_iff result_simps split: option.splits)
  have lane: "l \<in> fst ` set (lanes st)" if "lane = Some l" for l
    using chk that by (auto simp: check_entry_def result_simps dest: fst_map_of split: option.splits)
  have "log_ok (apply_entry st lane e)"
    using i seq by (simp add: log_ok_def apply_entry_def item_ok_def)
  moreover have "ids_ok (apply_entry st lane e)"
    using i fresh by (auto simp: ids_ok_def apply_entry_def update_fresh image_image)
  moreover have "tree_ok (apply_entry st lane e)"
    using i seq parent by (auto simp: tree_ok_def apply_entry_def chained_append sorted_wrt_append split: option.splits)
  moreover have "lanes_ok (apply_entry st lane e)"
  proof (cases lane)
    case None
    have "lanes_ok st" using i by simp
    then show ?thesis
      by (rule lanes_ok_grow) (auto simp: apply_entry_def None)
  next
    case (Some l)
    have "lanes_ok st" using i by simp
    then show ?thesis
      by (rule lanes_ok_update[where l = l and leaf = "Some (entryId e)"]) (auto simp: apply_entry_def Some)
  qed
  moreover have "ops_ok (apply_entry st lane e)"
    using i by (simp add: ops_ok_def apply_entry_def open_operations_def)
  moreover have "stats (apply_entry st lane e) = stats_of (entries st @ [e]) (records st)"
    using i by (simp add: apply_entry_def stats_of_entry)
  ultimately show ?thesis
    by (simp add: session_inv_def apply_entry_def)
qed

lemma inv_apply_record:
  assumes inv: "session_inv st" and seq: "recordSeq r = sequence st + 1"
    and chk: "check_record st r invalid = Inr ()"
  shows "session_inv (apply_record st r)"
proof -
  note i = inv[unfolded session_inv_def]
  have fresh: "recordId r \<notin> entryId ` set (entries st)" "recordId r \<notin> recordId ` set (records st)"
    and lane: "recordLane r \<in> fst ` set (lanes st)"
    using chk i by (auto simp: check_record_def ids_ok_def result_simps map_of_eq_None_iff)
  have "log_ok (apply_record st r)"
    using i seq by (simp add: log_ok_def apply_record_def item_ok_def)
  moreover have "ids_ok (apply_record st r)"
    using i fresh by (auto simp: ids_ok_def apply_record_def)
  moreover have "tree_ok (apply_record st r)"
    using i seq by (auto simp: tree_ok_def apply_record_def)
  moreover have "lanes_ok (apply_record st r)"
    using i lane by (auto simp: lanes_ok_def apply_record_def)
  moreover have "ops_ok (apply_record st r)"
    using open_operations_track[of st r] i fresh(2)
    by (simp add: ops_ok_def apply_record_def open_operations_def)
  moreover have "stats (apply_record st r) = stats_of (entries st) (records st @ [r])"
    using i by (simp add: apply_record_def stats_of_record)
  ultimately show ?thesis
    by (simp add: session_inv_def apply_record_def)
qed

lemma inv_lane:
  assumes inv: "session_inv st" and leaf: "case leafId of None \<Rightarrow> True | Some i \<Rightarrow> has_entry st i"
  shows "session_inv (st\<lparr>sequence := Suc (sequence st), lanes := AList.update lane leafId (lanes st),
                 log := log st @ [LaneItem (Suc (sequence st)) lane leafId]\<rparr>)" (is "session_inv ?st")
proof -
  note i = inv[unfolded session_inv_def]
  have "log_ok ?st"
    using i by (simp add: log_ok_def item_ok_def)
  moreover have "ids_ok ?st" "ops_ok ?st"
    using i by (simp_all add: ids_ok_def ops_ok_def open_operations_def)
  moreover have "tree_ok ?st"
    using i by (auto simp: tree_ok_def)
  moreover have "lanes_ok ?st"
  proof -
    have "known_leaf (entryId ` set (entries st)) leafId"
      using leaf i by (cases leafId) (auto simp: has_entry_iff)
    with i show ?thesis
      by (simp add: lanes_ok_update[of st _ leafId lane])
  qed
  ultimately show ?thesis
    using i by (simp add: session_inv_def)
qed

lemma inv_name:
  assumes inv: "session_inv st"
  shows "session_inv (st\<lparr>sequence := Suc (sequence st), name := n,
    log := log st @ [NameItem (Suc (sequence st)) n]\<rparr>)" (is "session_inv ?st")
proof -
  note i = inv[unfolded session_inv_def]
  have "log_ok ?st"
    using i by (simp add: log_ok_def item_ok_def)
  moreover have "ids_ok ?st" "ops_ok ?st" "lanes_ok ?st"
    using i by (simp_all add: ids_ok_def ops_ok_def open_operations_def lanes_ok_def)
  moreover have "tree_ok ?st"
    using i by (auto simp: tree_ok_def)
  ultimately show ?thesis
    using i by (simp add: session_inv_def)
qed

lemma inv_label:
  assumes inv: "session_inv st" and target: "has_entry st i"
  shows "session_inv (st\<lparr>sequence := Suc (sequence st),
      labels := (case label of None \<Rightarrow> AList.delete i (labels st) | Some l \<Rightarrow> AList.update i l (labels st)),
      log := log st @ [LabelItem (Suc (sequence st)) i label]\<rparr>)" (is "session_inv ?st")
proof -
  note i = inv[unfolded session_inv_def]
  have "log_ok ?st"
    using i by (simp add: log_ok_def item_ok_def)
  moreover have "ids_ok ?st" "ops_ok ?st"
    using i by (simp_all add: ids_ok_def ops_ok_def open_operations_def)
  moreover have "tree_ok ?st"
    using i by (auto simp: tree_ok_def)
  moreover have "lanes_ok ?st"
  proof (rule lanes_okI[of st])
    have l: "fst ` set (labels st) \<subseteq> entryId ` set (entries st)" "i \<in> entryId ` set (entries st)"
      using i target by (simp_all add: lanes_ok_def has_entry_iff)
    then show "fst ` set (labels ?st) \<subseteq> entryId ` set (entries ?st)"
      using subset_trans[OF fst_delete[of i "labels st"] l(1)] by (cases label) (simp_all add: fst_update)
    show "distinct (map fst (labels ?st))"
      using i by (cases label) (simp_all add: lanes_ok_def distinct_fst_delete distinct_update)
  qed (use i in \<open>simp_all add: lanes_ok_def\<close>)
  ultimately show ?thesis
    using i by (simp add: session_inv_def)
qed

lemma inv_applyMutation:
  assumes "session_inv st" and "applyMutation st m invalid = Inr st'"
  shows "session_inv st'"
proof (cases m)
  case (EntryMutation lane e)
  with assms show ?thesis
    using inv_apply_entry[of st e lane invalid] by (auto simp: applyMutation_def result_simps)
next
  case (RecordMutation r)
  with assms show ?thesis
    using inv_apply_record[of st r invalid] by (auto simp: applyMutation_def result_simps)
next
  case (LaneMutation seq lane leafId)
  with assms show ?thesis
    using inv_lane[of st leafId lane] by (auto simp: applyMutation_def result_simps split: option.splits)
next
  case (NameMutation seq n)
  with assms show ?thesis
    using inv_name[of st n] by (auto simp: applyMutation_def result_simps)
next
  case (LabelMutation seq i label)
  with assms show ?thesis
    using inv_label[of st i label] by (auto simp: applyMutation_def result_simps)
qed

lemma inv_applyMutations: "session_inv st \<Longrightarrow> applyMutations st ms = Inr st' \<Longrightarrow> session_inv st'"
  by (induction ms arbitrary: st) (auto simp: result_simps dest: inv_applyMutation)

subsection \<open>A sample session\<close>

definition sample_entry :: "string \<Rightarrow> string \<Rightarrow> nat \<Rightarrow> string option \<Rightarrow> entry" where
  "sample_entry i text seq parent =
     provision \<lparr>entryId = i, entryBody = MessageEntry (UserMessage (PlainContent text) 0) False\<rparr> seq parent 0"

definition sample_start :: lane_record where
  "sample_start = record_of_new \<lparr>recordId = ''op'', recordLane = ''main'',
     recordBody = OperationStarted (Some ''b'') (RunIntent [] [] None JUndefined)\<rparr> 5 0"

definition sample_mutations :: "session_mutation list" where
  "sample_mutations =
     [EntryMutation (Some ''main'') (sample_entry ''a'' ''hi'' 1 None),
      EntryMutation (Some ''main'') (sample_entry ''b'' ''go'' 2 (Some ''a'')),
      LabelMutation 3 ''a'' (Some ''start''),
      LaneMutation 4 ''side'' (Some ''a''),
      RecordMutation sample_start,
      EntryMutation (Some ''side'') (sample_entry ''c'' ''other'' 6 (Some ''a''))]"

definition sample_session :: session_state where
  "sample_session =
     \<lparr>sequence = 6, usedIds = {''a'', ''b'', ''c'', ''op''},
      entries = [sample_entry ''a'' ''hi'' 1 None, sample_entry ''b'' ''go'' 2 (Some ''a''),
                 sample_entry ''c'' ''other'' 6 (Some ''a'')],
      entriesById = [(''a'', sample_entry ''a'' ''hi'' 1 None), (''b'', sample_entry ''b'' ''go'' 2 (Some ''a'')),
                 (''c'', sample_entry ''c'' ''other'' 6 (Some ''a''))],
      records = [sample_start], openOperationsByLane = [(''main'', [(''op'', sample_start)])],
      lanes = [(''main'', Some ''b''), (''side'', Some ''c'')],
      log = [EntryItem 1 (sample_entry ''a'' ''hi'' 1 None), EntryItem 2 (sample_entry ''b'' ''go'' 2 (Some ''a'')),
             LabelItem 3 ''a'' (Some ''start''), LaneItem 4 ''side'' (Some ''a''), RecordItem 5 sample_start,
             EntryItem 6 (sample_entry ''c'' ''other'' 6 (Some ''a''))],
      stats = \<lparr>messageCount = 3, cachedTokens = 0, uncachedTokens = 0, totalTokens = 0, costTotal = 0\<rparr>,
      name = None, labels = [(''a'', ''start'')]\<rparr>"

lemma sample_entry_simps [simp]:
  "entryId (sample_entry i t seq parent) = i" "entrySeq (sample_entry i t seq parent) = seq"
  "entryParent (sample_entry i t seq parent) = parent" "entry_type (sample_entry i t seq parent) = MessageType"
  by (simp_all add: sample_entry_def entry_type_def)

lemma sample_replay: "applyMutations newSessionState sample_mutations = Inr sample_session"
  by (simp add: sample_mutations_def sample_start_def sample_session_def newSessionState_def applyMutation_def
      check_entry_def apply_entry_def check_record_def apply_record_def track_operation_def has_entry_def
      open_operations_def count_message_def add_usage_def insert_commute)

subsection \<open>Property\<close>

text \<open>C1: Whatever mutations are applied to a new session, in whatever order, the state that results
  is well formed: the sequence numbers of the log are 1, 2, ... without gap, no id is used twice by
  entries or records, every parent is an earlier entry, every lane and label points to an entry, the
  open operations of a lane are those started and not finished, and the statistics are those of the
  entries and records.\<close>

theorem session_state_invariant:
  assumes "applyMutations newSessionState ms = Inr st"
  shows "session_inv st"
  using inv_applyMutations[OF inv_new assms] .

theorem session_state_invariant_witness:
  "applyMutations newSessionState sample_mutations = Inr sample_session \<and> session_inv sample_session"
  using session_state_invariant[OF sample_replay] sample_replay by blast

end
