(* ===== verification/SessionTree.thy ===== *)
theory SessionTree
  imports SessionInvariant
begin

section \<open>Session trees: branches and forks\<close>

text \<open>
  In a well-formed session the walk from an entry to the root returns the entry's one branch, never
  reports a cycle or a missing parent, and a query on it is a filter of the branch; replaying the
  mutations of a fork on a new session copies the selected entries with their structure.
\<close>

subsection \<open>Branches\<close>

text \<open>A path from an entry to a root of the tree, newest first.\<close>

fun is_branch :: "entry list \<Rightarrow> entry list \<Rightarrow> bool" where
  "is_branch es [] = False"
| "is_branch es [e] = (e \<in> set es \<and> entryParent e = None)"
| "is_branch es (e # f # fs) = (e \<in> set es \<and> entryParent e = Some (entryId f) \<and> is_branch es (f # fs))"

text \<open>The elements up to the first one that satisfies a bound, inclusive.\<close>

fun until :: "('a \<Rightarrow> bool) \<Rightarrow> 'a list \<Rightarrow> 'a list" where
  "until p [] = []"
| "until p (x # xs) = (if p x then [x] else x # until p xs)"

lemma upto_False [simp]: "until (\<lambda>x. False) xs = xs"
  by (induction xs) auto

definition take_limit :: "js_number option \<Rightarrow> 'a list \<Rightarrow> 'a list" where
  "take_limit limit xs = (case limit of None \<Rightarrow> xs | Some n \<Rightarrow> take (nat (integer_value n)) xs)"

definition forest :: "entry list \<Rightarrow> bool" where
  "forest es \<longleftrightarrow> distinct (map entryId es) \<and>
     (\<forall>e \<in> set es. \<forall>p. entryParent e = Some p \<longrightarrow> (\<exists>e' \<in> set es. entryId e' = p \<and> entrySeq e' < entrySeq e))"

lemma find_entry:
  "distinct (map entryId es) \<Longrightarrow> e \<in> set es \<Longrightarrow> find (\<lambda>e'. entryId e' = entryId e) es = Some e"
  by (induction es) (auto simp: image_iff)

lemma same_entry: "distinct (map entryId es) \<Longrightarrow> e \<in> set es \<Longrightarrow> e' \<in> set es \<Longrightarrow> entryId e = entryId e' \<Longrightarrow> e = e'"
  by (auto simp: distinct_map dest: inj_onD)

lemma forest_chained:
  assumes "chained known es" and "sorted_wrt (<) (map entrySeq es)" and "e \<in> set es" and "entryParent e = Some p"
  shows "p \<in> known \<or> (\<exists>e' \<in> set es. entryId e' = p \<and> entrySeq e' < entrySeq e)"
  using assms
proof (induction known es rule: chained.induct)
  case (2 known x es)
  then show ?case by (cases "e = x") fastforce+
qed simp

lemma inv_forest: "session_inv st \<Longrightarrow> forest (entries st)"
  using forest_chained[of "{}" "entries st"]
  by (auto simp: session_inv_def ids_ok_def tree_ok_def forest_def)

lemma inv_byId: "session_inv st \<Longrightarrow> entriesById st = map (\<lambda>e. (entryId e, e)) (entries st)"
  by (simp add: session_inv_def ids_ok_def)

text \<open>The branch of an entry, by its sequence number.\<close>

lemma branch_exists:
  assumes "forest es" and "e \<in> set es"
  shows "\<exists>path. is_branch es (e # path) \<and> sorted_wrt (>) (map entrySeq (e # path))"
  using assms(2)
proof (induction "entrySeq e" arbitrary: e rule: less_induct)
  case less
  show ?case
  proof (cases "entryParent e")
    case None
    with less.prems show ?thesis by (intro exI[of _ "[]"]) simp
  next
    case (Some p)
    with assms(1) less.prems obtain f where f: "f \<in> set es" "entryId f = p" "entrySeq f < entrySeq e"
      by (auto simp: forest_def)
    with less.hyps[OF f(3) f(1)] obtain path where "is_branch es (f # path)" "sorted_wrt (>) (map entrySeq (f # path))"
      by blast
    with f Some less.prems show ?thesis
      by (intro exI[of _ "f # path"]) auto
  qed
qed

lemma branch_unique:
  assumes "distinct (map entryId es)"
  shows "is_branch es (e # p) \<Longrightarrow> is_branch es (e # q) \<Longrightarrow> p = q"
proof (induction p arbitrary: e q)
  case Nil
  then show ?case by (cases q) auto
next
  case (Cons f p)
  then obtain g q' where q: "q = g # q'" by (cases q) auto
  with Cons.prems have "entryId f = entryId g" "is_branch es (f # p)" "is_branch es (g # q')" "f \<in> set es" "g \<in> set es"
    by (cases p; cases q'; auto)+
  with Cons.IH[of f q'] same_entry[OF assms, of f g] q show ?case by auto
qed

lemma branch_subset: "is_branch es path \<Longrightarrow> set path \<subseteq> set es"
  by (induction es path rule: is_branch.induct) auto

text \<open>The walk returns the branch up to the bound.\<close>

lemma walk_branch:
  assumes "distinct (map entryId es)" and "is_branch es (e # path)" and "sorted_wrt (>) (map entrySeq (e # path))"
    and "\<forall>f \<in> set es. entryId f \<in> visited \<longrightarrow> entrySeq e < entrySeq f"
  shows "walk (map (\<lambda>e. (entryId e, e)) es) bounds visited missing (entryId e) =
    (until (at_bound bounds) (e # path), None)"
  using assms(2-4)
proof (induction path arbitrary: e visited missing)
  case Nil
  then have "entryId e \<notin> visited" by auto
  with Nil find_entry[OF assms(1), of e] show ?case
    by (subst walk.simps) simp
next
  case (Cons f path)
  then have e: "e \<in> set es" "entryParent e = Some (entryId f)" "entryId e \<notin> visited" "is_branch es (f # path)"
    by auto
  have "\<forall>g \<in> set es. entryId g \<in> insert (entryId e) visited \<longrightarrow> entrySeq f < entrySeq g"
  proof (intro ballI impI)
    fix g
    assume g: "g \<in> set es" "entryId g \<in> insert (entryId e) visited"
    show "entrySeq f < entrySeq g"
    proof (cases "entryId g = entryId e")
      case True
      with same_entry[OF assms(1) g(1) e(1)] Cons.prems(2) show ?thesis by simp
    next
      case False
      with g Cons.prems(2,3) have "entrySeq e < entrySeq g" "entrySeq f < entrySeq e" by auto
      then show ?thesis by simp
    qed
  qed
  with Cons.IH[OF e(4)] Cons.prems(2) have
    "walk (map (\<lambda>e. (entryId e, e)) es) bounds (insert (entryId e) visited) InvalidEntry (entryId f) =
      (until (at_bound bounds) (f # path), None)"
    by simp
  with e find_entry[OF assms(1) e(1)] show ?case
    by (subst walk.simps) (simp del: until.simps add: until.simps(2)[of _ e])
qed

lemma walkToRoot_branch:
  assumes "session_inv st" and "is_branch (entries st) (e # path)"
  shows "walkToRoot st (entryId e) bounds = (until (at_bound bounds) (e # path), None)"
proof -
  have d: "distinct (map entryId (entries st))" and e: "e \<in> set (entries st)"
    using inv_forest[OF assms(1)] branch_subset[OF assms(2)] by (auto simp: forest_def)
  obtain path' where p: "is_branch (entries st) (e # path')" "sorted_wrt (>) (map entrySeq (e # path'))"
    using branch_exists[OF inv_forest[OF assms(1)] e] by blast
  with branch_unique[OF d assms(2)] have "path' = path" by blast
  with walk_branch[OF d p] show ?thesis
    by (simp add: walkToRoot_def inv_byId[OF assms(1)])
qed

subsection \<open>Queries\<close>

definition valid_limit :: "js_number option \<Rightarrow> bool" where
  "valid_limit limit \<longleftrightarrow> assertValidLimit limit = Inr ()"

definition valid_cursor :: "js_number option \<Rightarrow> bool" where
  "valid_cursor c \<longleftrightarrow> assertValidCursor c = Inr ()"

lemma valid_limit_simps [simp]:
  "valid_limit None" "valid_limit (Some n) \<longleftrightarrow> is_integer n \<and> 0 < integer_value n"
  by (auto simp: valid_limit_def assertValidLimit_def)

lemma take_one: "1 + int n = v \<Longrightarrow> take (nat v - n) (x # xs) = [x]"
proof -
  assume "1 + int n = v"
  then have "nat v - n = Suc 0" by linarith
  then show ?thesis by simp
qed

lemma collect_take:
  assumes "valid_limit limit" and "case limit of None \<Rightarrow> True | Some n \<Rightarrow> int (length acc) < integer_value n"
  shows "collect p limit acc xs = take_limit limit (acc @ filter p xs)"
  using assms
proof (induction p limit acc xs rule: collect.induct)
  case (1 p limit acc)
  then show ?case by (auto simp: take_limit_def split: option.splits)
next
  case (2 p limit acc x xs)
  show ?case
  proof (cases "p x \<and> reached_limit limit (acc @ [x])")
    case True
    then show ?thesis by (auto simp: reached_limit_def take_limit_def take_one split: option.splits)
  next
    case False
    with 2 show ?thesis
      by (cases limit) (auto simp: reached_limit_def)
  qed
qed

lemma collect_eq: "valid_limit limit \<Longrightarrow> collect p limit [] xs = take_limit limit (filter p xs)"
  by (cases limit) (simp_all add: collect_take)

lemma collect_branch_take:
  assumes "valid_limit limit" and "case limit of None \<Rightarrow> True | Some n \<Rightarrow> int (length acc) < integer_value n"
  shows "fst (collect_branch p bound limit acc xs) = take_limit limit (acc @ filter p (until bound xs))"
  using assms
proof (induction p bound limit acc xs rule: collect_branch.induct)
  case (1 p bound limit acc)
  then show ?case by (auto simp: take_limit_def split: option.splits)
next
  case (2 p bound limit acc x xs)
  let ?acc = "if p x then acc @ [x] else acc"
  show ?case
  proof (cases "bound x \<or> reached_limit limit ?acc")
    case True
    with 2(3) show ?thesis by (auto simp: reached_limit_def take_limit_def take_one split: option.splits if_splits)
  next
    case False
    then have "case limit of None \<Rightarrow> True | Some n \<Rightarrow> int (length ?acc) < integer_value n"
      using 2(2,3) by (cases limit) (auto simp: reached_limit_def)
    with 2(1)[of ?acc] 2(2) False show ?thesis by (auto simp: Let_def)
  qed
qed

lemma collect_branch_eq:
  "valid_limit limit \<Longrightarrow> fst (collect_branch p bound limit [] xs) = take_limit limit (filter p (until bound xs))"
  by (cases limit) (simp_all add: collect_branch_take)

lemma findEntries_eq:
  "valid_limit (queryLimit q) \<Longrightarrow> valid_cursor (queryCursor q) \<Longrightarrow>
   findEntries st q = Inr (take_limit (queryLimit q)
     (filter (\<lambda>e. matchesEntryQuery e q) (ordered (entries st) (queryOrder q))))"
  by (simp add: findEntries_def collect_eq valid_limit_def[symmetric])
     (simp add: valid_limit_def valid_cursor_def)

lemma findEntriesOnBranch_eq:
  assumes "session_inv st" and "is_branch (entries st) (e # path)"
    and "valid_limit (queryLimit q)" and "valid_cursor (queryCursor q)"
  shows "findEntriesOnBranch st q bounds (entryId e) = Inr (take_limit (queryLimit q)
    (filter (\<lambda>e. matchesEntryQuery e q)
      (until (at_bound (Some bounds)) (if queryOrder q = Some OldestFirst then rev (e # path) else e # path))))"
proof -
  have "at_bound None = (\<lambda>e. False)"
    by (simp add: at_bound_def fun_eq_iff)
  then have "walkToRoot st (entryId e) None = (e # path, None)"
    and "walkToRoot st (entryId e) (Some bounds) = (until (at_bound (Some bounds)) (e # path), None)"
    using walkToRoot_branch[OF assms(1,2)] by (simp_all del: until.simps)
  with assms(3,4) collect_branch_eq[OF assms(3)] show ?thesis
    unfolding valid_limit_def valid_cursor_def findEntriesOnBranch_def
    by (auto split: prod.split simp del: until.simps) (metis fst_conv upto_False)+
qed

subsection \<open>Forks\<close>

lemma branch_chained: "is_branch es path \<Longrightarrow> chained {} (rev path)"
proof (induction es path rule: is_branch.induct)
  case (3 es e f fs)
  then have "chained {} (rev (f # fs))" by simp
  moreover have "known_leaf (entryId ` set (rev (f # fs))) (entryParent e)"
    using 3 by simp
  ultimately show ?case
    using chained_append[of "{}" "rev (f # fs)" "[e]"] by simp
qed simp_all

text \<open>What the mutations of a fork need of the entries they copy.\<close>

definition copyable :: "entry list \<Rightarrow> bool" where
  "copyable es \<longleftrightarrow> chained {} es \<and> distinct (map entryId es)"

definition renumbered :: "nat \<Rightarrow> entry list \<Rightarrow> entry list" where
  "renumbered n es = map (\<lambda>(seq, e). e\<lparr>entrySeq := seq\<rparr>) (enumerate n es)"

lemma renumbered_simps [simp]:
  "renumbered n [] = []" "renumbered n (e # es) = e\<lparr>entrySeq := n\<rparr> # renumbered (Suc n) es"
  by (simp_all add: renumbered_def)

lemma renumbered_fields:
  "map entryId (renumbered n es) = map entryId es" "map entryBody (renumbered n es) = map entryBody es"
  "map entryParent (renumbered n es) = map entryParent es" "map entryTimestamp (renumbered n es) = map entryTimestamp es"
  by (induction es arbitrary: n) simp_all

lemma renumbered_ids: "entryId ` set (renumbered n es) = entryId ` set es"
  using renumbered_fields(1)[of n es] by (metis list.set_map)

lemma apply_entry_mutations:
  assumes "session_inv st" and "n = sequence st + 1" and "chained (entryId ` set (entries st)) es"
    and "distinct (map entryId es)" and "entryId ` set es \<inter> usedIds st = {}"
  shows "\<exists>st'. applyMutations st (entry_mutations n es) = Inr st' \<and> session_inv st' \<and>
    sequence st' = sequence st + length es \<and> entries st' = entries st @ renumbered n es \<and>
    records st' = records st \<and> lanes st' = lanes st \<and> name st' = name st \<and> labels st' = labels st"
  using assms
proof (induction es arbitrary: st n)
  case Nil
  then show ?case by (simp add: entry_mutations_def)
next
  case (Cons e es)
  let ?e = "e\<lparr>entrySeq := n\<rparr>"
  let ?st = "apply_entry st None ?e"
  have ids: "ids_ok st" using Cons.prems(1) by (simp add: session_inv_def)
  have "check_entry st None ?e invalidMutation = Inr ()"
    using Cons.prems(3,5) by (auto simp: check_entry_def has_entry_iff[OF ids] result_simps split: option.splits)
  then have step: "applyMutation st (EntryMutation None ?e) invalidMutation = Inr ?st"
    using Cons.prems(2) by (simp add: applyMutation_def)
  have inv: "session_inv ?st"
    by (rule inv_applyMutation[OF Cons.prems(1) step])
  have "\<exists>st'. applyMutations ?st (entry_mutations (Suc n) es) = Inr st' \<and> session_inv st' \<and>
    sequence st' = sequence ?st + length es \<and> entries st' = entries ?st @ renumbered (Suc n) es \<and>
    records st' = records ?st \<and> lanes st' = lanes ?st \<and> name st' = name ?st \<and> labels st' = labels ?st"
    using Cons.prems by (intro Cons.IH[OF inv]) (auto simp: apply_entry_def)
  then obtain st' where st': "applyMutations ?st (entry_mutations (Suc n) es) = Inr st'" "session_inv st'"
    "sequence st' = sequence ?st + length es" "entries st' = entries ?st @ renumbered (Suc n) es"
    "records st' = records ?st" "lanes st' = lanes ?st" "name st' = name ?st" "labels st' = labels ?st"
    by blast
  moreover have "entry_mutations n (e # es) = EntryMutation None ?e # entry_mutations (Suc n) es"
    by (simp add: entry_mutations_def)
  ultimately show ?case
    using step Cons.prems(2) by (intro exI[of _ st']) (simp add: apply_entry_def)
qed

lemma apply_lane_mutations:
  assumes "session_inv st" and "n = sequence st + 1"
    and "\<forall>leaf \<in> snd ` set ls. known_leaf (entryId ` set (entries st)) leaf"
  shows "\<exists>st'. applyMutations st (lane_mutations n ls) = Inr st' \<and> session_inv st' \<and>
    sequence st' = sequence st + length ls \<and> entries st' = entries st \<and> records st' = records st \<and>
    lanes st' = fold (\<lambda>(l, leaf). AList.update l leaf) ls (lanes st) \<and> name st' = name st \<and> labels st' = labels st"
  using assms
proof (induction ls arbitrary: st n)
  case Nil
  then show ?case by (simp add: lane_mutations_def)
next
  case (Cons x ls)
  obtain l leaf where x: "x = (l, leaf)" by (cases x)
  let ?st = "st\<lparr>sequence := n, lanes := AList.update l leaf (lanes st), log := log st @ [LaneItem n l leaf]\<rparr>"
  have ids: "ids_ok st" using Cons.prems(1) by (simp add: session_inv_def)
  have step: "applyMutation st (LaneMutation n l leaf) invalidMutation = Inr ?st"
    using Cons.prems(2,3) x by (auto simp: applyMutation_def has_entry_iff[OF ids] split: option.splits)
  have inv: "session_inv ?st"
    by (rule inv_applyMutation[OF Cons.prems(1) step])
  have "\<exists>st'. applyMutations ?st (lane_mutations (Suc n) ls) = Inr st' \<and> session_inv st' \<and>
    sequence st' = sequence ?st + length ls \<and> entries st' = entries ?st \<and> records st' = records ?st \<and>
    lanes st' = fold (\<lambda>(l, leaf). AList.update l leaf) ls (lanes ?st) \<and> name st' = name ?st \<and> labels st' = labels ?st"
    using Cons.prems by (intro Cons.IH[OF inv]) auto
  then obtain st' where "applyMutations ?st (lane_mutations (Suc n) ls) = Inr st'" "session_inv st'"
    "sequence st' = sequence ?st + length ls" "entries st' = entries ?st" "records st' = records ?st"
    "lanes st' = fold (\<lambda>(l, leaf). AList.update l leaf) ls (lanes ?st)" "name st' = name ?st" "labels st' = labels ?st"
    by blast
  moreover have "lane_mutations n (x # ls) = LaneMutation n l leaf # lane_mutations (Suc n) ls"
    by (simp add: lane_mutations_def x)
  ultimately show ?case
    using step x Cons.prems(2) by (intro exI[of _ st']) simp
qed

lemma apply_name_mutations:
  assumes "session_inv st" and "n = sequence st + 1" and "name st = None"
  shows "\<exists>st'. applyMutations st (name_mutations n nm) = Inr st' \<and> session_inv st' \<and>
    sequence st' = sequence st + length (name_mutations n nm) \<and> entries st' = entries st \<and> records st' = records st \<and>
    lanes st' = lanes st \<and> name st' = nm \<and> labels st' = labels st"
proof (cases nm)
  case None
  with assms show ?thesis by (simp add: name_mutations_def)
next
  case (Some x)
  let ?st = "st\<lparr>sequence := n, name := Some x, log := log st @ [NameItem n (Some x)]\<rparr>"
  have step: "applyMutation st (NameMutation n (Some x)) invalidMutation = Inr ?st"
    using assms by (simp add: applyMutation_def)
  from inv_applyMutation[OF assms(1) step] step show ?thesis
    using assms by (intro exI[of _ ?st]) (simp add: Some name_mutations_def)
qed

lemma apply_label_mutations:
  assumes "session_inv st" and "n = sequence st + 1" and "entryId ` set es \<subseteq> entryId ` set (entries st)"
    and "distinct (map entryId es)"
  shows "\<exists>st'. applyMutations st (label_mutations n ls es) = Inr st' \<and> session_inv st' \<and>
    entries st' = entries st \<and> records st' = records st \<and> lanes st' = lanes st \<and> name st' = name st \<and>
    (\<forall>i. map_of (labels st') i =
      (if i \<in> entryId ` set es \<and> map_of ls i \<noteq> None then map_of ls i else map_of (labels st) i))"
  using assms
proof (induction es arbitrary: st n)
  case Nil
  then show ?case by simp
next
  case (Cons e es)
  show ?case
  proof (cases "map_of ls (entryId e)")
    case None
    with Cons.IH[OF Cons.prems(1,2)] Cons.prems(3,4) obtain st' where
      "applyMutations st (label_mutations n ls es) = Inr st'" "session_inv st'"
      "entries st' = entries st" "records st' = records st" "lanes st' = lanes st" "name st' = name st"
      "\<forall>i. map_of (labels st') i =
        (if i \<in> entryId ` set es \<and> map_of ls i \<noteq> None then map_of ls i else map_of (labels st) i)"
      by auto
    with None show ?thesis by (intro exI[of _ st']) auto
  next
    case (Some x)
    let ?st = "st\<lparr>sequence := n, labels := AList.update (entryId e) x (labels st),
      log := log st @ [LabelItem n (entryId e) (Some x)]\<rparr>"
    have ids: "ids_ok st" using Cons.prems(1) by (simp add: session_inv_def)
    have step: "applyMutation st (LabelMutation n (entryId e) (Some x)) invalidMutation = Inr ?st"
      using Cons.prems(2,3) by (auto simp: applyMutation_def has_entry_iff[OF ids])
    have inv: "session_inv ?st"
      by (rule inv_applyMutation[OF Cons.prems(1) step])
    have "\<exists>st'. applyMutations ?st (label_mutations (Suc n) ls es) = Inr st' \<and> session_inv st' \<and>
      entries st' = entries ?st \<and> records st' = records ?st \<and> lanes st' = lanes ?st \<and> name st' = name ?st \<and>
      (\<forall>i. map_of (labels st') i =
        (if i \<in> entryId ` set es \<and> map_of ls i \<noteq> None then map_of ls i else map_of (labels ?st) i))"
      using Cons.prems by (intro Cons.IH[OF inv]) auto
    then obtain st' where "applyMutations ?st (label_mutations (Suc n) ls es) = Inr st'" "session_inv st'"
      "entries st' = entries ?st" "records st' = records ?st" "lanes st' = lanes ?st" "name st' = name ?st"
      "\<forall>i. map_of (labels st') i =
        (if i \<in> entryId ` set es \<and> map_of ls i \<noteq> None then map_of ls i else map_of (labels ?st) i)"
      by blast
    with Some step Cons.prems(4) show ?thesis
      by (intro exI[of _ st']) (auto simp: update_conv')
  qed
qed

lemma applyMutations_append:
  "applyMutations st (ms @ ns) = and_then (applyMutations st ms) (\<lambda>st. applyMutations st ns)"
  by (induction ms arbitrary: st) (auto simp: and_then_assoc)

text \<open>What a fork copies.\<close>

lemma fork_target_entry:
  assumes "fork_target st i position = Inr (Some x)"
  shows "\<exists>sel e. map_of (entriesById st) sel = Some e \<and> (x = entryId e \<or> entryParent e = Some x)"
proof -
  from assms obtain sel where sel: "(case sel of None \<Rightarrow> Inr None
     | Some j \<Rightarrow> (case map_of (entriesById st) j of
            None \<Rightarrow> Inl (SessionError InvalidForkTarget (''Fork target is not a message entry: '' @ j))
          | Some e \<Rightarrow>
              if entry_type e \<noteq> MessageType
              then Inl (SessionError InvalidForkTarget (''Fork target is not a message entry: '' @ j))
              else let pos = (case position of Some p \<Rightarrow> p | None \<Rightarrow> if i = None then ForkAt else ForkBefore)
                   in Inr (if pos = ForkAt then Some (entryId e) else entryParent e))) = Inr (Some x)"
    by (auto simp: fork_target_def result_simps)
  then obtain j where "sel = Some j" by (cases sel) auto
  with sel show ?thesis
    by (cases "map_of (entriesById st) j") (auto simp: Let_def split: if_splits)
qed

lemma fork_source_copyable:
  assumes "session_inv st" and "fork_source st options = Inr (copied, forkLanes)"
  shows "copyable copied \<and> set copied \<subseteq> set (entries st) \<and>
    (\<forall>leaf \<in> snd ` set forkLanes. known_leaf (entryId ` set copied) leaf) \<and>
    ''main'' \<in> fst ` set forkLanes \<and> distinct (map fst forkLanes)"
proof (cases options)
  case ForkTree
  have "findEntries st all_entries = Inr (entries st)"
    by (subst findEntries_eq) (auto simp: all_entries_def valid_cursor_def assertValidCursor_def take_limit_def
        ordered_def matchesEntryQuery_def)
  with ForkTree assms have "copied = entries st" "forkLanes = lanes st"
    by (auto simp: fork_source_def)
  with assms(1) show ?thesis
    by (simp add: session_inv_def tree_ok_def lanes_ok_def ids_ok_def copyable_def)
next
  case (ForkBranch i position)
  with assms obtain target where t: "fork_target st i position = Inr target" "forkLanes = [(''main'', target)]"
    "(case target of None \<Rightarrow> Inr [] | Some t \<Rightarrow> findEntriesOnBranch st all_entries no_bounds t) = Inr copied"
    by (auto simp: fork_source_def result_simps)
  have forest: "forest (entries st)" by (rule inv_forest[OF assms(1)])
  show ?thesis
  proof (cases target)
    case None
    with t show ?thesis by (simp add: copyable_def)
  next
    case (Some x)
    have "x \<in> entryId ` set (entries st)"
    proof -
      from fork_target_entry[of st i position x] t(1) Some obtain sel e where
        "find (\<lambda>e. entryId e = sel) (entries st) = Some e" "x = entryId e \<or> entryParent e = Some x"
        by (auto simp: inv_byId[OF assms(1)])
      then have "e \<in> set (entries st)" "x = entryId e \<or> entryParent e = Some x"
        by (auto simp: find_Some_iff)
      with forest show ?thesis by (auto simp: forest_def)
    qed
    then obtain e where e: "e \<in> set (entries st)" "entryId e = x" by auto
    from branch_exists[OF forest e(1)] obtain path where p: "is_branch (entries st) (e # path)"
      "sorted_wrt (>) (map entrySeq (e # path))" by blast
    have "at_bound (Some no_bounds) = (\<lambda>e. False)"
      by (simp add: at_bound_def no_bounds_def fun_eq_iff)
    moreover have "valid_limit (queryLimit all_entries)" "valid_cursor (queryCursor all_entries)"
      by (simp_all add: all_entries_def valid_cursor_def assertValidCursor_def)
    ultimately have "findEntriesOnBranch st all_entries no_bounds x = Inr (rev (e # path))"
      using findEntriesOnBranch_eq[OF assms(1) p(1), of all_entries no_bounds] e(2)
      by (simp add: all_entries_def take_limit_def matchesEntryQuery_def)
    with t(3) Some have c: "copied = rev (e # path)" by simp
    have "distinct (map entrySeq (e # path))"
      using p(2) by (metis distinct_rev sorted_wrt_rev strict_sorted_iff sorted_wrt_mono_rel)
    moreover have "distinct (map entryId (entries st))"
      using forest by (simp add: forest_def)
    ultimately have "distinct (map entryId (e # path))"
      using branch_subset[OF p(1)] unfolding distinct_map by (blast intro: inj_on_subset)
    with branch_chained[OF p(1)] branch_subset[OF p(1)] c t(2) Some e show ?thesis
      by (auto simp: copyable_def rev_map[symmetric])
  qed
qed

lemma map_of_updates:
  "distinct (map fst ls) \<Longrightarrow> map_of (fold (\<lambda>(l, leaf). AList.update l leaf) ls xs) k =
    (case map_of ls k of None \<Rightarrow> map_of xs k | Some v \<Rightarrow> Some v)"
proof (induction ls arbitrary: xs)
  case (Cons x ls)
  obtain l leaf where x: "x = (l, leaf)" by (cases x)
  with Cons.prems have "map_of ls l = None" "distinct (map fst ls)"
    by (auto simp: map_of_eq_None_iff)
  with Cons.IH[of "AList.update l leaf xs"] x show ?case
    by (auto simp: update_conv' split: option.splits)
qed simp

lemma fork_replay:
  assumes inv: "session_inv st" and "createForkMutations st options = Inr ms"
    and src: "fork_source st options = Inr (copied, forkLanes)"
  shows "\<exists>st'. applyMutations newSessionState ms = Inr st' \<and> session_inv st' \<and>
    entries st' = renumbered 1 copied \<and> records st' = [] \<and> map_of (lanes st') = map_of forkLanes \<and>
    name st' = name st \<and>
    (\<forall>i. map_of (labels st') i = (if i \<in> entryId ` set copied then map_of (labels st) i else None))"
proof -
  note c = fork_source_copyable[OF inv src]
  let ?new = newSessionState
  have new: "sequence ?new = 0" "entries ?new = []" "usedIds ?new = {}" "records ?new = []"
    "lanes ?new = [(''main'', None)]" "name ?new = None" "labels ?new = []"
    by (simp_all add: newSessionState_def)
  from apply_entry_mutations[OF inv_new, of 1 copied] c new obtain st1 where st1:
    "applyMutations ?new (entry_mutations 1 copied) = Inr st1" "session_inv st1"
    "sequence st1 = length copied" "entries st1 = renumbered 1 copied" "records st1 = []"
    "lanes st1 = [(''main'', None)]" "name st1 = None" "labels st1 = []"
    by (auto simp: copyable_def)
  have "\<forall>leaf \<in> snd ` set forkLanes. known_leaf (entryId ` set (entries st1)) leaf"
    using c st1(4) by (simp add: renumbered_ids)
  from apply_lane_mutations[OF st1(2) refl this] st1 obtain st2 where st2:
    "applyMutations st1 (lane_mutations (1 + length copied) forkLanes) = Inr st2" "session_inv st2"
    "sequence st2 = length copied + length forkLanes" "entries st2 = renumbered 1 copied" "records st2 = []"
    "lanes st2 = fold (\<lambda>(l, leaf). AList.update l leaf) forkLanes [(''main'', None)]" "name st2 = None" "labels st2 = []"
    by (auto simp: add.commute)
  from apply_name_mutations[OF st2(2) refl st2(7), of "name st"] st2 obtain st3 where st3:
    "applyMutations st2 (name_mutations (1 + length copied + length forkLanes) (name st)) = Inr st3" "session_inv st3"
    "sequence st3 = length copied + length forkLanes + length (name_mutations (1 + length copied + length forkLanes) (name st))"
    "entries st3 = renumbered 1 copied" "records st3 = []" "lanes st3 = lanes st2" "name st3 = name st" "labels st3 = []"
    by (auto simp: add.commute)
  have "entryId ` set copied \<subseteq> entryId ` set (entries st3)" "distinct (map entryId copied)"
    using c st3(4) by (auto simp: copyable_def renumbered_ids)
  from apply_label_mutations[OF st3(2) refl this, of "labels st"] st3 obtain st4 where st4:
    "applyMutations st3 (label_mutations (sequence st3 + 1) (labels st) copied) = Inr st4" "session_inv st4"
    "entries st4 = renumbered 1 copied" "records st4 = []" "lanes st4 = lanes st2" "name st4 = name st"
    "\<forall>i. map_of (labels st4) i = (if i \<in> entryId ` set copied \<and> map_of (labels st) i \<noteq> None then map_of (labels st) i else None)"
    by auto
  have ms: "ms = entry_mutations 1 copied @ lane_mutations (1 + length copied) forkLanes @
      name_mutations (1 + length copied + length forkLanes) (name st) @
      label_mutations (sequence st3 + 1) (labels st) copied"
    using assms(2) src st3(3) by (simp add: createForkMutations_def Let_def)
  have "map_of (lanes st4) k = map_of forkLanes k" for k
  proof (cases "map_of forkLanes k")
    case None
    then have "k \<noteq> ''main''" using c by (auto simp: map_of_eq_None_iff)
    with None c map_of_updates[of forkLanes "[(''main'', None)]" k] show ?thesis by (simp add: st4(5) st2(6))
  next
    case (Some x)
    with c map_of_updates[of forkLanes "[(''main'', None)]" k] show ?thesis by (simp add: st4(5) st2(6))
  qed
  moreover have "applyMutations ?new ms = Inr st4"
    unfolding ms applyMutations_append using st1(1) st2(1) st3(1) st4(1) by simp
  ultimately show ?thesis
    using st4 by (intro exI[of _ st4]) auto
qed

lemma all_entries_valid: "valid_limit (queryLimit all_entries)" "valid_cursor (queryCursor all_entries)"
  by (simp_all add: all_entries_def valid_cursor_def assertValidCursor_def)

lemma fork_source_error:
  assumes inv: "session_inv st" and "fork_source st options = Inl e"
  shows "error_code e = InvalidForkTarget"
proof (cases options)
  case ForkTree
  with assms(2) all_entries_valid show ?thesis
    by (simp add: fork_source_def findEntries_eq)
next
  case (ForkBranch i position)
  have main: "\<exists>leaf. requireLane st ''main'' = Inr leaf"
    using inv by (cases "map_of (lanes st) ''main''")
      (auto simp: requireLane_def session_inv_def lanes_ok_def map_of_eq_None_iff)
  have target: "error_code e = InvalidForkTarget" if "fork_target st i position = Inl e"
    using main that by (auto simp: fork_target_def Let_def result_simps split: option.split_asm if_split_asm)
  have branch: "\<exists>es. findEntriesOnBranch st all_entries no_bounds x = Inr es"
    if target: "fork_target st i position = Inr (Some x)" for x
  proof -
    from fork_target_entry[OF target] obtain sel f where "find (\<lambda>e. entryId e = sel) (entries st) = Some f"
      "x = entryId f \<or> entryParent f = Some x"
      by (auto simp: inv_byId[OF inv])
    then have "f \<in> set (entries st)" "x = entryId f \<or> entryParent f = Some x"
      by (auto simp: find_Some_iff)
    then obtain g where "g \<in> set (entries st)" "entryId g = x"
      using inv_forest[OF inv] by (auto simp: forest_def)
    with branch_exists[OF inv_forest[OF inv]] findEntriesOnBranch_eq[OF inv _ all_entries_valid] show ?thesis
      by blast
  qed
  from assms(2) ForkBranch target branch show ?thesis
    by (cases "fork_target st i position") (auto simp: fork_source_def result_simps split: option.split_asm)
qed

subsection \<open>Properties\<close>

text \<open>C16: In every session built by mutations, each entry has exactly one branch to a root, along which
  sequence numbers decrease; a branch query from it never fails and returns the entries of that branch
  that match, newest or oldest first, up to the bound (inclusive) and the limit.\<close>

theorem branch_query:
  assumes "applyMutations newSessionState ms = Inr st" and "has_entry st start"
    and "valid_limit (queryLimit q)" and "valid_cursor (queryCursor q)"
  shows "\<exists>!path. is_branch (entries st) path \<and> entryId (hd path) = start \<and>
    sorted_wrt (>) (map entrySeq path) \<and>
    findEntriesOnBranch st q bounds start = Inr (take_limit (queryLimit q) (filter (\<lambda>e. matchesEntryQuery e q)
      (until (at_bound (Some bounds)) (if queryOrder q = Some OldestFirst then rev path else path))))"
proof -
  have inv: "session_inv st" by (rule inv_applyMutations[OF inv_new assms(1)])
  then obtain e where e: "e \<in> set (entries st)" "entryId e = start"
    using assms(2) has_entry_iff[of st start] by (auto simp: session_inv_def)
  have d: "distinct (map entryId (entries st))"
    using inv_forest[OF inv] by (simp add: forest_def)
  obtain path where p: "is_branch (entries st) (e # path)" "sorted_wrt (>) (map entrySeq (e # path))"
    using branch_exists[OF inv_forest[OF inv] e(1)] by blast
  show ?thesis
  proof (rule ex1I[of _ "e # path"])
    fix path'
    assume "is_branch (entries st) path' \<and> entryId (hd path') = start \<and> sorted_wrt (>) (map entrySeq path') \<and>
      findEntriesOnBranch st q bounds start = Inr (take_limit (queryLimit q) (filter (\<lambda>e. matchesEntryQuery e q)
        (until (at_bound (Some bounds)) (if queryOrder q = Some OldestFirst then rev path' else path'))))"
    then obtain f fs where f: "path' = f # fs" "is_branch (entries st) (f # fs)" "entryId f = start"
      by (cases path') auto
    then have "f = e"
      using same_entry[OF d _ e(1)] branch_subset[OF f(2)] e(2) by auto
    with branch_unique[OF d p(1)] f show "path' = e # path" by blast
  qed (use p e(2) findEntriesOnBranch_eq[OF inv p(1) assms(3,4)] in \<open>simp del: until.simps\<close>)
qed

theorem branch_query_witness:
  "\<exists>!path. is_branch (entries sample_session) path \<and> entryId (hd path) = ''c'' \<and>
    sorted_wrt (>) (map entrySeq path) \<and>
    findEntriesOnBranch sample_session all_entries no_bounds ''c'' =
      Inr (take_limit (queryLimit all_entries) (filter (\<lambda>e. matchesEntryQuery e all_entries)
      (until (at_bound (Some no_bounds)) (if queryOrder all_entries = Some OldestFirst then rev path else path))))"
  by (rule branch_query[OF sample_replay]) (simp_all add: all_entries_valid has_entry_def sample_session_def)

text \<open>What a fork is to copy: the whole session, or the branch up to a message entry or up to its parent.\<close>

definition selected_entry :: "session_state \<Rightarrow> string option \<Rightarrow> string option" where
  "selected_entry st i =
     (case i of Some x \<Rightarrow> Some x | None \<Rightarrow> (case map_of (lanes st) ''main'' of None \<Rightarrow> None | Some leaf \<Rightarrow> leaf))"

definition message_entry :: "session_state \<Rightarrow> string \<Rightarrow> entry \<Rightarrow> bool" where
  "message_entry st i e \<longleftrightarrow> e \<in> set (entries st) \<and> entryId e = i \<and> entry_type e = MessageType"

fun branch_up_to :: "session_state \<Rightarrow> string option \<Rightarrow> entry list \<Rightarrow> bool" where
  "branch_up_to st None copied = (copied = [])"
| "branch_up_to st (Some x) copied = (is_branch (entries st) (rev copied) \<and> entryId (last copied) = x)"

fun fork_selection :: "session_state \<Rightarrow> fork_options \<Rightarrow> entry list \<Rightarrow> (string \<times> string option) list \<Rightarrow> bool" where
  "fork_selection st ForkTree copied forkLanes = (copied = entries st \<and> forkLanes = lanes st)"
| "fork_selection st (ForkBranch i position) copied forkLanes =
     (\<exists>leaf. forkLanes = [(''main'', leaf)] \<and> branch_up_to st leaf copied \<and>
       (case selected_entry st i of
          None \<Rightarrow> leaf = None
        | Some x \<Rightarrow> \<exists>e. message_entry st x e \<and>
            leaf = (if position = Some ForkAt \<or> position = None \<and> i = None then Some x else entryParent e)))"

fun fork_refused :: "session_state \<Rightarrow> fork_options \<Rightarrow> bool" where
  "fork_refused st ForkTree = False"
| "fork_refused st (ForkBranch i position) = (\<exists>x. selected_entry st i = Some x \<and> (\<forall>e. \<not> message_entry st x e))"

lemma requireLane_main: "session_inv st \<Longrightarrow> requireLane st ''main'' = Inr (selected_entry st None)"
  by (cases "map_of (lanes st) ''main''")
    (auto simp: requireLane_def selected_entry_def session_inv_def lanes_ok_def map_of_eq_None_iff)

lemma fork_target_selected:
  assumes inv: "session_inv st"
  shows "fork_target st i position =
    (case selected_entry st i of
       None \<Rightarrow> Inr None
     | Some x \<Rightarrow>
         (case find (\<lambda>e. entryId e = x) (entries st) of
            None \<Rightarrow> Inl (SessionError InvalidForkTarget (''Fork target is not a message entry: '' @ x))
          | Some e \<Rightarrow>
              if entry_type e \<noteq> MessageType
              then Inl (SessionError InvalidForkTarget (''Fork target is not a message entry: '' @ x))
              else Inr (if position = Some ForkAt \<or> position = None \<and> i = None then Some x else entryParent e)))"
proof -
  have "(case i of Some j \<Rightarrow> Inr (Some j) | None \<Rightarrow> requireLane st ''main'') = Inr (selected_entry st i)"
    using requireLane_main[OF inv] by (cases i) (auto simp: selected_entry_def)
  then have "fork_target st i position = (case selected_entry st i of
       None \<Rightarrow> Inr None
     | Some x \<Rightarrow>
         (case find (\<lambda>e. entryId e = x) (entries st) of
            None \<Rightarrow> Inl (SessionError InvalidForkTarget (''Fork target is not a message entry: '' @ x))
          | Some e \<Rightarrow>
              if entry_type e \<noteq> MessageType
              then Inl (SessionError InvalidForkTarget (''Fork target is not a message entry: '' @ x))
              else let pos = (case position of Some p \<Rightarrow> p | None \<Rightarrow> if i = None then ForkAt else ForkBefore)
                   in Inr (if pos = ForkAt then Some (entryId e) else entryParent e)))"
    by (cases "selected_entry st i") (simp_all add: fork_target_def inv_byId[OF inv])
  note target = this
  have at: "((case position of Some p \<Rightarrow> p | None \<Rightarrow> if i = None then ForkAt else ForkBefore) = ForkAt) \<longleftrightarrow>
      (position = Some ForkAt \<or> position = None \<and> i = None)"
    by (cases position) auto
  show ?thesis
  proof (cases "selected_entry st i")
    case (Some x)
    show ?thesis
    proof (cases "find (\<lambda>e. entryId e = x) (entries st)")
      case found: (Some e)
      then have "entryId e = x" by (auto simp: find_Some_iff)
      then show ?thesis unfolding target Some found option.case Let_def at by simp
    qed (simp add: target Some)
  qed (simp add: target)
qed

lemma message_entry_find:
  assumes "session_inv st"
  shows "message_entry st x e \<longleftrightarrow> find (\<lambda>e. entryId e = x) (entries st) = Some e \<and> entry_type e = MessageType"
proof -
  have d: "distinct (map entryId (entries st))" using inv_forest[OF assms] by (simp add: forest_def)
  have "find (\<lambda>e. entryId e = x) (entries st) = Some e" if e: "e \<in> set (entries st)" "entryId e = x"
  proof -
    from e obtain f where f: "find (\<lambda>e. entryId e = x) (entries st) = Some f"
      by (cases "find (\<lambda>e. entryId e = x) (entries st)") (auto simp: find_None_iff)
    then have "f \<in> set (entries st)" "entryId f = x" by (auto simp: find_Some_iff)
    with e same_entry[OF d, of f e] f show ?thesis by simp
  qed
  then show ?thesis by (auto simp: message_entry_def find_Some_iff)
qed

lemma fork_branch_copied:
  assumes inv: "session_inv st" and x: "x \<in> entryId ` set (entries st)"
    and "findEntriesOnBranch st all_entries no_bounds x = Inr copied"
  shows "branch_up_to st (Some x) copied"
proof -
  from x obtain e where e: "e \<in> set (entries st)" "entryId e = x" by auto
  from branch_exists[OF inv_forest[OF inv] e(1)] obtain path where p: "is_branch (entries st) (e # path)" by blast
  have "at_bound (Some no_bounds) = (\<lambda>e. False)" by (simp add: at_bound_def no_bounds_def fun_eq_iff)
  then have "findEntriesOnBranch st all_entries no_bounds x = Inr (rev (e # path))"
    using findEntriesOnBranch_eq[OF inv p all_entries_valid, of no_bounds] e(2)
    by (simp add: all_entries_def take_limit_def matchesEntryQuery_def)
  with assms(3) have "copied = rev (e # path)" by simp
  with e p show ?thesis by simp
qed

lemma fork_source_selection:
  assumes inv: "session_inv st" and src: "fork_source st options = Inr (copied, forkLanes)"
  shows "fork_selection st options copied forkLanes"
proof (cases options)
  case ForkTree
  have "findEntries st all_entries = Inr (entries st)"
    by (subst findEntries_eq) (auto simp: all_entries_def valid_cursor_def assertValidCursor_def take_limit_def
        ordered_def matchesEntryQuery_def)
  with ForkTree src show ?thesis by (simp add: fork_source_def)
next
  case (ForkBranch i position)
  with src obtain leaf where t: "fork_target st i position = Inr leaf" "forkLanes = [(''main'', leaf)]"
    "(case leaf of None \<Rightarrow> Inr [] | Some t \<Rightarrow> findEntriesOnBranch st all_entries no_bounds t) = Inr copied"
    by (auto simp: fork_source_def result_simps)
  have "branch_up_to st leaf copied"
  proof (cases leaf)
    case (Some x)
    from fork_target_entry[of st i position x] t(1) Some obtain sel e where
      "find (\<lambda>e. entryId e = sel) (entries st) = Some e" "x = entryId e \<or> entryParent e = Some x"
      by (auto simp: inv_byId[OF inv])
    then have "e \<in> set (entries st)" "x = entryId e \<or> entryParent e = Some x" by (auto simp: find_Some_iff)
    then have "x \<in> entryId ` set (entries st)" using inv_forest[OF inv] by (auto simp: forest_def)
    with fork_branch_copied[OF inv] t(3) Some show ?thesis by simp
  qed (use t(3) in simp)
  moreover have "case selected_entry st i of None \<Rightarrow> leaf = None | Some x \<Rightarrow> \<exists>e. message_entry st x e \<and>
      leaf = (if position = Some ForkAt \<or> position = None \<and> i = None then Some x else entryParent e)"
    using t(1) unfolding fork_target_selected[OF inv]
    by (auto simp: message_entry_find[OF inv] split: option.splits if_splits)
  ultimately show ?thesis using ForkBranch t(2) by auto
qed

lemma fork_source_refused:
  assumes inv: "session_inv st" and src: "fork_source st options = Inl e"
  shows "fork_refused st options"
proof (cases options)
  case ForkTree
  with src all_entries_valid show ?thesis by (simp add: fork_source_def findEntries_eq)
next
  case (ForkBranch i position)
  show ?thesis
  proof (cases "fork_target st i position")
    case (Inl e')
    then obtain x where "selected_entry st i = Some x" "\<forall>e. \<not> message_entry st x e"
      unfolding fork_target_selected[OF inv] message_entry_find[OF inv] by (auto split: option.splits if_splits)
    then show ?thesis using ForkBranch by auto
  next
    case (Inr leaf)
    have "\<exists>es. findEntriesOnBranch st all_entries no_bounds x = Inr es" if "leaf = Some x" for x
    proof -
      from fork_target_entry[of st i position x] Inr that obtain sel f where "find (\<lambda>e. entryId e = sel) (entries st) = Some f"
        "x = entryId f \<or> entryParent f = Some x"
        by (auto simp: inv_byId[OF inv])
      then have "f \<in> set (entries st)" "x = entryId f \<or> entryParent f = Some x" by (auto simp: find_Some_iff)
      then obtain g where "g \<in> set (entries st)" "entryId g = x"
        using inv_forest[OF inv] by (auto simp: forest_def)
      with branch_exists[OF inv_forest[OF inv]] findEntriesOnBranch_eq[OF inv _ all_entries_valid] show ?thesis
        by blast
    qed
    with src ForkBranch Inr show ?thesis
      by (cases leaf) (auto simp: fork_source_def result_simps)
  qed
qed

text \<open>C10: A fork of any session is refused exactly when its target, the given entry or else the leaf of
  the main lane, is not a message entry of the session. Otherwise its mutations replay on a new session
  without error. A fork of the tree copies all entries and lanes; a fork of a branch copies the path from
  the root up to the target, or up to its parent when the position is before it (which is the default for
  a given entry), and has the main lane only, at the end of that path. The new session has the copied
  entries with the same ids, contents, parents and timestamps, renumbered from 1, no record, these lanes,
  the same name, and the labels of the copied entries.\<close>

theorem fork_copies:
  assumes "applyMutations newSessionState ms = Inr st"
  shows "case createForkMutations st options of
      Inl e \<Rightarrow> error_code e = InvalidForkTarget \<and> fork_refused st options
    | Inr fork \<Rightarrow> \<not> fork_refused st options \<and> (\<exists>copied forkLanes st'. fork_selection st options copied forkLanes \<and>
        applyMutations newSessionState fork = Inr st' \<and> session_inv st' \<and>
        entries st' = renumbered 1 copied \<and> records st' = [] \<and> map_of (lanes st') = map_of forkLanes \<and>
        name st' = name st \<and>
        (\<forall>i. map_of (labels st') i = (if i \<in> entryId ` set copied then map_of (labels st) i else None)))"
proof -
  have inv: "session_inv st" by (rule inv_applyMutations[OF inv_new assms])
  show ?thesis
  proof (cases "createForkMutations st options")
    case (Inl e)
    then have "fork_source st options = Inl e"
      by (auto simp: createForkMutations_def Let_def result_simps)
    with fork_source_error[OF inv] fork_source_refused[OF inv] Inl show ?thesis by simp
  next
    case (Inr fork)
    then obtain copied forkLanes where src: "fork_source st options = Inr (copied, forkLanes)"
      by (auto simp: createForkMutations_def Let_def result_simps)
    note selected = fork_source_selection[OF inv src]
    then have "\<not> fork_refused st options" by (cases options) (auto split: option.splits)
    then show ?thesis using selected fork_replay[OF inv Inr src] unfolding Inr sum.case by blast
  qed
qed

theorem fork_copies_witness:
  "case createForkMutations sample_session (ForkBranch (Some ''c'') (Some ForkAt)) of
      Inl e \<Rightarrow> error_code e = InvalidForkTarget \<and> fork_refused sample_session (ForkBranch (Some ''c'') (Some ForkAt))
    | Inr fork \<Rightarrow> \<not> fork_refused sample_session (ForkBranch (Some ''c'') (Some ForkAt)) \<and> (\<exists>copied forkLanes st'.
        fork_selection sample_session (ForkBranch (Some ''c'') (Some ForkAt)) copied forkLanes \<and>
        applyMutations newSessionState fork = Inr st' \<and> session_inv st' \<and>
        entries st' = renumbered 1 copied \<and> records st' = [] \<and> map_of (lanes st') = map_of forkLanes \<and>
        name st' = name sample_session \<and>
        (\<forall>i. map_of (labels st') i = (if i \<in> entryId ` set copied then map_of (labels sample_session) i else None)))"
  by (rule fork_copies[OF sample_replay])

end
