(* ===== verification/SessionStorage.thy ===== *)
theory SessionStorage
  imports SessionTree
begin

section \<open>Session storage and the session\<close>

text \<open>
  The model of \<^verbatim>\<open>packages/agent/src/harness/session/memory.ts\<close> (the in-memory storage) and of
  \<^verbatim>\<open>packages/agent/src/harness/session/session.ts\<close> (the session over any storage). Time and new ids
  are arguments; cloning is the identity on values. The session's view of its storage is the locale
  \<open>session_storage\<close>, which the in-memory storage interprets.
\<close>

subsection \<open>The in-memory storage\<close>

definition createLane :: "session_state \<Rightarrow> string \<Rightarrow> string option \<Rightarrow> session_error + session_state" where
  "createLane st lane leaf =
     and_then (validateNewLane st lane) (\<lambda>_.
     and_then (validateTarget st leaf) (\<lambda>_.
     applyMutation st (LaneMutation (nextSequence st) lane leaf) invalidMutation))"

definition moveLane :: "session_state \<Rightarrow> string \<Rightarrow> string option \<Rightarrow> session_error + session_state" where
  "moveLane st lane target =
     and_then (requireLane st lane) (\<lambda>_.
     and_then (validateTarget st target) (\<lambda>_.
     applyMutation st (LaneMutation (nextSequence st) lane target) invalidMutation))"

definition appendEntry ::
  "session_state \<Rightarrow> provisioned_entry \<Rightarrow> string \<Rightarrow> int \<Rightarrow> session_error + (entry \<times> session_state)" where
  "appendEntry st newEntry lane now =
     and_then (requireLane st lane) (\<lambda>parentId.
     and_then (validateUnusedId st (entryId newEntry)) (\<lambda>_.
     let e = provision newEntry (nextSequence st) parentId now in
     and_then (applyMutation st (EntryMutation (Some lane) e) invalidMutation) (\<lambda>st. Inr (e, st))))"

definition is_operation_start :: "new_record \<Rightarrow> bool" where
  "is_operation_start r \<longleftrightarrow> type_of_record (recordBody r) = OperationStartedType"

definition appendRecord :: "session_state \<Rightarrow> new_record \<Rightarrow> int \<Rightarrow> session_error + (lane_record \<times> session_state)" where
  "appendRecord st newRecord now =
     and_then (requireLane st (recordLane newRecord)) (\<lambda>_.
     and_then (validateUnusedId st (recordId newRecord)) (\<lambda>_.
     and_then (findOpenOperations st (recordLane newRecord) (Some (JInt 1))) (\<lambda>open1.
     and_then
       (case open1 of
          [] \<Rightarrow> Inr ()
        | current # _ \<Rightarrow> throw_if (is_operation_start newRecord)
            (SessionError StorageError
              (''Lane '' @ recordLane newRecord @ '' already has an open operation '' @ recordId current))) (\<lambda>_.
     let r = record_of_new newRecord (nextSequence st) now in
     and_then (applyMutation st (RecordMutation r) invalidMutation) (\<lambda>st. Inr (r, st))))))"

definition setName :: "session_state \<Rightarrow> string option \<Rightarrow> session_error + session_state" where
  "setName st n = applyMutation st (NameMutation (nextSequence st) n) invalidMutation"

definition setLabel :: "session_state \<Rightarrow> string \<Rightarrow> string option \<Rightarrow> session_error + session_state" where
  "setLabel st i label =
     and_then (validateTarget st (Some i)) (\<lambda>_.
     applyMutation st (LabelMutation (nextSequence st) i label) invalidMutation)"

record storage =
  storageMetadata :: session_metadata
  storageState :: session_state

definition newStorage :: "session_metadata \<Rightarrow> storage" where
  "newStorage metadata = \<lparr>storageMetadata = metadata, storageState = newSessionState\<rparr>"

definition forkStorage :: "storage \<Rightarrow> session_metadata \<Rightarrow> fork_options \<Rightarrow> session_error + storage" where
  "forkStorage s metadata options =
     and_then (createForkMutations (storageState s) options) (\<lambda>ms.
     and_then (applyMutations newSessionState ms) (\<lambda>st.
     Inr (newStorage metadata\<lparr>storageState := st\<rparr>)))"

subsection \<open>The repository of in-memory sessions\<close>

type_synonym repo = "(string \<times> storage) list"

definition requireStorage :: "repo \<Rightarrow> string \<Rightarrow> session_error + storage" where
  "requireStorage sessions i =
     (case map_of sessions i of
        None \<Rightarrow> Inl (SessionError NotFound (''Session not found: '' @ i))
      | Some s \<Rightarrow> Inr s)"

definition createSession :: "repo \<Rightarrow> string \<Rightarrow> int \<Rightarrow> string option \<Rightarrow> session_error + repo" where
  "createSession sessions i now parent =
     and_then (throw_if (map_of sessions i \<noteq> None) (SessionError AlreadyExists (''Session already exists: '' @ i))) (\<lambda>_.
     Inr (AList.update i (newStorage \<lparr>metadataId = i, createdAt = now, parentSessionId = parent\<rparr>) sessions))"

definition deleteSession :: "repo \<Rightarrow> string \<Rightarrow> repo" where
  "deleteSession sessions i = AList.delete i sessions"

definition listSessions :: "repo \<Rightarrow> session_metadata list" where
  "listSessions sessions = map (storageMetadata \<circ> snd) sessions"

definition forkSession ::
  "repo \<Rightarrow> string \<Rightarrow> string \<Rightarrow> int \<Rightarrow> string option \<Rightarrow> fork_options \<Rightarrow> session_error + repo" where
  "forkSession sessions source i now parent options =
     and_then (requireStorage sessions source) (\<lambda>s.
     and_then (throw_if (map_of sessions i \<noteq> None) (SessionError AlreadyExists (''Session already exists: '' @ i))) (\<lambda>_.
     and_then (forkStorage s \<lparr>metadataId = i, createdAt = now,
                 parentSessionId = (case parent of Some p \<Rightarrow> Some p | None \<Rightarrow> Some source)\<rparr> options) (\<lambda>f.
     Inr (AList.update i f sessions))))"

subsection \<open>Durable payloads\<close>

definition invalidPayload :: "string \<Rightarrow> session_error" where
  "invalidPayload reason = SessionError InvalidPayload (''Durable payload '' @ reason)"

text \<open>
  The loop of \<open>assertJsonSerializable\<close> over its stack. Values are trees, so the set of active objects
  never holds the candidate, and the exit frames are left out. Arrays here are plain and dense, and
  properties are enumerable data properties.
\<close>

function check_stack :: "js_value list \<Rightarrow> session_error + unit" where
  "check_stack [] = Inr ()"
| "check_stack (candidate # stack) =
     (case candidate of
        JNull \<Rightarrow> check_stack stack
      | JString s \<Rightarrow> check_stack stack
      | JBool b \<Rightarrow> check_stack stack
      | JNumber n \<Rightarrow> if \<not> is_finite n then Inl (invalidPayload ''contains a non-finite number'') else check_stack stack
      | JUndefined \<Rightarrow> Inl (invalidPayload ''contains undefined'')
      | JOther t \<Rightarrow> Inl (if t \<noteq> ''object'' then invalidPayload (''contains '' @ t)
                         else invalidPayload ''contains a non-plain object'')
      | JBytes bs \<Rightarrow> Inl (invalidPayload ''contains a non-plain object'')
      | JArray items \<Rightarrow> check_stack (items @ stack)
      | JObject symbols es \<Rightarrow>
          if symbols then Inl (invalidPayload ''contains a symbol-keyed property'')
          else check_stack (map snd es @ stack))"
  by pat_completeness auto
termination
proof (relation "measure (\<lambda>stack. sum_list (map (Suc \<circ> size) stack))", goal_cases)
  case (6 candidate stack items)
  have "sum_list (map (Suc \<circ> size) items) \<le> size_list size items" by (induction items) auto
  then show ?case by (simp add: 6)
next
  case (7 candidate stack symbols es)
  have "sum_list (map (Suc \<circ> size) (map snd es)) \<le> size_list (size_prod (\<lambda>x. 0) size) es"
    by (induction es) (auto simp: size_prod_simp split: prod.splits)
  then show ?case by (simp add: 7)
qed simp_all

definition assertJsonSerializable :: "js_value \<Rightarrow> session_error + unit" where
  "assertJsonSerializable v = check_stack [v]"

text \<open>The first offence of a value in document order, if it has one.\<close>

fun json_offence :: "js_value \<Rightarrow> session_error option"
  and items_offence :: "js_value list \<Rightarrow> session_error option"
  and entries_offence :: "(js_string \<times> js_value) list \<Rightarrow> session_error option" where
  "json_offence (JNumber n) = (if is_finite n then None else Some (invalidPayload ''contains a non-finite number''))"
| "json_offence JUndefined = Some (invalidPayload ''contains undefined'')"
| "json_offence (JOther t) = Some (if t \<noteq> ''object'' then invalidPayload (''contains '' @ t)
                                  else invalidPayload ''contains a non-plain object'')"
| "json_offence (JBytes bs) = Some (invalidPayload ''contains a non-plain object'')"
| "json_offence (JArray items) = items_offence items"
| "json_offence (JObject symbols es) =
     (if symbols then Some (invalidPayload ''contains a symbol-keyed property'') else entries_offence es)"
| "json_offence v = None"
| "items_offence [] = None"
| "items_offence (v # vs) = (case json_offence v of None \<Rightarrow> items_offence vs | Some e \<Rightarrow> Some e)"
| "entries_offence [] = None"
| "entries_offence ((k, v) # es) = (case json_offence v of None \<Rightarrow> entries_offence es | Some e \<Rightarrow> Some e)"

lemma check_stack_append:
  "check_stack (vs @ stack) = (case items_offence vs of None \<Rightarrow> check_stack stack | Some e \<Rightarrow> Inl e)"
proof (induction vs arbitrary: stack)
  case (Cons v vs)
  have "check_stack (v # stack) = (case json_offence v of None \<Rightarrow> check_stack stack | Some e \<Rightarrow> Inl e)" for stack
  proof (induction v arbitrary: stack)
    case (JArray items)
    have "check_stack (items @ stack) = (case items_offence items of None \<Rightarrow> check_stack stack | Some e \<Rightarrow> Inl e)"
      using JArray by (induction items arbitrary: stack) (auto split: option.splits)
    then show ?case by simp
  next
    case (JObject symbols es)
    have "check_stack (map snd es @ stack) = (case entries_offence es of None \<Rightarrow> check_stack stack | Some e \<Rightarrow> Inl e)"
      using JObject
    proof (induction es arbitrary: stack)
      case (Cons x es)
      then show ?case by (cases x) (fastforce split: option.splits)
    qed simp
    then show ?case by simp
  qed simp_all
  with Cons show ?case by (simp split: option.splits)
qed simp

subsection \<open>Storage operations\<close>

datatype storage_op =
    CreateLane string "string option"
  | MoveLane string "string option"
  | AppendEntry provisioned_entry string int
  | AppendRecord new_record int
  | SetName "string option"
  | SetLabel string "string option"

fun run_op :: "storage_op \<Rightarrow> session_state \<Rightarrow> session_error + session_state" where
  "run_op (CreateLane lane leaf) st = createLane st lane leaf"
| "run_op (MoveLane lane target) st = moveLane st lane target"
| "run_op (AppendEntry p lane now) st = and_then (appendEntry st p lane now) (\<lambda>(e, st). Inr st)"
| "run_op (AppendRecord r now) st = and_then (appendRecord st r now) (\<lambda>(r, st). Inr st)"
| "run_op (SetName n) st = setName st n"
| "run_op (SetLabel i label) st = setLabel st i label"

text \<open>The states a storage can be in: new, a fork of a reachable one, or after a successful operation.\<close>

inductive reachable :: "session_state \<Rightarrow> bool" where
  new: "reachable newSessionState"
| fork: "reachable st \<Longrightarrow> createForkMutations st options = Inr ms \<Longrightarrow> applyMutations newSessionState ms = Inr st' \<Longrightarrow>
    reachable st'"
| step: "reachable st \<Longrightarrow> run_op op st = Inr st' \<Longrightarrow> reachable st'"

inductive_cases reachable_stepE: "reachable st"

definition single_open :: "session_state \<Rightarrow> bool" where
  "single_open st \<longleftrightarrow> (\<forall>lane. length (unfinished lane (records st)) \<le> 1)"

lemma applyMutation_records:
  "applyMutation st m invalid = Inr st' \<Longrightarrow>
   records st' = records st @ (case m of RecordMutation r \<Rightarrow> [r] | _ \<Rightarrow> [])"
  by (cases m) (auto simp: applyMutation_def apply_entry_def apply_record_def result_simps split: option.splits)

lemma single_open_filter: "single_open st \<Longrightarrow> length (filter P (unfinished lane (records st))) \<le> 1"
  by (metis length_filter_le order_trans single_open_def)

lemma appendRecord_result:
  assumes "session_inv st" and "appendRecord st r now = Inr (lr, st')"
  shows "lr = record_of_new r (sequence st + 1) now" and "applyMutation st (RecordMutation lr) invalidMutation = Inr st'"
    and "is_operation_start r \<Longrightarrow> unfinished (recordLane r) (records st) = []"
proof -
  have ops: "open_operations st (recordLane r) = map (\<lambda>r. (recordId r, r)) (unfinished (recordLane r) (records st))"
    using assms(1) by (simp add: session_inv_def ops_ok_def)
  show "lr = record_of_new r (sequence st + 1) now" "applyMutation st (RecordMutation lr) invalidMutation = Inr st'"
    using assms(2) by (auto simp: appendRecord_def Let_def nextSequence_def result_simps)
  show "is_operation_start r \<Longrightarrow> unfinished (recordLane r) (records st) = []"
    using assms(2) ops
    by (auto simp: appendRecord_def Let_def result_simps findOpenOperations_def split: list.splits)
qed

lemma starts_in_new: "starts_in lane (record_of_new r seq now) \<longleftrightarrow> recordLane r = lane \<and> is_operation_start r"
  by (cases "recordBody r") (auto simp: starts_in_def is_operation_start_def)

lemma single_open_step:
  assumes inv: "session_inv st" and one: "single_open st" and "run_op op st = Inr st'"
  shows "single_open st'"
proof (cases op)
  case (AppendRecord r now)
  with assms(3) obtain lr where lr: "appendRecord st r now = Inr (lr, st')"
    by (auto simp: result_simps)
  note res = appendRecord_result[OF inv lr]
  have rec: "records st' = records st @ [lr]"
    using applyMutation_records[OF res(2)] by simp
  show ?thesis
    unfolding single_open_def rec unfinished_snoc
  proof
    fix lane
    show "length (filter (\<lambda>s. \<not> finishes lane (recordId s) lr) (unfinished lane (records st)) @
        (if starts_in lane lr then [lr] else [])) \<le> 1"
    proof (cases "starts_in lane lr")
      case True
      with res(1,3) have "unfinished lane (records st) = []" by (auto simp: starts_in_new)
      with True show ?thesis by simp
    next
      case False
      with single_open_filter[OF one] show ?thesis by simp
    qed
  qed
qed (use assms(2,3) in \<open>auto simp: createLane_def moveLane_def appendEntry_def setName_def setLabel_def Let_def
    single_open_def result_simps dest!: applyMutation_records\<close>)

lemma inv_step:
  assumes inv: "session_inv st" and "run_op op st = Inr st'"
  shows "session_inv st'"
proof -
  obtain m where "applyMutation st m invalidMutation = Inr st'"
    using assms(2)
    by (cases op) (auto simp: createLane_def moveLane_def appendEntry_def appendRecord_def setName_def setLabel_def Let_def result_simps)
  with inv show ?thesis by (rule inv_applyMutation)
qed

lemma reachable_inv: "reachable st \<Longrightarrow> session_inv st \<and> single_open st"
proof (induction rule: reachable.induct)
  case new
  show ?case using inv_new by (simp add: single_open_def) (simp add: newSessionState_def)
next
  case (fork st options ms st')
  then obtain copied forkLanes where src: "fork_source st options = Inr (copied, forkLanes)"
    by (auto simp: createForkMutations_def Let_def result_simps)
  from fork_replay[OF _ fork.hyps(2) src] fork have "session_inv st'" "records st' = []" by auto
  then show ?case by (simp add: single_open_def)
next
  case (step st op st')
  then show ?case using inv_step single_open_step by blast
qed

subsection \<open>The session over a storage\<close>

text \<open>
  The operations of the class \<open>Session\<close>, given the storage operations they call: the lanes, the
  branch query and the append. \<open>to_js\<close> is the representation of a provisioned entry as an object.
\<close>

type_synonym 's lanes_op = "'s \<Rightarrow> (string \<times> string option) list"
type_synonym 's branch_op = "'s \<Rightarrow> entry_query \<Rightarrow> branch_bounds \<Rightarrow> string \<Rightarrow> session_error + entry list"
type_synonym 's append_op = "'s \<Rightarrow> provisioned_entry \<Rightarrow> string \<Rightarrow> int \<Rightarrow> session_error + (entry \<times> 's)"

definition getLeafIdForLane :: "'s lanes_op \<Rightarrow> 's \<Rightarrow> string \<Rightarrow> session_error + string option" where
  "getLeafIdForLane getLanes s lane =
     (case find (\<lambda>p. fst p = lane) (getLanes s) of
        None \<Rightarrow> Inl (SessionError InvalidLane (''Lane not found: '' @ lane))
      | Some pointer \<Rightarrow> Inr (snd pointer))"

definition queryBranchEntries :: "'s lanes_op \<Rightarrow> 's branch_op \<Rightarrow> 's \<Rightarrow> string \<Rightarrow> entry_query \<Rightarrow> branch_bounds \<Rightarrow>
    string option \<Rightarrow> js_number option \<Rightarrow> session_error + entry list" where
  "queryBranchEntries getLanes findBranch s defaultLane q bounds start resultLimit =
     and_then (assertValidLimit (queryLimit q)) (\<lambda>_.
     and_then (assertValidCursor (queryCursor q)) (\<lambda>_.
     and_then (case start of Some i \<Rightarrow> Inr (Some i) | None \<Rightarrow> getLeafIdForLane getLanes s defaultLane) (\<lambda>start.
     case start of
       None \<Rightarrow> Inr []
     | Some i \<Rightarrow> findBranch s (if resultLimit = queryLimit q then q else q\<lparr>queryLimit := resultLimit\<rparr>) bounds i)))"

definition commitEntry :: "(provisioned_entry \<Rightarrow> js_value) \<Rightarrow> 's append_op \<Rightarrow> 's append_op" where
  "commitEntry to_js add_entry s p lane now =
     and_then (assertJsonSerializable (to_js p)) (\<lambda>_. add_entry s p lane now)"

definition appendMessageToLane :: "(provisioned_entry \<Rightarrow> js_value) \<Rightarrow> 's append_op \<Rightarrow> 's \<Rightarrow> string \<Rightarrow> string \<Rightarrow>
    agent_message \<Rightarrow> int \<Rightarrow> session_error + (string \<times> 's)" where
  "appendMessageToLane to_js add_entry s newId lane message now =
     and_then (commitEntry to_js add_entry s \<lparr>entryId = newId, entryBody = MessageEntry message False\<rparr> lane now)
       (\<lambda>(e, s). Inr (entryId e, s))"

definition appendCustomEntryToLane :: "(provisioned_entry \<Rightarrow> js_value) \<Rightarrow> 's append_op \<Rightarrow> 's \<Rightarrow> string \<Rightarrow> string \<Rightarrow>
    string \<Rightarrow> js_value \<Rightarrow> int \<Rightarrow> session_error + (string \<times> 's)" where
  "appendCustomEntryToLane to_js add_entry s newId lane customType data now =
     and_then (commitEntry to_js add_entry s \<lparr>entryId = newId, entryBody = CustomEntry customType data\<rparr> lane now)
       (\<lambda>(e, s). Inr (entryId e, s))"

text \<open>The whole branch of a lane, newest first, and a run of appended messages.\<close>

definition newest_first :: entry_query where
  "newest_first = all_entries\<lparr>queryOrder := None\<rparr>"

definition lane_branch :: "'s lanes_op \<Rightarrow> 's branch_op \<Rightarrow> 's \<Rightarrow> string \<Rightarrow> session_error + entry list" where
  "lane_branch getLanes findBranch s lane =
     queryBranchEntries getLanes findBranch s lane newest_first no_bounds None None"

fun append_messages :: "(provisioned_entry \<Rightarrow> js_value) \<Rightarrow> 's append_op \<Rightarrow> string \<Rightarrow> 's \<Rightarrow>
    (string \<times> agent_message \<times> int) list \<Rightarrow> session_error + 's" where
  "append_messages to_js add_entry lane s [] = Inr s"
| "append_messages to_js add_entry lane s ((i, message, now) # rest) =
     and_then (appendMessageToLane to_js add_entry s i lane message now) (\<lambda>(i, s).
       append_messages to_js add_entry lane s rest)"

text \<open>What the session relies on: an append makes the entry the leaf of its lane and puts it in front of
  the lane's branch, and leaves the other lanes and every existing branch as they are.\<close>

locale session_storage =
  fixes getLanes :: "'s lanes_op"
    and findBranch :: "'s branch_op"
    and add_entry :: "'s append_op"
    and good :: "'s \<Rightarrow> bool"
  assumes append_good: "good s \<Longrightarrow> add_entry s p lane now = Inr (e, s') \<Longrightarrow> good s'"
    and append_payload: "good s \<Longrightarrow> add_entry s p lane now = Inr (e, s') \<Longrightarrow> payload_of_entry e = p"
    and append_parent: "good s \<Longrightarrow> add_entry s p lane now = Inr (e, s') \<Longrightarrow> map_of (getLanes s) lane = Some (entryParent e)"
    and append_leaf: "good s \<Longrightarrow> add_entry s p lane now = Inr (e, s') \<Longrightarrow>
      map_of (getLanes s') l = (if l = lane then Some (Some (entryId e)) else map_of (getLanes s) l)"
    and append_branch: "good s \<Longrightarrow> add_entry s p lane now = Inr (e, s') \<Longrightarrow>
      (case entryParent e of None \<Rightarrow> Inr [] | Some i \<Rightarrow> findBranch s newest_first no_bounds i) = Inr es \<Longrightarrow>
      findBranch s' newest_first no_bounds (entryId e) = Inr (e # es)"
    and append_keeps: "good s \<Longrightarrow> add_entry s p lane now = Inr (e, s') \<Longrightarrow> findBranch s newest_first no_bounds i = Inr es \<Longrightarrow>
      findBranch s' newest_first no_bounds i = Inr es"
begin

lemma leaf_eq: "getLeafIdForLane getLanes s lane =
    (case map_of (getLanes s) lane of None \<Rightarrow> Inl (SessionError InvalidLane (''Lane not found: '' @ lane)) | Some leaf \<Rightarrow> Inr leaf)"
proof -
  have "find (\<lambda>p. fst p = lane) xs = map_option (Pair lane) (map_of xs lane)" for xs :: "(string \<times> string option) list"
    by (induction xs) auto
  then show ?thesis by (simp add: getLeafIdForLane_def split: option.splits)
qed

lemma lane_branch_eq: "lane_branch getLanes findBranch s lane =
    (case map_of (getLanes s) lane of
       None \<Rightarrow> Inl (SessionError InvalidLane (''Lane not found: '' @ lane))
     | Some None \<Rightarrow> Inr []
     | Some (Some i) \<Rightarrow> findBranch s newest_first no_bounds i)"
  by (simp add: lane_branch_def queryBranchEntries_def newest_first_def all_entries_def assertValidLimit_def
      assertValidCursor_def leaf_eq split: option.splits)

lemma append_message_branch:
  assumes "good s" and "appendMessageToLane to_js add_entry s i lane message now = Inr (i', s')"
    and "lane_branch getLanes findBranch s lane = Inr es"
  shows "good s' \<and> (\<exists>e. entryId e = i \<and> entryBody e = MessageEntry message False \<and>
      lane_branch getLanes findBranch s' lane = Inr (e # es)) \<and>
    (\<forall>l fs. l \<noteq> lane \<longrightarrow> lane_branch getLanes findBranch s l = Inr fs \<longrightarrow> lane_branch getLanes findBranch s' l = Inr fs)"
proof -
  let ?p = "\<lparr>entryId = i, entryBody = MessageEntry message False\<rparr>"
  obtain e where e: "add_entry s ?p lane now = Inr (e, s')"
    using assms(2) by (auto simp: appendMessageToLane_def commitEntry_def result_simps)
  note laws = append_good[OF assms(1) e] append_payload[OF assms(1) e] append_parent[OF assms(1) e]
    append_leaf[OF assms(1) e] append_branch[OF assms(1) e] append_keeps[OF assms(1) e]
  have "(case entryParent e of None \<Rightarrow> Inr [] | Some i \<Rightarrow> findBranch s newest_first no_bounds i) = Inr es"
    using assms(3) laws(3) by (simp add: lane_branch_eq)
  from laws(5)[OF this] laws(4) have "lane_branch getLanes findBranch s' lane = Inr (e # es)"
    by (simp add: lane_branch_eq)
  moreover have "entryId e = i" "entryBody e = MessageEntry message False"
    using laws(2) by (simp_all add: payload_of_entry_def)
  moreover have "lane_branch getLanes findBranch s' l = Inr fs" if "l \<noteq> lane" "lane_branch getLanes findBranch s l = Inr fs" for l fs
    using that laws(4,6) by (auto simp: lane_branch_eq split: option.splits)
  ultimately show ?thesis using laws(1) by blast
qed

lemma append_messages_branch:
  assumes "good s" and "append_messages to_js add_entry lane s items = Inr s'"
    and "lane_branch getLanes findBranch s lane = Inr es"
  shows "good s' \<and> (\<exists>new. lane_branch getLanes findBranch s' lane = Inr (rev new @ es) \<and>
      map entryId new = map fst items \<and> map entryBody new = map (\<lambda>(i, m, t). MessageEntry m False) items) \<and>
    (\<forall>l fs. l \<noteq> lane \<longrightarrow> lane_branch getLanes findBranch s l = Inr fs \<longrightarrow> lane_branch getLanes findBranch s' l = Inr fs)"
  using assms
proof (induction items arbitrary: s es)
  case (Cons x items)
  obtain i m t where x: "x = (i, m, t)" by (cases x)
  with Cons.prems(2) obtain j s1 where s1: "appendMessageToLane to_js add_entry s i lane m t = Inr (j, s1)"
    "append_messages to_js add_entry lane s1 items = Inr s'"
    by (auto simp: result_simps)
  from append_message_branch[OF Cons.prems(1) s1(1) Cons.prems(3)] obtain e where e: "good s1" "entryId e = i"
    "entryBody e = MessageEntry m False" "lane_branch getLanes findBranch s1 lane = Inr (e # es)"
    "\<forall>l fs. l \<noteq> lane \<longrightarrow> lane_branch getLanes findBranch s l = Inr fs \<longrightarrow> lane_branch getLanes findBranch s1 l = Inr fs"
    by blast
  from Cons.IH[OF e(1) s1(2) e(4)] obtain new where new: "good s'"
    "lane_branch getLanes findBranch s' lane = Inr (rev new @ e # es)"
    "map entryId new = map fst items" "map entryBody new = map (\<lambda>(i, m, t). MessageEntry m False) items"
    "\<forall>l fs. l \<noteq> lane \<longrightarrow> lane_branch getLanes findBranch s1 l = Inr fs \<longrightarrow> lane_branch getLanes findBranch s' l = Inr fs"
    by blast
  show ?case
    using new e x by (intro conjI exI[of _ "e # new"]) auto
qed simp

end

lemma appendEntry_result:
  assumes "appendEntry st p lane now = Inr (e, st')"
  shows "applyMutation st (EntryMutation (Some lane) e) invalidMutation = Inr st'"
    and "map_of (lanes st) lane = Some (entryParent e)" and "payload_of_entry e = p"
    and "st' = apply_entry st (Some lane) e"
  using assms by (auto simp: appendEntry_def Let_def requireLane_def applyMutation_def result_simps split: option.splits)

lemma is_branch_grow: "is_branch es path \<Longrightarrow> is_branch (es @ [e]) path"
  by (induction es path rule: is_branch.induct) auto

lemma newest_branch:
  assumes "session_inv st" and "is_branch (entries st) (e # path)"
  shows "findEntriesOnBranch st newest_first no_bounds (entryId e) = Inr (e # path)"
proof -
  have "valid_limit (queryLimit newest_first)" "valid_cursor (queryCursor newest_first)"
    using all_entries_valid by (simp_all add: newest_first_def)
  moreover have "at_bound (Some no_bounds) = (\<lambda>e. False)"
    by (simp add: at_bound_def no_bounds_def fun_eq_iff)
  ultimately show ?thesis
    using findEntriesOnBranch_eq[OF assms, of newest_first no_bounds]
    by (simp add: newest_first_def all_entries_def take_limit_def matchesEntryQuery_def)
qed

lemma newest_branch_cases:
  assumes "session_inv st" and "findEntriesOnBranch st newest_first no_bounds i = Inr es"
  obtains e path where "es = e # path" "entryId e = i" "is_branch (entries st) (e # path)"
proof -
  have "has_entry st i"
  proof (rule ccontr)
    assume "\<not> has_entry st i"
    then have "map_of (entriesById st) i = None" by (simp add: has_entry_def)
    then have "walk (entriesById st) (Some no_bounds) {} NotFound i = ([], Some (SessionError NotFound (''Entry not found: '' @ i)))"
      by (subst walk.simps) simp
    with assms(2) show False
      by (auto simp: findEntriesOnBranch_def walkToRoot_def newest_first_def all_entries_def assertValidLimit_def
          assertValidCursor_def)
  qed
  then obtain e where e: "e \<in> set (entries st)" "entryId e = i"
    using has_entry_iff[of st i] assms(1) by (auto simp: session_inv_def)
  from branch_exists[OF inv_forest[OF assms(1)] e(1)] obtain path where "is_branch (entries st) (e # path)" by blast
  with newest_branch[OF assms(1) this] assms(2) e(2) that show thesis by simp
qed

interpretation memory_storage: session_storage lanes findEntriesOnBranch appendEntry session_inv
proof (unfold_locales, goal_cases)
  case (1 s p lane now e s')
  then show ?case using inv_applyMutation appendEntry_result(1) by blast
next
  case (2 s p lane now e s')
  then show ?case by (rule_tac appendEntry_result(3))
next
  case (3 s p lane now e s')
  then show ?case by (rule_tac appendEntry_result(2))
next
  case (4 s p lane now e s' l)
  then show ?case using appendEntry_result(4)[OF 4(2)] by (simp add: apply_entry_def update_conv')
next
  case (5 s p lane now e s' es)
  have inv: "session_inv s'" using 5(1) inv_applyMutation[OF 5(1) appendEntry_result(1)[OF 5(2)]] by simp
  have ent: "entries s' = entries s @ [e]" using appendEntry_result(4)[OF 5(2)] by (simp add: apply_entry_def)
  show ?case
  proof (cases "entryParent e")
    case None
    with 5(3) ent newest_branch[OF inv, of e "[]"] show ?thesis by simp
  next
    case (Some i)
    with 5(3) obtain f path where f: "es = f # path" "entryId f = i" "is_branch (entries s) (f # path)"
      by (auto elim: newest_branch_cases[OF 5(1)])
    then have "is_branch (entries s') (e # f # path)"
      using Some ent is_branch_grow[OF f(3)] by simp
    from newest_branch[OF inv this] f(1) show ?thesis by simp
  qed
next
  case (6 s p lane now e s' i es)
  have inv: "session_inv s'" using inv_applyMutation[OF 6(1) appendEntry_result(1)[OF 6(2)]] .
  have ent: "entries s' = entries s @ [e]" using appendEntry_result(4)[OF 6(2)] by (simp add: apply_entry_def)
  from newest_branch_cases[OF 6(1,3)] obtain f path where f: "es = f # path" "entryId f = i" "is_branch (entries s) (f # path)"
    by blast
  with newest_branch[OF inv, of f path] is_branch_grow[OF f(3), of e] ent show ?case by simp
qed

text \<open>When a storage operation is accepted.\<close>

definition known_lane :: "session_state \<Rightarrow> string \<Rightarrow> bool" where
  "known_lane st lane \<longleftrightarrow> lane \<in> fst ` set (lanes st)"

definition used_id :: "session_state \<Rightarrow> string \<Rightarrow> bool" where
  "used_id st i \<longleftrightarrow> i \<in> entryId ` set (entries st) \<union> recordId ` set (records st)"

text \<open>Why an operation is refused: the code of the first check that fails, in the order of the checks.\<close>

fun op_refusal :: "storage_op \<Rightarrow> session_state \<Rightarrow> session_error_code option" where
  "op_refusal (CreateLane lane leaf) st =
     (if known_lane st lane then Some AlreadyExists
      else if \<not> known_leaf (entryId ` set (entries st)) leaf then Some NotFound else None)"
| "op_refusal (MoveLane lane target) st =
     (if \<not> known_lane st lane then Some InvalidLane
      else if \<not> known_leaf (entryId ` set (entries st)) target then Some NotFound else None)"
| "op_refusal (AppendEntry p lane now) st =
     (if \<not> known_lane st lane then Some InvalidLane else if used_id st (entryId p) then Some AlreadyExists else None)"
| "op_refusal (AppendRecord r now) st =
     (if \<not> known_lane st (recordLane r) then Some InvalidLane else if used_id st (recordId r) then Some AlreadyExists
      else if is_operation_start r \<and> unfinished (recordLane r) (records st) \<noteq> [] then Some StorageError else None)"
| "op_refusal (SetName n) st = None"
| "op_refusal (SetLabel i label) st = (if i \<notin> entryId ` set (entries st) then Some NotFound else None)"

lemma known_lane_iff: "known_lane st lane \<longleftrightarrow> map_of (lanes st) lane \<noteq> None"
  by (simp add: known_lane_def map_of_eq_None_iff)

lemma used_id_iff: "session_inv st \<Longrightarrow> i \<in> usedIds st \<longleftrightarrow> used_id st i"
  by (simp add: session_inv_def ids_ok_def used_id_def)

lemma validateTarget_iff:
  "session_inv st \<Longrightarrow> validateTarget st leaf = Inr () \<longleftrightarrow> known_leaf (entryId ` set (entries st)) leaf"
  by (cases leaf) (auto simp: validateTarget_def has_entry_iff session_inv_def)

lemma validateTarget_error: "validateTarget st leaf = Inl e \<Longrightarrow> error_code e = NotFound"
  by (auto simp: validateTarget_def split: option.splits)

lemma lane_mutation_accepted:
  "validateTarget st leaf = Inr () \<Longrightarrow> \<exists>st'. applyMutation st (LaneMutation (nextSequence st) lane leaf) invalidMutation = Inr st'"
  by (cases leaf) (auto simp: applyMutation_def nextSequence_def validateTarget_def)

lemma entry_mutation_accepted:
  assumes "session_inv st" and "map_of (lanes st) lane = Some parent" and "entryId p \<notin> usedIds st"
  shows "\<exists>st'. applyMutation st (EntryMutation (Some lane) (provision p (nextSequence st) parent now)) invalidMutation = Inr st'"
proof -
  have "parent \<in> snd ` set (lanes st)"
    using map_of_SomeD[OF assms(2)] by force
  then have "known_leaf (entryId ` set (entries st)) parent"
    using assms(1) unfolding session_inv_def lanes_ok_def by blast
  then have "case parent of None \<Rightarrow> True | Some i \<Rightarrow> has_entry st i"
    using assms(1) by (cases parent) (auto simp: has_entry_iff session_inv_def)
  with assms show ?thesis
    by (cases parent) (auto simp: applyMutation_def nextSequence_def check_entry_def)
qed

lemma op_outcome:
  assumes inv: "session_inv st"
  shows "case run_op op st of
      Inr st' \<Rightarrow> op_refusal op st = None
    | Inl e \<Rightarrow> op_refusal op st = Some (error_code e)"
proof (cases op)
  case (CreateLane lane leaf)
  then show ?thesis
    using validateTarget_iff[OF inv, of leaf] validateTarget_error[of st leaf] lane_mutation_accepted[of st leaf lane]
    by (cases "validateTarget st leaf")
      (auto simp: createLane_def validateNewLane_def known_lane_iff throw_if_def)
next
  case (MoveLane lane leaf)
  then show ?thesis
    using validateTarget_iff[OF inv, of leaf] validateTarget_error[of st leaf] lane_mutation_accepted[of st leaf lane]
    by (cases "validateTarget st leaf"; cases "map_of (lanes st) lane")
      (auto simp: moveLane_def requireLane_def known_lane_iff)
next
  case (AppendEntry p lane now)
  show ?thesis
  proof (cases "map_of (lanes st) lane")
    case None
    with AppendEntry show ?thesis by (simp add: appendEntry_def requireLane_def known_lane_iff)
  next
    case (Some parent)
    with AppendEntry entry_mutation_accepted[OF inv Some, of p now] show ?thesis
      by (cases "entryId p \<in> usedIds st")
        (auto simp: appendEntry_def requireLane_def known_lane_iff validateUnusedId_def used_id_iff[OF inv] Let_def)
  qed
next
  case (AppendRecord r now)
  have ops: "open_operations st (recordLane r) = map (\<lambda>r. (recordId r, r)) (unfinished (recordLane r) (records st))"
    using inv by (simp add: session_inv_def ops_ok_def)
  show ?thesis
  proof (cases "map_of (lanes st) (recordLane r) = None \<or> recordId r \<in> usedIds st")
    case True
    with AppendRecord show ?thesis
      by (auto simp: appendRecord_def requireLane_def known_lane_iff validateUnusedId_def used_id_iff[OF inv] throw_if_def
          split: option.splits)
  next
    case False
    then have "\<exists>st'. applyMutation st (RecordMutation (record_of_new r (nextSequence st) now)) invalidMutation = Inr st'"
      by (simp add: applyMutation_def nextSequence_def check_record_def)
    moreover have "findOpenOperations st (recordLane r) (Some (JInt 1)) = Inr (take 1 (rev (unfinished (recordLane r) (records st))))"
      by (simp add: findOpenOperations_def assertValidLimit_def ops comp_def)
    ultimately show ?thesis
      using AppendRecord False
      by (cases "rev (unfinished (recordLane r) (records st))")
        (auto simp: appendRecord_def requireLane_def known_lane_iff validateUnusedId_def used_id_iff[OF inv] throw_if_def Let_def)
  qed
next
  case (SetName n)
  then show ?thesis by (simp add: setName_def applyMutation_def nextSequence_def)
next
  case (SetLabel i label)
  then show ?thesis
    using inv by (auto simp: setLabel_def validateTarget_def applyMutation_def nextSequence_def throw_if_def
        has_entry_iff session_inv_def)
qed

subsection \<open>Properties\<close>

text \<open>C2: Every state a storage can reach, through any sequence of its operations and forks, is well
  formed, and each of its lanes has at most one open operation.\<close>

theorem storage_invariant:
  assumes "reachable st"
  shows "session_inv st \<and> (\<forall>lane. length (unfinished lane (records st)) \<le> 1)"
  using reachable_inv[OF assms] by (simp add: single_open_def)

definition sample_record :: "string \<Rightarrow> new_record" where
  "sample_record i = \<lparr>recordId = i, recordLane = ''main'', recordBody = OperationStarted None (RunIntent [] [] None JUndefined)\<rparr>"

lemma sample_started: "\<exists>st. run_op (AppendRecord (sample_record ''op'') 0) newSessionState = Inr st"
  using op_outcome[OF inv_new, of "AppendRecord (sample_record ''op'') 0"]
  by (cases "run_op (AppendRecord (sample_record ''op'') 0) newSessionState")
    (auto simp: sample_record_def newSessionState_def known_lane_def used_id_def)

theorem storage_invariant_witness:
  "\<exists>st. run_op (AppendRecord (sample_record ''op'') 0) newSessionState = Inr st \<and>
     session_inv st \<and> (\<forall>lane. length (unfinished lane (records st)) \<le> 1)"
  using sample_started storage_invariant reachable.step[OF reachable.new] by blast

text \<open>C23: In a reachable state an operation succeeds exactly when no check refuses it, and a refusal carries
  the code of the first check that fails: a lane to create exists already, a lane to use is unknown, a target
  is no entry, an id is in use, or, for the start of an operation, the lane has an open one. The consistency
  checks of \<open>applyMutation\<close> never fire.\<close>

theorem storage_accepts:
  assumes "reachable st"
  shows "case run_op op st of
      Inr st' \<Rightarrow> op_refusal op st = None
    | Inl e \<Rightarrow> op_refusal op st = Some (error_code e)"
  using op_outcome reachable_inv[OF assms] by blast

theorem storage_accepts_witness:
  "case run_op (MoveLane ''main'' (Some ''x'')) newSessionState of
      Inr st' \<Rightarrow> op_refusal (MoveLane ''main'' (Some ''x'')) newSessionState = None
    | Inl e \<Rightarrow> op_refusal (MoveLane ''main'' (Some ''x'')) newSessionState = Some (error_code e)"
  by (rule storage_accepts[OF reachable.new])

text \<open>C26: Messages appended through a session to a lane become, in order, the newest part of the lane's
  branch, above what it had; the branch of every other lane is as it was.\<close>

theorem session_appends:
  assumes "reachable st" and "append_messages to_js appendEntry lane st items = Inr st'"
    and "lane_branch lanes findEntriesOnBranch st lane = Inr es"
  shows "(\<exists>new. lane_branch lanes findEntriesOnBranch st' lane = Inr (rev new @ es) \<and>
      map entryId new = map fst items \<and> map entryBody new = map (\<lambda>(i, m, t). MessageEntry m False) items) \<and>
    (\<forall>l fs. l \<noteq> lane \<longrightarrow> lane_branch lanes findEntriesOnBranch st l = Inr fs \<longrightarrow>
      lane_branch lanes findEntriesOnBranch st' l = Inr fs)"
  using memory_storage.append_messages_branch[OF _ assms(2,3)] reachable_inv[OF assms(1)] by blast

definition sample_items :: "(string \<times> agent_message \<times> int) list" where
  "sample_items = [(''a'', UserMessage (PlainContent ''hi'') 1, 1), (''b'', UserMessage (PlainContent ''go'') 2, 2)]"

lemma sample_appended: "\<exists>st. append_messages (\<lambda>p. JNull) appendEntry ''main'' newSessionState sample_items = Inr st"
  by (simp add: sample_items_def appendMessageToLane_def commitEntry_def assertJsonSerializable_def appendEntry_def
      requireLane_def validateUnusedId_def newSessionState_def applyMutation_def nextSequence_def check_entry_def
      apply_entry_def has_entry_def provision_def Let_def)

theorem session_appends_witness:
  "\<exists>st'. append_messages (\<lambda>p. JNull) appendEntry ''main'' newSessionState sample_items = Inr st' \<and>
    (\<exists>new. lane_branch lanes findEntriesOnBranch st' ''main'' = Inr (rev new @ []) \<and>
      map entryId new = map fst sample_items \<and>
      map entryBody new = map (\<lambda>(i, m, t). MessageEntry m False) sample_items)"
proof -
  obtain st' where st': "append_messages (\<lambda>p. JNull) appendEntry ''main'' newSessionState sample_items = Inr st'"
    using sample_appended by blast
  have "lane_branch lanes findEntriesOnBranch newSessionState ''main'' = Inr []"
    by (simp add: memory_storage.lane_branch_eq newSessionState_def)
  from session_appends[OF reachable.new st' this] st' show ?thesis by blast
qed

text \<open>The stack-driven check of durable payloads accepts exactly the values that JSON can hold (null,
  booleans, strings, finite numbers, and arrays and plain objects of such values), and reports for any
  other value its first offence in document order.\<close>

theorem json_check_first_offence:
  "assertJsonSerializable v = (case json_offence v of None \<Rightarrow> Inr () | Some e \<Rightarrow> Inl e)"
  using check_stack_append[of "[v]" "[]"] by (simp add: assertJsonSerializable_def split: option.splits)

end
