(* ===== verification/Utf8.thy ===== *)
theory Utf8
  imports JsValues
begin

section \<open>Text encoding\<close>

text \<open>
  The standard \<open>TextEncoder\<close> and the fatal, BOM-preserving \<open>TextDecoder\<close> that
  \<^verbatim>\<open>packages/protocol/src/cbor/options.ts\<close> creates: a JavaScript string is read as code
  points, a lone surrogate as U+FFFD, and written as UTF-8; decoding refuses every malformed byte
  sequence. The theorem: the decoder is the inverse of the encoder on the strings that have no lone
  surrogate.
\<close>

subsection \<open>Strings and code points\<close>

definition is_high :: "16 word \<Rightarrow> bool" where
  "is_high u \<longleftrightarrow> 0xD800 \<le> unat u \<and> unat u \<le> 0xDBFF"

definition is_low :: "16 word \<Rightarrow> bool" where
  "is_low u \<longleftrightarrow> 0xDC00 \<le> unat u \<and> unat u \<le> 0xDFFF"

definition pair_value :: "16 word \<Rightarrow> 16 word \<Rightarrow> nat" where
  "pair_value u v = 0x10000 + (unat u - 0xD800) * 0x400 + (unat v - 0xDC00)"

fun code_points :: "js_string \<Rightarrow> nat list" where
  "code_points [] = []"
| "code_points [u] = [if is_high u \<or> is_low u then 0xFFFD else unat u]"
| "code_points (u # v # us) =
     (if is_high u \<and> is_low v then pair_value u v # code_points us
      else (if is_high u \<or> is_low u then 0xFFFD else unat u) # code_points (v # us))"

definition code_units :: "nat \<Rightarrow> js_string" where
  "code_units n =
     (if n < 0x10000 then [word_of_nat n]
      else [word_of_nat (0xD800 + (n - 0x10000) div 0x400), word_of_nat (0xDC00 + (n - 0x10000) mod 0x400)])"

text \<open>Every surrogate is part of a pair.\<close>

fun well_formed :: "js_string \<Rightarrow> bool" where
  "well_formed [] = True"
| "well_formed [u] = (\<not> is_high u \<and> \<not> is_low u)"
| "well_formed (u # v # us) =
     (if is_high u \<and> is_low v then well_formed us
      else \<not> is_high u \<and> \<not> is_low u \<and> well_formed (v # us))"

definition scalar :: "nat \<Rightarrow> bool" where
  "scalar n \<longleftrightarrow> n < 0xD800 \<or> 0xDFFF < n \<and> n < 0x110000"

subsection \<open>UTF-8\<close>

definition utf8_bytes :: "nat \<Rightarrow> byte list" where
  "utf8_bytes n =
     (if n < 0x80 then [byte_of n]
      else if n < 0x800 then [byte_of (0xC0 + n div 64), byte_of (0x80 + n mod 64)]
      else if n < 0x10000 then
        [byte_of (0xE0 + n div 4096), byte_of (0x80 + n div 64 mod 64), byte_of (0x80 + n mod 64)]
      else [byte_of (0xF0 + n div 262144), byte_of (0x80 + n div 4096 mod 64),
            byte_of (0x80 + n div 64 mod 64), byte_of (0x80 + n mod 64)])"

definition byte_in :: "nat \<Rightarrow> nat \<Rightarrow> byte \<Rightarrow> bool" where
  "byte_in lo hi b \<longleftrightarrow> lo \<le> unat b \<and> unat b \<le> hi"

definition low6 :: "byte \<Rightarrow> nat" where
  "low6 b = unat b - 0x80"

text \<open>The decoder's reading of one code point: its value and the bytes after it.\<close>

fun utf8_next :: "byte list \<Rightarrow> (nat \<times> byte list) option" where
  "utf8_next [] = None"
| "utf8_next (b # bs) =
     (let n = unat b in
      if n < 0x80 then Some (n, bs)
      else if 0xC2 \<le> n \<and> n \<le> 0xDF then
        (case bs of
           b1 # r \<Rightarrow> if byte_in 0x80 0xBF b1 then Some ((n - 0xC0) * 64 + low6 b1, r) else None
         | _ \<Rightarrow> None)
      else if 0xE0 \<le> n \<and> n \<le> 0xEF then
        (case bs of
           b1 # b2 # r \<Rightarrow>
             if byte_in (if n = 0xE0 then 0xA0 else 0x80) (if n = 0xED then 0x9F else 0xBF) b1 \<and>
                byte_in 0x80 0xBF b2
             then Some ((n - 0xE0) * 4096 + low6 b1 * 64 + low6 b2, r) else None
         | _ \<Rightarrow> None)
      else if 0xF0 \<le> n \<and> n \<le> 0xF4 then
        (case bs of
           b1 # b2 # b3 # r \<Rightarrow>
             if byte_in (if n = 0xF0 then 0x90 else 0x80) (if n = 0xF4 then 0x8F else 0xBF) b1 \<and>
                byte_in 0x80 0xBF b2 \<and> byte_in 0x80 0xBF b3
             then Some ((n - 0xF0) * 262144 + low6 b1 * 4096 + low6 b2 * 64 + low6 b3, r) else None
         | _ \<Rightarrow> None)
      else None)"

lemma utf8_next_shorter: "utf8_next bs = Some (n, r) \<Longrightarrow> length r < length bs"
  by (cases bs) (auto simp: Let_def split: list.splits if_splits)

function utf8_decode :: "byte list \<Rightarrow> nat list option" where
  "utf8_decode bs =
     (if bs = [] then Some []
      else (case utf8_next bs of
              None \<Rightarrow> None
            | Some (n, r) \<Rightarrow> map_option ((#) n) (utf8_decode r)))"
  by pat_completeness auto
termination
  by (relation "measure length") (auto dest: utf8_next_shorter)

declare utf8_decode.simps [simp del]

definition textEncoder_encode :: "js_string \<Rightarrow> byte list" where
  "textEncoder_encode s = concat (map utf8_bytes (code_points s))"

definition textDecoder_decode :: "byte list \<Rightarrow> js_string option" where
  "textDecoder_decode bs = map_option (\<lambda>ns. concat (map code_units ns)) (utf8_decode bs)"

subsection \<open>Lemmas\<close>

lemma unat_16 [simp]: "unat (u :: 16 word) < 65536"
  using unsigned_less[of u] by simp

lemma scalar_code_points: "n \<in> set (code_points s) \<Longrightarrow> scalar n"
proof (induction s rule: code_points.induct)
  case (2 u)
  then show ?case by (auto simp: scalar_def is_high_def is_low_def intro: less_trans[OF unat_16])
next
  case (3 u v us)
  have "scalar (pair_value u v)" if "is_high u" "is_low v"
    using that by (auto simp: scalar_def is_high_def is_low_def pair_value_def)
  moreover have "scalar (unat u)" if "\<not> is_high u" "\<not> is_low u"
    using that by (auto simp: scalar_def is_high_def is_low_def intro: less_trans[OF unat_16])
  moreover have "scalar 0xFFFD" by (simp add: scalar_def)
  ultimately show ?case
    using 3 by (auto split: if_splits)
qed simp

lemma utf8_next_2:
  assumes "2 \<le> A" "A < 32" "B < 64"
  shows "utf8_next (byte_of (0xC0 + A) # byte_of (0x80 + B) # bs) = Some (A * 64 + B, bs)"
proof -
  have "unat (byte_of (0xC0 + A)) = 0xC0 + A" "unat (byte_of (0x80 + B)) = 0x80 + B"
    using assms by simp_all
  then show ?thesis
    using assms by (simp add: byte_in_def low6_def Let_def)
qed

lemma utf8_next_3:
  assumes "A < 16" "B < 64" "C < 64" and "A = 0 \<Longrightarrow> 32 \<le> B" and "A = 13 \<Longrightarrow> B \<le> 31"
  shows "utf8_next (byte_of (0xE0 + A) # byte_of (0x80 + B) # byte_of (0x80 + C) # bs) =
         Some (A * 4096 + B * 64 + C, bs)"
proof -
  have u: "unat (byte_of (0xE0 + A)) = 0xE0 + A" "unat (byte_of (0x80 + B)) = 0x80 + B"
    "unat (byte_of (0x80 + C)) = 0x80 + C"
    using assms by simp_all
  show ?thesis
    unfolding utf8_next.simps list.case u Let_def byte_in_def low6_def using assms by simp
qed

lemma utf8_next_4:
  assumes "A \<le> 4" "B < 64" "C < 64" "D < 64" and "A = 0 \<Longrightarrow> 16 \<le> B" and "A = 4 \<Longrightarrow> B \<le> 15"
  shows "utf8_next (byte_of (0xF0 + A) # byte_of (0x80 + B) # byte_of (0x80 + C) # byte_of (0x80 + D) # bs) =
         Some (A * 262144 + B * 4096 + C * 64 + D, bs)"
proof -
  have u: "unat (byte_of (0xF0 + A)) = 0xF0 + A" "unat (byte_of (0x80 + B)) = 0x80 + B"
    "unat (byte_of (0x80 + C)) = 0x80 + C" "unat (byte_of (0x80 + D)) = 0x80 + D"
    using assms by simp_all
  show ?thesis
    unfolding utf8_next.simps list.case u Let_def byte_in_def low6_def using assms by simp
qed

lemma base64_digits:
  fixes n :: nat
  shows "n = n div 64 * 64 + n mod 64"
    and "n = n div 4096 * 4096 + n div 64 mod 64 * 64 + n mod 64"
    and "n = n div 262144 * 262144 + n div 4096 mod 64 * 4096 + n div 64 mod 64 * 64 + n mod 64"
proof -
  have "n div 262144 * 64 + n div 4096 mod 64 = n div 4096"
    "n div 4096 * 64 + n div 64 mod 64 = n div 64" "n div 64 * 64 + n mod 64 = n"
    using div_mult_mod_eq[of "n div 4096" 64] div_mult_mod_eq[of "n div 64" 64]
    by (simp_all add: div_mult2_eq[symmetric])
  then show "n = n div 64 * 64 + n mod 64"
    and "n = n div 4096 * 4096 + n div 64 mod 64 * 64 + n mod 64"
    and "n = n div 262144 * 262144 + n div 4096 mod 64 * 4096 + n div 64 mod 64 * 64 + n mod 64"
    by linarith+
qed

lemma utf8_next_bytes:
  assumes "scalar n"
  shows "utf8_next (utf8_bytes n @ bs) = Some (n, bs)"
proof -
  consider "n < 0x80" | "0x80 \<le> n" "n < 0x800" | "0x800 \<le> n" "n < 0x10000" | "0x10000 \<le> n" "n < 0x110000"
    using assms unfolding scalar_def by linarith
  then show ?thesis
  proof cases
    case 1
    then show ?thesis by (simp add: utf8_bytes_def)
  next
    case 2
    define A B where "A = n div 64" "B = n mod 64"
    then have "n = A * 64 + B" "2 \<le> A" "A < 32" "B < 64" "utf8_bytes n = [byte_of (0xC0 + A), byte_of (0x80 + B)]"
      using 2 base64_digits(1)[of n] by (auto simp: utf8_bytes_def)
    with utf8_next_2[of A B bs] show ?thesis by simp
  next
    case 3
    define A B C where abc: "A = n div 4096" "B = n div 64 mod 64" "C = n mod 64"
    have e: "n = A * 4096 + B * 64 + C"
      unfolding abc by (rule base64_digits)
    have r: "A < 16" "B < 64" "C < 64"
      using 3 by (auto simp: abc)
    have "A = 0 \<Longrightarrow> 32 \<le> B" "A = 13 \<Longrightarrow> B \<le> 31"
      using e r 3(1) assms by (auto simp: scalar_def)
    note next3 = utf8_next_3[OF r this, of bs, folded e]
    have "utf8_bytes n = [byte_of (0xE0 + A), byte_of (0x80 + B), byte_of (0x80 + C)]"
      using 3 by (simp add: utf8_bytes_def abc)
    then show ?thesis
      by (simp only: append_Cons append_Nil next3)
  next
    case 4
    define A B C D where abcd: "A = n div 262144" "B = n div 4096 mod 64" "C = n div 64 mod 64" "D = n mod 64"
    have e: "n = A * 262144 + B * 4096 + C * 64 + D"
      unfolding abcd by (rule base64_digits)
    have r: "A \<le> 4" "B < 64" "C < 64" "D < 64"
      using 4 by (auto simp: abcd)
    have "A = 0 \<Longrightarrow> 16 \<le> B" "A = 4 \<Longrightarrow> B \<le> 15"
      using e r 4 by simp_all
    note next4 = utf8_next_4[OF r this, of bs, folded e]
    have "utf8_bytes n = [byte_of (0xF0 + A), byte_of (0x80 + B), byte_of (0x80 + C), byte_of (0x80 + D)]"
      using 4 by (simp add: utf8_bytes_def abcd)
    then show ?thesis
      by (simp only: append_Cons append_Nil next4)
  qed
qed

lemma utf8_bytes_nonempty: "utf8_bytes n \<noteq> []"
  by (simp add: utf8_bytes_def)

lemma utf8_decode_bytes:
  "\<forall>n \<in> set ns. scalar n \<Longrightarrow> utf8_decode (concat (map utf8_bytes ns)) = Some ns"
proof (induction ns)
  case Nil
  show ?case by (simp add: utf8_decode.simps)
next
  case (Cons n ns)
  then show ?case
    by (subst utf8_decode.simps) (simp add: utf8_bytes_nonempty utf8_next_bytes)
qed

lemma decode_encode: "textDecoder_decode (textEncoder_encode s) = Some (concat (map code_units (code_points s)))"
  by (simp add: textDecoder_decode_def textEncoder_encode_def utf8_decode_bytes scalar_code_points)

lemma units_of_unit: "code_units (unat (u :: 16 word)) = [u]"
  by (simp add: code_units_def)

lemma units_of_pair:
  assumes "is_high u" and "is_low v"
  shows "code_units (pair_value u v) = [u, v]"
proof -
  let ?a = "unat u - 0xD800" and ?b = "unat v - 0xDC00"
  have b: "?b < 0x400" and a: "unat u = 0xD800 + ?a" and v: "unat v = 0xDC00 + ?b"
    using assms by (auto simp: is_high_def is_low_def)
  have "(?a * 0x400 + ?b) div 0x400 = ?a" "(?a * 0x400 + ?b) mod 0x400 = ?b"
    using b by auto
  moreover have "word_of_nat (0xD800 + ?a) = u" "word_of_nat (0xDC00 + ?b) = v"
    using arg_cong[OF a, of "word_of_nat :: nat \<Rightarrow> 16 word"]
      arg_cong[OF v, of "word_of_nat :: nat \<Rightarrow> 16 word"] by simp_all
  ultimately show ?thesis
    by (simp add: code_units_def pair_value_def)
qed

lemma roundtrip_units: "well_formed s \<Longrightarrow> concat (map code_units (code_points s)) = s"
  by (induction s rule: well_formed.induct) (auto simp: units_of_unit units_of_pair split: if_splits)

lemma units_of_replacement: "is_high u \<or> is_low u \<Longrightarrow> code_units 0xFFFD \<noteq> [u]"
  by (auto simp: code_units_def is_high_def is_low_def)

lemma length_units_unit: "length (code_units (if is_high u \<or> is_low u then 0xFFFD else unat u)) = 1"
  by (simp add: code_units_def)

lemma units_roundtrip_only: "concat (map code_units (code_points s)) = s \<Longrightarrow> well_formed s"
proof (induction s rule: well_formed.induct)
  case (2 u)
  then show ?case using units_of_replacement[of u] by (auto split: if_splits)
next
  case (3 u v us)
  show ?case
  proof (cases "is_high u \<and> is_low v")
    case True
    with "3.prems" have "concat (map code_units (code_points us)) = us"
      by (simp add: units_of_pair)
    with "3.IH"(1) True show ?thesis by simp
  next
    case False
    let ?n = "if is_high u \<or> is_low u then 0xFFFD else unat u"
    obtain w where w: "code_units ?n = [w]"
      using length_units_unit[of u] by (metis One_nat_def length_0_conv length_Suc_conv)
    with "3.prems" False have "w = u" "concat (map code_units (code_points (v # us))) = v # us"
      by (auto split: if_splits)
    with "3.IH"(2) False w units_of_replacement[of u] show ?thesis by (auto split: if_splits)
  qed
qed simp

lemma base64_read:
  fixes x c :: nat
  assumes "c < 64"
  shows "(x * 64 + c) div 64 = x" and "(x * 64 + c) mod 64 = c"
  using assms by simp_all

lemma utf8_next_inverse:
  assumes "utf8_next bs = Some (n, r)"
  shows "scalar n \<and> bs = utf8_bytes n @ r"
proof -
  have low6: "unat (b :: byte) = 0x80 + low6 b \<and> low6 b < 64" if "byte_in lo hi b" "0x80 \<le> lo" "hi \<le> 0xBF" for b lo hi
    using that by (auto simp: byte_in_def low6_def)
  have byte: "byte_of m = b \<longleftrightarrow> unat b = m" if "m < 256" for b m
    using that by (auto simp: byte_of_def unat_of_nat)
  have byte': "b = byte_of m \<longleftrightarrow> unat b = m" if "m < 256" for b m
    using byte[OF that] by auto
  obtain b bs' where b: "bs = b # bs'" using assms by (cases bs) auto
  let ?n = "unat b"
  consider "?n < 0x80" "n = ?n" "r = bs'"
    | b1 where "0xC2 \<le> ?n" "?n \<le> 0xDF" "bs' = b1 # r" "byte_in 0x80 0xBF b1" "n = (?n - 0xC0) * 64 + low6 b1"
    | b1 b2 where "0xE0 \<le> ?n" "?n \<le> 0xEF" "bs' = b1 # b2 # r"
        "byte_in (if ?n = 0xE0 then 0xA0 else 0x80) (if ?n = 0xED then 0x9F else 0xBF) b1" "byte_in 0x80 0xBF b2"
        "n = (?n - 0xE0) * 4096 + low6 b1 * 64 + low6 b2"
    | b1 b2 b3 where "0xF0 \<le> ?n" "?n \<le> 0xF4" "bs' = b1 # b2 # b3 # r"
        "byte_in (if ?n = 0xF0 then 0x90 else 0x80) (if ?n = 0xF4 then 0x8F else 0xBF) b1" "byte_in 0x80 0xBF b2"
        "byte_in 0x80 0xBF b3"
        "n = (?n - 0xF0) * 262144 + low6 b1 * 4096 + low6 b2 * 64 + low6 b3"
    using assms unfolding b utf8_next.simps Let_def
    by (fastforce split: if_split_asm list.splits)
  then show ?thesis
  proof cases
    case 1
    then show ?thesis by (simp add: scalar_def utf8_bytes_def b byte byte')
  next
    case 2
    define A where "A = ?n - 0xC0"
    have "?n = 0xC0 + A" "2 \<le> A" "A < 32" using 2 by (auto simp: A_def)
    moreover note low6[OF 2(4)]
    moreover have "n = A * 64 + low6 b1" using 2 by (simp add: A_def)
    ultimately have "0x80 \<le> n" "n < 0x800" "n div 64 = A" "n mod 64 = low6 b1" by auto
    with \<open>?n = 0xC0 + A\<close> low6[OF 2(4)] 2 show ?thesis
      by (simp add: scalar_def utf8_bytes_def b byte byte')
  next
    case 3
    define A where "A = ?n - 0xE0"
    have A: "?n = 0xE0 + A" "A < 16" using 3 by (auto simp: A_def)
    have 1: "unat b1 = 0x80 + low6 b1" "low6 b1 < 64"
      using low6[OF 3(4)] by (auto split: if_splits)
    have 2: "unat b2 = 0x80 + low6 b2" "low6 b2 < 64"
      using low6[OF 3(5)] by auto
    have n: "n = A * 4096 + low6 b1 * 64 + low6 b2" using 3 by (simp add: A_def)
    have "A = 0 \<Longrightarrow> 32 \<le> low6 b1" "A = 13 \<Longrightarrow> low6 b1 < 32"
      using 3(4) A 1 by (auto simp: byte_in_def split: if_splits)
    then have lo: "0x800 \<le> n" and "A < 13 \<Longrightarrow> n < 0xD800" "A = 13 \<Longrightarrow> n < 0xD800" "13 < A \<Longrightarrow> 0xDFFF < n"
      using n A(2) 1(2) 2(2) by (cases "A = 0"; simp)+
    then have "n < 0xD800 \<or> 0xDFFF < n" by (cases A "13 :: nat" rule: linorder_cases) blast+
    moreover have "n < 0x10000"
      using n A(2) 1(2) 2(2) by linarith
    ultimately have r: "0x800 \<le> n" "n < 0x10000" "scalar n"
      using lo by (auto simp: scalar_def)
    have "n = (A * 64 + low6 b1) * 64 + low6 b2" using n by simp
    then have "n div 64 = A * 64 + low6 b1" "n mod 64 = low6 b2"
      by (simp_all only: base64_read 2(2))
    moreover from this have "n div 4096 = A" "n div 64 mod 64 = low6 b1"
      using div_mult2_eq[of n 64 64] 1(2) by simp_all
    ultimately show ?thesis
      using r A 1 2 3(3) by (simp add: utf8_bytes_def b byte byte')
  next
    case 4
    define A where "A = ?n - 0xF0"
    have A: "?n = 0xF0 + A" "A \<le> 4" using 4 by (auto simp: A_def)
    have 1: "unat b1 = 0x80 + low6 b1" "low6 b1 < 64"
      using low6[OF 4(4)] by (auto split: if_splits)
    have 2: "unat b2 = 0x80 + low6 b2" "low6 b2 < 64"
      using low6[OF 4(5)] by auto
    have 3: "unat b3 = 0x80 + low6 b3" "low6 b3 < 64"
      using low6[OF 4(6)] by auto
    have n: "n = A * 262144 + low6 b1 * 4096 + low6 b2 * 64 + low6 b3" using 4 by (simp add: A_def)
    have "A = 0 \<Longrightarrow> 16 \<le> low6 b1" "A = 4 \<Longrightarrow> low6 b1 < 16"
      using 4(4) A 1 by (auto simp: byte_in_def split: if_splits)
    then have "0x10000 \<le> n"
      using n by (cases "A = 0") simp_all
    moreover have "n < 0x110000"
      using n A(2) 1(2) 2(2) 3(2) \<open>A = 4 \<Longrightarrow> low6 b1 < 16\<close> by (cases "A = 4") linarith+
    ultimately have r: "0x10000 \<le> n" "n < 0x110000" by simp_all
    then have "scalar n" by (simp add: scalar_def)
    have "n = ((A * 64 + low6 b1) * 64 + low6 b2) * 64 + low6 b3" using n by simp
    then have d1: "n div 64 = (A * 64 + low6 b1) * 64 + low6 b2" "n mod 64 = low6 b3"
      by (simp_all only: base64_read 3(2))
    then have d2: "n div 4096 = A * 64 + low6 b1" "n div 64 mod 64 = low6 b2"
      using div_mult2_eq[of n 64 64] using 2(2) by (simp_all add: base64_read[OF 2(2)] del: distrib_right_numeral)
    then have "n div 262144 = A" "n div 4096 mod 64 = low6 b1"
      using div_mult2_eq[of n 4096 64] using 1(2) by (simp_all add: base64_read[OF 1(2)] del: distrib_right_numeral)
    with d1(2) d2(2) r \<open>scalar n\<close> A 1 2 3 4(3) show ?thesis
      by (simp add: utf8_bytes_def b byte byte')
  qed
qed

lemma utf8_decode_inverse:
  "utf8_decode bs = Some ns \<Longrightarrow> (\<forall>n \<in> set ns. scalar n) \<and> concat (map utf8_bytes ns) = bs"
proof (induction bs arbitrary: ns rule: utf8_decode.induct)
  case (1 bs)
  show ?case
  proof (cases "bs = []")
    case True
    with 1(2) show ?thesis by (simp add: utf8_decode.simps)
  next
    case False
    with 1(2) obtain n r ns' where n: "utf8_next bs = Some (n, r)" "utf8_decode r = Some ns'" "ns = n # ns'"
      by (subst (asm) utf8_decode.simps) (auto split: option.splits)
    from 1(1)[OF False n(1) refl n(2)] utf8_next_inverse[OF n(1)] n(3) show ?thesis by auto
  qed
qed

lemma code_units_low: "n < 0x10000 \<Longrightarrow> code_units n = [word_of_nat n] \<and> unat (word_of_nat n :: 16 word) = n"
  by (simp add: code_units_def unat_of_nat)

lemma code_units_scalar:
  assumes "scalar n"
  shows "(\<exists>u. code_units n = [u] \<and> unat u = n \<and> \<not> is_high u \<and> \<not> is_low u) \<or>
         (\<exists>u v. code_units n = [u, v] \<and> is_high u \<and> is_low v \<and> pair_value u v = n)"
proof (cases "n < 0x10000")
  case True
  with assms code_units_low[OF True] show ?thesis
    by (auto simp: scalar_def is_high_def is_low_def)
next
  case False
  define a b where ab: "a = (n - 0x10000) div 0x400" "b = (n - 0x10000) mod 0x400"
  have n: "n = 0x10000 + a * 0x400 + b" unfolding ab using False by simp
  have "a < 0x400" "b < 0x400"
    using assms False by (auto simp: ab scalar_def)
  then have "unat (word_of_nat (0xD800 + a) :: 16 word) = 0xD800 + a" "unat (word_of_nat (0xDC00 + b) :: 16 word) = 0xDC00 + b"
    by (simp_all add: unat_of_nat del: of_nat_add)
  with \<open>a < 0x400\<close> \<open>b < 0x400\<close> n False show ?thesis
    by (auto simp: code_units_def is_high_def is_low_def pair_value_def simp flip: ab)
qed

lemma code_points_not_high:
  "\<not> is_high u \<Longrightarrow> \<not> is_low u \<Longrightarrow> code_points (u # us) = unat u # code_points us"
  by (cases us) auto

lemma code_points_units: "\<forall>n \<in> set ns. scalar n \<Longrightarrow> code_points (concat (map code_units ns)) = ns"
proof (induction ns)
  case (Cons n ns)
  with code_units_scalar[of n] show ?case
    by (auto simp: code_points_not_high)
qed simp

lemma encode_decode: "textDecoder_decode bs = Some s \<Longrightarrow> textEncoder_encode s = bs"
  by (auto simp: textDecoder_decode_def textEncoder_encode_def dest!: utf8_decode_inverse simp: code_points_units)

subsection \<open>Property\<close>

text \<open>The decoder is the exact inverse of the encoder on the strings whose surrogates are all
  paired: it accepts a byte sequence with result \<open>s\<close> if and only if \<open>s\<close> is such a string and the
  sequence is its encoding. So no other byte sequence (overlong, truncated, a surrogate) is accepted,
  and a string with a lone surrogate never comes back unchanged.\<close>

theorem utf8_roundtrip:
  "textDecoder_decode bs = Some s \<longleftrightarrow> well_formed s \<and> textEncoder_encode s = bs"
  using encode_decode[of bs s] decode_encode[of s] roundtrip_units[of s] units_roundtrip_only[of s] by auto

end
