(* ===== verification/Truncate.thy ===== *)
theory Truncate
  imports Utf8 JsonText
begin

section \<open>Truncated output\<close>

text \<open>
  \<^verbatim>\<open>packages/agent/src/harness/utils/truncate.ts\<close>: tool output is cut to whole lines within a number of
  lines and a number of UTF-8 bytes, from its head or its tail. Text is the UTF-16 code units of a
  JavaScript string; the limits are natural numbers.
\<close>

subsection \<open>Byte lengths\<close>

definition DEFAULT_MAX_LINES :: nat where "DEFAULT_MAX_LINES = 2000"

definition DEFAULT_MAX_BYTES :: nat where "DEFAULT_MAX_BYTES = 50 * 1024"

definition GREP_MAX_LINE_LENGTH :: nat where "GREP_MAX_LINE_LENGTH = 500"

definition unit_bytes :: "16 word \<Rightarrow> nat" where
  "unit_bytes u = (if unat u \<le> 0x7F then 1 else if unat u \<le> 0x7FF then 2 else 3)"

text \<open>The loop from the first unit that is not ASCII.\<close>

fun count_bytes :: "js_string \<Rightarrow> nat" where
  "count_bytes [] = 0"
| "count_bytes [u] = unit_bytes u"
| "count_bytes (u # v # us) =
     (if is_high u \<and> is_low v then 4 + count_bytes us else unit_bytes u + count_bytes (v # us))"

text \<open>With and without a runtime that has a \<open>Buffer\<close>.\<close>

definition utf8ByteLength :: "bool \<Rightarrow> js_string \<Rightarrow> nat" where
  "utf8ByteLength runtimeBuffer s =
     (if runtimeBuffer then length (textEncoder_encode s)
      else
        (case find (\<lambda>i. unat (s ! i) > 0x7F) [0..<length s] of
           None \<Rightarrow> length s
         | Some firstNonAscii \<Rightarrow> firstNonAscii + count_bytes (drop firstNonAscii s)))"

lemma length_utf8_bytes: "length (utf8_bytes n) = (if n < 0x80 then 1 else if n < 0x800 then 2 else if n < 0x10000 then 3 else 4)"
  by (simp add: utf8_bytes_def)

lemma unit_bytes_eq: "unit_bytes u = length (utf8_bytes (if is_high u \<or> is_low u then 0xFFFD else unat u))"
  using unat_16[of u] by (auto simp: unit_bytes_def length_utf8_bytes is_high_def is_low_def)

lemma count_bytes_encode: "count_bytes s = length (textEncoder_encode s)"
proof (induction s rule: count_bytes.induct)
  case (3 u v us)
  have "\<not> pair_value u v < 0x10000" by (simp add: pair_value_def)
  with 3 show ?case by (simp add: textEncoder_encode_def unit_bytes_eq length_utf8_bytes)
qed (simp_all add: textEncoder_encode_def unit_bytes_eq)

lemma count_bytes_Cons: "\<not> is_high u \<Longrightarrow> count_bytes (u # us) = unit_bytes u + count_bytes us"
  by (cases us) auto

lemma count_bytes_ascii:
  "\<forall>u \<in> set s. unat u \<le> 0x7F \<Longrightarrow> count_bytes (s @ t) = length s + count_bytes t"
proof (induction s)
  case (Cons u s)
  then have "\<not> is_high u" "unit_bytes u = 1" by (auto simp: is_high_def unit_bytes_def)
  with Cons count_bytes_Cons[of u "s @ t"] show ?case by simp
qed simp

lemma byte_length_count [simp]: "utf8ByteLength b s = count_bytes s"
proof (cases b)
  case False
  show ?thesis
  proof (cases "find (\<lambda>i. unat (s ! i) > 0x7F) [0..<length s]")
    case None
    then have "\<forall>i < length s. unat (s ! i) \<le> 0x7F" by (simp add: find_None_iff not_less) (meson not_le)
    then have "\<forall>u \<in> set s. unat u \<le> 0x7F" by (auto simp: in_set_conv_nth)
    with False None count_bytes_ascii[of s "[]"] show ?thesis
      by (simp add: utf8ByteLength_def)
  next
    case (Some i)
    then have "i < length s" "\<forall>j < i. unat (s ! j) \<le> 0x7F"
      by (auto simp: find_Some_iff not_less)
    then have "\<forall>u \<in> set (take i s). unat u \<le> 0x7F" "length (take i s) = i" by (auto simp: in_set_conv_nth)
    with False Some count_bytes_ascii[of "take i s" "drop i s"] show ?thesis
      by (simp add: utf8ByteLength_def)
  qed
qed (simp add: utf8ByteLength_def count_bytes_encode)

lemma count_bytes_append:
  "\<not> (xs \<noteq> [] \<and> ys \<noteq> [] \<and> is_high (last xs) \<and> is_low (hd ys)) \<Longrightarrow> count_bytes (xs @ ys) = count_bytes xs + count_bytes ys"
proof (induction xs rule: count_bytes.induct)
  case (2 u)
  then show ?case by (cases ys) auto
next
  case (3 u v us)
  then show ?case by (cases us) auto
qed simp

subsection \<open>Lines\<close>

text \<open>\<open>content.split("\n")\<close>\<close>

fun split_lines :: "js_string \<Rightarrow> js_string list" where
  "split_lines [] = [[]]"
| "split_lines (u # us) =
     (if u = 10 then [] # split_lines us
      else (case split_lines us of [] \<Rightarrow> [[u]] | l # ls \<Rightarrow> (u # l) # ls))"

definition splitLinesForCounting :: "js_string \<Rightarrow> js_string list" where
  "splitLinesForCounting s =
     (if s = [] then [] else if last s = 10 then butlast (split_lines s) else split_lines s)"

fun replaceUnpairedSurrogates :: "js_string \<Rightarrow> js_string" where
  "replaceUnpairedSurrogates [] = []"
| "replaceUnpairedSurrogates [u] = (if is_high u \<or> is_low u then [0xFFFD] else [u])"
| "replaceUnpairedSurrogates (u # v # us) =
     (if is_high u \<and> is_low v then u # v # replaceUnpairedSurrogates us
      else (if is_high u \<or> is_low u then 0xFFFD else u) # replaceUnpairedSurrogates (v # us))"

text \<open>
  \<open>formatSize\<close>: the quotient by a power of two is exact, and \<open>toFixed(1)\<close> rounds it to the nearest
  tenth, the larger one of two.
\<close>

definition tenths :: "nat \<Rightarrow> nat \<Rightarrow> nat" where
  "tenths n unit = (20 * n + unit) div (2 * unit)"

definition fixed_text :: "nat \<Rightarrow> js_string" where
  "fixed_text t = js_of (show_nat (t div 10) @ ''.'' @ show_nat (t mod 10))"

definition formatSize :: "nat \<Rightarrow> js_string" where
  "formatSize bytes =
     (if bytes < 1024 then js_of (show_nat bytes @ ''B'')
      else if bytes < 1024 * 1024 then fixed_text (tenths bytes 1024) @ js_of ''KB''
      else fixed_text (tenths bytes (1024 * 1024)) @ js_of ''MB'')"

subsection \<open>Truncation\<close>

datatype limit_kind = LineLimit | ByteLimit

record truncation_result =
  trContent :: js_string
  trTruncated :: bool
  trTruncatedBy :: "limit_kind option"
  trTotalLines :: nat
  trTotalBytes :: nat
  trOutputLines :: nat
  trOutputBytes :: nat
  trLastLinePartial :: bool
  trFirstLineExceedsLimit :: bool
  trMaxLines :: nat
  trMaxBytes :: nat

record truncation_options =
  optMaxLines :: "nat option"
  optMaxBytes :: "nat option"

definition no_options :: truncation_options where
  "no_options = \<lparr>optMaxLines = None, optMaxBytes = None\<rparr>"

definition max_lines :: "truncation_options \<Rightarrow> nat" where
  "max_lines opts = (case optMaxLines opts of None \<Rightarrow> DEFAULT_MAX_LINES | Some n \<Rightarrow> n)"

definition max_bytes :: "truncation_options \<Rightarrow> nat" where
  "max_bytes opts = (case optMaxBytes opts of None \<Rightarrow> DEFAULT_MAX_BYTES | Some n \<Rightarrow> n)"

definition untruncated :: "bool \<Rightarrow> js_string \<Rightarrow> truncation_options \<Rightarrow> truncation_result" where
  "untruncated b s opts =
     (let n = length (splitLinesForCounting s); k = utf8ByteLength b s
      in \<lparr>trContent = s, trTruncated = False, trTruncatedBy = None, trTotalLines = n, trTotalBytes = k,
          trOutputLines = n, trOutputBytes = k, trLastLinePartial = False, trFirstLineExceedsLimit = False,
          trMaxLines = max_lines opts, trMaxBytes = max_bytes opts\<rparr>)"

text \<open>
  The loops that collect lines while they fit: the lines, their bytes with the newlines between them,
  and whether the byte limit ended the loop. Lines come from the head or, reversed, from the tail.
\<close>

fun take_lines :: "bool \<Rightarrow> nat \<Rightarrow> nat \<Rightarrow> bool \<Rightarrow> js_string list \<Rightarrow> js_string list \<times> nat \<times> bool" where
  "take_lines b limit bytes first [] = ([], bytes, False)"
| "take_lines b limit bytes first (l # ls) =
     (let lineBytes = utf8ByteLength b l + (if first then 0 else 1)
      in if limit < bytes + lineBytes then ([], bytes, True)
         else (case take_lines b limit (bytes + lineBytes) False ls of (out, n, stopped) \<Rightarrow> (l # out, n, stopped)))"

definition truncateHead :: "bool \<Rightarrow> js_string \<Rightarrow> truncation_options \<Rightarrow> truncation_result" where
  "truncateHead b s opts =
     (let maxLines = max_lines opts; maxBytes = max_bytes opts;
          totalBytes = utf8ByteLength b s; ls = splitLinesForCounting s
      in if length ls \<le> maxLines \<and> totalBytes \<le> maxBytes then untruncated b s opts
         else if maxBytes < utf8ByteLength b (hd ls) then
           \<lparr>trContent = [], trTruncated = True, trTruncatedBy = Some ByteLimit, trTotalLines = length ls,
            trTotalBytes = totalBytes, trOutputLines = 0, trOutputBytes = 0, trLastLinePartial = False,
            trFirstLineExceedsLimit = True, trMaxLines = maxLines, trMaxBytes = maxBytes\<rparr>
         else
           (case take_lines b maxBytes 0 True (take maxLines ls) of (out, n, stopped) \<Rightarrow>
              let reached = (if maxLines \<le> length out \<and> n \<le> maxBytes then LineLimit
                             else if stopped then ByteLimit else LineLimit);
                  content = join [10] out
              in \<lparr>trContent = content, trTruncated = True, trTruncatedBy = Some reached, trTotalLines = length ls,
                  trTotalBytes = totalBytes, trOutputLines = length out, trOutputBytes = utf8ByteLength b content,
                  trLastLinePartial = False, trFirstLineExceedsLimit = False, trMaxLines = maxLines,
                  trMaxBytes = maxBytes\<rparr>))"

text \<open>
  The scan from the end of a string, on its reversed units: how many units fit, and whether one of
  them is an unpaired surrogate.
\<close>

fun keep_units :: "nat \<Rightarrow> nat \<Rightarrow> js_string \<Rightarrow> nat \<times> bool" where
  "keep_units limit bytes [] = (0, False)"
| "keep_units limit bytes [u] =
     (if limit < bytes + unit_bytes u then (0, False) else (1, is_high u \<or> is_low u))"
| "keep_units limit bytes (u # v # us) =
     (if is_low u \<and> is_high v then
        (if limit < bytes + 4 then (0, False)
         else (case keep_units limit (bytes + 4) us of (k, unpaired) \<Rightarrow> (k + 2, unpaired)))
      else if limit < bytes + unit_bytes u then (0, False)
      else (case keep_units limit (bytes + unit_bytes u) (v # us) of
              (k, unpaired) \<Rightarrow> (k + 1, unpaired \<or> is_high u \<or> is_low u)))"

definition truncateStringToBytesFromEnd :: "js_string \<Rightarrow> nat \<Rightarrow> js_string" where
  "truncateStringToBytesFromEnd s maxBytes =
     (if maxBytes = 0 then []
      else
        (case keep_units maxBytes 0 (rev s) of (k, needsReplacement) \<Rightarrow>
           let output = drop (length s - k) s
           in if needsReplacement then replaceUnpairedSurrogates output else output))"

definition truncateTail :: "bool \<Rightarrow> js_string \<Rightarrow> truncation_options \<Rightarrow> truncation_result" where
  "truncateTail b s opts =
     (let maxLines = max_lines opts; maxBytes = max_bytes opts;
          totalBytes = utf8ByteLength b s; ls = splitLinesForCounting s
      in if length ls \<le> maxLines \<and> totalBytes \<le> maxBytes then untruncated b s opts
         else
           (case take_lines b maxBytes 0 True (take maxLines (rev ls)) of (collected, n, stopped) \<Rightarrow>
              let partial = (stopped \<and> collected = []);
                  out = (if partial then [truncateStringToBytesFromEnd (last ls) maxBytes] else rev collected);
                  bytes = (if partial then utf8ByteLength b (hd out) else n);
                  reached = (if maxLines \<le> length out \<and> bytes \<le> maxBytes then LineLimit
                             else if stopped then ByteLimit else LineLimit);
                  content = join [10] out
              in \<lparr>trContent = content, trTruncated = True, trTruncatedBy = Some reached, trTotalLines = length ls,
                  trTotalBytes = totalBytes, trOutputLines = length out, trOutputBytes = utf8ByteLength b content,
                  trLastLinePartial = partial, trFirstLineExceedsLimit = False, trMaxLines = maxLines,
                  trMaxBytes = maxBytes\<rparr>))"

definition truncateLine :: "js_string \<Rightarrow> nat \<Rightarrow> js_string \<times> bool" where
  "truncateLine line maxChars =
     (if length line \<le> maxChars then (line, False) else (take maxChars line @ js_of ''... [truncated]'', True))"

subsection \<open>Lines that fit\<close>

text \<open>The bytes of joined lines, with a newline before the first one or not.\<close>

fun joined_bytes :: "bool \<Rightarrow> js_string list \<Rightarrow> nat" where
  "joined_bytes first [] = 0"
| "joined_bytes first (l # ls) = count_bytes l + (if first then 0 else 1) + joined_bytes False ls"

lemma joined_bytes_sum: "joined_bytes first ls = sum_list (map count_bytes ls) + (if first then length ls - 1 else length ls)"
  by (induction ls arbitrary: first) auto

lemma not_high_newline [simp]: "\<not> is_high 10" "\<not> is_low 10"
  by (simp_all add: is_high_def is_low_def)

lemma count_bytes_newline: "count_bytes (xs @ 10 # ys) = count_bytes xs + 1 + count_bytes ys"
  using count_bytes_append[of xs "10 # ys"] count_bytes_Cons[of 10 ys] by (simp add: unit_bytes_def)

lemma join_Cons: "ls \<noteq> [] \<Longrightarrow> join [c] (l # ls) = l @ c # join [c] ls"
  by (cases ls) auto

lemma count_bytes_join: "count_bytes (join [10] ls) = joined_bytes True ls"
proof (induction ls)
  case (Cons l ls)
  then show ?case
    by (cases "ls = []") (auto simp: join_Cons count_bytes_newline joined_bytes_sum neq_Nil_conv)
qed simp

lemma take_lines_spec:
  "take_lines b limit bytes first ls = (out, n, stopped) \<Longrightarrow> bytes \<le> limit \<Longrightarrow>
   \<exists>k. out = take k ls \<and> k \<le> length ls \<and> n = bytes + joined_bytes first out \<and> n \<le> limit \<and> (stopped \<longleftrightarrow> k < length ls) \<and>
     (k < length ls \<longrightarrow> limit < bytes + joined_bytes first (take (Suc k) ls))"
proof (induction b limit bytes first ls arbitrary: out n stopped rule: take_lines.induct)
  case (2 b limit bytes first l ls)
  let ?lineBytes = "count_bytes l + (if first then 0 else 1)"
  show ?case
  proof (cases "limit < bytes + ?lineBytes")
    case True
    with 2 show ?thesis by (intro exI[of _ 0]) (auto simp: Let_def)
  next
    case False
    obtain out' n' stopped' where rec: "take_lines b limit (bytes + ?lineBytes) False ls = (out', n', stopped')"
      by (cases "take_lines b limit (bytes + ?lineBytes) False ls") auto
    with False "2.prems"(1) have res: "out = l # out'" "n = n'" "stopped = stopped'" by (auto simp: Let_def)
    from "2.IH"[OF refl _ _ , of out' n' stopped'] rec False obtain k where
      "out' = take k ls" "k \<le> length ls" "n' = bytes + ?lineBytes + joined_bytes False out'" "n' \<le> limit"
      "stopped' \<longleftrightarrow> k < length ls" "k < length ls \<longrightarrow> limit < bytes + ?lineBytes + joined_bytes False (take (Suc k) ls)"
      by auto
    with res show ?thesis by (intro exI[of _ "Suc k"]) auto
  qed
qed auto

lemma join_split: "join [10] (split_lines s) = s"
proof (induction s)
  case (Cons u s)
  have "split_lines s \<noteq> []" by (cases s) (auto split: list.split)
  with Cons show ?case by (cases "split_lines s"; cases "tl (split_lines s)") (auto simp: join_Cons)
qed simp

lemma join_prefix: "n \<le> length ls \<Longrightarrow> \<exists>rest. join [10] ls = join [10] (take n ls) @ rest"
proof (induction n arbitrary: ls)
  case (Suc n)
  then obtain l ls' where ls: "ls = l # ls'" by (cases ls) auto
  with Suc obtain rest where "join [10] ls' = join [10] (take n ls') @ rest" by fastforce
  with ls Suc.prems show ?case
    by (cases "n = 0"; cases "ls' = []") (auto simp: join_Cons)
qed simp


lemma joined_bytes_hd: "ls \<noteq> [] \<Longrightarrow> joined_bytes True (take (Suc 0) ls) = count_bytes (hd ls)"
  by (cases ls) auto

lemma count_lines_bytes:
  assumes "splitLinesForCounting s \<noteq> []"
  shows "\<exists>rest. s = join [10] (splitLinesForCounting s) @ rest \<and> (rest = [] \<or> rest = [10])"
proof (cases "last s = 10")
  case False
  with assms show ?thesis by (auto simp: splitLinesForCounting_def join_split)
next
  case True
  with assms have s: "s \<noteq> []" "splitLinesForCounting s = butlast (split_lines s)"
    by (auto simp: splitLinesForCounting_def split: if_splits)
  have "s \<noteq> [] \<Longrightarrow> last s = 10 \<Longrightarrow> s = join [10] (butlast (split_lines s)) @ [10]"
  proof (induction s)
    case (Cons u s)
    show ?case
    proof (cases "s = []")
      case False
      then have "last s = 10" using Cons.prems by simp
      with Cons.IH False have IH: "s = join [10] (butlast (split_lines s)) @ [10]" by blast
      obtain l ls where ls: "split_lines s = l # ls" by (cases "split_lines s") (use False IH in auto)
      show ?thesis
      proof (cases ls)
        case Nil
        with IH ls False have "s = [10]" by simp
        with ls Nil show ?thesis by simp
      next
        case (Cons m ms)
        with IH ls have "s = join [10] (l # butlast ls) @ [10]" by simp
        with ls Cons show ?thesis by (cases "butlast ls") auto
      qed
    qed (use Cons.prems in simp)
  qed simp
  with True s show ?thesis by auto
qed

lemma length_split_lines: "length (split_lines s) = Suc (length (filter (\<lambda>u. u = 10) s))"
  by (induction s) (auto split: list.split)

lemma lines_nonempty: "s \<noteq> [] \<Longrightarrow> splitLinesForCounting s \<noteq> []"
proof -
  assume s: "s \<noteq> []"
  have "split_lines s \<noteq> []" by (cases s) (auto split: list.split)
  moreover have "butlast (split_lines s) \<noteq> []" if "last s = 10"
  proof -
    have "10 \<in> set (filter (\<lambda>u. u = 10) s)" using last_in_set[OF s] that by simp
    then have "0 < length (filter (\<lambda>u. u = 10) s)" by (rule length_pos_if_in_set)
    then have "1 \<le> length (butlast (split_lines s))" unfolding length_butlast length_split_lines by linarith
    then show ?thesis by (cases "butlast (split_lines s)") simp_all
  qed
  ultimately show ?thesis using s by (simp add: splitLinesForCounting_def)
qed

text \<open>What a result says of the text and of the options.\<close>

definition totals_reported :: "js_string \<Rightarrow> truncation_options \<Rightarrow> truncation_result \<Rightarrow> bool" where
  "totals_reported s opts r \<longleftrightarrow>
     trTotalLines r = length (splitLinesForCounting s) \<and> trTotalBytes r = length (textEncoder_encode s) \<and>
     trMaxLines r = max_lines opts \<and> trMaxBytes r = max_bytes opts"

definition kept_whole :: "js_string \<Rightarrow> truncation_result \<Rightarrow> bool" where
  "kept_whole s r \<longleftrightarrow>
     \<not> trTruncated r \<and> trTruncatedBy r = None \<and> trContent r = s \<and> trOutputLines r = trTotalLines r \<and>
     trOutputBytes r = trTotalBytes r \<and> \<not> trLastLinePartial r \<and> \<not> trFirstLineExceedsLimit r"

text \<open>C29: Truncating from the head keeps the text when it is within both limits, and otherwise its first
  lines, whole, within both limits and as many as fit: another line would exceed the number of lines
  or the number of bytes. When not even the first line fits nothing is kept, and the result says so. The
  result reports the lines and bytes of the text and of what is kept, and the limits; it says that the bytes
  ended it when the first line does not fit or a further line would have been allowed but not its bytes,
  and that the lines did otherwise.\<close>

theorem truncate_head:
  assumes "truncateHead b s opts = r"
  shows "totals_reported s opts r \<and>
    (if length (splitLinesForCounting s) \<le> max_lines opts \<and> length (textEncoder_encode s) \<le> max_bytes opts
      then kept_whole s r
      else trTruncated r \<and> trContent r = join [10] (take (trOutputLines r) (splitLinesForCounting s)) \<and>
        (\<exists>rest. s = trContent r @ rest) \<and>
        trOutputLines r \<le> max_lines opts \<and> trOutputLines r \<le> length (splitLinesForCounting s) \<and>
        trOutputBytes r = length (textEncoder_encode (trContent r)) \<and>
        trOutputBytes r \<le> max_bytes opts \<and>
        (trOutputLines r < max_lines opts \<and> trOutputLines r < length (splitLinesForCounting s) \<longrightarrow>
          max_bytes opts < length (textEncoder_encode (join [10] (take (Suc (trOutputLines r)) (splitLinesForCounting s))))) \<and>
        (trFirstLineExceedsLimit r \<longleftrightarrow> max_bytes opts < length (textEncoder_encode (hd (splitLinesForCounting s)))) \<and>
        (trFirstLineExceedsLimit r \<longrightarrow> trOutputLines r = 0) \<and> \<not> trLastLinePartial r \<and>
        trTruncatedBy r = Some (if trFirstLineExceedsLimit r \<or>
            (trOutputLines r < max_lines opts \<and> trOutputLines r < length (splitLinesForCounting s))
          then ByteLimit else LineLimit))"
proof -
  let ?ls = "splitLinesForCounting s"
  show ?thesis
  proof (cases "length ?ls \<le> max_lines opts \<and> count_bytes s \<le> max_bytes opts")
    case True
    with assms show ?thesis
      by (auto simp: truncateHead_def untruncated_def Let_def count_bytes_encode[symmetric] totals_reported_def kept_whole_def)
  next
    case False
    then have "s \<noteq> []" by (auto simp: splitLinesForCounting_def)
    then have ls: "?ls \<noteq> []" by (rule lines_nonempty)
    from count_lines_bytes[OF ls] obtain end' where whole: "s = join [10] ?ls @ end'" by blast
    show ?thesis
    proof (cases "max_bytes opts < count_bytes (hd ?ls)")
      case True
      with False assms show ?thesis
        by (auto simp: truncateHead_def Let_def count_bytes_encode[symmetric] count_bytes_join joined_bytes_hd[OF ls] totals_reported_def)
    next
      case fits: False
      obtain out n stopped where run: "take_lines b (max_bytes opts) 0 True (take (max_lines opts) ?ls) = (out, n, stopped)"
        by (cases "take_lines b (max_bytes opts) 0 True (take (max_lines opts) ?ls)") auto
      from take_lines_spec[OF run le0] obtain k where k: "out = take k (take (max_lines opts) ?ls)"
        "k \<le> length (take (max_lines opts) ?ls)" "n = 0 + joined_bytes True out" "n \<le> max_bytes opts"
        "k < length (take (max_lines opts) ?ls) \<longrightarrow>
          max_bytes opts < 0 + joined_bytes True (take (Suc k) (take (max_lines opts) ?ls))"
        "stopped \<longleftrightarrow> k < length (take (max_lines opts) ?ls)"
        by blast
      then have "k \<le> max_lines opts" "k \<le> length ?ls" by simp_all
      with k(1) have kept: "out = take k ?ls" "length out = k" "k \<le> max_lines opts" "k \<le> length ?ls"
        by (simp_all add: min_absorb1)
      have more: "k < max_lines opts \<and> k < length ?ls \<longrightarrow> max_bytes opts < joined_bytes True (take (Suc k) ?ls)"
        using k(5) by (simp add: min_absorb1)
      from join_prefix[OF kept(4)] obtain rest where "join [10] ?ls = join [10] (take k ?ls) @ rest" by blast
      with whole have prefix: "\<exists>rest. s = join [10] (take k ?ls) @ rest" by (metis append.assoc)
      have r: "trContent r = join [10] (take k ?ls)" "trTruncated r" "trOutputLines r = k"
        "trOutputBytes r = joined_bytes True (take k ?ls)" "\<not> trFirstLineExceedsLimit r" "\<not> trLastLinePartial r"
        "totals_reported s opts r" "trTruncatedBy r = Some (if k < max_lines opts \<and> k < length ?ls then ByteLimit else LineLimit)"
        using assms False fits run kept k(4,6)
        by (auto simp: truncateHead_def Let_def count_bytes_join totals_reported_def count_bytes_encode[symmetric])
      show ?thesis
        using False fits more prefix kept(3,4) k(3,4) r(2,5-8)
        unfolding r(1,3,4) count_bytes_encode[symmetric] count_bytes_join kept(1) by auto
    qed
  qed
qed

definition eight_letters :: js_string where
  "eight_letters = js_of ''abcdefgh''"

theorem truncate_head_witness:
  "trTruncated (truncateHead True eight_letters \<lparr>optMaxLines = Some 1, optMaxBytes = Some 3\<rparr>) \<or>
   length (textEncoder_encode eight_letters) \<le> 3"
  using truncate_head[OF refl, where b = True and s = eight_letters and opts = "\<lparr>optMaxLines = Some 1, optMaxBytes = Some 3\<rparr>"]
  by (auto simp: max_bytes_def split: if_splits)

subsection \<open>The end of a string\<close>


definition unpaired :: "js_string \<Rightarrow> bool" where
  "unpaired c \<longleftrightarrow> (\<exists>u. c = [u] \<and> (is_high u \<or> is_low u))"
















lemma unit_bytes_replacement [simp]: "unit_bytes 0xFFFD = 3" "\<not> is_high 0xFFFD" "\<not> is_low 0xFFFD"
  by (simp_all add: unit_bytes_def is_high_def is_low_def)



lemma join_suffix: "n < length ls \<Longrightarrow> \<exists>start. join [10] ls = start @ join [10] (drop n ls)"
proof (induction n arbitrary: ls)
  case (Suc n)
  then obtain l ls' where ls: "ls = l # ls'" "n < length ls'" by (cases ls) auto
  with Suc.IH[of ls'] obtain start where "join [10] ls' = start @ join [10] (drop n ls')" by blast
  with ls show ?case by (intro exI[of _ "l @ 10 # start"]) (cases ls', auto)
qed auto




text \<open>
  A text whose lines all fit but whose final newline does not is reported as cut by the line limit,
  which it does not reach.
\<close>

lemma final_newline_reported_as_lines:
  "let r = truncateHead True [97, 98, 99, 10] \<lparr>optMaxLines = Some 9, optMaxBytes = Some 3\<rparr>
   in trTruncatedBy r = Some LineLimit \<and> trOutputLines r = trTotalLines r \<and> trTotalLines r < trMaxLines r"
  by (simp add: truncateHead_def splitLinesForCounting_def Let_def max_lines_def max_bytes_def unit_bytes_def is_high_def is_low_def)

text \<open>A line that is cut within a limit of one line is reported as cut by the line limit, too.\<close>

lemma cut_line_reported_as_lines:
  "let r = truncateTail True [97, 98, 99] \<lparr>optMaxLines = Some 1, optMaxBytes = Some 2\<rparr>
   in trTruncatedBy r = Some LineLimit \<and> trTotalLines r = 1 \<and> trLastLinePartial r"
  by (simp add: truncateTail_def truncateStringToBytesFromEnd_def splitLinesForCounting_def Let_def max_lines_def max_bytes_def
      unit_bytes_def is_high_def is_low_def)

end
