(* ===== verification/JsonlStorage.thy ===== *)
theory JsonlStorage
  imports JsonlCodec JsonGlue SessionStorage Truncate
begin

section \<open>Sessions in files\<close>

text \<open>
  \<^verbatim>\<open>packages/agent/src/harness/session/jsonl/storage.ts\<close> and
  \<^verbatim>\<open>packages/agent/src/harness/session/jsonl/errors.ts\<close>: a session is a file with a header line and one
  line per mutation, which is appended before the state changes. The file system is the interface of
  \<^verbatim>\<open>packages/agent/src/harness/types.ts\<close>, of which a call works or fails; a write that fails may have
  written a part of its text. Text is cut between code units.
\<close>

subsection \<open>The file system\<close>

record file_error =
  fileCode :: string
  fileMessage :: string

text \<open>What happens to a call: it works, or it fails, a write after so many code units.\<close>

datatype disk_fate = Works | Breaks nat file_error

record disk =
  diskFiles :: "string \<Rightarrow> js_string option"
  diskModified :: "string \<Rightarrow> int"
  diskFates :: "disk_fate list"   \<comment> \<open>of the next calls; the later ones work\<close>

type_synonym 'a io = "disk \<Rightarrow> (session_error + 'a) \<times> disk"

definition next_fate :: "disk \<Rightarrow> disk_fate \<times> disk" where
  "next_fate d = (case diskFates d of [] \<Rightarrow> (Works, d) | f # fs \<Rightarrow> (f, d\<lparr>diskFates := fs\<rparr>))"

definition put_file :: "string \<Rightarrow> js_string option \<Rightarrow> disk \<Rightarrow> disk" where
  "put_file path content d = d\<lparr>diskFiles := (diskFiles d)(path := content)\<rparr>"

definition file_text :: "disk \<Rightarrow> string \<Rightarrow> js_string" where
  "file_text d path = (case diskFiles d path of None \<Rightarrow> [] | Some t \<Rightarrow> t)"

definition writeFile :: "string \<Rightarrow> js_string \<Rightarrow> disk \<Rightarrow> (file_error + unit) \<times> disk" where
  "writeFile path text d =
     (case next_fate d of
        (Works, d) \<Rightarrow> (Inr (), put_file path (Some text) d)
      | (Breaks n e, d) \<Rightarrow> (Inl e, put_file path (Some (take n text)) d))"

definition appendFile :: "string \<Rightarrow> js_string \<Rightarrow> disk \<Rightarrow> (file_error + unit) \<times> disk" where
  "appendFile path text d =
     (case next_fate d of
        (Works, d) \<Rightarrow> (Inr (), put_file path (Some (file_text d path @ text)) d)
      | (Breaks n e, d) \<Rightarrow> (Inl e, put_file path (Some (file_text d path @ take n text)) d))"

definition missing_file :: "string \<Rightarrow> file_error" where
  "missing_file path = \<lparr>fileCode = ''not_found'', fileMessage = path\<rparr>"

definition readTextFile :: "string \<Rightarrow> disk \<Rightarrow> (file_error + js_string) \<times> disk" where
  "readTextFile path d =
     (case next_fate d of
        (Works, d) \<Rightarrow> (case diskFiles d path of None \<Rightarrow> Inl (missing_file path) | Some t \<Rightarrow> Inr t, d)
      | (Breaks n e, d) \<Rightarrow> (Inl e, d))"

definition modified_at :: "string \<Rightarrow> disk \<Rightarrow> (file_error + int) \<times> disk" where
  "modified_at path d =
     (case next_fate d of
        (Works, d) \<Rightarrow> (case diskFiles d path of None \<Rightarrow> Inl (missing_file path) | Some t \<Rightarrow> Inr (diskModified d path), d)
      | (Breaks n e, d) \<Rightarrow> (Inl e, d))"

definition renameFile :: "string \<Rightarrow> string \<Rightarrow> disk \<Rightarrow> (file_error + unit) \<times> disk" where
  "renameFile source destination d =
     (case next_fate d of
        (Works, d) \<Rightarrow>
          (case diskFiles d source of
             None \<Rightarrow> (Inl (missing_file source), d)
           | Some t \<Rightarrow> (Inr (), put_file source None (put_file destination (Some t) d)))
      | (Breaks n e, d) \<Rightarrow> (Inl e, d))"

definition removeFile :: "string \<Rightarrow> disk \<Rightarrow> (file_error + unit) \<times> disk" where
  "removeFile path d =
     (case next_fate d of (Works, d) \<Rightarrow> (Inr (), put_file path None d) | (Breaks n e, d) \<Rightarrow> (Inl e, d))"

subsection \<open>Actions and errors\<close>

definition then_io :: "'a io \<Rightarrow> ('a \<Rightarrow> 'b io) \<Rightarrow> 'b io" where
  "then_io m f d = (case m d of (Inl e, d) \<Rightarrow> (Inl e, d) | (Inr x, d) \<Rightarrow> f x d)"

definition lift_result :: "session_error + 'a \<Rightarrow> 'a io" where
  "lift_result r d = (r, d)"

definition fileResult :: "(disk \<Rightarrow> (file_error + 'a) \<times> disk) \<Rightarrow> string \<Rightarrow> 'a io" where
  "fileResult call message d =
     (case call d of
        (Inr x, d) \<Rightarrow> (Inr x, d)
      | (Inl e, d) \<Rightarrow>
          (Inl (SessionError (if fileCode e = ''not_found'' then NotFound else StorageError)
                 (message @ '': '' @ fileMessage e)), d))"

definition invalidFile :: "string \<Rightarrow> nat \<Rightarrow> string \<Rightarrow> session_error" where
  "invalidFile path line cause =
     SessionError InvalidEntry (''Invalid JSONL v4 session '' @ path @ '': line '' @ show_nat line @ '' '' @ cause)"

text \<open>Populate a sibling file and rename it; on an error remove it, as far as that works, and throw the error.\<close>

definition publishFileAtomically :: "string \<Rightarrow> (string \<Rightarrow> unit io) \<Rightarrow> unit io" where
  "publishFileAtomically destination populate d =
     (let temp = destination @ ''.tmp''
      in case then_io (populate temp) (\<lambda>_.
             fileResult (renameFile temp destination) (''Failed to publish staged file '' @ destination)) d of
           (Inr u, d) \<Rightarrow> (Inr u, d)
         | (Inl e, d) \<Rightarrow> (Inl e, snd (removeFile temp d)))"

subsection \<open>Mutations and their objects\<close>

text \<open>
  The payload of an entry and of a record is an object the storage never looks into: \<open>object_codec\<close>
  says which one, and back. Everything around the payload is written out.
\<close>

record object_codec =
  bodyObject :: "entry_body \<Rightarrow> properties"
  bodyOf :: "properties \<Rightarrow> entry_body"
  recordObject :: "record_body \<Rightarrow> properties"
  recordOf :: "properties \<Rightarrow> record_body"

definition id_value :: "string option \<Rightarrow> js_value" where
  "id_value i = (case i of None \<Rightarrow> JNull | Some i \<Rightarrow> JString (js_of i))"

definition entry_properties :: "object_codec \<Rightarrow> entry \<Rightarrow> properties" where
  "entry_properties oc e =
     literal [(''id'', JString (js_of (entryId e)))] @ bodyObject oc (entryBody e) @
     literal [(''parentId'', id_value (entryParent e)), (''seq'', JNumber (JInt (int (entrySeq e)))),
       (''timestamp'', JNumber (JInt (entryTimestamp e)))]"

definition record_properties :: "object_codec \<Rightarrow> lane_record \<Rightarrow> properties" where
  "record_properties oc r =
     literal [(''id'', JString (js_of (recordId r))), (''lane'', JString (js_of (recordLane r)))] @
     recordObject oc (recordBody r) @
     literal [(''seq'', JNumber (JInt (int (recordSeq r)))), (''timestamp'', JNumber (JInt (recordTimestamp r)))]"

fun json_of :: "object_codec \<Rightarrow> session_mutation \<Rightarrow> json_mutation" where
  "json_of oc (EntryMutation lane e) = JEntry (map_option js_of lane) (entry_properties oc e)"
| "json_of oc (RecordMutation r) = JRecord (record_properties oc r)"
| "json_of oc (LaneMutation seq lane leaf) = JLane (JInt (int seq)) (js_of lane) (map_option js_of leaf)"
| "json_of oc (NameMutation seq n) = JName (JInt (int seq)) (map_option js_of n)"
| "json_of oc (LabelMutation seq target label) = JLabel (JInt (int seq)) (js_of target) (map_option js_of label)"

definition text_value :: "js_value \<Rightarrow> string" where
  "text_value v = (case v of JString s \<Rightarrow> text_of s | _ \<Rightarrow> '''')"

definition number_value :: "js_value \<Rightarrow> int" where
  "number_value v = (case v of JNumber n \<Rightarrow> integer_value n | _ \<Rightarrow> 0)"

fun mutation_of :: "object_codec \<Rightarrow> json_mutation \<Rightarrow> session_mutation" where
  "mutation_of oc (JEntry lane es) =
     EntryMutation (map_option text_of lane)
       \<lparr>entryId = text_value (field ''id'' es), entryBody = bodyOf oc es, entrySeq = nat (number_value (field ''seq'' es)),
        entryParent = (case field ''parentId'' es of JString p \<Rightarrow> Some (text_of p) | _ \<Rightarrow> None),
        entryTimestamp = number_value (field ''timestamp'' es)\<rparr>"
| "mutation_of oc (JRecord es) =
     RecordMutation
       \<lparr>recordId = text_value (field ''id'' es), recordLane = text_value (field ''lane'' es), recordBody = recordOf oc es,
        recordSeq = nat (number_value (field ''seq'' es)), recordTimestamp = number_value (field ''timestamp'' es)\<rparr>"
| "mutation_of oc (JLane seq lane leaf) = LaneMutation (nat (integer_value seq)) (text_of lane) (map_option text_of leaf)"
| "mutation_of oc (JName seq n) = NameMutation (nat (integer_value seq)) (map_option text_of n)"
| "mutation_of oc (JLabel seq target label) =
     LabelMutation (nat (integer_value seq)) (text_of target) (map_option text_of label)"

subsection \<open>The storage\<close>

record jsonl_metadata =
  jsonlId :: js_string
  jsonlCreatedAt :: js_number
  jsonlCwd :: js_string
  jsonlPath :: string
  jsonlModifiedAt :: int
  jsonlParent :: "js_string option"
  jsonlLegacyParent :: "js_string option"
  jsonlData :: "properties option"

definition metadataFromHeader :: "jsonl_header \<Rightarrow> string \<Rightarrow> int \<Rightarrow> jsonl_metadata" where
  "metadataFromHeader h path modifiedAt =
     \<lparr>jsonlId = headerId h, jsonlCreatedAt = headerCreatedAt h, jsonlCwd = headerCwd h, jsonlPath = path,
      jsonlModifiedAt = modifiedAt, jsonlParent = headerParent h, jsonlLegacyParent = headerLegacyParent h,
      jsonlData = headerMetadata h\<rparr>"

record jsonl_storage =
  jsonlMetadata :: jsonl_metadata
  jsonlState :: session_state

definition new_jsonl :: "jsonl_metadata \<Rightarrow> jsonl_storage" where
  "new_jsonl metadata = \<lparr>jsonlMetadata = metadata, jsonlState = newSessionState\<rparr>"

definition create_jsonl :: "string \<Rightarrow> jsonl_header \<Rightarrow> jsonl_storage io" where
  "create_jsonl path h =
     then_io (fileResult (writeFile path (encodeHeader h)) (''Failed to initialize session '' @ path)) (\<lambda>_.
     then_io (fileResult (modified_at path) (''Failed to read session metadata '' @ path)) (\<lambda>t.
     lift_result (Inr (new_jsonl (metadataFromHeader h path t)))))"

text \<open>
  The mutation lines after the lines \<open>seen\<close>: the state, and the valid lines when the last one is torn.
\<close>

fun replay_lines :: "object_codec \<Rightarrow> string \<Rightarrow> js_string list \<Rightarrow> js_string list \<Rightarrow> session_state \<Rightarrow>
    session_error + session_state \<times> js_string list option" where
  "replay_lines oc path seen [] st = Inr (st, None)"
| "replay_lines oc path seen (line # rest) st =
     (case parseMutation line of
        Inl e \<Rightarrow>
          if rest = [] \<and> decodeKind e = JsonlSyntax then Inr (st, Some seen)
          else Inl (invalidFile path (Suc (length seen)) (text_of (decodeMessage e)))
      | Inr m \<Rightarrow>
          (case applyMutation st (mutation_of oc m) invalidMutation of
             Inl (SessionError code message) \<Rightarrow>
               Inl (if code = InvalidEntry then invalidFile path (Suc (length seen)) message else SessionError code message)
           | Inr st \<Rightarrow> replay_lines oc path (seen @ [line]) rest st))"

definition load_jsonl :: "object_codec \<Rightarrow> string \<Rightarrow> jsonl_storage io" where
  "load_jsonl oc path =
     then_io (fileResult (readTextFile path) (''Failed to read session '' @ path)) (\<lambda>content.
     let physical = split_lines content; physical = (if last physical = [] then butlast physical else physical)
     in then_io (lift_result (throw_if (physical = [] \<or> hd physical = []) (invalidFile path 1 ''is missing a header''))) (\<lambda>_.
        then_io (lift_result (case decodeHeader (hd physical) of
            Inl e \<Rightarrow> Inl (invalidFile path 1 (text_of (decodeMessage e))) | Inr h \<Rightarrow> Inr h)) (\<lambda>h.
        then_io (fileResult (modified_at path) (''Failed to read session metadata '' @ path)) (\<lambda>t.
        then_io (lift_result (replay_lines oc path [hd physical] (tl physical) newSessionState)) (\<lambda>(st, torn).
        let s = \<lparr>jsonlMetadata = metadataFromHeader h path t, jsonlState = st\<rparr>
        in case torn of
             Some seen \<Rightarrow>
               then_io (publishFileAtomically path (\<lambda>temp.
                 fileResult (writeFile temp (join [10] seen @ [10])) (''Failed to stage torn-tail repair '' @ path))) (\<lambda>_.
               lift_result (Inr s))
           | None \<Rightarrow>
               then_io (if content = [] \<or> last content \<noteq> 10
                 then fileResult (appendFile path [10]) (''Failed to repair unterminated session tail '' @ path)
                 else lift_result (Inr ())) (\<lambda>_.
               lift_result (Inr s)))))))"

subsection \<open>Operations\<close>

definition appendMutation :: "object_codec \<Rightarrow> jsonl_storage \<Rightarrow> session_mutation \<Rightarrow> unit io" where
  "appendMutation oc s m =
     fileResult (appendFile (jsonlPath (jsonlMetadata s)) (encodeMutation (json_of oc m)))
       (''Failed to append session '' @ jsonlPath (jsonlMetadata s))"

definition commit :: "object_codec \<Rightarrow> jsonl_storage \<Rightarrow> session_mutation \<Rightarrow> jsonl_storage io" where
  "commit oc s m =
     then_io (appendMutation oc s m) (\<lambda>_.
     then_io (lift_result (applyMutation (jsonlState s) m invalidMutation)) (\<lambda>st.
     lift_result (Inr (s\<lparr>jsonlState := st\<rparr>))))"

definition jsonlCreateLane :: "object_codec \<Rightarrow> jsonl_storage \<Rightarrow> string \<Rightarrow> string option \<Rightarrow> jsonl_storage io" where
  "jsonlCreateLane oc s lane leaf =
     then_io (lift_result (validateNewLane (jsonlState s) lane)) (\<lambda>_.
     then_io (lift_result (validateTarget (jsonlState s) leaf)) (\<lambda>_.
     commit oc s (LaneMutation (nextSequence (jsonlState s)) lane leaf)))"

definition jsonlMoveLane :: "object_codec \<Rightarrow> jsonl_storage \<Rightarrow> string \<Rightarrow> string option \<Rightarrow> jsonl_storage io" where
  "jsonlMoveLane oc s lane target =
     then_io (lift_result (requireLane (jsonlState s) lane)) (\<lambda>_.
     then_io (lift_result (validateTarget (jsonlState s) target)) (\<lambda>_.
     commit oc s (LaneMutation (nextSequence (jsonlState s)) lane target)))"

definition jsonlAppendEntry ::
  "object_codec \<Rightarrow> jsonl_storage \<Rightarrow> provisioned_entry \<Rightarrow> string \<Rightarrow> int \<Rightarrow> (entry \<times> jsonl_storage) io" where
  "jsonlAppendEntry oc s newEntry lane now =
     then_io (lift_result (requireLane (jsonlState s) lane)) (\<lambda>parentId.
     then_io (lift_result (validateUnusedId (jsonlState s) (entryId newEntry))) (\<lambda>_.
     let e = provision newEntry (nextSequence (jsonlState s)) parentId now
     in then_io (commit oc s (EntryMutation (Some lane) e)) (\<lambda>s. lift_result (Inr (e, s)))))"

definition jsonlAppendRecord ::
  "object_codec \<Rightarrow> jsonl_storage \<Rightarrow> new_record \<Rightarrow> int \<Rightarrow> (lane_record \<times> jsonl_storage) io" where
  "jsonlAppendRecord oc s newRecord now =
     then_io (lift_result (requireLane (jsonlState s) (recordLane newRecord))) (\<lambda>_.
     then_io (lift_result (validateUnusedId (jsonlState s) (recordId newRecord))) (\<lambda>_.
     then_io (lift_result (findOpenOperations (jsonlState s) (recordLane newRecord) (Some (JInt 1)))) (\<lambda>open1.
     then_io (lift_result (case open1 of
          [] \<Rightarrow> Inr ()
        | current # _ \<Rightarrow> throw_if (is_operation_start newRecord)
            (SessionError StorageError
              (''Lane '' @ recordLane newRecord @ '' already has an open operation '' @ recordId current)))) (\<lambda>_.
     let r = record_of_new newRecord (nextSequence (jsonlState s)) now
     in then_io (commit oc s (RecordMutation r)) (\<lambda>s. lift_result (Inr (r, s)))))))"

definition jsonlSetName :: "object_codec \<Rightarrow> jsonl_storage \<Rightarrow> string option \<Rightarrow> jsonl_storage io" where
  "jsonlSetName oc s n = commit oc s (NameMutation (nextSequence (jsonlState s)) n)"

definition jsonlSetLabel :: "object_codec \<Rightarrow> jsonl_storage \<Rightarrow> string \<Rightarrow> string option \<Rightarrow> jsonl_storage io" where
  "jsonlSetLabel oc s i label =
     then_io (lift_result (validateTarget (jsonlState s) (Some i))) (\<lambda>_.
     commit oc s (LabelMutation (nextSequence (jsonlState s)) i label))"

fun run_jsonl :: "object_codec \<Rightarrow> storage_op \<Rightarrow> jsonl_storage \<Rightarrow> jsonl_storage io" where
  "run_jsonl oc (CreateLane lane leaf) s = jsonlCreateLane oc s lane leaf"
| "run_jsonl oc (MoveLane lane target) s = jsonlMoveLane oc s lane target"
| "run_jsonl oc (AppendEntry p lane now) s = then_io (jsonlAppendEntry oc s p lane now) (\<lambda>(e, s). lift_result (Inr s))"
| "run_jsonl oc (AppendRecord r now) s = then_io (jsonlAppendRecord oc s r now) (\<lambda>(r, s). lift_result (Inr s))"
| "run_jsonl oc (SetName n) s = jsonlSetName oc s n"
| "run_jsonl oc (SetLabel i label) s = jsonlSetLabel oc s i label"

fun write_mutations :: "object_codec \<Rightarrow> session_mutation list \<Rightarrow> jsonl_storage \<Rightarrow> jsonl_storage io" where
  "write_mutations oc [] s = lift_result (Inr s)"
| "write_mutations oc (m # ms) s = then_io (commit oc s m) (\<lambda>s. write_mutations oc ms s)"

definition fork_jsonl :: "object_codec \<Rightarrow> jsonl_storage \<Rightarrow> string \<Rightarrow> jsonl_header \<Rightarrow> fork_options \<Rightarrow> jsonl_storage io" where
  "fork_jsonl oc s path h options =
     then_io (lift_result (createForkMutations (jsonlState s) options)) (\<lambda>ms.
     then_io (publishFileAtomically path (\<lambda>temp.
       then_io (create_jsonl temp h) (\<lambda>target.
       then_io (write_mutations oc ms target) (\<lambda>target. lift_result (Inr ()))))) (\<lambda>_.
     load_jsonl oc path))"

text \<open>Calls run one after the other, each whether or not the one before it failed.\<close>

fun run_queue :: "object_codec \<Rightarrow> storage_op list \<Rightarrow> jsonl_storage \<Rightarrow> disk \<Rightarrow>
    session_error option list \<times> jsonl_storage \<times> disk" where
  "run_queue oc [] s d = ([], s, d)"
| "run_queue oc (op # ops) s d =
     (case run_jsonl oc op s d of
        (Inl e, d) \<Rightarrow> (let (rs, s, d) = run_queue oc ops s d in (Some e # rs, s, d))
      | (Inr s, d) \<Rightarrow> (let (rs, s, d) = run_queue oc ops s d in (None # rs, s, d)))"

subsection \<open>The operations are those of the storage in memory\<close>

text \<open>The mutation an operation commits, after its checks.\<close>

fun prepared :: "storage_op \<Rightarrow> session_state \<Rightarrow> session_error + session_mutation" where
  "prepared (CreateLane lane leaf) st =
     and_then (validateNewLane st lane) (\<lambda>_. and_then (validateTarget st leaf) (\<lambda>_.
     Inr (LaneMutation (nextSequence st) lane leaf)))"
| "prepared (MoveLane lane target) st =
     and_then (requireLane st lane) (\<lambda>_. and_then (validateTarget st target) (\<lambda>_.
     Inr (LaneMutation (nextSequence st) lane target)))"
| "prepared (AppendEntry p lane now) st =
     and_then (requireLane st lane) (\<lambda>parentId. and_then (validateUnusedId st (entryId p)) (\<lambda>_.
     Inr (EntryMutation (Some lane) (provision p (nextSequence st) parentId now))))"
| "prepared (AppendRecord r now) st =
     and_then (requireLane st (recordLane r)) (\<lambda>_. and_then (validateUnusedId st (recordId r)) (\<lambda>_.
     and_then (findOpenOperations st (recordLane r) (Some (JInt 1))) (\<lambda>open1.
     and_then (case open1 of
          [] \<Rightarrow> Inr ()
        | current # _ \<Rightarrow> throw_if (is_operation_start r)
            (SessionError StorageError
              (''Lane '' @ recordLane r @ '' already has an open operation '' @ recordId current))) (\<lambda>_.
     Inr (RecordMutation (record_of_new r (nextSequence st) now))))))"
| "prepared (SetName n) st = Inr (NameMutation (nextSequence st) n)"
| "prepared (SetLabel i label) st =
     and_then (validateTarget st (Some i)) (\<lambda>_. Inr (LabelMutation (nextSequence st) i label))"

lemma and_then_result: "and_then (and_then m f) g = and_then m (\<lambda>x. and_then (f x) g)"
  by (cases m) auto

lemma run_op_prepared: "run_op op st = and_then (prepared op st) (\<lambda>m. applyMutation st m invalidMutation)"
  by (cases op) (simp_all add: createLane_def moveLane_def appendEntry_def appendRecord_def setName_def setLabel_def
      and_then_result Let_def)

lemma then_lift: "then_io (lift_result r) f d = (case r of Inl e \<Rightarrow> (Inl e, d) | Inr x \<Rightarrow> f x d)"
  by (cases r) (simp_all add: then_io_def lift_result_def)

lemma then_return: "then_io m (\<lambda>x. lift_result (Inr x)) d = m d"
  by (auto simp: then_io_def lift_result_def split: prod.splits sum.splits)

lemma then_assoc: "then_io (then_io m f) g d = then_io m (\<lambda>x. then_io (f x) g) d"
  by (auto simp: then_io_def split: prod.splits sum.splits)

lemma then_pair: "then_io m (\<lambda>x. then_io (lift_result (Inr (y, x))) (\<lambda>(e, s). lift_result (Inr s))) d = m d"
  by (auto simp: then_io_def lift_result_def split: prod.splits sum.splits)

lemma run_jsonl_prepared:
  "run_jsonl oc op s d = (case prepared op (jsonlState s) of Inl e \<Rightarrow> (Inl e, d) | Inr m \<Rightarrow> commit oc s m d)"
proof (cases op)
  case (AppendEntry p lane now)
  then show ?thesis
    by (auto simp: jsonlAppendEntry_def Let_def then_assoc then_lift then_pair split: sum.splits)
next
  case (AppendRecord r now)
  then show ?thesis
    by (auto simp: jsonlAppendRecord_def Let_def then_assoc then_lift then_pair split: sum.splits)
qed (auto simp: jsonlCreateLane_def jsonlMoveLane_def jsonlSetName_def jsonlSetLabel_def then_lift split: sum.splits)

text \<open>A prepared mutation is consistent with a well-formed state, so that nothing that is written is refused.\<close>

lemma apply_error: "applyMutation st m invalidMutation = Inl e \<Longrightarrow> error_code e = InvalidEntry"
  by (auto simp: applyMutation_def check_entry_def check_record_def invalidMutation_def result_simps
      split: session_mutation.splits option.splits)

lemma not_refused_inconsistent: "op_refusal op st \<noteq> Some InvalidEntry"
  by (cases op) auto

lemma prepared_applies:
  assumes "session_inv st" and "prepared op st = Inr m"
  shows "\<exists>st'. applyMutation st m invalidMutation = Inr st' \<and> run_op op st = Inr st'"
proof (cases "applyMutation st m invalidMutation")
  case (Inl e)
  with assms(2) have "run_op op st = Inl e" by (simp add: run_op_prepared)
  with op_outcome[OF assms(1), of op] apply_error[OF Inl] not_refused_inconsistent[of op st] show ?thesis by simp
next
  case (Inr st')
  with assms(2) show ?thesis by (simp add: run_op_prepared)
qed

subsection \<open>What a session file holds\<close>

definition mutation_text :: "object_codec \<Rightarrow> session_mutation list \<Rightarrow> js_string" where
  "mutation_text oc ms = concat (map (\<lambda>m. encodeMutation (json_of oc m)) ms)"

definition stored :: "object_codec \<Rightarrow> jsonl_header \<Rightarrow> session_mutation list \<Rightarrow> jsonl_storage \<Rightarrow> disk \<Rightarrow> bool" where
  "stored oc h ms s d \<longleftrightarrow>
     diskFiles d (jsonlPath (jsonlMetadata s)) = Some (encodeHeader h @ mutation_text oc ms) \<and>
     applyMutations newSessionState ms = Inr (jsonlState s)"

text \<open>The object written for a mutation is one the codec accepts, and stands for the mutation.\<close>

definition represented :: "object_codec \<Rightarrow> session_mutation \<Rightarrow> bool" where
  "represented oc m \<longleftrightarrow> writable (json_of oc m) \<and> mutation_of oc (json_of oc m) = m"

lemma applyMutations_snoc:
  "applyMutations st (ms @ [m]) = and_then (applyMutations st ms) (\<lambda>st. applyMutation st m invalidMutation)"
  by (induction ms arbitrary: st) (auto simp: and_then_result)

lemma stored_inv: "stored oc h ms s d \<Longrightarrow> session_inv (jsonlState s)"
  using inv_applyMutations[OF inv_new] by (auto simp: stored_def)

text \<open>Committing: on a working disk the line is appended and the state is the next one; on a failing one the
  state stays and a part of the line may be in the file.\<close>

lemma commit_outcome:
  assumes "applyMutation (jsonlState s) m invalidMutation = Inr st'"
  shows "commit oc s m d =
    (let path = jsonlPath (jsonlMetadata s); line = encodeMutation (json_of oc m) in
     case next_fate d of
       (Works, d) \<Rightarrow> (Inr (s\<lparr>jsonlState := st'\<rparr>), put_file path (Some (file_text d path @ line)) d)
     | (Breaks n e, d) \<Rightarrow>
         (Inl (SessionError (if fileCode e = ''not_found'' then NotFound else StorageError)
            (''Failed to append session '' @ path @ '': '' @ fileMessage e)),
          put_file path (Some (file_text d path @ take n line)) d))"
  using assms by (auto simp: commit_def appendMutation_def then_io_def lift_result_def fileResult_def appendFile_def Let_def
      split: prod.splits disk_fate.splits)

lemma fate_files: "next_fate d = (f, d') \<Longrightarrow> diskFiles d' = diskFiles d \<and> diskModified d' = diskModified d"
  by (auto simp: next_fate_def split: list.splits)

text \<open>C4: The storage in a file behaves as the storage in memory: an operation is refused with the same error
  and without touching the disk, or its one line is appended and the state is the same; when the disk
  fails, the operation throws and keeps its state, and the file has at most a part of the line more.\<close>

theorem jsonl_refines_memory:
  assumes "stored oc h ms s d" and "run_jsonl oc op s d = (r, d')"
  shows "case run_op op (jsonlState s) of
      Inl e \<Rightarrow> r = Inl e \<and> d' = d
    | Inr st' \<Rightarrow> \<exists>m. prepared op (jsonlState s) = Inr m \<and>
        (case fst (next_fate d) of
           Works \<Rightarrow> r = Inr (s\<lparr>jsonlState := st'\<rparr>) \<and> stored oc h (ms @ [m]) (s\<lparr>jsonlState := st'\<rparr>) d'
         | Breaks n e \<Rightarrow> (\<exists>err. r = Inl err) \<and>
             file_text d' (jsonlPath (jsonlMetadata s)) =
               encodeHeader h @ mutation_text oc ms @ take n (encodeMutation (json_of oc m))) \<and>
        (\<forall>p. p \<noteq> jsonlPath (jsonlMetadata s) \<longrightarrow> diskFiles d' p = diskFiles d p)"
proof (cases "prepared op (jsonlState s)")
  case (Inl e)
  with assms(2) show ?thesis by (simp add: run_jsonl_prepared run_op_prepared)
next
  case (Inr m)
  from prepared_applies[OF stored_inv[OF assms(1)] Inr] obtain st' where st': "applyMutation (jsonlState s) m invalidMutation = Inr st'"
    "run_op op (jsonlState s) = Inr st'" by blast
  obtain f d1 where f: "next_fate d = (f, d1)" by fastforce
  have content: "file_text d1 (jsonlPath (jsonlMetadata s)) = encodeHeader h @ mutation_text oc ms"
    using assms(1) fate_files[OF f] by (simp add: stored_def file_text_def)
  have "commit oc s m d = (r, d')" using assms(2) Inr by (simp add: run_jsonl_prepared)
  note out = this[unfolded commit_outcome[OF st'(1)] Let_def f prod.case content]
  show ?thesis
  proof (cases f)
    case Works
    with out have d': "r = Inr (s\<lparr>jsonlState := st'\<rparr>)"
      "d' = put_file (jsonlPath (jsonlMetadata s)) (Some ((encodeHeader h @ mutation_text oc ms) @ encodeMutation (json_of oc m))) d1"
      by auto
    then have "stored oc h (ms @ [m]) (s\<lparr>jsonlState := st'\<rparr>) d'"
      using assms(1) st'(1) by (simp add: stored_def put_file_def mutation_text_def applyMutations_snoc)
    with d' Works f Inr st'(2) fate_files[OF f] show ?thesis by (simp add: put_file_def)
  next
    case (Breaks n e)
    with out f Inr st'(2) fate_files[OF f] show ?thesis
      by (auto simp: put_file_def file_text_def)
  qed
qed

subsection \<open>Recovery\<close>

lemma split_lines_line: "10 \<notin> set l \<Longrightarrow> split_lines (l @ 10 # r) = l # split_lines r"
  by (induction l) auto

lemma split_lines_last: "10 \<notin> set l \<Longrightarrow> split_lines l = [l]"
  by (induction l) auto

lemma split_lines_written:
  "\<forall>l \<in> set ls. 10 \<notin> set l \<Longrightarrow> 10 \<notin> set r \<Longrightarrow> split_lines (concat (map (\<lambda>l. l @ [10]) ls) @ r) = ls @ [r]"
  by (induction ls) (auto simp: split_lines_line split_lines_last)

lemma join_lines: "(ls :: js_string list) \<noteq> [] \<Longrightarrow> join [10] ls @ [10] = concat (map (\<lambda>l. l @ [10]) ls)"
  by (induction "[10] :: js_string" ls rule: join.induct) auto

abbreviation written :: "object_codec \<Rightarrow> session_mutation \<Rightarrow> js_string" where
  "written oc m \<equiv> mutations.line_of (json_of oc m)"

lemma written_line:
  "represented oc m \<Longrightarrow> encodeMutation (json_of oc m) = written oc m @ [10] \<and> 10 \<notin> set (written oc m) \<and>
     written oc m \<noteq> [] \<and> parseMutation (written oc m) = Inr (json_of oc m)"
  using mutations.encode_line[of "json_of oc m"] by (simp add: represented_def)

lemma mutation_text_lines:
  "\<forall>m \<in> set ms. represented oc m \<Longrightarrow> mutation_text oc ms = concat (map (\<lambda>l. l @ [10]) (map (written oc) ms))"
  by (induction ms) (auto simp: mutation_text_def written_line)

lemma replay_written:
  "\<forall>m \<in> set ms. represented oc m \<Longrightarrow> applyMutations st ms = Inr st' \<Longrightarrow>
   replay_lines oc path seen (map (written oc) ms @ rest) st = replay_lines oc path (seen @ map (written oc) ms) rest st'"
proof (induction ms arbitrary: st seen)
  case (Cons m ms)
  then obtain st1 where "applyMutation st m invalidMutation = Inr st1" "applyMutations st1 ms = Inr st'"
    by (auto simp: result_simps)
  with Cons written_line[of oc m] show ?case by (simp add: represented_def)
qed simp

text \<open>Loading a file of whole lines and a rest without a newline.\<close>

lemma load_lines:
  assumes "diskFiles d path = Some (concat (map (\<lambda>l. l @ [10]) (hl # ls)) @ r)" and "diskFates d = []"
    and "\<forall>l \<in> set (hl # ls). 10 \<notin> set l" and "10 \<notin> set r" and "hl \<noteq> []" and "decodeHeader hl = Inr h"
    and "replay_lines oc path [hl] (ls @ (if r = [] then [] else [r])) newSessionState = Inr (st, torn)"
    and "\<And>seen. torn = Some seen \<Longrightarrow> seen \<noteq> []"
  shows "\<exists>d'. load_jsonl oc path d = (Inr \<lparr>jsonlMetadata = metadataFromHeader h path (diskModified d path), jsonlState = st\<rparr>, d') \<and>
    diskFates d' = [] \<and> (\<forall>p. p \<noteq> path \<and> p \<noteq> path @ ''.tmp'' \<longrightarrow> diskFiles d' p = diskFiles d p) \<and>
    diskFiles d' path = Some (case torn of
        Some seen \<Rightarrow> concat (map (\<lambda>l. l @ [10]) seen)
      | None \<Rightarrow> concat (map (\<lambda>l. l @ [10]) (hl # ls)) @ r @ (if r = [] then [] else [10]))"
proof -
  let ?content = "concat (map (\<lambda>l. l @ [10]) (hl # ls)) @ r"
  let ?physical = "hl # ls @ (if r = [] then [] else [r])"
  have split: "split_lines ?content = hl # ls @ [r]"
    using split_lines_written[OF assms(3,4)] by simp
  then have physical: "(if last (split_lines ?content) = [] then butlast (split_lines ?content) else split_lines ?content) = ?physical"
    unfolding split by (simp add: butlast_append)
  have ends: "?content = [] \<or> last ?content \<noteq> 10 \<longleftrightarrow> r \<noteq> []"
  proof (cases "r = []")
    case True
    have "last (concat (map (\<lambda>l. l @ [10]) (hl # ls)) :: js_string) = 10"
      by (cases ls rule: rev_cases) auto
    with True show ?thesis by simp
  next
    case False
    with assms(4) have "last r \<noteq> 10" by (metis last_in_set)
    with False show ?thesis by simp
  qed
  have fates: "next_fate d = (Works, d)" using assms(2) by (simp add: next_fate_def)
  note step = load_jsonl_def then_io_def lift_result_def fileResult_def readTextFile_def modified_at_def fates assms(1) Let_def
  show ?thesis
  proof (cases torn)
    case None
    with assms(2,6,7) ends physical fates \<open>hl \<noteq> []\<close> show ?thesis
      by (auto simp: step appendFile_def put_file_def file_text_def)
  next
    case (Some seen)
    with assms(2,6,7) physical fates \<open>hl \<noteq> []\<close> join_lines[OF assms(8)[OF Some]] show ?thesis
      by (auto simp: step publishFileAtomically_def writeFile_def renameFile_def put_file_def next_fate_def)
  qed
qed

lemma header_line:
  assumes "good_header h"
  shows "encodeHeader h = line_text (header_object h) @ [10] \<and> 10 \<notin> set (line_text (header_object h)) \<and>
    decodeHeader (line_text (header_object h)) = Inr h \<and> line_text (header_object h) \<noteq> []"
  using line_text_one_line[OF header_plain[OF assms]] header_read[OF assms]
  by (auto simp: encodeHeader_def decodeHeader_def parseObject_def json_parse_def skip_space_def)

text \<open>A whole session file is loaded as it is.\<close>

lemma load_stored:
  assumes "good_header h" and "\<forall>m \<in> set ms. represented oc m" and "applyMutations newSessionState ms = Inr st"
    and "diskFiles d path = Some (encodeHeader h @ mutation_text oc ms)" and "diskFates d = []"
  shows "\<exists>s d'. load_jsonl oc path d = (Inr s, d') \<and> jsonlPath (jsonlMetadata s) = path \<and> jsonlState s = st \<and> stored oc h ms s d'"
proof -
  let ?hl = "line_text (header_object h)" and ?lines = "map (written oc) ms"
  note hl = header_line[OF assms(1)]
  have "diskFiles d path = Some (concat (map (\<lambda>l. l @ [10]) (?hl # ?lines)) @ [])"
    using assms(4) hl mutation_text_lines[OF assms(2)] by simp
  moreover have "\<forall>l \<in> set (?hl # ?lines). 10 \<notin> set l" using hl written_line assms(2) by auto
  ultimately obtain d' where "load_jsonl oc path d = (Inr \<lparr>jsonlMetadata = metadataFromHeader h path (diskModified d path), jsonlState = st\<rparr>, d')"
    "diskFiles d' path = Some (concat (map (\<lambda>l. l @ [10]) (?hl # ?lines)))"
    using load_lines[of d path ?hl ?lines "[]" h oc st None] assms(5) hl replay_written[OF assms(2,3), of path "[?hl]" "[]"] by auto
  with assms(3) hl mutation_text_lines[OF assms(2)] show ?thesis by (simp add: stored_def metadataFromHeader_def)
qed

text \<open>A session file whose last line was cut short at any point, as by a crash in the middle of an append,
  is loaded as the session before that append or, when only the newline is missing, after it; loading
  leaves exactly the file of the loaded session.\<close>

theorem load_recovers:
  assumes "good_header h" and "\<forall>m \<in> set (ms @ [m]). represented oc m" and "applyMutations newSessionState (ms @ [m]) = Inr st"
    and "diskFiles d path = Some (encodeHeader h @ mutation_text oc ms @ take n (encodeMutation (json_of oc m)))"
    and "diskFates d = []"
  shows "\<exists>s d'. load_jsonl oc path d = (Inr s, d') \<and> jsonlPath (jsonlMetadata s) = path \<and>
    stored oc h (if n < length (encodeMutation (json_of oc m)) - 1 then ms else ms @ [m]) s d'"
proof -
  let ?hl = "line_text (header_object h)" and ?lines = "map (written oc) ms" and ?line = "written oc m"
  have hl: "encodeHeader h = ?hl @ [10]" "10 \<notin> set ?hl" "decodeHeader ?hl = Inr h" "?hl \<noteq> []"
    using header_line[OF assms(1)] by auto
  have m: "encodeMutation (json_of oc m) = ?line @ [10]" "10 \<notin> set ?line" "?line \<noteq> []" "parseMutation ?line = Inr (json_of oc m)"
    "mutation_of oc (json_of oc m) = m"
    using written_line[of oc m] assms(2) by (auto simp: represented_def)
  have clean: "\<forall>l \<in> set (?hl # ?lines). 10 \<notin> set l" using hl(2) written_line assms(2) by auto
  from assms(3) obtain st1 where st1: "applyMutations newSessionState ms = Inr st1" "applyMutation st1 m invalidMutation = Inr st"
    by (auto simp: applyMutations_snoc result_simps)
  have ms: "mutation_text oc ms = concat (map (\<lambda>l. l @ [10]) ?lines)"
    using assms(2) by (intro mutation_text_lines) simp
  have replay: "replay_lines oc path [?hl] (?lines @ rest) newSessionState = replay_lines oc path (?hl # ?lines) rest st1" for rest
    using replay_written[OF _ st1(1), of oc path "[?hl]" rest] assms(2) by simp
  consider "n = 0" | "0 < n" "n < length ?line" | "n = length ?line" | "length ?line < n" by linarith
  then show ?thesis
  proof cases
    case 1
    with assms load_stored[OF assms(1) _ st1(1), of oc d path] m(1,3) show ?thesis by auto
  next
    case 2
    then have part: "take n ?line @ drop n ?line = ?line" "drop n ?line \<noteq> []" "take n ?line \<noteq> []" by auto
    have "diskFiles d path = Some (concat (map (\<lambda>l. l @ [10]) (?hl # ?lines)) @ take n ?line)"
      using assms(4) 2 hl(1) m(1) ms by simp
    moreover have "10 \<notin> set (take n ?line)" using m(2) by (meson in_set_takeD)
    moreover have "\<exists>e. parseMutation (take n ?line) = Inl e \<and> decodeKind e = JsonlSyntax"
      using mutations.torn[of "json_of oc m" "take n ?line" "drop n ?line"] assms(2) m(1) part(2) by (simp add: represented_def)
    ultimately obtain d' where "load_jsonl oc path d = (Inr \<lparr>jsonlMetadata = metadataFromHeader h path (diskModified d path), jsonlState = st1\<rparr>, d')"
      "diskFiles d' path = Some (concat (map (\<lambda>l. l @ [10]) (?hl # ?lines)))"
      using load_lines[OF _ assms(5) clean _ hl(4,3), of path "take n ?line" oc st1 "Some (?hl # ?lines)"] replay[of "[take n ?line]"] part(3)
      by auto
    with 2 m(1) st1(1) hl(1) ms show ?thesis by (simp add: stored_def metadataFromHeader_def)
  next
    case 3
    have "diskFiles d path = Some (concat (map (\<lambda>l. l @ [10]) (?hl # ?lines)) @ ?line)"
      using assms(4) 3 hl(1) m(1) ms by simp
    from load_lines[OF this assms(5) clean m(2) hl(4,3), of oc st None] replay[of "[?line]"] m(3,4,5) st1(2)
    obtain d' where "load_jsonl oc path d = (Inr \<lparr>jsonlMetadata = metadataFromHeader h path (diskModified d path), jsonlState = st\<rparr>, d')"
      "diskFiles d' path = Some (concat (map (\<lambda>l. l @ [10]) (?hl # ?lines)) @ ?line @ [10])" by auto
    with 3 m(1) assms(3) hl(1) ms show ?thesis by (simp add: stored_def metadataFromHeader_def mutation_text_def)
  next
    case 4
    with assms load_stored[OF assms(1,2,3), of d path] m(1) show ?thesis by (auto simp: mutation_text_def)
  qed
qed

subsection \<open>Crashes\<close>

lemma create_stored:
  assumes "diskFates d = []"
  shows "\<exists>s d'. create_jsonl path h d = (Inr s, d') \<and> stored oc h [] s d' \<and> jsonlPath (jsonlMetadata s) = path \<and>
    diskFates d' = [] \<and> jsonlState s = newSessionState"
  using assms by (auto simp: create_jsonl_def then_io_def lift_result_def fileResult_def writeFile_def modified_at_def next_fate_def
      put_file_def stored_def mutation_text_def new_jsonl_def metadataFromHeader_def)

fun run_ops :: "storage_op list \<Rightarrow> session_state \<Rightarrow> session_error + session_state" where
  "run_ops [] st = Inr st"
| "run_ops (op # ops) st = and_then (run_op op st) (run_ops ops)"

text \<open>The mutations that a run of operations commits.\<close>

fun op_mutations :: "storage_op list \<Rightarrow> session_state \<Rightarrow> session_mutation list" where
  "op_mutations [] st = []"
| "op_mutations (op # ops) st =
     (case prepared op st of
        Inl e \<Rightarrow> []
      | Inr m \<Rightarrow> m # (case applyMutation st m invalidMutation of Inl e \<Rightarrow> [] | Inr st \<Rightarrow> op_mutations ops st))"

lemma run_ops_mutations:
  "run_ops ops st = Inr st' \<Longrightarrow> applyMutations st (op_mutations ops st) = Inr st'"
  by (induction ops arbitrary: st) (auto simp: run_op_prepared result_simps)

lemma op_mutations_snoc:
  "run_ops ops st = Inr st1 \<Longrightarrow> prepared op st1 = Inr m \<Longrightarrow> op_mutations (ops @ [op]) st = op_mutations ops st @ [m]"
  by (induction ops arbitrary: st) (auto simp: run_op_prepared result_simps split: sum.splits)

fun run_all :: "object_codec \<Rightarrow> storage_op list \<Rightarrow> jsonl_storage \<Rightarrow> jsonl_storage io" where
  "run_all oc [] s = lift_result (Inr s)"
| "run_all oc (op # ops) s = then_io (run_jsonl oc op s) (run_all oc ops)"

lemma run_all_stored:
  "run_ops ops (jsonlState s) = Inr st \<Longrightarrow> stored oc h ms s d \<Longrightarrow> diskFates d = [] \<Longrightarrow>
   \<exists>s' d'. run_all oc ops s d = (Inr s', d') \<and> stored oc h (ms @ op_mutations ops (jsonlState s)) s' d' \<and> diskFates d' = [] \<and>
     jsonlState s' = st \<and> jsonlMetadata s' = jsonlMetadata s"
proof (induction ops arbitrary: s ms d)
  case Nil
  then show ?case by (simp add: lift_result_def)
next
  case (Cons op ops)
  then obtain m st1 where m: "prepared op (jsonlState s) = Inr m" "applyMutation (jsonlState s) m invalidMutation = Inr st1"
    "run_ops ops st1 = Inr st" by (auto simp: run_op_prepared result_simps)
  have fate: "next_fate d = (Works, d)" using Cons.prems(3) by (simp add: next_fate_def)
  let ?s = "s\<lparr>jsonlState := st1\<rparr>"
  obtain d1 where d1: "run_jsonl oc op s d = (Inr ?s, d1)" "diskFates d1 = []" "stored oc h (ms @ [m]) ?s d1"
    using Cons.prems(2,3) m(1,2) commit_outcome[OF m(2), of oc d] fate
    by (auto simp: run_jsonl_prepared stored_def put_file_def file_text_def mutation_text_def applyMutations_snoc)
  from Cons.IH[of ?s, OF _ d1(3,2)] m obtain s' d' where "run_all oc ops ?s d1 = (Inr s', d')"
    "stored oc h (ms @ op_mutations (op # ops) (jsonlState s)) s' d'" "diskFates d' = []" "jsonlState s' = st"
    "jsonlMetadata s' = jsonlMetadata s" by auto
  with d1 show ?case by (simp add: then_io_def)
qed

text \<open>C3: A session survives a crash: after any acknowledged operations, when the process dies in the middle of
  the next one's append, loading the file gives the session as the acknowledged operations left it or as
  the interrupted one would have, and loading again gives the same session.\<close>

theorem crash_recovery:
  assumes "good_header h" and "run_ops ops newSessionState = Inr st" and "run_op op st = Inr st'"
    and "\<forall>m \<in> set (op_mutations (ops @ [op]) newSessionState). represented oc m" and "diskFates d = []"
  shows "\<exists>s0 d0 s d1 d2 s' d3.
    create_jsonl path h d = (Inr s0, d0) \<and> run_all oc ops s0 d0 = (Inr s, d1) \<and> jsonlState s = st \<and>
    (\<exists>err. run_jsonl oc op s (d1\<lparr>diskFates := [Breaks n e]\<rparr>) = (Inl err, d2)) \<and>
    load_jsonl oc path d2 = (Inr s', d3) \<and> (jsonlState s' = st \<or> jsonlState s' = st') \<and>
    (\<exists>s'' d4. load_jsonl oc path (d3\<lparr>diskFates := []\<rparr>) = (Inr s'', d4) \<and> jsonlState s'' = jsonlState s')"
proof -
  let ?ms = "op_mutations ops newSessionState"
  obtain s0 d0 where create: "create_jsonl path h d = (Inr s0, d0)" "stored oc h [] s0 d0" "jsonlPath (jsonlMetadata s0) = path"
    "diskFates d0 = []" "jsonlState s0 = newSessionState" using create_stored[OF assms(5)] by blast
  from run_all_stored[OF _ create(2,4), of ops st] assms(2) create(3,5)
  obtain s d1 where run: "run_all oc ops s0 d0 = (Inr s, d1)" "stored oc h ?ms s d1" "jsonlState s = st"
    "jsonlPath (jsonlMetadata s) = path" by auto
  from assms(3) obtain m where m: "prepared op st = Inr m" "applyMutation st m invalidMutation = Inr st'"
    by (auto simp: run_op_prepared result_simps)
  let ?d = "d1\<lparr>diskFates := [Breaks n e]\<rparr>"
  obtain err d2 where crash: "run_jsonl oc op s ?d = (Inl err, d2)"
    "diskFiles d2 path = Some (encodeHeader h @ mutation_text oc ?ms @ take n (encodeMutation (json_of oc m)))" "diskFates d2 = []"
    using m commit_outcome[of s m st' oc ?d] run(2,3,4)
    by (auto simp: run_jsonl_prepared next_fate_def put_file_def file_text_def stored_def)
  have all: "op_mutations (ops @ [op]) newSessionState = ?ms @ [m]" using op_mutations_snoc[OF assms(2) m(1)] .
  have state: "applyMutations newSessionState ?ms = Inr st" "applyMutations newSessionState (?ms @ [m]) = Inr st'"
    using run_ops_mutations[OF assms(2)] m(2) by (simp_all add: applyMutations_snoc)
  let ?kept = "if n < length (encodeMutation (json_of oc m)) - 1 then ?ms else ?ms @ [m]"
  from load_recovers[OF assms(1) _ state(2) crash(2,3)] assms(4) all
  obtain s' d3 where load: "load_jsonl oc path d2 = (Inr s', d3)" "jsonlPath (jsonlMetadata s') = path" "stored oc h ?kept s' d3"
    by auto
  then have "jsonlState s' = st \<or> jsonlState s' = st'" using state by (auto simp: stored_def split: if_splits)
  moreover have "\<exists>s'' d4. load_jsonl oc path (d3\<lparr>diskFates := []\<rparr>) = (Inr s'', d4) \<and> jsonlState s'' = jsonlState s'"
    using load_stored[OF assms(1), of ?kept oc "jsonlState s'" "d3\<lparr>diskFates := []\<rparr>" path] load(2,3) assms(4) all
    by (auto simp: stored_def split: if_splits)
  ultimately show ?thesis using create(1) run(1,3) crash(1) load(1) by blast
qed

text \<open>
  A codec of objects for the witnesses, for thinking levels and finished operations; the properties
  below do not depend on it.
\<close>

definition sample_codec :: object_codec where
  "sample_codec =
     \<lparr>bodyObject = (\<lambda>b. case b of
          ThinkingLevelEntry l \<Rightarrow> literal [(''type'', JString (js_of ''thinking_level_change'')), (''thinkingLevel'', JString (js_of l))]
        | _ \<Rightarrow> []),
      bodyOf = (\<lambda>es. ThinkingLevelEntry (text_value (field ''thinkingLevel'' es))),
      recordObject = (\<lambda>b. case b of
          AbortRequested i \<Rightarrow> literal [(''type'', JString (js_of ''abort_requested'')), (''runId'', JString (js_of i))]
        | _ \<Rightarrow> []),
      recordOf = (\<lambda>es. AbortRequested (text_value (field ''runId'' es)))\<rparr>"

definition sample_jsonl_header :: jsonl_header where
  "sample_jsonl_header = \<lparr>headerId = js_of ''s1'', headerCreatedAt = JInt 5, headerCwd = js_of ''/w'', headerParent = None,
     headerLegacyParent = None, headerMetadata = None\<rparr>"

lemma sample_header_good: "good_header sample_jsonl_header"
  by (simp add: good_header_def sample_jsonl_header_def MAX_SAFE_INTEGER_def)

definition sample_level :: storage_op where
  "sample_level = AppendEntry \<lparr>entryId = ''e1'', entryBody = ThinkingLevelEntry ''high''\<rparr> ''main'' 7"

lemma sample_named: "represented sample_codec (NameMutation 1 (Some ''x''))"
  by (simp add: represented_def sequence_number_def MAX_SAFE_INTEGER_def)

lemma sample_entry_named:
  "index_key (js_of ''id'') = None" "index_key (js_of ''type'') = None" "index_key (js_of ''thinkingLevel'') = None"
  "index_key (js_of ''parentId'') = None" "index_key (js_of ''seq'') = None" "index_key (js_of ''timestamp'') = None"
  by (simp_all add: js_index_key is_digit_def digit_of_def)

lemma literal_append: "literal xs @ literal ys = literal (xs @ ys)"
  by (simp add: literal_def)

lemma literal_set: "fst ` set (literal kvs) = js_of ` fst ` set kvs"
  by (induction kvs) (auto simp: literal_def)

lemma sample_represented:
  "represented sample_codec (EntryMutation (Some ''main'')
     (provision \<lparr>entryId = ''e1'', entryBody = ThinkingLevelEntry ''high''\<rparr> 2 None 7))"
proof -
  let ?e = "provision \<lparr>entryId = ''e1'', entryBody = ThinkingLevelEntry ''high''\<rparr> 2 None 7"
  let ?kvs = "[(''id'', JString (js_of ''e1'')), (''type'', JString (js_of ''thinking_level_change'')), (''thinkingLevel'', JString (js_of ''high'')),
      (''parentId'', JNull), (''seq'', JNumber (JInt 2)), (''timestamp'', JNumber (JInt 7))]"
  have obj: "entry_properties sample_codec ?e = literal ?kvs"
    by (simp add: entry_properties_def sample_codec_def literal_append id_value_def provision_def)
  have nums: "json_ok (JNumber (JInt 2))" "json_ok (JNumber (JInt 7))"
    by (simp_all add: safe_number_reads MAX_SAFE_INTEGER_def)
  have "json_entries (literal ?kvs)"
    using entries_literal[of ?kvs "[]"] nums by (simp del: json_ok.simps(3))
  moreover have "named_keys (literal ?kvs)" by (simp add: literal_keys_Nil sample_entry_named)
  moreover have "js_of ''kind'' \<notin> fst ` set (literal ?kvs)" "js_of ''lane'' \<notin> fst ` set (literal ?kvs)"
    unfolding literal_set by auto
  moreover have "JNull = nullable None" by (simp add: nullable_def)
  ultimately have "entry_object (literal ?kvs)"
    unfolding entry_object_def by (intro conjI) (simp_all add: field_only ENTRY_TYPES_def MAX_SAFE_INTEGER_def, metis)
  moreover have "mutation_of sample_codec (json_of sample_codec (EntryMutation (Some ''main'') ?e)) = EntryMutation (Some ''main'') ?e"
    unfolding json_of.simps obj mutation_of.simps
    by (simp add: field_only text_value_def number_value_def sample_codec_def provision_def)
  ultimately show ?thesis unfolding represented_def json_of.simps obj by (simp only: writable.simps)
qed


lemma object_text: "json_text (JObject False es) = Inr (Some t) \<Longrightarrow> \<exists>r. t = 0x7B # r"
  by (cases "json_properties es") auto

lemma line_starts: "line_text es \<noteq> [] \<Longrightarrow> \<exists>r. line_text es = 0x7B # r"
  using object_text[of es] by (auto simp: line_text_def split: sum.splits option.splits)

lemma written_starts: "represented oc m \<Longrightarrow> \<exists>r. written oc m = 0x7B # r"
  using written_line[of oc m] line_starts[of "mutation_object (json_of oc m)"] by (simp add: encodeMutation_def)

text \<open>A line glued to a part of another is not JSON.\<close>

lemma written_text:
  assumes "represented oc m"
  shows "json_ok (JObject False (defined (mutation_object (json_of oc m))))"
    and "json_text (JObject False (defined (mutation_object (json_of oc m)))) = Inr (Some (written oc m))"
    and "written oc m \<noteq> []"
proof -
  from assms have plain: "plain_object (defined (mutation_object (json_of oc m)))"
    by (intro writable_plain) (simp add: represented_def)
  then show "json_ok (JObject False (defined (mutation_object (json_of oc m))))" by (simp add: plain_object_def)
  show "json_text (JObject False (defined (mutation_object (json_of oc m)))) = Inr (Some (written oc m))"
    using line_text_eq[OF plain] written_line[OF assms] by (simp add: encodeMutation_def)
  with json_ok_text show "written oc m \<noteq> []" by (auto simp: result_simps)
qed

lemma kind_first: "writable m \<Longrightarrow> \<exists>x rest. defined (mutation_object m) = (js_of ''kind'', JString x) # rest"
proof (cases m)
  case (JEntry lane e)
  then show "writable m \<Longrightarrow> ?thesis" by (simp add: entry_object_eq literal_def defined_def del: mutation_object.simps)
next
  case (JRecord r)
  then show "writable m \<Longrightarrow> ?thesis" by (simp add: record_object_eq literal_def defined_def del: mutation_object.simps)
qed (simp_all add: literal_def defined_def)

lemma first_property_text:
  assumes "json_text (JObject False ((k, JString x) # rest)) = Inr (Some t)"
  shows "\<exists>t'. t = 0x7B # quote k @ t'"
proof -
  from assms obtain ps where "t = 0x7B # join [0x2C] ((quote k @ 0x3A # quote x) # ps) @ [0x7D]"
    by (auto simp: result_simps)
  then show ?thesis by (cases ps) auto
qed

lemma written_start:
  assumes "represented oc m"
  shows "\<exists>t. written oc m = 0x7B # 0x22 # 0x6B # 0x69 # 0x6E # 0x64 # 0x22 # t"
proof -
  have kind: "quote (js_of ''kind'') = [0x22, 0x6B, 0x69, 0x6E, 0x64, 0x22]"
    by (simp add: quote_def js_of_def)
  from assms have "writable (json_of oc m)" by (simp add: represented_def)
  then obtain x rest where first: "defined (mutation_object (json_of oc m)) = (js_of ''kind'', JString x) # rest"
    using kind_first by blast
  from first_property_text[OF written_text(2)[OF assms, unfolded first]] obtain t where "written oc m = 0x7B # quote (js_of ''kind'') @ t" ..
  then have "written oc m = 0x7B # 0x22 # 0x6B # 0x69 # 0x6E # 0x64 # 0x22 # t" by (simp only: kind append.simps)
  then show ?thesis ..
qed

lemma written_whole:
  assumes "represented oc m"
  shows "whole_object (written oc m)"
proof -
  obtain t where "written oc m = 0x7B # 0x22 # 0x6B # 0x69 # 0x6E # 0x64 # 0x22 # t" using written_start[OF assms] ..
  from whole_object_text[OF written_text(1,2)[OF assms] this] show ?thesis by (simp add: json_space_def)
qed

lemma glued_line:
  assumes "represented oc m1" "represented oc m2" and "p \<noteq> []" "written oc m1 = p @ q"
  shows "parseMutation (p @ written oc m2) = Inl \<lparr>decodeKind = JsonlSyntax, decodeMessage = js_of ''is not valid JSON''\<rparr>"
  using json_parse_glued[OF written_text(1)[OF assms(1)], of p q "written oc m2"] written_text(2)[OF assms(1)] written_whole[OF assms(2)] assms(3,4)
  by (simp add: parseMutation_def parseObject_def)

text \<open>C32: Not every acknowledged operation is kept: when an append fails after a part of its line, however much of
  it, the storage stays usable, the next operation succeeds, its line is glued to the part of the failed
  one, and the next load drops it as a torn tail.\<close>

theorem append_after_failed_append_lost:
  assumes "good_header h" and "\<forall>m \<in> set ms. represented oc m" and "stored oc h ms s d"
    and "run_op op1 (jsonlState s) = Inr st1" and "run_op op2 (jsonlState s) = Inr st2"
    and "\<forall>m \<in> set (op_mutations [op1] (jsonlState s)) \<union> set (op_mutations [op2] (jsonlState s)). represented oc m"
    and "diskFates d = [Breaks n e]" and "0 < n" and "n < length (mutation_text oc (op_mutations [op1] (jsonlState s)))"
  shows "\<exists>err d1 s2 d2 s3 d3. run_jsonl oc op1 s d = (Inl err, d1) \<and> run_jsonl oc op2 s d1 = (Inr s2, d2) \<and>
    jsonlState s2 = st2 \<and> load_jsonl oc (jsonlPath (jsonlMetadata s)) d2 = (Inr s3, d3) \<and> jsonlState s3 = jsonlState s"
proof -
  let ?path = "jsonlPath (jsonlMetadata s)" and ?hl = "line_text (header_object h)" and ?lines = "map (written oc) ms"
  from assms(4,5) obtain m1 m2 where m: "prepared op1 (jsonlState s) = Inr m1" "applyMutation (jsonlState s) m1 invalidMutation = Inr st1"
    "prepared op2 (jsonlState s) = Inr m2" "applyMutation (jsonlState s) m2 invalidMutation = Inr st2"
    by (auto simp: run_op_prepared result_simps)
  with assms(6) have rep: "represented oc m1" "represented oc m2" by auto
  note lines = written_line[OF rep(1)] written_line[OF rep(2)]
  let ?part = "take n (written oc m1)"
  from assms(9) m lines have n: "n \<le> length (written oc m1)" by (simp add: mutation_text_def)
  with assms(8) written_text(3)[OF rep(1)] have part: "?part \<noteq> []" by simp
  let ?merged = "?part @ written oc m2"
  have bad: "parseMutation ?merged = Inl \<lparr>decodeKind = JsonlSyntax, decodeMessage = js_of ''is not valid JSON''\<rparr>"
    by (rule glued_line[OF rep part]) (rule append_take_drop_id[symmetric])
  have hl: "encodeHeader h = ?hl @ [10]" "10 \<notin> set ?hl" "decodeHeader ?hl = Inr h" "?hl \<noteq> []"
    using header_line[OF assms(1)] by auto
  have ms: "mutation_text oc ms = concat (map (\<lambda>l. l @ [10]) ?lines)" using mutation_text_lines[OF assms(2)] .
  have state: "applyMutations newSessionState ms = Inr (jsonlState s)" using assms(3) by (simp add: stored_def)
  obtain err d1 where one: "run_jsonl oc op1 s d = (Inl err, d1)" "diskFates d1 = []"
    "diskFiles d1 ?path = Some (encodeHeader h @ mutation_text oc ms @ ?part)"
    using m(1) commit_outcome[OF m(2), of oc d] assms(3,7) lines n
    by (auto simp: Let_def run_jsonl_prepared next_fate_def put_file_def file_text_def stored_def)
  obtain d2 where two: "run_jsonl oc op2 s d1 = (Inr (s\<lparr>jsonlState := st2\<rparr>), d2)" "diskFates d2 = []"
    "diskFiles d2 ?path = Some (encodeHeader h @ mutation_text oc ms @ ?merged @ [10])"
    using m(3) commit_outcome[OF m(4), of oc d1] one(2,3) lines
    by (auto simp: Let_def run_jsonl_prepared next_fate_def put_file_def file_text_def)
  have whole: "diskFiles d2 ?path = Some (concat (map (\<lambda>l. l @ [10]) (?hl # ?lines @ [?merged])) @ [])"
    using two(3) hl(1) ms by simp
  have clean: "\<forall>l \<in> set (?hl # ?lines @ [?merged]). 10 \<notin> set l"
    using hl(2) written_line assms(2) lines by (auto dest: in_set_takeD)
  have "replay_lines oc ?path [?hl] ((?lines @ [?merged]) @ []) newSessionState = Inr (jsonlState s, Some (?hl # ?lines))"
    using replay_written[OF assms(2) state, of ?path "[?hl]" "[?merged]"] by (simp add: bad)
  then obtain d3 s3 where "load_jsonl oc ?path d2 = (Inr s3, d3)" "jsonlState s3 = jsonlState s"
    using load_lines[OF whole two(2) clean _ hl(4,3), of oc "jsonlState s" "Some (?hl # ?lines)"] by force
  with one two show ?thesis by force
qed

lemma sample_runs:
  "\<exists>st st'. run_ops [SetName (Some ''x'')] newSessionState = Inr st \<and> run_op sample_level st = Inr st'"
proof -
  have "case run_ops [SetName (Some ''x'')] newSessionState of Inl e \<Rightarrow> False
      | Inr st \<Rightarrow> (case run_op sample_level st of Inl e \<Rightarrow> False | Inr st' \<Rightarrow> True)" by code_simp
  then show ?thesis by (auto split: sum.splits)
qed

lemma sample_named_state: "\<exists>st. run_op (SetName (Some ''x'')) newSessionState = Inr st \<and> name st = Some ''x''"
proof -
  have "case run_op (SetName (Some ''x'')) newSessionState of Inl e \<Rightarrow> False | Inr st \<Rightarrow> name st = Some ''x''" by code_simp
  then show ?thesis by (auto split: sum.splits simp del: run_op.simps)
qed

lemma sample_mutations:
  "op_mutations ([SetName (Some ''x'')] @ [sample_level]) newSessionState =
     [NameMutation 1 (Some ''x''), EntryMutation (Some ''main'')
       (provision \<lparr>entryId = ''e1'', entryBody = ThinkingLevelEntry ''high''\<rparr> 2 None 7)]"
  by code_simp

lemma crash_recovery_witness:
  "\<exists>d2 s' d3 st. run_ops [SetName (Some ''x'')] newSessionState = Inr st \<and>
     load_jsonl sample_codec ''f'' d2 = (Inr s', d3) \<and>
     (jsonlState s' = st \<or> run_op sample_level st = Inr (jsonlState s'))"
proof -
  from sample_runs obtain st st' where st: "run_ops [SetName (Some ''x'')] newSessionState = Inr st" "run_op sample_level st = Inr st'"
    by blast
  have rep: "\<forall>m \<in> set (op_mutations ([SetName (Some ''x'')] @ [sample_level]) newSessionState). represented sample_codec m"
    unfolding sample_mutations using sample_named sample_represented by simp
  let ?d = "\<lparr>diskFiles = \<lambda>_. None, diskModified = \<lambda>_. 0, diskFates = []\<rparr>"
  have "diskFates ?d = []" by simp
  from crash_recovery[where path = "''f''" and n = 3 and e = "missing_file ''f''", OF sample_header_good st rep this] obtain d2 s' d3
    where "load_jsonl sample_codec ''f'' d2 = (Inr s', d3)" "jsonlState s' = st \<or> jsonlState s' = st'" by blast
  with st show ?thesis by blast
qed

definition sample_metadata :: jsonl_metadata where
  "sample_metadata = metadataFromHeader sample_jsonl_header ''f'' 0"

definition sample_disk :: "disk_fate list \<Rightarrow> disk" where
  "sample_disk fates =
     \<lparr>diskFiles = (\<lambda>p. if p = ''f'' then Some (encodeHeader sample_jsonl_header) else None), diskModified = \<lambda>_. 0, diskFates = fates\<rparr>"

lemma sample_stored: "stored sample_codec sample_jsonl_header [] (new_jsonl sample_metadata) (sample_disk fates)"
  by (simp add: stored_def new_jsonl_def sample_metadata_def sample_disk_def metadataFromHeader_def mutation_text_def)

lemma jsonl_refines_memory_witness:
  "\<exists>r d' st'. run_jsonl sample_codec (SetName (Some ''x'')) (new_jsonl sample_metadata) (sample_disk []) = (r, d') \<and>
     r = Inr (new_jsonl sample_metadata\<lparr>jsonlState := st'\<rparr>)"
proof -
  obtain r d' where run: "run_jsonl sample_codec (SetName (Some ''x'')) (new_jsonl sample_metadata) (sample_disk []) = (r, d')"
    by fastforce
  obtain st' where "run_op (SetName (Some ''x'')) newSessionState = Inr st'" using sample_named_state by blast
  with jsonl_refines_memory[OF sample_stored run] run show ?thesis
    by (auto simp: new_jsonl_def sample_disk_def next_fate_def)
qed

lemma append_after_failed_append_lost_witness:
  "\<exists>err d1 s2 d2 s3 d3.
     run_jsonl sample_codec (SetName (Some ''x'')) (new_jsonl sample_metadata) (sample_disk [Breaks 7 (missing_file ''f'')]) = (Inl err, d1) \<and>
     run_jsonl sample_codec (SetName (Some ''x'')) (new_jsonl sample_metadata) d1 = (Inr s2, d2) \<and>
     name (jsonlState s2) = Some ''x'' \<and> load_jsonl sample_codec ''f'' d2 = (Inr s3, d3) \<and> name (jsonlState s3) = None"
proof -
  obtain st' where st: "run_op (SetName (Some ''x'')) newSessionState = Inr st'" using sample_named_state by blast
  from st sample_named_state have named: "name st' = Some ''x''" by auto
  have state: "jsonlState (new_jsonl sample_metadata) = newSessionState" by (simp add: new_jsonl_def)
  have muts: "op_mutations [SetName (Some ''x'')] newSessionState = [NameMutation 1 (Some ''x'')]"
    by code_simp
  then have rep: "\<forall>m \<in> set (op_mutations [SetName (Some ''x'')] newSessionState) \<union> set (op_mutations [SetName (Some ''x'')] newSessionState).
      represented sample_codec m"
    using sample_named by simp
  have path: "jsonlPath (jsonlMetadata (new_jsonl sample_metadata)) = ''f''"
    by (simp add: new_jsonl_def sample_metadata_def metadataFromHeader_def)
  have none: "\<forall>m \<in> set []. represented sample_codec m" by simp
  have fates: "diskFates (sample_disk [Breaks 7 (missing_file ''f'')]) = [Breaks 7 (missing_file ''f'')]"
    by (simp add: sample_disk_def)
  have long: "7 < length (mutation_text sample_codec (op_mutations [SetName (Some ''x'')] newSessionState))"
    unfolding muts mutation_text_def using written_start[OF sample_named] written_line[OF sample_named] by auto
  have "0 < (7 :: nat)" by simp
  from append_after_failed_append_lost[OF sample_header_good none sample_stored _ _ _ fates this, unfolded state path, OF st st rep long]
  obtain err d1 s2 d2 s3 d3 where
    "run_jsonl sample_codec (SetName (Some ''x'')) (new_jsonl sample_metadata) (sample_disk [Breaks 7 (missing_file ''f'')]) = (Inl err, d1)"
    "run_jsonl sample_codec (SetName (Some ''x'')) (new_jsonl sample_metadata) d1 = (Inr s2, d2)" "jsonlState s2 = st'"
    "load_jsonl sample_codec ''f'' d2 = (Inr s3, d3)" "jsonlState s3 = newSessionState"
    by blast
  moreover have "name newSessionState = None" by (simp add: newSessionState_def)
  ultimately show ?thesis using named by metis
qed

end
