(* ===== verification/Framing.thy ===== *)
theory Framing
  imports JsValues
begin

section \<open>Length-prefixed framing\<close>

text \<open>
  The model of \<^verbatim>\<open>packages/protocol/src/framing.ts\<close>: \<open>encodeFrame\<close>,
  \<open>assertCompleteFrame\<close> and the incremental \<open>FrameDecoder\<close> with its header buffer, payload
  blocks and state. The block under construction is an element of \<open>payloadBlocks\<close> that the code
  also holds in \<open>currentPayloadBlock\<close>; the model keeps its index there. The typed inputs make
  the \<open>instanceof Uint8Array\<close> checks unnecessary. The specification is \<open>parse_frames\<close>, which
  reads all frames of a byte string; the decoder refines it on every split of its input.
\<close>

subsection \<open>Definitions\<close>

abbreviation FRAME_HEADER_LENGTH :: nat where "FRAME_HEADER_LENGTH \<equiv> 4"

definition MAX_UINT32 :: nat where "MAX_UINT32 = 0xffffffff"

definition PAYLOAD_BLOCK_SIZE :: nat where "PAYLOAD_BLOCK_SIZE = 64 * 1024"

definition DEFAULT_MAX_FRAME_LENGTH :: nat where "DEFAULT_MAX_FRAME_LENGTH = 16 * 1024 * 1024"

text \<open>One constructor per error the module throws, with the numbers its message shows.\<close>

datatype frame_error =
    MaxFrameLengthRange            \<comment> \<open>RangeError: maxFrameLength must be an integer between ...\<close>
  | PayloadTooLong                 \<comment> \<open>RangeError: payload exceeds the 32-bit length limit\<close>
  | IncompletePrefix
  | FrameTooLong nat nat           \<comment> \<open>frame length, configured limit\<close>
  | NotOnePayload
  | DecoderEnded
  | DecoderFailed
  | TruncatedFrame

definition resolveMaxFrameLength :: "js_number option \<Rightarrow> frame_error + nat" where
  "resolveMaxFrameLength options =
     (let value = (case options of None \<Rightarrow> JInt (int DEFAULT_MAX_FRAME_LENGTH) | Some v \<Rightarrow> v)
      in if \<not> is_safe_integer value \<or> integer_value value < 0 \<or> integer_value value > int MAX_UINT32
         then Inl MaxFrameLengthRange
         else Inr (nat (integer_value value)))"

definition encodeFrame :: "byte list \<Rightarrow> frame_error + byte list" where
  "encodeFrame payload =
     (if length payload > MAX_UINT32 then Inl PayloadTooLong
      else let frame = replicate (FRAME_HEADER_LENGTH + length payload) 0;
               frame = frame[0 := byte_of (drop_bit 24 (length payload))];
               frame = frame[1 := byte_of (drop_bit 16 (length payload))];
               frame = frame[2 := byte_of (drop_bit 8 (length payload))];
               frame = frame[3 := byte_of (length payload)]
           in Inr (typed_set frame FRAME_HEADER_LENGTH payload))"

definition assertCompleteFrame :: "byte list \<Rightarrow> js_number option \<Rightarrow> frame_error + unit" where
  "assertCompleteFrame frame options =
     (if length frame < FRAME_HEADER_LENGTH then Inl IncompletePrefix
      else and_then (resolveMaxFrameLength options) (\<lambda>maxFrameLength.
        let n = be_nat32 frame
        in if n > maxFrameLength then Inl (FrameTooLong n maxFrameLength)
           else if length frame \<noteq> FRAME_HEADER_LENGTH + n then Inl NotOnePayload
           else Inr ()))"

datatype decoder_state = Open | Ended | Failed

record frame_decoder =
  header :: "byte list"
  headerLength :: nat
  maxFrameLength :: nat
  payloadBlocks :: "byte list list"
  currentPayloadBlock :: "nat option"
  currentPayloadBlockLength :: nat
  expectedPayloadLength :: "nat option"
  payloadLength :: nat
  decoderState :: decoder_state

definition newFrameDecoder :: "js_number option \<Rightarrow> frame_error + frame_decoder" where
  "newFrameDecoder options = and_then (resolveMaxFrameLength options) (\<lambda>limit.
     Inr \<lparr>header = replicate FRAME_HEADER_LENGTH 0, headerLength = 0, maxFrameLength = limit,
          payloadBlocks = [], currentPayloadBlock = None, currentPayloadBlockLength = 0,
          expectedPayloadLength = None, payloadLength = 0, decoderState = Open\<rparr>)"

definition fail_decoder :: "frame_decoder \<Rightarrow> frame_decoder" where
  "fail_decoder d = d\<lparr>decoderState := Failed, headerLength := 0, payloadBlocks := [],
     currentPayloadBlock := None, currentPayloadBlockLength := 0,
     expectedPayloadLength := None, payloadLength := 0\<rparr>"

text \<open>The inner loop of \<open>push\<close>: copy payload bytes into blocks.\<close>

definition needs_block :: "frame_decoder \<Rightarrow> bool" where
  "needs_block d = (case currentPayloadBlock d of
     None \<Rightarrow> True
   | Some i \<Rightarrow> currentPayloadBlockLength d = length (payloadBlocks d ! i))"

definition open_block :: "nat \<Rightarrow> frame_decoder \<Rightarrow> frame_decoder" where
  "open_block expected d =
     (if needs_block d
      then d\<lparr>payloadBlocks := payloadBlocks d @
               [replicate (min PAYLOAD_BLOCK_SIZE (expected - payloadLength d)) 0],
             currentPayloadBlock := Some (length (payloadBlocks d)),
             currentPayloadBlockLength := 0\<rparr>
      else d)"

definition copy_into_block :: "frame_decoder \<times> byte list \<Rightarrow> frame_decoder \<times> byte list" where
  "copy_into_block = (\<lambda>(d, rest).
     let i = the (currentPayloadBlock d);
         block = payloadBlocks d ! i;
         payloadBytes = min (length block - currentPayloadBlockLength d) (length rest)
     in (d\<lparr>payloadBlocks := (payloadBlocks d)
             [i := typed_set block (currentPayloadBlockLength d) (take payloadBytes rest)],
           currentPayloadBlockLength := currentPayloadBlockLength d + payloadBytes,
           payloadLength := payloadLength d + payloadBytes\<rparr>,
         drop payloadBytes rest))"

definition fill_more :: "nat \<Rightarrow> frame_decoder \<times> byte list \<Rightarrow> bool" where
  "fill_more expected = (\<lambda>(d, rest). rest \<noteq> [] \<and> payloadLength d < expected)"

definition fill_step :: "nat \<Rightarrow> frame_decoder \<times> byte list \<Rightarrow> frame_decoder \<times> byte list" where
  "fill_step expected = (\<lambda>(d, rest). copy_into_block (open_block expected d, rest))"

definition fill_payload :: "nat \<Rightarrow> frame_decoder \<times> byte list \<Rightarrow> frame_decoder \<times> byte list" where
  "fill_payload expected = while (fill_more expected) (fill_step expected)"

text \<open>The header part of the outer loop; both of its \<open>continue\<close>s leave no expected length.\<close>

type_synonym push_state = "frame_decoder \<times> byte list \<times> byte list list"

definition read_header :: "push_state \<Rightarrow> (frame_error \<times> frame_decoder) + push_state" where
  "read_header = (\<lambda>(d, rest, frames).
     if expectedPayloadLength d \<noteq> None then Inr (d, rest, frames)
     else
       let headerBytes = min (FRAME_HEADER_LENGTH - headerLength d) (length rest);
           d = d\<lparr>header := typed_set (header d) (headerLength d) (take headerBytes rest),
                 headerLength := headerLength d + headerBytes\<rparr>;
           rest = drop headerBytes rest
       in if headerLength d < FRAME_HEADER_LENGTH then Inr (d, rest, frames)
          else
            let frameLength = be_nat32 (header d); d = d\<lparr>headerLength := 0\<rparr>
            in if frameLength > maxFrameLength d
               then Inl (FrameTooLong frameLength (maxFrameLength d), fail_decoder d)
               else if frameLength = 0 then Inr (d, rest, frames @ [[]])
               else Inr (d\<lparr>expectedPayloadLength := Some frameLength, payloadBlocks := [],
                            currentPayloadBlock := None, currentPayloadBlockLength := 0,
                            payloadLength := 0\<rparr>, rest, frames))"

text \<open>The payload: its only block, or the blocks copied one after the other into one array.\<close>

fun copy_blocks :: "byte list \<Rightarrow> nat \<Rightarrow> byte list list \<Rightarrow> byte list" where
  "copy_blocks payload offset [] = payload"
| "copy_blocks payload offset (b # bs) =
     copy_blocks (typed_set payload offset b) (offset + length b) bs"

definition collect_payload :: "nat \<Rightarrow> byte list list \<Rightarrow> byte list" where
  "collect_payload expected blocks =
     (if length blocks = 1 then blocks ! 0 else copy_blocks (replicate expected 0) 0 blocks)"

definition take_payload :: "push_state \<Rightarrow> push_state" where
  "take_payload = (\<lambda>(d, rest, frames).
     case expectedPayloadLength d of
       None \<Rightarrow> (d, rest, frames)
     | Some expected \<Rightarrow>
         (case fill_payload expected (d, rest) of (d, rest) \<Rightarrow>
            if payloadLength d = expected
            then (d\<lparr>payloadBlocks := [], currentPayloadBlock := None,
                    currentPayloadBlockLength := 0, expectedPayloadLength := None,
                    payloadLength := 0\<rparr>,
                  rest, frames @ [collect_payload expected (payloadBlocks d)])
            else (d, rest, frames)))"

fun push_more :: "(frame_error \<times> frame_decoder) + push_state \<Rightarrow> bool" where
  "push_more (Inl e) = False"
| "push_more (Inr (d, rest, frames)) = (rest \<noteq> [])"

definition push_step ::
  "(frame_error \<times> frame_decoder) + push_state \<Rightarrow> (frame_error \<times> frame_decoder) + push_state" where
  "push_step s = and_then s (\<lambda>s. and_then (read_header s) (\<lambda>s. Inr (take_payload s)))"

definition push ::
  "frame_decoder \<Rightarrow> byte list \<Rightarrow> (frame_error \<times> frame_decoder) + (byte list list \<times> frame_decoder)" where
  "push d chunk =
     (case decoderState d of
        Ended \<Rightarrow> Inl (DecoderEnded, d)
      | Failed \<Rightarrow> Inl (DecoderFailed, d)
      | Open \<Rightarrow> and_then (while push_more push_step (Inr (d, chunk, [])))
                  (\<lambda>(d, rest, frames). Inr (frames, d)))"

definition end_stream :: "frame_decoder \<Rightarrow> (frame_error \<times> frame_decoder) + frame_decoder" where
  "end_stream d =
     (case decoderState d of
        Ended \<Rightarrow> Inl (DecoderEnded, d)
      | Failed \<Rightarrow> Inl (DecoderFailed, d)
      | Open \<Rightarrow> if headerLength d \<noteq> 0 \<or> expectedPayloadLength d \<noteq> None
                then Inl (TruncatedFrame, fail_decoder d)
                else Inr (d\<lparr>decoderState := Ended\<rparr>))"

subsection \<open>The specification: all frames of a byte string\<close>

function parse_frames :: "nat \<Rightarrow> byte list \<Rightarrow> nat + (byte list list \<times> byte list)" where
  "parse_frames limit bs =
     (if length bs < FRAME_HEADER_LENGTH then Inr ([], bs)
      else if be_nat32 bs > limit then Inl (be_nat32 bs)
      else if length bs < FRAME_HEADER_LENGTH + be_nat32 bs then Inr ([], bs)
      else and_then (parse_frames limit (drop (FRAME_HEADER_LENGTH + be_nat32 bs) bs)) (\<lambda>(fs, r).
             Inr (take (be_nat32 bs) (drop FRAME_HEADER_LENGTH bs) # fs, r)))"
  by pat_completeness auto
termination
  by (relation "measure (\<lambda>(limit, bs). length bs)") auto

declare parse_frames.simps [simp del]

subsection \<open>The payload blocks\<close>

definition payload_of :: "frame_decoder \<Rightarrow> byte list" where
  "payload_of d = take (payloadLength d) (concat (payloadBlocks d))"

definition blocks_ok :: "nat \<Rightarrow> frame_decoder \<Rightarrow> bool" where
  "blocks_ok n d \<longleftrightarrow>
     (payloadBlocks d = [] \<and> currentPayloadBlock d = None \<and> payloadLength d = 0) \<or>
     (\<exists>full b. payloadBlocks d = full @ [b] \<and> currentPayloadBlock d = Some (length full) \<and>
        currentPayloadBlockLength d \<le> length b \<and>
        payloadLength d = length (concat full) + currentPayloadBlockLength d \<and>
        length (concat full) + length b \<le> n \<and> length b \<le> PAYLOAD_BLOCK_SIZE)"

definition same_frame :: "frame_decoder \<Rightarrow> frame_decoder \<Rightarrow> bool" where
  "same_frame d d' \<longleftrightarrow> header d' = header d \<and> headerLength d' = headerLength d \<and>
     maxFrameLength d' = maxFrameLength d \<and> expectedPayloadLength d' = expectedPayloadLength d \<and>
     decoderState d' = decoderState d"

lemma same_frame_refl: "same_frame d d"
  by (simp add: same_frame_def)

lemma same_frame_trans: "same_frame a b \<Longrightarrow> same_frame b c \<Longrightarrow> same_frame a c"
  by (simp add: same_frame_def)

lemma open_block_spec:
  assumes "blocks_ok n d" and "payloadLength d < n"
  obtains full b where "payloadBlocks (open_block n d) = full @ [b]"
    and "currentPayloadBlock (open_block n d) = Some (length full)"
    and "currentPayloadBlockLength (open_block n d) < length b"
    and "payloadLength (open_block n d) = length (concat full) + currentPayloadBlockLength (open_block n d)"
    and "length (concat full) + length b \<le> n" "length b \<le> PAYLOAD_BLOCK_SIZE"
    and "payload_of (open_block n d) = payload_of d"
    and "same_frame d (open_block n d)"
    and "payloadLength (open_block n d) = payloadLength d"
proof (cases "payloadBlocks d = []")
  case True
  with assms have "currentPayloadBlock d = None" "payloadLength d = 0"
    by (auto simp: blocks_ok_def)
  with True assms that[of "[]" "replicate (min PAYLOAD_BLOCK_SIZE n) 0"] show thesis
    by (auto simp: open_block_def needs_block_def payload_of_def same_frame_def PAYLOAD_BLOCK_SIZE_def)
next
  case False
  with assms obtain full b where blk: "payloadBlocks d = full @ [b]"
    "currentPayloadBlock d = Some (length full)" "currentPayloadBlockLength d \<le> length b"
    "payloadLength d = length (concat full) + currentPayloadBlockLength d"
    "length (concat full) + length b \<le> n" "length b \<le> PAYLOAD_BLOCK_SIZE"
    by (auto simp: blocks_ok_def)
  show thesis
  proof (cases "currentPayloadBlockLength d = length b")
    case True
    with blk assms show thesis
      by (intro that[of "full @ [b]" "replicate (min PAYLOAD_BLOCK_SIZE (n - payloadLength d)) 0"])
        (auto simp: open_block_def needs_block_def payload_of_def same_frame_def PAYLOAD_BLOCK_SIZE_def)
  next
    case neq: False
    with blk have "open_block n d = d"
      by (simp add: open_block_def needs_block_def)
    with blk neq show thesis
      by (intro that[of full b]) (auto simp: same_frame_refl)
  qed
qed

lemma fill_step_spec:
  assumes "blocks_ok n d" and "payloadLength d < n" and "rest \<noteq> []"
  obtains d' j where "fill_step n (d, rest) = (d', drop j rest)"
    and "0 < j" "j \<le> length rest" "payloadLength d' = payloadLength d + j" "payloadLength d' \<le> n"
    and "blocks_ok n d'" "payload_of d' = payload_of d @ take j rest" "same_frame d d'"
proof -
  let ?d = "open_block n d"
  obtain full b where blk: "payloadBlocks ?d = full @ [b]" "currentPayloadBlock ?d = Some (length full)"
    "currentPayloadBlockLength ?d < length b"
    "payloadLength ?d = length (concat full) + currentPayloadBlockLength ?d"
    "length (concat full) + length b \<le> n" "payload_of ?d = payload_of d" "same_frame d ?d"
    "payloadLength ?d = payloadLength d" "length b \<le> PAYLOAD_BLOCK_SIZE"
    using open_block_spec[OF assms(1,2)] by blast
  let ?c = "currentPayloadBlockLength ?d"
  define j where "j = min (length b - ?c) (length rest)"
  have j: "0 < j" "j \<le> length rest" "?c + j \<le> length b"
    using blk(3) assms(3) by (auto simp: j_def)
  let ?b = "typed_set b ?c (take j rest)"
  let ?d' = "?d\<lparr>payloadBlocks := full @ [?b], currentPayloadBlockLength := ?c + j,
     payloadLength := payloadLength ?d + j\<rparr>"
  have step: "fill_step n (d, rest) = (?d', drop j rest)"
    using blk(1,2) by (simp add: fill_step_def copy_into_block_def j_def Let_def)
  have len: "length ?b = length b" and tk: "take (?c + j) ?b = take ?c b @ take j rest"
    using j take_typed_set[of ?c "take j rest" b] by (auto simp: length_typed_set)
  have "payload_of ?d' = concat full @ take (?c + j) ?b"
    using blk(4) by (simp add: payload_of_def)
  also have "\<dots> = payload_of ?d @ take j rest"
    using blk(1,4) tk by (simp add: payload_of_def)
  finally have pay: "payload_of ?d' = payload_of d @ take j rest"
    using blk(6) by simp
  have ok: "blocks_ok n ?d'"
    using blk len j by (auto simp: blocks_ok_def)
  show thesis
    using blk len j by (intro that[OF step _ _ _ _ ok pay]) (auto simp: same_frame_def)
qed

lemma fill_payload_spec:
  assumes "blocks_ok n d" and "payloadLength d \<le> n"
  obtains d' where "fill_payload n (d, rest) = (d', drop (n - payloadLength d) rest)"
    and "blocks_ok n d'" "payload_of d' = payload_of d @ take (n - payloadLength d) rest"
    and "payloadLength d' = payloadLength d + min (n - payloadLength d) (length rest)"
    and "same_frame d d'"
proof -
  have "\<exists>d'. fill_payload n (d, rest) = (d', drop (n - payloadLength d) rest) \<and>
     blocks_ok n d' \<and> payload_of d' = payload_of d @ take (n - payloadLength d) rest \<and>
     payloadLength d' = payloadLength d + min (n - payloadLength d) (length rest) \<and> same_frame d d'"
    using assms
  proof (induction "length rest" arbitrary: d rest rule: less_induct)
    case less
    show ?case
    proof (cases "rest \<noteq> [] \<and> payloadLength d < n")
      case False
      then have "fill_payload n (d, rest) = (d, rest)"
        unfolding fill_payload_def by (subst while_unfold) (auto simp: fill_more_def)
      with False less.prems show ?thesis
        by (auto simp: same_frame_refl)
    next
      case True
      then obtain d1 j where s: "fill_step n (d, rest) = (d1, drop j rest)"
        "0 < j" "j \<le> length rest" "payloadLength d1 = payloadLength d + j" "payloadLength d1 \<le> n"
        "blocks_ok n d1" "payload_of d1 = payload_of d @ take j rest" "same_frame d d1"
        using fill_step_spec[OF less.prems(1)] by metis
      have unf: "fill_payload n (d, rest) = fill_payload n (d1, drop j rest)"
        unfolding fill_payload_def using True s(1)
        by (subst while_unfold) (auto simp: fill_more_def)
      have "length (drop j rest) < length rest"
        using s(2,3) True by auto
      from less.hyps[OF this s(6,5)] obtain d' where d':
        "fill_payload n (d1, drop j rest) = (d', drop (n - payloadLength d1) (drop j rest))"
        "blocks_ok n d'" "payload_of d' = payload_of d1 @ take (n - payloadLength d1) (drop j rest)"
        "payloadLength d' = payloadLength d1 + min (n - payloadLength d1) (length (drop j rest))"
        "same_frame d1 d'" by blast
      have k: "n - payloadLength d = j + (n - payloadLength d1)"
        using s(4,5) by simp
      have "drop (n - payloadLength d1) (drop j rest) = drop (n - payloadLength d) rest"
        by (simp only: k drop_drop add.commute)
      moreover have "payload_of d' = payload_of d @ take (n - payloadLength d) rest"
        by (simp only: k take_add d'(3) s(7) append_assoc)
      moreover have "payloadLength d' = payloadLength d + min (n - payloadLength d) (length rest)"
        using d'(4) s(2-5) by simp
      moreover have "same_frame d d'"
        by (rule same_frame_trans[OF s(8) d'(5)])
      ultimately show ?thesis
        using unf d'(1,2) by auto
    qed
  qed
  with that show thesis by blast
qed

subsection \<open>The decoder refines the specification\<close>

text \<open>The bytes of the frame under construction.\<close>

definition pending_bytes :: "frame_decoder \<Rightarrow> byte list" where
  "pending_bytes d = (case expectedPayloadLength d of
     None \<Rightarrow> take (headerLength d) (header d)
   | Some n \<Rightarrow> header d @ payload_of d)"

definition decoder_inv :: "frame_decoder \<Rightarrow> bool" where
  "decoder_inv d \<longleftrightarrow> length (header d) = FRAME_HEADER_LENGTH \<and> headerLength d < FRAME_HEADER_LENGTH \<and>
     (case expectedPayloadLength d of
        None \<Rightarrow> True
      | Some n \<Rightarrow> headerLength d = 0 \<and> n = be_nat32 (header d) \<and> n \<le> maxFrameLength d \<and>
                  blocks_ok n d \<and> payloadLength d < n)"

lemma payload_length: "blocks_ok n d \<Longrightarrow> length (payload_of d) = payloadLength d"
  by (auto simp: blocks_ok_def payload_of_def)

lemma copy_blocks_concat:
  "length (concat bs) + off = length p \<Longrightarrow> copy_blocks p off bs = take off p @ concat bs"
proof (induction bs arbitrary: off p)
  case (Cons b bs)
  then have "length (concat bs) + (off + length b) = length (typed_set p off b)"
    by (simp add: length_typed_set)
  from Cons.IH[OF this] Cons.prems show ?case
    by (simp add: take_typed_set)
qed simp

lemma collect_payload_eq:
  assumes "blocks_ok n d" and "payloadLength d = n" and "0 < n"
  shows "collect_payload n (payloadBlocks d) = payload_of d"
proof -
  from assms have len: "length (concat (payloadBlocks d)) = n"
    by (auto simp: blocks_ok_def)
  then have "payload_of d = concat (payloadBlocks d)"
    using assms by (simp add: payload_of_def)
  moreover have "collect_payload n (payloadBlocks d) = concat (payloadBlocks d)"
  proof (cases "length (payloadBlocks d) = 1")
    case True
    then show ?thesis
      by (cases "payloadBlocks d") (auto simp: collect_payload_def)
  next
    case False
    then show ?thesis
      using len copy_blocks_concat[of "payloadBlocks d" 0 "replicate n 0"]
      by (simp add: collect_payload_def)
  qed
  ultimately show ?thesis by simp
qed

lemma parse_short: "length bs < FRAME_HEADER_LENGTH \<Longrightarrow> parse_frames l bs = Inr ([], bs)"
  by (simp add: parse_frames.simps)

lemma parse_partial:
  "FRAME_HEADER_LENGTH \<le> length bs \<Longrightarrow> be_nat32 bs \<le> l \<Longrightarrow> length bs < FRAME_HEADER_LENGTH + be_nat32 bs \<Longrightarrow>
   parse_frames l bs = Inr ([], bs)"
  by (simp add: parse_frames.simps)

lemma be_nat32_append: "length h = 4 \<Longrightarrow> be_nat32 (h @ bs) = be_nat32 h"
  by (simp add: be_nat32_def nth_append)

lemma parse_too_long:
  "length h = FRAME_HEADER_LENGTH \<Longrightarrow> be_nat32 h > l \<Longrightarrow> parse_frames l (h @ bs) = Inl (be_nat32 h)"
  by (simp add: parse_frames.simps be_nat32_append)

lemma parse_whole:
  "length h = FRAME_HEADER_LENGTH \<Longrightarrow> be_nat32 h = length p \<Longrightarrow> length p \<le> l \<Longrightarrow>
   parse_frames l (h @ p @ bs) =
     and_then (parse_frames l bs) (\<lambda>(fs, r). Inr (p # fs, r))"
  by (subst parse_frames.simps) (simp add: be_nat32_append)

lemma pending_incomplete:
  assumes "decoder_inv d"
  shows "parse_frames (maxFrameLength d) (pending_bytes d) = Inr ([], pending_bytes d)"
proof (cases "expectedPayloadLength d")
  case None
  with assms show ?thesis
    by (intro parse_short) (simp add: decoder_inv_def pending_bytes_def)
next
  case (Some n)
  with assms show ?thesis
    by (intro parse_partial)
      (auto simp: decoder_inv_def pending_bytes_def be_nat32_append payload_length)
qed

text \<open>What is still to be returned: the frames so far and all frames of the bytes to come.\<close>

definition remaining :: "push_state \<Rightarrow> nat + (byte list list \<times> byte list)" where
  "remaining = (\<lambda>(d, rest, frames).
     and_then (parse_frames (maxFrameLength d) (pending_bytes d @ rest)) (\<lambda>(fs, r). Inr (frames @ fs, r)))"

definition good_state :: "push_state \<Rightarrow> bool" where
  "good_state = (\<lambda>(d, rest, frames). decoder_inv d \<and> decoderState d = Open)"

lemma and_then_fuse:
  "and_then (and_then m (\<lambda>(fs, r). Inr (p # fs, r))) (\<lambda>(fs, r). Inr (frames @ fs, r)) =
   and_then m (\<lambda>(fs, r). Inr ((frames @ [p]) @ fs, r))"
  by (cases m) auto

lemma take_payload_spec:
  assumes inv: "good_state (d, rest, frames)" and n: "expectedPayloadLength d = Some n"
  obtains d' rest' frames' where "take_payload (d, rest, frames) = (d', rest', frames')"
    and "good_state (d', rest', frames')" "maxFrameLength d' = maxFrameLength d"
    and "length rest' \<le> length rest" "rest \<noteq> [] \<Longrightarrow> length rest' < length rest"
    and "remaining (d', rest', frames') = remaining (d, rest, frames)"
proof -
  let ?k = "n - payloadLength d"
  from inv n have dinv: "length (header d) = 4" "headerLength d = 0" "n = be_nat32 (header d)"
    "n \<le> maxFrameLength d" "blocks_ok n d" "payloadLength d < n" "decoderState d = Open"
    by (auto simp: good_state_def decoder_inv_def)
  obtain d1 where d1: "fill_payload n (d, rest) = (d1, drop ?k rest)" "blocks_ok n d1"
    "payload_of d1 = payload_of d @ take ?k rest"
    "payloadLength d1 = payloadLength d + min ?k (length rest)" "same_frame d d1"
    using fill_payload_spec[OF dinv(5), of rest] dinv(6) by auto
  show thesis
  proof (cases "?k \<le> length rest")
    case True
    let ?d' = "d1\<lparr>payloadBlocks := [], currentPayloadBlock := None, currentPayloadBlockLength := 0,
       expectedPayloadLength := None, payloadLength := 0\<rparr>"
    have whole: "payloadLength d1 = n"
      using d1(4) True dinv(6) by simp
    have "collect_payload n (payloadBlocks d1) = payload_of d1"
      using collect_payload_eq[OF d1(2) whole] dinv(6) by simp
    then have step: "take_payload (d, rest, frames) = (?d', drop ?k rest, frames @ [payload_of d1])"
      using n d1(1) whole by (simp add: take_payload_def)
    have good: "good_state (?d', drop ?k rest, frames @ [payload_of d1])"
      using d1(5) dinv by (simp add: good_state_def decoder_inv_def same_frame_def)
    have plen: "length (payload_of d1) = n"
      using payload_length[OF d1(2)] whole by simp
    have "pending_bytes d @ rest = header d @ payload_of d1 @ drop ?k rest"
      using n d1(3) by (simp add: pending_bytes_def)
    then have "parse_frames (maxFrameLength d) (pending_bytes d @ rest) =
       and_then (parse_frames (maxFrameLength d) (drop ?k rest)) (\<lambda>(fs, r). Inr (payload_of d1 # fs, r))"
      using parse_whole[OF dinv(1), of "payload_of d1"] plen dinv(3,4) by simp
    moreover have "pending_bytes ?d' = []"
      using d1(5) dinv(2) by (simp add: pending_bytes_def same_frame_def)
    moreover have "maxFrameLength ?d' = maxFrameLength d"
      using d1(5) by (simp add: same_frame_def)
    ultimately have "remaining (?d', drop ?k rest, frames @ [payload_of d1]) = remaining (d, rest, frames)"
      unfolding remaining_def by (simp only: prod.case and_then_fuse append_Nil)
    moreover have "rest \<noteq> [] \<Longrightarrow> length (drop ?k rest) < length rest"
      using dinv(6) by (cases rest) auto
    ultimately show thesis
      using that[OF step good] d1(5) by (simp add: same_frame_def)
  next
    case False
    have part: "payloadLength d1 \<noteq> n" "payloadLength d1 < n"
      using d1(4) False dinv(6) by auto
    have step: "take_payload (d, rest, frames) = (d1, drop ?k rest, frames)"
      using n d1(1) part by (simp add: take_payload_def)
    have good: "good_state (d1, drop ?k rest, frames)"
      using d1(2,5) dinv n part by (simp add: good_state_def decoder_inv_def same_frame_def)
    have "pending_bytes d1 = pending_bytes d @ rest" "maxFrameLength d1 = maxFrameLength d"
      using d1(3,5) n False by (auto simp: pending_bytes_def same_frame_def)
    then have "remaining (d1, drop ?k rest, frames) = remaining (d, rest, frames)"
      using False by (simp add: remaining_def)
    then show thesis
      using that[OF step good] d1(5) False by (auto simp: same_frame_def)
  qed
qed

text \<open>Reading header bytes: the header buffer after the read.\<close>

lemma header_append:
  assumes "length (header d) = 4" and "headerLength d + k \<le> 4" and "k \<le> length rest"
  shows "length (typed_set (header d) (headerLength d) (take k rest)) = 4"
    and "take (headerLength d + k) (typed_set (header d) (headerLength d) (take k rest)) =
         take (headerLength d) (header d) @ take k rest"
  using assms take_typed_set[of "headerLength d" "take k rest" "header d"]
  by (auto simp: length_typed_set)

text \<open>One round of the outer loop: it fails as the specification does, or makes progress.\<close>

definition step_fails :: "push_state \<Rightarrow> bool" where
  "step_fails s = (\<exists>n d'. push_step (Inr s) = Inl (FrameTooLong n (maxFrameLength (fst s)), d') \<and>
     decoderState d' = Failed \<and> remaining s = Inl n)"

definition step_progresses :: "push_state \<Rightarrow> bool" where
  "step_progresses s = (\<exists>s'. push_step (Inr s) = Inr s' \<and> good_state s' \<and>
     length (fst (snd s')) < length (fst (snd s)) \<and>
     maxFrameLength (fst s') = maxFrameLength (fst s) \<and> remaining s' = remaining s)"

lemma push_step_payload:
  assumes good: "good_state (d, rest, frames)" and "rest \<noteq> []" and n: "expectedPayloadLength d = Some n"
  shows "step_progresses (d, rest, frames)"
proof -
  have "push_step (Inr (d, rest, frames)) = Inr (take_payload (d, rest, frames))"
    using n by (simp add: push_step_def read_header_def)
  with take_payload_spec[OF good n] \<open>rest \<noteq> []\<close> show ?thesis
    unfolding step_progresses_def by (metis fst_conv snd_conv)
qed

lemma push_step_header:
  assumes good: "good_state (d, rest, frames)" and ne: "rest \<noteq> []" and n: "expectedPayloadLength d = None"
  shows "step_fails (d, rest, frames) \<or> step_progresses (d, rest, frames)"
proof -
  define k where "k = min (FRAME_HEADER_LENGTH - headerLength d) (length rest)"
  define h where "h = typed_set (header d) (headerLength d) (take k rest)"
  let ?d1 = "d\<lparr>header := h, headerLength := headerLength d + k\<rparr>"
  from good have inv: "length (header d) = 4" "headerLength d < 4" "decoderState d = Open"
    by (auto simp: good_state_def decoder_inv_def)
  then have k: "0 < k" "headerLength d + k \<le> 4" "k \<le> length rest"
    using ne by (auto simp: k_def)
  have h: "length h = 4" "take (headerLength d + k) h = take (headerLength d) (header d) @ take k rest"
    using header_append[OF inv(1) k(2,3)] by (auto simp: h_def)
  have pend: "pending_bytes d @ rest = take (headerLength d + k) h @ drop k rest"
    using n h(2) by (simp add: pending_bytes_def)
  have shrink: "length (drop k rest) < length rest"
    using k by simp
  note unf = push_step_def read_header_def n k_def[symmetric] h_def[symmetric] Let_def
  show ?thesis
  proof (cases "headerLength d + k < 4")
    case True
    then have step: "push_step (Inr (d, rest, frames)) = Inr (?d1, drop k rest, frames)"
      using n by (simp add: unf take_payload_def)
    have "good_state (?d1, drop k rest, frames)" "pending_bytes ?d1 = take (headerLength d + k) h"
      using inv n h(1) True by (auto simp: good_state_def decoder_inv_def pending_bytes_def)
    then show ?thesis
      unfolding step_progresses_def using step shrink pend by (simp add: remaining_def)
  next
    case False
    with k have full: "headerLength d + k = 4" by simp
    let ?d2 = "?d1\<lparr>headerLength := 0\<rparr>"
    have pend: "pending_bytes d @ rest = h @ drop k rest"
      using pend full h(1) by simp
    consider "be_nat32 h > maxFrameLength d" | "be_nat32 h = 0" | "0 < be_nat32 h" "be_nat32 h \<le> maxFrameLength d"
      by linarith
    then show ?thesis
    proof cases
      case 1
      then have "push_step (Inr (d, rest, frames)) =
          Inl (FrameTooLong (be_nat32 h) (maxFrameLength d), fail_decoder ?d2)"
        using full by (simp add: unf)
      moreover have "remaining (d, rest, frames) = Inl (be_nat32 h)"
        using parse_too_long[OF h(1) 1] pend by (simp add: remaining_def)
      ultimately show ?thesis
        unfolding step_fails_def by (auto simp: fail_decoder_def)
    next
      case 2
      then have step: "push_step (Inr (d, rest, frames)) = Inr (?d2, drop k rest, frames @ [[]])"
        using full n by (simp add: unf take_payload_def)
      have "remaining (d, rest, frames) = remaining (?d2, drop k rest, frames @ [[]])"
        using n pend parse_whole[OF h(1), of "[]" "maxFrameLength d" "drop k rest"] 2
        by (simp add: remaining_def and_then_fuse pending_bytes_def)
      moreover have "good_state (?d2, drop k rest, frames @ [[]])"
        using inv n h(1) by (simp add: good_state_def decoder_inv_def)
      ultimately show ?thesis
        unfolding step_progresses_def using step shrink by simp
    next
      case 3
      let ?d3 = "?d2\<lparr>expectedPayloadLength := Some (be_nat32 h), payloadBlocks := [],
          currentPayloadBlock := None, currentPayloadBlockLength := 0, payloadLength := 0\<rparr>"
      have step: "push_step (Inr (d, rest, frames)) = Inr (take_payload (?d3, drop k rest, frames))"
        using full n 3 by (simp add: unf)
      have good3: "good_state (?d3, drop k rest, frames)"
        using inv h(1) 3 by (simp add: good_state_def decoder_inv_def blocks_ok_def)
      have rem3: "remaining (?d3, drop k rest, frames) = remaining (d, rest, frames)"
        using pend by (simp add: remaining_def pending_bytes_def payload_of_def)
      have e3: "expectedPayloadLength ?d3 = Some (be_nat32 h)" by simp
      obtain d' rest' frames' where t: "take_payload (?d3, drop k rest, frames) = (d', rest', frames')"
        "good_state (d', rest', frames')" "maxFrameLength d' = maxFrameLength ?d3"
        "length rest' \<le> length (drop k rest)"
        "remaining (d', rest', frames') = remaining (?d3, drop k rest, frames)"
        using take_payload_spec[OF good3 e3] by blast
      then show ?thesis
        unfolding step_progresses_def using step shrink rem3 by auto
    qed
  qed
qed

lemma push_step_spec:
  "good_state s \<Longrightarrow> fst (snd s) \<noteq> [] \<Longrightarrow> step_fails s \<or> step_progresses s"
  by (cases s) (metis fst_conv snd_conv option.exhaust push_step_header push_step_payload)


subsection \<open>The outer loop\<close>

lemma push_loop_spec:
  assumes "good_state s"
  shows "(\<exists>n d'. while push_more push_step (Inr s) = Inl (FrameTooLong n (maxFrameLength (fst s)), d') \<and>
              decoderState d' = Failed \<and> remaining s = Inl n) \<or>
         (\<exists>d' frames'. while push_more push_step (Inr s) = Inr (d', [], frames') \<and>
              good_state (d', [], frames') \<and> maxFrameLength d' = maxFrameLength (fst s) \<and>
              remaining s = Inr (frames', pending_bytes d'))"
  using assms
proof (induction "length (fst (snd s))" arbitrary: s rule: less_induct)
  case less
  obtain d rest frames where s: "s = (d, rest, frames)" by (cases s) auto
  show ?case
  proof (cases "rest = []")
    case True
    have "remaining s = Inr (frames, pending_bytes d)"
      using pending_incomplete[of d] less.prems s True by (simp add: remaining_def good_state_def)
    moreover have "while push_more push_step (Inr s) = Inr s"
      using s True by (subst while_unfold) simp
    ultimately show ?thesis
      using less.prems s True by auto
  next
    case False
    have unf: "while push_more push_step (Inr s) = while push_more push_step (push_step (Inr s))"
      using s False by (subst while_unfold) simp
    from push_step_spec[OF less.prems] s False consider "step_fails s" | "step_progresses s" by auto
    then show ?thesis
    proof cases
      case 1
      then obtain n d' where f: "push_step (Inr s) = Inl (FrameTooLong n (maxFrameLength (fst s)), d')"
        "decoderState d' = Failed" "remaining s = Inl n"
        by (auto simp: step_fails_def)
      moreover have "while push_more push_step (push_step (Inr s)) = push_step (Inr s)"
        using f(1) by (subst while_unfold) simp
      ultimately show ?thesis
        using unf by auto
    next
      case 2
      then obtain s' where p: "push_step (Inr s) = Inr s'" "good_state s'"
        "length (fst (snd s')) < length (fst (snd s))" "maxFrameLength (fst s') = maxFrameLength (fst s)"
        "remaining s' = remaining s"
        by (auto simp: step_progresses_def)
      from less.hyps[OF p(3,2)] show ?thesis
        using unf p by simp
    qed
  qed
qed

definition open_decoder :: "frame_decoder \<Rightarrow> bool" where
  "open_decoder d \<longleftrightarrow> decoder_inv d \<and> decoderState d = Open"

lemma push_spec:
  assumes "open_decoder d"
  shows "(\<exists>n d'. push d chunk = Inl (FrameTooLong n (maxFrameLength d), d') \<and> decoderState d' = Failed \<and>
              parse_frames (maxFrameLength d) (pending_bytes d @ chunk) = Inl n) \<or>
         (\<exists>d' frames. push d chunk = Inr (frames, d') \<and> open_decoder d' \<and>
              maxFrameLength d' = maxFrameLength d \<and>
              parse_frames (maxFrameLength d) (pending_bytes d @ chunk) = Inr (frames, pending_bytes d'))"
proof -
  have good: "good_state (d, chunk, [])"
    using assms by (simp add: good_state_def open_decoder_def)
  have rem: "remaining (d, chunk, []) = parse_frames (maxFrameLength d) (pending_bytes d @ chunk)"
    by (cases "parse_frames (maxFrameLength d) (pending_bytes d @ chunk)") (auto simp: remaining_def)
  show ?thesis
    using push_loop_spec[OF good] assms
    unfolding push_def open_decoder_def rem by (auto simp: good_state_def)
qed

lemma parse_frames_append:
  "parse_frames l (a @ b) = and_then (parse_frames l a) (\<lambda>(fs, r).
     and_then (parse_frames l (r @ b)) (\<lambda>(gs, r'). Inr (fs @ gs, r')))"
proof (induction l a rule: parse_frames.induct)
  case (1 l a)
  have triv: "and_then m (\<lambda>(gs, r'). Inr ([] @ gs, r')) = m" for m :: "nat + (byte list list \<times> byte list)"
    by (cases m) auto
  show ?case
  proof (cases "length a < 4 \<or> be_nat32 a \<le> l \<and> length a < 4 + be_nat32 a")
    case True
    then have "parse_frames l a = Inr ([], a)"
      using parse_short[of a l] parse_partial[of a l] by fastforce
    then show ?thesis by (simp only: and_then.simps prod.case triv)
  next
    case False
    then have len: "4 \<le> length a" by simp
    obtain h t where a: "a = h @ t" "length h = 4"
      using len by (metis append_take_drop_id length_take min.absorb2)
    have n: "be_nat32 a = be_nat32 h" and nb: "be_nat32 (a @ b) = be_nat32 h"
      using a by (simp_all add: be_nat32_append)
    show ?thesis
    proof (cases "be_nat32 a > l")
      case True
      then show ?thesis
        using parse_too_long[OF a(2)] a(1) n by simp
    next
      case le: False
      with False n a have fit: "be_nat32 h \<le> length t" "be_nat32 h \<le> l" by auto
      obtain p q where t: "t = p @ q" "length p = be_nat32 h"
        using fit(1) by (metis append_take_drop_id length_take min.absorb2)
      have IH: "parse_frames l (q @ b) = and_then (parse_frames l q) (\<lambda>(fs, r).
          and_then (parse_frames l (r @ b)) (\<lambda>(gs, r'). Inr (fs @ gs, r')))"
        using "1.IH" False le n a t by simp
      have whole: "parse_frames l (h @ p @ r) = and_then (parse_frames l r) (\<lambda>(fs, r). Inr (p # fs, r))" for r
        using parse_whole[OF a(2), of p l r] t(2) fit(2) by simp
      have "a = h @ p @ q" "a @ b = h @ p @ q @ b"
        using a(1) t(1) by simp_all
      then show ?thesis
        by (simp only: whole IH) (cases "parse_frames l q"; simp add: and_then_assoc case_prod_unfold)
    qed
  qed
qed


subsection \<open>The interface of a frame splitter\<close>

text \<open>
  What a reader of a byte stream needs of a frame decoder: it keeps the bytes of an unfinished
  frame, and one push returns the frames that the kept bytes and the chunk complete. \<open>feed_all\<close> feeds
  the chunks of a stream to any such decoder, of frames or of messages.
\<close>

fun feed_all :: "('d \<Rightarrow> byte list \<Rightarrow> 'e + ('m list \<times> 'd)) \<Rightarrow> 'd \<Rightarrow> byte list list \<Rightarrow>
    'e + ('m list \<times> 'd)" where
  "feed_all split d [] = Inr ([], d)"
| "feed_all split d (c # cs) =
     and_then (split d c) (\<lambda>(fs, d). and_then (feed_all split d cs) (\<lambda>(gs, d). Inr (fs @ gs, d)))"

definition frame_bytes :: "byte list \<Rightarrow> byte list" where
  "frame_bytes payload = be_bytes32 (length payload) @ payload"

lemma parse_frame_bytes:
  assumes "\<forall>p \<in> set ps. length p \<le> l" and "l \<le> MAX_UINT32"
  shows "parse_frames l (concat (map frame_bytes ps)) = Inr (ps, [])"
  using assms
proof (induction ps)
  case Nil
  show ?case by (simp add: parse_short)
next
  case (Cons p ps)
  have "be_nat32 (be_bytes32 (length p)) = length p"
    using Cons.prems by (intro be_nat32_bytes32_Nil) (auto simp: MAX_UINT32_def)
  then have "parse_frames l (be_bytes32 (length p) @ p @ concat (map frame_bytes ps)) =
      and_then (parse_frames l (concat (map frame_bytes ps))) (\<lambda>(fs, r). Inr (p # fs, r))"
    using Cons.prems by (intro parse_whole) auto
  with Cons show ?case
    by (simp add: frame_bytes_def[of p])
qed

locale frame_splitter =
  fixes split :: "'d \<Rightarrow> byte list \<Rightarrow> 'e + (byte list list \<times> 'd)"
    and pending :: "'d \<Rightarrow> byte list"
    and limit :: "'d \<Rightarrow> nat"
    and good :: "'d \<Rightarrow> bool"
  assumes split_frames: "good d \<Longrightarrow> parse_frames (limit d) (pending d @ c) = Inr (fs, r) \<Longrightarrow>
      \<exists>d'. split d c = Inr (fs, d') \<and> good d' \<and> limit d' = limit d \<and> pending d' = r"
    and split_error: "good d \<Longrightarrow> parse_frames (limit d) (pending d @ c) = Inl n \<Longrightarrow> \<exists>e. split d c = Inl e"
    and pending_parsed: "good d \<Longrightarrow> parse_frames (limit d) (pending d) = Inr ([], pending d)"
begin

lemma feed_all_frames:
  "good d \<Longrightarrow> parse_frames (limit d) (pending d @ concat cs) = Inr (fs, r) \<Longrightarrow>
   \<exists>d'. feed_all split d cs = Inr (fs, d') \<and> good d' \<and> limit d' = limit d \<and> pending d' = r"
proof (induction cs arbitrary: d fs r)
  case Nil
  then show ?case using pending_parsed by auto
next
  case (Cons c cs)
  have "parse_frames (limit d) ((pending d @ c) @ concat cs) = Inr (fs, r)"
    using Cons.prems(2) by simp
  then obtain fs1 r1 fs2 where 1: "parse_frames (limit d) (pending d @ c) = Inr (fs1, r1)"
    and 2: "parse_frames (limit d) (r1 @ concat cs) = Inr (fs2, r)" and fs: "fs = fs1 @ fs2"
    using parse_frames_append[of "limit d" "pending d @ c" "concat cs"] by (auto simp: result_simps)
  from split_frames[OF Cons.prems(1) 1] obtain d1 where d1: "split d c = Inr (fs1, d1)" "good d1"
    "limit d1 = limit d" "pending d1 = r1" by auto
  have "parse_frames (limit d1) (pending d1 @ concat cs) = Inr (fs2, r)"
    using 2 d1 by simp
  from Cons.IH[OF d1(2) this] obtain d2 where "feed_all split d1 cs = Inr (fs2, d2)" "good d2"
    "limit d2 = limit d" "pending d2 = r" using d1(3) by auto
  with d1(1) fs show ?case by simp
qed

lemma feed_all_error:
  "good d \<Longrightarrow> parse_frames (limit d) (pending d @ concat cs) = Inl n \<Longrightarrow> \<exists>e. feed_all split d cs = Inl e"
proof (induction cs arbitrary: d)
  case Nil
  then show ?case using pending_parsed by auto
next
  case (Cons c cs)
  show ?case
  proof (cases "parse_frames (limit d) (pending d @ c)")
    case (Inl m)
    with split_error[OF Cons.prems(1)] obtain e where "split d c = Inl e" by blast
    then show ?thesis by simp
  next
    case (Inr x)
    then obtain fs r where 1: "parse_frames (limit d) (pending d @ c) = Inr (fs, r)" by (cases x) auto
    from split_frames[OF Cons.prems(1) 1] obtain d1 where d1: "split d c = Inr (fs, d1)" "good d1"
      "limit d1 = limit d" "pending d1 = r" by auto
    have "parse_frames (limit d) ((pending d @ c) @ concat cs) = Inl n"
      using Cons.prems(2) by simp
    then have "parse_frames (limit d) (r @ concat cs) = Inl n"
      using 1 parse_frames_append[of "limit d" "pending d @ c" "concat cs"]
      by (cases "parse_frames (limit d) (r @ concat cs)") auto
    with Cons.IH[of d1] d1 obtain e where "feed_all split d1 cs = Inl e" by auto
    with d1(1) show ?thesis by simp
  qed
qed

lemma feed_all_roundtrip:
  assumes "good d" and "pending d = []" and "limit d \<le> MAX_UINT32"
    and "\<forall>p \<in> set ps. length p \<le> limit d" and "concat cs = concat (map frame_bytes ps)"
  shows "\<exists>d'. feed_all split d cs = Inr (ps, d') \<and> good d' \<and> limit d' = limit d \<and> pending d' = []"
  using assms parse_frame_bytes[OF assms(4,3)] by (intro feed_all_frames) auto

end

interpretation decoder: frame_splitter push pending_bytes maxFrameLength open_decoder
proof (unfold_locales, goal_cases)
  case (1 d c fs r)
  then show ?case using push_spec[OF 1(1), of c] by auto
next
  case (2 d c n)
  then show ?case using push_spec[OF 2(1), of c] by auto
next
  case (3 d)
  then show ?case using pending_incomplete by (simp add: open_decoder_def)
qed

lemma new_decoder:
  assumes "newFrameDecoder options = Inr d"
  shows "open_decoder d" "pending_bytes d = []" "maxFrameLength d \<le> MAX_UINT32"
    "resolveMaxFrameLength options = Inr (maxFrameLength d)"
  using assms
  by (auto simp: newFrameDecoder_def resolveMaxFrameLength_def Let_def result_simps open_decoder_def
      decoder_inv_def pending_bytes_def split: if_splits)

lemma encodeFrame_eq:
  "encodeFrame payload = (if length payload > MAX_UINT32 then Inl PayloadTooLong else Inr (frame_bytes payload))"
  by (simp add: encodeFrame_def frame_bytes_def be_bytes32_def typed_set_def numeral_eq_Suc)

lemma end_stream_spec:
  assumes "open_decoder d"
  shows "end_stream d = (if pending_bytes d = [] then Inr (d\<lparr>decoderState := Ended\<rparr>)
                         else Inl (TruncatedFrame, fail_decoder d))"
  using assms
  by (auto simp: end_stream_def open_decoder_def decoder_inv_def pending_bytes_def
      split: option.splits)


subsection \<open>Properties\<close>

text \<open>C7: Whatever payloads within the limit are framed one after the other, and however the bytes
  are cut into chunks, the decoder returns exactly the payloads, in order, and then accepts the end
  of the stream.\<close>

theorem framing_roundtrip:
  assumes "newFrameDecoder options = Inr d" and "\<forall>p \<in> set ps. length p \<le> maxFrameLength d"
    and "map encodeFrame ps = map Inr frames" and "concat chunks = concat frames"
  shows "\<exists>d'. feed_all push d chunks = Inr (ps, d') \<and> end_stream d' = Inr (d'\<lparr>decoderState := Ended\<rparr>)"
proof -
  have "frames = map frame_bytes ps"
    using assms(3) by (induction ps arbitrary: frames) (auto simp: encodeFrame_eq split: if_splits)
  then have "concat chunks = concat (map frame_bytes ps)"
    using assms(4) by simp
  from decoder.feed_all_roundtrip[OF new_decoder(1-3)[OF assms(1)] assms(2) this]
  show ?thesis by (auto simp: end_stream_spec)
qed

theorem framing_roundtrip_witness:
  "\<exists>d d'. newFrameDecoder None = Inr d \<and>
     feed_all push d [[0, 0, 0], [2, 7], [8, 0, 0, 0, 0]] = Inr ([[7, 8], []], d') \<and>
     end_stream d' = Inr (d'\<lparr>decoderState := Ended\<rparr>)"
proof -
  obtain d where d: "newFrameDecoder None = Inr d" "maxFrameLength d = DEFAULT_MAX_FRAME_LENGTH"
    by (simp add: newFrameDecoder_def resolveMaxFrameLength_def MAX_UINT32_def
        DEFAULT_MAX_FRAME_LENGTH_def MAX_SAFE_INTEGER_def)
  have fs: "map encodeFrame [[7, 8], []] = map Inr [[0, 0, 0, 2, 7, 8], [0, 0, 0, 0]]"
    by (simp add: encodeFrame_eq frame_bytes_def be_bytes32_def byte_of_def MAX_UINT32_def drop_bit_eq_div)
  show ?thesis
    using framing_roundtrip[OF d(1) _ fs, of "[[0, 0, 0], [2, 7], [8, 0, 0, 0, 0]]"] d
    by (auto simp: DEFAULT_MAX_FRAME_LENGTH_def)
qed

text \<open>C24: On every input the decoder computes what the specification reads from the bytes kept
  from earlier chunks and the new chunk: the same complete frames with the rest kept, or the error of
  the first oversized frame, after which the decoder stays failed.\<close>

theorem push_refines_parse:
  assumes "open_decoder d"
  shows "case push d chunk of
      Inr (frames, d') \<Rightarrow>
        parse_frames (maxFrameLength d) (pending_bytes d @ chunk) = Inr (frames, pending_bytes d') \<and>
        open_decoder d' \<and> maxFrameLength d' = maxFrameLength d
    | Inl (e, d') \<Rightarrow>
        (\<exists>n. e = FrameTooLong n (maxFrameLength d) \<and> maxFrameLength d < n \<and>
             parse_frames (maxFrameLength d) (pending_bytes d @ chunk) = Inl n) \<and>
        (\<forall>c. push d' c = Inl (DecoderFailed, d')) \<and> end_stream d' = Inl (DecoderFailed, d')"
proof -
  have "maxFrameLength d < n" if "parse_frames (maxFrameLength d) bs = Inl n" for n bs
    using that
  proof (induction "maxFrameLength d" bs rule: parse_frames.induct)
    case (1 bs)
    then show ?case
      by (subst (asm) (2) parse_frames.simps) (auto simp: result_simps split: if_splits)
  qed
  with push_spec[OF assms, of chunk] show ?thesis
    by (auto simp: push_def end_stream_def)
qed

theorem push_refines_parse_witness:
  "\<exists>d. newFrameDecoder (Some (JInt 3)) = Inr d \<and>
    (case push d [0, 0, 0, 9, 1] of
      Inr (frames, d') \<Rightarrow>
        parse_frames (maxFrameLength d) (pending_bytes d @ [0, 0, 0, 9, 1]) = Inr (frames, pending_bytes d') \<and>
        open_decoder d' \<and> maxFrameLength d' = maxFrameLength d
    | Inl (e, d') \<Rightarrow>
        (\<exists>n. e = FrameTooLong n (maxFrameLength d) \<and> maxFrameLength d < n \<and>
             parse_frames (maxFrameLength d) (pending_bytes d @ [0, 0, 0, 9, 1]) = Inl n) \<and>
        (\<forall>c. push d' c = Inl (DecoderFailed, d')) \<and> end_stream d' = Inl (DecoderFailed, d'))"
proof -
  obtain d where d: "newFrameDecoder (Some (JInt 3)) = Inr d"
    by (simp add: newFrameDecoder_def resolveMaxFrameLength_def MAX_UINT32_def MAX_SAFE_INTEGER_def)
  from push_refines_parse[OF new_decoder(1)[OF d]] show ?thesis
    using d by blast
qed

text \<open>C3: Both loops of \<open>push\<close> stop on every chunk: the loops as written (the search for the first
  state in which the guard fails) return.\<close>

theorem push_terminates:
  assumes "open_decoder d"
  shows "(\<exists>r. while_option push_more push_step (Inr (d, chunk, [])) = Some r) \<and>
         (\<forall>n. expectedPayloadLength d = Some n \<longrightarrow>
              (\<exists>r. while_option (fill_more n) (fill_step n) (d, chunk) = Some r))"
proof (intro conjI allI impI)
  show "\<exists>r. while_option push_more push_step (Inr (d, chunk, [])) = Some r"
  proof (rule measure_while_option_Some[where P = "case_sum (\<lambda>_. True) good_state"
        and f = "case_sum (\<lambda>_. 0) (\<lambda>s. length (fst (snd s)))"])
    fix s :: "(frame_error \<times> frame_decoder) + push_state"
    assume "case_sum (\<lambda>_. True) good_state s" and "push_more s"
    then obtain t where t: "s = Inr t" "good_state t" "fst (snd t) \<noteq> []"
      by (cases s rule: push_more.cases) auto
    with push_step_spec[of t] show "case_sum (\<lambda>_. True) good_state (push_step s) \<and>
        case_sum (\<lambda>_. 0) (\<lambda>s. length (fst (snd s))) (push_step s) <
        case_sum (\<lambda>_. 0) (\<lambda>s. length (fst (snd s))) s"
      by (auto simp: step_fails_def step_progresses_def)
  qed (use assms in \<open>simp add: good_state_def open_decoder_def\<close>)
next
  fix n
  assume n: "expectedPayloadLength d = Some n"
  show "\<exists>r. while_option (fill_more n) (fill_step n) (d, chunk) = Some r"
  proof (rule measure_while_option_Some[where P = "\<lambda>(d, rest). blocks_ok n d \<and> payloadLength d \<le> n"
        and f = "\<lambda>(d, rest). length rest"])
    fix s :: "frame_decoder \<times> byte list"
    assume "case s of (d, rest) \<Rightarrow> blocks_ok n d \<and> payloadLength d \<le> n" and "fill_more n s"
    moreover obtain d1 rest where "s = (d1, rest)" by (cases s)
    ultimately show "(case fill_step n s of (d, rest) \<Rightarrow> blocks_ok n d \<and> payloadLength d \<le> n) \<and>
        (case fill_step n s of (d, rest) \<Rightarrow> length rest) < (case s of (d, rest) \<Rightarrow> length rest)"
      using fill_step_spec[of n d1 rest] by (fastforce simp: fill_more_def)
  qed (use assms n in \<open>auto simp: decoder_inv_def open_decoder_def\<close>)
qed

theorem push_terminates_witness:
  "\<exists>d. newFrameDecoder None = Inr d \<and>
     (\<exists>r. while_option push_more push_step (Inr (d, [0, 0, 0, 1, 5], [])) = Some r)"
proof -
  obtain d where "newFrameDecoder None = Inr d"
    by (simp add: newFrameDecoder_def resolveMaxFrameLength_def MAX_UINT32_def
        DEFAULT_MAX_FRAME_LENGTH_def MAX_SAFE_INTEGER_def)
  with push_terminates[OF new_decoder(1)[of None d]] show ?thesis by blast
qed

lemma parse_rest_length: "parse_frames l bs = Inr (fs, r) \<Longrightarrow> length r \<le> length bs"
proof (induction l bs arbitrary: fs r rule: parse_frames.induct)
  case (1 l bs)
  show ?case
  proof (cases "length bs < 4 \<or> be_nat32 bs > l \<or> length bs < 4 + be_nat32 bs")
    case True
    with "1.prems" show ?thesis
      by (subst (asm) parse_frames.simps) (auto split: if_splits)
  next
    case False
    with "1.prems" obtain fs' where "parse_frames l (drop (4 + be_nat32 bs) bs) = Inr (fs', r)"
      by (subst (asm) parse_frames.simps) (auto simp: result_simps)
    with "1.IH" False have "length r \<le> length (drop (4 + be_nat32 bs) bs)" by simp
    then show ?thesis by simp
  qed
qed

text \<open>A peer that announces a long payload cannot make the decoder reserve it: the blocks hold
  at most one block size more than the bytes received, and never more than the announced length,
  which is within the limit.\<close>

theorem decoder_memory_bound:
  assumes "open_decoder d" and "push d chunk = Inr (frames, d')" and "expectedPayloadLength d' = Some n"
  shows "length (concat (payloadBlocks d')) \<le> payloadLength d' + PAYLOAD_BLOCK_SIZE \<and>
         length (concat (payloadBlocks d')) \<le> n \<and> n \<le> maxFrameLength d \<and>
         payloadLength d' \<le> length (pending_bytes d @ chunk)"
proof -
  from push_spec[OF assms(1), of chunk] assms(2) have d': "open_decoder d'"
    "maxFrameLength d' = maxFrameLength d"
    "parse_frames (maxFrameLength d) (pending_bytes d @ chunk) = Inr (frames, pending_bytes d')"
    by auto
  then have ok: "blocks_ok n d'" "n \<le> maxFrameLength d"
    using assms(3) by (auto simp: open_decoder_def decoder_inv_def)
  have "length (pending_bytes d') = length (header d') + payloadLength d'"
    using assms(3) payload_length[OF ok(1)] by (simp add: pending_bytes_def)
  with parse_rest_length[OF d'(3)] ok show ?thesis
    by (auto simp: blocks_ok_def)
qed

theorem decoder_memory_bound_witness:
  "\<exists>d d'. newFrameDecoder None = Inr d \<and> push d [0, 1, 0, 0, 5] = Inr ([], d') \<and>
     expectedPayloadLength d' = Some 65536 \<and>
     length (concat (payloadBlocks d')) \<le> payloadLength d' + PAYLOAD_BLOCK_SIZE"
proof -
  obtain d where d: "newFrameDecoder None = Inr d" "maxFrameLength d = DEFAULT_MAX_FRAME_LENGTH"
    by (simp add: newFrameDecoder_def resolveMaxFrameLength_def MAX_UINT32_def
        DEFAULT_MAX_FRAME_LENGTH_def MAX_SAFE_INTEGER_def)
  have "parse_frames (maxFrameLength d) (pending_bytes d @ [0, 1, 0, 0, 5]) = Inr ([], [0, 1, 0, 0, 5])"
    using d new_decoder(2)[OF d(1)]
    by (simp add: parse_frames.simps be_nat32_def DEFAULT_MAX_FRAME_LENGTH_def)
  with push_spec[OF new_decoder(1)[OF d(1)], of "[0, 1, 0, 0, 5]"] obtain d' where
    d': "push d [0, 1, 0, 0, 5] = Inr ([], d')" "open_decoder d'" "pending_bytes d' = [0, 1, 0, 0, 5]"
    by auto
  have e: "expectedPayloadLength d' = Some 65536"
  proof (cases "expectedPayloadLength d'")
    case None
    then have "length (pending_bytes d') < 4"
      using d'(2) by (simp add: pending_bytes_def open_decoder_def decoder_inv_def)
    with d'(3) show ?thesis by simp
  next
    case (Some n)
    then have "length (header d') = 4" "header d' @ payload_of d' = [0, 1, 0, 0, 5]" "n = be_nat32 (header d')"
      using d'(2,3) by (auto simp: pending_bytes_def open_decoder_def decoder_inv_def)
    then have "header d' = [0, 1, 0, 0]" "n = be_nat32 (header d')"
      by (auto simp: numeral_eq_Suc length_Suc_conv)
    with Some show ?thesis by (simp add: be_nat32_def)
  qed
  show ?thesis
    using decoder_memory_bound[OF new_decoder(1)[OF d(1)] d'(1) e] d(1) d'(1) e by blast
qed

end
