(* ===== verification/Cbor.thy ===== *)
theory Cbor
  imports Framing Utf8
begin

section \<open>The CBOR codec: definitions\<close>

text \<open>
  The model of \<^verbatim>\<open>packages/protocol/src/cbor/\<close>: the options, the growing buffer of
  \<open>CborWriter\<close>, the encoder and the decoder. Objects are trees (\<open>js_value\<close>), so the encoder's
  \<open>ancestors\<close> set, which refuses cyclic objects, has nothing to refuse and is left out; everything
  else that the code refuses is a branch here.
\<close>

subsection \<open>Options and errors\<close>

definition UINT32_BASE :: nat where "UINT32_BASE = 0x100000000"

definition DEFAULT_MAX_CBOR_BYTE_LENGTH :: int where "DEFAULT_MAX_CBOR_BYTE_LENGTH = 16 * 1024 * 1024"
definition DEFAULT_MAX_CBOR_CONTAINER_LENGTH :: int where "DEFAULT_MAX_CBOR_CONTAINER_LENGTH = 1000000"
definition DEFAULT_MAX_CBOR_DEPTH :: int where "DEFAULT_MAX_CBOR_DEPTH = 64"
definition MAX_CONFIGURED_DEPTH :: int where "MAX_CONFIGURED_DEPTH = 512"

text \<open>One constructor per message; the numbers are those of the message.\<close>

datatype cbor_error =
    LimitRange string                 \<comment> \<open>RangeError: the option must be an integer in its range\<close>
  | ByteLengthLimit nat
  | DepthLimit nat
  | TextLengthLimit nat
  | InvalidUnicode
  | NonFiniteNumber
  | UnsafeInteger
  | ByteStringLimit nat
  | ArrayLengthLimit nat
  | ArrayHole
  | SymbolKey
  | MapLengthLimit nat
  | UnsupportedValue string
  | TrailingData
  | DecodedUnsafeInteger
  | DecodedNonFinite
  | InvalidUtf8
  | NonStringKey
  | DuplicateKey
  | TagsUnsupported
  | MalformedMajorType
  | BreakUnsupported
  | UnsupportedSimple
  | IndefiniteLength string
  | LengthLimit string nat
  | IndefiniteItems
  | UnsafeLength
  | MalformedAdditional
  | TruncatedPayload

record cbor_input_options =
  optMaxByteLength :: "js_number option"
  optMaxContainerLength :: "js_number option"
  optMaxDepth :: "js_number option"

record cbor_options =
  maxByteLength :: nat
  maxContainerLength :: nat
  maxDepth :: nat

definition resolveLimit :: "string \<Rightarrow> js_number \<Rightarrow> int \<Rightarrow> cbor_error + nat" where
  "resolveLimit name value maximum =
     (if \<not> is_safe_integer value \<or> integer_value value < 0 \<or> integer_value value > maximum
      then Inl (LimitRange name) else Inr (nat (integer_value value)))"

definition default_number :: "js_number option \<Rightarrow> int \<Rightarrow> js_number" where
  "default_number v d = (case v of None \<Rightarrow> JInt d | Some n \<Rightarrow> n)"

definition resolveOptions :: "cbor_input_options \<Rightarrow> cbor_error + cbor_options" where
  "resolveOptions options =
     and_then (resolveLimit ''maxByteLength''
       (default_number (optMaxByteLength options) DEFAULT_MAX_CBOR_BYTE_LENGTH) (int MAX_UINT32)) (\<lambda>b.
     and_then (resolveLimit ''maxContainerLength''
       (default_number (optMaxContainerLength options) DEFAULT_MAX_CBOR_CONTAINER_LENGTH) (int MAX_UINT32)) (\<lambda>c.
     and_then (resolveLimit ''maxDepth''
       (default_number (optMaxDepth options) DEFAULT_MAX_CBOR_DEPTH) MAX_CONFIGURED_DEPTH) (\<lambda>d.
     Inr \<lparr>maxByteLength = b, maxContainerLength = c, maxDepth = d\<rparr>)))"

subsection \<open>The writer\<close>

record cbor_writer =
  buffer :: "byte list"
  offset :: nat
  writerLimit :: nat        \<comment> \<open>the writer's \<open>maxByteLength\<close>\<close>

definition newCborWriter :: "nat \<Rightarrow> cbor_writer" where
  "newCborWriter limit = \<lparr>buffer = replicate (min 256 limit) 0, offset = 0, writerLimit = limit\<rparr>"

definition grow_capacity :: "nat \<Rightarrow> nat \<Rightarrow> nat \<Rightarrow> nat" where
  "grow_capacity limit required capacity =
     while (\<lambda>c. c < required) (\<lambda>c. min limit (max required (c * 2))) capacity"

definition ensureCapacity :: "cbor_writer \<Rightarrow> nat \<Rightarrow> cbor_error + cbor_writer" where
  "ensureCapacity w additionalBytes =
     (let required = offset w + additionalBytes in
      if required > writerLimit w then Inl (ByteLengthLimit (writerLimit w))
      else if required \<le> length (buffer w) then Inr w
      else let capacity = grow_capacity (writerLimit w) required (max 1 (length (buffer w)));
               expanded = replicate capacity 0
           in Inr (w\<lparr>buffer := typed_set expanded 0 (buffer w)\<rparr>))"

definition writeByte :: "cbor_writer \<Rightarrow> nat \<Rightarrow> cbor_error + cbor_writer" where
  "writeByte w v = and_then (ensureCapacity w 1) (\<lambda>w.
     Inr (w\<lparr>buffer := (buffer w)[offset w := byte_of v], offset := offset w + 1\<rparr>))"

definition writeBytes :: "cbor_writer \<Rightarrow> byte list \<Rightarrow> cbor_error + cbor_writer" where
  "writeBytes w bytes = and_then (ensureCapacity w (length bytes)) (\<lambda>w.
     Inr (w\<lparr>buffer := typed_set (buffer w) (offset w) bytes, offset := offset w + length bytes\<rparr>))"

definition writeUint16 :: "cbor_writer \<Rightarrow> nat \<Rightarrow> cbor_error + cbor_writer" where
  "writeUint16 w v = and_then (ensureCapacity w 2) (\<lambda>w.
     Inr (w\<lparr>buffer := (buffer w)[offset w := byte_of (drop_bit 8 v), offset w + 1 := byte_of v],
            offset := offset w + 2\<rparr>))"

definition writeUint32 :: "cbor_writer \<Rightarrow> nat \<Rightarrow> cbor_error + cbor_writer" where
  "writeUint32 w v = and_then (ensureCapacity w 4) (\<lambda>w.
     Inr (w\<lparr>buffer := (buffer w)[offset w := byte_of (drop_bit 24 v), offset w + 1 := byte_of (drop_bit 16 v),
                offset w + 2 := byte_of (drop_bit 8 v), offset w + 3 := byte_of v],
            offset := offset w + 4\<rparr>))"

definition writeUint64 :: "cbor_writer \<Rightarrow> nat \<Rightarrow> cbor_error + cbor_writer" where
  "writeUint64 w v =
     (let high = v div UINT32_BASE; low = v - high * UINT32_BASE
      in and_then (writeUint32 w high) (\<lambda>w. writeUint32 w low))"

text \<open>\<open>DataView.setFloat64(offset, value, false)\<close>: the eight bytes of the double, high byte first.\<close>

definition double_bytes :: "64 word \<Rightarrow> byte list" where
  "double_bytes d = be_bytes32 (unat d div UINT32_BASE) @ be_bytes32 (unat d mod UINT32_BASE)"

definition writeFloat64 :: "cbor_writer \<Rightarrow> 64 word \<Rightarrow> cbor_error + cbor_writer" where
  "writeFloat64 w d = and_then (ensureCapacity w 9) (\<lambda>w.
     Inr (w\<lparr>buffer := typed_set ((buffer w)[offset w := byte_of 0xfb]) (offset w + 1) (double_bytes d),
            offset := offset w + 9\<rparr>))"

definition finish :: "cbor_writer \<Rightarrow> byte list" where
  "finish w = take (offset w) (buffer w)"

subsection \<open>The encoder\<close>

unbundle bit_operations_syntax

definition writeArgument :: "cbor_writer \<Rightarrow> nat \<Rightarrow> nat \<Rightarrow> cbor_error + cbor_writer" where
  "writeArgument w majorType v =
     (let prefix = push_bit 5 majorType in
      if v < 24 then writeByte w (prefix OR v)
      else if v \<le> 0xff then and_then (writeByte w (prefix OR 24)) (\<lambda>w. writeByte w v)
      else if v \<le> 0xffff then and_then (writeByte w (prefix OR 25)) (\<lambda>w. writeUint16 w v)
      else if v \<le> MAX_UINT32 then and_then (writeByte w (prefix OR 26)) (\<lambda>w. writeUint32 w v)
      else and_then (writeByte w (prefix OR 27)) (\<lambda>w. writeUint64 w v))"

definition encodeText :: "cbor_writer \<Rightarrow> js_string \<Rightarrow> cbor_options \<Rightarrow> cbor_error + cbor_writer" where
  "encodeText w value opts =
     (let bytes = textEncoder_encode value in
      if length bytes > maxByteLength opts then Inl (TextLengthLimit (maxByteLength opts))
      else if textDecoder_decode bytes \<noteq> Some value then Inl InvalidUnicode
      else and_then (writeArgument w 3 (length bytes)) (\<lambda>w. writeBytes w bytes))"

definition encodeNumber :: "cbor_writer \<Rightarrow> js_number \<Rightarrow> cbor_error + cbor_writer" where
  "encodeNumber w value =
     (if \<not> is_finite value then Inl NonFiniteNumber
      else if is_integer value \<and> value \<noteq> JDouble negative_zero then
        (if \<not> is_safe_integer value then Inl UnsafeInteger
         else if integer_value value \<ge> 0 then writeArgument w 0 (nat (integer_value value))
         else writeArgument w 1 (nat (- 1 - integer_value value)))
      else (case value of JDouble d \<Rightarrow> writeFloat64 w d | JInt n \<Rightarrow> Inr w))"

text \<open>The entries of an object the encoder writes: those whose value is not \<open>undefined\<close>.\<close>

definition present_entries :: "(js_string \<times> js_value) list \<Rightarrow> (js_string \<times> js_value) list" where
  "present_entries = filter (\<lambda>(k, v). v \<noteq> JUndefined)"

fun encodeValue :: "cbor_options \<Rightarrow> cbor_writer \<Rightarrow> js_value \<Rightarrow> nat \<Rightarrow> cbor_error + cbor_writer"
  and encodeItems :: "cbor_options \<Rightarrow> cbor_writer \<Rightarrow> js_value list \<Rightarrow> nat \<Rightarrow> cbor_error + cbor_writer"
  and encodeEntries :: "cbor_options \<Rightarrow> cbor_writer \<Rightarrow> (js_string \<times> js_value) list \<Rightarrow> nat \<Rightarrow>
        cbor_error + cbor_writer"
where
  "encodeValue opts w value depth =
     (if depth > maxDepth opts then Inl (DepthLimit (maxDepth opts))
      else (case value of
          JNull \<Rightarrow> writeByte w 0xf6
        | JBool b \<Rightarrow> writeByte w (if b then 0xf5 else 0xf4)
        | JNumber n \<Rightarrow> encodeNumber w n
        | JString s \<Rightarrow> encodeText w s opts
        | JBytes bs \<Rightarrow>
            if length bs > maxByteLength opts then Inl (ByteStringLimit (maxByteLength opts))
            else and_then (writeArgument w 2 (length bs)) (\<lambda>w. writeBytes w bs)
        | JArray items \<Rightarrow>
            if length items > maxContainerLength opts then Inl (ArrayLengthLimit (maxContainerLength opts))
            else and_then (writeArgument w 4 (length items)) (\<lambda>w. encodeItems opts w items depth)
        | JObject symbols entries \<Rightarrow>
            if symbols then Inl SymbolKey
            else if length (present_entries entries) > maxContainerLength opts
            then Inl (MapLengthLimit (maxContainerLength opts))
            else and_then (writeArgument w 5 (length (present_entries entries)))
                   (\<lambda>w. encodeEntries opts w entries depth)
        | JUndefined \<Rightarrow> Inl (UnsupportedValue ''undefined'')
        | JOther t \<Rightarrow> Inl (UnsupportedValue t)))"
| "encodeItems opts w [] depth = Inr w"
| "encodeItems opts w (item # items) depth =
     (if item = JUndefined then Inl ArrayHole
      else and_then (encodeValue opts w item (depth + 1)) (\<lambda>w. encodeItems opts w items depth))"
| "encodeEntries opts w [] depth = Inr w"
| "encodeEntries opts w ((k, v) # entries) depth =
     (if v = JUndefined then encodeEntries opts w entries depth
      else and_then (encodeText w k opts) (\<lambda>w.
           and_then (encodeValue opts w v (depth + 1)) (\<lambda>w. encodeEntries opts w entries depth)))"

definition encodeCbor :: "js_value \<Rightarrow> cbor_input_options \<Rightarrow> cbor_error + byte list" where
  "encodeCbor value options = and_then (resolveOptions options) (\<lambda>opts.
     and_then (encodeValue opts (newCborWriter (maxByteLength opts)) value 0) (\<lambda>w. Inr (finish w)))"

subsection \<open>The decoder\<close>

record cbor_reader =
  readerBytes :: "byte list"
  readerOffset :: nat

definition readByte :: "cbor_reader \<Rightarrow> cbor_error + (nat \<times> cbor_reader)" where
  "readByte r =
     (if readerOffset r \<ge> length (readerBytes r) then Inl TruncatedPayload
      else Inr (unat (readerBytes r ! readerOffset r), r\<lparr>readerOffset := readerOffset r + 1\<rparr>))"

definition readBytes :: "cbor_reader \<Rightarrow> nat \<Rightarrow> cbor_error + (byte list \<times> cbor_reader)" where
  "readBytes r n =
     (if int n > int (length (readerBytes r)) - int (readerOffset r) then Inl TruncatedPayload
      else Inr (take n (drop (readerOffset r) (readerBytes r)), r\<lparr>readerOffset := readerOffset r + n\<rparr>))"

fun readArgument :: "nat \<Rightarrow> cbor_reader \<Rightarrow> cbor_error + (nat \<times> cbor_reader)" where
  "readArgument info r =
     (if info < 24 then Inr (info, r)
      else if info = 24 then readByte r
      else if info = 25 then
        and_then (readBytes r 2) (\<lambda>(b, r). Inr (unat (b ! 0) * 0x100 + unat (b ! 1), r))
      else if info = 26 then and_then (readBytes r 4) (\<lambda>(b, r). Inr (be_nat32 b, r))
      else if info = 27 then
        and_then (readArgument 26 r) (\<lambda>(high, r).
        and_then (readArgument 26 r) (\<lambda>(low, r).
          if high > 0x1fffff then Inl UnsafeLength else Inr (high * UINT32_BASE + low, r)))
      else if info = 31 then Inl IndefiniteItems
      else Inl MalformedAdditional)"

declare readArgument.simps [simp del]

definition readLength :: "nat \<Rightarrow> string \<Rightarrow> nat \<Rightarrow> cbor_reader \<Rightarrow> cbor_error + (nat \<times> cbor_reader)" where
  "readLength info kind limit r =
     (if info = 31 then Inl (IndefiniteLength kind)
      else and_then (readArgument info r) (\<lambda>(n, r).
        if n > limit then Inl (LengthLimit kind limit) else Inr (n, r)))"

definition bytes_double :: "byte list \<Rightarrow> 64 word" where
  "bytes_double b = word_of_nat (be_nat32 b * UINT32_BASE + be_nat32 (drop 4 b))"

definition readSimple :: "nat \<Rightarrow> cbor_reader \<Rightarrow> cbor_error + (js_value \<times> cbor_reader)" where
  "readSimple info r =
     (if info = 20 then Inr (JBool False, r)
      else if info = 21 then Inr (JBool True, r)
      else if info = 22 then Inr (JNull, r)
      else if info = 27 then
        and_then (readBytes r 8) (\<lambda>(b, r).
          let value = number_of_bits (bytes_double b) in
          if \<not> is_finite value then Inl DecodedNonFinite
          else if is_integer value \<and> \<not> is_safe_integer value then Inl DecodedUnsafeInteger
          else Inr (JNumber value, r))
      else if info = 31 then Inl BreakUnsupported
      else Inl UnsupportedSimple)"

text \<open>
  The loops over the elements of an array and the entries of a map, given how one item at the next
  depth is read. The map loop keeps the set of keys read so far and the object under construction.
\<close>

type_synonym item_reader = "cbor_reader \<Rightarrow> cbor_error + (js_value \<times> cbor_reader)"

fun read_items :: "item_reader \<Rightarrow> nat \<Rightarrow> cbor_reader \<Rightarrow> cbor_error + (js_value list \<times> cbor_reader)" where
  "read_items item 0 r = Inr ([], r)"
| "read_items item (Suc n) r =
     and_then (item r) (\<lambda>(v, r). and_then (read_items item n r) (\<lambda>(vs, r). Inr (v # vs, r)))"

fun read_entries :: "item_reader \<Rightarrow> nat \<Rightarrow> js_string set \<Rightarrow> (js_string \<times> js_value) list \<Rightarrow> cbor_reader \<Rightarrow>
    cbor_error + ((js_string \<times> js_value) list \<times> cbor_reader)" where
  "read_entries item 0 keys result r = Inr (result, r)"
| "read_entries item (Suc n) keys result r =
     and_then (item r) (\<lambda>(key, r).
       case key of
         JString k \<Rightarrow>
           if k \<in> keys then Inl DuplicateKey
           else and_then (item r) (\<lambda>(v, r).
                  read_entries item n (insert k keys) (define_property k v result) r)
       | _ \<Rightarrow> Inl NonStringKey)"

text \<open>The switch of \<open>readItem\<close> over the major type, given how an item at the next depth is read.\<close>

definition readMajor :: "cbor_options \<Rightarrow> item_reader \<Rightarrow> nat \<Rightarrow> nat \<Rightarrow> item_reader" where
  "readMajor opts item majorType info r =
     (if majorType = 0 then and_then (readArgument info r) (\<lambda>(n, r). Inr (JNumber (JInt (int n)), r))
      else if majorType = 1 then
        and_then (readArgument info r) (\<lambda>(n, r).
          let value = JInt (- 1 - int n) in
          if \<not> is_safe_integer value then Inl DecodedUnsafeInteger else Inr (JNumber value, r))
      else if majorType = 2 then
        and_then (readLength info ''byte string'' (maxByteLength opts) r) (\<lambda>(n, r).
        and_then (readBytes r n) (\<lambda>(b, r). Inr (JBytes b, r)))
      else if majorType = 3 then
        and_then (readLength info ''text string'' (maxByteLength opts) r) (\<lambda>(n, r).
        and_then (readBytes r n) (\<lambda>(b, r).
          case textDecoder_decode b of None \<Rightarrow> Inl InvalidUtf8 | Some s \<Rightarrow> Inr (JString s, r)))
      else if majorType = 4 then
        and_then (readLength info ''array'' (maxContainerLength opts) r) (\<lambda>(n, r).
        and_then (read_items item n r) (\<lambda>(vs, r). Inr (JArray vs, r)))
      else if majorType = 5 then
        and_then (readLength info ''map'' (maxContainerLength opts) r) (\<lambda>(n, r).
        and_then (read_entries item n {} [] r) (\<lambda>(es, r). Inr (JObject False es, r)))
      else if majorType = 6 then Inl TagsUnsupported
      else if majorType = 7 then readSimple info r
      else Inl MalformedMajorType)"

function readItem :: "cbor_options \<Rightarrow> nat \<Rightarrow> cbor_reader \<Rightarrow> cbor_error + (js_value \<times> cbor_reader)" where
  "readItem opts depth r =
     (if depth > maxDepth opts then Inl (DepthLimit (maxDepth opts))
      else and_then (readByte r) (\<lambda>(initial, r).
        readMajor opts (\<lambda>r. readItem opts (Suc depth) r) (drop_bit 5 initial) (initial AND 0x1f) r))"
  by pat_completeness auto
termination
  by (relation "measure (\<lambda>(opts, depth, r). Suc (maxDepth opts) - depth)") auto

declare readItem.simps [simp del]

definition decodeCbor :: "byte list \<Rightarrow> cbor_input_options \<Rightarrow> cbor_error + js_value" where
  "decodeCbor bytes options = and_then (resolveOptions options) (\<lambda>opts.
     if length bytes > maxByteLength opts then Inl (ByteLengthLimit (maxByteLength opts))
     else and_then (readItem opts 0 \<lparr>readerBytes = bytes, readerOffset = 0\<rparr>) (\<lambda>(value, r).
       if readerOffset r \<noteq> length (readerBytes r) then Inl TrailingData else Inr value))"

end
