(* ===== verification/CborCorrect.thy ===== *)
theory CborCorrect
  imports Cbor
begin

section \<open>The CBOR codec: correctness\<close>

text \<open>
  The writer is a byte sink: each operation appends its bytes or fails when the limit leaves no
  room for them, and its capacity loop stops. The encoder refines \<open>cbor_value\<close>, which says which
  bytes a value has or that it has none; the decoder reads those bytes back. Decoded values respect
  every configured limit.
\<close>

subsection \<open>Byte sinks\<close>

text \<open>
  What the encoder needs of the writer: \<open>emits f bs\<close> says that the operation \<open>f\<close> appends \<open>bs\<close>
  when they fit, and throws otherwise; \<open>refuses f\<close> that it always throws.
\<close>

locale byte_sink =
  fixes put :: "'w \<Rightarrow> byte list \<Rightarrow> 'e + 'w"
    and contents :: "'w \<Rightarrow> byte list"
    and limit :: "'w \<Rightarrow> nat"
    and good :: "'w \<Rightarrow> bool"
  assumes put_fits: "good w \<Longrightarrow> length (contents w) + length bs \<le> limit w \<Longrightarrow>
      \<exists>w'. put w bs = Inr w' \<and> good w' \<and> contents w' = contents w @ bs \<and> limit w' = limit w"
    and put_full: "good w \<Longrightarrow> \<not> length (contents w) + length bs \<le> limit w \<Longrightarrow> \<exists>e. put w bs = Inl e"
    and within_limit: "good w \<Longrightarrow> length (contents w) \<le> limit w"
begin

definition emits :: "('w \<Rightarrow> 'e + 'w) \<Rightarrow> byte list \<Rightarrow> bool" where
  "emits f bs \<longleftrightarrow> (\<forall>w. good w \<longrightarrow>
     (if length (contents w) + length bs \<le> limit w
      then \<exists>w'. f w = Inr w' \<and> good w' \<and> contents w' = contents w @ bs \<and> limit w' = limit w
      else \<exists>e. f w = Inl e))"

definition refuses :: "('w \<Rightarrow> 'e + 'w) \<Rightarrow> bool" where
  "refuses f \<longleftrightarrow> (\<forall>w. good w \<longrightarrow> (\<exists>e. f w = Inl e))"

lemma emits_fits:
  "emits f bs \<Longrightarrow> good w \<Longrightarrow> length (contents w) + length bs \<le> limit w \<Longrightarrow>
   \<exists>w'. f w = Inr w' \<and> good w' \<and> contents w' = contents w @ bs \<and> limit w' = limit w"
  unfolding emits_def by presburger

lemma emits_full:
  "emits f bs \<Longrightarrow> good w \<Longrightarrow> \<not> length (contents w) + length bs \<le> limit w \<Longrightarrow> \<exists>e. f w = Inl e"
  unfolding emits_def by presburger

lemma emits_put: "emits (\<lambda>w. put w bs) bs"
  using put_fits put_full by (auto simp: emits_def)

lemma emits_nothing: "emits Inr []"
  using within_limit by (auto simp: emits_def)

lemma emits_seq:
  assumes "emits f as" and "emits g bs"
  shows "emits (\<lambda>w. and_then (f w) g) (as @ bs)"
  unfolding emits_def
proof (intro allI impI)
  fix w
  assume w: "good w"
  show "if length (contents w) + length (as @ bs) \<le> limit w
      then \<exists>w'. and_then (f w) g = Inr w' \<and> good w' \<and> contents w' = contents w @ as @ bs \<and> limit w' = limit w
      else \<exists>e. and_then (f w) g = Inl e"
  proof (cases "length (contents w) + length as \<le> limit w")
    case True
    with emits_fits[OF assms(1) w] obtain w1 where w1: "f w = Inr w1" "good w1"
      "contents w1 = contents w @ as" "limit w1 = limit w"
      by blast
    with emits_fits[OF assms(2) w1(2)] emits_full[OF assms(2) w1(2)] show ?thesis
      by (simp add: add.assoc)
  next
    case False
    with emits_full[OF assms(1) w] obtain e where "f w = Inl e" by blast
    with False show ?thesis by simp
  qed
qed

lemma refuses_first: "refuses f \<Longrightarrow> refuses (\<lambda>w. and_then (f w) g)"
  by (fastforce simp: refuses_def)

lemma refuses_second:
  assumes "emits f as" and "refuses g"
  shows "refuses (\<lambda>w. and_then (f w) g)"
  unfolding refuses_def
proof (intro allI impI)
  fix w
  assume w: "good w"
  show "\<exists>e. and_then (f w) g = Inl e"
  proof (cases "f w")
    case (Inr w')
    then have "good w'"
      using emits_fits[OF assms(1) w] emits_full[OF assms(1) w] by force
    with Inr assms(2) show ?thesis by (auto simp: refuses_def)
  qed simp
qed

lemma refuses_throw: "refuses (\<lambda>w. Inl e)"
  by (simp add: refuses_def)

lemma emits_result:
  assumes "emits f bs" and "good w" and "f w = Inr w'"
  shows "contents w' = contents w @ bs" and "good w'" and "length (contents w) + length bs \<le> limit w"
  using emits_fits[OF assms(1,2)] emits_full[OF assms(1,2)] assms(3) by force+

end

subsection \<open>The writer is a byte sink\<close>

definition contents :: "cbor_writer \<Rightarrow> byte list" where
  "contents w = take (offset w) (buffer w)"

definition good_writer :: "cbor_writer \<Rightarrow> bool" where
  "good_writer w \<longleftrightarrow> offset w \<le> length (buffer w) \<and> length (buffer w) \<le> writerLimit w"

lemma length_contents: "good_writer w \<Longrightarrow> length (contents w) = offset w"
  by (simp add: contents_def good_writer_def)

lemma grow_capacity_eq:
  assumes "required \<le> limit" and "c \<le> limit"
  shows "grow_capacity limit required c = (if c < required then min limit (max required (c * 2)) else c)"
proof (cases "c < required")
  case True
  have "while (\<lambda>c. c < required) (\<lambda>c. min limit (max required (c * 2))) (min limit (max required (c * 2))) =
      min limit (max required (c * 2))"
    using assms by (subst while_unfold) auto
  with True show ?thesis
    unfolding grow_capacity_def by (subst while_unfold) simp
next
  case False
  then show ?thesis
    unfolding grow_capacity_def by (subst while_unfold) simp
qed

lemma ensureCapacity_full:
  "\<not> offset w + n \<le> writerLimit w \<Longrightarrow> ensureCapacity w n = Inl (ByteLengthLimit (writerLimit w))"
  by (simp add: ensureCapacity_def)

lemma ensureCapacity_fits:
  assumes "good_writer w" and "offset w + n \<le> writerLimit w"
  obtains w' where "ensureCapacity w n = Inr w'" "good_writer w'" "contents w' = contents w"
    "offset w' = offset w" "writerLimit w' = writerLimit w" "offset w + n \<le> length (buffer w')"
proof (cases "offset w + n \<le> length (buffer w)")
  case True
  with assms that[of w] show thesis by (simp add: ensureCapacity_def)
next
  case False
  let ?c = "grow_capacity (writerLimit w) (offset w + n) (max 1 (length (buffer w)))"
  have c: "offset w + n \<le> ?c" "?c \<le> writerLimit w" "length (buffer w) \<le> ?c"
    using assms False by (auto simp: grow_capacity_eq good_writer_def)
  let ?w = "w\<lparr>buffer := typed_set (replicate ?c 0) 0 (buffer w)\<rparr>"
  have "ensureCapacity w n = Inr ?w"
    using assms False by (simp add: ensureCapacity_def Let_def)
  moreover have "length (buffer ?w) = ?c"
    using c by (simp add: length_typed_set)
  moreover have "contents ?w = contents w"
    using assms by (simp add: contents_def typed_set_def good_writer_def)
  ultimately show thesis
    using that[of ?w] assms c by (simp add: good_writer_def)
qed

text \<open>Every write reserves room for its bytes and stores them at the offset.\<close>

lemma store_emits:
  assumes op: "\<And>w. op w = and_then (ensureCapacity w n) (\<lambda>w. Inr (w\<lparr>buffer := upd w, offset := offset w + n\<rparr>))"
    and upd: "\<And>w. offset w + n \<le> length (buffer w) \<Longrightarrow> upd w = typed_set (buffer w) (offset w) bs"
    and n: "length bs = n"
  shows "good_writer w \<Longrightarrow> offset w + n \<le> writerLimit w \<Longrightarrow>
      \<exists>w'. op w = Inr w' \<and> good_writer w' \<and> contents w' = contents w @ bs \<and> writerLimit w' = writerLimit w"
    and "\<not> offset w + n \<le> writerLimit w \<Longrightarrow> \<exists>e. op w = Inl e"
proof -
  assume "good_writer w" and "offset w + n \<le> writerLimit w"
  then obtain w1 where w1: "ensureCapacity w n = Inr w1" "good_writer w1" "contents w1 = contents w"
    "offset w1 = offset w" "writerLimit w1 = writerLimit w" "offset w + n \<le> length (buffer w1)"
    by (rule ensureCapacity_fits)
  let ?w = "w1\<lparr>buffer := typed_set (buffer w1) (offset w1) bs, offset := offset w1 + n\<rparr>"
  have "op w = Inr ?w"
    using op w1 upd by simp
  moreover have "good_writer ?w"
    using w1 n by (simp add: good_writer_def length_typed_set)
  moreover have "contents ?w = contents w @ bs"
    using w1 n take_typed_set[of "offset w1" bs "buffer w1"] by (simp add: contents_def)
  ultimately show "\<exists>w'. op w = Inr w' \<and> good_writer w' \<and> contents w' = contents w @ bs \<and> writerLimit w' = writerLimit w"
    using w1(5) by (intro exI[of _ ?w]) simp
next
  assume "\<not> offset w + n \<le> writerLimit w"
  then show "\<exists>e. op w = Inl e"
    by (simp add: op ensureCapacity_full)
qed

lemma writeBytes_store: "writeBytes w bs = and_then (ensureCapacity w (length bs))
    (\<lambda>w. Inr (w\<lparr>buffer := typed_set (buffer w) (offset w) bs, offset := offset w + length bs\<rparr>))"
  by (simp add: writeBytes_def)

interpretation writer: byte_sink writeBytes contents writerLimit good_writer
proof (unfold_locales, goal_cases)
  case (1 w bs)
  then show ?case
    using store_emits(1)[where op = "\<lambda>w. writeBytes w bs", OF writeBytes_store] by (simp add: length_contents)
next
  case (2 w bs)
  then show ?case
    using store_emits(2)[where op = "\<lambda>w. writeBytes w bs", OF writeBytes_store] by (simp add: length_contents)
next
  case (3 w)
  then show ?case by (simp add: length_contents good_writer_def)
qed

lemma emits_store:
  assumes "\<And>w. op w = and_then (ensureCapacity w n) (\<lambda>w. Inr (w\<lparr>buffer := upd w, offset := offset w + n\<rparr>))"
    and "\<And>w. offset w + n \<le> length (buffer w) \<Longrightarrow> upd w = typed_set (buffer w) (offset w) bs"
    and "length bs = n"
  shows "writer.emits op bs"
  unfolding writer.emits_def using store_emits[of op n upd bs, OF assms] assms(3)
  by (auto simp: length_contents)

lemma typed_set_Nil [simp]: "typed_set buf off [] = buf"
  by (simp add: typed_set_def)

lemma typed_set_Cons:
  "off < length buf \<Longrightarrow> typed_set buf off (x # xs) = typed_set (buf[off := x]) (Suc off) xs"
  by (simp add: typed_set_def take_Suc_conv_app_nth)

lemma emits_writeByte: "writer.emits (\<lambda>w. writeByte w v) [byte_of v]"
  by (rule emits_store[OF writeByte_def]) (auto simp: typed_set_Cons)

lemma emits_writeUint16: "writer.emits (\<lambda>w. writeUint16 w v) [byte_of (drop_bit 8 v), byte_of v]"
  by (rule emits_store[OF writeUint16_def]) (auto simp: typed_set_Cons)

lemma emits_writeUint32: "writer.emits (\<lambda>w. writeUint32 w v) (be_bytes32 v)"
  by (rule emits_store[OF writeUint32_def]) (auto simp: typed_set_Cons be_bytes32_def numeral_eq_Suc)

lemma emits_writeUint64:
  "writer.emits (\<lambda>w. writeUint64 w v) (be_bytes32 (v div UINT32_BASE) @ be_bytes32 (v mod UINT32_BASE))"
  unfolding writeUint64_def Let_def minus_div_mult_eq_mod
  by (rule writer.emits_seq[OF emits_writeUint32 emits_writeUint32])

lemma emits_writeFloat64: "writer.emits (\<lambda>w. writeFloat64 w d) (byte_of 0xfb # double_bytes d)"
  by (rule emits_store[OF writeFloat64_def]) (auto simp: typed_set_Cons double_bytes_def)

subsection \<open>The bytes of a value\<close>

definition argument_info :: "nat \<Rightarrow> nat" where
  "argument_info v = (if v < 24 then v else if v \<le> 0xff then 24 else if v \<le> 0xffff then 25
     else if v \<le> MAX_UINT32 then 26 else 27)"

definition argument_tail :: "nat \<Rightarrow> byte list" where
  "argument_tail v = (if v < 24 then [] else if v \<le> 0xff then [byte_of v]
     else if v \<le> 0xffff then [byte_of (drop_bit 8 v), byte_of v]
     else if v \<le> MAX_UINT32 then be_bytes32 v
     else be_bytes32 (v div UINT32_BASE) @ be_bytes32 (v mod UINT32_BASE))"

definition argument_bytes :: "nat \<Rightarrow> nat \<Rightarrow> byte list" where
  "argument_bytes m v = byte_of (32 * m + argument_info v) # argument_tail v"

definition text_bytes :: "cbor_options \<Rightarrow> js_string \<Rightarrow> byte list option" where
  "text_bytes opts s =
     (let b = textEncoder_encode s in
      if length b \<le> maxByteLength opts \<and> textDecoder_decode b = Some s
      then Some (argument_bytes 3 (length b) @ b) else None)"

definition number_bytes :: "js_number \<Rightarrow> byte list option" where
  "number_bytes n =
     (case n of
        JInt i \<Rightarrow> if \<bar>i\<bar> > MAX_SAFE_INTEGER then None
                  else Some (if 0 \<le> i then argument_bytes 0 (nat i) else argument_bytes 1 (nat (- 1 - i)))
      | JDouble d \<Rightarrow> if double_exponent d = 2047 then None else Some (0xfb # double_bytes d))"

fun cbor_value :: "cbor_options \<Rightarrow> js_value \<Rightarrow> nat \<Rightarrow> byte list option"
  and cbor_items :: "cbor_options \<Rightarrow> js_value list \<Rightarrow> nat \<Rightarrow> byte list option"
  and cbor_entries :: "cbor_options \<Rightarrow> (js_string \<times> js_value) list \<Rightarrow> nat \<Rightarrow> byte list option"
where
  "cbor_value opts value depth =
     (if depth > maxDepth opts then None
      else (case value of
          JNull \<Rightarrow> Some [0xf6]
        | JBool b \<Rightarrow> Some [if b then 0xf5 else 0xf4]
        | JNumber n \<Rightarrow> number_bytes n
        | JString s \<Rightarrow> text_bytes opts s
        | JBytes bs \<Rightarrow> if length bs > maxByteLength opts then None else Some (argument_bytes 2 (length bs) @ bs)
        | JArray items \<Rightarrow>
            if length items > maxContainerLength opts then None
            else map_option ((@) (argument_bytes 4 (length items))) (cbor_items opts items depth)
        | JObject symbols entries \<Rightarrow>
            if symbols \<or> length (present_entries entries) > maxContainerLength opts then None
            else map_option ((@) (argument_bytes 5 (length (present_entries entries))))
                   (cbor_entries opts entries depth)
        | JUndefined \<Rightarrow> None
        | JOther t \<Rightarrow> None))"
| "cbor_items opts [] depth = Some []"
| "cbor_items opts (item # items) depth =
     (if item = JUndefined then None
      else (case cbor_value opts item (depth + 1) of
              None \<Rightarrow> None
            | Some b \<Rightarrow> map_option ((@) b) (cbor_items opts items depth)))"
| "cbor_entries opts [] depth = Some []"
| "cbor_entries opts ((k, v) # entries) depth =
     (if v = JUndefined then cbor_entries opts entries depth
      else (case text_bytes opts k of
              None \<Rightarrow> None
            | Some kb \<Rightarrow>
                (case cbor_value opts v (depth + 1) of
                   None \<Rightarrow> None
                 | Some b \<Rightarrow> map_option (\<lambda>r. kb @ b @ r) (cbor_entries opts entries depth))))"

subsection \<open>The encoder emits them\<close>

lemma disjoint_or:
  assumes "(v :: nat) < 32"
  shows "push_bit 5 m OR v = 32 * m + v"
proof -
  have "take_bit 5 v = v"
    using assms by (simp add: take_bit_nat_eq_self)
  then have "\<not> bit v n" if "5 \<le> n" for n
    using that by (metis bit_take_bit_iff not_le)
  then have "push_bit 5 m + v = push_bit 5 m OR v"
    by (intro disjunctive_add) (auto simp: bit_push_bit_iff)
  then show ?thesis by (simp add: push_bit_eq_mult)
qed

text \<open>The encoder's outcome agrees with the specification's.\<close>

definition outcome :: "(cbor_writer \<Rightarrow> cbor_error + cbor_writer) \<Rightarrow> byte list option \<Rightarrow> bool" where
  "outcome f b = (case b of None \<Rightarrow> writer.refuses f | Some bs \<Rightarrow> writer.emits f bs)"

lemma outcome_seq:
  "outcome f b \<Longrightarrow> (\<And>bs. b = Some bs \<Longrightarrow> outcome g c) \<Longrightarrow>
   outcome (\<lambda>w. and_then (f w) g) (case b of None \<Rightarrow> None | Some bs \<Rightarrow> map_option ((@) bs) c)"
  by (auto simp: outcome_def writer.emits_seq writer.refuses_first intro: writer.refuses_second split: option.splits)

lemma outcome_emits: "writer.emits f bs \<Longrightarrow> outcome f (Some bs)"
  by (simp add: outcome_def)

lemma outcome_throw: "outcome (\<lambda>w. Inl e) None"
  by (simp add: outcome_def writer.refuses_throw)

lemma outcome_after: "writer.emits f bs \<Longrightarrow> outcome g c \<Longrightarrow>
   outcome (\<lambda>w. and_then (f w) g) (map_option ((@) bs) c)"
  using outcome_seq[OF outcome_emits] by fastforce

lemma emits_writeArgument: "m < 8 \<Longrightarrow> writer.emits (\<lambda>w. writeArgument w m v) (argument_bytes m v)"
proof -
  have cons: "writer.emits (\<lambda>w. and_then (writeByte w n) g) (byte_of n # bs)" if "writer.emits g bs" for n g bs
    using writer.emits_seq[OF emits_writeByte that] by simp
  have two: "writer.emits (\<lambda>w. writeUint16 w v) [byte_of (drop_bit 8 v), byte_of v]"
    by (rule emits_writeUint16)
  show ?thesis
    unfolding writeArgument_def Let_def argument_bytes_def argument_info_def argument_tail_def
    by (auto simp: disjoint_or intro: cons emits_writeByte two emits_writeUint32 emits_writeUint64)
qed

lemma outcome_text: "outcome (\<lambda>w. encodeText w s opts) (text_bytes opts s)"
proof (cases "length (textEncoder_encode s) \<le> maxByteLength opts \<and> textDecoder_decode (textEncoder_encode s) = Some s")
  case True
  then show ?thesis
    by (auto simp: encodeText_def text_bytes_def Let_def intro!: outcome_emits writer.emits_seq emits_writeArgument writer.emits_put)
next
  case False
  then show ?thesis
    by (auto simp: encodeText_def text_bytes_def Let_def outcome_def writer.refuses_def)
qed

lemma outcome_number: "outcome (\<lambda>w. encodeNumber w n) (number_bytes n)"
proof (cases n)
  case (JInt i)
  then show ?thesis
    unfolding encodeNumber_def number_bytes_def
    by (auto intro!: outcome_throw outcome_emits emits_writeArgument)
next
  case (JDouble d)
  have "byte_of 0xfb = 0xfb" by (simp add: byte_of_def)
  with JDouble show ?thesis
    unfolding encodeNumber_def number_bytes_def
    using emits_writeFloat64[of d] by (auto intro!: outcome_throw outcome_emits)
qed

lemma emits_byte_literals:
  "writer.emits (\<lambda>w. writeByte w 0xf6) [0xf6]" "writer.emits (\<lambda>w. writeByte w 0xf5) [0xf5]"
  "writer.emits (\<lambda>w. writeByte w 0xf4) [0xf4]"
proof -
  have "byte_of 0xf6 = 0xf6" "byte_of 0xf5 = 0xf5" "byte_of 0xf4 = 0xf4"
    by (simp_all add: byte_of_def)
  then show "writer.emits (\<lambda>w. writeByte w 0xf6) [0xf6]" "writer.emits (\<lambda>w. writeByte w 0xf5) [0xf5]"
    "writer.emits (\<lambda>w. writeByte w 0xf4) [0xf4]"
    by (metis emits_writeByte)+
qed

lemma outcome_value:
  shows "outcome (\<lambda>w. encodeValue opts w v depth) (cbor_value opts v depth)"
    and "outcome (\<lambda>w. encodeItems opts w items depth) (cbor_items opts items depth)"
    and "outcome (\<lambda>w. encodeEntries opts w entries depth) (cbor_entries opts entries depth)"
proof (induction opts v depth and opts items depth and opts entries depth rule: cbor_value_cbor_items_cbor_entries.induct)
  case (1 opts val depth) 
  note writes = emits_byte_literals
  show ?case
  proof (cases "depth > maxDepth opts")
    case True
    then show ?thesis by (simp add: outcome_throw)
  next
    case False
    show ?thesis
    proof (cases val)
      case (JArray items)
      then show ?thesis using False 1(1)[OF False JArray]
        by (auto intro!: outcome_throw outcome_after emits_writeArgument)
    next
      case (JObject symbols entries)
      then show ?thesis using False 1(2)[OF False JObject]
        by (cases symbols) (auto intro!: outcome_throw outcome_after emits_writeArgument)
    qed (use False writes in \<open>auto intro!: outcome_throw outcome_emits outcome_number outcome_text
        writer.emits_seq emits_writeArgument writer.emits_put\<close>)
  qed
next
  case (2 opts depth)
  then show ?case by (simp add: outcome_emits writer.emits_nothing)
next
  case (3 opts item items depth)
  then show ?case by (auto intro!: outcome_throw outcome_seq)
next
  case (4 opts depth)
  then show ?case by (simp add: outcome_emits writer.emits_nothing)
next
  case (5 opts k v entries depth)
  show ?case
  proof (cases "v = JUndefined")
    case True
    with 5(1) show ?thesis by simp
  next
    case False
    have "outcome (\<lambda>w. and_then (encodeText w k opts) (\<lambda>w. and_then (encodeValue opts w v (depth + 1))
          (\<lambda>w. encodeEntries opts w entries depth)))
        (case text_bytes opts k of None \<Rightarrow> None | Some kb \<Rightarrow> map_option ((@) kb)
          (case cbor_value opts v (depth + 1) of None \<Rightarrow> None
           | Some b \<Rightarrow> map_option ((@) b) (cbor_entries opts entries depth)))"
      using 5(2,3)[OF False] by (intro outcome_seq outcome_text)
    moreover have "(case text_bytes opts k of None \<Rightarrow> None | Some kb \<Rightarrow> map_option ((@) kb)
          (case cbor_value opts v (depth + 1) of None \<Rightarrow> None
           | Some b \<Rightarrow> map_option ((@) b) (cbor_entries opts entries depth))) =
        cbor_entries opts ((k, v) # entries) depth"
      using False by (auto split: option.splits simp: option.map_comp comp_def)
    ultimately show ?thesis
      using False by (simp only: encodeEntries.simps if_False)
  qed
qed


declare encodeValue.simps(1) [simp del] cbor_value.simps(1) [simp del]

lemma good_newCborWriter: "good_writer (newCborWriter l)" "contents (newCborWriter l) = []" "writerLimit (newCborWriter l) = l"
  by (auto simp: newCborWriter_def good_writer_def contents_def)

lemma finish_contents: "finish w = contents w"
  by (simp add: finish_def contents_def)

text \<open>What the encoder returns, in terms of the specification.\<close>

lemma encodeCbor_spec:
  assumes "resolveOptions options = Inr opts"
  shows "encodeCbor v options = Inr bs \<longleftrightarrow> cbor_value opts v 0 = Some bs \<and> length bs \<le> maxByteLength opts"
proof -
  let ?w = "newCborWriter (maxByteLength opts)"
  have out: "outcome (\<lambda>w. encodeValue opts w v 0) (cbor_value opts v 0)"
    by (rule outcome_value)
  show ?thesis
  proof (cases "cbor_value opts v 0")
    case None
    with out have "\<forall>w. good_writer w \<longrightarrow> (\<exists>e. encodeValue opts w v 0 = Inl e)"
      by (simp add: outcome_def writer.refuses_def)
    then obtain e where "encodeValue opts ?w v 0 = Inl e"
      using good_newCborWriter(1) by blast
    with None assms show ?thesis by (simp add: encodeCbor_def)
  next
    case (Some b)
    with out have em: "writer.emits (\<lambda>w. encodeValue opts w v 0) b" by (simp add: outcome_def)
    note good = good_newCborWriter(1)[of "maxByteLength opts"]
    show ?thesis
    proof (cases "length b \<le> maxByteLength opts")
      case True
      with writer.emits_fits[OF em good] obtain w' where
        "encodeValue opts ?w v 0 = Inr w'" "contents w' = b"
        by (auto simp: good_newCborWriter)
      with Some assms True show ?thesis by (auto simp: encodeCbor_def finish_contents)
    next
      case False
      with writer.emits_full[OF em good] obtain e where "encodeValue opts ?w v 0 = Inl e"
        by (auto simp: good_newCborWriter)
      with Some assms False show ?thesis by (auto simp: encodeCbor_def)
    qed
  qed
qed

subsection \<open>Byte sources\<close>

text \<open>
  What the decoder needs of the reader, and what a decoding step does: \<open>reads f bs x\<close> says that \<open>f\<close>
  consumes exactly \<open>bs\<close> from any input that begins with them, and returns \<open>x\<close>.
\<close>

locale byte_source =
  fixes get :: "'r \<Rightarrow> nat \<Rightarrow> 'e + (byte list \<times> 'r)"
    and rest :: "'r \<Rightarrow> byte list"
    and valid :: "'r \<Rightarrow> bool"
  assumes get_available: "valid r \<Longrightarrow> n \<le> length (rest r) \<Longrightarrow>
      \<exists>r'. get r n = Inr (take n (rest r), r') \<and> valid r' \<and> rest r' = drop n (rest r)"
    and get_truncated: "valid r \<Longrightarrow> length (rest r) < n \<Longrightarrow> \<exists>e. get r n = Inl e"
begin

definition reads :: "('r \<Rightarrow> 'e + ('x \<times> 'r)) \<Rightarrow> byte list \<Rightarrow> 'x \<Rightarrow> bool" where
  "reads f bs x \<longleftrightarrow> (\<forall>r zs. valid r \<longrightarrow> rest r = bs @ zs \<longrightarrow>
     (\<exists>r'. f r = Inr (x, r') \<and> valid r' \<and> rest r' = zs))"

lemma readsD: "reads f bs x \<Longrightarrow> valid r \<Longrightarrow> rest r = bs @ zs \<Longrightarrow>
    \<exists>r'. f r = Inr (x, r') \<and> valid r' \<and> rest r' = zs"
  by (simp add: reads_def)

lemma reads_get: "length bs = n \<Longrightarrow> reads (\<lambda>r. get r n) bs bs"
  unfolding reads_def
proof (intro allI impI)
  fix r zs
  assume "length bs = n" "valid r" "rest r = bs @ zs"
  with get_available[of r n] show "\<exists>r'. get r n = Inr (bs, r') \<and> valid r' \<and> rest r' = zs"
    by simp
qed

lemma reads_return: "reads (\<lambda>r. Inr (x, r)) [] x"
  by (simp add: reads_def)

lemma reads_seq:
  assumes "reads f as x" and "reads (g x) bs y"
  shows "reads (\<lambda>r. and_then (f r) (\<lambda>(x, r). g x r)) (as @ bs) y"
  unfolding reads_def
proof (intro allI impI)
  fix r zs
  assume "valid r" and "rest r = (as @ bs) @ zs"
  then obtain r1 where r1: "f r = Inr (x, r1)" "valid r1" "rest r1 = bs @ zs"
    using readsD[OF assms(1), of r "bs @ zs"] by auto
  with readsD[OF assms(2) r1(2,3)] show "\<exists>r'. and_then (f r) (\<lambda>(x, r). g x r) = Inr (y, r') \<and> valid r' \<and> rest r' = zs"
    by auto
qed

lemma reads_last: "reads f bs x \<Longrightarrow> reads (\<lambda>r. and_then (f r) (\<lambda>(x, r). Inr (h x, r))) bs (h x)"
  using reads_seq[of f bs x "\<lambda>x r. Inr (h x, r)" "[]" "h x"] by (simp add: reads_return)

end

definition reader_rest :: "cbor_reader \<Rightarrow> byte list" where
  "reader_rest r = drop (readerOffset r) (readerBytes r)"

definition good_reader :: "cbor_reader \<Rightarrow> bool" where
  "good_reader r \<longleftrightarrow> readerOffset r \<le> length (readerBytes r)"

interpretation reader: byte_source readBytes reader_rest good_reader
  by unfold_locales (auto simp: readBytes_def reader_rest_def good_reader_def add.commute)

lemma reads_readByte: "reader.reads readByte [b] (unat b)"
  unfolding reader.reads_def
proof (intro allI impI)
  fix r zs
  assume r: "good_reader r" "reader_rest r = [b] @ zs"
  then have lt: "readerOffset r < length (readerBytes r)"
    by (metis append_Cons drop_all linorder_not_less list.distinct(1) reader_rest_def)
  with r have "readerBytes r ! readerOffset r = b" "drop (Suc (readerOffset r)) (readerBytes r) = zs"
    by (auto simp: reader_rest_def Cons_nth_drop_Suc[symmetric])
  with lt show "\<exists>r'. readByte r = Inr (unat b, r') \<and> good_reader r' \<and> reader_rest r' = zs"
    by (auto simp: readByte_def good_reader_def reader_rest_def)
qed

lemma reads_uint16: "v < 0x10000 \<Longrightarrow> reader.reads (readArgument 25) [byte_of (drop_bit 8 v), byte_of v] v"
proof -
  assume v: "v < 0x10000"
  have "unat (byte_of (drop_bit 8 v)) * 0x100 + unat (byte_of v) = v"
    using v by (simp add: drop_bit_eq_div)
  with reader.reads_last[OF reader.reads_get[of "[byte_of (drop_bit 8 v), byte_of v]" 2],
      of "\<lambda>b. unat (b ! 0) * 0x100 + unat (b ! 1)"]
  show ?thesis by (simp add: readArgument.simps[abs_def])
qed

lemma reads_uint32: "v \<le> MAX_UINT32 \<Longrightarrow> reader.reads (readArgument 26) (be_bytes32 v) v"
proof -
  assume v: "v \<le> MAX_UINT32"
  have "be_nat32 (be_bytes32 v) = v"
    using v by (intro be_nat32_bytes32_Nil) (simp add: MAX_UINT32_def)
  with reader.reads_last[OF reader.reads_get[of "be_bytes32 v" 4], of be_nat32]
  show ?thesis by (simp add: readArgument.simps[abs_def])
qed


lemma unat_byte_eq: "v < 256 \<Longrightarrow> unat (byte_of v) = v"
  by simp

lemma reads_argument:
  assumes "int v \<le> MAX_SAFE_INTEGER"
  shows "reader.reads (readArgument (argument_info v)) (argument_tail v) v"
proof -
  consider "v < 24" | "24 \<le> v" "v \<le> 0xff" | "0xff < v" "v \<le> 0xffff" | "0xffff < v" "v \<le> MAX_UINT32"
    | "MAX_UINT32 < v" by linarith
  then show ?thesis
  proof cases
    case 1
    then show ?thesis
      using reader.reads_return[of v]
      by (simp add: argument_info_def argument_tail_def readArgument.simps[abs_def])
  next
    case 2
    then show ?thesis
      using reads_readByte[of "byte_of v"]
      by (simp add: argument_info_def argument_tail_def readArgument.simps[abs_def])
  next
    case 3
    then show ?thesis
      using reads_uint16[of v] by (simp add: argument_info_def argument_tail_def)
  next
    case 4
    then show ?thesis
      using reads_uint32[of v] by (simp add: argument_info_def argument_tail_def)
  next
    case 5
    let ?h = "v div UINT32_BASE" and ?l = "v mod UINT32_BASE"
    have h: "?h \<le> 0x1fffff" "?h \<le> MAX_UINT32" and l: "?l \<le> MAX_UINT32"
      using assms by (auto simp: UINT32_BASE_def MAX_UINT32_def MAX_SAFE_INTEGER_def)
    let ?f = "\<lambda>high low r. if high > 0x1fffff then Inl UnsafeLength else Inr (high * UINT32_BASE + low, r)"
    have "reader.reads (?f ?h ?l) [] v"
      using h reader.reads_return[of v] by (simp add: not_less)
    then have "reader.reads (\<lambda>r. and_then (readArgument 26 r) (\<lambda>(low, r). ?f ?h low r)) (be_bytes32 ?l @ []) v"
      by (rule reader.reads_seq[OF reads_uint32[OF l]])
    then have "reader.reads (\<lambda>r. and_then (readArgument 26 r) (\<lambda>(high, r).
        and_then (readArgument 26 r) (\<lambda>(low, r). ?f high low r))) (be_bytes32 ?h @ be_bytes32 ?l @ []) v"
      by (rule reader.reads_seq[OF reads_uint32[OF h(2)]])
    then show ?thesis
      using 5 by (simp add: argument_info_def argument_tail_def readArgument.simps[of 27, abs_def] MAX_UINT32_def)
  qed
qed

lemma argument_info_range: "argument_info v < 28" "argument_info v \<noteq> 31"
  by (auto simp: argument_info_def)

lemma reads_length:
  "v \<le> limit \<Longrightarrow> int v \<le> MAX_SAFE_INTEGER \<Longrightarrow>
   reader.reads (readLength (argument_info v) kind limit) (argument_tail v) v"
  using reader.reads_seq[OF reads_argument, of v "\<lambda>n r. if n > limit then Inl (LengthLimit kind limit) else Inr (n, r)" "[]" v]
    reader.reads_return[of v] argument_info_range(2)[of v]
  by (simp add: readLength_def[abs_def])

text \<open>The initial byte splits into the major type and the additional information.\<close>

lemma initial_byte:
  assumes "m < 8" and "i < 32"
  shows "drop_bit 5 (unat (byte_of (32 * m + i))) = m" and "unat (byte_of (32 * m + i)) AND 0x1f = i"
proof -
  have u: "unat (byte_of (32 * m + i)) = 32 * m + i"
    using assms by simp
  show "drop_bit 5 (unat (byte_of (32 * m + i))) = m"
    unfolding u using assms by (simp add: drop_bit_eq_div)
  have "(31 :: nat) = mask 5"
    by (simp add: mask_eq_exp_minus_1)
  then have "(32 * m + i) AND 31 = take_bit 5 (32 * m + i)"
    by (simp only: take_bit_eq_mask)
  also have "\<dots> = i"
    using assms by (simp add: take_bit_eq_mod)
  finally show "unat (byte_of (32 * m + i)) AND 0x1f = i"
    unfolding u by simp
qed


subsection \<open>Decoding the bytes of a value\<close>

text \<open>
  What decoding gives for a value: its properties with an \<open>undefined\<close> value are gone.
  \<open>ordered_value\<close> says that the value is one JavaScript can hold: numbers canonical, own properties
  in their order.
\<close>

primrec strip_undefined :: "js_value \<Rightarrow> js_value" where
  "strip_undefined JUndefined = JUndefined"
| "strip_undefined JNull = JNull"
| "strip_undefined (JBool b) = JBool b"
| "strip_undefined (JNumber n) = JNumber n"
| "strip_undefined (JString s) = JString s"
| "strip_undefined (JBytes bs) = JBytes bs"
| "strip_undefined (JArray vs) = JArray (map strip_undefined vs)"
| "strip_undefined (JObject symbols es) = JObject symbols (present_entries (map (map_prod id strip_undefined) es))"
| "strip_undefined (JOther t) = JOther t"

primrec ordered_value :: "js_value \<Rightarrow> bool" where
  "ordered_value JUndefined = True"
| "ordered_value JNull = True"
| "ordered_value (JBool b) = True"
| "ordered_value (JNumber n) = canonical_number n"
| "ordered_value (JString s) = True"
| "ordered_value (JBytes bs) = True"
| "ordered_value (JArray vs) = list_all id (map ordered_value vs)"
| "ordered_value (JObject symbols es) =
     (own_order (present_entries es) \<and> list_all snd (map (map_prod id ordered_value) es))"
| "ordered_value (JOther t) = True"

lemma strip_undefined_iff: "strip_undefined v = JUndefined \<longleftrightarrow> v = JUndefined"
  by (cases v) auto

lemma present_Nil [simp]: "present_entries [] = []"
  by (simp add: present_entries_def)

lemma present_Cons [simp]:
  "present_entries ((k, v) # es) = (if v = JUndefined then present_entries es else (k, v) # present_entries es)"
  by (simp add: present_entries_def)

lemma present_strip:
  "present_entries (map (map_prod id strip_undefined) es) = map (map_prod id strip_undefined) (present_entries es)"
  by (induction es) (auto simp: strip_undefined_iff)

lemma own_order_map: "own_order (map (map_prod id f) es) = own_order es"
  by (simp add: own_order_def sorted_wrt_map comp_def)

lemma reads_item:
  assumes "depth \<le> maxDepth opts" and "m < 8" and "i < 32"
    and "reader.reads (readMajor opts (\<lambda>r. readItem opts (Suc depth) r) m i) bs x"
  shows "reader.reads (readItem opts depth) (byte_of (32 * m + i) # bs) x"
proof -
  have "reader.reads (\<lambda>r. readMajor opts (\<lambda>r. readItem opts (Suc depth) r)
      (drop_bit 5 (unat (byte_of (32 * m + i)))) (unat (byte_of (32 * m + i)) AND 0x1f) r) bs x"
    using assms(4) initial_byte[OF assms(2,3)] by simp
  from reader.reads_seq[OF reads_readByte, where g = "\<lambda>initial r. readMajor opts (\<lambda>r. readItem opts (Suc depth) r)
      (drop_bit 5 initial) (initial AND 0x1f) r", OF this]
  show ?thesis
    using assms(1) by (simp add: readItem.simps[abs_def] not_less)
qed

lemma reads_argument_item:
  assumes "depth \<le> maxDepth opts" and "m < 8"
    and "reader.reads (readMajor opts (\<lambda>r. readItem opts (Suc depth) r) m (argument_info v)) (argument_tail v @ bs) x"
  shows "reader.reads (readItem opts depth) (argument_bytes m v @ bs) x"
  using reads_item[OF assms(1,2) _ assms(3)] argument_info_range(1)[of v] by (simp add: argument_bytes_def)

lemma bytes_double_bytes: "bytes_double (double_bytes d) = d"
proof -
  have d: "unat d < 2 ^ 64" using unsigned_less[of d] by simp
  then have "unat d div UINT32_BASE < 2 ^ 32" "unat d mod UINT32_BASE < 2 ^ 32"
    by (auto simp: UINT32_BASE_def)
  then have "be_nat32 (double_bytes d) = unat d div UINT32_BASE"
    "be_nat32 (drop 4 (double_bytes d)) = unat d mod UINT32_BASE"
    by (simp_all add: double_bytes_def be_nat32_bytes32 be_nat32_bytes32_Nil)
  then show ?thesis
    by (simp add: bytes_double_def)
qed

lemma length_double_bytes: "length (double_bytes d) = 8"
  by (simp add: double_bytes_def)


lemma reads_simple:
  assumes "depth \<le> maxDepth opts" and "(i, x) \<in> {(20, JBool False), (21, JBool True), (22, JNull)}"
  shows "reader.reads (readItem opts depth) [byte_of (224 + i)] x"
proof -
  have "reader.reads (readMajor opts (\<lambda>r. readItem opts (Suc depth) r) 7 i) [] x"
    using assms(2) by (auto simp: readMajor_def[abs_def] readSimple_def[abs_def] reader.reads_return)
  then show ?thesis
    using reads_item[OF assms(1), of 7 i "[]" x] assms(2) by auto
qed

lemma reads_double:
  assumes "depth \<le> maxDepth opts" and "double_exponent d \<noteq> 2047" and "number_of_bits d = JDouble d"
  shows "reader.reads (readItem opts depth) (0xfb # double_bytes d) (JNumber (JDouble d))"
proof -
  let ?g = "\<lambda>b r. let n = number_of_bits (bytes_double b) in
          if \<not> is_finite n then Inl DecodedNonFinite
          else if is_integer n \<and> \<not> is_safe_integer n then Inl DecodedUnsafeInteger
          else Inr (JNumber n, r)"
  have "reader.reads (?g (double_bytes d)) [] (JNumber (JDouble d))"
    using assms(2,3) by (simp add: bytes_double_bytes reader.reads_return)
  then have "reader.reads (\<lambda>r. and_then (readBytes r 8) (\<lambda>(b, r). ?g b r)) (double_bytes d @ []) (JNumber (JDouble d))"
    by (rule reader.reads_seq[OF reader.reads_get[OF length_double_bytes]])
  then have "reader.reads (readMajor opts (\<lambda>r. readItem opts (Suc depth) r) 7 27) (double_bytes d) (JNumber (JDouble d))"
    by (simp add: readMajor_def[abs_def] readSimple_def[abs_def])
  from reads_item[OF assms(1) _ _ this] show ?thesis
    by (simp add: byte_of_def)
qed

lemma reads_integer:
  assumes "depth \<le> maxDepth opts" and "\<bar>i\<bar> \<le> MAX_SAFE_INTEGER"
  shows "reader.reads (readItem opts depth) (if 0 \<le> i then argument_bytes 0 (nat i) else argument_bytes 1 (nat (- 1 - i)))
      (JNumber (JInt i))"
proof (cases "0 \<le> i")
  case True
  then have "reader.reads (readMajor opts (\<lambda>r. readItem opts (Suc depth) r) 0 (argument_info (nat i)))
      (argument_tail (nat i)) (JNumber (JInt i))"
    using reader.reads_last[OF reads_argument[of "nat i"], of "\<lambda>n. JNumber (JInt (int n))"] assms(2)
    by (simp add: readMajor_def[abs_def])
  then show ?thesis
    using reads_argument_item[OF assms(1), of 0 "nat i" "[]"] True by simp
next
  case False
  let ?g = "\<lambda>n r. let v = JInt (- 1 - int n) in
      if \<not> is_safe_integer v then Inl DecodedUnsafeInteger else Inr (JNumber v, r)"
  have "reader.reads (?g (nat (- 1 - i))) [] (JNumber (JInt i))"
    using False assms(2) reader.reads_return by simp
  then have "reader.reads (\<lambda>r. and_then (readArgument (argument_info (nat (- 1 - i))) r) (\<lambda>(n, r). ?g n r))
      (argument_tail (nat (- 1 - i)) @ []) (JNumber (JInt i))"
    using assms(2) by (intro reader.reads_seq[OF reads_argument]) auto
  then have "reader.reads (readMajor opts (\<lambda>r. readItem opts (Suc depth) r) 1 (argument_info (nat (- 1 - i))))
      (argument_tail (nat (- 1 - i)) @ []) (JNumber (JInt i))"
    by (simp add: readMajor_def[abs_def])
  from reads_argument_item[OF assms(1) _ this] show ?thesis
    using False by simp
qed

text \<open>Lengths are below every limit the options can set, hence safe integers.\<close>

definition small_options :: "cbor_options \<Rightarrow> bool" where
  "small_options opts \<longleftrightarrow> maxByteLength opts \<le> MAX_UINT32 \<and> maxContainerLength opts \<le> MAX_UINT32"

lemma reads_sized:
  assumes "depth \<le> maxDepth opts" and "m < 8" and "n \<le> limit" and "limit \<le> MAX_UINT32"
    and major: "\<And>r. readMajor opts (\<lambda>r. readItem opts (Suc depth) r) m (argument_info n) r =
      and_then (readLength (argument_info n) kind limit r) (\<lambda>(n, r). g n r)"
    and body: "reader.reads (g n) bs x"
  shows "reader.reads (readItem opts depth) (argument_bytes m n @ bs) x"
proof -
  have "int n \<le> MAX_SAFE_INTEGER"
    using assms(3,4) by (simp add: MAX_UINT32_def MAX_SAFE_INTEGER_def)
  from reader.reads_seq[OF reads_length[OF assms(3) this], where g = g, OF body]
  have "reader.reads (readMajor opts (\<lambda>r. readItem opts (Suc depth) r) m (argument_info n)) (argument_tail n @ bs) x"
    by (simp add: major[abs_def])
  then show ?thesis
    by (rule reads_argument_item[OF assms(1,2)])
qed

lemma reads_bytes:
  assumes "depth \<le> maxDepth opts" and "length bs \<le> maxByteLength opts" and "small_options opts"
  shows "reader.reads (readItem opts depth) (argument_bytes 2 (length bs) @ bs) (JBytes bs)"
  using assms reader.reads_last[OF reader.reads_get[OF refl], of bs JBytes]
  by (intro reads_sized[where kind = "''byte string''" and limit = "maxByteLength opts"
        and g = "\<lambda>n r. and_then (readBytes r n) (\<lambda>(b, r). Inr (JBytes b, r))"])
    (auto simp: small_options_def readMajor_def)

lemma reads_text:
  assumes "depth \<le> maxDepth opts" and "text_bytes opts s = Some bs" and "small_options opts"
  shows "reader.reads (readItem opts depth) bs (JString s)"
proof -
  let ?b = "textEncoder_encode s"
  have b: "length ?b \<le> maxByteLength opts" "textDecoder_decode ?b = Some s" "bs = argument_bytes 3 (length ?b) @ ?b"
    using assms(2) by (auto simp: text_bytes_def Let_def split: if_splits)
  let ?g = "\<lambda>b r. case textDecoder_decode b of None \<Rightarrow> Inl InvalidUtf8 | Some s \<Rightarrow> Inr (JString s, r)"
  have "reader.reads (?g ?b) [] (JString s)"
    using b(2) by (simp add: reader.reads_return)
  then have "reader.reads (\<lambda>r. and_then (readBytes r (length ?b)) (\<lambda>(b, r). ?g b r)) (?b @ []) (JString s)"
    by (rule reader.reads_seq[OF reader.reads_get[OF refl]])
  with assms(1,3) b show ?thesis
    unfolding b(3)
    by (intro reads_sized[where kind = "''text string''" and limit = "maxByteLength opts"
          and g = "\<lambda>n r. and_then (readBytes r n) (\<lambda>(b, r). ?g b r)"])
      (auto simp: small_options_def readMajor_def)
qed


lemma cbor_value_depth: "cbor_value opts v depth = Some bs \<Longrightarrow> depth \<le> maxDepth opts"
  by (auto simp: cbor_value.simps split: if_splits)

lemma reads_entry:
  assumes key: "reader.reads item kb (JString k)" and val: "reader.reads item vb v" and "k \<notin> keys"
    and tail: "reader.reads (read_entries item n (insert k keys) (define_property k v result)) bs x"
  shows "reader.reads (read_entries item (Suc n) keys result) (kb @ vb @ bs) x"
proof -
  let ?g = "\<lambda>key r. case key of
         JString k \<Rightarrow> if k \<in> keys then Inl DuplicateKey
           else and_then (item r) (\<lambda>(v, r). read_entries item n (insert k keys) (define_property k v result) r)
       | _ \<Rightarrow> Inl NonStringKey"
  have "reader.reads (?g (JString k)) (vb @ bs) x"
    using reader.reads_seq[OF val, where g = "\<lambda>v. read_entries item n (insert k keys) (define_property k v result)", OF tail]
      \<open>k \<notin> keys\<close> by simp
  then have "reader.reads (\<lambda>r. and_then (item r) (\<lambda>(key, r). ?g key r)) (kb @ vb @ bs) x"
    by (rule reader.reads_seq[OF key])
  then show ?thesis by (simp add: read_entries.simps(2)[abs_def])
qed

lemma reads_items_Cons:
  assumes "reader.reads item b v" and "reader.reads (read_items item n) bs vs"
  shows "reader.reads (read_items item (Suc n)) (b @ bs) (v # vs)"
proof -
  have "reader.reads (\<lambda>r. and_then (read_items item n r) (\<lambda>(vs, r). Inr (v # vs, r))) bs (v # vs)"
    using reader.reads_last[OF assms(2), of "\<lambda>vs. v # vs"] by simp
  from reader.reads_seq[OF assms(1), where g = "\<lambda>v r. and_then (read_items item n r) (\<lambda>(vs, r). Inr (v # vs, r))", OF this]
  show ?thesis by (simp add: read_items.simps(2)[abs_def])
qed

lemma reads_value:
  assumes "small_options opts"
  shows "\<forall>bs. cbor_value opts v depth = Some bs \<longrightarrow> ordered_value v \<longrightarrow>
           reader.reads (readItem opts depth) bs (strip_undefined v)"
    and "\<forall>bs. cbor_items opts items depth = Some bs \<longrightarrow> list_all ordered_value items \<longrightarrow>
           reader.reads (read_items (readItem opts (Suc depth)) (length items)) bs (map strip_undefined items)"
    and "\<forall>bs pre. cbor_entries opts entries depth = Some bs \<longrightarrow> list_all (ordered_value \<circ> snd) entries \<longrightarrow>
           own_order (pre @ map (map_prod id strip_undefined) (present_entries entries)) \<longrightarrow>
           reader.reads (read_entries (readItem opts (Suc depth)) (length (present_entries entries)) (fst ` set pre) pre)
             bs (pre @ map (map_prod id strip_undefined) (present_entries entries))"
  using assms
proof (induction opts v depth and opts items depth and opts entries depth rule: cbor_value_cbor_items_cbor_entries.induct)
  case (1 opts val depth)
  show ?case
  proof (intro allI impI)
    fix bs
    assume val: "cbor_value opts val depth = Some bs" and ord: "ordered_value val"
    have depth: "depth \<le> maxDepth opts"
      by (rule cbor_value_depth[OF val])
    then have nd: "\<not> maxDepth opts < depth" by simp
    show "reader.reads (readItem opts depth) bs (strip_undefined val)"
    proof (cases val)
      case (JArray items)
      with val depth obtain ib where ib: "length items \<le> maxContainerLength opts"
        "cbor_items opts items depth = Some ib" "bs = argument_bytes 4 (length items) @ ib"
        by (auto simp: cbor_value.simps split: if_splits)
      have "reader.reads (read_items (readItem opts (Suc depth)) (length items)) ib (map strip_undefined items)"
        using 1(1)[OF nd JArray] ib ord JArray 1(3) by (simp add: list_all_length)
      from reader.reads_last[OF this, of JArray]
      have "reader.reads (\<lambda>r. and_then (read_items (readItem opts (Suc depth)) (length items) r) (\<lambda>(vs, r). Inr (JArray vs, r)))
          ib (JArray (map strip_undefined items))" .
      with depth ib(1) 1(3) show ?thesis
        unfolding JArray ib(3)
        by (intro reads_sized[where kind = "''array''" and limit = "maxContainerLength opts"
              and g = "\<lambda>n r. and_then (read_items (\<lambda>r. readItem opts (Suc depth) r) n r) (\<lambda>(vs, r). Inr (JArray vs, r))"])
          (auto simp: small_options_def readMajor_def)
    next
      case (JObject symbols es)
      with val depth obtain eb where eb: "\<not> symbols" "length (present_entries es) \<le> maxContainerLength opts"
        "cbor_entries opts es depth = Some eb" "bs = argument_bytes 5 (length (present_entries es)) @ eb"
        by (auto simp: cbor_value.simps split: if_splits)
      let ?es = "map (map_prod id strip_undefined) (present_entries es)"
      have "list_all (ordered_value \<circ> snd) es" "own_order ([] @ ?es)"
        using ord JObject by (auto simp: own_order_map list_all_iff)
      then have "reader.reads (read_entries (readItem opts (Suc depth)) (length (present_entries es)) {} []) eb ?es"
        using 1(2)[OF nd JObject _ 1(3), rule_format, of eb "[]"] eb by simp
      from reader.reads_last[OF this, of "JObject False"]
      have "reader.reads (\<lambda>r. and_then (read_entries (readItem opts (Suc depth)) (length (present_entries es)) {} [] r)
          (\<lambda>(es, r). Inr (JObject False es, r))) eb (JObject False ?es)" .
      moreover have "strip_undefined (JObject symbols es) = JObject False ?es"
        using eb(1) by (simp add: present_strip)
      ultimately show ?thesis
        unfolding JObject eb(4) using depth eb(2) 1(3)
        by (simp only:)
          (rule reads_sized[where kind = "''map''" and limit = "maxContainerLength opts"
              and g = "\<lambda>n r. and_then (read_entries (\<lambda>r. readItem opts (Suc depth) r) n {} [] r) (\<lambda>(es, r). Inr (JObject False es, r))"];
            simp add: small_options_def readMajor_def)
    next
      case (JNumber n)
      show ?thesis
      proof (cases n)
        case (JInt i)
        with JNumber val depth have "\<bar>i\<bar> \<le> MAX_SAFE_INTEGER"
          "bs = (if 0 \<le> i then argument_bytes 0 (nat i) else argument_bytes 1 (nat (- 1 - i)))"
          by (auto simp: cbor_value.simps number_bytes_def split: if_splits)
        with reads_integer[OF depth] JNumber JInt show ?thesis by simp
      next
        case (JDouble d)
        with JNumber val depth ord show ?thesis
          using reads_double[OF depth] by (auto simp: cbor_value.simps number_bytes_def split: if_splits)
      qed
    next
      case (JString t)
      with val depth show ?thesis
        using reads_text[OF depth _ 1(3)] by (simp add: cbor_value.simps)
    next
      case (JBytes t)
      with val depth show ?thesis
        using reads_bytes[OF depth _ 1(3)] by (auto simp: cbor_value.simps split: if_splits)
    next
      case JNull
      with val depth show ?thesis
        using reads_simple[OF depth, of 22 JNull] by (auto simp: cbor_value.simps byte_of_def)
    next
      case (JBool b)
      with val depth show ?thesis
        using reads_simple[OF depth, of 21 "JBool True"] reads_simple[OF depth, of 20 "JBool False"]
        by (auto simp: cbor_value.simps byte_of_def)
    qed (use val depth in \<open>auto simp: cbor_value.simps\<close>)
  qed
next
  case (2 opts depth)
  then show ?case by (auto simp: reader.reads_return)
next
  case (3 opts item items depth)
  then show ?case
    by (auto split: option.splits if_splits intro!: reads_items_Cons simp del: read_items.simps)
next
  case (4 opts depth)
  then show ?case by (auto simp: reader.reads_return)
next
  case (5 opts k v entries depth)
  show ?case
  proof (cases "v = JUndefined")
    case True
    then show ?thesis using 5(1,4) by simp
  next
    case False
    let ?more = "map (map_prod id strip_undefined) (present_entries entries)"
    show ?thesis
    proof (intro allI impI)
      fix bs pre
      assume ent: "cbor_entries opts ((k, v) # entries) depth = Some bs"
        and ord: "list_all (ordered_value \<circ> snd) ((k, v) # entries)"
        and own: "own_order (pre @ map (map_prod id strip_undefined) (present_entries ((k, v) # entries)))"
      from ent False obtain kb vb eb where b: "text_bytes opts k = Some kb" "cbor_value opts v (depth + 1) = Some vb"
        "cbor_entries opts entries depth = Some eb" "bs = kb @ vb @ eb"
        by (auto split: option.splits)
      have own1: "own_order ((pre @ [(k, strip_undefined v)]) @ ?more)"
        using own False by simp
      have dp: "define_property k (strip_undefined v) pre = pre @ [(k, strip_undefined v)]"
        by (rule own_order_snoc[OF own_order_appendD[OF own1]])
      have fresh: "k \<notin> fst ` set pre"
        using own1 by (auto simp: own_order_def)
      have val: "reader.reads (readItem opts (Suc depth)) vb (strip_undefined v)"
        using 5(2)[OF False b(1)] b(2) ord 5(4) by simp
      have key: "reader.reads (readItem opts (Suc depth)) kb (JString k)"
        using reads_text[OF _ b(1) 5(4)] cbor_value_depth[OF b(2)] by simp
      have "reader.reads (read_entries (readItem opts (Suc depth)) (length (present_entries entries))
          (fst ` set (pre @ [(k, strip_undefined v)])) (pre @ [(k, strip_undefined v)])) eb
          ((pre @ [(k, strip_undefined v)]) @ ?more)"
        using 5(3)[OF False b(1,2) 5(4), rule_format, OF b(3) _ own1] ord by simp
      then have "reader.reads (read_entries (readItem opts (Suc depth)) (length (present_entries entries))
          (insert k (fst ` set pre)) (define_property k (strip_undefined v) pre)) eb (pre @ (k, strip_undefined v) # ?more)"
        using dp by simp
      from reads_entry[OF key val fresh this]
      show "reader.reads (read_entries (readItem opts (Suc depth)) (length (present_entries ((k, v) # entries)))
          (fst ` set pre) pre) bs (pre @ map (map_prod id strip_undefined) (present_entries ((k, v) # entries)))"
        using b(4) False by (simp del: read_entries.simps)
    qed
  qed
qed

subsection \<open>Encoding and decoding\<close>

lemma resolveOptions_small: "resolveOptions options = Inr opts \<Longrightarrow> small_options opts"
  by (auto simp: resolveOptions_def resolveLimit_def small_options_def result_simps split: if_splits)

lemma decodeCbor_reads:
  assumes "resolveOptions options = Inr opts" and "length bs \<le> maxByteLength opts"
    and "reader.reads (readItem opts 0) bs v"
  shows "decodeCbor bs options = Inr v"
proof -
  let ?r = "\<lparr>readerBytes = bs, readerOffset = 0\<rparr>"
  have "good_reader ?r" "reader_rest ?r = bs @ []"
    by (simp_all add: good_reader_def reader_rest_def)
  with reader.readsD[OF assms(3)] obtain r' where
    r': "readItem opts 0 ?r = Inr (v, r')" "good_reader r'" "reader_rest r' = []"
    by blast
  then have "readerOffset r' = length (readerBytes r')"
    by (auto simp: good_reader_def reader_rest_def)
  with assms r'(1) show ?thesis by (simp add: decodeCbor_def)
qed

subsection \<open>What decoding can return\<close>

text \<open>
  A value within the limits: nesting, byte lengths and container lengths are bounded, text has an
  encoding, numbers are finite and their integers safe, and an object's keys are distinct and in
  JavaScript's order, without \<open>undefined\<close> anywhere.
\<close>

primrec value_within :: "cbor_options \<Rightarrow> js_value \<Rightarrow> nat \<Rightarrow> bool" where
  "value_within opts JUndefined = (\<lambda>depth. False)"
| "value_within opts JNull = (\<lambda>depth. depth \<le> maxDepth opts)"
| "value_within opts (JBool b) = (\<lambda>depth. depth \<le> maxDepth opts)"
| "value_within opts (JNumber n) = (\<lambda>depth. depth \<le> maxDepth opts \<and> canonical_number n \<and> is_finite n \<and>
     (is_integer n \<longrightarrow> is_safe_integer n))"
| "value_within opts (JString s) = (\<lambda>depth. depth \<le> maxDepth opts \<and> length (textEncoder_encode s) \<le> maxByteLength opts \<and>
     textDecoder_decode (textEncoder_encode s) = Some s)"
| "value_within opts (JBytes bs) = (\<lambda>depth. depth \<le> maxDepth opts \<and> length bs \<le> maxByteLength opts)"
| "value_within opts (JArray vs) = (\<lambda>depth. depth \<le> maxDepth opts \<and> length vs \<le> maxContainerLength opts \<and>
     list_all (\<lambda>f. f (Suc depth)) (map (value_within opts) vs))"
| "value_within opts (JObject symbols es) = (\<lambda>depth. depth \<le> maxDepth opts \<and> \<not> symbols \<and> length es \<le> maxContainerLength opts \<and>
     own_order es \<and> list_all (\<lambda>(k, f). length (textEncoder_encode k) \<le> maxByteLength opts \<and>
       textDecoder_decode (textEncoder_encode k) = Some k \<and> f (Suc depth)) (map (map_prod id (value_within opts)) es))"
| "value_within opts (JOther t) = (\<lambda>depth. False)"

text \<open>An item reader that returns only values satisfying \<open>P\<close>.\<close>

definition returns :: "(cbor_reader \<Rightarrow> cbor_error + ('x \<times> cbor_reader)) \<Rightarrow> ('x \<Rightarrow> bool) \<Rightarrow> bool" where
  "returns f P \<longleftrightarrow> (\<forall>r x r'. f r = Inr (x, r') \<longrightarrow> P x)"

lemma readBytes_length: "readBytes r n = Inr (b, r') \<Longrightarrow> length b = n"
  by (auto simp: readBytes_def split: if_splits)

lemma readLength_limit: "readLength info kind limit r = Inr (n, r') \<Longrightarrow> n \<le> limit"
  by (auto simp: readLength_def result_simps split: if_splits)

lemma returns_items: "returns item P \<Longrightarrow> returns (read_items item n) (\<lambda>vs. length vs = n \<and> list_all P vs)"
  unfolding returns_def
proof (induction n)
  case (Suc n)
  then show ?case by (fastforce simp: result_simps)
qed simp

lemma returns_entries:
  assumes "returns item P" and "own_order es" and "keys = fst ` set es" and "list_all (\<lambda>(k, v). P (JString k) \<and> P v) es"
  shows "returns (read_entries item n keys es) (\<lambda>es'. length es' = length es + n \<and> own_order es' \<and>
    list_all (\<lambda>(k, v). P (JString k) \<and> P v) es')"
  unfolding returns_def
proof (intro allI impI)
  fix r es' r'
  assume "read_entries item n keys es r = Inr (es', r')"
  with assms show "length es' = length es + n \<and> own_order es' \<and> list_all (\<lambda>(k, v). P (JString k) \<and> P v) es'"
  proof (induction item n keys es r rule: read_entries.induct)
    case (1 item keys result r)
    then show ?case by simp
  next
    case (2 item n keys result r)
    from 2(6) obtain k r1 v r2 where st: "item r = Inr (JString k, r1)" "k \<notin> keys" "item r1 = Inr (v, r2)"
      "read_entries item n (insert k keys) (define_property k v result) r2 = Inr (es', r')"
      by (clarsimp simp: result_simps) (auto split: js_value.split_asm if_split_asm simp: result_simps)
    have P: "P (JString k)" "P v" using 2(2) st(1,3) unfolding returns_def by blast+
    have "length es' = length (define_property k v result) + n \<and> own_order es' \<and> list_all (\<lambda>(k, v). P (JString k) \<and> P v) es'"
      using 2(1)[OF st(1) refl refl st(2,3) refl] st(4) 2(2-5) P st own_order_define_property[of result k v]
      by (auto simp: set_define_property list_all_iff)
    then show ?case by (simp add: length_define_property)
  qed
qed

lemma readArgument_byte: "readByte r = Inr (n, r') \<Longrightarrow> n < 256"
  by (auto simp: readByte_def split: if_splits)

lemma be_nat32_bound: "length b = 4 \<Longrightarrow> be_nat32 b \<le> MAX_UINT32"
proof -
  assume "length b = 4"
  then obtain b0 b1 b2 b3 where "b = [b0, b1, b2, b3]"
    by (auto simp: numeral_eq_Suc length_Suc_conv)
  moreover have "unat b0 \<le> 255" "unat b1 \<le> 255" "unat b2 \<le> 255" "unat b3 \<le> 255"
    by (simp_all add: less_Suc_eq_le[symmetric])
  ultimately show ?thesis
    by (simp add: be_nat32_def MAX_UINT32_def)
qed

lemma readArgument_26: "readArgument 26 r = Inr (n, r') \<Longrightarrow> n \<le> MAX_UINT32"
  by (subst (asm) readArgument.simps) (auto simp: result_simps dest!: readBytes_length be_nat32_bound)

lemma readArgument_safe:
  assumes "readArgument info r = Inr (n, r')"
  shows "int n \<le> MAX_SAFE_INTEGER"
proof (cases "info < 24 \<or> info = 24 \<or> info = 26")
  case True
  with assms readArgument_26[of r n r'] show ?thesis
    by (subst (asm) (1) readArgument.simps)
      (auto simp: result_simps MAX_SAFE_INTEGER_def MAX_UINT32_def
        dest!: readArgument_byte readBytes_length be_nat32_bound split: if_splits)
next
  case False
  then consider "info = 25" | "info = 27"
    using assms by (auto simp: readArgument.simps[of info] split: if_splits)
  then show ?thesis
  proof cases
    case 1
    with assms obtain b where "n = unat (b ! 0 :: byte) * 0x100 + unat (b ! 1)"
      by (subst (asm) readArgument.simps) (auto simp: result_simps)
    moreover have "unat (b ! 0) \<le> 255" "unat (b ! 1) \<le> 255"
      by (simp_all add: less_Suc_eq_le[symmetric])
    ultimately have "n \<le> 65535" by simp
    then show ?thesis by (simp add: MAX_SAFE_INTEGER_def)
  next
    case 2
    with assms obtain high low r1 where "readArgument 26 r1 = Inr (low, r')" "high \<le> 0x1fffff" "n = high * UINT32_BASE + low"
      by (auto simp: readArgument.simps[of 27] result_simps not_less split: if_splits)
    with readArgument_26[of r1 low r'] show ?thesis
      by (simp add: MAX_SAFE_INTEGER_def UINT32_BASE_def MAX_UINT32_def)
  qed
qed

lemma returns_readSimple: "returns (readSimple info) (\<lambda>v. \<forall>depth \<le> maxDepth opts. value_within opts v depth)"
  unfolding returns_def
proof (intro allI impI)
  fix r v r' depth
  assume "readSimple info r = Inr (v, r')" and "depth \<le> maxDepth opts"
  then show "value_within opts v depth"
    by (auto simp: readSimple_def Let_def result_simps canonical_number_of_bits split: if_splits)
qed

lemma returns_readMajor:
  assumes item: "returns item (\<lambda>v. value_within opts v (Suc depth))" and "depth \<le> maxDepth opts"
  shows "returns (readMajor opts item m info) (\<lambda>v. value_within opts v depth)"
  unfolding returns_def
proof (intro allI impI)
  fix r v r'
  assume rd: "readMajor opts item m info r = Inr (v, r')"
  show "value_within opts v depth"
  proof (cases "m \<in> {0, 3, 4, 5, 7}")
    case False
    with rd assms(2) show ?thesis
      by (auto simp: readMajor_def Let_def result_simps split: if_splits option.splits
          dest!: readLength_limit readBytes_length)
  next
    case True
    then consider "m = 4" | "m = 5" | "m = 7" | "m = 0" | "m = 3" by blast
    then show ?thesis
    proof cases
      case 1
      with rd obtain n r1 vs r2 where "readLength info ''array'' (maxContainerLength opts) r = Inr (n, r1)"
        "read_items item n r1 = Inr (vs, r2)" "v = JArray vs"
        by (auto simp: readMajor_def result_simps)
      with returns_items[OF item, of n] assms(2) show ?thesis
        by (fastforce simp: returns_def list.pred_map comp_def dest!: readLength_limit)
    next
      case 2
      with rd obtain n r1 es r2 where "readLength info ''map'' (maxContainerLength opts) r = Inr (n, r1)"
        "read_entries item n {} [] r1 = Inr (es, r2)" "v = JObject False es"
        by (auto simp: readMajor_def result_simps)
      with returns_entries[OF item, of "[]" "{}" n] assms(2) show ?thesis
        by (fastforce simp: returns_def own_order_def list_all_iff dest!: readLength_limit)
    next
      case 3
      with rd returns_readSimple[of info opts] assms(2) show ?thesis
        by (auto simp: readMajor_def returns_def)
    next
      case 4
      then show ?thesis using rd assms(2) readArgument_safe by (auto simp: readMajor_def result_simps)
    next
      case 5
      with rd obtain n r1 b s where "readLength info ''text string'' (maxByteLength opts) r = Inr (n, r1)"
        "length b = n" "textDecoder_decode b = Some s" "v = JString s"
        by (auto simp: readMajor_def result_simps split: option.splits dest!: readBytes_length)
      with encode_decode[of b s] assms(2) show ?thesis
        by (auto dest!: readLength_limit)
    qed
  qed
qed

lemma returns_readItem: "returns (readItem opts depth) (\<lambda>v. value_within opts v depth)"
proof (induction "Suc (maxDepth opts) - depth" arbitrary: depth)
  case 0
  then show ?case by (simp add: returns_def readItem.simps)
next
  case (Suc n)
  then have depth: "depth \<le> maxDepth opts" and "returns (readItem opts (Suc depth)) (\<lambda>v. value_within opts v (Suc depth))"
    by auto
  from returns_readMajor[OF this(2,1)] depth show ?case
    unfolding returns_def by (subst readItem.simps) (clarsimp simp: result_simps, metis)
qed

lemma decodeCbor_within:
  assumes "resolveOptions options = Inr opts" and "decodeCbor bs options = Inr v"
  shows "value_within opts v 0"
  using assms returns_readItem[of opts 0] by (auto simp: decodeCbor_def returns_def result_simps split: if_splits)

lemma decode_encoded:
  assumes "encodeCbor v options = Inr bs" and "ordered_value v"
  shows "decodeCbor bs options = Inr (strip_undefined v)"
proof -
  obtain opts where opts: "resolveOptions options = Inr opts"
    using assms(1) by (auto simp: encodeCbor_def result_simps)
  with assms(1) have bs: "cbor_value opts v 0 = Some bs" "length bs \<le> maxByteLength opts"
    by (simp_all add: encodeCbor_spec)
  from reads_value(1)[OF resolveOptions_small[OF opts]] bs(1) assms(2) show ?thesis
    by (intro decodeCbor_reads[OF opts bs(2)]) simp
qed

subsection \<open>A sample value\<close>

definition sample_value :: js_value where
  "sample_value = JObject False [([49], JArray [JNumber (JInt 300), JNull]), ([97], JUndefined),
     ([98], JObject False [([99], JString [0x20AC])]), ([100], JNumber (JDouble 0x3FF8000000000000))]"

definition default_options :: cbor_input_options where
  "default_options = \<lparr>optMaxByteLength = None, optMaxContainerLength = None, optMaxDepth = None\<rparr>"

definition default_limits :: cbor_options where
  "default_limits = \<lparr>maxByteLength = 16777216, maxContainerLength = 1000000, maxDepth = 64\<rparr>"

lemma resolve_default: "resolveOptions default_options = Inr default_limits"
  by (simp add: resolveOptions_def resolveLimit_def default_options_def default_number_def MAX_UINT32_def
      MAX_SAFE_INTEGER_def MAX_CONFIGURED_DEPTH_def DEFAULT_MAX_CBOR_BYTE_LENGTH_def
      DEFAULT_MAX_CBOR_CONTAINER_LENGTH_def DEFAULT_MAX_CBOR_DEPTH_def default_limits_def)

lemma ordered_sample: "ordered_value sample_value"
  by (simp add: sample_value_def own_order_def key_precedes_def index_key_def digit_of_def number_of_bits_def
      double_exponent_def double_mantissa_def)

lemma text_bytes_eq:
  "text_bytes opts s = (if length (textEncoder_encode s) \<le> maxByteLength opts \<and> well_formed s
     then Some (argument_bytes 3 (length (textEncoder_encode s)) @ textEncoder_encode s) else None)"
  using encode_decode[of _ s] units_roundtrip_only[of s] roundtrip_units[of s]
  by (auto simp: text_bytes_def Let_def decode_encode)

lemma encode_sample: "\<exists>bs. encodeCbor sample_value default_options = Inr bs"
  by (simp add: encodeCbor_spec[OF resolve_default] cbor_value.simps default_limits_def sample_value_def number_bytes_def
      argument_bytes_def argument_info_def argument_tail_def MAX_SAFE_INTEGER_def text_bytes_eq
      textEncoder_encode_def is_high_def is_low_def utf8_bytes_def Let_def double_exponent_def
      double_bytes_def be_bytes32_def present_entries_def)

subsection \<open>Properties\<close>

text \<open>C6: What the encoder writes the decoder reads back, under the same options: whenever a value
  is encoded, decoding its bytes succeeds and gives the value without its \<open>undefined\<close> properties.\<close>

theorem cbor_roundtrip:
  assumes "encodeCbor v options = Inr bs" and "ordered_value v"
  shows "decodeCbor bs options = Inr (strip_undefined v)"
  using assms by (rule decode_encoded)

theorem cbor_roundtrip_witness:
  "\<exists>bs. encodeCbor sample_value default_options = Inr bs \<and>
     decodeCbor bs default_options = Inr (strip_undefined sample_value)"
  using encode_sample cbor_roundtrip[OF _ ordered_sample] by blast

text \<open>C7: Every value the decoder returns respects the limits of its options: nesting at most
  \<open>maxDepth\<close>, byte strings, texts and keys at most \<open>maxByteLength\<close> bytes, containers at most
  \<open>maxContainerLength\<close> elements, numbers finite with safe integers, the keys of an object distinct and in
  own-property order.\<close>

theorem decoded_within_limits:
  assumes "decodeCbor bs options = Inr v" and "resolveOptions options = Inr opts"
  shows "value_within opts v 0"
  using decodeCbor_within[OF assms(2,1)] .

theorem decoded_within_limits_witness:
  "decodeCbor [0x82, 0x01, 0xf6] default_options = Inr (JArray [JNumber (JInt 1), JNull]) \<and>
   value_within default_limits (JArray [JNumber (JInt 1), JNull]) 0"
proof -
  have v: "decodeCbor [0x82, 0x01, 0xf6] default_options = Inr (JArray [JNumber (JInt 1), JNull])"
    using decode_encoded[of "JArray [JNumber (JInt 1), JNull]" default_options "[0x82, 0x01, 0xf6]"]
    by (simp add: encodeCbor_spec[OF resolve_default] cbor_value.simps default_limits_def number_bytes_def
        argument_bytes_def argument_info_def argument_tail_def MAX_SAFE_INTEGER_def byte_of_def)
  show ?thesis using decoded_within_limits[OF v resolve_default] v by blast
qed

text \<open>The encoder never writes more than \<open>maxByteLength\<close> bytes, and encodes exactly the values that
  have a CBOR form within the limits: it is the specification \<open>cbor_value\<close> cut off at that length, so
  that the growth of the buffer never changes the outcome.\<close>

theorem encoder_refines_cbor:
  assumes "resolveOptions options = Inr opts"
  shows "encodeCbor v options = Inr bs \<longleftrightarrow> cbor_value opts v 0 = Some bs \<and> length bs \<le> maxByteLength opts"
  using assms by (rule encodeCbor_spec)

theorem encoder_refines_cbor_witness:
  "encodeCbor JNull default_options = Inr [0xf6] \<and> cbor_value default_limits JNull 0 = Some [0xf6]"
  using encoder_refines_cbor[OF resolve_default, of JNull "[0xf6]"] by (simp add: cbor_value.simps default_limits_def)

end
