(* ===== verification/Codec.thy ===== *)
theory Codec
  imports CborCorrect
begin

section \<open>Protocol messages\<close>

text \<open>
  The model of \<^verbatim>\<open>packages/protocol/src/codec.ts\<close>: which values are protocol values, the
  encoding of one validated message, and the incremental decoder of validated messages. The schema
  check \<open>Check(ClientMessageSchema, value)\<close> of the typebox package is the parameter \<open>check\<close>. An
  error keeps the error it wraps instead of its message text. Arrays are dense, and a plain object
  is one whose prototype is \<open>Object.prototype\<close>.
\<close>

subsection \<open>Validation\<close>

datatype inner_error = FrameFailure frame_error | CborFailure cbor_error

datatype protocol_error =
    InvalidMessage string
  | UnableToEncode string inner_error
  | DecoderHasFailed string
  | InvalidFrame string inner_error
  | InvalidFraming string frame_error

primrec isProtocolValue :: "js_value \<Rightarrow> bool \<Rightarrow> bool" where
  "isProtocolValue JUndefined = (\<lambda>optionalProperty. optionalProperty)"
| "isProtocolValue JNull = (\<lambda>optionalProperty. True)"
| "isProtocolValue (JBool b) = (\<lambda>optionalProperty. True)"
| "isProtocolValue (JNumber n) = (\<lambda>optionalProperty. True)"
| "isProtocolValue (JString s) = (\<lambda>optionalProperty. True)"
| "isProtocolValue (JBytes bs) = (\<lambda>optionalProperty. False)"
| "isProtocolValue (JArray vs) = (\<lambda>optionalProperty. list_all (\<lambda>f. f False) (map isProtocolValue vs))"
| "isProtocolValue (JObject symbols es) =
     (\<lambda>optionalProperty. list_all (\<lambda>f. f True) (map snd (map (map_prod id isProtocolValue) es)))"
| "isProtocolValue (JOther t) = (\<lambda>optionalProperty. False)"

text \<open>\<open>parseClientMessage\<close> and \<open>parseServerMessage\<close>: the same function on two schemas.\<close>

definition parseMessage :: "(js_value \<Rightarrow> bool) \<Rightarrow> string \<Rightarrow> js_value \<Rightarrow> protocol_error + js_value" where
  "parseMessage check kind value =
     (if \<not> isProtocolValue value False \<or> \<not> check value then Inl (InvalidMessage kind) else Inr value)"

definition boundedErrorMessage :: "string option \<Rightarrow> string" where
  "boundedErrorMessage error =
     (case error of
        None \<Rightarrow> ''Unknown codec error''
      | Some message \<Rightarrow> if length message \<le> 500 then message else take 497 message @ ''...'')"

subsection \<open>Encoding\<close>

definition map_error :: "('e \<Rightarrow> 'f) \<Rightarrow> 'e + 'a \<Rightarrow> 'f + 'a" where
  "map_error g r = (case r of Inl e \<Rightarrow> Inl (g e) | Inr x \<Rightarrow> Inr x)"

lemma map_error_iff [simp, result_simps]:
  "map_error g r = Inr x \<longleftrightarrow> r = Inr x"
  "map_error g r = Inl e \<longleftrightarrow> (\<exists>e'. r = Inl e' \<and> e = g e')"
  by (auto simp: map_error_def split: sum.splits)

definition frame_limit :: "js_number option \<Rightarrow> js_number" where
  "frame_limit options = default_number options (int DEFAULT_MAX_FRAME_LENGTH)"

definition cbor_limit :: "js_number \<Rightarrow> cbor_input_options" where
  "cbor_limit n = \<lparr>optMaxByteLength = Some n, optMaxContainerLength = None, optMaxDepth = None\<rparr>"

definition encodeProtocolMessage ::
  "(js_value \<Rightarrow> bool) \<Rightarrow> string \<Rightarrow> js_number option \<Rightarrow> js_value \<Rightarrow> protocol_error + byte list" where
  "encodeProtocolMessage check kind options value =
     and_then (parseMessage check kind value) (\<lambda>validated.
       let maxFrameLength = frame_limit options in
       map_error (UnableToEncode kind)
         (and_then (map_error CborFailure (encodeCbor validated (cbor_limit maxFrameLength))) (\<lambda>payload.
          and_then (map_error FrameFailure (encodeFrame payload)) (\<lambda>frame.
          and_then (map_error FrameFailure (assertCompleteFrame frame (Some maxFrameLength))) (\<lambda>_. Inr frame)))))"

subsection \<open>Decoding\<close>

record message_decoder =
  failed :: bool
  frames :: frame_decoder
  kind :: string
  messageLimit :: js_number     \<comment> \<open>the decoder's \<open>maxFrameLength\<close>\<close>

definition newMessageDecoder :: "string \<Rightarrow> js_number option \<Rightarrow> frame_error + message_decoder" where
  "newMessageDecoder k options = and_then (newFrameDecoder options) (\<lambda>d.
     Inr \<lparr>failed = False, frames = d, kind = k, messageLimit = frame_limit options\<rparr>)"

text \<open>The loop over the frames of one push.\<close>

fun decode_messages ::
  "(js_value \<Rightarrow> bool) \<Rightarrow> string \<Rightarrow> js_number \<Rightarrow> byte list list \<Rightarrow> protocol_error + js_value list" where
  "decode_messages check k limit [] = Inr []"
| "decode_messages check k limit (frame # rest) =
     and_then (map_error (\<lambda>e. InvalidFrame k (CborFailure e)) (decodeCbor frame (cbor_limit limit))) (\<lambda>value.
     and_then (parseMessage check k value) (\<lambda>message.
     and_then (decode_messages check k limit rest) (\<lambda>messages. Inr (message # messages))))"

definition pushMessages :: "(js_value \<Rightarrow> bool) \<Rightarrow> message_decoder \<Rightarrow> byte list \<Rightarrow>
    (protocol_error \<times> message_decoder) + (js_value list \<times> message_decoder)" where
  "pushMessages check d chunk =
     (if failed d then Inl (DecoderHasFailed (kind d), d)
      else (case push (frames d) chunk of
          Inl (e, fd) \<Rightarrow> Inl (InvalidFrame (kind d) (FrameFailure e), d\<lparr>failed := True, frames := fd\<rparr>)
        | Inr (payloads, fd) \<Rightarrow>
            (case decode_messages check (kind d) (messageLimit d) payloads of
               Inl e \<Rightarrow> Inl (e, d\<lparr>failed := True, frames := fd\<rparr>)
             | Inr messages \<Rightarrow> Inr (messages, d\<lparr>frames := fd\<rparr>))))"

definition endMessages :: "message_decoder \<Rightarrow> (protocol_error \<times> message_decoder) + message_decoder" where
  "endMessages d =
     (if failed d then Inl (DecoderHasFailed (kind d), d)
      else (case end_stream (frames d) of
          Inl (e, fd) \<Rightarrow> Inl (InvalidFraming (kind d) e, d\<lparr>failed := True, frames := fd\<rparr>)
        | Inr fd \<Rightarrow> Inr (d\<lparr>frames := fd\<rparr>)))"

definition PROTOCOL_VERSION :: int where "PROTOCOL_VERSION = 1"

definition isSupportedProtocolVersion :: "js_number \<Rightarrow> bool" where
  "isSupportedProtocolVersion version \<longleftrightarrow> is_integer version \<and> integer_value version = PROTOCOL_VERSION"

subsection \<open>Lemmas\<close>

lemma protocol_value_stripped:
  "isProtocolValue v b \<Longrightarrow> v \<noteq> JUndefined \<Longrightarrow> isProtocolValue (strip_undefined v) b"
proof (induction v arbitrary: b)
  case (JArray vs)
  then show ?case by (fastforce simp: list.pred_map list_all_iff)
next
  case (JObject symbols es)
  then show ?case
    by (fastforce simp: list_all_iff present_entries_def strip_undefined_iff)
qed auto

lemma cbor_limit_resolves:
  assumes "resolveOptions (cbor_limit n) = Inr opts"
  shows "resolveMaxFrameLength (Some n) = Inr (maxByteLength opts)"
  using assms
  by (auto simp: resolveOptions_def cbor_limit_def resolveLimit_def default_number_def resolveMaxFrameLength_def
      result_simps split: if_splits)

lemma encodeProtocolMessage_Inr:
  assumes "encodeProtocolMessage check k options v = Inr frame"
  obtains payload limit where "isProtocolValue v False" "check v"
    "encodeCbor v (cbor_limit (frame_limit options)) = Inr payload"
    "encodeFrame payload = Inr frame" "resolveMaxFrameLength (Some (frame_limit options)) = Inr limit"
    "length payload \<le> limit"
proof -
  from assms obtain payload where p: "isProtocolValue v False" "check v"
    "encodeCbor v (cbor_limit (frame_limit options)) = Inr payload" "encodeFrame payload = Inr frame"
    by (auto simp: encodeProtocolMessage_def parseMessage_def Let_def result_simps split: if_splits)
  then obtain opts where opts: "resolveOptions (cbor_limit (frame_limit options)) = Inr opts"
    by (auto simp: encodeCbor_def result_simps)
  with p(3) have "length payload \<le> maxByteLength opts"
    by (simp add: encodeCbor_spec)
  with that p cbor_limit_resolves[OF opts] show thesis by blast
qed

lemma frame_limit_resolves: "resolveMaxFrameLength (Some (frame_limit options)) = resolveMaxFrameLength options"
  by (cases options) (simp_all add: resolveMaxFrameLength_def frame_limit_def default_number_def)

lemma pushMessages_frames:
  assumes "\<not> failed d" and "push (frames d) c = Inr (ps, fd)"
    and "decode_messages check (kind d) (messageLimit d) ps = Inr ms"
  shows "pushMessages check d c = Inr (ms, d\<lparr>frames := fd\<rparr>)"
  using assms by (simp add: pushMessages_def)

lemma decode_messages_append:
  "decode_messages check k l (ps @ qs) = Inr ms \<longleftrightarrow>
   (\<exists>as bs. decode_messages check k l ps = Inr as \<and> decode_messages check k l qs = Inr bs \<and> ms = as @ bs)"
  by (induction ps arbitrary: ms) (auto simp: result_simps)

text \<open>Decoding the messages of a stream is decoding the frames of the stream.\<close>

lemma feed_all_messages:
  assumes "feed_all push (frames d) chunks = Inr (ps, fd)" and "\<not> failed d"
    and "decode_messages check (kind d) (messageLimit d) ps = Inr ms"
  shows "feed_all (pushMessages check) d chunks = Inr (ms, d\<lparr>frames := fd\<rparr>)"
  using assms
proof (induction chunks arbitrary: d ps ms)
  case (Cons c cs)
  from Cons.prems(1) obtain ps1 fd1 ps2 where f: "push (frames d) c = Inr (ps1, fd1)"
    "feed_all push fd1 cs = Inr (ps2, fd)" "ps = ps1 @ ps2"
    by (auto simp: result_simps)
  with Cons.prems(3) obtain ms1 ms2 where m: "decode_messages check (kind d) (messageLimit d) ps1 = Inr ms1"
    "decode_messages check (kind d) (messageLimit d) ps2 = Inr ms2" "ms = ms1 @ ms2"
    by (auto simp: decode_messages_append)
  have "feed_all (pushMessages check) (d\<lparr>frames := fd1\<rparr>) cs = Inr (ms2, d\<lparr>frames := fd\<rparr>)"
    using Cons.IH[of "d\<lparr>frames := fd1\<rparr>" ps2 ms2] f m Cons.prems(2) by simp
  with pushMessages_frames[OF Cons.prems(2) f(1) m(1)] m(3) show ?case by simp
qed simp

lemma decode_messages_encoded:
  assumes "list_all2 (\<lambda>v p. encodeCbor v (cbor_limit n) = Inr p) vs ps"
    and "\<forall>v \<in> set vs. ordered_value v \<and> isProtocolValue v False \<and> check (strip_undefined v)"
  shows "decode_messages check k n ps = Inr (map strip_undefined vs)"
  using assms
proof (induction rule: list_all2_induct)
  case (Cons v vs p ps)
  have "v \<noteq> JUndefined"
    using Cons.prems by auto
  with Cons decode_encoded[OF Cons.hyps(1)] protocol_value_stripped[of v False] show ?case
    by (simp add: map_error_def parseMessage_def)
qed simp

lemma decode_messages_valid:
  "decode_messages check k l ps = Inr ms \<Longrightarrow> \<forall>m \<in> set ms. isProtocolValue m False \<and> check m"
  by (induction ps arbitrary: ms) (auto simp: result_simps parseMessage_def split: if_splits)

subsection \<open>A sample message\<close>

definition is_array :: "js_value \<Rightarrow> bool" where
  "is_array v = (case v of JArray vs \<Rightarrow> True | _ \<Rightarrow> False)"

definition sample_message :: js_value where
  "sample_message = JArray [JNumber (JInt 1), JNull]"

lemma encode_sample_message:
  "encodeProtocolMessage is_array ''client'' None sample_message = Inr [0, 0, 0, 3, 0x82, 1, 0xf6]"
proof -
  have "resolveOptions (cbor_limit (frame_limit None)) = Inr default_limits"
    by (simp add: cbor_limit_def frame_limit_def resolveOptions_def resolveLimit_def default_number_def MAX_UINT32_def
        MAX_SAFE_INTEGER_def MAX_CONFIGURED_DEPTH_def DEFAULT_MAX_FRAME_LENGTH_def
        DEFAULT_MAX_CBOR_CONTAINER_LENGTH_def DEFAULT_MAX_CBOR_DEPTH_def default_limits_def)
  then have "encodeCbor sample_message (cbor_limit (frame_limit None)) = Inr [0x82, 1, 0xf6]"
    by (simp add: encodeCbor_spec cbor_value.simps default_limits_def number_bytes_def sample_message_def
        argument_bytes_def argument_info_def argument_tail_def MAX_SAFE_INTEGER_def byte_of_def)
  then show ?thesis
    by (simp add: encodeProtocolMessage_def parseMessage_def is_array_def sample_message_def map_error_def
        encodeFrame_eq frame_bytes_def MAX_UINT32_def be_bytes32_def drop_bit_eq_div assertCompleteFrame_def
        frame_limit_def default_number_def resolveMaxFrameLength_def DEFAULT_MAX_FRAME_LENGTH_def
        MAX_SAFE_INTEGER_def be_nat32_def byte_of_def)
qed

subsection \<open>Properties\<close>

text \<open>What the encoders wrote is what the decoder delivers.\<close>

lemma encoded_messages_arrive:
  assumes "newMessageDecoder k options = Inr d"
    and "list_all2 (\<lambda>v frame. encodeProtocolMessage check k options v = Inr frame) vs encoded"
    and "concat chunks = concat encoded"
    and "\<forall>v \<in> set vs. ordered_value v \<and> check (strip_undefined v)"
  shows "\<exists>d' d''. feed_all (pushMessages check) d chunks = Inr (map strip_undefined vs, d') \<and>
           endMessages d' = Inr d''"
proof -
  obtain fd where fd: "newFrameDecoder options = Inr fd"
    "d = \<lparr>failed = False, frames = fd, kind = k, messageLimit = frame_limit options\<rparr>"
    using assms(1) by (auto simp: newMessageDecoder_def result_simps)
  note new = new_decoder[OF fd(1)]
  obtain ps where ps: "list_all2 (\<lambda>v p. encodeCbor v (cbor_limit (frame_limit options)) = Inr p) vs ps"
    "encoded = map frame_bytes ps" "\<forall>p \<in> set ps. length p \<le> maxFrameLength fd"
    "\<forall>v \<in> set vs. isProtocolValue v False"
    using assms(2)
  proof (induction arbitrary: thesis rule: list_all2_induct)
    case (Cons v vs frame fs)
    then obtain ps where ps: "list_all2 (\<lambda>v p. encodeCbor v (cbor_limit (frame_limit options)) = Inr p) vs ps"
      "fs = map frame_bytes ps" "\<forall>p \<in> set ps. length p \<le> maxFrameLength fd" "\<forall>v \<in> set vs. isProtocolValue v False"
      by blast
    obtain p limit where p: "isProtocolValue v False"
      "encodeCbor v (cbor_limit (frame_limit options)) = Inr p" "encodeFrame p = Inr frame"
      "resolveMaxFrameLength options = Inr limit" "length p \<le> limit"
      using encodeProtocolMessage_Inr[OF Cons.hyps(1)] unfolding frame_limit_resolves by metis
    with new(4) ps show ?case
      by (intro Cons.prems[of "p # ps"]) (auto simp: encodeFrame_eq split: if_splits)
  qed simp
  from decoder.feed_all_roundtrip[OF new(1-3) ps(3)] assms(3) ps(2) obtain fd' where
    fd': "feed_all push fd chunks = Inr (ps, fd')" "open_decoder fd'" "pending_bytes fd' = []"
    by auto
  moreover have "decode_messages check k (frame_limit options) ps = Inr (map strip_undefined vs)"
    using decode_messages_encoded[OF ps(1)] ps(4) assms(4) by blast
  ultimately have "feed_all (pushMessages check) d chunks = Inr (map strip_undefined vs, d\<lparr>frames := fd'\<rparr>)"
    using feed_all_messages[of d chunks ps fd'] fd(2) by simp
  moreover have "endMessages (d\<lparr>frames := fd'\<rparr>) = Inr (d\<lparr>frames := fd'\<lparr>decoderState := Ended\<rparr>\<rparr>)"
    using fd(2) fd'(2,3) by (simp add: endMessages_def end_stream_spec)
  ultimately show ?thesis by blast
qed

text \<open>C9: End to end: the messages a peer encodes under some frame limit arrive, each without its
  \<open>undefined\<close> properties, in order and exactly once, at a decoder made with the same limit, however the
  transport cuts the bytes; and the decoder accepts the end of the stream.\<close>

theorem messages_roundtrip:
  assumes "newMessageDecoder k options = Inr d"
    and "list_all2 (\<lambda>v frame. encodeProtocolMessage check k options v = Inr frame) vs encoded"
    and "concat chunks = concat encoded"
    and "\<forall>v \<in> set vs. ordered_value v \<and> check (strip_undefined v)"
  shows "\<exists>d' d''. feed_all (pushMessages check) d chunks = Inr (map strip_undefined vs, d') \<and>
           endMessages d' = Inr d''"
  using assms by (rule encoded_messages_arrive)

theorem messages_roundtrip_witness:
  "\<exists>d d' d''. newMessageDecoder ''client'' None = Inr d \<and>
     feed_all (pushMessages is_array) d [[0, 0], [0, 3, 0x82], [1, 0xf6]] = Inr ([sample_message], d') \<and>
     endMessages d' = Inr d''"
proof -
  obtain d where d: "newMessageDecoder ''client'' None = Inr d"
    by (simp add: newMessageDecoder_def newFrameDecoder_def resolveMaxFrameLength_def MAX_UINT32_def
        DEFAULT_MAX_FRAME_LENGTH_def MAX_SAFE_INTEGER_def)
  have "list_all2 (\<lambda>v frame. encodeProtocolMessage is_array ''client'' None v = Inr frame)
      [sample_message] [[0, 0, 0, 3, 0x82, 1, 0xf6]]"
    by (simp add: encode_sample_message)
  from messages_roundtrip[OF d this, of "[[0, 0], [0, 3, 0x82], [1, 0xf6]]"] d show ?thesis
    by (auto simp: sample_message_def is_array_def)
qed

text \<open>A push delivers only values that pass the schema check; the first bad byte, frame or message
  stops the decoder for good: every later push or end is refused and changes nothing.\<close>

theorem only_valid_messages:
  "case pushMessages check d chunk of
     Inr (ms, d') \<Rightarrow> (\<forall>m \<in> set ms. isProtocolValue m False \<and> check m) \<and> \<not> failed d'
   | Inl (e, d') \<Rightarrow> failed d' \<and> endMessages d' = Inl (DecoderHasFailed (kind d), d') \<and>
       (\<forall>c. pushMessages check d' c = Inl (DecoderHasFailed (kind d), d'))"
  by (auto simp: pushMessages_def endMessages_def decode_messages_valid split: sum.splits)

theorem only_valid_messages_witness:
  "\<exists>d. newMessageDecoder ''client'' None = Inr d \<and>
    (case pushMessages is_array d [0, 0, 0, 1, 0xff] of
       Inr (ms, d') \<Rightarrow> (\<forall>m \<in> set ms. isProtocolValue m False \<and> is_array m) \<and> \<not> failed d'
     | Inl (e, d') \<Rightarrow> failed d' \<and> endMessages d' = Inl (DecoderHasFailed (kind d), d') \<and>
         (\<forall>c. pushMessages is_array d' c = Inl (DecoderHasFailed (kind d), d')))"
proof -
  obtain d where d: "newMessageDecoder ''client'' None = Inr d"
    by (simp add: newMessageDecoder_def newFrameDecoder_def resolveMaxFrameLength_def MAX_UINT32_def
        DEFAULT_MAX_FRAME_LENGTH_def MAX_SAFE_INTEGER_def)
  with only_valid_messages[where check = is_array and d = d and chunk = "[0, 0, 0, 1, 0xff]"] show ?thesis by blast
qed

end
