(* ===== verification/Schemas.thy ===== *)
theory Schemas
  imports JsonlCodec Codec
begin

section \<open>Schemas of the protocol\<close>

text \<open>
  The model of \<^verbatim>\<open>packages/protocol/src/schemas.ts\<close>: the messages a client and a server exchange. The
  file describes them with the schema constructors of the typebox package; here the descriptions are data
  with one constructor for each, and \<open>conforms\<close> is what a description says of a value. Nothing is assumed
  of typebox here: where its check matters it is a parameter that is related to \<open>conforms\<close>.
\<close>

subsection \<open>Descriptions of values\<close>

datatype schema =
    SchemaNull
  | SchemaBoolean
  | SchemaNumber                      \<comment> \<open>at least 0\<close>
  | SchemaInteger int                 \<comment> \<open>at least a minimum\<close>
  | SchemaString nat                  \<comment> \<open>with a minimum length\<close>
  | SchemaLiteral js_value
  | SchemaArray nat schema            \<comment> \<open>with a minimum length\<close>
  | SchemaObject "(string \<times> bool \<times> schema) list"  \<comment> \<open>names, whether optional; no other properties\<close>
  | SchemaUnion "schema list"
  | SchemaJson                        \<comment> \<open>the recursive schema of JSON values\<close>

abbreviation required :: "string \<Rightarrow> schema \<Rightarrow> string \<times> bool \<times> schema" where
  "required k s \<equiv> (k, False, s)"

abbreviation possible :: "string \<Rightarrow> schema \<Rightarrow> string \<times> bool \<times> schema" where
  "possible k s \<equiv> (k, True, s)"

abbreviation text_literal :: "string \<Rightarrow> schema" where
  "text_literal s \<equiv> SchemaLiteral (JString (js_of s))"

definition nonnegative :: "js_number \<Rightarrow> bool" where
  "nonnegative n =
     (is_finite n \<and> (case n of JInt i \<Rightarrow> 0 \<le> i | JDouble w \<Rightarrow> w = negative_zero \<or> \<not> double_negative w))"

fun json_value :: "js_value \<Rightarrow> bool" where
  "json_value JNull = True"
| "json_value (JBool b) = True"
| "json_value (JNumber n) = is_finite n"
| "json_value (JString s) = True"
| "json_value (JArray vs) = (\<forall>v \<in> set vs. json_value v)"
| "json_value (JObject symbols es) = (\<forall>e \<in> set es. json_value (snd e))"
| "json_value JUndefined = False"
| "json_value (JBytes bs) = False"
| "json_value (JOther t) = False"

fun conforms :: "schema \<Rightarrow> js_value \<Rightarrow> bool"
  and conforms_some :: "schema list \<Rightarrow> js_value \<Rightarrow> bool"
  and conforms_properties :: "(string \<times> bool \<times> schema) list \<Rightarrow> properties \<Rightarrow> bool" where
  "conforms SchemaNull v = (v = JNull)"
| "conforms SchemaBoolean v = (case v of JBool b \<Rightarrow> True | _ \<Rightarrow> False)"
| "conforms SchemaNumber v = (case v of JNumber n \<Rightarrow> nonnegative n | _ \<Rightarrow> False)"
| "conforms (SchemaInteger least) v = (case v of JNumber n \<Rightarrow> is_integer n \<and> least \<le> integer_value n | _ \<Rightarrow> False)"
| "conforms (SchemaString least) v = (case v of JString s \<Rightarrow> least \<le> length s | _ \<Rightarrow> False)"
| "conforms (SchemaLiteral w) v = (v = w)"
| "conforms (SchemaArray least s) v = (case v of JArray vs \<Rightarrow> least \<le> length vs \<and> (\<forall>w \<in> set vs. conforms s w) | _ \<Rightarrow> False)"
| "conforms (SchemaObject ps) v =
     (case v of
        JObject symbols es \<Rightarrow> (\<forall>e \<in> set es. \<exists>p \<in> set ps. fst e = js_of (fst p)) \<and> conforms_properties ps es
      | _ \<Rightarrow> False)"
| "conforms (SchemaUnion ss) v = conforms_some ss v"
| "conforms SchemaJson v = json_value v"
| "conforms_some [] v = False"
| "conforms_some (s # ss) v = (conforms s v \<or> conforms_some ss v)"
| "conforms_properties [] es = True"
| "conforms_properties ((k, absent_ok, s) # ps) es =
     ((absent_ok \<and> field k es = JUndefined \<or> conforms s (field k es)) \<and> conforms_properties ps es)"

subsection \<open>The schemas\<close>

definition IdSchema :: schema where
  "IdSchema =
     SchemaString 1"

definition TimestampSchema :: schema where
  "TimestampSchema =
     SchemaInteger 0"

definition ThinkingLevelSchema :: schema where
  "ThinkingLevelSchema =
     SchemaUnion [text_literal ''off'', text_literal ''minimal'', text_literal ''low'', text_literal ''medium'',
     text_literal ''high'', text_literal ''xhigh'', text_literal ''max'']"

definition SessionPhaseSchema :: schema where
  "SessionPhaseSchema =
     SchemaUnion [text_literal ''idle'', text_literal ''turn'', text_literal ''compaction'',
     text_literal ''branch_summary'', text_literal ''retry'']"

definition ModelRefSchema :: schema where
  "ModelRefSchema =
     SchemaObject [required ''provider'' IdSchema, required ''id'' IdSchema]"

definition ModelCostSchema :: schema where
  "ModelCostSchema =
     SchemaObject [required ''input'' SchemaNumber, required ''output'' SchemaNumber,
     required ''cacheRead'' SchemaNumber, required ''cacheWrite'' SchemaNumber]"

definition ModelMetadataSchema :: schema where
  "ModelMetadataSchema =
     SchemaObject [required ''provider'' IdSchema, required ''id'' IdSchema, required ''name'' (SchemaString 1),
     required ''api'' IdSchema, required ''reasoning'' SchemaBoolean,
     required ''input'' (SchemaArray 0 (SchemaUnion [text_literal ''text'', text_literal ''image''])),
     required ''contextWindow'' (SchemaInteger 1), required ''maxTokens'' (SchemaInteger 1),
     required ''cost'' ModelCostSchema, required ''supportedThinkingLevels'' (SchemaArray 1 ThinkingLevelSchema),
     required ''authenticated'' SchemaBoolean]"

definition TextContentSchema :: schema where
  "TextContentSchema =
     SchemaObject [required ''type'' (text_literal ''text''), required ''text'' (SchemaString 0)]"

definition ThinkingContentSchema :: schema where
  "ThinkingContentSchema =
     SchemaObject [required ''type'' (text_literal ''thinking''), required ''thinking'' (SchemaString 0),
     possible ''redacted'' SchemaBoolean]"

definition ImageContentSchema :: schema where
  "ImageContentSchema =
     SchemaObject [required ''type'' (text_literal ''image''), required ''data'' (SchemaString 0),
     required ''mimeType'' (SchemaString 1)]"

definition ToolCallContentSchema :: schema where
  "ToolCallContentSchema =
     SchemaObject [required ''type'' (text_literal ''toolCall''), required ''toolCallId'' IdSchema,
     required ''toolName'' IdSchema, required ''input'' SchemaJson]"

definition UserContentSchema :: schema where
  "UserContentSchema =
     SchemaUnion [TextContentSchema, ImageContentSchema]"

definition AssistantContentSchema :: schema where
  "AssistantContentSchema =
     SchemaUnion [TextContentSchema, ThinkingContentSchema, ToolCallContentSchema]"

definition ToolContentSchema :: schema where
  "ToolContentSchema =
     SchemaUnion [TextContentSchema, ImageContentSchema]"

definition UsageSchema :: schema where
  "UsageSchema =
     SchemaObject [required ''input'' (SchemaInteger 0), required ''output'' (SchemaInteger 0),
     required ''cacheRead'' (SchemaInteger 0), required ''cacheWrite'' (SchemaInteger 0),
     possible ''reasoning'' (SchemaInteger 0), required ''totalTokens'' (SchemaInteger 0),
     required ''cost'' (SchemaObject [required ''input'' SchemaNumber, required ''output'' SchemaNumber,
     required ''cacheRead'' SchemaNumber, required ''cacheWrite'' SchemaNumber, required ''total'' SchemaNumber])]"

definition UserTranscriptItemSchema :: schema where
  "UserTranscriptItemSchema =
     SchemaObject [required ''id'' IdSchema, required ''role'' (text_literal ''user''),
     required ''content'' (SchemaArray 0 UserContentSchema), required ''timestamp'' TimestampSchema]"

definition AssistantTranscriptItemProperties :: "(string \<times> bool \<times> schema) list" where
  "AssistantTranscriptItemProperties =
     [required ''id'' IdSchema, required ''role'' (text_literal ''assistant''),
     required ''content'' (SchemaArray 0 AssistantContentSchema), required ''model'' ModelRefSchema,
     possible ''responseModel'' (SchemaString 1), possible ''usage'' UsageSchema,
     required ''timestamp'' TimestampSchema]"

definition StreamingAssistantTranscriptItemSchema :: schema where
  "StreamingAssistantTranscriptItemSchema =
     SchemaObject (AssistantTranscriptItemProperties @ [required ''status'' (text_literal ''streaming'')])"

definition CompleteAssistantTranscriptItemSchema :: schema where
  "CompleteAssistantTranscriptItemSchema =
     SchemaObject (AssistantTranscriptItemProperties @ [required ''status'' (text_literal ''complete''),
     required ''stopReason'' (SchemaUnion [text_literal ''stop'', text_literal ''length'',
     text_literal ''toolUse''])])"

definition ErrorAssistantTranscriptItemSchema :: schema where
  "ErrorAssistantTranscriptItemSchema =
     SchemaObject (AssistantTranscriptItemProperties @ [required ''status'' (text_literal ''error''),
     required ''stopReason'' (text_literal ''error''), possible ''errorMessage'' (SchemaString 1)])"

definition AbortedAssistantTranscriptItemSchema :: schema where
  "AbortedAssistantTranscriptItemSchema =
     SchemaObject (AssistantTranscriptItemProperties @ [required ''status'' (text_literal ''aborted''),
     required ''stopReason'' (text_literal ''aborted''), possible ''errorMessage'' (SchemaString 0)])"

definition AssistantTranscriptItemSchema :: schema where
  "AssistantTranscriptItemSchema =
     SchemaUnion [StreamingAssistantTranscriptItemSchema, CompleteAssistantTranscriptItemSchema,
     ErrorAssistantTranscriptItemSchema, AbortedAssistantTranscriptItemSchema]"

definition ToolTranscriptItemProperties :: "(string \<times> bool \<times> schema) list" where
  "ToolTranscriptItemProperties =
     [required ''id'' IdSchema, required ''role'' (text_literal ''tool''), required ''toolCallId'' IdSchema,
     required ''toolName'' IdSchema, required ''input'' SchemaJson,
     required ''content'' (SchemaArray 0 ToolContentSchema), possible ''details'' SchemaJson,
     possible ''usage'' UsageSchema, required ''timestamp'' TimestampSchema]"

definition RunningToolTranscriptItemSchema :: schema where
  "RunningToolTranscriptItemSchema =
     SchemaObject (ToolTranscriptItemProperties @ [required ''status'' (text_literal ''running''),
     required ''isError'' (SchemaLiteral (JBool False))])"

definition CompleteToolTranscriptItemSchema :: schema where
  "CompleteToolTranscriptItemSchema =
     SchemaObject (ToolTranscriptItemProperties @ [required ''status'' (text_literal ''complete''),
     required ''isError'' (SchemaLiteral (JBool False))])"

definition ErrorToolTranscriptItemSchema :: schema where
  "ErrorToolTranscriptItemSchema =
     SchemaObject (ToolTranscriptItemProperties @ [required ''status'' (text_literal ''error''),
     required ''isError'' (SchemaLiteral (JBool True))])"

definition ToolTranscriptItemSchema :: schema where
  "ToolTranscriptItemSchema =
     SchemaUnion [RunningToolTranscriptItemSchema, CompleteToolTranscriptItemSchema, ErrorToolTranscriptItemSchema]"

definition TranscriptItemSchema :: schema where
  "TranscriptItemSchema =
     SchemaUnion [UserTranscriptItemSchema, AssistantTranscriptItemSchema, ToolTranscriptItemSchema]"

definition TranscriptProgressSchema :: schema where
  "TranscriptProgressSchema =
     SchemaUnion [SchemaObject [required ''type'' (text_literal ''item_started''),
     required ''item'' TranscriptItemSchema], SchemaObject [required ''type'' (text_literal ''assistant_delta''),
     required ''messageId'' IdSchema, required ''contentIndex'' (SchemaInteger 0),
     required ''kind'' (SchemaUnion [text_literal ''text'', text_literal ''thinking'', text_literal ''toolCall'']),
     required ''delta'' (SchemaString 0)], SchemaObject [required ''type'' (text_literal ''item_updated''),
     required ''item'' (SchemaUnion [AssistantTranscriptItemSchema, ToolTranscriptItemSchema])],
     SchemaObject [required ''type'' (text_literal ''item_finished''),
     required ''item'' (SchemaUnion [CompleteAssistantTranscriptItemSchema, ErrorAssistantTranscriptItemSchema,
     AbortedAssistantTranscriptItemSchema, CompleteToolTranscriptItemSchema, ErrorToolTranscriptItemSchema])]]"

definition SessionMetadataSchema :: schema where
  "SessionMetadataSchema =
     SchemaObject [required ''id'' IdSchema, required ''createdAt'' TimestampSchema,
     possible ''updatedAt'' TimestampSchema, possible ''parentSessionId'' IdSchema,
     possible ''sessionName'' (SchemaString 0), possible ''cwd'' (SchemaString 1)]"

definition SessionSnapshotSchema :: schema where
  "SessionSnapshotSchema =
     SchemaObject [required ''id'' IdSchema, possible ''name'' (SchemaString 0), required ''cwd'' (SchemaString 1),
     required ''createdAt'' TimestampSchema, required ''updatedAt'' TimestampSchema,
     required ''phase'' SessionPhaseSchema, required ''model'' ModelRefSchema,
     required ''thinkingLevel'' ThinkingLevelSchema, required ''attached'' SchemaBoolean,
     required ''locked'' SchemaBoolean, required ''revision'' (SchemaInteger 0),
     required ''transcript'' (SchemaArray 0 TranscriptItemSchema),
     required ''queuedSteer'' (SchemaArray 0 UserTranscriptItemSchema),
     required ''queuedSteerCount'' (SchemaInteger 0)]"

definition ServerSnapshotSchema :: schema where
  "ServerSnapshotSchema =
     SchemaObject [required ''serverId'' IdSchema,
     required ''protocolVersion'' (SchemaLiteral (JNumber (JInt PROTOCOL_VERSION))),
     required ''revision'' (SchemaInteger 0), required ''sessions'' (SchemaArray 0 SessionMetadataSchema),
     required ''models'' (SchemaArray 0 ModelMetadataSchema)]"

definition ProtocolErrorCodeSchema :: schema where
  "ProtocolErrorCodeSchema =
     SchemaUnion [text_literal ''version'', text_literal ''busy'', text_literal ''session_locked'',
     text_literal ''not_found'', text_literal ''invalid_request'', text_literal ''not_implemented'',
     text_literal ''internal_error'']"

definition ProtocolErrorSchema :: schema where
  "ProtocolErrorSchema =
     SchemaObject [required ''code'' ProtocolErrorCodeSchema, required ''message'' (SchemaString 0),
     possible ''details'' SchemaJson]"

definition PromptPayloadProperties :: "(string \<times> bool \<times> schema) list" where
  "PromptPayloadProperties =
     [required ''sessionId'' IdSchema, required ''text'' (SchemaString 0)]"

definition ListCommandSchema :: schema where
  "ListCommandSchema =
     SchemaObject [required ''command'' (text_literal ''list'')]"

definition CreateCommandSchema :: schema where
  "CreateCommandSchema =
     SchemaObject [required ''command'' (text_literal ''create''), possible ''cwd'' (SchemaString 1),
     possible ''name'' (SchemaString 0), possible ''model'' ModelRefSchema,
     possible ''thinkingLevel'' ThinkingLevelSchema]"

definition AttachCommandSchema :: schema where
  "AttachCommandSchema =
     SchemaObject [required ''command'' (text_literal ''attach''), required ''sessionId'' IdSchema]"

definition DetachCommandSchema :: schema where
  "DetachCommandSchema =
     SchemaObject [required ''command'' (text_literal ''detach''), required ''sessionId'' IdSchema]"

definition PromptCommandSchema :: schema where
  "PromptCommandSchema =
     SchemaObject ([required ''command'' (text_literal ''prompt'')] @ PromptPayloadProperties)"

definition SteerCommandSchema :: schema where
  "SteerCommandSchema =
     SchemaObject ([required ''command'' (text_literal ''steer'')] @ PromptPayloadProperties)"

definition AbortCommandSchema :: schema where
  "AbortCommandSchema =
     SchemaObject [required ''command'' (text_literal ''abort''), required ''sessionId'' IdSchema]"

definition SetModelCommandSchema :: schema where
  "SetModelCommandSchema =
     SchemaObject [required ''command'' (text_literal ''set_model''), required ''sessionId'' IdSchema,
     required ''model'' ModelRefSchema]"

definition SetThinkingCommandSchema :: schema where
  "SetThinkingCommandSchema =
     SchemaObject [required ''command'' (text_literal ''set_thinking''), required ''sessionId'' IdSchema,
     required ''thinkingLevel'' ThinkingLevelSchema]"

definition CommandSchema :: schema where
  "CommandSchema =
     SchemaUnion [ListCommandSchema, CreateCommandSchema, AttachCommandSchema, DetachCommandSchema,
     PromptCommandSchema, SteerCommandSchema, AbortCommandSchema, SetModelCommandSchema, SetThinkingCommandSchema]"

definition CreateResultSchema :: schema where
  "CreateResultSchema =
     SchemaObject [required ''command'' (text_literal ''create''), required ''session'' SessionSnapshotSchema]"

definition AttachResultSchema :: schema where
  "AttachResultSchema =
     SchemaObject [required ''command'' (text_literal ''attach''), required ''session'' SessionSnapshotSchema]"

definition PromptResultSchema :: schema where
  "PromptResultSchema =
     SchemaObject [required ''command'' (text_literal ''prompt''), required ''session'' SessionSnapshotSchema]"

definition SteerResultSchema :: schema where
  "SteerResultSchema =
     SchemaObject [required ''command'' (text_literal ''steer''), required ''session'' SessionSnapshotSchema]"

definition AbortResultSchema :: schema where
  "AbortResultSchema =
     SchemaObject [required ''command'' (text_literal ''abort''), required ''session'' SessionSnapshotSchema]"

definition SetModelResultSchema :: schema where
  "SetModelResultSchema =
     SchemaObject [required ''command'' (text_literal ''set_model''), required ''session'' SessionSnapshotSchema]"

definition SetThinkingResultSchema :: schema where
  "SetThinkingResultSchema =
     SchemaObject [required ''command'' (text_literal ''set_thinking''), required ''session'' SessionSnapshotSchema]"

definition ListResultSchema :: schema where
  "ListResultSchema =
     SchemaObject [required ''command'' (text_literal ''list''),
     required ''sessions'' (SchemaArray 0 SessionMetadataSchema)]"

definition DetachResultSchema :: schema where
  "DetachResultSchema =
     SchemaObject [required ''command'' (text_literal ''detach''), required ''sessionId'' IdSchema]"

definition CommandResultSchema :: schema where
  "CommandResultSchema =
     SchemaUnion [ListResultSchema, CreateResultSchema, AttachResultSchema, DetachResultSchema, PromptResultSchema,
     SteerResultSchema, AbortResultSchema, SetModelResultSchema, SetThinkingResultSchema]"

definition ClientHelloSchema :: schema where
  "ClientHelloSchema =
     SchemaObject [required ''type'' (text_literal ''hello''), required ''version'' (SchemaInteger 0)]"

definition RequestEnvelopeSchema :: schema where
  "RequestEnvelopeSchema =
     SchemaObject [required ''type'' (text_literal ''request''), required ''id'' IdSchema,
     required ''request'' CommandSchema]"

definition ClientMessageSchema :: schema where
  "ClientMessageSchema =
     SchemaUnion [ClientHelloSchema, RequestEnvelopeSchema]"

definition ServerEventSchema :: schema where
  "ServerEventSchema =
     SchemaUnion [SchemaObject [required ''type'' (text_literal ''server_snapshot''),
     required ''snapshot'' ServerSnapshotSchema],
     SchemaObject [required ''type'' (text_literal ''session_snapshot''),
     required ''snapshot'' SessionSnapshotSchema],
     SchemaObject [required ''type'' (text_literal ''session_progress''), required ''sessionId'' IdSchema,
     required ''progress'' TranscriptProgressSchema],
     SchemaObject [required ''type'' (text_literal ''session_removed''), required ''sessionId'' IdSchema]]"

definition ServerHelloSchema :: schema where
  "ServerHelloSchema =
     SchemaObject [required ''type'' (text_literal ''hello''),
     required ''version'' (SchemaLiteral (JNumber (JInt PROTOCOL_VERSION))), required ''connectionId'' IdSchema,
     required ''snapshot'' ServerSnapshotSchema]"

definition ServerHelloErrorSchema :: schema where
  "ServerHelloErrorSchema =
     SchemaObject [required ''type'' (text_literal ''hello_error''), required ''error'' ProtocolErrorSchema]"

definition ResponseEnvelopeSchema :: schema where
  "ResponseEnvelopeSchema =
     SchemaUnion [SchemaObject [required ''type'' (text_literal ''response''), required ''id'' IdSchema,
     required ''ok'' (SchemaLiteral (JBool True)), required ''result'' CommandResultSchema],
     SchemaObject [required ''type'' (text_literal ''response''), required ''id'' IdSchema,
     required ''ok'' (SchemaLiteral (JBool False)), required ''error'' ProtocolErrorSchema]]"

definition EventEnvelopeSchema :: schema where
  "EventEnvelopeSchema =
     SchemaObject [required ''type'' (text_literal ''event''), required ''event'' ServerEventSchema]"

definition ServerMessageSchema :: schema where
  "ServerMessageSchema =
     SchemaUnion [ServerHelloSchema, ServerHelloErrorSchema, ResponseEnvelopeSchema, EventEnvelopeSchema]"

end
