(* ===== verification/ProtocolMessages.thy ===== *)
theory ProtocolMessages
  imports Codec Schemas
begin

section \<open>The messages of the two peers\<close>

text \<open>
  The codec of \<^verbatim>\<open>packages/protocol/src/codec.ts\<close> with the schemas of client and server messages: what
  the client connection and the server use of it.
\<close>

definition parseClientMessage :: "js_value \<Rightarrow> protocol_error + js_value" where
  "parseClientMessage = parseMessage (conforms ClientMessageSchema) ''client''"

definition parseServerMessage :: "js_value \<Rightarrow> protocol_error + js_value" where
  "parseServerMessage = parseMessage (conforms ServerMessageSchema) ''server''"

definition encodeClientMessage :: "js_number \<Rightarrow> js_value \<Rightarrow> protocol_error + byte list" where
  "encodeClientMessage limit = encodeProtocolMessage (conforms ClientMessageSchema) ''client'' (Some limit)"

definition encodeServerMessage :: "js_number \<Rightarrow> js_value \<Rightarrow> protocol_error + byte list" where
  "encodeServerMessage limit = encodeProtocolMessage (conforms ServerMessageSchema) ''server'' (Some limit)"

definition newClientMessageDecoder :: "js_number \<Rightarrow> frame_error + message_decoder" where
  "newClientMessageDecoder limit = newMessageDecoder ''client'' (Some limit)"

definition newServerMessageDecoder :: "js_number \<Rightarrow> frame_error + message_decoder" where
  "newServerMessageDecoder limit = newMessageDecoder ''server'' (Some limit)"

definition pushClientMessages ::
  "message_decoder \<Rightarrow> byte list \<Rightarrow> (protocol_error \<times> message_decoder) + (js_value list \<times> message_decoder)" where
  "pushClientMessages = pushMessages (conforms ClientMessageSchema)"

definition pushServerMessages ::
  "message_decoder \<Rightarrow> byte list \<Rightarrow> (protocol_error \<times> message_decoder) + (js_value list \<times> message_decoder)" where
  "pushServerMessages = pushMessages (conforms ServerMessageSchema)"

lemma newServerMessageDecoder_valid:
  "resolveMaxFrameLength (Some limit) = Inr n \<Longrightarrow> \<exists>d. newServerMessageDecoder limit = Inr d"
  by (simp add: newServerMessageDecoder_def newMessageDecoder_def newFrameDecoder_def result_simps)

end
