(* ===== verification/ServerItems.thy ===== *)
theory ServerItems
  imports Schemas
begin

section \<open>Transcript items for clients\<close>

text \<open>
  \<^verbatim>\<open>packages/server/src/protocol.ts\<close>: messages of the models package become transcript items of the
  protocol, with what a client must not see left out and numbers brought into the protocol's ranges; and
  \<open>getSupportedThinkingLevels\<close> and \<open>clampThinkingLevel\<close> of \<^verbatim>\<open>packages/ai/src/models.ts\<close>. Messages are
  JavaScript objects, read property by property as the code does; a \<open>TypeError\<close> is \<open>Inl\<close> of its text.
\<close>

subsection \<open>Property access\<close>

text \<open>Reading a property of \<open>undefined\<close> or \<open>null\<close> throws; a primitive has none of the names used here.\<close>

definition read_property :: "string \<Rightarrow> js_value \<Rightarrow> string + js_value" where
  "read_property k v =
     (case v of
        JUndefined \<Rightarrow> Inl (''Cannot read properties of undefined (reading '' @ k @ '')'')
      | JNull \<Rightarrow> Inl (''Cannot read properties of null (reading '' @ k @ '')'')
      | JObject symbols es \<Rightarrow> Inr (field k es)
      | _ \<Rightarrow> Inr JUndefined)"

definition optional_property :: "string \<Rightarrow> js_value \<Rightarrow> (string \<times> js_value) list" where
  "optional_property k v = (if v = JUndefined then [] else [(k, v)])"

definition object_of :: "(string \<times> js_value) list \<Rightarrow> js_value" where
  "object_of kvs = JObject False (literal kvs)"

fun map_throw :: "('a \<Rightarrow> 'e + 'b) \<Rightarrow> 'a list \<Rightarrow> 'e + 'b list" where
  "map_throw f [] = Inr []"
| "map_throw f (x # xs) = and_then (f x) (\<lambda>y. and_then (map_throw f xs) (\<lambda>ys. Inr (y # ys)))"

definition map_array :: "(js_value \<Rightarrow> string + js_value) \<Rightarrow> js_value \<Rightarrow> string + js_value" where
  "map_array f v =
     (case v of JArray vs \<Rightarrow> and_then (map_throw f vs) (\<lambda>ws. Inr (JArray ws)) | _ \<Rightarrow> Inl ''content.map is not a function'')"

subsection \<open>Numbers and identifiers\<close>

definition floor_number :: "js_number \<Rightarrow> int" where
  "floor_number n =
     (case n of
        JInt i \<Rightarrow> i
      | JDouble w \<Rightarrow>
          (case significand w of (m, e) \<Rightarrow>
             let q = int (m div 2 ^ nat (- e))
             in if w = negative_zero then 0 else if double_negative w then - q - 1 else q))"

definition nonNegativeInteger :: "js_value \<Rightarrow> js_value" where
  "nonNegativeInteger v =
     (case v of JNumber n \<Rightarrow> if is_finite n then JNumber (JInt (max 0 (floor_number n))) else JUndefined | _ \<Rightarrow> JUndefined)"

definition nonNegativeNumber :: "js_value \<Rightarrow> js_value" where
  "nonNegativeNumber v =
     (case v of
        JNumber n \<Rightarrow> if nonnegative n \<and> n \<noteq> JDouble negative_zero then JNumber n else JNumber (JInt 0)
      | _ \<Rightarrow> JNumber (JInt 0))"

definition or_zero :: "js_value \<Rightarrow> js_value" where
  "or_zero v = (if v = JUndefined then JNumber (JInt 0) else v)"

definition checked_identifier :: "js_value \<Rightarrow> string \<Rightarrow> string + js_value" where
  "checked_identifier v label =
     (case v of
        JString s \<Rightarrow> if s = [] then Inl (label @ '' must be a non-empty string'') else Inr v
      | _ \<Rightarrow> Inl (label @ '' must be a non-empty string''))"

definition timestamp :: "js_value \<Rightarrow> string + js_value" where
  "timestamp v =
     (case v of
        JNumber n \<Rightarrow>
          if \<not> is_safe_integer n \<or> integer_value n < 0 then Inl ''Protocol timestamps must be non-negative integers'' else Inr v
      | _ \<Rightarrow> Inl ''Protocol timestamps must be non-negative integers'')"

subsection \<open>Values from tools\<close>

text \<open>
  \<open>result[key] = value\<close> on a plain object. The key \<open>__proto__\<close> sets the prototype instead: to an object or
  \<open>null\<close>, after which the result is no plain object any more, and not at all to any other value.
\<close>

definition proto_key :: js_string where
  "proto_key = js_of ''__proto__''"

definition sets_prototype :: "js_value \<Rightarrow> bool" where
  "sets_prototype v = (case v of JNull \<Rightarrow> True | JArray vs \<Rightarrow> True | JObject symbols es \<Rightarrow> True | JOther t \<Rightarrow> True | _ \<Rightarrow> False)"

definition assigned_object :: "properties \<Rightarrow> js_value" where
  "assigned_object es =
     (if \<exists>e \<in> set es. fst e = proto_key \<and> sets_prototype (snd e) then JOther ''object''
      else JObject False (filter (\<lambda>e. fst e \<noteq> proto_key) es))"

definition type_name :: "js_value \<Rightarrow> string" where
  "type_name v = (case v of JUndefined \<Rightarrow> ''undefined'' | JOther t \<Rightarrow> t | _ \<Rightarrow> ''object'')"

fun toProtocolJsonValue :: "js_value \<Rightarrow> string + js_value"
  and json_value_elements :: "js_value list \<Rightarrow> string + js_value list"
  and json_value_entries :: "properties \<Rightarrow> string + properties" where
  "toProtocolJsonValue JNull = Inr JNull"
| "toProtocolJsonValue (JString s) = Inr (JString s)"
| "toProtocolJsonValue (JBool b) = Inr (JBool b)"
| "toProtocolJsonValue (JNumber n) =
     (if \<not> is_finite n then Inl ''Protocol JSON numbers must be finite'' else Inr (JNumber n))"
| "toProtocolJsonValue JUndefined = Inl ''Unsupported protocol JSON value: undefined''"
| "toProtocolJsonValue (JOther t) =
     (if t \<noteq> ''object'' then Inl (''Unsupported protocol JSON value: '' @ t)
      else Inl ''Protocol JSON objects must be plain objects'')"
| "toProtocolJsonValue (JBytes bs) = Inl ''Protocol JSON objects must be plain objects''"
| "toProtocolJsonValue (JArray vs) = and_then (json_value_elements vs) (\<lambda>ws. Inr (JArray ws))"
| "toProtocolJsonValue (JObject symbols es) = and_then (json_value_entries es) (\<lambda>fs. Inr (assigned_object fs))"
| "json_value_elements [] = Inr []"
| "json_value_elements (v # vs) =
     and_then (toProtocolJsonValue v) (\<lambda>w. and_then (json_value_elements vs) (\<lambda>ws. Inr (w # ws)))"
| "json_value_entries [] = Inr []"
| "json_value_entries ((k, v) # es) =
     and_then (toProtocolJsonValue v) (\<lambda>w. and_then (json_value_entries es) (\<lambda>fs. Inr ((k, w) # fs)))"

text \<open>
  What a tool may leave in the details of its result is a value of any kind: a date is its time value, in
  milliseconds, \<open>None\<close> that of an invalid date; any other object, of whatever class, is its own enumerable
  properties. Values are trees: an object that contains itself is not represented.
\<close>

datatype detail =
    DetailUndefined
  | DetailNull
  | DetailBool bool
  | DetailNumber js_number
  | DetailString js_string
  | DetailBigInt int
  | DetailFunction
  | DetailSymbol
  | DetailDate "int option"
  | DetailArray "detail list"
  | DetailObject "(js_string \<times> detail) list"

text \<open>The date of a day counted from 1970-01-01, in the proleptic Gregorian calendar: era of 400 years, day
  and year of the era, day of the year and month counted from March.\<close>

definition civil_date :: "int \<Rightarrow> int \<times> int \<times> int" where
  "civil_date days =
     (let z = days + 719468; era = z div 146097; doe = z mod 146097;
          yoe = (doe - doe div 1460 + doe div 36524 - doe div 146096) div 365;
          doy = doe - (365 * yoe + yoe div 4 - yoe div 100);
          mp = (5 * doy + 2) div 153;
          month = (if mp < 10 then mp + 3 else mp - 9)
      in (yoe + era * 400 + (if month \<le> 2 then 1 else 0), month, doy - (153 * mp + 2) div 5 + 1))"

definition padded :: "nat \<Rightarrow> int \<Rightarrow> string" where
  "padded n i = (let s = show_nat (nat i) in replicate (n - length s) CHR ''0'' @ s)"

text \<open>\<open>Date.prototype.toISOString\<close> of a valid date.\<close>

definition iso_string :: "int \<Rightarrow> string" where
  "iso_string t =
     (case civil_date (t div 86400000) of (year, month, day) \<Rightarrow>
        let ms = t mod 86400000
        in (if 0 \<le> year \<and> year \<le> 9999 then padded 4 year
            else if year < 0 then ''-'' @ padded 6 (- year) else ''+'' @ padded 6 year) @
           ''-'' @ padded 2 month @ ''-'' @ padded 2 day @ ''T'' @ padded 2 (ms div 3600000) @ '':'' @
           padded 2 (ms div 60000 mod 60) @ '':'' @ padded 2 (ms div 1000 mod 60) @ ''.'' @ padded 3 (ms mod 1000) @ ''Z'')"

definition integer_text :: "int \<Rightarrow> string" where
  "integer_text i = (if i < 0 then ''-'' @ show_nat (nat (- i)) else show_nat (nat i))"

text \<open>Details are made presentable; an invalid date throws.\<close>

fun sanitizeProtocolDetails :: "detail \<Rightarrow> string + js_value"
  and sanitize_elements :: "detail list \<Rightarrow> string + js_value list"
  and sanitize_entries :: "(js_string \<times> detail) list \<Rightarrow> string + properties" where
  "sanitizeProtocolDetails DetailNull = Inr JNull"
| "sanitizeProtocolDetails (DetailString s) = Inr (JString s)"
| "sanitizeProtocolDetails (DetailBool b) = Inr (JBool b)"
| "sanitizeProtocolDetails (DetailNumber n) = Inr (if is_finite n then JNumber n else JString (js_of (number_text n)))"
| "sanitizeProtocolDetails (DetailBigInt i) = Inr (JString (js_of (integer_text i)))"
| "sanitizeProtocolDetails DetailUndefined = Inr JUndefined"
| "sanitizeProtocolDetails DetailFunction = Inr JUndefined"
| "sanitizeProtocolDetails DetailSymbol = Inr JUndefined"
| "sanitizeProtocolDetails (DetailDate t) =
     (case t of None \<Rightarrow> Inl ''Invalid time value'' | Some t \<Rightarrow> Inr (JString (js_of (iso_string t))))"
| "sanitizeProtocolDetails (DetailArray vs) = and_then (sanitize_elements vs) (\<lambda>ws. Inr (JArray ws))"
| "sanitizeProtocolDetails (DetailObject es) = and_then (sanitize_entries es) (\<lambda>fs. Inr (assigned_object fs))"
| "sanitize_elements [] = Inr []"
| "sanitize_elements (v # vs) =
     and_then (sanitizeProtocolDetails v) (\<lambda>w. and_then (sanitize_elements vs) (\<lambda>ws.
       Inr ((if w = JUndefined then JNull else w) # ws)))"
| "sanitize_entries [] = Inr []"
| "sanitize_entries ((k, v) # es) =
     and_then (sanitizeProtocolDetails v) (\<lambda>w. and_then (sanitize_entries es) (\<lambda>fs.
       Inr (if w = JUndefined then fs else (k, w) # fs)))"

subsection \<open>Usage and models\<close>

text \<open>The counts and prices of an object that was read from before.\<close>

definition count_of :: "string \<Rightarrow> js_value \<Rightarrow> js_value" where
  "count_of k usage = or_zero (case read_property k usage of Inr v \<Rightarrow> nonNegativeInteger v | Inl e \<Rightarrow> JUndefined)"

definition price_of :: "string \<Rightarrow> js_value \<Rightarrow> js_value" where
  "price_of k cost = (case read_property k cost of Inr v \<Rightarrow> nonNegativeNumber v | Inl e \<Rightarrow> JNumber (JInt 0))"

definition toProtocolUsage :: "js_value \<Rightarrow> string + js_value" where
  "toProtocolUsage usage =
     (if usage = JUndefined \<or> usage = JNull then Inr JUndefined
      else
        and_then (read_property ''reasoning'' usage) (\<lambda>reasoning.
        and_then (read_property ''cost'' usage) (\<lambda>cost.
        and_then (read_property ''input'' cost) (\<lambda>costInput.
        Inr (object_of
          ([(''input'', count_of ''input'' usage), (''output'', count_of ''output'' usage),
            (''cacheRead'', count_of ''cacheRead'' usage), (''cacheWrite'', count_of ''cacheWrite'' usage)] @
           optional_property ''reasoning'' (nonNegativeInteger reasoning) @
           [(''totalTokens'', count_of ''totalTokens'' usage),
            (''cost'', object_of
              [(''input'', price_of ''input'' cost), (''output'', price_of ''output'' cost),
               (''cacheRead'', price_of ''cacheRead'' cost), (''cacheWrite'', price_of ''cacheWrite'' cost),
               (''total'', price_of ''total'' cost)])]))))))"

definition EXTENDED_THINKING_LEVELS :: "string list" where
  "EXTENDED_THINKING_LEVELS = [''off'', ''minimal'', ''low'', ''medium'', ''high'', ''xhigh'', ''max'']"

text \<open>\<open>model.thinkingLevelMap?.[level]\<close>\<close>

definition mapped_level :: "js_value \<Rightarrow> string \<Rightarrow> js_value" where
  "mapped_level model level =
     (case model of
        JObject symbols es \<Rightarrow> (case field ''thinkingLevelMap'' es of JObject symbols levels \<Rightarrow> field level levels | _ \<Rightarrow> JUndefined)
      | _ \<Rightarrow> JUndefined)"

definition reasoning_model :: "js_value \<Rightarrow> bool" where
  "reasoning_model model = (read_property ''reasoning'' model = Inr (JBool True))"

definition getSupportedThinkingLevels :: "js_value \<Rightarrow> string list" where
  "getSupportedThinkingLevels model =
     (if \<not> reasoning_model model then [''off'']
      else filter (\<lambda>level.
          let mapped = mapped_level model level
          in mapped \<noteq> JNull \<and> (level = ''xhigh'' \<or> level = ''max'' \<longrightarrow> mapped \<noteq> JUndefined))
        EXTENDED_THINKING_LEVELS)"

definition clampThinkingLevel :: "js_value \<Rightarrow> string \<Rightarrow> string" where
  "clampThinkingLevel model level =
     (let available = getSupportedThinkingLevels model;
          fallback = (case available of [] \<Rightarrow> ''off'' | l # ls \<Rightarrow> l);
          requested = length (takeWhile (\<lambda>l. l \<noteq> level) EXTENDED_THINKING_LEVELS)
      in if level \<in> set available then level
         else if level \<notin> set EXTENDED_THINKING_LEVELS then fallback
         else (case find (\<lambda>l. l \<in> set available) (drop requested EXTENDED_THINKING_LEVELS) of
                 Some l \<Rightarrow> l
               | None \<Rightarrow>
                   (case find (\<lambda>l. l \<in> set available) (rev (take requested EXTENDED_THINKING_LEVELS)) of
                      Some l \<Rightarrow> l
                    | None \<Rightarrow> fallback)))"

text \<open>\<open>Math.max(1, Math.floor(value))\<close> of a number.\<close>

definition not_a_number :: js_number where
  "not_a_number = JDouble 0x7FF8000000000000"

definition floor_at_least_one :: "js_value \<Rightarrow> js_value" where
  "floor_at_least_one v =
     JNumber
       (case v of
          JNumber n \<Rightarrow>
            if is_finite n then JInt (max 1 (floor_number n))
            else (case n of JDouble w \<Rightarrow> if double_mantissa w = 0 \<and> double_negative w then JInt 1 else n | JInt i \<Rightarrow> n)
        | _ \<Rightarrow> not_a_number)"

definition toProtocolModelMetadata :: "js_value \<Rightarrow> bool \<Rightarrow> string + js_value" where
  "toProtocolModelMetadata model authenticated =
     and_then (and_then (read_property ''provider'' model) (\<lambda>v. checked_identifier v ''Model provider'')) (\<lambda>provider.
     and_then (and_then (read_property ''id'' model) (\<lambda>v. checked_identifier v ''Model id'')) (\<lambda>i.
     and_then (and_then (read_property ''name'' model) (\<lambda>v. checked_identifier v ''Model name'')) (\<lambda>nm.
     and_then (and_then (read_property ''api'' model) (\<lambda>v. checked_identifier v ''Model API'')) (\<lambda>api.
     and_then (read_property ''reasoning'' model) (\<lambda>reasoning.
     and_then (and_then (read_property ''input'' model) (\<lambda>v.
       case v of JArray vs \<Rightarrow> Inr (JArray vs) | _ \<Rightarrow> Inl ''model.input is not iterable'')) (\<lambda>input.
     and_then (read_property ''contextWindow'' model) (\<lambda>contextWindow.
     and_then (read_property ''maxTokens'' model) (\<lambda>maxTokens.
     and_then (read_property ''cost'' model) (\<lambda>cost.
     and_then (read_property ''input'' cost) (\<lambda>costInput.
     Inr (object_of
       [(''provider'', provider), (''id'', i), (''name'', nm), (''api'', api), (''reasoning'', reasoning), (''input'', input),
        (''contextWindow'', floor_at_least_one contextWindow), (''maxTokens'', floor_at_least_one maxTokens),
        (''cost'', object_of
          [(''input'', price_of ''input'' cost), (''output'', price_of ''output'' cost),
           (''cacheRead'', price_of ''cacheRead'' cost), (''cacheWrite'', price_of ''cacheWrite'' cost)]),
        (''supportedThinkingLevels'', JArray (map (\<lambda>l. JString (js_of l)) (getSupportedThinkingLevels model))),
        (''authenticated'', JBool authenticated)])))))))))))"

subsection \<open>Content\<close>

text \<open>A part of a type that the code does not know is returned as it is.\<close>

definition toProtocolContentPart :: "js_value \<Rightarrow> string + js_value" where
  "toProtocolContentPart part =
     and_then (read_property ''type'' part) (\<lambda>type.
       if type = JString (js_of ''text'') then
         and_then (read_property ''text'' part) (\<lambda>t. Inr (object_of [(''type'', JString (js_of ''text'')), (''text'', t)]))
       else if type = JString (js_of ''image'') then
         and_then (read_property ''data'' part) (\<lambda>d. and_then (read_property ''mimeType'' part) (\<lambda>m.
           Inr (object_of [(''type'', JString (js_of ''image'')), (''data'', d), (''mimeType'', m)])))
       else Inr part)"

definition toProtocolUserContent :: "js_value \<Rightarrow> string + js_value" where
  "toProtocolUserContent content =
     (case content of
        JString s \<Rightarrow> Inr (JArray [object_of [(''type'', JString (js_of ''text'')), (''text'', JString s)]])
      | _ \<Rightarrow> map_array toProtocolContentPart content)"

definition toProtocolUserMessage :: "js_value \<Rightarrow> js_value \<Rightarrow> string + js_value" where
  "toProtocolUserMessage message i =
     and_then (checked_identifier i ''Transcript item id'') (\<lambda>i.
     and_then (and_then (read_property ''content'' message) toProtocolUserContent) (\<lambda>content.
     and_then (and_then (read_property ''timestamp'' message) timestamp) (\<lambda>time.
     Inr (object_of
       [(''id'', i), (''role'', JString (js_of ''user'')), (''content'', content), (''timestamp'', time)]))))"

definition toProtocolAssistantPart :: "js_value \<Rightarrow> string + js_value" where
  "toProtocolAssistantPart part =
     and_then (read_property ''type'' part) (\<lambda>type.
       if type = JString (js_of ''text'') then
         and_then (read_property ''text'' part) (\<lambda>t. Inr (object_of [(''type'', JString (js_of ''text'')), (''text'', t)]))
       else if type = JString (js_of ''thinking'') then
         and_then (read_property ''thinking'' part) (\<lambda>t. and_then (read_property ''redacted'' part) (\<lambda>redacted.
           Inr (object_of ([(''type'', JString (js_of ''thinking'')), (''thinking'', t)] @ optional_property ''redacted'' redacted))))
       else if type = JString (js_of ''toolCall'') then
         and_then (and_then (read_property ''id'' part) (\<lambda>v. checked_identifier v ''Tool call id'')) (\<lambda>i.
         and_then (and_then (read_property ''name'' part) (\<lambda>v. checked_identifier v ''Tool call name'')) (\<lambda>nm.
         and_then (and_then (read_property ''arguments'' part) toProtocolJsonValue) (\<lambda>input.
         Inr (object_of
           [(''type'', JString (js_of ''toolCall'')), (''toolCallId'', i), (''toolName'', nm), (''input'', input)]))))
       else Inr part)"

definition toProtocolAssistantContent :: "js_value \<Rightarrow> string + js_value" where
  "toProtocolAssistantContent message = and_then (read_property ''content'' message) (map_array toProtocolAssistantPart)"

subsection \<open>Assistant messages and tool results\<close>

definition optional_identifier :: "string \<Rightarrow> string \<Rightarrow> js_value \<Rightarrow> string + (string \<times> js_value) list" where
  "optional_identifier k label v =
     (if v = JUndefined then Inr [] else and_then (checked_identifier v label) (\<lambda>v. Inr [(k, v)]))"

definition assistant_common :: "js_value \<Rightarrow> js_value \<Rightarrow> string + (string \<times> js_value) list" where
  "assistant_common message i =
     and_then (and_then (read_property ''usage'' message) toProtocolUsage) (\<lambda>usage.
     and_then (checked_identifier i ''Transcript item id'') (\<lambda>i.
     and_then (toProtocolAssistantContent message) (\<lambda>content.
     and_then (and_then (read_property ''provider'' message) (\<lambda>v. checked_identifier v ''Assistant provider'')) (\<lambda>provider.
     and_then (and_then (read_property ''model'' message) (\<lambda>v. checked_identifier v ''Assistant model'')) (\<lambda>model.
     and_then (and_then (read_property ''responseModel'' message)
         (optional_identifier ''responseModel'' ''Assistant response model'')) (\<lambda>responseModel.
     and_then (and_then (read_property ''timestamp'' message) timestamp) (\<lambda>time.
     Inr ([(''id'', i), (''role'', JString (js_of ''assistant'')), (''content'', content),
           (''model'', object_of [(''provider'', provider), (''id'', model)])] @ responseModel @
          optional_property ''usage'' usage @ [(''timestamp'', time)]))))))))"

text \<open>A stop reason that the code does not know is returned in place of an item.\<close>

definition toProtocolAssistantMessage :: "js_value \<Rightarrow> js_value \<Rightarrow> string + js_value" where
  "toProtocolAssistantMessage message i =
     and_then (assistant_common message i) (\<lambda>common.
     and_then (read_property ''stopReason'' message) (\<lambda>reason.
     and_then (read_property ''errorMessage'' message) (\<lambda>errorMessage.
     let status = (\<lambda>s. (''status'', JString (js_of s)))
     in if reason = JString (js_of ''pending'') then Inr (object_of (common @ [status ''streaming'']))
        else if reason \<in> {JString (js_of ''stop''), JString (js_of ''length''), JString (js_of ''toolUse'')}
          then Inr (object_of (common @ [status ''complete'', (''stopReason'', reason)]))
        else if reason = JString (js_of ''deferred'')
          then Inl ''Deferred assistant messages are not supported by protocol v1''
        else if reason = JString (js_of ''error'') then
          (if errorMessage = JString [] then Inl ''Assistant error messages must not be empty''
           else Inr (object_of (common @ [status ''error'', (''stopReason'', reason)] @
             optional_property ''errorMessage'' errorMessage)))
        else if reason = JString (js_of ''aborted'') then
          Inr (object_of (common @ [status ''aborted'', (''stopReason'', reason)] @ optional_property ''errorMessage'' errorMessage))
        else Inr reason)))"

definition toProtocolToolContent :: "js_value \<Rightarrow> string + js_value" where
  "toProtocolToolContent content = map_array toProtocolContentPart content"

definition string_text :: "js_value \<Rightarrow> string" where
  "string_text v = (case v of JString s \<Rightarrow> text_of s | _ \<Rightarrow> '''')"

text \<open>The details of the message are given beside it, since they may be of any class.\<close>

definition toProtocolToolResultMessage ::
  "js_value \<Rightarrow> detail \<Rightarrow> js_value \<Rightarrow> js_value \<Rightarrow> string + js_value" where
  "toProtocolToolResultMessage message rawDetails i call =
     and_then (and_then (read_property ''id'' call) (\<lambda>v. checked_identifier v ''Tool call id'')) (\<lambda>callId.
     and_then (and_then (read_property ''name'' call) (\<lambda>v. checked_identifier v ''Tool call name'')) (\<lambda>callName.
     and_then (and_then (read_property ''toolCallId'' message) (\<lambda>v. checked_identifier v ''Tool result call id'')) (\<lambda>resultId.
     and_then (throw_if (resultId \<noteq> callId)
       (''Tool result '' @ string_text resultId @ '' does not match tool call '' @ string_text callId)) (\<lambda>_.
     and_then (and_then (read_property ''toolName'' message) (\<lambda>v. checked_identifier v ''Tool result name'')) (\<lambda>resultName.
     and_then (throw_if (resultName \<noteq> callName)
       (''Tool result '' @ string_text resultName @ '' does not match tool call '' @ string_text callName)) (\<lambda>_.
     and_then (sanitizeProtocolDetails rawDetails) (\<lambda>details.
     and_then (and_then (read_property ''usage'' message) toProtocolUsage) (\<lambda>usage.
     and_then (checked_identifier i ''Transcript item id'') (\<lambda>i.
     and_then (and_then (read_property ''arguments'' call) toProtocolJsonValue) (\<lambda>input.
     and_then (and_then (read_property ''content'' message) toProtocolToolContent) (\<lambda>content.
     and_then (and_then (read_property ''timestamp'' message) timestamp) (\<lambda>time.
     and_then (read_property ''isError'' message) (\<lambda>isError.
     let common = [(''id'', i), (''role'', JString (js_of ''tool'')), (''toolCallId'', callId), (''toolName'', callName),
         (''input'', input), (''content'', content)] @ optional_property ''details'' details @
         optional_property ''usage'' usage @ [(''timestamp'', time)]
     in Inr (object_of (common @
          (if isError = JBool True then [(''status'', JString (js_of ''error'')), (''isError'', JBool True)]
           else [(''status'', JString (js_of ''complete'')), (''isError'', JBool False)]))))))))))))))))"

subsection \<open>What the items look like\<close>

lemma field_optional:
  "field k (literal (optional_property k' v @ kvs)) = (if k = k' \<and> v \<noteq> JUndefined then v else field k (literal kvs))"
  "field k (literal (optional_property k' v)) = (if k = k' then v else JUndefined)"
  by (auto simp: optional_property_def field_only field_empty)

declare conforms.simps(8) [simp del]

lemma conforms_object_of:
  "conforms (SchemaObject ps) (object_of kvs) \<longleftrightarrow> fst ` set kvs \<subseteq> fst ` set ps \<and> conforms_properties ps (literal kvs)"
proof -
  have "(\<forall>e \<in> set (literal kvs). \<exists>p \<in> set ps. fst e = js_of (fst p)) \<longleftrightarrow> fst ` set kvs \<subseteq> fst ` set ps"
    by (auto simp: literal_def inj_eq image_iff split_beta)
  then show ?thesis by (simp add: object_of_def conforms.simps(8))
qed

lemma conforms_properties_iff:
  "conforms_properties ps es \<longleftrightarrow> (\<forall>(k, absent_ok, s) \<in> set ps. absent_ok \<and> field k es = JUndefined \<or> conforms s (field k es))"
  by (induction ps) auto

lemma literal_field: "field k (literal kvs) = (case map_of kvs k of None \<Rightarrow> JUndefined | Some v \<Rightarrow> v)"
  by (induction kvs) (auto simp: field_only field_empty)

lemma conforms_properties_append:
  "conforms_properties (ps @ qs) es \<longleftrightarrow> conforms_properties ps es \<and> conforms_properties qs es"
  by (induction ps) auto

lemma conforms_properties_cong:
  "(\<And>k. k \<in> fst ` set ps \<Longrightarrow> field k es = field k fs) \<Longrightarrow> conforms_properties ps es = conforms_properties ps fs"
  by (induction ps) auto

text \<open>Two groups of properties with different names.\<close>

lemma conforms_groups:
  assumes "conforms (SchemaObject ps) (object_of kvs)" and "conforms (SchemaObject qs) (object_of kws)"
    and "fst ` set ps \<inter> fst ` set qs = {}"
  shows "conforms (SchemaObject (ps @ qs)) (object_of (kvs @ kws))"
proof -
  have keys: "fst ` set kvs \<subseteq> fst ` set ps" "fst ` set kws \<subseteq> fst ` set qs" using assms(1,2) by (simp_all add: conforms_object_of)
  have "field k (literal (kvs @ kws)) = field k (literal kvs)" if "k \<in> fst ` set ps" for k
  proof -
    have "map_of kws k = None" using that keys(2) assms(3) by (auto simp: map_of_eq_None_iff)
    then show ?thesis by (simp add: literal_field map_add_def split: option.splits)
  qed
  moreover have "field k (literal (kvs @ kws)) = field k (literal kws)" if "k \<in> fst ` set qs" for k
  proof -
    have "map_of kvs k = None" using that keys(1) assms(3) by (auto simp: map_of_eq_None_iff)
    then show ?thesis by (simp add: literal_field map_add_def split: option.splits)
  qed
  ultimately show ?thesis
    using assms(1,2) keys conforms_properties_cong[of ps "literal (kvs @ kws)" "literal kvs"]
      conforms_properties_cong[of qs "literal (kvs @ kws)" "literal kws"]
    by (simp add: conforms_object_of conforms_properties_append image_Un le_supI1 le_supI2)
qed

lemma set_optional: "set (optional_property k v) = (if v = JUndefined then {} else {(k, v)})"
  by (simp add: optional_property_def)

lemma conforms_array: "conforms (SchemaArray 0 s) (JArray vs) \<longleftrightarrow> (\<forall>v \<in> set vs. conforms s v)"
  by simp

lemma identifier_conforms: "checked_identifier v label = Inr w \<Longrightarrow> w = v \<and> conforms IdSchema v"
  by (auto simp: checked_identifier_def IdSchema_def Suc_le_eq split: js_value.splits if_splits)

lemma timestamp_conforms: "timestamp v = Inr w \<Longrightarrow> w = v \<and> conforms TimestampSchema v"
  by (cases v) (auto simp: timestamp_def TimestampSchema_def split: if_splits elim: is_safe_integer.elims)

lemma count_conforms [simp]: "conforms (SchemaInteger 0) (count_of k u)"
  by (auto simp: count_of_def or_zero_def nonNegativeInteger_def split: sum.splits js_value.splits)

lemma reasoning_conforms [simp]: "nonNegativeInteger v \<noteq> JUndefined \<Longrightarrow> conforms (SchemaInteger 0) (nonNegativeInteger v)"
  by (auto simp: nonNegativeInteger_def split: js_value.splits)

lemma price_conforms [simp]: "conforms SchemaNumber (price_of k c)"
  by (auto simp: price_of_def nonNegativeNumber_def nonnegative_def split: sum.splits js_value.splits)

lemmas item_simps = conforms_object_of conforms_properties.simps conforms_some.simps conforms.simps(6,9)
  field_only field_empty field_optional set_optional

lemma usage_conforms:
  assumes "toProtocolUsage u = Inr w"
  shows "w = JUndefined \<or> conforms UsageSchema w"
proof (cases "u = JUndefined \<or> u = JNull")
  case False
  with assms obtain reasoning cost where "w = object_of
     ([(''input'', count_of ''input'' u), (''output'', count_of ''output'' u), (''cacheRead'', count_of ''cacheRead'' u),
       (''cacheWrite'', count_of ''cacheWrite'' u)] @ optional_property ''reasoning'' (nonNegativeInteger reasoning) @
      [(''totalTokens'', count_of ''totalTokens'' u), (''cost'', object_of
         [(''input'', price_of ''input'' cost), (''output'', price_of ''output'' cost), (''cacheRead'', price_of ''cacheRead'' cost),
          (''cacheWrite'', price_of ''cacheWrite'' cost), (''total'', price_of ''total'' cost)])])"
    by (auto simp: toProtocolUsage_def result_simps)
  then show ?thesis
    unfolding UsageSchema_def by (simp add: item_simps del: conforms.simps)
qed (use assms in \<open>simp add: toProtocolUsage_def\<close>)

subsection \<open>Values from tools\<close>

text \<open>No object in the value has the key \<open>__proto__\<close>.\<close>

fun plain_keys :: "js_value \<Rightarrow> bool" where
  "plain_keys (JArray vs) = (\<forall>v \<in> set vs. plain_keys v)"
| "plain_keys (JObject symbols es) = (\<forall>e \<in> set es. fst e \<noteq> proto_key \<and> plain_keys (snd e))"
| "plain_keys _ = True"

text \<open>A value without the symbol-keyed properties of its objects.\<close>

fun without_symbols :: "js_value \<Rightarrow> js_value" where
  "without_symbols (JArray vs) = JArray (map without_symbols vs)"
| "without_symbols (JObject symbols es) = JObject False (map (\<lambda>e. (fst e, without_symbols (snd e))) es)"
| "without_symbols v = v"

lemma assigned_plain: "\<forall>e \<in> set es. fst e \<noteq> proto_key \<Longrightarrow> assigned_object es = JObject False es"
  by (induction es) (auto simp: assigned_object_def)

lemma json_value_copied:
  "toProtocolJsonValue v = Inr w \<Longrightarrow> plain_keys v \<Longrightarrow> w = without_symbols v"
  "json_value_elements vs = Inr ws \<Longrightarrow> \<forall>v \<in> set vs. plain_keys v \<Longrightarrow> ws = map without_symbols vs"
  "json_value_entries es = Inr fs \<Longrightarrow> \<forall>e \<in> set es. fst e \<noteq> proto_key \<and> plain_keys (snd e) \<Longrightarrow>
     fs = map (\<lambda>e. (fst e, without_symbols (snd e))) es"
  by (induction v and vs and es arbitrary: w and ws and fs
      rule: toProtocolJsonValue_json_value_elements_json_value_entries.induct)
    (auto simp: result_simps assigned_plain split: if_splits)

lemma json_value_finite:
  "toProtocolJsonValue v = Inr w \<Longrightarrow> json_value (without_symbols v)"
  "json_value_elements vs = Inr ws \<Longrightarrow> \<forall>v \<in> set vs. json_value (without_symbols v)"
  "json_value_entries es = Inr fs \<Longrightarrow> \<forall>e \<in> set es. json_value (without_symbols (snd e))"
  by (induction v and vs and es arbitrary: w and ws and fs
      rule: toProtocolJsonValue_json_value_elements_json_value_entries.induct)
    (auto simp: result_simps split: if_splits)

text \<open>A JSON value is passed on unchanged.\<close>

lemma json_value_accepted:
  "json_value v \<Longrightarrow> \<exists>w. toProtocolJsonValue v = Inr w"
  "\<forall>v \<in> set vs. json_value v \<Longrightarrow> \<exists>ws. json_value_elements vs = Inr ws"
  "\<forall>e \<in> set es. json_value (snd e) \<Longrightarrow> \<exists>fs. json_value_entries es = Inr fs"
  by (induction v and vs and es rule: toProtocolJsonValue_json_value_elements_json_value_entries.induct)
    (fastforce simp: result_simps)+

fun plain_detail :: "detail \<Rightarrow> bool" where
  "plain_detail (DetailArray vs) = (\<forall>v \<in> set vs. plain_detail v)"
| "plain_detail (DetailObject es) = (\<forall>e \<in> set es. fst e \<noteq> proto_key \<and> plain_detail (snd e))"
| "plain_detail _ = True"

lemma details_presentable:
  "sanitizeProtocolDetails v = Inr w \<Longrightarrow> plain_detail v \<Longrightarrow> w = JUndefined \<or> json_value w"
  "sanitize_elements vs = Inr ws \<Longrightarrow> \<forall>v \<in> set vs. plain_detail v \<Longrightarrow> \<forall>w \<in> set ws. json_value w"
  "sanitize_entries es = Inr fs \<Longrightarrow> \<forall>e \<in> set es. fst e \<noteq> proto_key \<and> plain_detail (snd e) \<Longrightarrow>
     \<forall>f \<in> set fs. fst f \<noteq> proto_key \<and> json_value (snd f)"
proof (induction v and vs and es arbitrary: w and ws and fs rule: sanitizeProtocolDetails_sanitize_elements_sanitize_entries.induct)
  case (11 es)
  then obtain fs where "sanitize_entries es = Inr fs" "w = assigned_object fs" by (auto simp: result_simps)
  with 11 show ?case by (simp add: assigned_plain)
next
  case (15 k v es)
  then obtain w gs where w: "sanitizeProtocolDetails v = Inr w" "sanitize_entries es = Inr gs" "fs = (if w = JUndefined then gs else (k, w) # gs)"
    by (auto simp: result_simps)
  with 15 have "w = JUndefined \<or> json_value w" "\<forall>f \<in> set gs. fst f \<noteq> proto_key \<and> json_value (snd f)" by simp_all
  with w(3) 15(4) show ?case by auto
qed (auto simp: result_simps split: if_splits option.splits)

subsection \<open>Items conform to their schemas\<close>

text \<open>The messages of the models package: the types its declarations give them.\<close>

definition has_type :: "string \<Rightarrow> js_value \<Rightarrow> bool" where
  "has_type t part \<longleftrightarrow> read_property ''type'' part = Inr (JString (js_of t))"

definition has_text :: "string \<Rightarrow> js_value \<Rightarrow> bool" where
  "has_text k v \<longleftrightarrow> (\<exists>s. read_property k v = Inr (JString s))"

definition content_part :: "js_value \<Rightarrow> bool" where
  "content_part p \<longleftrightarrow> has_type ''text'' p \<and> has_text ''text'' p \<or>
     has_type ''image'' p \<and> has_text ''data'' p \<and> (\<exists>s. read_property ''mimeType'' p = Inr (JString s) \<and> s \<noteq> [])"

definition assistant_part :: "js_value \<Rightarrow> bool" where
  "assistant_part p \<longleftrightarrow> has_type ''text'' p \<and> has_text ''text'' p \<or>
     has_type ''thinking'' p \<and> has_text ''thinking'' p \<and>
       (\<exists>r. read_property ''redacted'' p = Inr r \<and> (r = JUndefined \<or> conforms SchemaBoolean r)) \<or>
     has_type ''toolCall'' p \<and> (\<exists>a. read_property ''arguments'' p = Inr a \<and> plain_keys a)"

definition parts_of :: "(js_value \<Rightarrow> bool) \<Rightarrow> js_value \<Rightarrow> bool" where
  "parts_of good message \<longleftrightarrow> (\<exists>ps. read_property ''content'' message = Inr (JArray ps) \<and> (\<forall>p \<in> set ps. good p))"

definition user_message :: "js_value \<Rightarrow> bool" where
  "user_message m \<longleftrightarrow> has_text ''content'' m \<or> parts_of content_part m"

definition stop_reasons :: "string set" where
  "stop_reasons = {''pending'', ''stop'', ''length'', ''toolUse'', ''deferred'', ''error'', ''aborted''}"

definition assistant_value :: "js_value \<Rightarrow> bool" where
  "assistant_value m \<longleftrightarrow> parts_of assistant_part m \<and>
     (\<exists>r \<in> stop_reasons. read_property ''stopReason'' m = Inr (JString (js_of r))) \<and>
     (read_property ''errorMessage'' m = Inr JUndefined \<or> has_text ''errorMessage'' m)"

definition tool_value :: "js_value \<Rightarrow> detail \<Rightarrow> js_value \<Rightarrow> bool" where
  "tool_value m details call \<longleftrightarrow> parts_of content_part m \<and>
     (\<forall>a. read_property ''arguments'' call = Inr a \<longrightarrow> plain_keys a) \<and> plain_detail details"

lemma map_array_conforms:
  assumes "map_array f (JArray ps) = Inr w" and "\<forall>p \<in> set ps. good p"
    and "\<And>p q. good p \<Longrightarrow> f p = Inr q \<Longrightarrow> conforms s q"
  shows "conforms (SchemaArray 0 s) w"
proof -
  have "map_throw f ps = Inr ws \<Longrightarrow> \<forall>p \<in> set ps. good p \<Longrightarrow> \<forall>q \<in> set ws. conforms s q" for ps ws
    using assms(3) by (induction ps arbitrary: ws) (auto simp: result_simps)
  with assms(1,2) show ?thesis by (auto simp: map_array_def result_simps)
qed

lemma part_conforms:
  assumes "content_part p" and "toProtocolContentPart p = Inr q"
  shows "conforms UserContentSchema q"
  using assms
  by (auto simp: content_part_def has_type_def has_text_def toProtocolContentPart_def UserContentSchema_def TextContentSchema_def
      ImageContentSchema_def item_simps Suc_le_eq result_simps)

lemma tool_call_conforms:
  assumes "checked_identifier i l = Inr i'" and "checked_identifier n l' = Inr n'" and "toProtocolJsonValue a = Inr v" and "plain_keys a"
  shows "conforms ToolCallContentSchema (object_of
    [(''type'', JString (js_of ''toolCall'')), (''toolCallId'', i'), (''toolName'', n'), (''input'', v)])"
  using identifier_conforms[OF assms(1)] identifier_conforms[OF assms(2)] json_value_copied(1)[OF assms(3,4)]
    json_value_finite(1)[OF assms(3)]
  by (simp add: ToolCallContentSchema_def item_simps)

lemma assistant_part_conforms:
  assumes "assistant_part p" and "toProtocolAssistantPart p = Inr q"
  shows "conforms AssistantContentSchema q"
proof -
  consider (plain) "has_type ''text'' p" "has_text ''text'' p"
    | (thinking) r where "has_type ''thinking'' p" "has_text ''thinking'' p" "read_property ''redacted'' p = Inr r"
        "r = JUndefined \<or> conforms SchemaBoolean r"
    | (call) a where "has_type ''toolCall'' p" "read_property ''arguments'' p = Inr a" "plain_keys a"
    using assms(1) by (auto simp: assistant_part_def)
  then show ?thesis
  proof cases
    case call
    with assms(2) show ?thesis
      by (auto simp: toProtocolAssistantPart_def has_type_def result_simps AssistantContentSchema_def tool_call_conforms)
  qed (use assms(2) in \<open>auto simp: toProtocolAssistantPart_def has_type_def has_text_def result_simps AssistantContentSchema_def
      TextContentSchema_def ThinkingContentSchema_def item_simps simp del: conforms.simps(2)\<close>)
qed

lemma optional_identifier_shape:
  "optional_identifier k l v = Inr kvs \<Longrightarrow> kvs = optional_property k v \<and> (v = JUndefined \<or> conforms IdSchema v)"
  using identifier_conforms[of v l] by (auto simp: optional_identifier_def optional_property_def result_simps split: if_splits)

lemma assistant_common_shape:
  assumes "assistant_common m i = Inr common" and "parts_of assistant_part m"
  obtains content model rm usage time where
    "common = [(''id'', i), (''role'', JString (js_of ''assistant'')), (''content'', content), (''model'', model)] @
       optional_property ''responseModel'' rm @ optional_property ''usage'' usage @ [(''timestamp'', time)]"
    "conforms IdSchema i" "conforms (SchemaArray 0 AssistantContentSchema) content" "conforms ModelRefSchema model"
    "rm \<noteq> JUndefined \<Longrightarrow> conforms (SchemaString (Suc 0)) rm" "usage \<noteq> JUndefined \<Longrightarrow> conforms UsageSchema usage"
    "conforms TimestampSchema time"
proof -
  from assms(2) obtain ps where ps: "read_property ''content'' m = Inr (JArray ps)" "\<forall>p \<in> set ps. assistant_part p"
    by (auto simp: parts_of_def)
  from assms(1) obtain u usage i' content p provider md model r rm t time where parts:
    "toProtocolUsage u = Inr usage" "checked_identifier i ''Transcript item id'' = Inr i'"
    "map_array toProtocolAssistantPart (JArray ps) = Inr content"
    "checked_identifier p ''Assistant provider'' = Inr provider" "checked_identifier md ''Assistant model'' = Inr model"
    "optional_identifier ''responseModel'' ''Assistant response model'' r = Inr rm" "timestamp t = Inr time"
    "common = [(''id'', i'), (''role'', JString (js_of ''assistant'')), (''content'', content),
       (''model'', object_of [(''provider'', provider), (''id'', model)])] @ rm @ optional_property ''usage'' usage @ [(''timestamp'', time)]"
    using ps(1) by (auto simp: assistant_common_def toProtocolAssistantContent_def result_simps)
  note c = identifier_conforms[OF parts(2)] identifier_conforms[OF parts(4)] identifier_conforms[OF parts(5)]
    optional_identifier_shape[OF parts(6)] timestamp_conforms[OF parts(7)] usage_conforms[OF parts(1)]
  show thesis
  proof (rule that[of content "object_of [(''provider'', p), (''id'', md)]" r usage t])
    show "common = [(''id'', i), (''role'', JString (js_of ''assistant'')), (''content'', content),
        (''model'', object_of [(''provider'', p), (''id'', md)])] @
       optional_property ''responseModel'' r @ optional_property ''usage'' usage @ [(''timestamp'', t)]"
      using parts(8) c by simp
    show "conforms (SchemaArray 0 AssistantContentSchema) content"
      using map_array_conforms[OF parts(3) ps(2) assistant_part_conforms] .
    show "conforms ModelRefSchema (object_of [(''provider'', p), (''id'', md)])"
      using c by (simp add: ModelRefSchema_def item_simps)
  qed (use c in \<open>auto simp: IdSchema_def simp del: conforms.simps(4,5)\<close>)
qed

lemma assistant_item_conforms:
  assumes "assistant_value m" and "toProtocolAssistantMessage m i = Inr item"
  shows "conforms AssistantTranscriptItemSchema item"
proof -
  from assms(1) obtain r e where m: "parts_of assistant_part m" "r \<in> stop_reasons" "read_property ''stopReason'' m = Inr (JString (js_of r))"
    "read_property ''errorMessage'' m = Inr e" "e = JUndefined \<or> (\<exists>s. e = JString s)"
    unfolding assistant_value_def has_text_def by metis
  then have e: "e \<noteq> JUndefined \<Longrightarrow> conforms (SchemaString 0) e" "e \<noteq> JUndefined \<Longrightarrow> e \<noteq> JString [] \<Longrightarrow> conforms (SchemaString 1) e"
    by (auto simp: Suc_le_eq)
  from assms(2) obtain common where common: "assistant_common m i = Inr common"
    by (auto simp: toProtocolAssistantMessage_def result_simps)
  obtain content model rm usage time where c:
    "common = [(''id'', i), (''role'', JString (js_of ''assistant'')), (''content'', content), (''model'', model)] @
       optional_property ''responseModel'' rm @ optional_property ''usage'' usage @ [(''timestamp'', time)]"
    "conforms IdSchema i" "conforms (SchemaArray 0 AssistantContentSchema) content" "conforms ModelRefSchema model"
    "rm \<noteq> JUndefined \<Longrightarrow> conforms (SchemaString (Suc 0)) rm" "usage \<noteq> JUndefined \<Longrightarrow> conforms UsageSchema usage"
    "conforms TimestampSchema time" using assistant_common_shape[OF common m(1)] by metis
  have "conforms (SchemaObject AssistantTranscriptItemProperties) (object_of common)"
    unfolding AssistantTranscriptItemProperties_def c(1)
    by (cases "rm = JUndefined"; cases "usage = JUndefined") (simp_all add: item_simps c del: conforms.simps(4,5,7))
  note good = conforms_groups[OF this]
  have other: "fst ` set AssistantTranscriptItemProperties = {''id'', ''role'', ''content'', ''model'', ''responseModel'', ''usage'', ''timestamp''}"
    by (auto simp: AssistantTranscriptItemProperties_def)
  have item: "toProtocolAssistantMessage m i = Inr item" using assms(2) .
  note run = toProtocolAssistantMessage_def common m(3,4) Let_def and_then.simps
  have "r = ''pending'' \<or> r \<in> {''stop'', ''length'', ''toolUse''} \<or> r = ''deferred'' \<or> r = ''error'' \<or> r = ''aborted''"
    using m(2) by (simp only: stop_reasons_def insert_iff empty_iff simp_thms disj_assoc)
  then show ?thesis
  proof (elim disjE, goal_cases)
    case 1
    with item have "item = object_of (common @ [(''status'', JString (js_of ''streaming''))])" by (simp add: run)
    then have "conforms StreamingAssistantTranscriptItemSchema item"
      unfolding StreamingAssistantTranscriptItemSchema_def by (simp only:) (rule good; simp add: item_simps other)
    then show ?thesis by (simp add: AssistantTranscriptItemSchema_def)
  next
    case 2
    with item have "item = object_of (common @ [(''status'', JString (js_of ''complete'')), (''stopReason'', JString (js_of r))])"
      by (auto simp: run)
    with 2 have "conforms CompleteAssistantTranscriptItemSchema item"
      unfolding CompleteAssistantTranscriptItemSchema_def by (simp only:) (rule good; auto simp add: item_simps other)
    then show ?thesis by (simp add: AssistantTranscriptItemSchema_def)
  next
    case 3
    with item show ?thesis by (simp add: run)
  next
    case 4
    with item have "item = object_of (common @ [(''status'', JString (js_of ''error'')), (''stopReason'', JString (js_of r))] @
        optional_property ''errorMessage'' e)" "e \<noteq> JString []"
      by (auto simp: run split: if_splits)
    with 4 e(2) have "conforms ErrorAssistantTranscriptItemSchema item"
      unfolding ErrorAssistantTranscriptItemSchema_def by (simp only:) (rule good; auto simp add: item_simps other simp del: conforms.simps(5))
    then show ?thesis by (simp add: AssistantTranscriptItemSchema_def)
  next
    case 5
    with item have "item = object_of (common @ [(''status'', JString (js_of ''aborted'')), (''stopReason'', JString (js_of r))] @
        optional_property ''errorMessage'' e)"
      by (auto simp: run)
    with 5 e(1) have "conforms AbortedAssistantTranscriptItemSchema item"
      unfolding AbortedAssistantTranscriptItemSchema_def by (simp only:) (rule good; auto simp add: item_simps other simp del: conforms.simps(5))
    then show ?thesis by (simp add: AssistantTranscriptItemSchema_def)
  qed
qed

lemma user_item_conforms:
  assumes "user_message m" and "toProtocolUserMessage m i = Inr item"
  shows "conforms UserTranscriptItemSchema item"
proof -
  from assms(2) obtain v content t where v: "read_property ''content'' m = Inr v" "toProtocolUserContent v = Inr content"
    "conforms IdSchema i" "conforms TimestampSchema t"
    "item = object_of [(''id'', i), (''role'', JString (js_of ''user'')), (''content'', content), (''timestamp'', t)]"
    by (auto simp: toProtocolUserMessage_def result_simps dest!: identifier_conforms timestamp_conforms)
  have "conforms (SchemaArray 0 UserContentSchema) content"
  proof (cases "\<exists>s. v = JString s")
    case True
    with v(2) show ?thesis
      by (auto simp: toProtocolUserContent_def UserContentSchema_def TextContentSchema_def item_simps)
  next
    case False
    with assms(1) v(1) obtain ps where ps: "v = JArray ps" "\<forall>p \<in> set ps. content_part p"
      by (auto simp: user_message_def has_text_def parts_of_def)
    with v(2) have "map_array toProtocolContentPart (JArray ps) = Inr content" by (simp add: toProtocolUserContent_def)
    from map_array_conforms[OF this ps(2) part_conforms] show ?thesis .
  qed
  with v(3-5) show ?thesis by (simp add: UserTranscriptItemSchema_def item_simps del: conforms.simps(7))
qed

lemma tool_item_conforms:
  assumes "tool_value m details call" and "toProtocolToolResultMessage m details i call = Inr item"
  shows "conforms ToolTranscriptItemSchema item"
proof -
  from assms(1) obtain ps where ps: "read_property ''content'' m = Inr (JArray ps)" "\<forall>p \<in> set ps. content_part p"
    by (auto simp: tool_value_def parts_of_def)
  from assms(2) obtain c n d u usage a input content t e where
    parts: "conforms IdSchema i" "conforms IdSchema c" "conforms IdSchema n" "sanitizeProtocolDetails details = Inr d"
    "toProtocolUsage u = Inr usage" "read_property ''arguments'' call = Inr a" "toProtocolJsonValue a = Inr input"
    "map_array toProtocolContentPart (JArray ps) = Inr content" "conforms TimestampSchema t"
    and item: "item = object_of (([(''id'', i), (''role'', JString (js_of ''tool'')), (''toolCallId'', c), (''toolName'', n),
         (''input'', input), (''content'', content)] @ optional_property ''details'' d @
         optional_property ''usage'' usage @ [(''timestamp'', t)]) @
          (if e = JBool True then [(''status'', JString (js_of ''error'')), (''isError'', JBool True)]
           else [(''status'', JString (js_of ''complete'')), (''isError'', JBool False)]))"
    using ps(1)
    by (auto simp: toProtocolToolResultMessage_def toProtocolToolContent_def Let_def result_simps
        dest!: identifier_conforms timestamp_conforms simp del: append.simps)
  from assms(1) parts(6) have "plain_keys a" "plain_detail details" by (auto simp: tool_value_def)
  then have json: "json_value input" "d \<noteq> JUndefined \<Longrightarrow> json_value d"
    using json_value_copied(1)[OF parts(7)] json_value_finite(1)[OF parts(7)] details_presentable(1)[OF parts(4)] by auto
  have array: "conforms (SchemaArray 0 ToolContentSchema) content"
    using map_array_conforms[OF parts(8) ps(2) part_conforms] by (simp add: ToolContentSchema_def UserContentSchema_def)
  have usage: "usage \<noteq> JUndefined \<Longrightarrow> conforms UsageSchema usage" using usage_conforms[OF parts(5)] by blast
  let ?common = "[(''id'', i), (''role'', JString (js_of ''tool'')), (''toolCallId'', c), (''toolName'', n),
         (''input'', input), (''content'', content)] @ optional_property ''details'' d @
         optional_property ''usage'' usage @ [(''timestamp'', t)]"
  have "conforms (SchemaObject ToolTranscriptItemProperties) (object_of ?common)"
    unfolding ToolTranscriptItemProperties_def
    by (cases "usage = JUndefined"; cases "d = JUndefined")
      (simp_all add: item_simps parts(1-3,9) json array usage del: conforms.simps(4,5,7))
  note good = conforms_groups[OF this]
  have keys: "fst ` set ToolTranscriptItemProperties =
      {''id'', ''role'', ''toolCallId'', ''toolName'', ''input'', ''content'', ''details'', ''usage'', ''timestamp''}"
    by (auto simp: ToolTranscriptItemProperties_def)
  show ?thesis
  proof (cases "e = JBool True")
    case True
    then have "conforms ErrorToolTranscriptItemSchema item"
      unfolding ErrorToolTranscriptItemSchema_def item if_P[OF True] by (intro good) (simp_all add: item_simps keys)
    then show ?thesis by (simp add: ToolTranscriptItemSchema_def)
  next
    case False
    then have "conforms CompleteToolTranscriptItemSchema item"
      unfolding CompleteToolTranscriptItemSchema_def item if_not_P[OF False] by (intro good) (simp_all add: item_simps keys)
    then show ?thesis by (simp add: ToolTranscriptItemSchema_def)
  qed
qed

text \<open>C34: When a message of the models package with the types its declarations promise is converted for the
  clients of a server and the conversion does not throw, the item satisfies the schema of transcript
  items, with the numbers in range and the identifiers not empty, on conditions that the code does not
  check: that images have a MIME type that is not empty, and that no object in the arguments or the
  details of a tool call has a property \<^verbatim>\<open>__proto__\<close>.\<close>

theorem transcript_items_conform:
  assumes "user_message m \<and> toProtocolUserMessage m i = Inr item \<or>
    assistant_value m \<and> toProtocolAssistantMessage m i = Inr item \<or>
    tool_value m details call \<and> toProtocolToolResultMessage m details i call = Inr item"
  shows "conforms TranscriptItemSchema item"
  using assms user_item_conforms assistant_item_conforms tool_item_conforms
  by (auto simp: TranscriptItemSchema_def)

definition sample_answer :: js_value where
  "sample_answer = object_of
     [(''role'', JString (js_of ''assistant'')),
      (''content'', JArray [object_of [(''type'', JString (js_of ''toolCall'')), (''id'', JString (js_of ''c1'')),
         (''name'', JString (js_of ''read'')), (''arguments'', object_of [(''path'', JString (js_of ''a''))])]]),
      (''provider'', JString (js_of ''p'')), (''model'', JString (js_of ''m'')),
      (''stopReason'', JString (js_of ''toolUse'')), (''timestamp'', JNumber (JInt 5))]"

lemma read_object: "read_property k (object_of kvs) = Inr (field k (literal kvs))"
  by (simp add: object_of_def read_property_def)

lemma sample_reply_value: "assistant_value sample_answer"
  by (simp add: assistant_value_def sample_answer_def parts_of_def read_object item_simps assistant_part_def has_type_def
      stop_reasons_def has_text_def) (simp add: object_of_def literal_def proto_key_def js_of_def)

lemma transcript_items_conform_witness:
  "\<exists>item. toProtocolAssistantMessage sample_answer (JString (js_of ''i1'')) = Inr item \<and> conforms TranscriptItemSchema item"
proof -
  have "\<exists>item. toProtocolAssistantMessage sample_answer (JString (js_of ''i1'')) = Inr item"
    by (simp add: toProtocolAssistantMessage_def assistant_common_def toProtocolAssistantContent_def sample_answer_def read_object
        item_simps toProtocolUsage_def checked_identifier_def map_array_def toProtocolAssistantPart_def optional_identifier_def
        timestamp_def MAX_SAFE_INTEGER_def Let_def) (simp add: object_of_def literal_def js_of_def assigned_object_def proto_key_def)
  then show ?thesis
    using transcript_items_conform[of sample_answer "JString (js_of ''i1'')"] sample_reply_value by blast
qed

text \<open>Arguments with a key \<open>__proto__\<close> become an object that no message may contain.\<close>

lemma proto_arguments_unencodable:
  "toProtocolJsonValue (JObject symbols [(proto_key, JObject symbols' [])]) = Inr v \<Longrightarrow> \<not> isProtocolValue v b"
  by (auto simp: assigned_object_def sets_prototype_def)

text \<open>An image without a MIME type becomes an item that does not conform.\<close>

lemma image_without_type_rejected:
  "toProtocolContentPart (object_of [(''type'', JString (js_of ''image'')), (''data'', JString d), (''mimeType'', JString [])]) = Inr q \<Longrightarrow>
     \<not> conforms UserContentSchema q"
  by (auto simp: toProtocolContentPart_def read_object item_simps UserContentSchema_def TextContentSchema_def ImageContentSchema_def)

text \<open>A reasoning model whose every level is switched off has no level at all, which the schema does not allow.\<close>

lemma model_without_levels:
  assumes "read_property ''reasoning'' model = Inr (JBool True)" and "\<forall>l \<in> set EXTENDED_THINKING_LEVELS. mapped_level model l = JNull"
    and "toProtocolModelMetadata model a = Inr w"
  shows "\<not> conforms ModelMetadataSchema w"
proof -
  have "getSupportedThinkingLevels model = []"
    using assms(1,2) by (simp add: getSupportedThinkingLevels_def reasoning_model_def)
  with assms(3) show ?thesis by (auto simp: toProtocolModelMetadata_def result_simps ModelMetadataSchema_def item_simps)
qed

subsection \<open>Thinking levels\<close>

definition level_rank :: "string \<Rightarrow> nat" where
  "level_rank l = length (takeWhile (\<lambda>l'. l' \<noteq> l) EXTENDED_THINKING_LEVELS)"

lemma levels_distinct: "distinct EXTENDED_THINKING_LEVELS"
  by (simp add: EXTENDED_THINKING_LEVELS_def)

lemma level_rank_nth:
  assumes "i < length EXTENDED_THINKING_LEVELS"
  shows "level_rank (EXTENDED_THINKING_LEVELS ! i) = i"
proof -
  have "takeWhile (\<lambda>l'. l' \<noteq> EXTENDED_THINKING_LEVELS ! i) EXTENDED_THINKING_LEVELS = take i EXTENDED_THINKING_LEVELS"
    using assms levels_distinct by (intro takeWhile_eq_take_P_nth) (auto simp: nth_eq_iff_index_eq)
  with assms show ?thesis by (simp add: level_rank_def)
qed

lemma level_nth: "l \<in> set EXTENDED_THINKING_LEVELS \<Longrightarrow> level_rank l < length EXTENDED_THINKING_LEVELS \<and> EXTENDED_THINKING_LEVELS ! level_rank l = l"
  by (metis in_set_conv_nth level_rank_nth)

lemma find_upward:
  assumes "find P (drop k EXTENDED_THINKING_LEVELS) = Some l"
  shows "P l \<and> k \<le> level_rank l \<and> (\<forall>s \<in> set EXTENDED_THINKING_LEVELS. P s \<and> k \<le> level_rank s \<longrightarrow> level_rank l \<le> level_rank s)"
proof -
  from assms obtain i where i: "k + i < length EXTENDED_THINKING_LEVELS" "P l" "l = EXTENDED_THINKING_LEVELS ! (k + i)"
    "\<forall>j < i. \<not> P (EXTENDED_THINKING_LEVELS ! (k + j))" proof -
    from assms obtain i where "i < length EXTENDED_THINKING_LEVELS - k" "P (EXTENDED_THINKING_LEVELS ! (k + i))"
      "l = EXTENDED_THINKING_LEVELS ! (k + i)" "\<forall>j < i. \<not> P (EXTENDED_THINKING_LEVELS ! (k + j))" by (auto simp: find_Some_iff)
    with that[of i] show thesis by simp
  qed
  then have "level_rank l = k + i" by (simp add: level_rank_nth)
  moreover have "k + i \<le> level_rank s" if "s \<in> set EXTENDED_THINKING_LEVELS" "P s" "k \<le> level_rank s" for s
  proof (rule ccontr)
    assume "\<not> k + i \<le> level_rank s"
    with that(3) have "level_rank s - k < i" by arith
    with i(4)[rule_format, of "level_rank s - k"] that level_nth[of s] show False by simp
  qed
  ultimately show ?thesis using i(2) by simp
qed

lemma find_downward:
  assumes "find P (rev (take k EXTENDED_THINKING_LEVELS)) = Some l" and "k \<le> length EXTENDED_THINKING_LEVELS"
  shows "P l \<and> level_rank l < k \<and> (\<forall>s \<in> set EXTENDED_THINKING_LEVELS. P s \<and> level_rank s < k \<longrightarrow> level_rank s \<le> level_rank l)"
proof -
  from assms obtain i where i: "i < k" "P l" "l = EXTENDED_THINKING_LEVELS ! (k - Suc i)"
    "\<forall>j < i. \<not> P (EXTENDED_THINKING_LEVELS ! (k - Suc j))" proof -
    have len: "length (take k EXTENDED_THINKING_LEVELS) = k" using assms(2) by simp
    from assms(1) obtain i where "i < k" "P (rev (take k EXTENDED_THINKING_LEVELS) ! i)" "l = rev (take k EXTENDED_THINKING_LEVELS) ! i"
      "\<forall>j < i. \<not> P (rev (take k EXTENDED_THINKING_LEVELS) ! j)" by (auto simp: find_Some_iff len)
    with that[of i] len show thesis by (simp add: rev_nth)
  qed
  with assms(2) have rank: "level_rank l = k - Suc i" by (simp add: level_rank_nth)
  have "level_rank s \<le> k - Suc i" if "s \<in> set EXTENDED_THINKING_LEVELS" "P s" "level_rank s < k" for s
  proof (rule ccontr)
    assume "\<not> level_rank s \<le> k - Suc i"
    with i(1) that(3) have "k - Suc (level_rank s) < i" by arith
    with i(4)[rule_format, of "k - Suc (level_rank s)"] that level_nth[of s] show False by simp
  qed
  with rank i(1,2) show ?thesis by simp
qed

lemma supported_levels: "getSupportedThinkingLevels model \<noteq> [] \<Longrightarrow> set (getSupportedThinkingLevels model) \<subseteq> set EXTENDED_THINKING_LEVELS"
  by (auto simp: getSupportedThinkingLevels_def EXTENDED_THINKING_LEVELS_def)

text \<open>C35: A requested thinking level is clamped to a level the model supports, when it supports any: to itself, else to
  the nearest supported level above it, else to the nearest one below.\<close>

theorem clamp_thinking_level:
  assumes "level \<in> set EXTENDED_THINKING_LEVELS" and "getSupportedThinkingLevels model \<noteq> []"
  shows "let available = set (getSupportedThinkingLevels model); l = clampThinkingLevel model level in
    l \<in> available \<and> (level \<in> available \<longrightarrow> l = level) \<and>
    (if \<exists>s \<in> available. level_rank level \<le> level_rank s
     then level_rank level \<le> level_rank l \<and> (\<forall>s \<in> available. level_rank level \<le> level_rank s \<longrightarrow> level_rank l \<le> level_rank s)
     else \<forall>s \<in> available. level_rank s \<le> level_rank l)"
proof -
  let ?available = "set (getSupportedThinkingLevels model)" and ?k = "level_rank level"
  let ?P = "\<lambda>l. l \<in> ?available"
  have sub: "s \<in> set EXTENDED_THINKING_LEVELS" if "s \<in> ?available" for s using supported_levels assms(2) that by blast
  have k: "?k \<le> length EXTENDED_THINKING_LEVELS" using level_nth[OF assms(1)] by simp
  have rank: "length (takeWhile (\<lambda>l. l \<noteq> level) EXTENDED_THINKING_LEVELS) = ?k" by (simp add: level_rank_def)
  note clamp = clampThinkingLevel_def Let_def rank
  show ?thesis
  proof (cases "level \<in> ?available")
    case True
    then show ?thesis by (auto simp: clamp)
  next
    case False
    show ?thesis
    proof (cases "find ?P (drop ?k EXTENDED_THINKING_LEVELS)")
      case (Some l)
      then have "clampThinkingLevel model level = l" using False assms(1) by (simp add: clamp)
      moreover from find_upward[OF Some] sub have "l \<in> ?available" "?k \<le> level_rank l"
        "\<forall>s \<in> ?available. ?k \<le> level_rank s \<longrightarrow> level_rank l \<le> level_rank s" by auto
      ultimately show ?thesis using False unfolding Let_def by auto
    next
      case None
      have below: "level_rank s < ?k" if s: "s \<in> ?available" for s
      proof (rule ccontr)
        assume "\<not> level_rank s < ?k"
        then have "s \<in> set (drop ?k EXTENDED_THINKING_LEVELS)"
          using level_nth[OF sub[OF s]] by (auto simp: in_set_conv_nth intro!: exI[of _ "level_rank s - ?k"])
        with None s show False by (auto simp: find_None_iff)
      qed
      from assms(2) obtain s where s: "s \<in> ?available" by (cases "getSupportedThinkingLevels model") auto
      have "s \<in> set (take ?k EXTENDED_THINKING_LEVELS)"
        using level_nth[OF sub[OF s]] below[OF s] k by (auto simp: in_set_conv_nth intro!: exI[of _ "level_rank s"])
      with s obtain l where l: "find ?P (rev (take ?k EXTENDED_THINKING_LEVELS)) = Some l"
        by (cases "find ?P (rev (take ?k EXTENDED_THINKING_LEVELS))") (auto simp: find_None_iff)
      then have "clampThinkingLevel model level = l" using False None assms(1) by (simp add: clamp)
      with find_downward[OF l k] sub below False show ?thesis unfolding Let_def by (auto simp: not_le)
    qed
  qed
qed

lemma clamp_thinking_level_witness:
  "clampThinkingLevel (object_of [(''reasoning'', JBool True)]) ''max'' \<in> set (getSupportedThinkingLevels (object_of [(''reasoning'', JBool True)]))"
proof -
  have "getSupportedThinkingLevels (object_of [(''reasoning'', JBool True)]) = [''off'', ''minimal'', ''low'', ''medium'', ''high'']"
    unfolding getSupportedThinkingLevels_def reasoning_model_def read_object
    by (simp add: item_simps mapped_level_def object_of_def EXTENDED_THINKING_LEVELS_def)
  then show ?thesis using clamp_thinking_level[of "''max''" "object_of [(''reasoning'', JBool True)]"]
    by (simp add: EXTENDED_THINKING_LEVELS_def Let_def)
qed

end
