(* ===== verification/ClientState.thy ===== *)
theory ClientState
  imports ServerItems "HOL-Library.AList"
begin

section \<open>What a client knows of its server\<close>

text \<open>
  \<^verbatim>\<open>packages/client/src/state.ts\<close>: the latest snapshots a client has received, the sessions it is
  attached to, and who listens to changes. Snapshots and events are the JavaScript values that passed the
  schema check. A \<open>Set\<close> of listeners is an object of its own, which a subscription keeps a reference to:
  such sets live in a store, under addresses. A listener is a number; calling it is a delivery, and a
  listener that throws changes nothing.
\<close>

subsection \<open>State\<close>

datatype notice =
    SnapshotNotice js_value
  | EventNotice js_value
  | SessionNotice js_value
  | SessionEventNotice js_value

type_synonym listener_map = "(js_string \<times> nat) list"   \<comment> \<open>the address of the set of a session\<close>

record client_view =
  serverSnapshot :: "js_value option"
  sessionSnapshots :: "(js_string \<times> js_value) list"
  attachedSessionIds :: "js_string set"
  snapshotListeners :: "nat list"
  eventListeners :: "nat list"
  sessionSnapshotListeners :: listener_map
  sessionEventListeners :: listener_map
  listenerSets :: "nat \<Rightarrow> nat list"
  nextAddress :: nat

definition new_view :: client_view where
  "new_view =
     \<lparr>serverSnapshot = None, sessionSnapshots = [], attachedSessionIds = {}, snapshotListeners = [], eventListeners = [],
      sessionSnapshotListeners = [], sessionEventListeners = [], listenerSets = (\<lambda>_. []), nextAddress = 0\<rparr>"

text \<open>The properties of a snapshot that the client looks at.\<close>

definition value_field :: "string \<Rightarrow> js_value \<Rightarrow> js_value" where
  "value_field k v = (case v of JObject symbols es \<Rightarrow> field k es | _ \<Rightarrow> JUndefined)"

definition string_field :: "string \<Rightarrow> js_value \<Rightarrow> js_string" where
  "string_field k v = (case value_field k v of JString s \<Rightarrow> s | _ \<Rightarrow> [])"

definition revision_of :: "js_value \<Rightarrow> int" where
  "revision_of v = (case value_field ''revision'' v of JNumber n \<Rightarrow> integer_value n | _ \<Rightarrow> 0)"

definition attached_in :: "js_value \<Rightarrow> bool" where
  "attached_in v \<longleftrightarrow> value_field ''attached'' v = JBool True"

definition reset :: "client_view \<Rightarrow> client_view" where
  "reset c = c\<lparr>serverSnapshot := None, sessionSnapshots := [], attachedSessionIds := {}\<rparr>"

definition clearAttachments :: "client_view \<Rightarrow> client_view" where
  "clearAttachments c = c\<lparr>attachedSessionIds := {}\<rparr>"

definition dispose_view :: "client_view \<Rightarrow> client_view" where
  "dispose_view c = (reset c)\<lparr>snapshotListeners := [], eventListeners := [], sessionSnapshotListeners := [],
     sessionEventListeners := []\<rparr>"

definition forgetSessionSnapshot :: "js_string \<Rightarrow> client_view \<Rightarrow> js_value option \<times> client_view" where
  "forgetSessionSnapshot i c =
     (map_of (sessionSnapshots c) i, c\<lparr>sessionSnapshots := AList.delete i (sessionSnapshots c)\<rparr>)"

definition restoreSessionSnapshot :: "js_value \<Rightarrow> client_view \<Rightarrow> client_view" where
  "restoreSessionSnapshot snapshot c =
     (if map_of (sessionSnapshots c) (string_field ''id'' snapshot) = None
      then c\<lparr>sessionSnapshots := AList.update (string_field ''id'' snapshot) snapshot (sessionSnapshots c)\<rparr>
      else c)"

subsection \<open>Listeners\<close>

text \<open>\<open>Set.add\<close>, which keeps the place of an element that is there.\<close>

definition add_to_set :: "'a \<Rightarrow> 'a list \<Rightarrow> 'a list" where
  "add_to_set x xs = (if x \<in> set xs then xs else xs @ [x])"

text \<open>A subscription remembers where its listener went, so that it can be ended.\<close>

datatype subscription =
    SnapshotSubscription nat
  | EventSubscription nat
  | SessionSnapshotSubscription js_string nat nat    \<comment> \<open>session, address of the set, listener\<close>
  | SessionEventSubscription js_string nat nat

definition subscribe :: "nat \<Rightarrow> client_view \<Rightarrow> subscription \<times> client_view" where
  "subscribe l c = (SnapshotSubscription l, c\<lparr>snapshotListeners := add_to_set l (snapshotListeners c)\<rparr>)"

definition onEvent :: "nat \<Rightarrow> client_view \<Rightarrow> subscription \<times> client_view" where
  "onEvent l c = (EventSubscription l, c\<lparr>eventListeners := add_to_set l (eventListeners c)\<rparr>)"

text \<open>\<open>addMappedListener\<close>: the address of the set of a session, a new one when it has none.\<close>

definition mapped_set :: "listener_map \<Rightarrow> js_string \<Rightarrow> nat \<Rightarrow> listener_map \<times> nat \<times> nat" where
  "mapped_set m i free =
     (case map_of m i of Some a \<Rightarrow> (m, a, free) | None \<Rightarrow> (AList.update i free m, free, Suc free))"

definition store_listener :: "nat \<Rightarrow> nat \<Rightarrow> bool \<Rightarrow> (nat \<Rightarrow> nat list) \<Rightarrow> nat \<Rightarrow> nat list" where
  "store_listener a l fresh sets = sets(a := add_to_set l (if fresh then [] else sets a))"

definition subscribeSession :: "js_string \<Rightarrow> nat \<Rightarrow> client_view \<Rightarrow> subscription \<times> client_view" where
  "subscribeSession i l c =
     (let (m, a, free) = mapped_set (sessionSnapshotListeners c) i (nextAddress c)
      in (SessionSnapshotSubscription i a l,
          c\<lparr>sessionSnapshotListeners := m, nextAddress := free,
            listenerSets := store_listener a l (free \<noteq> nextAddress c) (listenerSets c)\<rparr>))"

definition onSessionEvent :: "js_string \<Rightarrow> nat \<Rightarrow> client_view \<Rightarrow> subscription \<times> client_view" where
  "onSessionEvent i l c =
     (let (m, a, free) = mapped_set (sessionEventListeners c) i (nextAddress c)
      in (SessionEventSubscription i a l,
          c\<lparr>sessionEventListeners := m, nextAddress := free,
            listenerSets := store_listener a l (free \<noteq> nextAddress c) (listenerSets c)\<rparr>))"

text \<open>Ending a subscription: the listener leaves its set, and an empty set leaves the map, whichever set is there.\<close>

fun unsubscribe :: "subscription \<Rightarrow> client_view \<Rightarrow> client_view" where
  "unsubscribe (SnapshotSubscription l) c = c\<lparr>snapshotListeners := removeAll l (snapshotListeners c)\<rparr>"
| "unsubscribe (EventSubscription l) c = c\<lparr>eventListeners := removeAll l (eventListeners c)\<rparr>"
| "unsubscribe (SessionSnapshotSubscription i a l) c =
     (let left = removeAll l (listenerSets c a); c = c\<lparr>listenerSets := (listenerSets c)(a := left)\<rparr>
      in if left = [] then c\<lparr>sessionSnapshotListeners := AList.delete i (sessionSnapshotListeners c)\<rparr> else c)"
| "unsubscribe (SessionEventSubscription i a l) c =
     (let left = removeAll l (listenerSets c a); c = c\<lparr>listenerSets := (listenerSets c)(a := left)\<rparr>
      in if left = [] then c\<lparr>sessionEventListeners := AList.delete i (sessionEventListeners c)\<rparr> else c)"

definition mapped_listeners :: "listener_map \<Rightarrow> js_string \<Rightarrow> client_view \<Rightarrow> nat list" where
  "mapped_listeners m i c = (case map_of m i of None \<Rightarrow> [] | Some a \<Rightarrow> listenerSets c a)"

subsection \<open>Results and events\<close>

type_synonym delivery = "nat \<times> notice"

definition notify_listeners :: "nat list \<Rightarrow> notice \<Rightarrow> delivery list" where
  "notify_listeners ls n = map (\<lambda>l. (l, n)) ls"

definition applyServerSnapshot :: "js_value \<Rightarrow> client_view \<Rightarrow> delivery list \<times> client_view" where
  "applyServerSnapshot snapshot c =
     (if (case serverSnapshot c of None \<Rightarrow> False | Some current \<Rightarrow> revision_of snapshot < revision_of current) then ([], c)
      else (notify_listeners (snapshotListeners c) (SnapshotNotice snapshot), c\<lparr>serverSnapshot := Some snapshot\<rparr>))"

definition applySessionSnapshot :: "js_value \<Rightarrow> bool \<Rightarrow> client_view \<Rightarrow> delivery list \<times> client_view" where
  "applySessionSnapshot snapshot force c =
     (let i = string_field ''id'' snapshot; current = map_of (sessionSnapshots c) i
      in if \<not> force \<and> (case current of None \<Rightarrow> False | Some s \<Rightarrow> revision_of snapshot < revision_of s) then ([], c)
         else
           (notify_listeners (mapped_listeners (sessionSnapshotListeners c) i c) (SessionNotice snapshot),
            c\<lparr>sessionSnapshots := AList.update i snapshot (sessionSnapshots c),
              attachedSessionIds := (if attached_in snapshot then insert i (attachedSessionIds c) else attachedSessionIds c - {i})\<rparr>))"

definition with_field :: "string \<Rightarrow> js_value \<Rightarrow> js_value \<Rightarrow> js_value" where
  "with_field k w v = (case v of JObject symbols es \<Rightarrow> JObject symbols (set_property (js_of k) w es) | _ \<Rightarrow> v)"

definition applyResult :: "js_value \<Rightarrow> client_view \<Rightarrow> delivery list \<times> client_view" where
  "applyResult result c =
     (if value_field ''command'' result = JString (js_of ''list'') then ([], c)
      else if value_field ''command'' result = JString (js_of ''detach'') then
        (let i = string_field ''sessionId'' result; c = c\<lparr>attachedSessionIds := attachedSessionIds c - {i}\<rparr>
         in case map_of (sessionSnapshots c) i of
              None \<Rightarrow> ([], c)
            | Some snapshot \<Rightarrow> applySessionSnapshot (with_field ''attached'' (JBool False) snapshot) True c)
      else applySessionSnapshot (value_field ''session'' result) False c)"

definition event_is :: "string \<Rightarrow> js_value \<Rightarrow> bool" where
  "event_is t event \<longleftrightarrow> value_field ''type'' event = JString (js_of t)"

definition getEventSessionId :: "js_value \<Rightarrow> js_string option" where
  "getEventSessionId event =
     (if event_is ''session_snapshot'' event then Some (string_field ''id'' (value_field ''snapshot'' event))
      else if event_is ''session_progress'' event \<or> event_is ''session_removed'' event
        then Some (string_field ''sessionId'' event)
      else None)"

definition applyEvent :: "js_value \<Rightarrow> client_view \<Rightarrow> delivery list \<times> client_view" where
  "applyEvent event c =
     (let (ds1, c) = (if event_is ''server_snapshot'' event then applyServerSnapshot (value_field ''snapshot'' event) c else ([], c));
          (ds2, c) = (if event_is ''session_snapshot'' event then applySessionSnapshot (value_field ''snapshot'' event) False c else ([], c));
          i = string_field ''sessionId'' event;
          c = (if event_is ''session_removed'' event
               then c\<lparr>sessionSnapshots := AList.delete i (sessionSnapshots c), attachedSessionIds := attachedSessionIds c - {i}\<rparr>
               else c);
          ds3 = notify_listeners (eventListeners c) (EventNotice event);
          ds4 = (case getEventSessionId event of
                   None \<Rightarrow> []
                 | Some i \<Rightarrow> if i = [] then [] else notify_listeners (mapped_listeners (sessionEventListeners c) i c) (SessionEventNotice event))
      in (ds1 @ ds2 @ ds3 @ ds4, c))"

subsection \<open>Revisions\<close>

lemma field_set_other: "k \<noteq> k' \<Longrightarrow> field k (set_property (js_of k') w es) = field k es"
  by (simp add: field_set_property)

lemma detached_snapshot: "k \<noteq> ''attached'' \<Longrightarrow> value_field k (with_field ''attached'' w v) = value_field k v"
  by (cases v) (simp_all add: value_field_def with_field_def field_set_other)

lemma detached_revision: "revision_of (with_field ''attached'' w v) = revision_of v"
  "string_field k (with_field ''attached'' w v) = (if k = ''attached'' then string_field k (with_field ''attached'' w v) else string_field k v)"
  by (simp_all add: revision_of_def string_field_def detached_snapshot)

text \<open>Each known session's snapshot is filed under its own id.\<close>

definition filed :: "client_view \<Rightarrow> bool" where
  "filed c \<longleftrightarrow> distinct (map fst (sessionSnapshots c)) \<and> (\<forall>(i, s) \<in> set (sessionSnapshots c). string_field ''id'' s = i)"

lemma filed_lookup: "filed c \<Longrightarrow> map_of (sessionSnapshots c) i = Some s \<Longrightarrow> string_field ''id'' s = i"
  by (auto simp: filed_def dest: map_of_SomeD)

lemma filed_update:
  "filed c \<Longrightarrow> string_field ''id'' s = i \<Longrightarrow> filed (c\<lparr>sessionSnapshots := AList.update i s (sessionSnapshots c), attachedSessionIds := A\<rparr>)"
proof -
  assume c: "filed c" and s: "string_field ''id'' s = i"
  have "string_field ''id'' s' = i'" if "(i', s') \<in> set (AList.update i s (sessionSnapshots c))" for i' s'
  proof -
    have "distinct (map fst (AList.update i s (sessionSnapshots c)))" using c by (simp add: filed_def distinct_update)
    with that have "map_of (AList.update i s (sessionSnapshots c)) i' = Some s'" by simp
    then show ?thesis using s filed_lookup[OF c] by (auto simp: update_conv' split: if_splits)
  qed
  then show ?thesis using c by (auto simp: filed_def distinct_update)
qed

lemma filed_delete:
  "filed c \<Longrightarrow> filed (c\<lparr>sessionSnapshots := AList.delete i (sessionSnapshots c), attachedSessionIds := A\<rparr>)"
  by (auto simp: filed_def AList.delete_eq distinct_map_filter)

lemma applySessionSnapshot_filed: "filed c \<Longrightarrow> filed (snd (applySessionSnapshot s force c))"
  by (auto simp: applySessionSnapshot_def Let_def filed_update)

lemma filed_attached: "filed (c\<lparr>attachedSessionIds := A\<rparr>) = filed c" "filed (c\<lparr>serverSnapshot := S\<rparr>) = filed c"
  by (simp_all add: filed_def)

lemma applyResult_filed: "filed c \<Longrightarrow> filed (snd (applyResult r c))"
  by (auto simp: applyResult_def Let_def applySessionSnapshot_filed filed_attached split: option.splits)

lemma applyServerSnapshot_filed: "filed c \<Longrightarrow> filed (snd (applyServerSnapshot s c))"
  by (auto simp: applyServerSnapshot_def filed_attached)

lemma applyEvent_filed: "filed c \<Longrightarrow> filed (snd (applyEvent e c))"
  using applyServerSnapshot_filed[of c] applySessionSnapshot_filed[of "snd (applyServerSnapshot (value_field ''snapshot'' e) c)"]
    applySessionSnapshot_filed[of c]
  by (auto simp: applyEvent_def Let_def split_beta filed_delete)

text \<open>What is received from a server: the results of requests and events.\<close>

datatype received = ReceivedResult js_value | ReceivedEvent js_value

fun receive :: "received \<Rightarrow> client_view \<Rightarrow> delivery list \<times> client_view" where
  "receive (ReceivedResult r) c = applyResult r c"
| "receive (ReceivedEvent e) c = applyEvent e c"

text \<open>A snapshot is never replaced by an older one.\<close>

definition no_older :: "client_view \<Rightarrow> client_view \<Rightarrow> bool" where
  "no_older c c' \<longleftrightarrow>
     (\<forall>s. serverSnapshot c = Some s \<longrightarrow> (\<exists>s'. serverSnapshot c' = Some s' \<and> revision_of s \<le> revision_of s')) \<and>
     (\<forall>i s s'. map_of (sessionSnapshots c) i = Some s \<and> map_of (sessionSnapshots c') i = Some s' \<longrightarrow> revision_of s \<le> revision_of s')"

lemma session_snapshot_no_older:
  assumes "force \<Longrightarrow> \<exists>s0. map_of (sessionSnapshots c) (string_field ''id'' s) = Some s0 \<and> revision_of s0 \<le> revision_of s"
  shows "no_older c (snd (applySessionSnapshot s force c))"
  using assms by (fastforce simp: applySessionSnapshot_def no_older_def Let_def update_conv' split: option.splits)

lemma server_snapshot_no_older: "no_older c (snd (applyServerSnapshot s c))"
  by (auto simp: applyServerSnapshot_def no_older_def split: option.splits)

lemma receive_no_older: "filed c \<Longrightarrow> no_older c (snd (receive r c))"
proof (cases r)
  case (ReceivedResult result)
  assume c: "filed c"
  let ?i = "string_field ''sessionId'' result"
  have same: "no_older c (snd (applySessionSnapshot s f (c\<lparr>attachedSessionIds := A\<rparr>))) \<longleftrightarrow>
      no_older (c\<lparr>attachedSessionIds := A\<rparr>) (snd (applySessionSnapshot s f (c\<lparr>attachedSessionIds := A\<rparr>)))" for s f A
    by (simp add: no_older_def)
  show ?thesis
  proof (cases "map_of (sessionSnapshots c) ?i")
    case None
    with ReceivedResult show ?thesis
      using session_snapshot_no_older[of False c] by (auto simp: applyResult_def Let_def; auto simp: no_older_def)
  next
    case (Some s)
    from filed_lookup[OF c Some] have i: "string_field ''id'' (with_field ''attached'' (JBool False) s) = ?i"
      by (simp add: string_field_def detached_snapshot)
    have "no_older c (snd (applySessionSnapshot (with_field ''attached'' (JBool False) s) True (c\<lparr>attachedSessionIds := A\<rparr>)))" for A
      unfolding same by (rule session_snapshot_no_older) (simp add: i Some detached_revision(1))
    with ReceivedResult Some show ?thesis
      using session_snapshot_no_older[of False c] by (auto simp: applyResult_def Let_def; auto simp: no_older_def)
  qed
next
  case (ReceivedEvent e)
  have server: "no_older c (snd (applyServerSnapshot s c))" for s by (rule server_snapshot_no_older)
  have session: "no_older c (snd (applySessionSnapshot s False c))" for s by (rule session_snapshot_no_older) simp
  have only: "\<not> (event_is ''server_snapshot'' e \<and> event_is ''session_snapshot'' e)" by (auto simp: event_is_def)
  have removed: "no_older c d \<Longrightarrow> no_older c (d\<lparr>sessionSnapshots := AList.delete i (sessionSnapshots d), attachedSessionIds := A\<rparr>)" for d i A
    by (auto simp: no_older_def delete_conv' split: if_splits)
  have same: "no_older c c" by (auto simp: no_older_def)
  show ?thesis
    using only ReceivedEvent by (auto simp: applyEvent_def Let_def split_beta server session removed same)
qed

text \<open>C36: A client never goes back to an older snapshot: whatever results and events it receives, in any order, the
  server snapshot it holds never has a smaller revision than one before, and neither has the snapshot of
  a session for as long as the session is known; and each snapshot is filed under its own session.\<close>

theorem snapshots_never_regress:
  assumes "filed c"
  shows "filed (snd (receive r c)) \<and> no_older c (snd (receive r c))"
proof
  show "filed (snd (receive r c))" using assms by (cases r) (simp_all add: applyResult_filed applyEvent_filed)
  show "no_older c (snd (receive r c))" using assms by (rule receive_no_older)
qed

definition sample_snapshot :: "int \<Rightarrow> bool \<Rightarrow> js_value" where
  "sample_snapshot revision attached = object_of
     [(''id'', JString (js_of ''s1'')), (''revision'', JNumber (JInt revision)), (''attached'', JBool attached)]"

lemma snapshots_never_regress_witness:
  "let c = snd (receive (ReceivedResult (object_of [(''command'', JString (js_of ''attach'')), (''session'', sample_snapshot 3 True)])) new_view);
       event = object_of [(''type'', JString (js_of ''session_snapshot'')), (''snapshot'', sample_snapshot 2 False)]
   in map_of (sessionSnapshots (snd (receive (ReceivedEvent event) c))) (js_of ''s1'') \<noteq> Some (sample_snapshot 2 False)"
proof -
  let ?c = "snd (receive (ReceivedResult (object_of [(''command'', JString (js_of ''attach'')), (''session'', sample_snapshot 3 True)])) new_view)"
  have fields: "value_field k (object_of kvs) = field k (literal kvs)" for k kvs by (simp add: value_field_def object_of_def)
  have c: "map_of (sessionSnapshots ?c) (js_of ''s1'') = Some (sample_snapshot 3 True)"
    by (simp add: applyResult_def applySessionSnapshot_def fields field_only field_empty string_field_def sample_snapshot_def new_view_def Let_def)
  have "filed new_view" by (simp add: filed_def new_view_def)
  then have "filed ?c" using snapshots_never_regress by blast
  let ?event = "ReceivedEvent (object_of [(''type'', JString (js_of ''session_snapshot'')), (''snapshot'', sample_snapshot 2 False)])"
  from snapshots_never_regress[OF \<open>filed ?c\<close>, of ?event]
  have "map_of (sessionSnapshots (snd (receive ?event ?c))) (js_of ''s1'') = Some (sample_snapshot 2 False) \<Longrightarrow>
      revision_of (sample_snapshot 3 True) \<le> revision_of (sample_snapshot 2 False)"
    unfolding no_older_def using c by blast
  moreover have "revision_of (sample_snapshot n b) = n" for n b by (simp add: revision_of_def fields field_only sample_snapshot_def)
  ultimately show ?thesis unfolding Let_def by fastforce
qed

subsection \<open>Listeners\<close>

text \<open>The sets of the two maps are different ones, in use, and not empty; the others are empty.\<close>

definition listener_addresses :: "client_view \<Rightarrow> nat list" where
  "listener_addresses c = map snd (sessionSnapshotListeners c) @ map snd (sessionEventListeners c)"

definition listeners_ok :: "client_view \<Rightarrow> bool" where
  "listeners_ok c \<longleftrightarrow> distinct (map fst (sessionSnapshotListeners c)) \<and> distinct (map fst (sessionEventListeners c)) \<and>
     distinct (listener_addresses c) \<and> (\<forall>a \<in> set (listener_addresses c). a < nextAddress c) \<and>
     (\<forall>a. listenerSets c a \<noteq> [] \<longleftrightarrow> a \<in> set (listener_addresses c)) \<and> (\<forall>a. distinct (listenerSets c a))"

definition session_listeners :: "js_string \<Rightarrow> client_view \<Rightarrow> nat list" where
  "session_listeners i c = mapped_listeners (sessionSnapshotListeners c) i c"

definition event_listeners_of :: "js_string \<Rightarrow> client_view \<Rightarrow> nat list" where
  "event_listeners_of i c = mapped_listeners (sessionEventListeners c) i c"

text \<open>A subscription that has not been ended.\<close>

fun active_in :: "client_view \<Rightarrow> subscription \<Rightarrow> bool" where
  "active_in c (SnapshotSubscription l) = (l \<in> set (snapshotListeners c))"
| "active_in c (EventSubscription l) = (l \<in> set (eventListeners c))"
| "active_in c (SessionSnapshotSubscription i a l) = (map_of (sessionSnapshotListeners c) i = Some a \<and> l \<in> set (listenerSets c a))"
| "active_in c (SessionEventSubscription i a l) = (map_of (sessionEventListeners c) i = Some a \<and> l \<in> set (listenerSets c a))"

text \<open>Ending a subscription a second time can silence other listeners of the session: the ended one's set is empty,
  so the set that has taken its place leaves the map.\<close>

lemma second_unsubscribe_silences_others:
  assumes "map_of (sessionSnapshotListeners c) i = None"
  shows "let (first, c) = subscribeSession i l c; c = unsubscribe first c; (second, c) = subscribeSession i l' c
    in session_listeners i c = [l'] \<and> session_listeners i (unsubscribe first c) = []"
  using assms
  by (simp add: subscribeSession_def mapped_set_def store_listener_def add_to_set_def Let_def session_listeners_def mapped_listeners_def
      update_conv' delete_conv')

lemma update_new: "map_of xs k = None \<Longrightarrow> AList.update k v xs = xs @ [(k, v)]"
  by (induction xs) auto

lemma set_add_simps: "set (add_to_set x xs) = insert x (set xs)" "distinct xs \<Longrightarrow> distinct (add_to_set x xs)" "add_to_set x xs \<noteq> []"
  by (auto simp: add_to_set_def)

lemma address_unique:
  "distinct (map snd m) \<Longrightarrow> map_of m i = Some a \<Longrightarrow> map_of m j = Some a \<Longrightarrow> i = j"
  by (induction m) (auto split: if_splits dest!: map_of_SomeD simp: rev_image_eqI)

lemma delete_values:
  assumes "distinct (map fst m)" and "map_of m i = Some a"
  shows "set (map snd (AList.delete i m)) \<subseteq> set (map snd m)"
    and "distinct (map snd m) \<Longrightarrow> set (map snd (AList.delete i m)) = set (map snd m) - {a}"
proof -
  show "set (map snd (AList.delete i m)) \<subseteq> set (map snd m)" by (auto simp: AList.delete_eq)
  show "set (map snd (AList.delete i m)) = set (map snd m) - {a}" if d: "distinct (map snd m)"
  proof -
    have "a' = a \<longleftrightarrow> j = i" if "(j, a') \<in> set m" for j a'
      using assms(2) map_of_is_SomeI[OF assms(1) that] address_unique[OF d assms(2), of j] by (metis option.inject)
    then show ?thesis by (force simp: AList.delete_eq)
  qed
qed

lemma map_of_snoc: "map_of xs k = None \<Longrightarrow> map_of (xs @ [(k, v)]) = (map_of xs)(k \<mapsto> v)"
  by (auto simp: map_add_def fun_eq_iff split: option.splits)

lemma mapped_address: "map_of m i = Some a \<Longrightarrow> a \<in> set (map snd m)"
  by (force dest: map_of_SomeD)

lemma mapped_other:
  assumes "\<And>a. a \<in> set (map snd m) \<Longrightarrow> listenerSets c' a = listenerSets c a"
  shows "mapped_listeners m i c' = mapped_listeners m i c"
  using assms mapped_address[of m i] by (cases "map_of m i") (simp_all add: mapped_listeners_def)

lemma session_subscribed:
  assumes "listeners_ok c" and "subscribeSession i l c = (sub, c')"
  shows "listeners_ok c' \<and> active_in c' sub \<and>
    session_listeners j c' = (if j = i then add_to_set l (session_listeners i c) else session_listeners j c) \<and>
    event_listeners_of j c' = event_listeners_of j c"
proof (cases "map_of (sessionSnapshotListeners c) i")
  case None
  let ?free = "nextAddress c"
  have c': "sub = SessionSnapshotSubscription i ?free l" "sessionSnapshotListeners c' = sessionSnapshotListeners c @ [(i, ?free)]"
    "sessionEventListeners c' = sessionEventListeners c" "nextAddress c' = Suc ?free" "listenerSets c' = (listenerSets c)(?free := [l])"
    using assms(2) None by (auto simp: subscribeSession_def mapped_set_def store_listener_def add_to_set_def update_new Let_def)
  have fresh: "?free \<notin> set (listener_addresses c)" using assms(1) by (auto simp: listeners_ok_def)
  then have other: "a \<noteq> ?free" if "map_of (sessionSnapshotListeners c) j = Some a \<or> map_of (sessionEventListeners c) j = Some a" for a j
    using that mapped_address by (fastforce simp: listener_addresses_def)
  have "listeners_ok c'"
    using assms(1) fresh None
    by (auto simp: listeners_ok_def c' listener_addresses_def map_of_eq_None_iff less_Suc_eq)
  moreover have "session_listeners j c' = (if j = i then add_to_set l (session_listeners i c) else session_listeners j c)"
    using None other
    by (auto simp: session_listeners_def mapped_listeners_def c' map_of_snoc add_to_set_def split: option.splits)
  moreover have "event_listeners_of j c' = event_listeners_of j c"
    using other by (auto simp: event_listeners_of_def mapped_listeners_def c' split: option.splits)
  ultimately show ?thesis using None by (simp add: c' map_add_def)
next
  case (Some a)
  have c': "sub = SessionSnapshotSubscription i a l" "sessionSnapshotListeners c' = sessionSnapshotListeners c"
    "sessionEventListeners c' = sessionEventListeners c" "nextAddress c' = nextAddress c"
    "listenerSets c' = (listenerSets c)(a := add_to_set l (listenerSets c a))"
    using assms(2) Some by (auto simp: subscribeSession_def mapped_set_def store_listener_def Let_def)
  have a: "a \<in> set (map snd (sessionSnapshotListeners c))" using mapped_address[OF Some] .
  have "listeners_ok c'"
    using assms(1) a by (auto simp: listeners_ok_def c' listener_addresses_def set_add_simps)
  moreover have "session_listeners j c' = (if j = i then add_to_set l (session_listeners i c) else session_listeners j c)"
  proof (cases "j = i \<or> map_of (sessionSnapshotListeners c) j = None")
    case True
    with Some show ?thesis by (auto simp: session_listeners_def mapped_listeners_def c')
  next
    case False
    then obtain b where b: "map_of (sessionSnapshotListeners c) j = Some b" "j \<noteq> i" by auto
    have "distinct (map snd (sessionSnapshotListeners c))" using assms(1) by (simp add: listeners_ok_def listener_addresses_def)
    from address_unique[OF this Some, of j] b have "b \<noteq> a" by auto
    with b show ?thesis by (simp add: session_listeners_def mapped_listeners_def c')
  qed
  moreover have "event_listeners_of j c' = event_listeners_of j c"
  proof -
    have "a \<notin> set (map snd (sessionEventListeners c))" using assms(1) a unfolding listeners_ok_def listener_addresses_def by auto
    then show ?thesis unfolding event_listeners_of_def c' by (intro mapped_other) (auto simp: c')
  qed
  ultimately show ?thesis using Some by (simp add: c' set_add_simps)
qed

lemma session_unsubscribed:
  assumes "listeners_ok c" and "active_in c (SessionSnapshotSubscription i a l)" and "c' = unsubscribe (SessionSnapshotSubscription i a l) c"
  shows "listeners_ok c' \<and> session_listeners j c' = (if j = i then removeAll l (session_listeners i c) else session_listeners j c) \<and>
    event_listeners_of j c' = event_listeners_of j c"
proof -
  let ?left = "removeAll l (listenerSets c a)" and ?m = "sessionSnapshotListeners c"
  have a: "map_of ?m i = Some a" "l \<in> set (listenerSets c a)" using assms(2) by simp_all
  have ok: "distinct (map fst ?m)" "distinct (map snd ?m)" "a \<in> set (map snd ?m)"
    using assms(1) mapped_address[OF a(1)] by (auto simp: listeners_ok_def listener_addresses_def)
  have c': "sessionSnapshotListeners c' = (if ?left = [] then AList.delete i ?m else ?m)" "sessionEventListeners c' = sessionEventListeners c"
    "nextAddress c' = nextAddress c" "listenerSets c' = (listenerSets c)(a := ?left)"
    using assms(3) by (auto simp: Let_def)
  have apart: "a \<notin> set (map snd (sessionEventListeners c))"
    using assms(1) ok(3) by (auto simp: listeners_ok_def listener_addresses_def)
  have left: "distinct (map snd (AList.delete i ?m))" "distinct (map fst (AList.delete i ?m))"
    "set (map snd (AList.delete i ?m)) = set (map snd ?m) - {a}"
    using ok delete_values(2)[OF ok(1) a(1) ok(2)] by (simp_all add: AList.delete_eq distinct_map_filter)
  have addresses: "set (listener_addresses c') = (if ?left = [] then set (listener_addresses c) - {a} else set (listener_addresses c))"
    unfolding listener_addresses_def c' set_append using left(3) apart by (cases "?left = []") auto
  have "distinct (map fst (sessionSnapshotListeners c'))" "distinct (map fst (sessionEventListeners c'))"
    using assms(1) left(2) unfolding c' by (auto simp: listeners_ok_def)
  moreover have "distinct (listener_addresses c')"
  proof (cases "?left = []")
    case True
    with assms(1) left(1,3) show ?thesis unfolding listener_addresses_def c' listeners_ok_def by auto
  next
    case False
    with assms(1) show ?thesis unfolding listener_addresses_def c' listeners_ok_def by simp
  qed
  moreover have "\<forall>a \<in> set (listener_addresses c'). a < nextAddress c'"
    using assms(1) unfolding addresses by (auto simp: listeners_ok_def c' simp del: removeAll_filter_not_eq split: if_splits)
  moreover have "\<forall>b. listenerSets c' b \<noteq> [] \<longleftrightarrow> b \<in> set (listener_addresses c')"
  proof
    fix b
    show "listenerSets c' b \<noteq> [] \<longleftrightarrow> b \<in> set (listener_addresses c')"
      using assms(1) ok(3) unfolding addresses c' by (cases "b = a") (auto simp: listeners_ok_def listener_addresses_def)
  qed
  moreover have "\<forall>b. distinct (listenerSets c' b)"
    using assms(1) by (simp add: listeners_ok_def c' distinct_removeAll)
  ultimately have "listeners_ok c'" by (simp add: listeners_ok_def)
  moreover have "session_listeners j c' = (if j = i then removeAll l (session_listeners i c) else session_listeners j c)"
  proof (cases "j = i \<or> map_of ?m j = None")
    case True
    with a show ?thesis by (auto simp: session_listeners_def mapped_listeners_def c' delete_conv')
  next
    case False
    then obtain b where b: "map_of ?m j = Some b" "j \<noteq> i" by auto
    with address_unique[OF ok(2) a(1), of j] have "b \<noteq> a" by auto
    with b show ?thesis by (simp add: session_listeners_def mapped_listeners_def c' delete_conv')
  qed
  moreover have "event_listeners_of j c' = event_listeners_of j c"
    using apart unfolding event_listeners_of_def c' by (intro mapped_other) (auto simp: c')
  ultimately show ?thesis by blast
qed

text \<open>The two maps play the same role: exchanging them exchanges the operations.\<close>

definition swap_maps :: "client_view \<Rightarrow> client_view" where
  "swap_maps c = c\<lparr>sessionSnapshotListeners := sessionEventListeners c, sessionEventListeners := sessionSnapshotListeners c\<rparr>"

lemma swap_maps_simps:
  "swap_maps (swap_maps c) = c" "session_listeners i (swap_maps c) = event_listeners_of i c"
  "event_listeners_of i (swap_maps c) = session_listeners i c" "listeners_ok (swap_maps c) \<longleftrightarrow> listeners_ok c"
  by (auto simp: swap_maps_def session_listeners_def event_listeners_of_def mapped_listeners_def listeners_ok_def listener_addresses_def
    split: option.splits)

lemma event_subscribed:
  assumes "listeners_ok c" and "onSessionEvent i l c = (sub, c')"
  shows "listeners_ok c' \<and> active_in c' sub \<and>
    event_listeners_of j c' = (if j = i then add_to_set l (event_listeners_of i c) else event_listeners_of j c) \<and>
    session_listeners j c' = session_listeners j c"
proof -
  obtain a where "sub = SessionEventSubscription i a l" "subscribeSession i l (swap_maps c) = (SessionSnapshotSubscription i a l, swap_maps c')"
    using assms(2) by (auto simp: onSessionEvent_def subscribeSession_def swap_maps_def Let_def split: prod.splits)
  with session_subscribed[of "swap_maps c" i l "SessionSnapshotSubscription i a l" "swap_maps c'" j] assms(1) show ?thesis
    by (simp add: swap_maps_simps) (simp add: swap_maps_def)
qed

lemma event_unsubscribed:
  assumes "listeners_ok c" and "active_in c (SessionEventSubscription i a l)" and "c' = unsubscribe (SessionEventSubscription i a l) c"
  shows "listeners_ok c' \<and> event_listeners_of j c' = (if j = i then removeAll l (event_listeners_of i c) else event_listeners_of j c) \<and>
    session_listeners j c' = session_listeners j c"
proof -
  have "active_in (swap_maps c) (SessionSnapshotSubscription i a l)" using assms(2) by (simp add: swap_maps_def)
  moreover have "swap_maps c' = unsubscribe (SessionSnapshotSubscription i a l) (swap_maps c)"
    using assms(3) by (simp add: swap_maps_def Let_def)
  ultimately have "listeners_ok (swap_maps c') \<and>
      session_listeners j (swap_maps c') = (if j = i then removeAll l (session_listeners i (swap_maps c)) else session_listeners j (swap_maps c)) \<and>
      event_listeners_of j (swap_maps c') = event_listeners_of j (swap_maps c)"
    using assms(1) by (intro session_unsubscribed) (simp_all add: swap_maps_simps del: unsubscribe.simps active_in.simps)
  then show ?thesis by (simp add: swap_maps_simps)
qed

text \<open>C37: Subscriptions are exact as long as each one is ended at most once: subscribing adds the listener to its
  session and nowhere else, ending an active subscription removes it from there and nowhere else, and the
  sharing of listener sets between sessions, kinds and old subscriptions never shows.\<close>

theorem subscriptions_exact:
  assumes "listeners_ok c"
  shows "(case subscribeSession i l c of (sub, c') \<Rightarrow>
      listeners_ok c' \<and> active_in c' sub \<and>
      session_listeners j c' = (if j = i then add_to_set l (session_listeners i c) else session_listeners j c) \<and>
      event_listeners_of j c' = event_listeners_of j c) \<and>
    (case onSessionEvent i l c of (sub, c') \<Rightarrow>
      listeners_ok c' \<and> active_in c' sub \<and>
      event_listeners_of j c' = (if j = i then add_to_set l (event_listeners_of i c) else event_listeners_of j c) \<and>
      session_listeners j c' = session_listeners j c) \<and>
    (\<forall>a. active_in c (SessionSnapshotSubscription i a l) \<longrightarrow>
      (let c' = unsubscribe (SessionSnapshotSubscription i a l) c
       in listeners_ok c' \<and> session_listeners j c' = (if j = i then removeAll l (session_listeners i c) else session_listeners j c) \<and>
          event_listeners_of j c' = event_listeners_of j c)) \<and>
    (\<forall>a. active_in c (SessionEventSubscription i a l) \<longrightarrow>
      (let c' = unsubscribe (SessionEventSubscription i a l) c
       in listeners_ok c' \<and> event_listeners_of j c' = (if j = i then removeAll l (event_listeners_of i c) else event_listeners_of j c) \<and>
          session_listeners j c' = session_listeners j c))"
proof (intro conjI allI impI)
  show "case subscribeSession i l c of (sub, c') \<Rightarrow>
      listeners_ok c' \<and> active_in c' sub \<and>
      session_listeners j c' = (if j = i then add_to_set l (session_listeners i c) else session_listeners j c) \<and>
      event_listeners_of j c' = event_listeners_of j c"
    using session_subscribed[OF assms] by (cases "subscribeSession i l c") blast
  show "case onSessionEvent i l c of (sub, c') \<Rightarrow>
      listeners_ok c' \<and> active_in c' sub \<and>
      event_listeners_of j c' = (if j = i then add_to_set l (event_listeners_of i c) else event_listeners_of j c) \<and>
      session_listeners j c' = session_listeners j c"
    using event_subscribed[OF assms] by (cases "onSessionEvent i l c") blast
qed (unfold Let_def, (rule session_unsubscribed[OF assms] event_unsubscribed[OF assms]; simp)+)

lemma subscriptions_exact_witness:
  "case subscribeSession (js_of ''s'') 1 new_view of (sub, c) \<Rightarrow> listeners_ok c \<and> session_listeners (js_of ''s'') c = [1]"
proof -
  have new: "listeners_ok new_view" "session_listeners (js_of ''s'') new_view = []"
    by (simp_all add: listeners_ok_def new_view_def listener_addresses_def session_listeners_def mapped_listeners_def)
  show ?thesis
    using subscriptions_exact[OF new(1), where i = "js_of ''s''" and l = 1 and j = "js_of ''s''"]
    by (auto simp: new(2) add_to_set_def split: prod.splits)
qed

end
