(* ===== verification/ClientConnection.thy ===== *)
theory ClientConnection
  imports ProtocolMessages ClientState
begin

section \<open>The connection of a client\<close>

text \<open>
  \<^verbatim>\<open>packages/client/src/connection.ts\<close> and \<^verbatim>\<open>errors.ts\<close>: a client opens a byte transport, says hello,
  waits for the hello of the server and then passes messages on. The transport, its factory and the owner
  of the connection are outside: what they are told is a list of effects, what they do are operations of
  their own. Callbacks of the owner may use the connection again, so they are functions on its state.
\<close>

subsection \<open>State\<close>

datatype client_error =
    DisconnectedError string
  | DisconnectedBy client_error         \<comment> \<open>a \<open>PiDisconnectedError\<close> with the message of another error\<close>
  | ServerRefusal js_value              \<comment> \<open>\<open>PiServerError\<close>\<close>
  | ClientDisposedError
  | OwnershipError js_string string
  | SessionDetachedError js_string
  | ValidationError string
  | CodecError protocol_error
  | FrameLimitError frame_error
  | ForeignError string                 \<comment> \<open>any other error\<close>

definition toDisconnectedError :: "client_error \<Rightarrow> client_error" where
  "toDisconnectedError e =
     (case e of DisconnectedError message \<Rightarrow> e | DisconnectedBy cause \<Rightarrow> e | _ \<Rightarrow> DisconnectedBy e)"

text \<open>A connection attempt has a number, which also names its decoder and its handshake promise. Transports
  are numbers. An object of type \<open>Connected\<close> is made once for each attempt, so that comparing the
  objects is comparing their contents.\<close>

datatype lifecycle =
    Offline
  | Connecting nat "nat option"         \<comment> \<open>attempt, transport\<close>
  | Connected nat nat bool              \<comment> \<open>attempt, transport, is the handshake still to be settled?\<close>

datatype state_change = NowConnecting | NowConnected | NowDisconnected client_error

datatype effect =
    TransportRequested nat
  | FrameSent nat "byte list"
  | TransportClosed nat
  | HandshakeSettled nat "client_error + js_value"
  | StateChanged state_change

record connection =
  lifecycle :: lifecycle
  connectionSequence :: nat
  frameLimit :: js_number
  serverDecoders :: "nat \<Rightarrow> message_decoder option"
  effects :: "effect list"

text \<open>The callbacks the owner passes; the first one may throw.\<close>

record 'c connection_owner =
  onHandshake :: "js_value \<Rightarrow> 'c \<Rightarrow> client_error option \<times> 'c"
  onMessage :: "js_value \<Rightarrow> 'c \<Rightarrow> 'c"
  onStateChange :: "state_change \<Rightarrow> 'c \<Rightarrow> 'c"

definition happens :: "effect \<Rightarrow> 'z connection_scheme \<Rightarrow> 'z connection_scheme" where
  "happens e c = c\<lparr>effects := effects c @ [e]\<rparr>"

definition announce :: "'z connection_scheme connection_owner \<Rightarrow> state_change \<Rightarrow> 'z connection_scheme \<Rightarrow> 'z connection_scheme" where
  "announce own change c = onStateChange own change (happens (StateChanged change) c)"

definition attempt_of :: "lifecycle \<Rightarrow> nat option" where
  "attempt_of l = (case l of Offline \<Rightarrow> None | Connecting i t \<Rightarrow> Some i | Connected i t h \<Rightarrow> Some i)"

definition transport_of :: "lifecycle \<Rightarrow> nat option" where
  "transport_of l = (case l of Offline \<Rightarrow> None | Connecting i t \<Rightarrow> t | Connected i t h \<Rightarrow> Some t)"

definition pending_handshake :: "lifecycle \<Rightarrow> nat option" where
  "pending_handshake l =
     (case l of Offline \<Rightarrow> None | Connecting i t \<Rightarrow> Some i | Connected i t h \<Rightarrow> (if h then Some i else None))"

definition isCurrent :: "nat \<Rightarrow> 'z connection_scheme \<Rightarrow> bool" where
  "isCurrent i c \<longleftrightarrow> attempt_of (lifecycle c) = Some i"

subsection \<open>Failing\<close>

definition settle_handshake ::
  "nat option \<Rightarrow> client_error + js_value \<Rightarrow> 'z connection_scheme \<Rightarrow> 'z connection_scheme" where
  "settle_handshake h r c = (case h of None \<Rightarrow> c | Some i \<Rightarrow> happens (HandshakeSettled i r) c)"

definition fail_connection ::
  "'z connection_scheme connection_owner \<Rightarrow> client_error \<Rightarrow> 'z connection_scheme \<Rightarrow> 'z connection_scheme" where
  "fail_connection own e c =
     (if lifecycle c = Offline then c
      else announce own (NowDisconnected e)
        (settle_handshake (pending_handshake (lifecycle c)) (Inl e) (c\<lparr>lifecycle := Offline\<rparr>)))"

definition close_transport :: "nat option \<Rightarrow> 'z connection_scheme \<Rightarrow> 'z connection_scheme" where
  "close_transport t c = (case t of None \<Rightarrow> c | Some t \<Rightarrow> happens (TransportClosed t) c)"

definition failAndClose ::
  "'z connection_scheme connection_owner \<Rightarrow> client_error \<Rightarrow> 'z connection_scheme \<Rightarrow> 'z connection_scheme" where
  "failAndClose own e c = close_transport (transport_of (lifecycle c)) (fail_connection own e c)"

definition disconnect ::
  "'z connection_scheme connection_owner \<Rightarrow> client_error \<Rightarrow> 'z connection_scheme \<Rightarrow> 'z connection_scheme" where
  "disconnect own reason c = (if lifecycle c = Offline then c else failAndClose own reason c)"

subsection \<open>Connecting\<close>

text \<open>\<open>connect\<close> returns the handshake promise of the attempt, or a rejected one.\<close>

definition connect ::
  "'z connection_scheme connection_owner \<Rightarrow> 'z connection_scheme \<Rightarrow> (client_error + nat) \<times> 'z connection_scheme" where
  "connect own c =
     (case lifecycle c of
        Connecting i t \<Rightarrow> (Inl (DisconnectedError ''PiClient is already connecting''), c)
      | Connected i t h \<Rightarrow> (Inl (DisconnectedError ''PiClient is already connected''), c)
      | Offline \<Rightarrow>
          (let i = Suc (connectionSequence c); c = c\<lparr>connectionSequence := i\<rparr>
           in case newServerMessageDecoder (frameLimit c) of
                Inl e \<Rightarrow> (Inl (FrameLimitError e), c)
              | Inr d \<Rightarrow>
                  (Inr i, happens (TransportRequested i)
                     (announce own NowConnecting
                       (c\<lparr>lifecycle := Connecting i None, serverDecoders := (serverDecoders c)(i \<mapsto> d)\<rparr>)))))"

definition client_hello :: js_value where
  "client_hello = object_of [(''type'', JString (js_of ''hello'')), (''version'', JNumber (JInt PROTOCOL_VERSION))]"

text \<open>\<open>#openTransport\<close> after the factory returned a transport, and after it failed. A hello that cannot be sent
  is the operation \<open>hello_not_sent\<close>.\<close>

definition transport_opened ::
  "'z connection_scheme connection_owner \<Rightarrow> nat \<Rightarrow> nat \<Rightarrow> 'z connection_scheme \<Rightarrow> 'z connection_scheme" where
  "transport_opened own i t c =
     (if \<exists>s. lifecycle c = Connecting i s then
        (let c = c\<lparr>lifecycle := Connecting i (Some t)\<rparr>
         in case encodeClientMessage (frameLimit c) client_hello of
              Inl e \<Rightarrow> failAndClose own (toDisconnectedError (CodecError e)) c
            | Inr frame \<Rightarrow> happens (FrameSent t frame) c)
      else happens (TransportClosed t) c)"

definition transport_refused ::
  "'z connection_scheme connection_owner \<Rightarrow> nat \<Rightarrow> client_error \<Rightarrow> 'z connection_scheme \<Rightarrow> 'z connection_scheme" where
  "transport_refused own i e c = (if isCurrent i c then fail_connection own (toDisconnectedError e) c else c)"

definition hello_not_sent ::
  "'z connection_scheme connection_owner \<Rightarrow> nat \<Rightarrow> client_error \<Rightarrow> 'z connection_scheme \<Rightarrow> 'z connection_scheme" where
  "hello_not_sent own i e c = (if isCurrent i c then failAndClose own (toDisconnectedError e) c else c)"

subsection \<open>Sending\<close>

text \<open>\<open>refused\<close> is the error the transport throws when it is handed the frame, if it throws one.\<close>

definition send_frame ::
  "'z connection_scheme connection_owner \<Rightarrow> client_error option \<Rightarrow> byte list \<Rightarrow> 'z connection_scheme \<Rightarrow>
   client_error option \<times> 'z connection_scheme" where
  "send_frame own refused frame c =
     (case lifecycle c of
        Connected i t h \<Rightarrow>
          (None,
           (case refused of
              None \<Rightarrow> happens (FrameSent t frame) c
            | Some e \<Rightarrow> failAndClose own (toDisconnectedError e) c))
      | _ \<Rightarrow> (Some (DisconnectedError ''Pi client is disconnected''), c))"

text \<open>The promise of a send is rejected later: the connection fails if it still uses that transport.\<close>

definition sending_failed ::
  "'z connection_scheme connection_owner \<Rightarrow> nat \<Rightarrow> client_error \<Rightarrow> 'z connection_scheme \<Rightarrow> 'z connection_scheme" where
  "sending_failed own t e c =
     (if transport_of (lifecycle c) = Some t then failAndClose own (toDisconnectedError e) c else c)"

subsection \<open>Receiving\<close>

definition type_is :: "string \<Rightarrow> js_value \<Rightarrow> bool" where
  "type_is s m \<longleftrightarrow> value_field ''type'' m = JString (js_of s)"

definition handleMessage ::
  "'z connection_scheme connection_owner \<Rightarrow> js_value \<Rightarrow> 'z connection_scheme \<Rightarrow> 'z connection_scheme" where
  "handleMessage own m c =
     (case lifecycle c of
        Connecting i transport \<Rightarrow>
          if type_is ''hello_error'' m then failAndClose own (ServerRefusal (value_field ''error'' m)) c
          else if \<not> type_is ''hello'' m then failAndClose own (ValidationError ''Expected server hello as first message'') c
          else (case transport of
              None \<Rightarrow> failAndClose own (ValidationError ''Received server hello before the client hello was sent'') c
            | Some t \<Rightarrow>
                (let connected = Connected i t True; snapshot = value_field ''snapshot'' m
                 in case onHandshake own snapshot (c\<lparr>lifecycle := connected\<rparr>) of
                      (Some e, c) \<Rightarrow> if lifecycle c = connected then failAndClose own e c else c
                    | (None, c) \<Rightarrow>
                        if lifecycle c \<noteq> connected then c
                        else (let c = announce own NowConnected c
                              in if lifecycle c \<noteq> connected then c
                                 else happens (HandshakeSettled i (Inr snapshot)) (c\<lparr>lifecycle := Connected i t False\<rparr>))))
      | Connected i t h \<Rightarrow>
          if type_is ''hello'' m \<or> type_is ''hello_error'' m then failAndClose own (ValidationError ''Unexpected handshake message'') c
          else onMessage own m c
      | Offline \<Rightarrow> c)"

text \<open>The loop of \<open>#handleData\<close> over the messages of a chunk.\<close>

fun handle_messages ::
  "'z connection_scheme connection_owner \<Rightarrow> js_value list \<Rightarrow> 'z connection_scheme \<Rightarrow> 'z connection_scheme" where
  "handle_messages own [] c = c"
| "handle_messages own (m # ms) c = (if lifecycle c = Offline then c else handle_messages own ms (handleMessage own m c))"

definition handleData ::
  "'z connection_scheme connection_owner \<Rightarrow> nat \<Rightarrow> byte list \<Rightarrow> 'z connection_scheme \<Rightarrow> 'z connection_scheme" where
  "handleData own i chunk c =
     (if \<not> isCurrent i c then c
      else if lifecycle c = Connecting i None then
        failAndClose own (ValidationError ''Received server data before the client hello was sent'') c
      else (case serverDecoders c i of
          None \<Rightarrow> c
        | Some d \<Rightarrow>
            (case pushServerMessages d chunk of
               Inl (e, d) \<Rightarrow> failAndClose own (CodecError e) (c\<lparr>serverDecoders := (serverDecoders c)(i \<mapsto> d)\<rparr>)
             | Inr (messages, d) \<Rightarrow> handle_messages own messages (c\<lparr>serverDecoders := (serverDecoders c)(i \<mapsto> d)\<rparr>))))"

definition handleClose :: "'z connection_scheme connection_owner \<Rightarrow> nat \<Rightarrow> 'z connection_scheme \<Rightarrow> 'z connection_scheme" where
  "handleClose own i c =
     (if \<not> isCurrent i c then c
      else (case serverDecoders c i of
          None \<Rightarrow> c
        | Some d \<Rightarrow>
            (case endMessages d of
               Inl (e, d) \<Rightarrow> fail_connection own (CodecError e) (c\<lparr>serverDecoders := (serverDecoders c)(i \<mapsto> d)\<rparr>)
             | Inr d \<Rightarrow>
                 fail_connection own (DisconnectedError ''Byte transport closed'') (c\<lparr>serverDecoders := (serverDecoders c)(i \<mapsto> d)\<rparr>))))"

definition transport_error ::
  "'z connection_scheme connection_owner \<Rightarrow> nat \<Rightarrow> client_error \<Rightarrow> 'z connection_scheme \<Rightarrow> 'z connection_scheme" where
  "transport_error own i e c = (if isCurrent i c then failAndClose own (toDisconnectedError e) c else c)"

subsection \<open>What an observer of the connection sees\<close>

text \<open>The phases that the state changes tell of, and the settlements of a handshake.\<close>

datatype phase = PhaseOffline | PhaseConnecting | PhaseConnected

fun next_phase :: "phase \<Rightarrow> state_change \<Rightarrow> phase option" where
  "next_phase PhaseOffline NowConnecting = Some PhaseConnecting"
| "next_phase PhaseConnecting NowConnected = Some PhaseConnected"
| "next_phase PhaseConnecting (NowDisconnected e) = Some PhaseOffline"
| "next_phase PhaseConnected (NowDisconnected e) = Some PhaseOffline"
| "next_phase _ _ = None"

fun phase_after :: "phase \<Rightarrow> effect list \<Rightarrow> phase option" where
  "phase_after p [] = Some p"
| "phase_after p (StateChanged s # es) = Option.bind (next_phase p s) (\<lambda>q. phase_after q es)"
| "phase_after p (_ # es) = phase_after p es"

fun settles :: "nat \<Rightarrow> effect \<Rightarrow> bool" where
  "settles i (HandshakeSettled j r) = (j = i)"
| "settles i _ = False"

fun settlements :: "nat \<Rightarrow> effect list \<Rightarrow> nat" where
  "settlements i [] = 0"
| "settlements i (e # es) = (if settles i e then 1 else 0) + settlements i es"

fun in_phase :: "phase \<Rightarrow> lifecycle \<Rightarrow> bool" where
  "in_phase PhaseOffline l = (l = Offline)"
| "in_phase PhaseConnecting l = (case l of Connecting i t \<Rightarrow> True | Connected i t h \<Rightarrow> h | Offline \<Rightarrow> False)"
| "in_phase PhaseConnected l = (case l of Connected i t h \<Rightarrow> True | _ \<Rightarrow> False)"

text \<open>
  A connection is sound when each attempt has settled its handshake promise exactly once, unless it is the
  running attempt and the handshake is still open; the state changes its owner was told of follow the
  phases; and the running attempt is the newest one.
\<close>

definition sound_connection :: "'z connection_scheme \<Rightarrow> bool" where
  "sound_connection c \<longleftrightarrow>
     (\<exists>n. resolveMaxFrameLength (Some (frameLimit c)) = Inr n) \<and>
     (\<forall>i. settlements i (effects c) =
        (if 1 \<le> i \<and> i \<le> connectionSequence c \<and> pending_handshake (lifecycle c) \<noteq> Some i then 1 else 0)) \<and>
     (\<forall>i. attempt_of (lifecycle c) = Some i \<longrightarrow> 1 \<le> i \<and> i = connectionSequence c \<and> serverDecoders c i \<noteq> None) \<and>
     (\<exists>p. phase_after PhaseOffline (effects c) = Some p \<and> in_phase p (lifecycle c))"

definition stage :: "lifecycle \<Rightarrow> nat" where
  "stage l =
     (case l of Connecting i t \<Rightarrow> (if t = None then 0 else 1) | Connected i t h \<Rightarrow> (if h then 2 else 3) | Offline \<Rightarrow> 4)"

definition age :: "'z connection_scheme \<Rightarrow> nat" where
  "age c = 5 * connectionSequence c + stage (lifecycle c)"

definition state_changes :: "effect list \<Rightarrow> state_change list" where
  "state_changes es = concat (map (\<lambda>e. case e of StateChanged s \<Rightarrow> [s] | _ \<Rightarrow> []) es)"

text \<open>What every use of a connection keeps. As long as the age stays the same, so do the lifecycle and the
  announcements.\<close>

definition uses :: "'z connection_scheme \<Rightarrow> 'z connection_scheme \<Rightarrow> bool" where
  "uses c c' \<longleftrightarrow> (sound_connection c \<longrightarrow> sound_connection c' \<and> age c \<le> age c' \<and>
     (age c' = age c \<longrightarrow> lifecycle c' = lifecycle c \<and> state_changes (effects c') = state_changes (effects c)))"

subsection \<open>Every use of a connection keeps it sound\<close>

lemma phase_after_append: "phase_after p (es @ fs) = Option.bind (phase_after p es) (\<lambda>q. phase_after q fs)"
proof (induction es arbitrary: p)
  case (Cons e es)
  then show ?case by (cases e) (simp_all split: Option.bind_split)
qed simp

lemma settlements_append [simp]: "settlements i (es @ fs) = settlements i es + settlements i fs"
  by (induction es) auto

lemma state_changes_append [simp]: "state_changes (es @ fs) = state_changes es @ state_changes fs"
  by (simp add: state_changes_def)

lemma happens_simps [simp]:
  "lifecycle (happens e c) = lifecycle c" "connectionSequence (happens e c) = connectionSequence c"
  "frameLimit (happens e c) = frameLimit c" "serverDecoders (happens e c) = serverDecoders c"
  "effects (happens e c) = effects c @ [e]" "age (happens e c) = age c"
  by (simp_all add: happens_def age_def)

lemma uses_refl [simp, intro]: "uses c c"
  by (simp add: uses_def)

lemma uses_trans [trans]: "uses c d \<Longrightarrow> uses d e \<Longrightarrow> uses c e"
  by (simp add: uses_def) (metis le_antisym le_trans)

definition advances :: "'z connection_scheme \<Rightarrow> 'z connection_scheme \<Rightarrow> bool" where
  "advances c c' \<longleftrightarrow> (sound_connection c \<longrightarrow> sound_connection c' \<and> age c < age c')"

lemma advances_uses [intro]: "advances c d \<Longrightarrow> uses c d"
  by (auto simp: advances_def uses_def)

lemma advances_trans: "advances c d \<Longrightarrow> uses d e \<Longrightarrow> advances c e"
  by (auto simp: advances_def uses_def)

lemma uses_advances: "uses c d \<Longrightarrow> advances d e \<Longrightarrow> advances c e"
  by (auto simp: advances_def uses_def)

fun outward :: "effect \<Rightarrow> bool" where
  "outward (HandshakeSettled i r) = False"
| "outward (StateChanged s) = False"
| "outward _ = True"

lemma uses_happens: "outward e \<Longrightarrow> uses c (happens e c)"
  by (cases e)
    (auto simp: uses_def sound_connection_def phase_after_append state_changes_def bind_eq_Some_conv)

lemma uses_close_transport: "uses c (close_transport t c)"
  by (cases t) (auto simp: close_transport_def intro: uses_happens)

lemma uses_decoder: "uses c (c\<lparr>serverDecoders := (serverDecoders c)(i \<mapsto> d)\<rparr>)"
  by (auto simp: uses_def sound_connection_def age_def)

text \<open>Ending an attempt, up to the call of the owner.\<close>

lemma ended_sound:
  assumes "sound_connection c" and "lifecycle c \<noteq> Offline"
  shows "sound_connection (happens (StateChanged (NowDisconnected e))
      (settle_handshake (pending_handshake (lifecycle c)) (Inl e) (c\<lparr>lifecycle := Offline\<rparr>)))"
proof -
  let ?c = "happens (StateChanged (NowDisconnected e))
      (settle_handshake (pending_handshake (lifecycle c)) (Inl e) (c\<lparr>lifecycle := Offline\<rparr>))"
  obtain p where p: "phase_after PhaseOffline (effects c) = Some p" "in_phase p (lifecycle c)"
    using assms(1) by (auto simp: sound_connection_def)
  with assms(2) have "next_phase p (NowDisconnected e) = Some PhaseOffline"
    by (cases p) (auto split: lifecycle.splits)
  with p have "phase_after PhaseOffline (effects ?c) = Some PhaseOffline"
    by (auto simp: settle_handshake_def phase_after_append split: option.splits)
  moreover have "settlements i (effects ?c) = (if 1 \<le> i \<and> i \<le> connectionSequence c then 1 else 0)" for i
    using assms
    by (auto simp: sound_connection_def settle_handshake_def pending_handshake_def attempt_of_def
        split: lifecycle.splits if_splits)
  ultimately show ?thesis using assms(1)
    by (auto simp: sound_connection_def settle_handshake_def pending_handshake_def attempt_of_def split: option.splits)
qed

lemma ended_age:
  "lifecycle c \<noteq> Offline \<Longrightarrow>
   age c < age (happens (StateChanged (NowDisconnected e)) (settle_handshake h r (c\<lparr>lifecycle := Offline\<rparr>)))"
  by (auto simp: age_def stage_def settle_handshake_def happens_def split: lifecycle.splits option.splits)

lemma ended_advances:
  "lifecycle c \<noteq> Offline \<Longrightarrow> advances c (happens (StateChanged (NowDisconnected e))
      (settle_handshake (pending_handshake (lifecycle c)) (Inl e) (c\<lparr>lifecycle := Offline\<rparr>)))"
  unfolding advances_def using ended_sound[of c e] ended_age[of c] by blast

locale connection_user =
  fixes own :: "'z connection_scheme connection_owner"
  assumes handshake_uses: "uses c (snd (onHandshake own snapshot c))"
    and message_uses: "uses c (onMessage own m c)"
    and change_uses: "uses c (onStateChange own s c)"
begin

lemma fail_advances: "lifecycle c \<noteq> Offline \<Longrightarrow> advances c (fail_connection own e c)"
  by (simp add: fail_connection_def announce_def advances_trans[OF ended_advances change_uses])

lemma fail_uses: "uses c (fail_connection own e c)"
proof (cases "lifecycle c = Offline")
  case True
  then show ?thesis by (simp add: fail_connection_def)
qed (auto intro: fail_advances)

lemma failAndClose_advances: "lifecycle c \<noteq> Offline \<Longrightarrow> advances c (failAndClose own e c)"
  unfolding failAndClose_def by (rule advances_trans[OF fail_advances uses_close_transport])

lemma failAndClose_uses: "uses c (failAndClose own e c)"
  unfolding failAndClose_def by (rule uses_trans[OF fail_uses uses_close_transport])

lemma disconnect_uses: "uses c (disconnect own e c)"
  by (simp add: disconnect_def failAndClose_uses)

lemma connect_uses: "uses c (snd (connect own c))"
proof (cases "lifecycle c = Offline")
  case True
  have "advances c (happens (StateChanged NowConnecting)
      (c\<lparr>connectionSequence := Suc (connectionSequence c), lifecycle := Connecting (Suc (connectionSequence c)) None,
        serverDecoders := (serverDecoders c)(Suc (connectionSequence c) \<mapsto> d)\<rparr>))" (is "advances c ?c") for d
  proof -
    have "sound_connection ?c" if "sound_connection c"
    proof -
      from that True obtain p where "phase_after PhaseOffline (effects c) = Some p" "in_phase p Offline"
        by (auto simp: sound_connection_def)
      moreover from this have "p = PhaseOffline" by (cases p) auto
      ultimately show ?thesis using that True
        by (auto simp: sound_connection_def phase_after_append attempt_of_def pending_handshake_def)
    qed
    then show ?thesis by (simp add: advances_def age_def stage_def True)
  qed
  then have advances: "advances c (happens (TransportRequested (Suc (connectionSequence c)))
      (announce own NowConnecting
        (c\<lparr>connectionSequence := Suc (connectionSequence c), lifecycle := Connecting (Suc (connectionSequence c)) None,
          serverDecoders := (serverDecoders c)(Suc (connectionSequence c) \<mapsto> d)\<rparr>)))" for d
    unfolding announce_def by (intro advances_trans[OF advances_trans[OF _ change_uses] uses_happens]) auto
  show ?thesis
  proof (cases "sound_connection c")
    case sound: True
    then obtain n where "resolveMaxFrameLength (Some (frameLimit c)) = Inr n"
      by (auto simp: sound_connection_def)
    from newServerMessageDecoder_valid[OF this] obtain d where "newServerMessageDecoder (frameLimit c) = Inr d" by blast
    with advances[of d] True show ?thesis by (simp add: connect_def Let_def advances_uses)
  qed (simp add: uses_def)
next
  case False
  then show ?thesis by (auto simp: connect_def split: lifecycle.splits)
qed

lemma transport_opened_uses:
  assumes "\<And>s. lifecycle c \<noteq> Connecting i (Some s)"
  shows "uses c (transport_opened own i t c)"
proof (cases "lifecycle c = Connecting i None")
  case True
  have "uses c (c\<lparr>lifecycle := Connecting i (Some t)\<rparr>)"
  proof -
    have "sound_connection (c\<lparr>lifecycle := Connecting i (Some t)\<rparr>)" if sound: "sound_connection c"
    proof -
      obtain p where p: "phase_after PhaseOffline (effects c) = Some p" "in_phase p (Connecting i None)"
        using sound True by (auto simp: sound_connection_def)
      then have "in_phase p (Connecting i (Some t))" by (cases p) auto
      with p(1) sound True show ?thesis by (auto simp: sound_connection_def attempt_of_def pending_handshake_def)
    qed
    then show ?thesis by (auto simp: uses_def age_def stage_def True)
  qed
  with True show ?thesis
    by (auto simp: transport_opened_def Let_def intro: uses_trans[OF _ failAndClose_uses] uses_trans[OF _ uses_happens] split: sum.splits)
next
  case False
  with assms have "\<nexists>s. lifecycle c = Connecting i s" by (metis not_None_eq)
  then show ?thesis by (simp add: transport_opened_def uses_happens)
qed

lemma environment_uses:
  "uses c (transport_refused own i e c)" "uses c (hello_not_sent own i e c)" "uses c (transport_error own i e c)"
  "uses c (sending_failed own t e c)"
  by (simp_all add: transport_refused_def hello_not_sent_def transport_error_def sending_failed_def fail_uses failAndClose_uses)

lemma send_frame_uses: "uses c (snd (send_frame own refused frame c))"
  by (auto simp: send_frame_def failAndClose_uses uses_happens split: lifecycle.splits option.splits)

lemma handleClose_uses: "uses c (handleClose own i c)"
  by (auto simp: handleClose_def intro: uses_trans[OF uses_decoder fail_uses] split: option.splits sum.splits)

end

text \<open>The phase depends on the announcements only.\<close>

lemma phase_of_changes:
  assumes "state_changes es = state_changes fs"
  shows "phase_after p es = phase_after p fs"
proof -
  have "phase_after p es = phase_after p (map StateChanged (state_changes es))" for es
  proof (induction es arbitrary: p)
    case (Cons e es)
    then show ?case by (cases e) (auto simp: state_changes_def)
  qed (simp add: state_changes_def)
  with assms show ?thesis by metis
qed

lemma same_attempt_age:
  assumes "sound_connection c" "sound_connection d" and "lifecycle c = lifecycle d" and "lifecycle c \<noteq> Offline"
  shows "age c = age d"
  using assms by (auto simp: sound_connection_def age_def attempt_of_def split: lifecycle.splits)

text \<open>The handshake, step by step: entering the connected state, announcing it, settling the promise.\<close>

lemma handshake_entered:
  assumes "lifecycle c = Connecting i (Some t)"
  shows "advances c (c\<lparr>lifecycle := Connected i t True\<rparr>)"
proof -
  have "sound_connection (c\<lparr>lifecycle := Connected i t True\<rparr>)" if sound: "sound_connection c"
  proof -
    obtain p where p: "phase_after PhaseOffline (effects c) = Some p" "in_phase p (Connecting i (Some t))"
      using sound assms by (auto simp: sound_connection_def)
    then have "in_phase p (Connected i t True)" by (cases p) auto
    with p(1) sound assms show ?thesis by (auto simp: sound_connection_def attempt_of_def pending_handshake_def)
  qed
  then show ?thesis by (auto simp: advances_def age_def stage_def assms)
qed

lemma handshake_announced:
  assumes "sound_connection c" and "lifecycle c = Connected i t True"
    and "phase_after PhaseOffline (effects c) = Some PhaseConnecting"
  shows "sound_connection (happens (StateChanged NowConnected) c)"
  using assms by (auto simp: sound_connection_def phase_after_append)

lemma handshake_settled:
  assumes "sound_connection c" and "lifecycle c = Connected i t True"
    and "phase_after PhaseOffline (effects c) = Some PhaseConnected"
  shows "sound_connection (happens (HandshakeSettled i r) (c\<lparr>lifecycle := Connected i t False\<rparr>))"
  using assms by (auto simp: sound_connection_def phase_after_append attempt_of_def pending_handshake_def)

context connection_user
begin

lemma hello_uses:
  assumes start: "lifecycle c = Connecting i (Some t)" and "type_is ''hello'' m" "\<not> type_is ''hello_error'' m"
  shows "uses c (handleMessage own m c)"
proof (cases "sound_connection c")
  case sound: True
  let ?connected = "Connected i t True" and ?s = "value_field ''snapshot'' m"
  define c1 where "c1 = c\<lparr>lifecycle := ?connected\<rparr>"
  obtain err c2 where c2: "onHandshake own ?s c1 = (err, c2)" by fastforce
  have c1: "advances c c1" "sound_connection c1"
    using handshake_entered[OF start] sound by (auto simp: c1_def advances_def)
  have c12: "uses c1 c2" using handshake_uses[of c1 ?s] c2 by simp
  then have "sound_connection c2" using c1 by (simp add: uses_def)
  have step: "handleMessage own m c =
      (case err of
         Some e \<Rightarrow> if lifecycle c2 = ?connected then failAndClose own e c2 else c2
       | None \<Rightarrow>
           if lifecycle c2 \<noteq> ?connected then c2
           else (let c = announce own NowConnected c2
                 in if lifecycle c \<noteq> ?connected then c
                    else happens (HandshakeSettled i (Inr ?s)) (c\<lparr>lifecycle := Connected i t False\<rparr>)))"
    using assms c2 by (simp add: handleMessage_def c1_def Let_def split: option.splits)
  show ?thesis
  proof (cases "lifecycle c2 = ?connected")
    case False
    with step advances_uses[OF advances_trans[OF c1(1) c12]] show ?thesis by (simp split: option.splits)
  next
    case returned: True
    show ?thesis
    proof (cases err)
      case (Some e)
      with step returned uses_trans[OF advances_uses[OF advances_trans[OF c1(1) c12]] failAndClose_uses] show ?thesis by simp
    next
      case None
      define c3 where "c3 = happens (StateChanged NowConnected) c2"
      define c4 where "c4 = onStateChange own NowConnected c3"
      obtain p where "phase_after PhaseOffline (effects c) = Some p" "in_phase p (Connecting i (Some t))"
        using sound start by (auto simp: sound_connection_def)
      moreover from this have "p = PhaseConnecting" by (cases p) auto
      moreover have "age c2 = age c1"
        using same_attempt_age[OF \<open>sound_connection c2\<close> c1(2)] returned by (simp add: c1_def)
      then have "state_changes (effects c2) = state_changes (effects c)"
        using c12 c1(2) by (simp add: uses_def c1_def)
      ultimately have phase2: "phase_after PhaseOffline (effects c2) = Some PhaseConnecting"
        using phase_of_changes by metis
      with \<open>sound_connection c2\<close> returned have c3: "sound_connection c3" "lifecycle c3 = ?connected"
        by (auto simp: c3_def intro: handshake_announced)
      have c34: "uses c3 c4" by (simp add: c4_def change_uses)
      then have "sound_connection c4" "age c1 \<le> age c4"
        using c3 \<open>age c2 = age c1\<close> by (auto simp: uses_def c3_def)
      then have c14: "uses c c4"
        using c1 sound by (auto simp: uses_def advances_def)
      show ?thesis
      proof (cases "lifecycle c4 = ?connected")
        case False
        with step returned None c14 show ?thesis by (simp add: announce_def c3_def c4_def Let_def)
      next
        case again: True
        have "age c4 = age c3"
          using same_attempt_age[OF \<open>sound_connection c4\<close> c3(1)] again c3(2) by simp
        then have "state_changes (effects c4) = state_changes (effects c3)"
          using c34 c3(1) by (simp add: uses_def)
        then have "phase_after PhaseOffline (effects c4) = Some PhaseConnected"
          using phase_of_changes[of "effects c4" "effects c3"] phase2 by (simp add: c3_def phase_after_append)
        from handshake_settled[OF \<open>sound_connection c4\<close> again this]
        have "advances c4 (happens (HandshakeSettled i (Inr ?s)) (c4\<lparr>lifecycle := Connected i t False\<rparr>))"
          by (simp add: advances_def age_def stage_def again)
        from uses_trans[OF c14 advances_uses[OF this]] step returned None again show ?thesis
          by (simp add: announce_def c3_def c4_def Let_def)
      qed
    qed
  qed
qed (simp add: uses_def)

lemma handleMessage_uses: "uses c (handleMessage own m c)"
proof (cases "lifecycle c")
  case (Connecting i t)
  show ?thesis
  proof (cases "type_is ''hello'' m \<and> \<not> type_is ''hello_error'' m \<and> t \<noteq> None")
    case True
    with Connecting hello_uses show ?thesis by auto
  next
    case False
    with Connecting show ?thesis by (auto simp: handleMessage_def failAndClose_uses)
  qed
qed (auto simp: handleMessage_def failAndClose_uses message_uses)

lemma handle_messages_uses: "uses c (handle_messages own ms c)"
proof (induction ms arbitrary: c)
  case (Cons m ms)
  then show ?case using uses_trans[OF handleMessage_uses Cons.IH] by simp
qed simp

lemma handleData_uses: "uses c (handleData own i chunk c)"
  by (auto simp: handleData_def failAndClose_uses
      intro: uses_trans[OF uses_decoder failAndClose_uses] uses_trans[OF uses_decoder handle_messages_uses]
      split: option.splits sum.splits)

end

subsection \<open>What an owner preserves, its connection preserves\<close>

definition is_connected :: "lifecycle \<Rightarrow> bool" where
  "is_connected l = (case l of Connected i t h \<Rightarrow> True | _ \<Rightarrow> False)"

text \<open>
  A relation between the states before and after, which the callbacks and the changes of the lifecycle
  respect. Losing the connection and telling the owner so count as one step: what depends on the connection
  may fail in between.
\<close>

locale connection_relation =
  fixes own :: "'z connection_scheme connection_owner"
    and R :: "'z connection_scheme \<Rightarrow> 'z connection_scheme \<Rightarrow> bool"
  assumes refl: "R c c"
    and trans: "R c d \<Longrightarrow> R d e \<Longrightarrow> R c e"
    and handshake: "R c (snd (onHandshake own snapshot c))"
    and message: "R c (onMessage own m c)"
    and change: "R c (onStateChange own s c)"
    and lost: "R c (onStateChange own (NowDisconnected err) (c\<lparr>lifecycle := Offline, effects := es\<rparr>))"
    and effect: "R c (c\<lparr>effects := es\<rparr>)"
    and decoder: "R c (c\<lparr>serverDecoders := ds\<rparr>)"
    and attempt: "\<not> is_connected (lifecycle c) \<Longrightarrow> R c (c\<lparr>connectionSequence := n, lifecycle := Connecting i t\<rparr>)"
    and connected: "R c (c\<lparr>lifecycle := Connected i u h\<rparr>)"
begin

lemma happens_related: "R c (happens e c)"
  unfolding happens_def by (rule effect)

lemma close_related: "R c (close_transport t c)"
  by (auto simp: close_transport_def refl happens_related split: option.splits)

lemma fail_related: "R c (fail_connection own e c)"
  using lost[of c e] by (auto simp: fail_connection_def refl announce_def settle_handshake_def happens_def split: option.splits)

lemma failAndClose_related: "R c (failAndClose own e c)"
  unfolding failAndClose_def by (rule trans[OF fail_related close_related])

lemma announce_related: "R c (announce own s c)"
  unfolding announce_def by (rule trans[OF happens_related change])

lemma environment_related:
  "R c (disconnect own e c)" "R c (transport_refused own i e c)" "R c (hello_not_sent own i e c)"
  "R c (transport_error own i e c)" "R c (sending_failed own t e c)"
  by (simp_all add: disconnect_def transport_refused_def hello_not_sent_def transport_error_def sending_failed_def
      refl fail_related failAndClose_related)

lemma send_frame_related: "R c (snd (send_frame own refused frame c))"
  by (auto simp: send_frame_def refl failAndClose_related happens_related split: lifecycle.splits option.splits)

lemma connect_related:
  assumes "lifecycle c = Offline \<Longrightarrow> \<exists>d. newServerMessageDecoder (frameLimit c) = Inr d"
  shows "R c (snd (connect own c))"
proof (cases "lifecycle c = Offline")
  case True
  with assms obtain d where d: "newServerMessageDecoder (frameLimit c) = Inr d" by blast
  have "R c (c\<lparr>connectionSequence := i, lifecycle := Connecting i None, serverDecoders := (serverDecoders c)(i \<mapsto> d)\<rparr>)" for i
    using trans[OF attempt[where c = c and i = i and t = None and n = i] decoder[where ds = "(serverDecoders c)(i \<mapsto> d)"]] True
    by (simp add: is_connected_def)
  from trans[OF trans[OF this announce_related] happens_related] True d
  show ?thesis by (simp add: connect_def Let_def)
next
  case False
  then show ?thesis by (auto simp: connect_def refl split: lifecycle.splits)
qed

lemma transport_opened_related: "R c (transport_opened own i t c)"
proof (cases "\<exists>s. lifecycle c = Connecting i s")
  case True
  then have "R c (c\<lparr>lifecycle := Connecting i (Some t)\<rparr>)"
    using attempt[where c = c and i = i and t = "Some t" and n = "connectionSequence c"] by (auto simp: is_connected_def)
  with True show ?thesis
    by (auto simp: transport_opened_def Let_def split: sum.splits
        intro: trans[OF _ failAndClose_related] trans[OF _ happens_related])
next
  case False
  then show ?thesis by (simp add: transport_opened_def happens_related)
qed

lemma handleMessage_related: "R c (handleMessage own m c)"
proof (cases "lifecycle c")
  case (Connecting i transport)
  show ?thesis
  proof (cases "type_is ''hello'' m \<and> \<not> type_is ''hello_error'' m \<and> transport \<noteq> None")
    case True
    then obtain t where t: "transport = Some t" by auto
    let ?s = "value_field ''snapshot'' m" and ?l = "Connected i t True"
    obtain err d where d: "onHandshake own ?s (c\<lparr>lifecycle := ?l\<rparr>) = (err, d)" by fastforce
    with trans[OF connected[where c = c and i = i and u = t and h = True] handshake[where snapshot = ?s]] have cd: "R c d" by simp
    have settled: "R e (happens (HandshakeSettled i (Inr ?s)) (e\<lparr>lifecycle := Connected i t False\<rparr>))" for e
      by (rule trans[OF connected happens_related])
    from True Connecting t d show ?thesis
      by (auto simp: handleMessage_def Let_def cd split: option.splits
          intro: trans[OF cd failAndClose_related] trans[OF cd announce_related] trans[OF trans[OF cd announce_related] settled])
  next
    case False
    with Connecting show ?thesis by (auto simp: handleMessage_def failAndClose_related)
  qed
qed (auto simp: handleMessage_def refl failAndClose_related message)

lemma handle_messages_related: "R c (handle_messages own ms c)"
proof (induction ms arbitrary: c)
  case (Cons m ms)
  then show ?case using trans[OF handleMessage_related Cons.IH] by (simp add: refl)
qed (simp add: refl)

lemma handleData_related: "R c (handleData own i chunk c)"
  by (auto simp: handleData_def refl failAndClose_related split: option.splits sum.splits
      intro: trans[OF decoder failAndClose_related] trans[OF decoder handle_messages_related])

lemma handleClose_related: "R c (handleClose own i c)"
  by (auto simp: handleClose_def refl split: option.splits sum.splits intro: trans[OF decoder fail_related])

end

subsection \<open>Messages of an attempt that has ended\<close>

text \<open>
  The loop of \<open>#handleData\<close> only stops when the connection is offline. A callback that disconnects and connects
  again while a chunk with several messages is handled therefore gets the rest of the old chunk judged
  against the new attempt, which has not even a transport: the attempt fails at once.
\<close>

definition quiet_owner :: "unit connection_scheme connection_owner" where
  "quiet_owner = \<lparr>onHandshake = (\<lambda>s c. (None, c)), onMessage = (\<lambda>m c. c), onStateChange = (\<lambda>s c. c)\<rparr>"

definition reconnecting_owner :: "unit connection_scheme connection_owner" where
  "reconnecting_owner = quiet_owner
     \<lparr>onMessage := (\<lambda>m c. snd (connect quiet_owner (disconnect quiet_owner (DisconnectedError ''reconnect'') c)))\<rparr>"

definition event_message :: js_value where
  "event_message = object_of [(''type'', JString (js_of ''event''))]"

lemma stale_messages_fail_new_attempt:
  assumes "lifecycle c = Connected i t False" and "newServerMessageDecoder (frameLimit c) = Inr d"
  shows "\<exists>c'. handle_messages reconnecting_owner [event_message, event_message] c = c' \<and> lifecycle c' = Offline \<and>
    connectionSequence c' = Suc (connectionSequence c) \<and>
    HandshakeSettled (Suc (connectionSequence c)) (Inl (ValidationError ''Expected server hello as first message''))
      \<in> set (effects c')"
proof -
  have "\<not> type_is ''hello'' event_message" "\<not> type_is ''hello_error'' event_message"
    by (simp_all add: type_is_def event_message_def value_field_def object_of_def literal_def field_def)
  with assms show ?thesis
    by (simp add: handleMessage_def reconnecting_owner_def quiet_owner_def disconnect_def failAndClose_def fail_connection_def
        announce_def settle_handshake_def pending_handshake_def transport_of_def close_transport_def connect_def Let_def)
qed

end
