(* ===== verification/PiClient.thy ===== *)
theory PiClient
  imports ClientConnection
begin

section \<open>Requests and session leases of a client\<close>

text \<open>
  \<^verbatim>\<open>packages/client/src/client.ts\<close>: the requests a client has in flight, and the leases its users hold on
  sessions. Promises are numbers with a state in a store. A function that awaits a promise is a task; a task
  whose promise is settled resumes at any later time and in any order, so that whatever holds here holds
  for the order of the microtask queue.
\<close>

subsection \<open>State\<close>

datatype lease_mode = SharedLease | ExclusiveLease

datatype lease_state = LeaseActive | LeaseReleasing | LeaseReleased | LeaseInvalidated

datatype lease_token = LeaseToken nat lease_mode

record lease =
  leaseSession :: js_string
  leaseToken :: lease_token
  leaseGeneration :: nat
  leaseState :: lease_state
  releasePromise :: "nat option"

datatype outcome = Returned js_value | LeaseGranted nat | NoValue

datatype promise = Pending | Fulfilled outcome | Rejected client_error

text \<open>What is suspended at an \<open>await\<close>: the promise waited for comes before the promise to settle in the end.\<close>

datatype task =
    Creating nat nat
  | AcquireDetaching js_string lease_token nat nat
  | AcquireReconciling js_string lease_token nat nat
  | AcquireAttaching js_string lease_token nat nat
  | Attaching js_string "js_value option" nat nat      \<comment> \<open>with the snapshot that was forgotten\<close>
  | Releasing nat bool nat nat                          \<comment> \<open>lease, relinquish on failure\<close>
  | ReleaseFailed nat bool client_error nat
  | Reconciling js_string nat nat
  | Reconciled js_string "client_error option" nat

record client = connection +
  view :: client_view
  pendingRequests :: "(js_string \<times> js_value \<times> nat) list"
  sessionLeaseCounts :: "(js_string \<times> nat) list"
  exclusiveSessionLeases :: "(js_string \<times> lease_token) list"
  sessionLeaseGenerations :: "(js_string \<times> nat) list"
  sessionAttachments :: "(js_string \<times> nat) list"
  sessionDetachments :: "(js_string \<times> nat) list"
  sessionCleanupRequired :: "js_string set"
  sessionReconciliations :: "(js_string \<times> nat) list"
  connectionStateListeners :: "nat list"
  requestSequence :: nat
  disposed :: bool
  promises :: "nat \<Rightarrow> promise"
  nextPromise :: nat
  nextToken :: nat
  leases :: "lease list"
  tasks :: "task list"
  deliveries :: "delivery list"
  stateNotices :: "(nat \<times> state_change) list"

definition count_of_leases :: "js_string \<Rightarrow> client \<Rightarrow> nat" where
  "count_of_leases s c = (case map_of (sessionLeaseCounts c) s of None \<Rightarrow> 0 | Some n \<Rightarrow> n)"

definition generation_of :: "js_string \<Rightarrow> client \<Rightarrow> nat" where
  "generation_of s c = (case map_of (sessionLeaseGenerations c) s of None \<Rightarrow> 0 | Some n \<Rightarrow> n)"

subsection \<open>Promises\<close>

definition new_promise :: "client \<Rightarrow> nat \<times> client" where
  "new_promise c = (nextPromise c, c\<lparr>nextPromise := Suc (nextPromise c), promises := (promises c)(nextPromise c := Pending)\<rparr>)"

definition settle :: "nat \<Rightarrow> promise \<Rightarrow> client \<Rightarrow> client" where
  "settle p r c = (if promises c p = Pending then c\<lparr>promises := (promises c)(p := r)\<rparr> else c)"

definition suspend :: "task \<Rightarrow> client \<Rightarrow> client" where
  "suspend t c = c\<lparr>tasks := tasks c @ [t]\<rparr>"

definition deliver :: "delivery list \<times> client_view \<Rightarrow> client \<Rightarrow> client" where
  "deliver r c = c\<lparr>view := snd r, deliveries := deliveries c @ fst r\<rparr>"

subsection \<open>Counting leases\<close>

text \<open>\<open>#reserveSessionLease\<close> throws or returns a token.\<close>

definition reserveSessionLease :: "js_string \<Rightarrow> lease_mode \<Rightarrow> client \<Rightarrow> client_error + (lease_token \<times> client)" where
  "reserveSessionLease s mode c =
     (let count = count_of_leases s c
      in if mode = ExclusiveLease \<and> 0 < count then
           Inl (OwnershipError s ''already has an active lease'')
         else if mode = SharedLease \<and> map_of (exclusiveSessionLeases c) s \<noteq> None then
           Inl (OwnershipError s ''has an exclusive lease'')
         else
           (let token = LeaseToken (nextToken c) mode;
                c = c\<lparr>nextToken := Suc (nextToken c), sessionLeaseCounts := AList.update s (count + 1) (sessionLeaseCounts c)\<rparr>
            in Inr (token, if mode = ExclusiveLease
                 then c\<lparr>exclusiveSessionLeases := AList.update s token (exclusiveSessionLeases c)\<rparr> else c)))"

definition releaseSessionLease :: "js_string \<Rightarrow> lease_token \<Rightarrow> client \<Rightarrow> client" where
  "releaseSessionLease s token c =
     (let count = count_of_leases s c;
          c = (if count \<le> 1 then c\<lparr>sessionLeaseCounts := AList.delete s (sessionLeaseCounts c)\<rparr>
               else c\<lparr>sessionLeaseCounts := AList.update s (count - 1) (sessionLeaseCounts c)\<rparr>)
      in if map_of (exclusiveSessionLeases c) s = Some token
         then c\<lparr>exclusiveSessionLeases := AList.delete s (exclusiveSessionLeases c)\<rparr> else c)"

definition invalidateSessionLeases :: "js_string \<Rightarrow> client \<Rightarrow> client" where
  "invalidateSessionLeases s c =
     c\<lparr>sessionLeaseCounts := AList.delete s (sessionLeaseCounts c),
       exclusiveSessionLeases := AList.delete s (exclusiveSessionLeases c),
       sessionCleanupRequired := sessionCleanupRequired c - {s},
       sessionLeaseGenerations := AList.update s (generation_of s c + 1) (sessionLeaseGenerations c)\<rparr>"

definition invalidateAllSessionLeases :: "client \<Rightarrow> client" where
  "invalidateAllSessionLeases c =
     (fold invalidateSessionLeases (map fst (sessionLeaseCounts c)) c)\<lparr>sessionCleanupRequired := {}\<rparr>"

subsection \<open>The callbacks of the connection\<close>

definition rejectPendingRequests :: "client_error \<Rightarrow> client \<Rightarrow> client" where
  "rejectPendingRequests e c =
     fold (\<lambda>(i, command, p). settle p (Rejected e)) (pendingRequests c) (c\<lparr>pendingRequests := []\<rparr>)"

definition handleConnectionStateChange :: "state_change \<Rightarrow> client \<Rightarrow> client" where
  "handleConnectionStateChange change c =
     (let c = (case change of
          NowDisconnected e \<Rightarrow>
            rejectPendingRequests e (invalidateAllSessionLeases (c\<lparr>view := clearAttachments (view c)\<rparr>))
        | _ \<Rightarrow> c)
      in c\<lparr>stateNotices := stateNotices c @ map (\<lambda>l. (l, change)) (connectionStateListeners c)\<rparr>)"

text \<open>Failing needs only the first two callbacks; the third one may make the connection fail.\<close>

definition client_basics :: "client connection_owner" where
  "client_basics =
     \<lparr>onHandshake = (\<lambda>snapshot c. (None, deliver (applyServerSnapshot snapshot (view c)) c)),
      onMessage = (\<lambda>m c. c), onStateChange = handleConnectionStateChange\<rparr>"

definition takePendingRequest :: "js_string \<Rightarrow> client \<Rightarrow> (js_value \<times> nat) option \<times> client" where
  "takePendingRequest i c = (map_of (pendingRequests c) i, c\<lparr>pendingRequests := AList.delete i (pendingRequests c)\<rparr>)"

definition command_of :: "js_value \<Rightarrow> js_value" where
  "command_of v = value_field ''command'' v"

definition handle_response :: "js_value \<Rightarrow> client \<Rightarrow> client" where
  "handle_response m c =
     (case takePendingRequest (string_field ''id'' m) c of
        (None, c) \<Rightarrow> failAndClose client_basics (ValidationError ''Response has no matching request'') c
      | (Some (command, p), c) \<Rightarrow>
          if value_field ''ok'' m \<noteq> JBool True then settle p (Rejected (ServerRefusal (value_field ''error'' m))) c
          else (let result = value_field ''result'' m
                in if command_of result \<noteq> command_of command then
                     (let e = ValidationError ''Response command does not match''
                      in failAndClose client_basics e (settle p (Rejected e) c))
                   else settle p (Fulfilled (Returned result)) (deliver (applyResult result (view c)) c)))"

definition handle_event :: "js_value \<Rightarrow> client \<Rightarrow> client" where
  "handle_event e c =
     (let c = (if event_is ''session_removed'' e then invalidateSessionLeases (string_field ''sessionId'' e) c else c)
      in deliver (applyEvent e (view c)) c)"

definition handle_client_message :: "js_value \<Rightarrow> client \<Rightarrow> client" where
  "handle_client_message m c = (if type_is ''event'' m then handle_event (value_field ''event'' m) c else handle_response m c)"

definition client_owner :: "client connection_owner" where
  "client_owner = client_basics\<lparr>onMessage := handle_client_message\<rparr>"

subsection \<open>Requests\<close>

definition request_id :: "nat \<Rightarrow> js_string" where
  "request_id n = js_of (''request-'' @ show_nat n)"

definition request_message :: "js_string \<Rightarrow> js_value \<Rightarrow> js_value" where
  "request_message i command =
     object_of [(''type'', JString (js_of ''request'')), (''id'', JString i), (''request'', command)]"

text \<open>\<open>#request\<close> gives a promise; \<open>refused\<close> is the error the transport throws for the frame, if it throws.\<close>

definition request :: "client_error option \<Rightarrow> js_value \<Rightarrow> client \<Rightarrow> nat \<times> client" where
  "request refused command c =
     (case new_promise c of (p, c) \<Rightarrow>
        if disposed c then (p, settle p (Rejected ClientDisposedError) c)
        else if \<not> (\<exists>i t h. lifecycle c = Connected i t h) then
          (p, settle p (Rejected (DisconnectedError ''Pi client is disconnected'')) c)
        else
          (let n = Suc (requestSequence c); i = request_id n;
               c = c\<lparr>requestSequence := n, pendingRequests := AList.update i (command, p) (pendingRequests c)\<rparr>
           in case encodeClientMessage (frameLimit c) (request_message i command) of
                Inl e \<Rightarrow> (p, settle p (Rejected (CodecError e)) (snd (takePendingRequest i c)))
              | Inr frame \<Rightarrow> (p, snd (send_frame client_owner refused frame c))))"

definition session_command :: "string \<Rightarrow> js_string \<Rightarrow> js_value" where
  "session_command command s = object_of [(''command'', JString (js_of command)), (''sessionId'', JString s)]"

subsection \<open>Acquiring a lease\<close>

definition createSessionLease :: "js_string \<Rightarrow> lease_token \<Rightarrow> nat \<Rightarrow> client \<Rightarrow> client" where
  "createSessionLease s token out c =
     (let generation = generation_of s c
      in settle out (Fulfilled (LeaseGranted (length (leases c))))
           (c\<lparr>sessionLeaseGenerations := AList.update s generation (sessionLeaseGenerations c),
              leases := leases c @ [\<lparr>leaseSession = s, leaseToken = token, leaseGeneration = generation,
                leaseState = LeaseActive, releasePromise = None\<rparr>]\<rparr>))"

text \<open>An acquisition that throws releases its token.\<close>

definition acquire_fails :: "js_string \<Rightarrow> lease_token \<Rightarrow> nat \<Rightarrow> client_error \<Rightarrow> client \<Rightarrow> client" where
  "acquire_fails s token out e c = settle out (Rejected e) (releaseSessionLease s token c)"

definition attachSession :: "client_error option \<Rightarrow> js_string \<Rightarrow> client \<Rightarrow> nat \<times> client" where
  "attachSession refused s c =
     (case forgetSessionSnapshot s (view c) of (previous, v) \<Rightarrow>
      case request refused (session_command ''attach'' s) (c\<lparr>view := v\<rparr>) of (req, c) \<Rightarrow>
      case new_promise c of (p, c) \<Rightarrow> (p, suspend (Attaching s previous req p) c))"

text \<open>\<open>acquireSession\<close> from where it knows whether a cleanup took place.\<close>

definition acquire_attach :: "client_error option \<Rightarrow> bool \<Rightarrow> js_string \<Rightarrow> lease_token \<Rightarrow> nat \<Rightarrow> client \<Rightarrow> client" where
  "acquire_attach refused reconciled s token out c =
     (if reconciled \<or> s \<notin> attachedSessionIds (view c) then
        (case map_of (sessionAttachments c) s of
           Some p \<Rightarrow> suspend (AcquireAttaching s token p out) c
         | None \<Rightarrow>
             (case attachSession refused s c of (p, c) \<Rightarrow>
                suspend (AcquireAttaching s token p out) (c\<lparr>sessionAttachments := AList.update s p (sessionAttachments c)\<rparr>)))
      else createSessionLease s token out c)"

definition reconcileSessionCleanup :: "client_error option \<Rightarrow> js_string \<Rightarrow> client \<Rightarrow> nat \<times> client" where
  "reconcileSessionCleanup refused s c =
     (case map_of (sessionReconciliations c) s of
        Some p \<Rightarrow> (p, c)
      | None \<Rightarrow>
          (case request refused (session_command ''detach'' s) c of (req, c) \<Rightarrow>
           case new_promise c of (p, c) \<Rightarrow>
             (p, suspend (Reconciling s req p) (c\<lparr>sessionReconciliations := AList.update s p (sessionReconciliations c)\<rparr>))))"

definition acquire_reconcile :: "client_error option \<Rightarrow> js_string \<Rightarrow> lease_token \<Rightarrow> nat \<Rightarrow> client \<Rightarrow> client" where
  "acquire_reconcile refused s token out c =
     (if s \<in> sessionCleanupRequired c then
        (case reconcileSessionCleanup refused s c of (p, c) \<Rightarrow> suspend (AcquireReconciling s token p out) c)
      else acquire_attach refused False s token out c)"

definition acquireSession :: "client_error option \<Rightarrow> js_string \<Rightarrow> lease_mode \<Rightarrow> client \<Rightarrow> nat \<times> client" where
  "acquireSession refused s mode c =
     (case new_promise c of (out, c) \<Rightarrow>
        (out,
         if disposed c then settle out (Rejected ClientDisposedError) c
         else (case reserveSessionLease s mode c of
             Inl e \<Rightarrow> settle out (Rejected e) c
           | Inr (token, c) \<Rightarrow>
               (case map_of (sessionDetachments c) s of
                  Some detachment \<Rightarrow> suspend (AcquireDetaching s token detachment out) c
                | None \<Rightarrow> acquire_reconcile refused s token out c))))"

definition createSession :: "client_error option \<Rightarrow> js_value \<Rightarrow> client \<Rightarrow> nat \<times> client" where
  "createSession refused command c =
     (case request refused command c of (req, c) \<Rightarrow>
      case new_promise c of (out, c) \<Rightarrow> (out, suspend (Creating req out) c))"

subsection \<open>Using and releasing a lease\<close>

definition refreshed :: "client \<Rightarrow> lease \<Rightarrow> lease" where
  "refreshed c l =
     (if (leaseState l = LeaseActive \<or> leaseState l = LeaseReleasing) \<and>
         map_of (sessionLeaseGenerations c) (leaseSession l) \<noteq> Some (leaseGeneration l)
      then l\<lparr>leaseState := LeaseInvalidated\<rparr> else l)"

definition set_lease :: "nat \<Rightarrow> lease \<Rightarrow> client \<Rightarrow> client" where
  "set_lease i l c = c\<lparr>leases := (leases c)[i := l]\<rparr>"

definition lease_active :: "client \<Rightarrow> lease \<Rightarrow> bool" where
  "lease_active c l \<longleftrightarrow> leaseState (refreshed c l) = LeaseActive \<and> leaseSession l \<in> attachedSessionIds (view c)"

definition assertActive :: "client \<Rightarrow> lease \<Rightarrow> client_error option" where
  "assertActive c l =
     (if disposed c then Some ClientDisposedError
      else if \<not> (\<exists>i t h. lifecycle c = Connected i t h) then Some (DisconnectedError ''Pi client is disconnected'')
      else if \<not> lease_active c l then Some (SessionDetachedError (leaseSession l))
      else None)"

text \<open>The callback \<open>request\<close> of a handle.\<close>

definition lease_request :: "client_error option \<Rightarrow> nat \<Rightarrow> js_value \<Rightarrow> client \<Rightarrow> (client_error + nat) \<times> client" where
  "lease_request refused i command c =
     (let l = leases c ! i; c = set_lease i (refreshed c l) c
      in case assertActive c l of
           Some e \<Rightarrow> (Inl e, c)
         | None \<Rightarrow> (case request refused command c of (p, c) \<Rightarrow> (Inr p, c)))"

text \<open>\<open>release\<close> throws, or returns a promise; \<open>None\<close> is the promise that is already resolved.\<close>

definition release_lease :: "client_error option \<Rightarrow> bool \<Rightarrow> nat \<Rightarrow> client \<Rightarrow> (client_error + nat option) \<times> client" where
  "release_lease refused relinquish i c =
     (let l = refreshed c (leases c ! i); s = leaseSession l; c = set_lease i l c
      in if leaseState l = LeaseReleased \<or> leaseState l = LeaseInvalidated then (Inr None, c)
         else if releasePromise l \<noteq> None then (Inr (releasePromise l), c)
         else (case assertActive c l of
             Some e \<Rightarrow> (Inl e, c)
           | None \<Rightarrow>
               (case new_promise c of (p, c) \<Rightarrow>
                let l = l\<lparr>leaseState := LeaseReleasing, releasePromise := Some p\<rparr>; c = set_lease i l c
                in if count_of_leases s c \<le> 1 then
                     (case request refused (session_command ''detach'' s) c of (req, c) \<Rightarrow>
                       (Inr (Some p), suspend (Releasing i relinquish req p)
                          (c\<lparr>sessionDetachments := AList.update s req (sessionDetachments c)\<rparr>)))
                   else
                     (Inr (Some p), settle p (Fulfilled NoValue)
                        (set_lease i (l\<lparr>leaseState := LeaseReleased\<rparr>) (releaseSessionLease s (leaseToken l) c))))))"

subsection \<open>Resuming\<close>

definition forget_promise :: "js_string \<Rightarrow> nat \<Rightarrow> (js_string \<times> nat) list \<Rightarrow> (js_string \<times> nat) list" where
  "forget_promise s p ps = (if map_of ps s = Some p then AList.delete s ps else ps)"

definition resume_creating :: "outcome + client_error \<Rightarrow> nat \<Rightarrow> client \<Rightarrow> client" where
  "resume_creating r out c =
     (case r of
        Inl (Returned result) \<Rightarrow>
          (let s = string_field ''id'' (value_field ''session'' result)
           in case reserveSessionLease s ExclusiveLease c of
                Inl e \<Rightarrow> settle out (Rejected e) c
              | Inr (token, c) \<Rightarrow> createSessionLease s token out c)
      | Inl _ \<Rightarrow> c
      | Inr e \<Rightarrow> settle out (Rejected e) c)"

definition resume_attaching :: "outcome + client_error \<Rightarrow> js_value option \<Rightarrow> nat \<Rightarrow> client \<Rightarrow> client" where
  "resume_attaching r previous p c =
     (case r of
        Inl _ \<Rightarrow> settle p (Fulfilled NoValue) c
      | Inr e \<Rightarrow>
          settle p (Rejected e)
            (case previous of None \<Rightarrow> c | Some snapshot \<Rightarrow> c\<lparr>view := restoreSessionSnapshot snapshot (view c)\<rparr>))"

definition resume_acquire_attaching ::
  "outcome + client_error \<Rightarrow> js_string \<Rightarrow> lease_token \<Rightarrow> nat \<Rightarrow> nat \<Rightarrow> client \<Rightarrow> client" where
  "resume_acquire_attaching r s token p out c =
     (let c = c\<lparr>sessionAttachments := forget_promise s p (sessionAttachments c)\<rparr>
      in case r of Inl _ \<Rightarrow> createSessionLease s token out c | Inr e \<Rightarrow> acquire_fails s token out e c)"

definition resume_releasing :: "outcome + client_error \<Rightarrow> nat \<Rightarrow> bool \<Rightarrow> nat \<Rightarrow> nat \<Rightarrow> client \<Rightarrow> client" where
  "resume_releasing r i relinquish req p c =
     (let l = leases c ! i; s = leaseSession l; detached = forget_promise s req (sessionDetachments c)
      in case r of
           Inl _ \<Rightarrow>
             settle p (Fulfilled NoValue)
               (set_lease i (l\<lparr>leaseState := LeaseReleased\<rparr>)
                 ((releaseSessionLease s (leaseToken l) c)\<lparr>sessionDetachments := detached\<rparr>))
         | Inr e \<Rightarrow> suspend (ReleaseFailed i relinquish e p) (c\<lparr>sessionDetachments := detached\<rparr>))"

definition resume_release_failed :: "nat \<Rightarrow> bool \<Rightarrow> client_error \<Rightarrow> nat \<Rightarrow> client \<Rightarrow> client" where
  "resume_release_failed i relinquish e p c =
     (let l = refreshed c (leases c ! i); s = leaseSession l
      in if leaseState l = LeaseInvalidated then settle p (Fulfilled NoValue) (set_lease i l c)
         else if relinquish then
           (let c = releaseSessionLease s (leaseToken l) c
            in settle p (Rejected e)
                 (set_lease i (l\<lparr>leaseState := LeaseReleased\<rparr>) (c\<lparr>sessionCleanupRequired := insert s (sessionCleanupRequired c)\<rparr>)))
         else settle p (Rejected e) (set_lease i (l\<lparr>leaseState := LeaseActive, releasePromise := None\<rparr>) c))"

fun awaited :: "task \<Rightarrow> nat option" where
  "awaited (Creating req out) = Some req"
| "awaited (AcquireDetaching s token p out) = Some p"
| "awaited (AcquireReconciling s token p out) = Some p"
| "awaited (AcquireAttaching s token p out) = Some p"
| "awaited (Attaching s previous req p) = Some req"
| "awaited (Releasing i relinquish req p) = Some req"
| "awaited (ReleaseFailed i relinquish e p) = None"
| "awaited (Reconciling s req p) = Some req"
| "awaited (Reconciled s e p) = None"

definition ready :: "client \<Rightarrow> task \<Rightarrow> bool" where
  "ready c t \<longleftrightarrow> (case awaited t of None \<Rightarrow> True | Some p \<Rightarrow> promises c p \<noteq> Pending)"

definition result_of :: "client \<Rightarrow> task \<Rightarrow> outcome + client_error" where
  "result_of c t =
     (case awaited t of
        None \<Rightarrow> Inl NoValue
      | Some p \<Rightarrow> (case promises c p of Fulfilled v \<Rightarrow> Inl v | Rejected e \<Rightarrow> Inr e | Pending \<Rightarrow> Inl NoValue))"

fun resume_task :: "client_error option \<Rightarrow> outcome + client_error \<Rightarrow> task \<Rightarrow> client \<Rightarrow> client" where
  "resume_task refused r (Creating req out) c = resume_creating r out c"
| "resume_task refused r (AcquireDetaching s token p out) c = acquire_reconcile refused s token out c"
| "resume_task refused r (AcquireReconciling s token p out) c =
     (case r of Inl _ \<Rightarrow> acquire_attach refused True s token out c | Inr e \<Rightarrow> acquire_fails s token out e c)"
| "resume_task refused r (AcquireAttaching s token p out) c = resume_acquire_attaching r s token p out c"
| "resume_task refused r (Attaching s previous req p) c = resume_attaching r previous p c"
| "resume_task refused r (Releasing i relinquish req p) c = resume_releasing r i relinquish req p c"
| "resume_task refused r (ReleaseFailed i relinquish e p) c = resume_release_failed i relinquish e p c"
| "resume_task refused r (Reconciling s req p) c =
     (case r of
        Inl _ \<Rightarrow> suspend (Reconciled s None p) (c\<lparr>sessionCleanupRequired := sessionCleanupRequired c - {s}\<rparr>)
      | Inr e \<Rightarrow> suspend (Reconciled s (Some e) p) c)"
| "resume_task refused r (Reconciled s e p) c =
     settle p (case e of None \<Rightarrow> Fulfilled NoValue | Some e \<Rightarrow> Rejected e)
       (c\<lparr>sessionReconciliations := AList.delete s (sessionReconciliations c)\<rparr>)"

text \<open>The task at a position resumes: it leaves the list and goes on.\<close>

definition resume :: "client_error option \<Rightarrow> nat \<Rightarrow> client \<Rightarrow> client" where
  "resume refused k c =
     (let t = tasks c ! k
      in resume_task refused (result_of c t) t (c\<lparr>tasks := take k (tasks c) @ drop (Suc k) (tasks c)\<rparr>))"

subsection \<open>The client\<close>

definition client_connect :: "client \<Rightarrow> (client_error + nat) \<times> client" where
  "client_connect c =
     (if disposed c then (Inl ClientDisposedError, c)
      else connect client_owner (if lifecycle c = Offline then c\<lparr>view := reset (view c)\<rparr> else c))"

definition client_disconnect :: "string \<Rightarrow> client \<Rightarrow> client" where
  "client_disconnect reason c = disconnect client_owner (DisconnectedError reason) c"

definition onConnectionStateChange :: "nat \<Rightarrow> client \<Rightarrow> client" where
  "onConnectionStateChange l c =
     (if disposed c then c else c\<lparr>connectionStateListeners := add_to_set l (connectionStateListeners c)\<rparr>)"

definition dispose :: "client \<Rightarrow> client" where
  "dispose c =
     (if disposed c then c
      else
        (let c = rejectPendingRequests ClientDisposedError (c\<lparr>disposed := True\<rparr>);
             c = disconnect client_owner ClientDisposedError c
         in (invalidateAllSessionLeases (c\<lparr>view := dispose_view (view c)\<rparr>))\<lparr>connectionStateListeners := []\<rparr>))"

definition new_client :: "js_number \<Rightarrow> client" where
  "new_client limit =
     \<lparr>lifecycle = Offline, connectionSequence = 0, frameLimit = limit, serverDecoders = (\<lambda>_. None), effects = [],
      view = new_view, pendingRequests = [], sessionLeaseCounts = [], exclusiveSessionLeases = [],
      sessionLeaseGenerations = [], sessionAttachments = [], sessionDetachments = [], sessionCleanupRequired = {},
      sessionReconciliations = [], connectionStateListeners = [], requestSequence = 0, disposed = False,
      promises = (\<lambda>_. Pending), nextPromise = 0, nextToken = 0, leases = [], tasks = [], deliveries = [],
      stateNotices = []\<rparr>"

text \<open>What can happen to a client: calls of its users, events of its transports, and tasks that resume.\<close>

datatype client_action =
    Connect | Disconnect string | Dispose | Listen nat
  | TransportOpened nat nat | TransportRefused nat client_error | HelloNotSent nat client_error
  | DataArrived nat "byte list" | TransportEnded nat | TransportFailed nat client_error | SendingFailed nat client_error
  | Request "client_error option" js_value
  | Create "client_error option" js_value
  | Acquire "client_error option" js_string lease_mode
  | LeaseRequest "client_error option" nat js_value
  | Release "client_error option" bool nat
  | Resume "client_error option" nat

fun perform :: "client_action \<Rightarrow> client \<Rightarrow> client" where
  "perform Connect c = snd (client_connect c)"
| "perform (Disconnect reason) c = client_disconnect reason c"
| "perform Dispose c = dispose c"
| "perform (Listen l) c = onConnectionStateChange l c"
| "perform (TransportOpened i t) c = transport_opened client_owner i t c"
| "perform (TransportRefused i e) c = transport_refused client_owner i e c"
| "perform (HelloNotSent i e) c = hello_not_sent client_owner i e c"
| "perform (DataArrived i chunk) c = handleData client_owner i chunk c"
| "perform (TransportEnded i) c = handleClose client_owner i c"
| "perform (TransportFailed i e) c = transport_error client_owner i e c"
| "perform (SendingFailed t e) c = sending_failed client_owner t e c"
| "perform (Request refused command) c = snd (request refused command c)"
| "perform (Create refused command) c = snd (createSession refused command c)"
| "perform (Acquire refused s mode) c = snd (acquireSession refused s mode c)"
| "perform (LeaseRequest refused i command) c = snd (lease_request refused i command c)"
| "perform (Release refused relinquish i) c = snd (release_lease refused relinquish i c)"
| "perform (Resume refused k) c = resume refused k c"

text \<open>The factory answers an attempt once, leases exist, and only a task whose promise is settled resumes.\<close>

fun possible :: "client_action \<Rightarrow> client \<Rightarrow> bool" where
  "possible (TransportOpened i t) c = (case lifecycle c of Connecting j s \<Rightarrow> j = i \<longrightarrow> s = None | _ \<Rightarrow> True)"
| "possible (LeaseRequest refused i command) c = (i < length (leases c))"
| "possible (Release refused relinquish i) c = (i < length (leases c))"
| "possible (Resume refused k) c = (k < length (tasks c) \<and> ready c (tasks c ! k))"
| "possible _ c = True"

inductive client_reachable :: "client \<Rightarrow> bool" where
  start: "resolveMaxFrameLength (Some limit) = Inr n \<Longrightarrow> client_reachable (new_client limit)"
| step: "client_reachable c \<Longrightarrow> possible a c \<Longrightarrow> client_reachable (perform a c)"

subsection \<open>Every handshake is settled\<close>

named_theorems client_simps

lemma uses_unchanged:
  assumes "lifecycle d = lifecycle c" "connectionSequence d = connectionSequence c" "frameLimit d = frameLimit c"
    "serverDecoders d = serverDecoders c" "effects d = effects c"
  shows "uses c d"
  using assms by (simp add: uses_def sound_connection_def age_def)

definition same_connection :: "client \<Rightarrow> client \<Rightarrow> bool" where
  "same_connection c d \<longleftrightarrow> lifecycle d = lifecycle c \<and> connectionSequence d = connectionSequence c \<and>
     frameLimit d = frameLimit c \<and> serverDecoders d = serverDecoders c \<and> effects d = effects c"

lemma same_connection_uses: "same_connection c d \<Longrightarrow> uses c d"
  by (simp add: same_connection_def uses_unchanged)

lemma same_connection_refl [simp]: "same_connection c c"
  by (simp add: same_connection_def)

lemma same_connection_trans: "same_connection c d \<Longrightarrow> same_connection d e \<Longrightarrow> same_connection c e"
  by (simp add: same_connection_def)

lemma same_connection_fold:
  "(\<And>x d. same_connection d (f x d)) \<Longrightarrow> same_connection c (fold f xs c)"
  by (induction xs arbitrary: c) (auto intro: same_connection_trans)

lemma same_connection_simps [client_simps]:
  "same_connection c (settle p r c)" "same_connection c (suspend t c)" "same_connection c (deliver d c)"
  "same_connection c (releaseSessionLease s token c)" "same_connection c (invalidateSessionLeases s c)"
  "same_connection c (set_lease i l c)" "same_connection c (createSessionLease s token out c)"
  by (simp_all add: same_connection_def settle_def suspend_def deliver_def releaseSessionLease_def Let_def
      invalidateSessionLeases_def set_lease_def createSessionLease_def)

lemma same_connection_invalidateAll [client_simps]: "same_connection c (invalidateAllSessionLeases c)"
  using same_connection_fold[of invalidateSessionLeases c "map fst (sessionLeaseCounts c)"]
  by (simp add: invalidateAllSessionLeases_def client_simps) (simp add: same_connection_def)

lemma same_connection_rejectPending [client_simps]: "same_connection c (rejectPendingRequests e c)"
  using same_connection_fold[of "\<lambda>(i, command, p). settle p (Rejected e)" "c\<lparr>pendingRequests := []\<rparr>" "pendingRequests c"]
  by (auto simp: rejectPendingRequests_def client_simps) (simp add: same_connection_def)

lemma same_connection_change [client_simps]: "same_connection c (handleConnectionStateChange s c)"
proof (cases s)
  case (NowDisconnected e)
  let ?c = "c\<lparr>view := clearAttachments (view c)\<rparr>"
  have "same_connection c ?c" by (simp add: same_connection_def)
  from same_connection_trans[OF same_connection_trans[OF this same_connection_invalidateAll] same_connection_rejectPending]
  show ?thesis by (simp add: NowDisconnected handleConnectionStateChange_def Let_def same_connection_def)
qed (simp_all add: handleConnectionStateChange_def same_connection_def)

interpretation basics: connection_user client_basics
  by unfold_locales (simp_all add: client_basics_def same_connection_uses client_simps)

lemma handle_event_uses: "uses c (handle_event e c)"
  by (auto simp: handle_event_def Let_def client_simps intro!: same_connection_uses
      intro: same_connection_trans[OF same_connection_simps(5) same_connection_simps(3)])

lemma handle_response_uses: "uses c (handle_response m c)"
proof -
  have "same_connection c (c\<lparr>pendingRequests := ps\<rparr>)" "same_connection c (settle p r (c\<lparr>pendingRequests := ps\<rparr>))"
    "same_connection c (settle p r (deliver (applyResult x v) (c\<lparr>pendingRequests := ps\<rparr>)))" for p r x v ps
    by (simp_all add: same_connection_def settle_def deliver_def)
  then show ?thesis
    by (auto simp: handle_response_def takePendingRequest_def Let_def split: option.splits
        intro: same_connection_uses uses_trans[OF same_connection_uses basics.failAndClose_uses])
qed

lemma client_owner_simps:
  "onHandshake client_owner = onHandshake client_basics" "onStateChange client_owner = onStateChange client_basics"
  "onMessage client_owner = handle_client_message"
  by (simp_all add: client_owner_def)

interpretation piclient: connection_user client_owner
  by unfold_locales
    (auto simp: client_owner_simps basics.handshake_uses basics.change_uses handle_client_message_def handle_event_uses handle_response_uses)

text \<open>None of the client's own operations disturbs the connection.\<close>

named_theorems uses_intros

lemma uses_result [uses_intros]:
  "uses c (snd r) \<Longrightarrow> (\<And>x d. uses d (snd (f x d))) \<Longrightarrow> uses c (snd (case r of (x, d) \<Rightarrow> f x d))"
  by (auto split: prod.splits intro: uses_trans)

lemma uses_state [uses_intros]:
  "uses c (snd r) \<Longrightarrow> (\<And>x d. uses d (f x d)) \<Longrightarrow> uses c (case r of (x, d) \<Rightarrow> f x d)"
  by (auto split: prod.splits intro: uses_trans)

lemma uses_then [uses_intros]:
  "uses c d \<Longrightarrow> uses c (settle p r d)" "uses c d \<Longrightarrow> uses c (suspend t d)" "uses c d \<Longrightarrow> uses c (set_lease i l d)"
  "uses c d \<Longrightarrow> uses c (releaseSessionLease s token d)" "uses c d \<Longrightarrow> uses c (createSessionLease s token out d)"
  "uses c d \<Longrightarrow> uses c (invalidateAllSessionLeases d)" "uses c d \<Longrightarrow> uses c (rejectPendingRequests e d)"
  by - (erule uses_trans, rule same_connection_uses, rule client_simps)+

lemma uses_update [uses_intros]:
  fixes c d :: client
  shows "uses c d \<Longrightarrow> uses c (d\<lparr>view := v\<rparr>)" "uses c d \<Longrightarrow> uses c (d\<lparr>tasks := ts\<rparr>)" "uses c d \<Longrightarrow> uses c (d\<lparr>disposed := b\<rparr>)"
    "uses c d \<Longrightarrow> uses c (d\<lparr>sessionAttachments := a\<rparr>)" "uses c d \<Longrightarrow> uses c (d\<lparr>sessionDetachments := a\<rparr>)"
    "uses c d \<Longrightarrow> uses c (d\<lparr>sessionReconciliations := a\<rparr>)" "uses c d \<Longrightarrow> uses c (d\<lparr>sessionCleanupRequired := x\<rparr>)"
    "uses c d \<Longrightarrow> uses c (d\<lparr>connectionStateListeners := ls\<rparr>)" "uses c d \<Longrightarrow> uses c (d\<lparr>pendingRequests := ps\<rparr>)"
    "uses c d \<Longrightarrow> uses c (d\<lparr>requestSequence := n\<rparr>)"
  by - (erule uses_trans, rule uses_unchanged; simp)+

lemma new_promise_uses [uses_intros]: "uses c d \<Longrightarrow> uses c (snd (new_promise d))"
  by (erule uses_trans) (simp add: new_promise_def uses_unchanged)

lemma takePendingRequest_uses [uses_intros]: "uses c d \<Longrightarrow> uses c (snd (takePendingRequest i d))"
  by (auto simp: takePendingRequest_def intro: uses_update)

lemma send_uses [uses_intros]: "uses c d \<Longrightarrow> uses c (snd (send_frame client_owner refused frame d))"
  using uses_trans piclient.send_frame_uses by blast

lemma request_uses: "uses c (snd (request refused command c))"
  unfolding request_def Let_def by (intro uses_intros) (auto intro!: uses_intros split: sum.splits)

lemma request_after [uses_intros]: "uses c d \<Longrightarrow> uses c (snd (request refused command d))"
  using uses_trans request_uses by blast

lemma attachSession_uses [uses_intros]: "uses c d \<Longrightarrow> uses c (snd (attachSession refused s d))"
  unfolding attachSession_def forgetSessionSnapshot_def prod.case by (auto intro!: uses_intros)

lemma acquire_attach_uses [uses_intros]: "uses c d \<Longrightarrow> uses c (acquire_attach refused reconciled s token out d)"
  unfolding acquire_attach_def by (auto intro!: uses_intros split: option.splits)

lemma acquire_reconcile_uses [uses_intros]: "uses c d \<Longrightarrow> uses c (acquire_reconcile refused s token out d)"
  unfolding acquire_reconcile_def reconcileSessionCleanup_def by (auto intro!: uses_intros split: option.splits)

lemma reserve_uses: "reserveSessionLease s mode c = Inr (token, d) \<Longrightarrow> uses c d"
  by (auto simp: reserveSessionLease_def Let_def uses_unchanged split: if_splits)

lemma acquireSession_uses: "uses c (snd (acquireSession refused s mode c))"
  unfolding acquireSession_def
  by (intro uses_intros) (auto intro!: uses_intros split: sum.splits option.splits dest!: reserve_uses)

lemma createSession_uses: "uses c (snd (createSession refused command c))"
  unfolding createSession_def by (auto intro!: uses_intros)

lemma lease_request_uses: "uses c (snd (lease_request refused i command c))"
  unfolding lease_request_def Let_def by (auto intro!: uses_intros split: option.splits)

lemma release_lease_uses: "uses c (snd (release_lease refused relinquish i c))"
  unfolding release_lease_def Let_def by (auto intro!: uses_intros split: option.splits)

lemma resume_task_uses: "uses c d \<Longrightarrow> uses c (resume_task refused r t d)"
  by (cases t)
    (auto simp: resume_creating_def resume_attaching_def resume_acquire_attaching_def resume_releasing_def
        resume_release_failed_def acquire_fails_def Let_def intro!: uses_intros split: sum.splits outcome.splits option.splits
        dest: reserve_uses intro: uses_trans)

lemma perform_uses: "possible a c \<Longrightarrow> uses c (perform a c)"
proof (cases a)
  case Connect
  then show ?thesis
    by (auto simp: client_connect_def intro: piclient.connect_uses uses_trans[OF uses_update(1)[OF uses_refl] piclient.connect_uses])
next
  case Dispose
  then show ?thesis
    by (auto simp: dispose_def Let_def intro!: uses_intros intro: uses_trans[OF _ piclient.disconnect_uses])
next
  case (Resume refused k)
  then show ?thesis by (auto simp: resume_def Let_def intro!: resume_task_uses uses_intros)
next
  case (TransportOpened i t)
  moreover assume "possible a c"
  ultimately show ?thesis by (auto intro!: piclient.transport_opened_uses split: lifecycle.splits)
qed (auto simp: client_disconnect_def onConnectionStateChange_def piclient.disconnect_uses piclient.environment_uses
    piclient.handleData_uses piclient.handleClose_uses request_uses createSession_uses acquireSession_uses
    lease_request_uses release_lease_uses intro: uses_intros)

lemma reachable_sound: "client_reachable c \<Longrightarrow> sound_connection c"
proof (induction rule: client_reachable.induct)
  case (start limit n)
  then show ?case by (auto simp: new_client_def sound_connection_def attempt_of_def pending_handshake_def)
next
  case (step c a)
  with perform_uses[OF step.hyps(2)] show ?case by (simp add: uses_def)
qed

text \<open>C40: However a client is used and whatever its transports do, the promise of every connection attempt is
  settled exactly once, as soon as its handshake has succeeded or the attempt has failed, and the state
  changes the client announces follow the phases offline, connecting, connected and agree with its state.\<close>

theorem handshakes_settle_once:
  assumes "client_reachable c"
  shows "(\<forall>i. settlements i (effects c) =
      (if 1 \<le> i \<and> i \<le> connectionSequence c \<and> pending_handshake (lifecycle c) \<noteq> Some i then 1 else 0)) \<and>
    (\<exists>p. phase_after PhaseOffline (effects c) = Some p \<and> in_phase p (lifecycle c))"
  using reachable_sound[OF assms] unfolding sound_connection_def by blast

lemma new_client_valid: "resolveMaxFrameLength (Some (JInt 1000)) = Inr 1000"
  by (simp add: resolveMaxFrameLength_def MAX_UINT32_def MAX_SAFE_INTEGER_def)

lemma refused_attempt:
  "connectionSequence (perform (TransportRefused 1 (ForeignError ''no route'')) (perform Connect (new_client (JInt 1000)))) = 1 \<and>
   lifecycle (perform (TransportRefused 1 (ForeignError ''no route'')) (perform Connect (new_client (JInt 1000)))) = Offline"
proof -
  obtain d where "newServerMessageDecoder (JInt 1000) = Inr d"
    using newServerMessageDecoder_valid[OF new_client_valid] by blast
  then show ?thesis
    by (simp add: new_client_def client_connect_def connect_def announce_def client_owner_simps client_basics_def happens_def
        handleConnectionStateChange_def transport_refused_def isCurrent_def attempt_of_def fail_connection_def
        settle_handshake_def pending_handshake_def rejectPendingRequests_def invalidateAllSessionLeases_def)
qed

lemma handshakes_settle_once_witness:
  "\<exists>c. client_reachable c \<and> settlements 1 (effects c) = 1 \<and> lifecycle c = Offline"
proof -
  let ?c = "perform (TransportRefused 1 (ForeignError ''no route'')) (perform Connect (new_client (JInt 1000)))"
  have reachable: "client_reachable ?c"
    by (intro client_reachable.step client_reachable.start[OF new_client_valid]) simp_all
  from conjunct1[OF handshakes_settle_once[OF this]] refused_attempt
  have "settlements 1 (effects ?c) = 1" by (simp add: pending_handshake_def)
  with reachable refused_attempt show ?thesis by blast
qed

end
