(* ===== verification/ClientWaits.thy ===== *)
theory ClientWaits
  imports PiClient
begin

section \<open>No call of a client waits in vain\<close>

text \<open>
  Every promise that a suspended call of a client waits for is either settled, or a request in the table of
  pending requests, or to be settled by another suspended call that itself waits for a request. Losing the
  connection settles all requests, so then some suspended call can go on.
\<close>

subsection \<open>Who settles a promise\<close>

definition pending_promises :: "client \<Rightarrow> nat set" where
  "pending_promises c = (\<lambda>(i, command, p). p) ` set (pendingRequests c)"

definition request_covered :: "client \<Rightarrow> nat \<Rightarrow> bool" where
  "request_covered c p \<longleftrightarrow> promises c p \<noteq> Pending \<or> p \<in> pending_promises c"

definition attach_covered :: "client \<Rightarrow> nat \<Rightarrow> bool" where
  "attach_covered c p \<longleftrightarrow> promises c p \<noteq> Pending \<or> (\<exists>s v req. Attaching s v req p \<in> set (tasks c))"

definition reconcile_covered :: "client \<Rightarrow> nat \<Rightarrow> bool" where
  "reconcile_covered c p \<longleftrightarrow> promises c p \<noteq> Pending \<or>
     (\<exists>s req e. Reconciling s req p \<in> set (tasks c) \<or> Reconciled s e p \<in> set (tasks c))"

fun task_covered :: "client \<Rightarrow> task \<Rightarrow> bool" where
  "task_covered c (Creating req out) = (req < nextPromise c \<and> request_covered c req)"
| "task_covered c (AcquireDetaching s token p out) = (p < nextPromise c \<and> request_covered c p)"
| "task_covered c (AcquireReconciling s token p out) = (p < nextPromise c \<and> reconcile_covered c p)"
| "task_covered c (AcquireAttaching s token p out) = (p < nextPromise c \<and> attach_covered c p)"
| "task_covered c (Attaching s previous req p) = (req < nextPromise c \<and> request_covered c req)"
| "task_covered c (Releasing i relinquish req p) = (req < nextPromise c \<and> request_covered c req)"
| "task_covered c (ReleaseFailed i relinquish e p) = True"
| "task_covered c (Reconciling s req p) = (req < nextPromise c \<and> request_covered c req)"
| "task_covered c (Reconciled s e p) = True"

definition entries_covered :: "(client \<Rightarrow> nat \<Rightarrow> bool) \<Rightarrow> client \<Rightarrow> (js_string \<times> nat) list \<Rightarrow> bool" where
  "entries_covered covered c ps \<longleftrightarrow> (\<forall>p \<in> snd ` set ps. p < nextPromise c \<and> covered c p)"

definition waits_ok :: "client \<Rightarrow> bool" where
  "waits_ok c \<longleftrightarrow>
     distinct (map fst (pendingRequests c)) \<and>
     (\<forall>i \<in> fst ` set (pendingRequests c). \<exists>n \<le> requestSequence c. i = request_id n) \<and>
     (pendingRequests c \<noteq> [] \<longrightarrow> is_connected (lifecycle c)) \<and>
     (\<forall>t \<in> set (tasks c). task_covered c t) \<and>
     entries_covered attach_covered c (sessionAttachments c) \<and>
     entries_covered request_covered c (sessionDetachments c) \<and>
     entries_covered reconcile_covered c (sessionReconciliations c)"

text \<open>What is covered stays so.\<close>

definition still_covered :: "client \<Rightarrow> client \<Rightarrow> bool" where
  "still_covered c d \<longleftrightarrow> nextPromise c \<le> nextPromise d \<and>
     (\<forall>p < nextPromise c. (request_covered c p \<longrightarrow> request_covered d p) \<and> (attach_covered c p \<longrightarrow> attach_covered d p) \<and>
        (reconcile_covered c p \<longrightarrow> reconcile_covered d p))"

definition keeps_waits :: "client \<Rightarrow> client \<Rightarrow> bool" where
  "keeps_waits c d \<longleftrightarrow> (waits_ok c \<longrightarrow> waits_ok d \<and> still_covered c d)"

lemma still_covered_refl [simp]: "still_covered c c"
  by (simp add: still_covered_def)

lemma still_covered_trans: "still_covered c d \<Longrightarrow> still_covered d e \<Longrightarrow> still_covered c e"
  by (auto simp: still_covered_def)

lemma keeps_waits_refl [simp]: "keeps_waits c c"
  by (simp add: keeps_waits_def)

lemma keeps_waits_trans: "keeps_waits c d \<Longrightarrow> keeps_waits d e \<Longrightarrow> keeps_waits c e"
  by (auto simp: keeps_waits_def intro: still_covered_trans)

lemma still_covered_task: "still_covered c d \<Longrightarrow> task_covered c t \<Longrightarrow> task_covered d t"
  by (cases t) (auto simp: still_covered_def)

lemma still_covered_entries:
  assumes "still_covered c d"
  shows "entries_covered attach_covered c ps \<Longrightarrow> entries_covered attach_covered d ps"
    "entries_covered request_covered c ps \<Longrightarrow> entries_covered request_covered d ps"
    "entries_covered reconcile_covered c ps \<Longrightarrow> entries_covered reconcile_covered d ps"
  using assms by (auto simp: still_covered_def entries_covered_def)

text \<open>A change that keeps what is covered, the tasks and the maps, and treats the table well.\<close>

lemma keeps_waitsI:
  assumes "waits_ok c \<Longrightarrow> still_covered c d" and "set (tasks d) \<subseteq> set (tasks c)"
    and "sessionAttachments d = sessionAttachments c" "sessionDetachments d = sessionDetachments c"
    and "sessionReconciliations d = sessionReconciliations c"
    and "waits_ok c \<Longrightarrow> distinct (map fst (pendingRequests d)) \<and>
       (\<forall>i \<in> fst ` set (pendingRequests d). \<exists>n \<le> requestSequence d. i = request_id n) \<and>
       (pendingRequests d \<noteq> [] \<longrightarrow> is_connected (lifecycle d))"
  shows "keeps_waits c d"
proof (unfold keeps_waits_def, intro impI conjI)
  assume ok: "waits_ok c"
  show covered: "still_covered c d" by (rule assms(1)[OF ok])
  have "\<forall>t \<in> set (tasks d). task_covered d t"
    using ok assms(2) still_covered_task[OF covered] by (auto simp: waits_ok_def)
  with ok assms(6)[OF ok] show "waits_ok d"
    by (simp add: waits_ok_def assms(3-5) still_covered_entries[OF covered])
qed

lemma request_id_inj [simp]: "request_id m = request_id n \<longleftrightarrow> m = n"
proof
  assume "request_id m = request_id n"
  then have "js_of (show_nat m) = js_of (show_nat n)" by (simp add: request_id_def)
  then have "Some m = Some n" by (metis show_nat_digits)
  then show "m = n" by simp
qed simp

subsection \<open>The parts of the operations\<close>

named_theorems waits_intros

lemma waits_unchanged:
  assumes "promises d = promises c" "pendingRequests d = pendingRequests c" "tasks d = tasks c" "nextPromise d = nextPromise c"
    "sessionAttachments d = sessionAttachments c" "sessionDetachments d = sessionDetachments c"
    "sessionReconciliations d = sessionReconciliations c" "requestSequence d = requestSequence c"
    and "pendingRequests c = [] \<or> lifecycle d = lifecycle c \<or> is_connected (lifecycle d)"
  shows "keeps_waits c d"
  using assms(9)
  by (intro keeps_waitsI)
    (auto simp: assms(1-8) waits_ok_def still_covered_def request_covered_def attach_covered_def reconcile_covered_def pending_promises_def)

lemma settle_waits: "keeps_waits c (settle p r c)" if "r \<noteq> Pending"
  using that
  by (intro keeps_waitsI)
    (auto simp: settle_def waits_ok_def still_covered_def request_covered_def attach_covered_def reconcile_covered_def pending_promises_def)

lemma new_promise_waits: "keeps_waits c (snd (new_promise c))"
  by (intro keeps_waitsI)
    (auto simp: new_promise_def waits_ok_def still_covered_def request_covered_def attach_covered_def reconcile_covered_def pending_promises_def)

lemma suspend_still_covered: "still_covered c (suspend t c)"
  by (auto simp: suspend_def still_covered_def request_covered_def attach_covered_def reconcile_covered_def pending_promises_def)

lemma suspend_waits:
  assumes "task_covered c t"
  shows "keeps_waits c (suspend t c)"
proof (unfold keeps_waits_def, intro impI conjI)
  assume ok: "waits_ok c"
  show "waits_ok (suspend t c)"
    using ok still_covered_entries[OF suspend_still_covered, of c _ t] still_covered_task[OF suspend_still_covered, of c _ t] assms
    unfolding waits_ok_def by (simp add: suspend_def ball_Un)
qed (rule suspend_still_covered)

text \<open>Rejecting the table, and invalidating leases, in closed form.\<close>

lemma reject_all:
  "rejectPendingRequests e c =
     c\<lparr>pendingRequests := [],
       promises := (\<lambda>p. if promises c p = Pending \<and> p \<in> pending_promises c then Rejected e else promises c p)\<rparr>"
proof -
  have "fold (\<lambda>(i, command, p). settle p (Rejected e)) xs d =
      d\<lparr>promises := (\<lambda>p. if promises d p = Pending \<and> p \<in> (\<lambda>(i, command, p). p) ` set xs then Rejected e else promises d p)\<rparr>"
    for xs and d :: client
  proof (induction xs arbitrary: d)
    case (Cons x xs)
    obtain i command p where x: "x = (i, command, p)" by (cases x) auto
    then have "fold (\<lambda>(i, command, p). settle p (Rejected e)) (x # xs) d =
        fold (\<lambda>(i, command, p). settle p (Rejected e)) xs (settle p (Rejected e) d)" by simp
    also note Cons.IH
    also have "(settle p (Rejected e) d)\<lparr>promises := (\<lambda>q. if promises (settle p (Rejected e) d) q = Pending \<and>
          q \<in> (\<lambda>(i, command, p). p) ` set xs then Rejected e else promises (settle p (Rejected e) d) q)\<rparr> =
        d\<lparr>promises := (\<lambda>q. if promises d q = Pending \<and> q \<in> (\<lambda>(i, command, p). p) ` set (x # xs)
          then Rejected e else promises d q)\<rparr>"
      by (cases "promises d p = Pending")
        (auto simp: settle_def x intro!: arg_cong[where f = "\<lambda>f. d\<lparr>promises := f\<rparr>"])
    finally show ?case .
  qed simp
  from this[of "pendingRequests c" "c\<lparr>pendingRequests := []\<rparr>"] show ?thesis
    by (simp add: rejectPendingRequests_def pending_promises_def cong: if_cong)
qed

lemma invalidate_shape:
  "\<exists>cs es rs gs. invalidateAllSessionLeases c =
     c\<lparr>sessionLeaseCounts := cs, exclusiveSessionLeases := es, sessionLeaseGenerations := gs, sessionCleanupRequired := rs\<rparr>"
proof -
  have "\<exists>cs es rs gs. fold invalidateSessionLeases ss d =
     d\<lparr>sessionLeaseCounts := cs, exclusiveSessionLeases := es, sessionLeaseGenerations := gs, sessionCleanupRequired := rs\<rparr>"
    for ss and d :: client
  proof (induction ss arbitrary: d)
    case Nil
    show ?case by (intro exI[of _ "sessionLeaseCounts d"] exI[of _ "exclusiveSessionLeases d"]
        exI[of _ "sessionCleanupRequired d"] exI[of _ "sessionLeaseGenerations d"]) simp
  next
    case (Cons s ss)
    obtain cs es rs gs where "fold invalidateSessionLeases ss (invalidateSessionLeases s d) = (invalidateSessionLeases s d)
        \<lparr>sessionLeaseCounts := cs, exclusiveSessionLeases := es, sessionLeaseGenerations := gs, sessionCleanupRequired := rs\<rparr>"
      using Cons by blast
    moreover have "(invalidateSessionLeases s d)
        \<lparr>sessionLeaseCounts := cs, exclusiveSessionLeases := es, sessionLeaseGenerations := gs, sessionCleanupRequired := rs\<rparr> =
      d\<lparr>sessionLeaseCounts := cs, exclusiveSessionLeases := es, sessionLeaseGenerations := gs, sessionCleanupRequired := rs\<rparr>"
      by (simp add: invalidateSessionLeases_def)
    ultimately have "fold invalidateSessionLeases (s # ss) d =
      d\<lparr>sessionLeaseCounts := cs, exclusiveSessionLeases := es, sessionLeaseGenerations := gs, sessionCleanupRequired := rs\<rparr>"
      by simp
    then show ?case by blast
  qed
  then obtain cs es rs gs where "fold invalidateSessionLeases (map fst (sessionLeaseCounts c)) c =
     c\<lparr>sessionLeaseCounts := cs, exclusiveSessionLeases := es, sessionLeaseGenerations := gs, sessionCleanupRequired := rs\<rparr>"
    by blast
  then show ?thesis unfolding invalidateAllSessionLeases_def by auto
qed

lemma invalidate_waits: "keeps_waits c (invalidateAllSessionLeases c)"
proof -
  obtain cs es rs gs where "invalidateAllSessionLeases c =
     c\<lparr>sessionLeaseCounts := cs, exclusiveSessionLeases := es, sessionLeaseGenerations := gs, sessionCleanupRequired := rs\<rparr>"
    using invalidate_shape by blast
  then show ?thesis by (simp add: waits_unchanged)
qed

lemma rejected_waits: "keeps_waits c ((rejectPendingRequests e c)\<lparr>lifecycle := l, effects := es\<rparr>)"
  by (intro keeps_waitsI)
    (auto simp: reject_all waits_ok_def still_covered_def request_covered_def attach_covered_def reconcile_covered_def pending_promises_def)

lemma reject_waits: "keeps_waits c (rejectPendingRequests e c)"
  using rejected_waits[where c = c and e = e and l = "lifecycle c" and es = "effects c"] by (simp add: reject_all)

lemma lost_waits: "keeps_waits c (handleConnectionStateChange (NowDisconnected e) (c\<lparr>lifecycle := Offline, effects := es\<rparr>))"
proof -
  obtain cs xs rs gs where inv: "invalidateAllSessionLeases (c\<lparr>lifecycle := Offline, effects := es, view := clearAttachments (view c)\<rparr>) =
     c\<lparr>lifecycle := Offline, effects := es, view := clearAttachments (view c), sessionLeaseCounts := cs,
       exclusiveSessionLeases := xs, sessionLeaseGenerations := gs, sessionCleanupRequired := rs\<rparr>"
    using invalidate_shape[of "c\<lparr>lifecycle := Offline, effects := es, view := clearAttachments (view c)\<rparr>"] by blast
  show ?thesis
    by (rule keeps_waits_trans[OF rejected_waits[where c = c and e = e and l = Offline and es = es]], rule waits_unchanged)
      (simp_all add: handleConnectionStateChange_def Let_def inv reject_all pending_promises_def cong: if_cong)
qed

lemma change_waits: "keeps_waits c (handleConnectionStateChange s c)"
proof (cases s)
  case (NowDisconnected e)
  have "keeps_waits c (c\<lparr>view := clearAttachments (view c)\<rparr>)" by (rule waits_unchanged) simp_all
  note keeps_waits_trans[OF keeps_waits_trans[OF this invalidate_waits] reject_waits[where e = e]]
  moreover have "keeps_waits d (d\<lparr>stateNotices := ns\<rparr>)" for d ns by (rule waits_unchanged) simp_all
  ultimately show ?thesis using NowDisconnected keeps_waits_trans by (simp add: handleConnectionStateChange_def Let_def)
qed (simp_all add: handleConnectionStateChange_def waits_unchanged)

lemma deliver_waits: "keeps_waits c (deliver d c)"
  by (rule waits_unchanged) (simp_all add: deliver_def)

interpretation basics: connection_relation client_basics keeps_waits
proof
  fix c d e :: client and i n t u h m s snapshot err es ds
  show "keeps_waits c d \<Longrightarrow> keeps_waits d e \<Longrightarrow> keeps_waits c e" by (rule keeps_waits_trans)
  show "\<not> is_connected (lifecycle c) \<Longrightarrow> keeps_waits c (c\<lparr>connectionSequence := n, lifecycle := Connecting i t\<rparr>)"
    by (intro keeps_waitsI)
      (auto simp: waits_ok_def is_connected_def still_covered_def request_covered_def attach_covered_def reconcile_covered_def pending_promises_def)
  show "keeps_waits c (c\<lparr>lifecycle := Connected i u h\<rparr>)" by (rule waits_unchanged) (simp_all add: is_connected_def)
qed (simp_all add: client_basics_def deliver_waits change_waits lost_waits waits_unchanged)

text \<open>An answered request leaves the table and is settled; nothing else in the table has its key.\<close>

lemma answered_still_covered:
  assumes "distinct (map fst (pendingRequests c))" and "map_of (pendingRequests c) i = Some (command, p)" and "r \<noteq> Pending"
  shows "still_covered c (settle p r (c\<lparr>pendingRequests := AList.delete i (pendingRequests c)\<rparr>))"
proof -
  have "q = p" if "q \<in> pending_promises c" "q \<notin> pending_promises (c\<lparr>pendingRequests := AList.delete i (pendingRequests c)\<rparr>)" for q
  proof -
    from that obtain j x where j: "(j, x, q) \<in> set (pendingRequests c)" by (auto simp: pending_promises_def)
    have "j = i"
    proof (rule ccontr)
      assume "j \<noteq> i"
      with j have "(j, x, q) \<in> set (AList.delete i (pendingRequests c))" by (simp add: AList.delete_eq)
      then have "q \<in> pending_promises (c\<lparr>pendingRequests := AList.delete i (pendingRequests c)\<rparr>)"
        by (force simp: pending_promises_def)
      with that(2) show False by blast
    qed
    with j assms(1,2) have "(command, p) = (x, q)" by (metis map_of_is_SomeI option.inject)
    then show ?thesis by simp
  qed
  moreover let ?d = "settle p r (c\<lparr>pendingRequests := AList.delete i (pendingRequests c)\<rparr>)"
  have "promises ?d p \<noteq> Pending" "promises c q \<noteq> Pending \<Longrightarrow> promises ?d q \<noteq> Pending" for q
    using assms(3) by (auto simp: settle_def)
  moreover have "tasks ?d = tasks c" "nextPromise ?d = nextPromise c"
    "pending_promises ?d = pending_promises (c\<lparr>pendingRequests := AList.delete i (pendingRequests c)\<rparr>)"
    by (simp_all add: settle_def pending_promises_def)
  ultimately show ?thesis
    unfolding still_covered_def request_covered_def attach_covered_def reconcile_covered_def by (metis order_refl)
qed

lemma answered_waits:
  assumes "map_of (pendingRequests c) i = Some (command, p)" and "r \<noteq> Pending"
  shows "keeps_waits c (settle p r (c\<lparr>pendingRequests := AList.delete i (pendingRequests c)\<rparr>))"
proof (rule keeps_waitsI)
  assume ok: "waits_ok c"
  then show "still_covered c (settle p r (c\<lparr>pendingRequests := AList.delete i (pendingRequests c)\<rparr>))"
    using assms answered_still_covered by (simp add: waits_ok_def)
  show "distinct (map fst (pendingRequests (settle p r (c\<lparr>pendingRequests := AList.delete i (pendingRequests c)\<rparr>)))) \<and>
       (\<forall>j \<in> fst ` set (pendingRequests (settle p r (c\<lparr>pendingRequests := AList.delete i (pendingRequests c)\<rparr>))).
          \<exists>n \<le> requestSequence (settle p r (c\<lparr>pendingRequests := AList.delete i (pendingRequests c)\<rparr>)). j = request_id n) \<and>
       (pendingRequests (settle p r (c\<lparr>pendingRequests := AList.delete i (pendingRequests c)\<rparr>)) \<noteq> [] \<longrightarrow>
          is_connected (lifecycle (settle p r (c\<lparr>pendingRequests := AList.delete i (pendingRequests c)\<rparr>))))"
    using ok by (auto simp: waits_ok_def settle_def AList.delete_eq distinct_map_filter)
qed (simp_all add: settle_def)

lemma handle_event_waits: "keeps_waits c (handle_event e c)"
  by (rule waits_unchanged) (simp_all add: handle_event_def deliver_def Let_def invalidateSessionLeases_def)

lemma settle_deliver: "settle p r (deliver d c) = deliver d (settle p r c)"
  by (simp add: settle_def deliver_def)

lemma handle_response_waits: "keeps_waits c (handle_response m c)"
proof (cases "map_of (pendingRequests c) (string_field ''id'' m)")
  case None
  then have "AList.delete (string_field ''id'' m) (pendingRequests c) = pendingRequests c"
    by (simp add: map_of_eq_None_iff delete_idem)
  with None show ?thesis by (simp add: handle_response_def takePendingRequest_def basics.failAndClose_related)
next
  case (Some entry)
  obtain command p where entry: "entry = (command, p)" by fastforce
  note answered = answered_waits[OF Some[unfolded entry]]
  show ?thesis
    using answered[of "Rejected e" for e] answered[of "Fulfilled v" for v]
    by (auto simp: handle_response_def takePendingRequest_def Some entry Let_def settle_deliver
        intro: keeps_waits_trans[OF answered basics.failAndClose_related] keeps_waits_trans[OF answered deliver_waits])
qed

lemma client_message_waits: "keeps_waits c (handle_client_message m c)"
  by (simp add: handle_client_message_def handle_event_waits handle_response_waits)

interpretation owner: connection_relation client_owner keeps_waits
  unfolding connection_relation_def client_owner_simps
  by (intro conjI allI impI keeps_waits_refl basics.handshake basics.change basics.lost basics.effect basics.decoder
      basics.attempt basics.connected client_message_waits) (rule keeps_waits_trans)

subsection \<open>The operations\<close>

text \<open>A call that gives a promise, and who will settle it.\<close>

definition yields :: "(client \<Rightarrow> nat \<Rightarrow> bool) \<Rightarrow> client \<Rightarrow> nat \<times> client \<Rightarrow> bool" where
  "yields covered c r \<longleftrightarrow> keeps_waits c (snd r) \<and> (waits_ok c \<longrightarrow> fst r < nextPromise (snd r) \<and> covered (snd r) (fst r))"

lemma waits_steps:
  assumes "keeps_waits c d"
  shows "r \<noteq> Pending \<Longrightarrow> keeps_waits c (settle p r d)"
    and "keeps_waits c (snd (new_promise d))"
    and "(waits_ok d \<Longrightarrow> task_covered d t) \<Longrightarrow> keeps_waits c (suspend t d)"
    and "keeps_waits c (snd (send_frame client_owner refused frame d))"
proof -
  note keeps_waits_trans[OF assms]
  then show "r \<noteq> Pending \<Longrightarrow> keeps_waits c (settle p r d)" and "keeps_waits c (snd (new_promise d))"
    and "keeps_waits c (snd (send_frame client_owner refused frame d))"
    using settle_waits new_promise_waits owner.send_frame_related by blast+
  assume "waits_ok d \<Longrightarrow> task_covered d t"
  then have "keeps_waits d (suspend t d)" using suspend_waits by (auto simp: keeps_waits_def)
  then show "keeps_waits c (suspend t d)" by (rule keeps_waits_trans[OF assms])
qed

lemma new_promise_simps:
  "fst (new_promise c) = nextPromise c" "nextPromise (snd (new_promise c)) = Suc (nextPromise c)"
  "pendingRequests (snd (new_promise c)) = pendingRequests c" "requestSequence (snd (new_promise c)) = requestSequence c"
  "lifecycle (snd (new_promise c)) = lifecycle c" "tasks (snd (new_promise c)) = tasks c"
  by (simp_all add: new_promise_def)

lemma settled_covered: "r \<noteq> Pending \<Longrightarrow> promises (settle p r c) p \<noteq> Pending"
  by (simp add: settle_def)

lemma entered_waits:
  assumes "is_connected (lifecycle c)" and "d = c\<lparr>requestSequence := Suc (requestSequence c),
      pendingRequests := AList.update (request_id (Suc (requestSequence c))) (command, p) (pendingRequests c)\<rparr>"
  shows "keeps_waits c d" and "p \<in> pending_promises d"
    and "waits_ok c \<Longrightarrow> map_of (pendingRequests d) (request_id (Suc (requestSequence c))) = Some (command, p)"
proof -
  let ?i = "request_id (Suc (requestSequence c))"
  have fresh: "?i \<notin> fst ` set (pendingRequests c)" if "waits_ok c"
  proof
    assume "?i \<in> fst ` set (pendingRequests c)"
    with that obtain n where "n \<le> requestSequence c" "?i = request_id n" by (auto simp: waits_ok_def)
    then show False by simp
  qed
  have update: "AList.update ?i (command, p) ps = ps @ [(?i, (command, p))]" if "?i \<notin> fst ` set ps" for ps
    using that by (induction ps) auto
  show "p \<in> pending_promises d"
    using update_conv'[of ?i "(command, p)" "pendingRequests c"]
    by (auto simp: pending_promises_def assms(2) image_iff intro!: bexI[of _ "(?i, command, p)"] map_of_SomeD)
  show "map_of (pendingRequests d) ?i = Some (command, p)" if "waits_ok c"
    by (simp add: assms(2) update_conv')
  show "keeps_waits c d"
  proof (rule keeps_waitsI)
    assume ok: "waits_ok c"
    then have "pendingRequests d = pendingRequests c @ [(?i, (command, p))]" using update[OF fresh] by (simp add: assms(2))
    moreover from this have "pending_promises c \<subseteq> pending_promises d" by (simp add: pending_promises_def subset_insertI)
    then show "still_covered c d"
      by (auto simp: still_covered_def request_covered_def attach_covered_def reconcile_covered_def assms(2))
    ultimately show "distinct (map fst (pendingRequests d)) \<and>
       (\<forall>i \<in> fst ` set (pendingRequests d). \<exists>n \<le> requestSequence d. i = request_id n) \<and>
       (pendingRequests d \<noteq> [] \<longrightarrow> is_connected (lifecycle d))"
      using ok fresh[OF ok] assms(1) by (auto simp: waits_ok_def assms(2) le_Suc_eq)
  qed (simp_all add: assms(2))
qed

lemma is_connected_iff: "is_connected l \<longleftrightarrow> (\<exists>i t h. l = Connected i t h)"
  by (cases l) (simp_all add: is_connected_def)

lemma covered_by_kept: "keeps_waits c d \<Longrightarrow> waits_ok c \<Longrightarrow> p < nextPromise c \<Longrightarrow>
    p < nextPromise d \<and> (request_covered c p \<longrightarrow> request_covered d p) \<and> (attach_covered c p \<longrightarrow> attach_covered d p) \<and>
    (reconcile_covered c p \<longrightarrow> reconcile_covered d p)"
  by (auto simp: keeps_waits_def still_covered_def)

lemma request_yields: "yields request_covered c (request refused command c)"
proof -
  define p c1 where "p = nextPromise c" and "c1 = snd (new_promise c)"
  have new: "new_promise c = (p, c1)" by (simp add: p_def c1_def prod_eq_iff new_promise_simps)
  have c1: "keeps_waits c c1" "p < nextPromise c1" by (simp_all add: c1_def p_def new_promise_waits new_promise_simps)
  have settled: "yields request_covered c (p, settle p (Rejected e) c1)" for e
    using c1 settled_covered[of "Rejected e" p c1] by (simp add: yields_def waits_steps request_covered_def) (simp add: settle_def)
  show ?thesis
  proof (cases "disposed c1 \<or> \<not> is_connected (lifecycle c1)")
    case True
    with settled new show ?thesis by (auto simp: request_def is_connected_iff)
  next
    case False
    define i where "i = request_id (Suc (requestSequence c1))"
    define c2 where "c2 = c1\<lparr>requestSequence := Suc (requestSequence c1), pendingRequests := AList.update i (command, p) (pendingRequests c1)\<rparr>"
    have conn: "is_connected (lifecycle c1)" using False by simp
    note c2 = entered_waits[OF conn c2_def[unfolded i_def]]
    have c02: "keeps_waits c c2" by (rule keeps_waits_trans[OF c1(1) c2(1)])
    have p2: "p < nextPromise c2" "request_covered c2 p" using c1(2) c2(2) by (simp_all add: c2_def request_covered_def)
    show ?thesis
    proof (cases "encodeClientMessage (frameLimit c2) (request_message i command)")
      case (Inr frame)
      let ?d = "snd (send_frame client_owner refused frame c2)"
      have "keeps_waits c2 ?d" by (rule owner.send_frame_related)
      with covered_by_kept[OF this _ p2(1)] p2(2) c02 waits_steps(4)[OF c02]
      have "yields request_covered c (p, ?d)" by (auto simp: yields_def keeps_waits_def)
      with False Inr new show ?thesis by (simp add: request_def Let_def is_connected_iff c2_def i_def)
    next
      case (Inl e)
      let ?d = "settle p (Rejected (CodecError e)) (c2\<lparr>pendingRequests := AList.delete i (pendingRequests c2)\<rparr>)"
      have "keeps_waits c ?d"
      proof -
        have "keeps_waits c2 ?d" if "waits_ok c1"
          using answered_waits[of c2 i command p "Rejected (CodecError e)"] c2(3)[OF that] by (simp add: i_def)
        with c1(1) c02 show ?thesis by (auto simp: keeps_waits_def intro: still_covered_trans)
      qed
      moreover have "p < nextPromise ?d" "request_covered ?d p"
        using p2(1) by (simp_all add: request_covered_def settle_def)
      ultimately have "yields request_covered c (p, ?d)" by (simp add: yields_def)
      with False Inl new show ?thesis by (simp add: request_def Let_def is_connected_iff c2_def i_def takePendingRequest_def)
    qed
  qed
qed

text \<open>Each way to go on keeps the promises covered.\<close>

lemma waits_field:
  fixes c d :: client
  assumes "keeps_waits c d"
  shows "keeps_waits c (d\<lparr>view := v\<rparr>)" "keeps_waits c (d\<lparr>sessionCleanupRequired := x\<rparr>)" "keeps_waits c (set_lease i l d)"
    "keeps_waits c (releaseSessionLease s token d)" "keeps_waits c (createSessionLease s token out d)"
proof -
  show "keeps_waits c (d\<lparr>view := v\<rparr>)" "keeps_waits c (d\<lparr>sessionCleanupRequired := x\<rparr>)" "keeps_waits c (set_lease i l d)"
    "keeps_waits c (releaseSessionLease s token d)"
    by (rule keeps_waits_trans[OF assms], rule waits_unchanged;
        simp add: set_lease_def releaseSessionLease_def Let_def)+
  have "keeps_waits d (d\<lparr>sessionLeaseGenerations := gs, leases := ls\<rparr>)" for gs ls by (rule waits_unchanged) simp_all
  then show "keeps_waits c (createSessionLease s token out d)"
    unfolding createSessionLease_def Let_def by (intro waits_steps(1) keeps_waits_trans[OF assms]) simp_all
qed

lemma second_of_update: "snd ` set (AList.update s p ps) \<subseteq> insert p (snd ` set ps)"
  by (induction ps) auto

lemma snd_delete: "snd ` set (AList.delete s ps) \<subseteq> snd ` set ps"
  by (auto simp: AList.delete_eq)

lemma entries_updated:
  "entries_covered covered c ps \<Longrightarrow> p < nextPromise c \<Longrightarrow> covered c p \<Longrightarrow> entries_covered covered c (AList.update s p ps)"
  "entries_covered covered c ps \<Longrightarrow> entries_covered covered c (AList.delete s ps)"
  "entries_covered covered c ps \<Longrightarrow> entries_covered covered c (forget_promise s p ps)"
proof -
  show "entries_covered covered c ps \<Longrightarrow> p < nextPromise c \<Longrightarrow> covered c p \<Longrightarrow> entries_covered covered c (AList.update s p ps)"
    using second_of_update[of s p ps] unfolding entries_covered_def by blast
  show delete: "entries_covered covered c ps \<Longrightarrow> entries_covered covered c (AList.delete s ps)"
    using snd_delete[of s ps] unfolding entries_covered_def by blast
  then show "entries_covered covered c ps \<Longrightarrow> entries_covered covered c (forget_promise s p ps)"
    by (simp add: forget_promise_def)
qed

text \<open>A change of the three maps alone.\<close>

lemma maps_waits:
  assumes "waits_ok c \<Longrightarrow> entries_covered attach_covered c as" "waits_ok c \<Longrightarrow> entries_covered request_covered c ds"
    "waits_ok c \<Longrightarrow> entries_covered reconcile_covered c rs"
  shows "keeps_waits c (c\<lparr>sessionAttachments := as, sessionDetachments := ds, sessionReconciliations := rs\<rparr>)"
proof -
  let ?d = "c\<lparr>sessionAttachments := as, sessionDetachments := ds, sessionReconciliations := rs\<rparr>"
  have same: "attach_covered ?d = attach_covered c" "request_covered ?d = request_covered c" "reconcile_covered ?d = reconcile_covered c"
    by (simp_all add: fun_eq_iff attach_covered_def request_covered_def reconcile_covered_def pending_promises_def)
  have tasks: "task_covered ?d t = task_covered c t" for t by (cases t) (simp_all add: same)
  have entries: "entries_covered attach_covered ?d ps = entries_covered attach_covered c ps"
    "entries_covered request_covered ?d ps = entries_covered request_covered c ps"
    "entries_covered reconcile_covered ?d ps = entries_covered reconcile_covered c ps" for ps
    by (simp_all add: entries_covered_def same)
  show ?thesis
    using assms by (simp add: keeps_waits_def waits_ok_def still_covered_def same tasks entries)
qed

lemma map_waits:
  "(waits_ok c \<Longrightarrow> entries_covered attach_covered c as) \<Longrightarrow> keeps_waits c (c\<lparr>sessionAttachments := as\<rparr>)"
  "(waits_ok c \<Longrightarrow> entries_covered request_covered c ds) \<Longrightarrow> keeps_waits c (c\<lparr>sessionDetachments := ds\<rparr>)"
  "(waits_ok c \<Longrightarrow> entries_covered reconcile_covered c rs) \<Longrightarrow> keeps_waits c (c\<lparr>sessionReconciliations := rs\<rparr>)"
proof -
  have entries: "entries_covered attach_covered c (sessionAttachments c)" "entries_covered request_covered c (sessionDetachments c)"
    "entries_covered reconcile_covered c (sessionReconciliations c)" if "waits_ok c"
    using that by (simp_all add: waits_ok_def)
  show "(waits_ok c \<Longrightarrow> entries_covered attach_covered c as) \<Longrightarrow> keeps_waits c (c\<lparr>sessionAttachments := as\<rparr>)"
    using maps_waits[where c = c and as = as and ds = "sessionDetachments c" and rs = "sessionReconciliations c", OF _ entries(2,3)]
    by simp
  show "(waits_ok c \<Longrightarrow> entries_covered request_covered c ds) \<Longrightarrow> keeps_waits c (c\<lparr>sessionDetachments := ds\<rparr>)"
    using maps_waits[where c = c and as = "sessionAttachments c" and ds = ds and rs = "sessionReconciliations c", OF entries(1) _ entries(3)]
    by simp
  show "(waits_ok c \<Longrightarrow> entries_covered reconcile_covered c rs) \<Longrightarrow> keeps_waits c (c\<lparr>sessionReconciliations := rs\<rparr>)"
    using maps_waits[where c = c and as = "sessionAttachments c" and ds = "sessionDetachments c" and rs = rs, OF entries(1,2)]
    by simp
qed

lemma suspend_commutes:
  "suspend t (c\<lparr>sessionReconciliations := rs\<rparr>) = (suspend t c)\<lparr>sessionReconciliations := rs\<rparr>"
  "suspend t (c\<lparr>sessionAttachments := rs\<rparr>) = (suspend t c)\<lparr>sessionAttachments := rs\<rparr>"
  "suspend t (c\<lparr>sessionDetachments := rs\<rparr>) = (suspend t c)\<lparr>sessionDetachments := rs\<rparr>"
  by (cases c; simp add: suspend_def)+

lemma yields_then: "yields P c r \<Longrightarrow> keeps_waits b c \<Longrightarrow> keeps_waits b (snd r)"
  by (auto simp: yields_def intro: keeps_waits_trans)

lemma keeps_ok: "keeps_waits c d \<Longrightarrow> waits_ok c \<Longrightarrow> waits_ok d"
  by (simp add: keeps_waits_def)

text \<open>A new promise that a suspended call will settle once its request is settled.\<close>

lemma promised_later:
  assumes req: "yields request_covered c (req, d)" and "new_promise d = (p, e)"
  shows "keeps_waits c e" and "waits_ok c \<Longrightarrow> req < nextPromise e \<and> request_covered e req" and "p < nextPromise e"
proof -
  have e: "e = snd (new_promise d)" "p = nextPromise d" using assms(2) by (auto simp: new_promise_def)
  have cd: "keeps_waits c d" using req by (simp add: yields_def)
  show "keeps_waits c e" unfolding e by (rule waits_steps(2)[OF cd])
  show "p < nextPromise e" by (simp add: e new_promise_simps)
  assume "waits_ok c"
  with req cd have "waits_ok d" "req < nextPromise d" "request_covered d req" by (auto simp: yields_def keeps_waits_def)
  with covered_by_kept[OF new_promise_waits[of d]] show "req < nextPromise e \<and> request_covered e req" by (simp add: e)
qed

lemma attachSession_yields: "yields attach_covered c (attachSession refused s c)"
proof -
  obtain previous v where f: "forgetSessionSnapshot s (view c) = (previous, v)" by fastforce
  obtain req d where r: "request refused (session_command ''attach'' s) (c\<lparr>view := v\<rparr>) = (req, d)" by fastforce
  obtain p e where n: "new_promise d = (p, e)" by fastforce
  have v: "keeps_waits c (c\<lparr>view := v\<rparr>)" by (rule waits_field(1)) simp
  have "yields request_covered (c\<lparr>view := v\<rparr>) (req, d)" using request_yields by (metis r)
  note later = promised_later[OF this n]
  have "keeps_waits c (suspend (Attaching s previous req p) e)"
    using later(2) keeps_waits_trans[OF v later(1)] suspend_waits[of e "Attaching s previous req p"] keeps_ok[OF v]
    by (auto simp: keeps_waits_def intro: still_covered_trans)
  then show ?thesis
    using later(3) by (auto simp: attachSession_def f r n yields_def attach_covered_def suspend_def)
qed

lemma reconcile_yields: "yields reconcile_covered c (reconcileSessionCleanup refused s c)"
proof (cases "map_of (sessionReconciliations c) s")
  case (Some p)
  then have "p \<in> snd ` set (sessionReconciliations c)" by (force dest: map_of_SomeD)
  with Some show ?thesis by (auto simp: reconcileSessionCleanup_def yields_def waits_ok_def entries_covered_def)
next
  case None
  obtain req d where r: "request refused (session_command ''detach'' s) c = (req, d)" by fastforce
  obtain p e where n: "new_promise d = (p, e)" by fastforce
  have "yields request_covered c (req, d)" using request_yields by (metis r)
  note later = promised_later[OF this n]
  let ?f = "suspend (Reconciling s req p) e"
  let ?g = "?f\<lparr>sessionReconciliations := AList.update s p (sessionReconciliations ?f)\<rparr>"
  have ef: "keeps_waits c ?f"
    using later(1,2) suspend_waits[of e "Reconciling s req p"] by (auto simp: keeps_waits_def intro: still_covered_trans)
  have p: "p < nextPromise ?f" "reconcile_covered ?f p" using later(3) by (auto simp: reconcile_covered_def suspend_def)
  have "keeps_waits ?f ?g"
    using p by (intro map_waits(3) entries_updated(1)) (auto simp: waits_ok_def)
  with ef have "keeps_waits c ?g" by (rule keeps_waits_trans)
  with p None r n show ?thesis
    by (simp add: reconcileSessionCleanup_def yields_def suspend_commutes) (simp add: suspend_def reconcile_covered_def)
qed

lemma entry_covered: "map_of ps s = Some p \<Longrightarrow> entries_covered covered c ps \<Longrightarrow> p < nextPromise c \<and> covered c p"
  by (force simp: entries_covered_def dest: map_of_SomeD)

lemma covered_in_maps:
  "attach_covered (c\<lparr>sessionAttachments := as\<rparr>) p = attach_covered c p"
  "request_covered (c\<lparr>sessionDetachments := as\<rparr>) p = request_covered c p"
  by (simp_all add: attach_covered_def request_covered_def pending_promises_def)

lemma acquire_attach_waits: "keeps_waits c (acquire_attach refused reconciled s token out c)"
proof (cases "reconciled \<or> s \<notin> attachedSessionIds (view c)")
  case attach: True
  show ?thesis
  proof (cases "map_of (sessionAttachments c) s")
    case (Some p)
    have "keeps_waits c (suspend (AcquireAttaching s token p out) c)"
      by (rule waits_steps(3)[OF keeps_waits_refl]) (auto simp: waits_ok_def dest: entry_covered[OF Some])
    with attach Some show ?thesis by (simp add: acquire_attach_def)
  next
    case None
    obtain p d where r: "attachSession refused s c = (p, d)" by fastforce
    have y: "yields attach_covered c (p, d)" using attachSession_yields by (metis r)
    have p: "p < nextPromise d \<and> attach_covered d p" if "waits_ok c" using y that by (simp add: yields_def)
    let ?e = "d\<lparr>sessionAttachments := AList.update s p (sessionAttachments d)\<rparr>"
    have ce: "keeps_waits c ?e"
      using y p map_waits(1)[of d "AList.update s p (sessionAttachments d)"]
      by (auto simp: yields_def keeps_waits_def waits_ok_def intro: still_covered_trans entries_updated(1))
    have "keeps_waits c (suspend (AcquireAttaching s token p out) ?e)"
      using ce p suspend_waits[of ?e "AcquireAttaching s token p out"]
      by (auto simp: keeps_waits_def covered_in_maps intro: still_covered_trans)
    with attach None r show ?thesis by (simp add: acquire_attach_def)
  qed
qed (simp add: acquire_attach_def waits_field)

lemma acquire_reconcile_waits: "keeps_waits c (acquire_reconcile refused s token out c)"
proof (cases "s \<in> sessionCleanupRequired c")
  case True
  obtain p d where r: "reconcileSessionCleanup refused s c = (p, d)" by fastforce
  have "yields reconcile_covered c (p, d)" using reconcile_yields by (metis r)
  then have "keeps_waits c (suspend (AcquireReconciling s token p out) d)"
    using suspend_waits[of d "AcquireReconciling s token p out"]
    by (auto simp: yields_def keeps_waits_def intro: still_covered_trans)
  with True r show ?thesis by (simp add: acquire_reconcile_def)
qed (simp add: acquire_reconcile_def acquire_attach_waits)

lemma reserve_waits: "reserveSessionLease s mode c = Inr (token, d) \<Longrightarrow> keeps_waits c d"
  by (auto simp: reserveSessionLease_def Let_def waits_unchanged split: if_splits)

lemma acquireSession_waits: "keeps_waits c (snd (acquireSession refused s mode c))"
proof -
  obtain out d where n: "new_promise c = (out, d)" by fastforce
  have cd: "keeps_waits c d" using new_promise_waits[of c] n by simp
  show ?thesis
  proof (cases "reserveSessionLease s mode d")
    case (Inr r)
    obtain token e where e: "r = (token, e)" by fastforce
    with Inr reserve_waits cd have ce: "keeps_waits c e" by (blast intro: keeps_waits_trans)
    have "keeps_waits c (suspend (AcquireDetaching s token p out) e)" if p: "map_of (sessionDetachments e) s = Some p" for p
      by (rule waits_steps(3)[OF ce]) (auto simp: waits_ok_def dest: entry_covered[OF p])
    with Inr e n cd ce show ?thesis
      by (auto simp: acquireSession_def waits_steps(1) intro: keeps_waits_trans[OF ce acquire_reconcile_waits] split: option.splits)
  qed (use n cd in \<open>simp add: acquireSession_def waits_steps(1)\<close>)
qed

lemma createSession_waits: "keeps_waits c (snd (createSession refused command c))"
proof -
  obtain req d where r: "request refused command c = (req, d)" by fastforce
  obtain out e where n: "new_promise d = (out, e)" by fastforce
  have "yields request_covered c (req, d)" using request_yields by (metis r)
  note later = promised_later[OF this n]
  then have "keeps_waits c (suspend (Creating req out) e)"
    using suspend_waits[of e "Creating req out"] by (auto simp: keeps_waits_def intro: still_covered_trans)
  then show ?thesis by (simp add: createSession_def r n)
qed

lemma request_waits: "keeps_waits c d \<Longrightarrow> keeps_waits c (snd (request refused command d))"
  using request_yields by (blast intro: yields_then)

lemma lease_request_waits: "keeps_waits c (snd (lease_request refused i command c))"
  using request_waits[OF waits_field(3)[OF keeps_waits_refl]] waits_field(3)[OF keeps_waits_refl]
  by (auto simp: lease_request_def Let_def split: option.splits prod.splits) (metis snd_conv)

lemma release_lease_waits: "keeps_waits c (snd (release_lease refused relinquish i c))"
proof -
  define l where "l = refreshed c (leases c ! i)"
  define c1 where "c1 = set_lease i l c"
  obtain p c2 where n: "new_promise c1 = (p, c2)" by fastforce
  define l' c3 where "l' = l\<lparr>leaseState := LeaseReleasing, releasePromise := Some p\<rparr>" and "c3 = set_lease i l' c2"
  have c1: "keeps_waits c c1" unfolding c1_def by (rule waits_field(3)) simp
  have "keeps_waits c c2" using waits_steps(2)[OF c1] n by simp
  then have c3: "keeps_waits c c3" unfolding c3_def by (rule waits_field(3))
  obtain req d where r: "request refused (session_command ''detach'' (leaseSession l)) c3 = (req, d)" by fastforce
  have "yields request_covered c3 (req, d)" using request_yields by (metis r)
  then have d: "keeps_waits c d" "waits_ok c \<Longrightarrow> req < nextPromise d \<and> request_covered d req"
    using c3 by (auto simp: yields_def keeps_waits_def intro: still_covered_trans)
  let ?e = "d\<lparr>sessionDetachments := AList.update (leaseSession l) req (sessionDetachments d)\<rparr>"
  have e: "keeps_waits c ?e"
    using d map_waits(2)[of d "AList.update (leaseSession l) req (sessionDetachments d)"]
    by (auto simp: keeps_waits_def waits_ok_def intro: still_covered_trans entries_updated(1))
  have "keeps_waits c (suspend (Releasing i relinquish req p) ?e)"
    using e d(2) suspend_waits[of ?e "Releasing i relinquish req p"]
    by (auto simp: keeps_waits_def covered_in_maps intro: still_covered_trans)
  moreover have "keeps_waits c (settle p (Fulfilled NoValue)
      (set_lease i (l'\<lparr>leaseState := LeaseReleased\<rparr>) (releaseSessionLease (leaseSession l) (leaseToken l') c3)))"
    by (intro waits_steps(1) waits_field(3,4) c3) simp
  ultimately show ?thesis
    using c1 n r unfolding release_lease_def Let_def l_def[symmetric] c1_def[symmetric]
    by (auto simp: l'_def[symmetric] c3_def[symmetric] split: option.splits)
qed

text \<open>A task that resumes leaves the list; a promise it was to settle must be settled or taken over.\<close>

definition drop_task :: "nat \<Rightarrow> client \<Rightarrow> client" where
  "drop_task k c = c\<lparr>tasks := take k (tasks c) @ drop (Suc k) (tasks c)\<rparr>"

lemma dropped_set: "k < length ts \<Longrightarrow> set ts = insert (ts ! k) (set (take k ts) \<union> set (drop (Suc k) ts))"
  by (metis id_take_nth_drop list.simps(15) set_append Un_insert_right)

lemma dropped_waits:
  assumes "k < length (tasks c)"
    and "\<And>s v req p. tasks c ! k = Attaching s v req p \<Longrightarrow> attach_covered (drop_task k c) p"
    and "\<And>s req p. tasks c ! k = Reconciling s req p \<Longrightarrow> reconcile_covered (drop_task k c) p"
    and "\<And>s e p. tasks c ! k = Reconciled s e p \<Longrightarrow> reconcile_covered (drop_task k c) p"
  shows "keeps_waits c (drop_task k c)"
proof (rule keeps_waitsI)
  show "still_covered c (drop_task k c)"
    unfolding still_covered_def
  proof (intro conjI allI impI)
    fix p
    show "attach_covered (drop_task k c) p" if "attach_covered c p"
      using that assms(2) dropped_set[OF assms(1)] by (auto simp: attach_covered_def drop_task_def) metis+
    show "reconcile_covered (drop_task k c) p" if "reconcile_covered c p"
      using that assms(3,4) dropped_set[OF assms(1)] by (auto simp: reconcile_covered_def drop_task_def) metis+
  qed (simp_all add: drop_task_def request_covered_def pending_promises_def)
qed (use dropped_set[OF assms(1)] in \<open>auto simp: drop_task_def waits_ok_def\<close>)

lemma drop_task_commutes:
  "k < length (tasks c) \<Longrightarrow> suspend t (drop_task k c) = drop_task k (suspend t c)"
  "settle p r (drop_task k c) = drop_task k (settle p r c)"
  "(drop_task k c)\<lparr>view := v\<rparr> = drop_task k (c\<lparr>view := v\<rparr>)"
  "(drop_task k c)\<lparr>sessionCleanupRequired := x\<rparr> = drop_task k (c\<lparr>sessionCleanupRequired := x\<rparr>)"
  "(drop_task k c)\<lparr>sessionReconciliations := rs\<rparr> = drop_task k (c\<lparr>sessionReconciliations := rs\<rparr>)"
  by (cases c; simp add: suspend_def settle_def drop_task_def)+

lemma settled_dropped:
  assumes "k < length (tasks c)" and "keeps_waits c d" and "tasks d = tasks c" and "promises d p \<noteq> Pending"
    and "\<And>s v req q. tasks c ! k = Attaching s v req q \<Longrightarrow> q = p" "\<And>s req q. tasks c ! k = Reconciling s req q \<Longrightarrow> q = p"
      "\<And>s e q. tasks c ! k = Reconciled s e q \<Longrightarrow> q = p"
  shows "keeps_waits c (drop_task k d)"
  using assms(1,3-7)
  by (intro keeps_waits_trans[OF assms(2)] dropped_waits) (auto simp: attach_covered_def reconcile_covered_def drop_task_def)

lemma resume_waits:
  assumes k: "k < length (tasks c)" and "ready c (tasks c ! k)"
  shows "keeps_waits c (resume refused k c)"
proof -
  define t r where "t = tasks c ! k" and "r = result_of c t"
  have step: "resume refused k c = resume_task refused r t (drop_task k c)"
    by (simp add: resume_def Let_def t_def r_def drop_task_def)
  have plain: "keeps_waits c (drop_task k c)"
    if "\<And>s v req p. t \<noteq> Attaching s v req p" "\<And>s req p. t \<noteq> Reconciling s req p" "\<And>s e p. t \<noteq> Reconciled s e p"
    using that by (intro dropped_waits[OF k]) (auto simp: t_def)
  note go_on = keeps_waits_trans[OF plain]
  show ?thesis
  proof (cases t)
    case (Creating req out)
    then have plain: "keeps_waits c (drop_task k c)" by (intro plain) simp_all
    note reserved = keeps_waits_trans[OF plain reserve_waits]
    show ?thesis
      using plain by (auto simp: step Creating resume_creating_def Let_def split: sum.splits outcome.splits
          intro!: waits_steps(1) waits_field(5) dest: reserved)
  next
    case (AcquireDetaching s token p out)
    then show ?thesis by (simp add: step go_on[OF _ _ _ acquire_reconcile_waits])
  next
    case (AcquireReconciling s token p out)
    then have plain: "keeps_waits c (drop_task k c)" by (intro plain) simp_all
    then show ?thesis
      by (auto simp: step AcquireReconciling acquire_fails_def split: sum.splits
          intro!: waits_steps(1) waits_field(4) keeps_waits_trans[OF plain acquire_attach_waits])
  next
    case (AcquireAttaching s token p out)
    then have plain: "keeps_waits c (drop_task k c)" by (intro plain) simp_all
    let ?d = "(drop_task k c)\<lparr>sessionAttachments := forget_promise s p (sessionAttachments (drop_task k c))\<rparr>"
    have "keeps_waits c ?d"
      by (rule keeps_waits_trans[OF plain map_waits(1)]) (simp add: waits_ok_def entries_updated(3))
    then show ?thesis
      by (auto simp: step AcquireAttaching resume_acquire_attaching_def acquire_fails_def Let_def split: sum.splits
          intro!: waits_steps(1) waits_field(4,5))
  next
    case (Attaching s previous req p)
    have "keeps_waits c (settle p v (c\<lparr>view := w\<rparr>))" if "v \<noteq> Pending" for v w
      by (intro waits_steps(1) waits_field(1) keeps_waits_refl that)
    then have kept: "keeps_waits c (drop_task k (settle p v (c\<lparr>view := w\<rparr>)))" if "v \<noteq> Pending" for v w
      by (rule settled_dropped[OF k, where p = p]) (use that Attaching in \<open>auto simp: t_def settle_def\<close>)
    show ?thesis
      using kept kept[where w = "view c"]
      by (auto simp: step Attaching resume_attaching_def drop_task_commutes split: sum.splits option.splits)
  next
    case (Releasing i relinquish req p)
    then have plain: "keeps_waits c (drop_task k c)" by (intro plain) simp_all
    have "keeps_waits d (d\<lparr>sessionDetachments := forget_promise s req (sessionDetachments d)\<rparr>)" for d s
      by (rule map_waits(2)) (simp add: waits_ok_def entries_updated(3))
    note forget = keeps_waits_trans[OF plain this] keeps_waits_trans[OF waits_field(4)[OF plain] this]
    have "sessionDetachments (releaseSessionLease s token d) = sessionDetachments d" for s token d
      by (simp add: releaseSessionLease_def Let_def)
    with forget show ?thesis
      by (auto simp: step Releasing resume_releasing_def Let_def split: sum.splits
          intro!: waits_steps(1,3) waits_field(3))
  next
    case (ReleaseFailed i relinquish e p)
    then have plain: "keeps_waits c (drop_task k c)" by (intro plain) simp_all
    then show ?thesis
      by (auto simp: step ReleaseFailed resume_release_failed_def Let_def intro!: waits_steps(1) waits_field(2-4))
  next
    case (Reconciling s req p)
    have kept: "keeps_waits c (drop_task k (suspend (Reconciled s e p) (c\<lparr>sessionCleanupRequired := x\<rparr>)))" for e x
      using Reconciling k
      by (intro keeps_waits_trans[OF waits_steps(3)[OF waits_field(2)[OF keeps_waits_refl]] dropped_waits])
        (auto simp: t_def suspend_def nth_append reconcile_covered_def drop_task_def)
    show ?thesis
      using k kept kept[where x = "sessionCleanupRequired c"]
      by (auto simp: step Reconciling drop_task_commutes split: sum.splits)
  next
    case (Reconciled s e p)
    let ?v = "case e of None \<Rightarrow> Fulfilled NoValue | Some e \<Rightarrow> Rejected e"
    let ?d = "settle p ?v (c\<lparr>sessionReconciliations := AList.delete s (sessionReconciliations c)\<rparr>)"
    have v: "?v \<noteq> Pending" by (simp split: option.splits)
    have "keeps_waits c ?d"
      by (intro waits_steps(1) map_waits(3) v) (simp add: waits_ok_def entries_updated(2))
    then have "keeps_waits c (drop_task k ?d)"
      by (rule settled_dropped[OF k, where p = p]) (use v Reconciled in \<open>auto simp: t_def settle_def\<close>)
    then show ?thesis by (simp add: step Reconciled drop_task_commutes) (simp add: drop_task_def)
  qed
qed

subsection \<open>Every reachable client\<close>

lemma connect_waits:
  assumes "sound_connection c"
  shows "keeps_waits c (snd (client_connect c))"
proof -
  have decoder: "\<exists>d. newServerMessageDecoder (frameLimit c) = Inr d"
    using assms newServerMessageDecoder_valid by (auto simp: sound_connection_def)
  then have "keeps_waits (c\<lparr>view := v\<rparr>) (snd (connect client_owner (c\<lparr>view := v\<rparr>)))" for v
    by (intro owner.connect_related) simp
  with decoder show ?thesis
    by (auto simp: client_connect_def intro: owner.connect_related keeps_waits_trans[OF waits_field(1)[OF keeps_waits_refl]])
qed

lemma dispose_waits: "keeps_waits c (dispose c)"
proof -
  have "keeps_waits c (c\<lparr>disposed := True\<rparr>)" by (rule waits_unchanged) simp_all
  note start = keeps_waits_trans[OF this reject_waits[where e = ClientDisposedError]]
  note closed = keeps_waits_trans[OF start owner.environment_related(1)[where e = ClientDisposedError]]
  note ended = keeps_waits_trans[OF waits_field(1)[OF closed] invalidate_waits]
  have "keeps_waits d (d\<lparr>connectionStateListeners := []\<rparr>)" for d by (rule waits_unchanged) simp_all
  from keeps_waits_trans[OF ended this] show ?thesis by (simp add: dispose_def Let_def)
qed

lemma perform_waits: "sound_connection c \<Longrightarrow> possible a c \<Longrightarrow> keeps_waits c (perform a c)"
proof (cases a)
  case (Listen l)
  then show ?thesis by (simp add: onConnectionStateChange_def waits_unchanged)
next
  case (Resume refused k)
  moreover assume "possible a c"
  ultimately show ?thesis by (simp add: resume_waits)
qed (simp_all add: connect_waits dispose_waits client_disconnect_def owner.environment_related owner.transport_opened_related
    owner.handleData_related owner.handleClose_related request_waits createSession_waits acquireSession_waits
    lease_request_waits release_lease_waits)

lemma reachable_waits: "client_reachable c \<Longrightarrow> waits_ok c"
proof (induction rule: client_reachable.induct)
  case (start limit n)
  then show ?case by (simp add: new_client_def waits_ok_def entries_covered_def)
next
  case (step c a)
  with perform_waits[OF reachable_sound[OF step.hyps(1)] step.hyps(2)] show ?case by (simp add: keeps_waits_def)
qed

text \<open>A task that is not ready leads to a pending request, directly or through another task.\<close>

lemma covered_task_ready:
  assumes "waits_ok c" and "pendingRequests c = []" and "t \<in> set (tasks c)"
  shows "\<exists>u \<in> set (tasks c). ready c u"
proof -
  have settled: "promises c p \<noteq> Pending" if "request_covered c p" for p
    using that assms(2) by (simp add: request_covered_def pending_promises_def)
  have waits: "task_covered c u" if "u \<in> set (tasks c)" for u using assms(1) that by (simp add: waits_ok_def)
  have attaching: "ready c (Attaching s v req p)" if "Attaching s v req p \<in> set (tasks c)" for s v req p
    using waits[OF that] settled by (simp add: ready_def)
  have reconciling: "ready c (Reconciling s req p)" if "Reconciling s req p \<in> set (tasks c)" for s req p
    using waits[OF that] settled by (simp add: ready_def)
  have reconciled: "ready c (Reconciled s e p)" for s e p by (simp add: ready_def)
  show ?thesis
  proof (cases "ready c t")
    case False
    with waits[OF assms(3)] settled show ?thesis
    proof (cases t)
      case (AcquireReconciling s token p out)
      with False waits[OF assms(3)] have "reconcile_covered c p" "promises c p = Pending" by (simp_all add: ready_def)
      with reconciling reconciled show ?thesis unfolding reconcile_covered_def by blast
    next
      case (AcquireAttaching s token p out)
      with False waits[OF assms(3)] have "attach_covered c p" "promises c p = Pending" by (simp_all add: ready_def)
      with attaching show ?thesis unfolding attach_covered_def by blast
    qed (auto simp: ready_def)
  qed (use assms(3) in blast)
qed

text \<open>C39: No call of a client waits in vain. As long as calls are suspended, either one of them can go on, or a
  request is in flight over a live connection; and when the connection is lost, no request is left over, so
  that every suspended call can be finished.\<close>

theorem no_call_waits_in_vain:
  assumes "client_reachable c" and "tasks c \<noteq> []"
  shows "(\<exists>k < length (tasks c). possible (Resume None k) c) \<or> pendingRequests c \<noteq> [] \<and> is_connected (lifecycle c)"
proof (cases "pendingRequests c = []")
  case True
  from assms(2) obtain t where "t \<in> set (tasks c)" by (cases "tasks c") auto
  from covered_task_ready[OF reachable_waits[OF assms(1)] True this] show ?thesis
    by (auto simp: in_set_conv_nth)
next
  case False
  with reachable_waits[OF assms(1)] show ?thesis by (simp add: waits_ok_def)
qed

lemma no_call_waits_in_vain_witness:
  "\<exists>c. client_reachable c \<and> tasks c \<noteq> [] \<and> pendingRequests c = [] \<and> (\<exists>k < length (tasks c). possible (Resume None k) c)"
proof -
  let ?c = "perform (Acquire None (js_of ''s'') SharedLease) (new_client (JInt 1000))"
  have reachable: "client_reachable ?c"
    by (intro client_reachable.step client_reachable.start[OF new_client_valid]) simp_all
  have "tasks ?c \<noteq> []" "pendingRequests ?c = []"
    by (simp_all add: acquireSession_def new_promise_def new_client_def reserveSessionLease_def count_of_leases_def Let_def
        acquire_reconcile_def acquire_attach_def attachSession_def forgetSessionSnapshot_def request_def settle_def suspend_def
        new_view_def)
  with no_call_waits_in_vain[OF reachable] reachable show ?thesis by blast
qed

end
