(* ===== verification/ClientLeases.thy ===== *)
theory ClientLeases
  imports ClientWaits "HOL-Library.Multiset"
begin

section \<open>Leases are counted, and exclusive leases are exclusive\<close>

text \<open>
  A client counts the leases on each session and remembers who holds an exclusive one. The count is right, and
  an exclusive lease is the only one, as long as a session is not invalidated (removed by the server, or all
  of them by a lost connection) while an acquisition or a release of it is under way. Without this
  condition it is wrong; the last section shows a run that ends with two exclusive leases.
\<close>

subsection \<open>Who holds a token\<close>

fun task_token :: "js_string \<Rightarrow> task \<Rightarrow> lease_token list" where
  "task_token s (AcquireDetaching s' token p out) = (if s' = s then [token] else [])"
| "task_token s (AcquireReconciling s' token p out) = (if s' = s then [token] else [])"
| "task_token s (AcquireAttaching s' token p out) = (if s' = s then [token] else [])"
| "task_token s _ = []"

fun task_release :: "task \<Rightarrow> nat list" where
  "task_release (Releasing i relinquish req p) = [i]"
| "task_release (ReleaseFailed i relinquish e p) = [i]"
| "task_release _ = []"

definition acquiring :: "js_string \<Rightarrow> client \<Rightarrow> lease_token list" where
  "acquiring s c = concat (map (task_token s) (tasks c))"

definition releasing :: "client \<Rightarrow> nat list" where
  "releasing c = concat (map task_release (tasks c))"

definition lease_current :: "client \<Rightarrow> lease \<Rightarrow> bool" where
  "lease_current c l \<longleftrightarrow> (leaseState l = LeaseActive \<or> leaseState l = LeaseReleasing) \<and>
     map_of (sessionLeaseGenerations c) (leaseSession l) = Some (leaseGeneration l)"

definition leased :: "js_string \<Rightarrow> client \<Rightarrow> lease_token list" where
  "leased s c = map leaseToken (filter (\<lambda>l. leaseSession l = s \<and> lease_current c l) (leases c))"

text \<open>A running operation may hold tokens \<open>xs\<close> and releases \<open>ys\<close> that no suspended call has.\<close>

definition held :: "(js_string \<times> lease_token) list \<Rightarrow> js_string \<Rightarrow> client \<Rightarrow> lease_token list" where
  "held xs s c = map snd (filter (\<lambda>x. fst x = s) xs) @ acquiring s c @ leased s c"

definition underway :: "(js_string \<times> lease_token) list \<Rightarrow> nat list \<Rightarrow> js_string \<Rightarrow> client \<Rightarrow> bool" where
  "underway xs ys s c \<longleftrightarrow> s \<in> fst ` set xs \<or> acquiring s c \<noteq> [] \<or> (\<exists>i \<in> set (ys @ releasing c). leaseSession (leases c ! i) = s)"

fun token_number :: "lease_token \<Rightarrow> nat" where
  "token_number (LeaseToken n mode) = n"

fun token_mode :: "lease_token \<Rightarrow> lease_mode" where
  "token_mode (LeaseToken n mode) = mode"

text \<open>The tokens of one session: their number, the exclusive one, and a bound for the numbers of tokens.\<close>

definition tokens_ok :: "nat \<Rightarrow> lease_token option \<Rightarrow> nat \<Rightarrow> lease_token list \<Rightarrow> bool" where
  "tokens_ok n ex b ts \<longleftrightarrow> n = length ts \<and> distinct ts \<and> (\<forall>t \<in> set ts. token_number t < b) \<and>
     (\<forall>t. ex = Some t \<longleftrightarrow> t \<in> set ts \<and> token_mode t = ExclusiveLease) \<and>
     (\<forall>t \<in> set ts. token_mode t = ExclusiveLease \<longrightarrow> ts = [t])"

definition session_ok :: "(js_string \<times> lease_token) list \<Rightarrow> client \<Rightarrow> js_string \<Rightarrow> bool" where
  "session_ok xs c s \<longleftrightarrow>
     tokens_ok (count_of_leases s c) (map_of (exclusiveSessionLeases c) s) (nextToken c) (held xs s c)"

definition releases_ok :: "nat list \<Rightarrow> client \<Rightarrow> bool" where
  "releases_ok ys c \<longleftrightarrow>
     distinct (ys @ releasing c) \<and>
     (\<forall>i \<in> set (ys @ releasing c). i < length (leases c) \<and> lease_current c (leases c ! i)) \<and>
     (\<forall>i < length (leases c). leaseState (leases c ! i) = LeaseReleasing \<longleftrightarrow> i \<in> set (ys @ releasing c)) \<and>
     (\<forall>l \<in> set (leases c). map_of (sessionLeaseGenerations c) (leaseSession l) \<noteq> None \<and>
        leaseGeneration l \<le> generation_of (leaseSession l) c)"

definition leases_ok :: "(js_string \<times> lease_token) list \<Rightarrow> nat list \<Rightarrow> client \<Rightarrow> bool" where
  "leases_ok xs ys c \<longleftrightarrow> (\<forall>s. session_ok xs c s) \<and> releases_ok ys c"

subsection \<open>Steps that only invalidate\<close>

definition same_session :: "js_string \<Rightarrow> client \<Rightarrow> client \<Rightarrow> bool" where
  "same_session s c d \<longleftrightarrow> map_of (sessionLeaseCounts d) s = map_of (sessionLeaseCounts c) s \<and>
     map_of (exclusiveSessionLeases d) s = map_of (exclusiveSessionLeases c) s \<and>
     map_of (sessionLeaseGenerations d) s = map_of (sessionLeaseGenerations c) s"

definition invalidated :: "js_string \<Rightarrow> client \<Rightarrow> client \<Rightarrow> bool" where
  "invalidated s c d \<longleftrightarrow> map_of (sessionLeaseCounts d) s = None \<and> map_of (exclusiveSessionLeases d) s = None \<and>
     (\<exists>g. map_of (sessionLeaseGenerations d) s = Some g \<and> generation_of s c < g)"

definition only_invalidates :: "client \<Rightarrow> client \<Rightarrow> bool" where
  "only_invalidates c d \<longleftrightarrow>
     leases d = leases c \<and> nextToken d = nextToken c \<and> (\<forall>s. acquiring s d = acquiring s c) \<and> releasing d = releasing c \<and>
     (\<forall>s. same_session s c d \<or> invalidated s c d)"

lemma same_session_generation: "same_session s c d \<Longrightarrow> generation_of s d = generation_of s c"
  by (simp add: same_session_def generation_of_def)

lemma invalidated_generation: "invalidated s c d \<Longrightarrow> generation_of s c < generation_of s d"
  by (auto simp: invalidated_def generation_of_def)

lemma only_invalidates_grows: "only_invalidates c d \<Longrightarrow> generation_of s c \<le> generation_of s d"
  unfolding only_invalidates_def by (metis invalidated_generation same_session_generation less_imp_le order_refl)

lemma only_invalidates_refl [simp]: "only_invalidates c c"
  by (simp add: only_invalidates_def same_session_def)

lemma only_invalidates_trans:
  assumes "only_invalidates c d" "only_invalidates d e"
  shows "only_invalidates c e"
proof -
  have "same_session s c e \<or> invalidated s c e" for s
  proof -
    consider "same_session s c d" "same_session s d e" | "same_session s c d" "invalidated s d e"
      | "invalidated s c d" "same_session s d e" | "invalidated s c d" "invalidated s d e"
      using assms by (auto simp: only_invalidates_def)
    then show ?thesis
    proof cases
      case 1
      then show ?thesis by (simp add: same_session_def)
    next
      case 2
      then show ?thesis using same_session_generation[OF 2(1)] by (auto simp: invalidated_def)
    next
      case 3
      then show ?thesis by (simp add: same_session_def invalidated_def)
    next
      case 4
      then show ?thesis using invalidated_generation[OF 4(1)] by (auto simp: invalidated_def)
    qed
  qed
  with assms show ?thesis by (simp add: only_invalidates_def)
qed

lemma leases_kept:
  assumes ok: "leases_ok xs ys c" and only: "only_invalidates c d"
    and calm: "\<And>s. underway xs ys s c \<Longrightarrow> generation_of s d = generation_of s c"
  shows "leases_ok xs ys d"
proof -
  have same: "leases d = leases c" "nextToken d = nextToken c" "releasing d = releasing c" "\<And>s. acquiring s d = acquiring s c"
    using only by (simp_all add: only_invalidates_def)
  have ss: "same_session s c d" if "underway xs ys s c" for s
    using only calm[OF that] invalidated_generation[of s c d] by (auto simp: only_invalidates_def)
  have "session_ok xs d s" for s
  proof (cases "same_session s c d")
    case True
    then have "leased s d = leased s c"
      unfolding leased_def same(1) by (intro arg_cong[where f = "map leaseToken"] filter_cong) (auto simp: lease_current_def same_session_def)
    then have held: "held xs s d = held xs s c" by (simp add: held_def same)
    have at_s: "map_of (sessionLeaseCounts d) s = map_of (sessionLeaseCounts c) s"
      "map_of (exclusiveSessionLeases d) s = map_of (exclusiveSessionLeases c) s"
      using True by (simp_all add: same_session_def)
    have "session_ok xs d s = session_ok xs c s" unfolding session_ok_def count_of_leases_def held at_s same ..
    with ok show ?thesis unfolding leases_ok_def by blast
  next
    case False
    with only have gone: "invalidated s c d" by (auto simp: only_invalidates_def)
    have "\<not> underway xs ys s c" using ss False by blast
    then have "filter (\<lambda>x. fst x = s) xs = []" "acquiring s c = []" by (auto simp: underway_def filter_empty_conv)
    moreover have "\<not> lease_current d l" if "l \<in> set (leases c)" "leaseSession l = s" for l
    proof -
      have "leaseGeneration l \<le> generation_of s c" using ok that by (auto simp: leases_ok_def releases_ok_def)
      moreover obtain g where "map_of (sessionLeaseGenerations d) s = Some g" "generation_of s c < g"
        using gone by (auto simp: invalidated_def)
      ultimately show ?thesis using that(2) by (simp add: lease_current_def)
    qed
    then have "leased s d = []" by (auto simp: leased_def filter_empty_conv same)
    ultimately have "held xs s d = []" by (simp add: held_def same)
    with gone show ?thesis by (simp add: session_ok_def invalidated_def count_of_leases_def tokens_ok_def)
  qed
  moreover have "lease_current d (leases c ! i)" if i: "i \<in> set (ys @ releasing c)" for i
  proof -
    have "underway xs ys (leaseSession (leases c ! i)) c" using i by (auto simp: underway_def)
    with ss[OF this] ok i show ?thesis by (auto simp: leases_ok_def releases_ok_def lease_current_def same_session_def)
  qed
  moreover have "leaseGeneration l \<le> generation_of (leaseSession l) d" if "l \<in> set (leases c)" for l
    using ok that only_invalidates_grows[OF only] by (fastforce simp: leases_ok_def releases_ok_def intro: le_trans)
  moreover have "map_of (sessionLeaseGenerations d) (leaseSession l) \<noteq> None" if "l \<in> set (leases c)" for l
  proof -
    have "map_of (sessionLeaseGenerations c) (leaseSession l) \<noteq> None" using ok that by (simp add: leases_ok_def releases_ok_def)
    moreover have "same_session (leaseSession l) c d \<or> invalidated (leaseSession l) c d" using only by (simp add: only_invalidates_def)
    ultimately show ?thesis by (auto simp: same_session_def invalidated_def)
  qed
  ultimately show ?thesis using ok by (simp add: leases_ok_def releases_ok_def same)
qed

named_theorems only_intros

lemma only_unchanged:
  assumes "leases d = leases c" "nextToken d = nextToken c" "tasks d = tasks c" "sessionLeaseCounts d = sessionLeaseCounts c"
    "exclusiveSessionLeases d = exclusiveSessionLeases c" "sessionLeaseGenerations d = sessionLeaseGenerations c"
  shows "only_invalidates c d"
  using assms by (simp add: only_invalidates_def same_session_def acquiring_def releasing_def)

lemma only_after:
  assumes "only_invalidates c d" "leases e = leases d" "nextToken e = nextToken d" "tasks e = tasks d"
    "sessionLeaseCounts e = sessionLeaseCounts d" "exclusiveSessionLeases e = exclusiveSessionLeases d"
    "sessionLeaseGenerations e = sessionLeaseGenerations d"
  shows "only_invalidates c e"
  using only_invalidates_trans[OF assms(1) only_unchanged[OF assms(2-7)]] .

lemma invalidate_only: "only_invalidates c (invalidateSessionLeases s c)"
proof -
  have "same_session t c (invalidateSessionLeases s c) \<or> invalidated t c (invalidateSessionLeases s c)" for t
    by (cases "t = s")
      (auto simp: same_session_def invalidated_def invalidateSessionLeases_def delete_conv' update_conv')
  then show ?thesis by (simp add: only_invalidates_def acquiring_def releasing_def) (simp add: invalidateSessionLeases_def)
qed

lemma invalidateAll_only: "only_invalidates c (invalidateAllSessionLeases c)"
proof -
  have "only_invalidates d (fold invalidateSessionLeases ss d)" for ss d
    by (induction ss arbitrary: d) (auto intro: only_invalidates_trans[OF invalidate_only])
  from only_after[OF this] show ?thesis by (simp add: invalidateAllSessionLeases_def)
qed

lemma reject_only: "only_invalidates c (rejectPendingRequests e c)"
  by (rule only_unchanged) (simp_all add: reject_all)

lemma change_only: "only_invalidates c (handleConnectionStateChange s (c\<lparr>lifecycle := l, effects := es\<rparr>))"
proof (cases s)
  case (NowDisconnected e)
  let ?d = "c\<lparr>lifecycle := l, effects := es, view := clearAttachments (view c)\<rparr>"
  have "only_invalidates c ?d" by (rule only_unchanged) simp_all
  note only_invalidates_trans[OF only_invalidates_trans[OF this invalidateAll_only] reject_only]
  from only_after[OF this] show ?thesis by (simp add: NowDisconnected handleConnectionStateChange_def Let_def)
qed (simp_all add: handleConnectionStateChange_def only_unchanged)

lemma deliver_only: "only_invalidates c (deliver r c)"
  by (rule only_unchanged) (simp_all add: deliver_def)

interpretation basics_only: connection_relation client_basics only_invalidates
proof
  fix c :: client and s
  show "only_invalidates c (onStateChange client_basics s c)"
    using change_only[where c = c and s = s and l = "lifecycle c" and es = "effects c"] by (simp add: client_basics_def)
qed (simp_all add: client_basics_def deliver_only change_only only_unchanged, erule (1) only_invalidates_trans)

lemma settle_only: "only_invalidates c (settle p r c)"
  by (rule only_unchanged) (simp_all add: settle_def)

lemma client_message_only: "only_invalidates c (handle_client_message m c)"
proof -
  have event: "only_invalidates c (handle_event e c)" for e
    unfolding handle_event_def Let_def
    by (cases "event_is ''session_removed'' e") (simp_all add: deliver_only only_invalidates_trans[OF invalidate_only deliver_only])
  have taken: "only_invalidates c (c\<lparr>pendingRequests := ps\<rparr>)" for ps
    by (rule only_unchanged) simp_all
  have "only_invalidates c (handle_response m c)"
    by (auto simp: handle_response_def takePendingRequest_def Let_def split: option.splits
        intro: only_invalidates_trans[OF taken basics_only.failAndClose_related] only_invalidates_trans[OF taken settle_only]
          only_invalidates_trans[OF only_invalidates_trans[OF taken settle_only] basics_only.failAndClose_related]
          only_invalidates_trans[OF only_invalidates_trans[OF taken deliver_only] settle_only])
  with event show ?thesis by (simp add: handle_client_message_def)
qed

interpretation owner_only: connection_relation client_owner only_invalidates
  unfolding connection_relation_def client_owner_simps
  by (intro conjI allI impI only_invalidates_refl basics_only.handshake basics_only.change basics_only.lost basics_only.effect
      basics_only.decoder basics_only.attempt basics_only.connected client_message_only) (rule only_invalidates_trans)

text \<open>The client's own operations that touch no lease.\<close>

lemma only_suspend: "task_release t = [] \<Longrightarrow> (\<And>s. task_token s t = []) \<Longrightarrow> only_invalidates c (suspend t c)"
  by (simp add: only_invalidates_def same_session_def acquiring_def releasing_def suspend_def)

lemma new_promise_only: "only_invalidates c (snd (new_promise c))"
  by (rule only_unchanged) (simp_all add: new_promise_def)

lemma request_only: "only_invalidates c (snd (request refused command c))"
proof -
  obtain p d where n: "new_promise c = (p, d)" by fastforce
  then have cd: "only_invalidates c d" using new_promise_only by (metis snd_conv)
  have entered: "only_invalidates c (d\<lparr>requestSequence := k, pendingRequests := ps\<rparr>)" for k ps
    by (rule only_after[OF cd]) simp_all
  have left: "only_invalidates c (settle q r (snd (takePendingRequest i (d\<lparr>requestSequence := k, pendingRequests := ps\<rparr>))))" for q r i k ps
    by (rule only_after[OF cd]) (simp_all add: takePendingRequest_def settle_def)
  show ?thesis
    using n cd left
    by (auto simp: request_def Let_def split: sum.splits
        intro: only_invalidates_trans[OF cd settle_only] only_invalidates_trans[OF entered owner_only.send_frame_related])
qed

lemma attachSession_only: "only_invalidates c (snd (attachSession refused s c))"
proof -
  have "only_invalidates c (c\<lparr>view := v\<rparr>)" for v by (rule only_unchanged) simp_all
  note r = only_invalidates_trans[OF only_invalidates_trans[OF this request_only] new_promise_only]
  show ?thesis
    unfolding attachSession_def forgetSessionSnapshot_def
    by (auto split: prod.splits intro!: only_invalidates_trans[OF _ only_suspend]) (metis r snd_conv)
qed

lemma reconcile_only: "only_invalidates c (snd (reconcileSessionCleanup refused s c))"
proof -
  note r = only_invalidates_trans[OF request_only new_promise_only]
  have "only_invalidates d (d\<lparr>sessionReconciliations := rs\<rparr>)" for d rs by (rule only_unchanged) simp_all
  note r' = only_invalidates_trans[OF r this]
  show ?thesis
    by (auto simp: reconcileSessionCleanup_def split: prod.splits option.splits intro!: only_invalidates_trans[OF _ only_suspend])
      (metis r' snd_conv)
qed

subsection \<open>Tokens on the move\<close>

lemma tokens_permuted:
  assumes "tokens_ok n ex b ts" and "mset us = mset ts"
  shows "tokens_ok n ex b us"
proof -
  have "length us = length ts" "set us = set ts" using mset_eq_length[OF assms(2)] mset_eq_setD[OF assms(2)] .
  moreover have "distinct us = distinct ts" using mset_eq_imp_distinct_iff[OF assms(2)] .
  moreover have "ts = [t] \<Longrightarrow> us = [t]" for t using assms(2) by simp
  ultimately show ?thesis using assms(1) unfolding tokens_ok_def by metis
qed

lemma tokens_added:
  assumes "tokens_ok n ex b ts" and "mode = ExclusiveLease \<Longrightarrow> n = 0" "mode = SharedLease \<Longrightarrow> ex = None"
  shows "tokens_ok (Suc n) (if mode = ExclusiveLease then Some (LeaseToken b mode) else ex) (Suc b) (LeaseToken b mode # ts)"
proof (cases mode)
  case ExclusiveLease
  with assms show ?thesis by (auto simp: tokens_ok_def)
next
  case SharedLease
  then have "ex = None" using assms(3) by simp
  with assms(1) have "\<forall>t \<in> set ts. token_mode t \<noteq> ExclusiveLease" by (auto simp: tokens_ok_def)
  with assms(1) SharedLease \<open>ex = None\<close> show ?thesis by (fastforce simp: tokens_ok_def)
qed

lemma tokens_removed:
  assumes "tokens_ok n ex b (t # ts)"
  shows "tokens_ok (n - 1) (if ex = Some t then None else ex) b ts"
proof (cases "token_mode t = ExclusiveLease")
  case True
  with assms have "ts = []" "ex = Some t" by (auto simp: tokens_ok_def)
  with assms show ?thesis by (simp add: tokens_ok_def)
next
  case False
  with assms have "ex \<noteq> Some t" by (auto simp: tokens_ok_def)
  moreover from this have "u \<in> set ts \<and> token_mode u = ExclusiveLease \<longleftrightarrow> ex = Some u" for u
    using assms False by (auto simp: tokens_ok_def)
  moreover have "\<forall>u \<in> set ts. token_mode u \<noteq> ExclusiveLease"
    using assms False by (auto simp: tokens_ok_def)
  ultimately show ?thesis using assms by (auto simp: tokens_ok_def)
qed

lemma tokens_below: "tokens_ok n ex b ts \<Longrightarrow> b \<le> b' \<Longrightarrow> tokens_ok n ex b' ts"
  by (fastforce simp: tokens_ok_def)

text \<open>What counts is who holds a token, not in which form.\<close>

lemma tokens_moved:
  assumes "session_ok xs c s" and "mset (held xs' s d) = mset (held xs s c)"
    and "count_of_leases s d = count_of_leases s c" "map_of (exclusiveSessionLeases d) s = map_of (exclusiveSessionLeases c) s"
    and "nextToken d = nextToken c"
  shows "session_ok xs' d s"
  using tokens_permuted[OF assms(1)[unfolded session_ok_def] assms(2)] unfolding session_ok_def assms(3-5) .

lemma generation_same:
  "sessionLeaseGenerations d = sessionLeaseGenerations c \<Longrightarrow> lease_current d = lease_current c \<and> generation_of s d = generation_of s c"
  by (simp add: fun_eq_iff lease_current_def generation_of_def)

lemma leased_same:
  "leases d = leases c \<Longrightarrow> sessionLeaseGenerations d = sessionLeaseGenerations c \<Longrightarrow> leased s d = leased s c"
  by (simp add: leased_def generation_same[of d c])

lemma releases_same:
  assumes "releases_ok ys c" and "leases d = leases c" "sessionLeaseGenerations d = sessionLeaseGenerations c"
    and "mset (ys' @ releasing d) = mset (ys @ releasing c)"
  shows "releases_ok ys' d"
proof -
  have "distinct (ys' @ releasing d) = distinct (ys @ releasing c)" "set (ys' @ releasing d) = set (ys @ releasing c)"
    using mset_eq_imp_distinct_iff[OF assms(4)] mset_eq_setD[OF assms(4)] .
  with assms(1) generation_same[OF assms(3)] show ?thesis unfolding releases_ok_def assms(2,3) by simp
qed

text \<open>Reserving, suspending, releasing.\<close>

lemma reserve_ok:
  assumes ok: "leases_ok [] ys c" and r: "reserveSessionLease s mode c = Inr (token, d)"
  shows "leases_ok [(s, token)] ys d"
proof -
  have d: "token = LeaseToken (nextToken c) mode" "nextToken d = Suc (nextToken c)" "leases d = leases c" "tasks d = tasks c"
    "sessionLeaseGenerations d = sessionLeaseGenerations c"
    "sessionLeaseCounts d = AList.update s (count_of_leases s c + 1) (sessionLeaseCounts c)"
    "exclusiveSessionLeases d = (if mode = ExclusiveLease then AList.update s token (exclusiveSessionLeases c) else exclusiveSessionLeases c)"
    using r by (auto simp: reserveSessionLease_def Let_def split: if_splits)
  have free: "mode = ExclusiveLease \<Longrightarrow> count_of_leases s c = 0" "mode = SharedLease \<Longrightarrow> map_of (exclusiveSessionLeases c) s = None"
    using r by (auto simp: reserveSessionLease_def Let_def split: if_splits)
  have held: "held [(s, token)] s' d = (if s' = s then token # held [] s c else held [] s' c)" for s'
    using leased_same[OF d(3,5)] by (simp add: held_def acquiring_def d(4))
  have before: "session_ok [] c s'" for s' using ok by (simp add: leases_ok_def)
  have "session_ok [(s, token)] d s'" for s'
  proof (cases "s' = s")
    case False
    then have "count_of_leases s' d = count_of_leases s' c" "map_of (exclusiveSessionLeases d) s' = map_of (exclusiveSessionLeases c) s'"
      by (auto simp: count_of_leases_def d update_conv')
    with tokens_below[OF before[of s', unfolded session_ok_def], of "nextToken d"] False held show ?thesis
      by (simp add: session_ok_def d(2))
  next
    case True
    have "count_of_leases s d = Suc (count_of_leases s c)" by (simp add: count_of_leases_def d update_conv')
    moreover have "map_of (exclusiveSessionLeases d) s = (if mode = ExclusiveLease then Some token else map_of (exclusiveSessionLeases c) s)"
      by (simp add: d update_conv')
    ultimately show ?thesis
      using tokens_added[OF before[of s, unfolded session_ok_def], where mode = mode, OF free, folded d(1)]
      unfolding session_ok_def True held d(2) by simp
  qed
  moreover have "releases_ok ys d"
    by (rule releases_same[where c = c and ys = ys], insert ok) (simp_all add: leases_ok_def releasing_def d)
  ultimately show ?thesis by (simp add: leases_ok_def)
qed

lemma suspend_simps [simp]:
  "leases (suspend t c) = leases c" "nextToken (suspend t c) = nextToken c" "sessionLeaseCounts (suspend t c) = sessionLeaseCounts c"
  "exclusiveSessionLeases (suspend t c) = exclusiveSessionLeases c" "sessionLeaseGenerations (suspend t c) = sessionLeaseGenerations c"
  "acquiring s (suspend t c) = acquiring s c @ task_token s t" "releasing (suspend t c) = releasing c @ task_release t"
  by (simp_all add: acquiring_def releasing_def suspend_def)

lemma suspend_acquiring_ok:
  assumes ok: "leases_ok [(s, token)] ys c" and t: "\<And>s'. task_token s' t = (if s' = s then [token] else [])" "task_release t = []"
  shows "leases_ok [] ys (suspend t c)"
proof -
  have leased: "leased s' (suspend t c) = leased s' c" for s' by (rule leased_same) simp_all
  have "session_ok [] (suspend t c) s'" for s'
  proof (rule tokens_moved[where xs = "[(s, token)]" and c = c])
    show "session_ok [(s, token)] c s'" using ok by (simp add: leases_ok_def)
  qed (simp_all add: held_def t(1) count_of_leases_def leased)
  moreover have "releases_ok ys (suspend t c)"
    by (rule releases_same[where c = c and ys = ys], insert ok) (simp_all add: leases_ok_def t(2))
  ultimately show ?thesis by (simp add: leases_ok_def)
qed

lemma suspend_releasing_ok:
  assumes ok: "leases_ok xs (i # ys) c" and t: "\<And>s. task_token s t = []" "task_release t = [i]"
  shows "leases_ok xs ys (suspend t c)"
proof -
  have leased: "leased s (suspend t c) = leased s c" for s by (rule leased_same) simp_all
  have "session_ok xs (suspend t c) s" for s
  proof (rule tokens_moved[where xs = xs and c = c])
    show "session_ok xs c s" using ok by (simp add: leases_ok_def)
  qed (simp_all add: held_def t(1) count_of_leases_def leased)
  moreover have "releases_ok ys (suspend t c)"
    by (rule releases_same[where c = c and ys = "i # ys"], insert ok) (simp_all add: leases_ok_def t(2))
  ultimately show ?thesis by (simp add: leases_ok_def)
qed

lemma release_ok:
  assumes ok: "leases_ok [(s, token)] ys c"
  shows "leases_ok [] ys (releaseSessionLease s token c)"
proof -
  let ?d = "releaseSessionLease s token c"
  have d: "leases ?d = leases c" "tasks ?d = tasks c" "nextToken ?d = nextToken c" "sessionLeaseGenerations ?d = sessionLeaseGenerations c"
    by (simp_all add: releaseSessionLease_def Let_def)
  have held: "held [(s, token)] s' c = (if s' = s then token # held [] s ?d else held [] s' ?d)" for s'
    using leased_same[OF d(1,4)] by (simp add: held_def acquiring_def d(2))
  have before: "session_ok [(s, token)] c s'" for s' using ok by (simp add: leases_ok_def)
  have "session_ok [] ?d s'" for s'
  proof (cases "s' = s")
    case False
    then have "count_of_leases s' ?d = count_of_leases s' c" "map_of (exclusiveSessionLeases ?d) s' = map_of (exclusiveSessionLeases c) s'"
      by (auto simp: count_of_leases_def releaseSessionLease_def Let_def update_conv' delete_conv')
    with before[of s'] False held show ?thesis by (simp add: session_ok_def d(3))
  next
    case True
    have "count_of_leases s ?d = count_of_leases s c - 1"
      by (auto simp: count_of_leases_def releaseSessionLease_def Let_def update_conv' delete_conv')
    moreover have "map_of (exclusiveSessionLeases ?d) s =
        (if map_of (exclusiveSessionLeases c) s = Some token then None else map_of (exclusiveSessionLeases c) s)"
      by (auto simp: releaseSessionLease_def Let_def delete_conv')
    ultimately show ?thesis
      using tokens_removed[of "count_of_leases s c" "map_of (exclusiveSessionLeases c) s" "nextToken c" token "held [] s ?d"] before[of s]
      by (simp add: session_ok_def True held d(3))
  qed
  moreover have "releases_ok ys ?d"
    by (rule releases_same[where c = c and ys = ys], insert ok) (simp_all add: leases_ok_def releasing_def d)
  ultimately show ?thesis by (simp add: leases_ok_def)
qed

lemma create_ok:
  assumes ok: "leases_ok [(s, token)] ys c"
  shows "leases_ok [] ys (createSessionLease s token out c)"
proof -
  let ?d = "createSessionLease s token out c"
  let ?l = "\<lparr>leaseSession = s, leaseToken = token, leaseGeneration = generation_of s c, leaseState = LeaseActive, releasePromise = None\<rparr>"
  have d: "leases ?d = leases c @ [?l]" "tasks ?d = tasks c" "nextToken ?d = nextToken c" "sessionLeaseCounts ?d = sessionLeaseCounts c"
    "exclusiveSessionLeases ?d = exclusiveSessionLeases c"
    "map_of (sessionLeaseGenerations ?d) = (map_of (sessionLeaseGenerations c))(s \<mapsto> generation_of s c)"
    by (simp_all add: createSessionLease_def settle_def Let_def update_conv' fun_eq_iff)
  have gen: "generation_of s' ?d = generation_of s' c" for s' by (simp add: generation_of_def d(6))
  have current: "lease_current ?d l = lease_current c l" if "l \<in> set (leases c)" for l
  proof -
    have "map_of (sessionLeaseGenerations c) (leaseSession l) \<noteq> None" using ok that by (simp add: leases_ok_def releases_ok_def)
    then show ?thesis by (auto simp: lease_current_def d(6) generation_of_def)
  qed
  have new: "lease_current ?d ?l" by (simp add: lease_current_def d(6))
  have leased: "leased s' ?d = leased s' c @ (if s' = s then [token] else [])" for s'
  proof -
    have "filter (\<lambda>l. leaseSession l = s' \<and> lease_current ?d l) (leases c) = filter (\<lambda>l. leaseSession l = s' \<and> lease_current c l) (leases c)"
      using current by (intro filter_cong) auto
    then show ?thesis using new by (simp add: leased_def d(1))
  qed
  have acquiring: "acquiring s' ?d = acquiring s' c" "releasing ?d = releasing c" for s'
    by (simp_all add: acquiring_def releasing_def d(2))
  have "session_ok [] ?d s'" for s'
  proof (rule tokens_moved[where xs = "[(s, token)]" and c = c])
    show "session_ok [(s, token)] c s'" using ok by (simp add: leases_ok_def)
  qed (simp_all add: held_def count_of_leases_def leased acquiring d)
  moreover have "releases_ok ys ?d"
  proof -
    have r: "distinct (ys @ releasing c)" "\<And>i. i \<in> set (ys @ releasing c) \<Longrightarrow> i < length (leases c) \<and> lease_current c (leases c ! i)"
      "\<And>i. i < length (leases c) \<Longrightarrow> leaseState (leases c ! i) = LeaseReleasing \<longleftrightarrow> i \<in> set (ys @ releasing c)"
      "\<And>l. l \<in> set (leases c) \<Longrightarrow> map_of (sessionLeaseGenerations c) (leaseSession l) \<noteq> None \<and> leaseGeneration l \<le> generation_of (leaseSession l) c"
      using ok unfolding leases_ok_def releases_ok_def by blast+
    have "i < length (leases ?d) \<and> lease_current ?d (leases ?d ! i)" if "i \<in> set (ys @ releasing c)" for i
      using r(2)[OF that] current[OF nth_mem] by (simp add: d(1) nth_append)
    moreover have "leaseState (leases ?d ! i) = LeaseReleasing \<longleftrightarrow> i \<in> set (ys @ releasing c)" if "i < length (leases ?d)" for i
    proof (cases "i < length (leases c)")
      case False
      then have "i \<notin> set (ys @ releasing c)" using r(2) by blast
      moreover have "leases ?d ! i = ?l" using False that by (simp add: d(1) nth_append)
      ultimately show ?thesis by simp
    qed (use r(3) in \<open>simp add: d(1) nth_append\<close>)
    moreover have "map_of (sessionLeaseGenerations ?d) (leaseSession l) \<noteq> None \<and> leaseGeneration l \<le> generation_of (leaseSession l) ?d"
      if "l \<in> set (leases ?d)" for l
    proof (cases "l = ?l")
      case False
      then show ?thesis using that r(4)[of l] unfolding gen d(1) d(6) by simp
    next
      case True
      then show ?thesis unfolding gen d(6) by simp
    qed
    ultimately show ?thesis using r(1) unfolding releases_ok_def acquiring(2) by blast
  qed
  ultimately show ?thesis by (simp add: leases_ok_def)
qed

text \<open>Changing the state of one lease.\<close>

lemma set_lease_simps [simp]:
  "leases (set_lease i l c) = (leases c)[i := l]" "nextToken (set_lease i l c) = nextToken c"
  "sessionLeaseCounts (set_lease i l c) = sessionLeaseCounts c" "exclusiveSessionLeases (set_lease i l c) = exclusiveSessionLeases c"
  "sessionLeaseGenerations (set_lease i l c) = sessionLeaseGenerations c" "lease_current (set_lease i l c) = lease_current c"
  "generation_of s (set_lease i l c) = generation_of s c" "count_of_leases s (set_lease i l c) = count_of_leases s c"
  "acquiring s (set_lease i l c) = acquiring s c" "releasing (set_lease i l c) = releasing c"
  by (simp_all add: set_lease_def lease_current_def fun_eq_iff acquiring_def releasing_def generation_of_def count_of_leases_def)

definition token_of_lease :: "js_string \<Rightarrow> client \<Rightarrow> lease \<Rightarrow> lease_token list" where
  "token_of_lease s c l = (if leaseSession l = s \<and> lease_current c l then [leaseToken l] else [])"

lemma leased_changed:
  assumes "i < length (leases c)"
  shows "mset (leased s (set_lease i l c)) + mset (token_of_lease s c (leases c ! i)) = mset (leased s c) + mset (token_of_lease s c l)"
proof -
  have split: "leases c = take i (leases c) @ leases c ! i # drop (Suc i) (leases c)" by (rule id_take_nth_drop[OF assms])
  have "mset (leased s c) = mset (map leaseToken (filter (\<lambda>l. leaseSession l = s \<and> lease_current c l) (take i (leases c)))) +
      mset (token_of_lease s c (leases c ! i)) +
      mset (map leaseToken (filter (\<lambda>l. leaseSession l = s \<and> lease_current c l) (drop (Suc i) (leases c))))"
    unfolding leased_def by (subst split) (simp add: token_of_lease_def)
  moreover have "mset (leased s (set_lease i l c)) =
      mset (map leaseToken (filter (\<lambda>l. leaseSession l = s \<and> lease_current c l) (take i (leases c)))) + mset (token_of_lease s c l) +
      mset (map leaseToken (filter (\<lambda>l. leaseSession l = s \<and> lease_current c l) (drop (Suc i) (leases c))))"
    unfolding leased_def by (simp add: upd_conv_take_nth_drop[OF assms] token_of_lease_def)
  ultimately show ?thesis by (simp add: ac_simps)
qed

lemma releases_changed:
  assumes ok: "releases_ok ys c" and i: "i < length (leases c)"
    and l: "leaseSession l = leaseSession (leases c ! i)" "leaseGeneration l = leaseGeneration (leases c ! i)"
    and ys: "distinct (ys' @ releasing c)" "set (ys' @ releasing c) - {i} = set (ys @ releasing c) - {i}"
    and st: "leaseState l = LeaseReleasing \<longleftrightarrow> i \<in> set (ys' @ releasing c)" "i \<in> set (ys' @ releasing c) \<Longrightarrow> lease_current c l"
  shows "releases_ok ys' (set_lease i l c)"
proof -
  have r: "\<And>j. j \<in> set (ys @ releasing c) \<Longrightarrow> j < length (leases c) \<and> lease_current c (leases c ! j)"
    "\<And>j. j < length (leases c) \<Longrightarrow> leaseState (leases c ! j) = LeaseReleasing \<longleftrightarrow> j \<in> set (ys @ releasing c)"
    "\<And>k. k \<in> set (leases c) \<Longrightarrow> map_of (sessionLeaseGenerations c) (leaseSession k) \<noteq> None \<and> leaseGeneration k \<le> generation_of (leaseSession k) c"
    using ok unfolding releases_ok_def by blast+
  have other: "j \<in> set (ys' @ releasing c) \<longleftrightarrow> j \<in> set (ys @ releasing c)" if "j \<noteq> i" for j using ys(2) that by blast
  have "j < length (leases c) \<and> lease_current c ((leases c)[i := l] ! j)" if "j \<in> set (ys' @ releasing c)" for j
    using that other[of j] r(1)[of j] st(2) i by (cases "j = i") auto
  moreover have "leaseState ((leases c)[i := l] ! j) = LeaseReleasing \<longleftrightarrow> j \<in> set (ys' @ releasing c)" if "j < length (leases c)" for j
    using that other[of j] r(2)[of j] st(1) by (cases "j = i") auto
  moreover have "map_of (sessionLeaseGenerations c) (leaseSession k) \<noteq> None \<and> leaseGeneration k \<le> generation_of (leaseSession k) c"
    if "k \<in> set ((leases c)[i := l])" for k
    using r(3)[of k] r(3)[OF nth_mem[OF i]] l set_update_subset_insert[of "leases c" i l] that by auto
  ultimately show ?thesis using ys(1) unfolding releases_ok_def by simp
qed

lemma exchanged:
  fixes a :: "'a multiset"
  assumes "a + t = b + u" and "x + u = y + t"
  shows "x + (k + a) + t = y + (k + b) + t"
proof -
  have "x + (k + a) + t = x + k + (a + t)" by (simp add: ac_simps)
  also have "\<dots> = (x + u) + (k + b)" unfolding assms(1) by (simp add: ac_simps)
  also have "\<dots> = y + (k + b) + t" unfolding assms(2) by (simp add: ac_simps)
  finally show ?thesis .
qed

lemma lease_changed:
  assumes ok: "leases_ok xs ys c" and i: "i < length (leases c)"
    and l: "leaseSession l = leaseSession (leases c ! i)" "leaseToken l = leaseToken (leases c ! i)"
    "leaseGeneration l = leaseGeneration (leases c ! i)"
    and ys: "distinct (ys' @ releasing c)" "set (ys' @ releasing c) - {i} = set (ys @ releasing c) - {i}"
    and st: "leaseState l = LeaseReleasing \<longleftrightarrow> i \<in> set (ys' @ releasing c)" "i \<in> set (ys' @ releasing c) \<Longrightarrow> lease_current c l"
    and xs: "\<And>s. mset (map snd (filter (\<lambda>x. fst x = s) xs')) + mset (token_of_lease s c l) =
        mset (map snd (filter (\<lambda>x. fst x = s) xs)) + mset (token_of_lease s c (leases c ! i))"
  shows "leases_ok xs' ys' (set_lease i l c)"
proof -
  have "session_ok xs' (set_lease i l c) s" for s
  proof (rule tokens_moved[where xs = xs and c = c])
    show "session_ok xs c s" using ok by (simp add: leases_ok_def)
    have "mset (held xs' s (set_lease i l c)) + mset (token_of_lease s c (leases c ! i)) =
        mset (held xs s c) + mset (token_of_lease s c (leases c ! i))"
      using exchanged[OF leased_changed[OF i, of s l] xs[of s]] by (simp add: held_def)
    then show "mset (held xs' s (set_lease i l c)) = mset (held xs s c)" by simp
  qed simp_all
  moreover have "releases_ok ys' (set_lease i l c)"
    using ok by (intro releases_changed[OF _ i l(1,3) ys st]) (simp_all add: leases_ok_def)
  ultimately show ?thesis by (simp add: leases_ok_def)
qed

subsection \<open>The operations\<close>

text \<open>A session is busy while an acquisition or a release of it is suspended. A step is calm when it invalidates
  no session that is busy before or after it.\<close>

definition busy :: "js_string \<Rightarrow> client \<Rightarrow> bool" where
  "busy s c \<longleftrightarrow> underway [] [] s c"

definition calm :: "client \<Rightarrow> client \<Rightarrow> bool" where
  "calm c d \<longleftrightarrow> (\<forall>s. busy s c \<or> busy s d \<longrightarrow> generation_of s d = generation_of s c)"

definition same_leases :: "client \<Rightarrow> client \<Rightarrow> bool" where
  "same_leases c d \<longleftrightarrow> leases d = leases c \<and> nextToken d = nextToken c \<and> tasks d = tasks c \<and>
     sessionLeaseCounts d = sessionLeaseCounts c \<and> exclusiveSessionLeases d = exclusiveSessionLeases c \<and>
     sessionLeaseGenerations d = sessionLeaseGenerations c"

lemma leases_same:
  assumes "same_leases c d" and ok: "leases_ok xs ys c"
  shows "leases_ok xs ys d"
proof -
  have "only_invalidates c d" using assms(1) by (intro only_unchanged) (simp_all add: same_leases_def)
  moreover have "generation_of s d = generation_of s c" for s using assms(1) by (simp add: same_leases_def generation_of_def)
  ultimately show ?thesis using leases_kept[OF ok] by blast
qed

lemma same_leases_simps [simp]:
  "same_leases c c" "same_leases c (settle p r c)" "same_leases c (snd (new_promise c))" "same_leases c (c\<lparr>view := v\<rparr>)"
  "same_leases c (c\<lparr>sessionAttachments := as\<rparr>)" "same_leases c (c\<lparr>sessionDetachments := as\<rparr>)"
  "same_leases c (c\<lparr>sessionReconciliations := as\<rparr>)" "same_leases c (c\<lparr>sessionCleanupRequired := x\<rparr>)"
  by (simp_all add: same_leases_def settle_def new_promise_def)

lemma underway_same: "same_leases c d \<Longrightarrow> underway xs ys s d = underway xs ys s c"
  by (simp add: underway_def same_leases_def acquiring_def releasing_def)

lemma generation_simps [simp]:
  "generation_of s (suspend t c) = generation_of s c" "generation_of s (releaseSessionLease s' token c) = generation_of s c"
  by (simp_all add: generation_of_def releaseSessionLease_def Let_def)

lemma same_leases_generation: "same_leases c d \<Longrightarrow> generation_of s d = generation_of s c"
  by (simp add: same_leases_def generation_of_def)

lemma acquire_attach_ok:
  assumes ok: "leases_ok [(s, token)] [] d"
    and calm: "\<And>s'. underway [(s, token)] [] s' d \<Longrightarrow> generation_of s' (acquire_attach refused reconciled s token out d) = generation_of s' d"
  shows "leases_ok [] [] (acquire_attach refused reconciled s token out d)"
proof (cases "reconciled \<or> s \<notin> attachedSessionIds (view d)")
  case attach: True
  show ?thesis
  proof (cases "map_of (sessionAttachments d) s")
    case (Some p)
    with attach ok show ?thesis by (simp add: acquire_attach_def suspend_acquiring_ok)
  next
    case None
    obtain p e where r: "attachSession refused s d = (p, e)" by fastforce
    let ?f = "e\<lparr>sessionAttachments := AList.update s p (sessionAttachments e)\<rparr>"
    have result: "acquire_attach refused reconciled s token out d = suspend (AcquireAttaching s token p out) ?f"
      using attach None r by (simp add: acquire_attach_def)
    have "only_invalidates d e" using attachSession_only[of d refused s] r by simp
    then have "only_invalidates d ?f" by (rule only_after) simp_all
    then have "leases_ok [(s, token)] [] ?f"
      by (rule leases_kept[OF ok]) (use calm in \<open>simp add: result\<close>)
    then show ?thesis unfolding result by (rule suspend_acquiring_ok) simp_all
  qed
qed (simp add: acquire_attach_def create_ok[OF ok])

lemma acquire_reconcile_ok:
  assumes ok: "leases_ok [(s, token)] [] d"
    and calm: "\<And>s'. underway [(s, token)] [] s' d \<Longrightarrow> generation_of s' (acquire_reconcile refused s token out d) = generation_of s' d"
  shows "leases_ok [] [] (acquire_reconcile refused s token out d)"
proof (cases "s \<in> sessionCleanupRequired d")
  case True
  obtain p e where r: "reconcileSessionCleanup refused s d = (p, e)" by fastforce
  have result: "acquire_reconcile refused s token out d = suspend (AcquireReconciling s token p out) e"
    using True r by (simp add: acquire_reconcile_def)
  have "only_invalidates d e" using reconcile_only[of d refused s] r by simp
  then have "leases_ok [(s, token)] [] e" by (rule leases_kept[OF ok]) (use calm in \<open>simp add: result\<close>)
  then show ?thesis unfolding result by (rule suspend_acquiring_ok) simp_all
next
  case False
  with calm show ?thesis by (simp add: acquire_reconcile_def acquire_attach_ok[OF ok])
qed

text \<open>An acquisition under way ends as a lease, or its session is busy.\<close>

lemma busy_acquiring: "task_token s t = [token] \<Longrightarrow> busy s (suspend t c)"
  by (simp add: busy_def underway_def)

lemma acquire_attach_busy:
  "busy s (acquire_attach refused reconciled s token out d) \<or>
   acquire_attach refused reconciled s token out d = createSessionLease s token out d"
  by (auto simp: acquire_attach_def split: option.splits prod.splits intro: busy_acquiring)

lemma acquire_reconcile_busy:
  "busy s (acquire_reconcile refused s token out d) \<or>
   acquire_reconcile refused s token out d = createSessionLease s token out d"
  using acquire_attach_busy by (auto simp: acquire_reconcile_def split: prod.splits intro: busy_acquiring)

lemma create_generation [simp]: "generation_of s' (createSessionLease s token out c) = generation_of s' c"
  by (simp add: createSessionLease_def Let_def settle_def generation_of_def update_conv')

lemma acquireSession_ok:
  assumes ok: "leases_ok [] [] c" and calm: "calm c (snd (acquireSession refused s mode c))"
  shows "leases_ok [] [] (snd (acquireSession refused s mode c))"
proof -
  obtain out d where n: "new_promise c = (out, d)" by fastforce
  have same: "same_leases c d" using n same_leases_simps(3)[of c] by simp
  note d = leases_same[OF same ok]
  show ?thesis
  proof (cases "\<not> disposed d \<and> (\<exists>r. reserveSessionLease s mode d = Inr r)")
    case False
    then have "snd (acquireSession refused s mode c) = settle out (Rejected ClientDisposedError) d \<or>
        (\<exists>e. snd (acquireSession refused s mode c) = settle out (Rejected e) d)"
      by (cases "reserveSessionLease s mode d") (auto simp: acquireSession_def n)
    then show ?thesis using leases_same[OF same_leases_simps(2) d] by auto
  next
    case True
    then obtain token e where r: "reserveSessionLease s mode d = Inr (token, e)" by auto
    note e = reserve_ok[OF d r]
    have gen: "generation_of s' e = generation_of s' c" for s'
      using r same by (auto simp: reserveSessionLease_def Let_def generation_of_def same_leases_def split: if_splits)
    have e_same: "leases e = leases c" "tasks e = tasks c"
      using r same by (auto simp: reserveSessionLease_def Let_def same_leases_def split: if_splits)
    then have "acquiring s' e = acquiring s' c" "releasing e = releasing c" for s' by (simp_all add: acquiring_def releasing_def)
    then have under: "underway [(s, token)] [] s' e \<Longrightarrow> s' = s \<or> busy s' c" for s'
      by (auto simp: busy_def underway_def e_same)
    show ?thesis
    proof (cases "map_of (sessionDetachments e) s")
      case (Some p)
      then have "snd (acquireSession refused s mode c) = suspend (AcquireDetaching s token p out) e"
        using True r by (simp add: acquireSession_def n)
      then show ?thesis using suspend_acquiring_ok[OF e] by simp
    next
      case None
      then have result: "snd (acquireSession refused s mode c) = acquire_reconcile refused s token out e"
        using True r by (simp add: acquireSession_def n)
      have "generation_of s' (acquire_reconcile refused s token out e) = generation_of s' e" if "underway [(s, token)] [] s' e" for s'
        using acquire_reconcile_busy[of s refused token out e] under[OF that] calm unfolding result calm_def gen by (metis create_generation gen)
      from acquire_reconcile_ok[OF e this] show ?thesis by (simp add: result)
    qed
  qed
qed

lemma set_lease_id: "set_lease i (leases c ! i) c = c"
  by (simp add: set_lease_def)

lemma refreshed_ok:
  assumes ok: "leases_ok xs ys c" and i: "i < length (leases c)"
  shows "leases_ok xs ys (set_lease i (refreshed c (leases c ! i)) c)"
proof (cases "refreshed c (leases c ! i) = leases c ! i")
  case True
  with ok show ?thesis by (simp add: set_lease_id)
next
  case False
  let ?k = "leases c ! i" and ?l = "(leases c ! i)\<lparr>leaseState := LeaseInvalidated\<rparr>"
  have l: "refreshed c ?k = ?l" "\<not> lease_current c ?k" "leaseState ?k = LeaseActive \<or> leaseState ?k = LeaseReleasing"
    using False by (auto simp: refreshed_def lease_current_def split: if_splits)
  have "releases_ok ys c" using ok by (simp add: leases_ok_def)
  then have free: "distinct (ys @ releasing c)" "i \<notin> set (ys @ releasing c)"
    using l(2) unfolding releases_ok_def by blast+
  show ?thesis unfolding l(1)
  proof (rule lease_changed[OF ok i])
    show "mset (map snd (filter (\<lambda>x. fst x = s) xs)) + mset (token_of_lease s c ?l) =
        mset (map snd (filter (\<lambda>x. fst x = s) xs)) + mset (token_of_lease s c ?k)" for s
      using l(2) by (simp add: token_of_lease_def lease_current_def)
  qed (use free in simp_all)
qed

lemma releasing_started:
  assumes ok: "leases_ok xs ys c" and i: "i < length (leases c)"
    and "leaseState (leases c ! i) = LeaseActive" "lease_current c (leases c ! i)"
  shows "leases_ok xs (i # ys) (set_lease i ((leases c ! i)\<lparr>leaseState := LeaseReleasing, releasePromise := p\<rparr>) c)"
proof (rule lease_changed[OF ok i])
  have "i \<notin> set (ys @ releasing c)" "distinct (ys @ releasing c)"
    using ok i assms(3) unfolding leases_ok_def releases_ok_def by auto
  then show "distinct ((i # ys) @ releasing c)" by simp
qed (use assms(3,4) in \<open>auto simp: token_of_lease_def lease_current_def\<close>)

lemma releasing_ended:
  assumes ok: "leases_ok [] (i # ys) c" and l: "leaseSession l = leaseSession (leases c ! i)" "leaseToken l = leaseToken (leases c ! i)"
    "leaseGeneration l = leaseGeneration (leases c ! i)"
  shows "leaseState l = LeaseReleased \<Longrightarrow> leases_ok [(leaseSession l, leaseToken l)] ys (set_lease i l c)"
    and "leaseState l = LeaseActive \<Longrightarrow> leases_ok [] ys (set_lease i l c)"
proof -
  have i: "i < length (leases c)" "lease_current c (leases c ! i)" "i \<notin> set (ys @ releasing c)" "distinct (ys @ releasing c)"
    using ok unfolding leases_ok_def releases_ok_def by auto
  show "leaseState l = LeaseReleased \<Longrightarrow> leases_ok [(leaseSession l, leaseToken l)] ys (set_lease i l c)"
    by (rule lease_changed[OF ok i(1)]) (use i l in \<open>auto simp: token_of_lease_def lease_current_def\<close>)
  show "leaseState l = LeaseActive \<Longrightarrow> leases_ok [] ys (set_lease i l c)"
    by (rule lease_changed[OF ok i(1)]) (use i l in \<open>auto simp: token_of_lease_def lease_current_def\<close>)
qed

lemma release_commutes: "set_lease i l (releaseSessionLease s token c) = releaseSessionLease s token (set_lease i l c)"
  by (cases c) (simp add: set_lease_def releaseSessionLease_def Let_def count_of_leases_def)

lemma released_ok:
  assumes "leases_ok [] (i # ys) c" and "leaseSession l = leaseSession (leases c ! i)" "leaseToken l = leaseToken (leases c ! i)"
    "leaseGeneration l = leaseGeneration (leases c ! i)" "leaseState l = LeaseReleased"
  shows "leases_ok [] ys (set_lease i l (releaseSessionLease (leaseSession l) (leaseToken l) c))"
  unfolding release_commutes by (rule release_ok[OF releasing_ended(1)[OF assms]])

lemma refreshed_simps [simp]:
  "leaseSession (refreshed c l) = leaseSession l" "leaseToken (refreshed c l) = leaseToken l"
  "leaseGeneration (refreshed c l) = leaseGeneration l"
  by (simp_all add: refreshed_def)

lemma active_current: "leaseState (refreshed c l) = LeaseActive \<Longrightarrow> lease_current c l \<and> refreshed c l = l \<and> leaseState l = LeaseActive"
  by (auto simp: refreshed_def lease_current_def split: if_splits)

lemma underway_set_lease:
  assumes "i < length (leases c)" and "leaseSession l = leaseSession (leases c ! i)"
  shows "underway xs ys s (set_lease i l c) = underway xs ys s c"
proof -
  have "leaseSession ((leases c)[i := l] ! j) = leaseSession (leases c ! j)" for j
    using assms by (cases "j = i") simp_all
  then show ?thesis by (simp add: underway_def)
qed

lemma release_lease_ok:
  assumes ok: "leases_ok [] [] c" and i: "i < length (leases c)" and calm: "calm c (snd (release_lease refused relinquish i c))"
  shows "leases_ok [] [] (snd (release_lease refused relinquish i c))"
proof -
  define l c1 where "l = refreshed c (leases c ! i)" and "c1 = set_lease i l c"
  have c1: "leases_ok [] [] c1" unfolding c1_def l_def by (rule refreshed_ok[OF ok i])
  have at_i: "leases c1 ! i = l" "i < length (leases c1)" "leaseSession l = leaseSession (leases c ! i)"
    using i by (simp_all add: c1_def l_def)
  show ?thesis
  proof (cases "leaseState l = LeaseReleased \<or> leaseState l = LeaseInvalidated \<or> releasePromise l \<noteq> None \<or> assertActive c1 l \<noteq> None")
    case True
    then have "snd (release_lease refused relinquish i c) = c1"
      unfolding release_lease_def Let_def l_def[symmetric] c1_def[symmetric] by (auto split: option.splits)
    with c1 show ?thesis by simp
  next
    case False
    then have "leaseState (refreshed c1 l) = LeaseActive" by (auto simp: assertActive_def lease_active_def split: if_splits)
    note active = active_current[OF this]
    obtain p c2 where n: "new_promise c1 = (p, c2)" by fastforce
    have same: "same_leases c1 c2" using n same_leases_simps(3)[of c1] by simp
    have c2: "leases c2 ! i = l" "i < length (leases c2)" "lease_current c2 l"
      using same at_i active by (simp_all add: same_leases_def lease_current_def)
    define l' c3 where "l' = l\<lparr>leaseState := LeaseReleasing, releasePromise := Some p\<rparr>" and "c3 = set_lease i l' c2"
    have c3: "leases_ok [] [i] c3"
      using releasing_started[OF leases_same[OF same c1] c2(2), of "Some p"] c2 active by (simp add: c3_def l'_def)
    have count: "count_of_leases s c2 = count_of_leases s c3" for s by (simp add: c3_def)
    have at3: "leases c3 ! i = l'" "i < length (leases c3)" "leaseSession l' = leaseSession l" using c2 by (simp_all add: c3_def l'_def)
    show ?thesis
    proof (cases "count_of_leases (leaseSession l) c3 \<le> 1")
      case True
      obtain req d where r: "request refused (session_command ''detach'' (leaseSession l)) c3 = (req, d)" by fastforce
      let ?e = "d\<lparr>sessionDetachments := AList.update (leaseSession l) req (sessionDetachments d)\<rparr>"
      have result: "snd (release_lease refused relinquish i c) = suspend (Releasing i relinquish req p) ?e"
        using False True n r unfolding release_lease_def Let_def l_def[symmetric] c1_def[symmetric]
        by (auto simp: count l'_def[symmetric] c3_def[symmetric])
      have only: "only_invalidates c3 ?e"
        by (rule only_after[OF request_only[of c3 refused "session_command ''detach'' (leaseSession l)"]]) (simp_all add: r)
      then have e: "leases ?e = leases c3" by (simp add: only_invalidates_def)
      have gen: "generation_of s c3 = generation_of s c" for s
        using same_leases_generation[OF same] by (simp add: c3_def c1_def)
      have "busy (leaseSession l) (snd (release_lease refused relinquish i c))"
        using at3 e by (simp add: result busy_def underway_def)
      moreover have "busy s c \<or> s = leaseSession l" if "underway [] [i] s c3" for s
      proof -
        have "underway [] [] s c3 = underway [] [] s c2"
          unfolding c3_def by (rule underway_set_lease) (use c2 in \<open>simp_all add: l'_def\<close>)
        also have "\<dots> = underway [] [] s c1" by (rule underway_same[OF same])
        also have "\<dots> = busy s c" unfolding c1_def busy_def by (rule underway_set_lease[OF i]) (simp add: l_def)
        finally show ?thesis using that at3 by (auto simp: underway_def)
      qed
      ultimately have "generation_of s ?e = generation_of s c3" if "underway [] [i] s c3" for s
        using calm that unfolding calm_def gen result by (metis generation_simps(1))
      from leases_kept[OF c3 only this] have "leases_ok [] [i] ?e" .
      then show ?thesis unfolding result by (rule suspend_releasing_ok) simp_all
    next
      case many: False
      let ?k = "l'\<lparr>leaseState := LeaseReleased\<rparr>"
      have result: "snd (release_lease refused relinquish i c) =
          settle p (Fulfilled NoValue) (set_lease i ?k (releaseSessionLease (leaseSession ?k) (leaseToken ?k) c3))"
        using False many n unfolding release_lease_def Let_def l_def[symmetric] c1_def[symmetric]
        by (auto simp: count l'_def[symmetric] c3_def[symmetric]) (auto simp: l'_def)
      show ?thesis unfolding result
        by (rule leases_same[OF same_leases_simps(2) released_ok[OF c3]]) (simp_all add: at3)
    qed
  qed
qed

text \<open>A task that resumes hands over what it holds.\<close>

lemma dropped_tokens:
  assumes "k < length (tasks c)"
  shows "mset (acquiring s c) = mset (task_token s (tasks c ! k)) + mset (acquiring s (drop_task k c))"
    and "mset (releasing c) = mset (task_release (tasks c ! k)) + mset (releasing (drop_task k c))"
proof -
  have split: "tasks c = take k (tasks c) @ tasks c ! k # drop (Suc k) (tasks c)" by (rule id_take_nth_drop[OF assms])
  show "mset (acquiring s c) = mset (task_token s (tasks c ! k)) + mset (acquiring s (drop_task k c))"
    unfolding acquiring_def by (subst split) (simp add: drop_task_def)
  show "mset (releasing c) = mset (task_release (tasks c ! k)) + mset (releasing (drop_task k c))"
    unfolding releasing_def by (subst split) (simp add: drop_task_def)
qed

lemma dropped_ok:
  assumes ok: "leases_ok [] [] c" and k: "k < length (tasks c)"
    and xs: "\<And>s. map snd (filter (\<lambda>x. fst x = s) xs) = task_token s (tasks c ! k)" and ys: "ys = task_release (tasks c ! k)"
  shows "leases_ok xs ys (drop_task k c)"
proof -
  have fields: "leases (drop_task k c) = leases c" "sessionLeaseGenerations (drop_task k c) = sessionLeaseGenerations c"
    "sessionLeaseCounts (drop_task k c) = sessionLeaseCounts c" "nextToken (drop_task k c) = nextToken c"
    "exclusiveSessionLeases (drop_task k c) = exclusiveSessionLeases c"
    by (simp_all add: drop_task_def)
  have "session_ok xs (drop_task k c) s" for s
  proof (rule tokens_moved[where xs = "[]" and c = c])
    show "session_ok [] c s" using ok by (simp add: leases_ok_def)
    show "mset (held xs s (drop_task k c)) = mset (held [] s c)"
      using dropped_tokens(1)[OF k, of s] leased_same[OF fields(1,2), of s] by (simp add: held_def xs)
  qed (simp_all add: count_of_leases_def fields)
  moreover have "releases_ok ys (drop_task k c)"
    using ok dropped_tokens(2)[OF k]
    by (intro releases_same[of "[]" c, OF _ fields(1,2)]) (simp_all add: leases_ok_def ys)
  ultimately show ?thesis by (simp add: leases_ok_def)
qed

lemma drop_generation [simp]: "generation_of s (drop_task k c) = generation_of s c"
  by (simp add: generation_of_def drop_task_def)

lemma dropped_underway:
  assumes "k < length (tasks c)" and "\<And>s. map snd (filter (\<lambda>x. fst x = s) xs) = task_token s (tasks c ! k)"
    and "underway xs (task_release (tasks c ! k)) s (drop_task k c)"
  shows "busy s c"
proof -
  have acquired: "acquiring s c \<noteq> []" if "task_token s (tasks c ! k) \<noteq> [] \<or> acquiring s (drop_task k c) \<noteq> []"
    using that dropped_tokens(1)[OF assms(1), of s] by auto
  have released: "set (task_release (tasks c ! k) @ releasing (drop_task k c)) = set (releasing c)"
    using arg_cong[OF dropped_tokens(2)[OF assms(1)], of set_mset] by simp
  have leases: "leases (drop_task k c) = leases c" by (simp add: drop_task_def)
  from assms(3) consider "s \<in> fst ` set xs" | "acquiring s (drop_task k c) \<noteq> []"
    | i where "i \<in> set (releasing c)" "leaseSession (leases c ! i) = s"
    unfolding underway_def released leases by blast
  then show ?thesis
  proof cases
    case 1
    then have "filter (\<lambda>x. fst x = s) xs \<noteq> []" by (auto simp: filter_empty_conv)
    then have "task_token s (tasks c ! k) \<noteq> []" unfolding assms(2)[of s, symmetric] by simp
    with acquired show ?thesis by (simp add: busy_def underway_def)
  next
    case 2
    with acquired show ?thesis by (simp add: busy_def underway_def)
  next
    case 3
    then show ?thesis by (auto simp: busy_def underway_def)
  qed
qed

lemma acquire_fails_ok: "leases_ok [(s, token)] ys c \<Longrightarrow> leases_ok [] ys (acquire_fails s token out e c)"
  unfolding acquire_fails_def by (rule leases_same[OF same_leases_simps(2) release_ok])

lemma suspend_plain_ok:
  assumes "leases_ok xs ys c" and "task_release t = []" "\<And>s. task_token s t = []"
  shows "leases_ok xs ys (suspend t c)"
  by (rule leases_kept[OF assms(1) only_suspend[OF assms(2,3)]]) simp

lemma resume_ok:
  assumes ok: "leases_ok [] [] c" and k: "k < length (tasks c)" and calm: "calm c (resume refused k c)"
  shows "leases_ok [] [] (resume refused k c)"
proof -
  define t r d where "t = tasks c ! k" and "r = result_of c t" and "d = drop_task k c"
  have step: "resume refused k c = resume_task refused r t d"
    by (simp add: resume_def Let_def t_def r_def d_def drop_task_def)
  have plain: "leases_ok [] [] d" if "task_release t = []" "\<And>s. task_token s t = []"
    unfolding d_def by (rule dropped_ok[OF ok k]) (use that in \<open>simp_all add: t_def\<close>)
  have acquiring: "leases_ok [(s, token)] [] d" if "task_release t = []" "\<And>s'. task_token s' t = (if s' = s then [token] else [])" for s token
    unfolding d_def by (rule dropped_ok[OF ok k]) (use that in \<open>simp_all add: t_def\<close>)
  have calm_d: "generation_of s' (resume refused k c) = generation_of s' d"
    if "task_release t = []" "\<And>s'. task_token s' t = (if s' = s then [token] else [])" "underway [(s, token)] [] s' d" for s s' token
  proof -
    have "busy s' c"
      by (rule dropped_underway[OF k, of "[(s, token)]"]) (use that in \<open>simp_all add: t_def d_def\<close>)
    with calm show ?thesis by (simp add: calm_def d_def)
  qed
  show ?thesis
  proof (cases t)
    case (Creating req out)
    then have d: "leases_ok [] [] d" by (intro plain) simp_all
    show ?thesis
      by (auto simp: step Creating resume_creating_def Let_def split: sum.splits outcome.splits
          intro: leases_same[OF same_leases_simps(2) d] d create_ok dest: reserve_ok[OF d])
  next
    case (AcquireDetaching s token p out)
    then have t: "task_release t = []" "\<And>s'. task_token s' t = (if s' = s then [token] else [])" by simp_all
    show ?thesis
      using acquire_reconcile_ok[OF acquiring[OF t]] calm_d[OF t] by (simp add: step AcquireDetaching)
  next
    case (AcquireReconciling s token p out)
    then have t: "task_release t = []" "\<And>s'. task_token s' t = (if s' = s then [token] else [])" by simp_all
    show ?thesis
      using acquire_attach_ok[OF acquiring[OF t]] calm_d[OF t] acquire_fails_ok[OF acquiring[OF t]]
      by (cases r) (simp_all add: step AcquireReconciling)
  next
    case (AcquireAttaching s token p out)
    then have t: "task_release t = []" "\<And>s'. task_token s' t = (if s' = s then [token] else [])" by simp_all
    note forgot = leases_same[OF same_leases_simps(5) acquiring[OF t]]
    show ?thesis
      using create_ok[OF forgot] acquire_fails_ok[OF forgot]
      by (simp add: step AcquireAttaching resume_acquire_attaching_def Let_def split: sum.splits)
  next
    case (Attaching s previous req p)
    then have d: "leases_ok [] [] d" by (intro plain) simp_all
    show ?thesis
      by (auto simp: step Attaching resume_attaching_def split: sum.splits option.splits
          intro: leases_same[OF same_leases_simps(2) d] leases_same[OF same_leases_simps(2) leases_same[OF same_leases_simps(4) d]])
  next
    case (Releasing i relinquish req p)
    then have d: "leases_ok [] [i] d"
      unfolding d_def by (intro dropped_ok[OF ok k]) (simp_all add: t_def)
    let ?l = "(leases d ! i)\<lparr>leaseState := LeaseReleased\<rparr>"
    let ?ds = "forget_promise (leaseSession ?l) req (sessionDetachments d)"
    have "leases_ok [] [] (set_lease i ?l (releaseSessionLease (leaseSession ?l) (leaseToken ?l) d))"
      by (rule released_ok[OF d]) simp_all
    note ended = leases_same[OF same_leases_simps(2) leases_same[OF same_leases_simps(6) this]]
    have order: "set_lease i l (x\<lparr>sessionDetachments := ds\<rparr>) = (set_lease i l x)\<lparr>sessionDetachments := ds\<rparr>" for l x ds
      by (cases x) (simp add: set_lease_def)
    have "leases_ok [] [i] (d\<lparr>sessionDetachments := ?ds\<rparr>)" by (rule leases_same[OF same_leases_simps(6) d])
    note failed = suspend_releasing_ok[OF this, where t = "ReleaseFailed i relinquish e p" for e]
    from ended failed show ?thesis
      by (simp add: step Releasing resume_releasing_def Let_def order split: sum.splits)
  next
    case (ReleaseFailed i relinquish e p)
    then have d: "leases_ok [] [i] d"
      unfolding d_def by (intro dropped_ok[OF ok k]) (simp_all add: t_def)
    then have i: "lease_current d (leases d ! i)" "leaseState (leases d ! i) = LeaseReleasing"
      unfolding leases_ok_def releases_ok_def by auto
    then have l: "refreshed d (leases d ! i) = leases d ! i" by (simp add: refreshed_def lease_current_def)
    let ?l = "(leases d ! i)\<lparr>leaseState := LeaseReleased\<rparr>" and ?k = "(leases d ! i)\<lparr>leaseState := LeaseActive, releasePromise := None\<rparr>"
    have "leases_ok [] [] (set_lease i ?l (releaseSessionLease (leaseSession ?l) (leaseToken ?l) d))"
      by (rule released_ok[OF d]) simp_all
    note released = leases_same[OF same_leases_simps(2) leases_same[OF same_leases_simps(8) this]]
    have order: "set_lease i l (x\<lparr>sessionCleanupRequired := y\<rparr>) = (set_lease i l x)\<lparr>sessionCleanupRequired := y\<rparr>" for l x y
      by (cases x) (simp add: set_lease_def)
    have "leases_ok [] [] (set_lease i ?k d)" by (rule releasing_ended(2)[OF d]) simp_all
    note kept = leases_same[OF same_leases_simps(2) this]
    from released kept i(2) show ?thesis
      by (simp add: step ReleaseFailed resume_release_failed_def Let_def l order)
  next
    case (Reconciling s req p)
    then have d: "leases_ok [] [] d" by (intro plain) simp_all
    show ?thesis
      using suspend_plain_ok[OF d] suspend_plain_ok[OF leases_same[OF same_leases_simps(8) d]]
      by (simp add: step Reconciling split: sum.splits)
  next
    case (Reconciled s e p)
    then have d: "leases_ok [] [] d" by (intro plain) simp_all
    show ?thesis
      using leases_same[OF same_leases_simps(2) leases_same[OF same_leases_simps(7) d]] by (simp add: step Reconciled)
  qed
qed

subsection \<open>Calm runs\<close>

text \<open>Everything else a client does only invalidates.\<close>

lemma only_ok: "leases_ok [] [] c \<Longrightarrow> only_invalidates c d \<Longrightarrow> calm c d \<Longrightarrow> leases_ok [] [] d"
  by (erule (1) leases_kept) (auto simp: calm_def busy_def)

lemma connect_only:
  assumes "sound_connection c"
  shows "only_invalidates c (snd (client_connect c))"
proof -
  have decoder: "\<exists>d. newServerMessageDecoder (frameLimit c) = Inr d"
    using assms newServerMessageDecoder_valid by (auto simp: sound_connection_def)
  have "only_invalidates (c\<lparr>view := v\<rparr>) (snd (connect client_owner (c\<lparr>view := v\<rparr>)))" for v
    by (rule owner_only.connect_related) (use decoder in simp)
  moreover have "only_invalidates c (c\<lparr>view := v\<rparr>)" for v by (rule only_unchanged) simp_all
  ultimately show ?thesis
    using decoder by (auto simp: client_connect_def intro: owner_only.connect_related only_invalidates_trans)
qed

lemma dispose_only: "only_invalidates c (dispose c)"
proof -
  have "only_invalidates c (c\<lparr>disposed := True\<rparr>)" by (rule only_unchanged) simp_all
  note start = only_invalidates_trans[OF this reject_only[where e = ClientDisposedError]]
  note closed = only_invalidates_trans[OF start owner_only.environment_related(1)[where e = ClientDisposedError]]
  have "only_invalidates d (d\<lparr>view := v\<rparr>)" for d v by (rule only_unchanged) simp_all
  note ended = only_invalidates_trans[OF only_invalidates_trans[OF closed this] invalidateAll_only]
  have "only_invalidates d (d\<lparr>connectionStateListeners := []\<rparr>)" for d by (rule only_unchanged) simp_all
  from only_invalidates_trans[OF ended this] show ?thesis by (simp add: dispose_def Let_def)
qed

lemma createSession_only: "only_invalidates c (snd (createSession refused command c))"
proof -
  note r = only_invalidates_trans[OF request_only new_promise_only]
  show ?thesis
    by (auto simp: createSession_def split: prod.splits intro!: only_invalidates_trans[OF _ only_suspend]) (metis r snd_conv)
qed

lemma lease_request_ok:
  assumes ok: "leases_ok [] [] c" and i: "i < length (leases c)" and calm: "calm c (snd (lease_request refused i command c))"
  shows "leases_ok [] [] (snd (lease_request refused i command c))"
proof -
  let ?c = "set_lease i (refreshed c (leases c ! i)) c"
  have c: "leases_ok [] [] ?c" by (rule refreshed_ok[OF ok i])
  have "busy s ?c = busy s c" for s unfolding busy_def by (rule underway_set_lease[OF i]) simp
  then have "calm ?c (snd (lease_request refused i command c))" using calm by (simp add: calm_def)
  moreover have "snd (lease_request refused i command c) = ?c \<or> snd (lease_request refused i command c) = snd (request refused command ?c)"
    by (auto simp: lease_request_def Let_def split: option.splits prod.splits)
  ultimately show ?thesis using c only_ok[OF c request_only] by auto
qed

lemma perform_ok:
  assumes sound: "sound_connection c" and ok: "leases_ok [] [] c" and a: "possible a c" and calm: "calm c (perform a c)"
  shows "leases_ok [] [] (perform a c)"
proof (cases a)
  case (Acquire refused s mode)
  then show ?thesis using acquireSession_ok[OF ok] calm by simp
next
  case (LeaseRequest refused i command)
  then show ?thesis using lease_request_ok[OF ok] calm a by simp
next
  case (Release refused relinquish i)
  then show ?thesis using release_lease_ok[OF ok] calm a by simp
next
  case (Resume refused k)
  then show ?thesis using resume_ok[OF ok] calm a by simp
next
  case (Listen l)
  have "only_invalidates c (perform a c)" unfolding Listen by (rule only_unchanged) (simp_all add: onConnectionStateChange_def)
  then show ?thesis by (rule only_ok[OF ok _ calm])
qed (rule only_ok[OF ok _ calm],
    simp add: connect_only[OF sound] dispose_only client_disconnect_def owner_only.environment_related owner_only.transport_opened_related
      owner_only.handleData_related owner_only.handleClose_related request_only createSession_only)+

inductive calm_reachable :: "client \<Rightarrow> bool" where
  calm_start: "resolveMaxFrameLength (Some limit) = Inr n \<Longrightarrow> calm_reachable (new_client limit)"
| calm_step: "calm_reachable c \<Longrightarrow> possible a c \<Longrightarrow> calm c (perform a c) \<Longrightarrow> calm_reachable (perform a c)"

lemma calm_reachable_ok: "calm_reachable c \<Longrightarrow> client_reachable c \<and> leases_ok [] [] c"
proof (induction rule: calm_reachable.induct)
  case (calm_start limit n)
  have "leases_ok [] [] (new_client limit)"
    by (simp add: leases_ok_def session_ok_def releases_ok_def tokens_ok_def new_client_def held_def acquiring_def leased_def
        releasing_def count_of_leases_def)
  with client_reachable.start[OF calm_start] show ?case by blast
next
  case (calm_step c a)
  with perform_ok[OF reachable_sound] client_reachable.step show ?case by blast
qed

text \<open>C38: In calm runs the leases of a client are counted exactly: the count of a session is the number of its
  acquisitions under way and of its leases that are active or being released. Two different leases on
  a session that are active at the same time are both shared, and while one is active no exclusive
  acquisition is under way.\<close>

theorem exclusive_leases_exclusive:
  assumes "calm_reachable c"
  shows "count_of_leases s c = length (acquiring s c) + length (leased s c) \<and>
    (\<forall>i j. i < j \<and> j < length (leases c) \<and> leaseSession (leases c ! i) = s \<and> leaseSession (leases c ! j) = s \<and>
       lease_active c (leases c ! i) \<and> lease_active c (leases c ! j) \<longrightarrow>
       token_mode (leaseToken (leases c ! i)) = SharedLease \<and> token_mode (leaseToken (leases c ! j)) = SharedLease) \<and>
    (\<forall>i < length (leases c). leaseSession (leases c ! i) = s \<and> lease_active c (leases c ! i) \<longrightarrow>
       ExclusiveLease \<notin> token_mode ` set (acquiring s c))"
proof -
  have tokens: "tokens_ok (count_of_leases s c) (map_of (exclusiveSessionLeases c) s) (nextToken c) (acquiring s c @ leased s c)"
    using calm_reachable_ok[OF assms] by (simp add: leases_ok_def session_ok_def held_def)
  have current: "lease_current c l" if "lease_active c l" for l
    using that active_current by (auto simp: lease_active_def)
  have two: "2 \<le> length (leased s c)"
    if ij: "i < j" "j < length (leases c)" and s: "leaseSession (leases c ! i) = s" "leaseSession (leases c ! j) = s"
      and act: "lease_active c (leases c ! i)" "lease_active c (leases c ! j)" for i j
  proof -
    have "{i, j} \<subseteq> {k. k < length (leases c) \<and> leaseSession (leases c ! k) = s \<and> lease_current c (leases c ! k)}"
      using ij s current act by auto
    then have "card {i, j} \<le> length (filter (\<lambda>l. leaseSession l = s \<and> lease_current c l) (leases c))"
      unfolding length_filter_conv_card by (intro card_mono) auto
    with ij(1) show ?thesis by (simp add: leased_def)
  qed
  have token: "leaseToken (leases c ! i) \<in> set (leased s c)"
    if "i < length (leases c)" "leaseSession (leases c ! i) = s" "lease_active c (leases c ! i)" for i
    using that current[OF that(3)] by (auto simp: leased_def)
  have shared: "token_mode t = SharedLease" if "t \<in> set (acquiring s c @ leased s c)" "2 \<le> length (acquiring s c @ leased s c)" for t
  proof (rule ccontr)
    assume "token_mode t \<noteq> SharedLease"
    then have "token_mode t = ExclusiveLease" by (cases "token_mode t") simp_all
    with tokens that(1) have "acquiring s c @ leased s c = [t]" unfolding tokens_ok_def by blast
    with that(2) show False by simp
  qed
  have "count_of_leases s c = length (acquiring s c) + length (leased s c)"
    using tokens by (simp add: tokens_ok_def)
  moreover have "token_mode (leaseToken (leases c ! i)) = SharedLease \<and> token_mode (leaseToken (leases c ! j)) = SharedLease"
    if "i < j \<and> j < length (leases c) \<and> leaseSession (leases c ! i) = s \<and> leaseSession (leases c ! j) = s \<and>
       lease_active c (leases c ! i) \<and> lease_active c (leases c ! j)" for i j
    using that two[of i j] token[of i] token[of j] by (intro conjI shared) auto
  moreover have "ExclusiveLease \<notin> token_mode ` set (acquiring s c)"
    if "i < length (leases c)" "leaseSession (leases c ! i) = s \<and> lease_active c (leases c ! i)" for i
  proof
    assume "ExclusiveLease \<in> token_mode ` set (acquiring s c)"
    then obtain t where t: "t \<in> set (acquiring s c)" "token_mode t = ExclusiveLease" by auto
    from token[of i] that have "leased s c \<noteq> []" by auto
    with t(1) have "2 \<le> length (acquiring s c @ leased s c)" by (cases "acquiring s c"; cases "leased s c") auto
    with shared[of t] t show False by simp
  qed
  ultimately show ?thesis by blast
qed

lemma exclusive_leases_exclusive_witness:
  "\<exists>c. calm_reachable c \<and> acquiring (js_of ''s'') c \<noteq> [] \<and> count_of_leases (js_of ''s'') c = 1"
proof -
  let ?c = "perform (Acquire None (js_of ''s'') ExclusiveLease) (new_client (JInt 1000))"
  have "calm (new_client (JInt 1000)) ?c" and acquiring: "acquiring (js_of ''s'') ?c = [LeaseToken 0 ExclusiveLease]" "leases ?c = []"
    by (simp_all add: calm_def generation_of_def acquireSession_def new_promise_def new_client_def reserveSessionLease_def
        count_of_leases_def Let_def acquire_reconcile_def acquire_attach_def attachSession_def forgetSessionSnapshot_def request_def
        settle_def suspend_def new_view_def acquiring_def)
  then have "calm_reachable ?c" by (intro calm_step calm_start[OF new_client_valid]) simp_all
  with exclusive_leases_exclusive[OF this, of "js_of ''s''"] acquiring show ?thesis
    by (intro exI[of _ ?c]) (simp add: leased_def)
qed

subsection \<open>What happens otherwise\<close>

text \<open>
  A session is acquired exclusively; while the attach request is in flight, the server removes the session;
  a second exclusive acquisition is not refused, for the reservation of the first is forgotten, and joins
  the attachment. When the server answers the attach request, both acquisitions end with an active lease.
\<close>

definition connected_client :: "client_view \<Rightarrow> (js_string \<times> js_value \<times> nat) list \<Rightarrow> (js_string \<times> nat) list \<Rightarrow>
    (js_string \<times> lease_token) list \<Rightarrow> (js_string \<times> nat) list \<Rightarrow> (js_string \<times> nat) list \<Rightarrow> (nat \<Rightarrow> promise) \<Rightarrow> nat \<Rightarrow> nat \<Rightarrow>
    nat \<Rightarrow> lease list \<Rightarrow> task list \<Rightarrow> effect list \<Rightarrow> client" where
  "connected_client v pending counts exclusive generations attachments ps n requests tokens ls ts es =
     \<lparr>lifecycle = Connected 1 1 False, connectionSequence = 1, frameLimit = JInt 1000, serverDecoders = (\<lambda>_. None), effects = es,
      view = v, pendingRequests = pending, sessionLeaseCounts = counts, exclusiveSessionLeases = exclusive,
      sessionLeaseGenerations = generations, sessionAttachments = attachments, sessionDetachments = [],
      sessionCleanupRequired = {}, sessionReconciliations = [], connectionStateListeners = [], requestSequence = requests,
      disposed = False, promises = ps, nextPromise = n, nextToken = tokens, leases = ls, tasks = ts, deliveries = [],
      stateNotices = []\<rparr>"

definition removal :: "js_string \<Rightarrow> js_value" where
  "removal s = object_of [(''type'', JString (js_of ''session_removed'')), (''sessionId'', JString s)]"

definition attached_session :: "js_string \<Rightarrow> js_value" where
  "attached_session s = object_of [(''id'', JString s), (''revision'', JNumber (JInt 1)), (''attached'', JBool True)]"

definition attach_result :: "js_string \<Rightarrow> js_value" where
  "attach_result s = object_of [(''command'', JString (js_of ''attach'')), (''session'', attached_session s)]"

definition attach_answer :: "js_string \<Rightarrow> js_value" where
  "attach_answer s = object_of [(''type'', JString (js_of ''response'')), (''id'', JString (request_id 1)), (''ok'', JBool True),
     (''result'', attach_result s)]"

definition fresh_lease :: "js_string \<Rightarrow> lease_token \<Rightarrow> lease" where
  "fresh_lease s token = \<lparr>leaseSession = s, leaseToken = token, leaseGeneration = 1, leaseState = LeaseActive, releasePromise = None\<rparr>"

lemmas run_defs = connected_client_def new_promise_def settle_def suspend_def reserveSessionLease_def count_of_leases_def Let_def

lemma value_field_object: "value_field k (object_of kvs) = (case map_of kvs k of None \<Rightarrow> JUndefined | Some v \<Rightarrow> v)"
  by (simp add: value_field_def object_of_def literal_field)

lemma connected_exists: "Ex Not"
  by blast

text \<open>The five steps of the run.\<close>

lemma run_acquire:
  assumes "encodeClientMessage (JInt 1000) (request_message (request_id 1) (session_command ''attach'' s)) = Inr frame"
  shows "snd (acquireSession None s ExclusiveLease (connected_client new_view [] [] [] [] [] (\<lambda>_. Pending) 0 0 0 [] [] [])) =
    connected_client new_view [(request_id 1, session_command ''attach'' s, 1)] [(s, 1)] [(s, LeaseToken 0 ExclusiveLease)] [] [(s, 2)]
      (\<lambda>_. Pending) 3 1 1 [] [Attaching s None 1 2, AcquireAttaching s (LeaseToken 0 ExclusiveLease) 2 0] [FrameSent 1 frame]"
  using assms
  by (simp add: run_defs acquireSession_def acquire_reconcile_def acquire_attach_def attachSession_def forgetSessionSnapshot_def
      request_def new_view_def send_frame_def happens_def numeral_2_eq_2 numeral_3_eq_3 fun_upd_idem connected_exists)

lemma run_remove:
  "handle_event (removal s) (connected_client new_view p [(s, 1)] [(s, t)] [] a ps n r k [] ts es) =
   connected_client new_view p [] [] [(s, 1)] a ps n r k [] ts es"
  by (simp add: run_defs handle_event_def removal_def event_is_def value_field_object string_field_def invalidateSessionLeases_def
      generation_of_def deliver_def applyEvent_def getEventSessionId_def notify_listeners_def new_view_def mapped_listeners_def)

lemma run_acquire_again:
  "snd (acquireSession None s ExclusiveLease (connected_client new_view p [] [] g [(s, 2)] (\<lambda>_. Pending) 3 r 1 [] ts es)) =
   connected_client new_view p [(s, 1)] [(s, LeaseToken 1 ExclusiveLease)] g [(s, 2)] (\<lambda>_. Pending) 4 r 2 []
     (ts @ [AcquireAttaching s (LeaseToken 1 ExclusiveLease) 2 3]) es"
  by (simp add: run_defs acquireSession_def acquire_reconcile_def acquire_attach_def new_view_def fun_upd_idem)

lemma run_answer:
  assumes "ts = [Attaching s None 1 2, AcquireAttaching s t0 2 0, AcquireAttaching s t1 2 3]"
  shows "\<exists>v. s \<in> attachedSessionIds v \<and>
    handle_client_message (attach_answer s)
      (connected_client new_view [(request_id 1, session_command ''attach'' s, 1)] c x g a (\<lambda>_. Pending) 4 r 2 [] ts es) =
    connected_client v [] c x g a ((\<lambda>_. Pending)(1 := Fulfilled (Returned (attach_result s)))) 4 r 2 [] ts es"
proof -
  have "type_is ''event'' (attach_answer s) = False" by (simp add: type_is_def attach_answer_def value_field_object)
  moreover have "string_field ''id'' (attach_answer s) = request_id 1" "value_field ''ok'' (attach_answer s) = JBool True"
    "value_field ''result'' (attach_answer s) = attach_result s"
    by (simp_all add: string_field_def attach_answer_def value_field_object)
  moreover have "command_of (attach_result s) = command_of (session_command ''attach'' s)"
    by (simp add: command_of_def attach_result_def session_command_def value_field_object)
  moreover have "\<exists>v. s \<in> attachedSessionIds v \<and> applyResult (attach_result s) new_view = ([], v)"
    by (simp add: applyResult_def attach_result_def value_field_object applySessionSnapshot_def attached_session_def string_field_def
        attached_in_def new_view_def notify_listeners_def mapped_listeners_def)
  ultimately show ?thesis
    by (auto simp: handle_client_message_def handle_response_def takePendingRequest_def run_defs deliver_def)
qed

lemma run_resume:
  shows "resume None 0 (connected_client v [] c x [(s, 1)] [(s, 2)] ((\<lambda>_. Pending)(1 := Fulfilled w)) n r k []
      (Attaching s None 1 2 # ts) es) =
    connected_client v [] c x [(s, 1)] [(s, 2)] ((\<lambda>_. Pending)(1 := Fulfilled w, 2 := Fulfilled NoValue)) n r k [] ts es"
    and "ps 2 = Fulfilled NoValue \<Longrightarrow> a = [] \<or> a = [(s, 2)] \<Longrightarrow>
    resume None 0 (connected_client v [] c x [(s, 1)] a ps n r k ls (AcquireAttaching s t 2 out # ts) es) =
    connected_client v [] c x [(s, 1)] [] (if ps out = Pending then ps(out := Fulfilled (LeaseGranted (length ls))) else ps)
      n r k (ls @ [fresh_lease s t]) ts es"
  by (auto simp: resume_def result_of_def run_defs resume_attaching_def resume_acquire_attaching_def forget_promise_def
      createSessionLease_def generation_of_def fresh_lease_def)

lemma exclusive_leases_shared:
  fixes s :: js_string
  defines "c0 \<equiv> connected_client new_view [] [] [] [] [] (\<lambda>_. Pending) 0 0 0 [] [] []"
  assumes frame: "encodeClientMessage (JInt 1000) (request_message (request_id 1) (session_command ''attach'' s)) = Inr frame"
  shows "let c1 = snd (acquireSession None s ExclusiveLease c0);
             c2 = snd (acquireSession None s ExclusiveLease (handle_event (removal s) c1));
             c3 = resume None 0 (handle_client_message (attach_answer s) c2);
             c4 = resume None 0 (resume None 0 c3)
         in leases c4 = [fresh_lease s (LeaseToken 0 ExclusiveLease), fresh_lease s (LeaseToken 1 ExclusiveLease)] \<and>
            (\<forall>l \<in> set (leases c4). lease_active c4 l)"
proof -
  obtain v where v: "s \<in> attachedSessionIds v" and answer: "handle_client_message (attach_answer s)
      (connected_client new_view [(request_id 1, session_command ''attach'' s, 1)] [(s, 1)] [(s, LeaseToken 1 ExclusiveLease)] [(s, 1)]
        [(s, 2)] (\<lambda>_. Pending) 4 1 2 [] [Attaching s None 1 2, AcquireAttaching s (LeaseToken 0 ExclusiveLease) 2 0,
          AcquireAttaching s (LeaseToken 1 ExclusiveLease) 2 3] [FrameSent 1 frame]) =
    connected_client v [] [(s, 1)] [(s, LeaseToken 1 ExclusiveLease)] [(s, 1)] [(s, 2)]
      ((\<lambda>_. Pending)(1 := Fulfilled (Returned (attach_result s)))) 4 1 2 [] [Attaching s None 1 2,
        AcquireAttaching s (LeaseToken 0 ExclusiveLease) 2 0, AcquireAttaching s (LeaseToken 1 ExclusiveLease) 2 3] [FrameSent 1 frame]"
    using run_answer[OF refl] by blast
  have active: "lease_active (connected_client v p c x [(s, 1)] a ps n r k ls ts es) (fresh_lease s t)"
    for p c x a ps n r k ls ts es t
    using v by (simp add: lease_active_def refreshed_def fresh_lease_def connected_client_def)
  define ps :: "nat \<Rightarrow> promise" where "ps = (\<lambda>_. Pending)(1 := Fulfilled (Returned (attach_result s)), 2 := Fulfilled NoValue)"
  have p: "ps 2 = Fulfilled NoValue" "(if ps 0 = Pending then ps(0 := w) else ps) 2 = Fulfilled NoValue" for w
    by (simp_all add: ps_def)
  show ?thesis
    unfolding Let_def c0_def run_acquire[OF frame] run_remove run_acquire_again append.simps answer run_resume(1) ps_def[symmetric]
      run_resume(2)[where ps = ps, OF p(1) disjI2[OF refl]]
      run_resume(2)[where ps = "if ps 0 = Pending then ps(0 := w) else ps" for w, OF p(2) disjI1[OF refl]]
    using active by (simp add: connected_client_def)
qed

end
