(* ===== verification/Reducer.thy ===== *)
theory Reducer
  imports SessionTypes "HOL-Library.AList"
begin

section \<open>Lane recovery: definitions\<close>

text \<open>
  The model of \<^verbatim>\<open>packages/agent/src/harness/reducer.ts\<close>: the validation of a lane's record log and
  the reconstruction of the lane's orchestration state from it. A corruption is the value of its
  reason; its message text is left out. Deep equality of two provisioned entries is equality of
  their values, and cloning is the identity.
\<close>

datatype corruption =
    MultipleOpenOperations | UnknownOperation | RecordAfterFinish | NonConsecutiveAttempt | InvalidCompactionReason
  | QueueAfterAbort | InvalidQueueCancellation | InconsistentStep | ToolCallMismatch | DuplicateToolInvocation
  | ProvisionedEntryMismatch | InvalidDeferredHandle

record record_log_slice =
  sliceLane :: string
  sliceOpenOperations :: "lane_record list"
  sliceRecords :: "lane_record list"
  sliceEntries :: "entry list"

subsection \<open>Lookups\<close>

text \<open>\<open>new Map(entries.map((entry) => [entry.id, entry]))\<close>: a later entry replaces an earlier one.\<close>

definition entry_map :: "entry list \<Rightarrow> (string \<times> entry) list" where
  "entry_map es = fold (\<lambda>e. AList.update (entryId e) e) es []"

definition has_entry_id :: "(string \<times> entry) list \<Rightarrow> string \<Rightarrow> bool" where
  "has_entry_id byId i \<longleftrightarrow> map_of byId i \<noteq> None"

fun assistant_of :: "entry_body \<Rightarrow> assistant_message option" where
  "assistant_of (MessageEntry (AssistantMessage m) _) = Some m"
| "assistant_of _ = None"

fun tool_result_of :: "entry_body \<Rightarrow> tool_result option" where
  "tool_result_of (MessageEntry (ToolResultMessage m) _) = Some m"
| "tool_result_of _ = None"

definition is_assistant :: "entry \<Rightarrow> bool" where
  "is_assistant e \<longleftrightarrow> assistant_of (entryBody e) \<noteq> None"

text \<open>JSON values inside a payload are compared with their properties in the order they are in.\<close>

definition matchesProvisionedEntry :: "entry \<Rightarrow> provisioned_entry \<Rightarrow> bool" where
  "matchesProvisionedEntry e target \<longleftrightarrow> payload_of_entry e = target"

definition validateExactProvisionedEntry :: "(string \<times> entry) list \<Rightarrow> provisioned_entry \<Rightarrow> corruption + unit" where
  "validateExactProvisionedEntry byId target =
     (case map_of byId (entryId target) of
        None \<Rightarrow> Inr ()
      | Some e \<Rightarrow> throw_if (\<not> matchesProvisionedEntry e target) ProvisionedEntryMismatch)"

fun validate_all :: "(string \<times> entry) list \<Rightarrow> provisioned_entry list \<Rightarrow> corruption + unit" where
  "validate_all byId [] = Inr ()"
| "validate_all byId (t # ts) = and_then (validateExactProvisionedEntry byId t) (\<lambda>_. validate_all byId ts)"

definition validateResultEntry :: "(string \<times> entry) list \<Rightarrow> string \<Rightarrow> (entry \<Rightarrow> bool) \<Rightarrow> corruption + unit" where
  "validateResultEntry byId i matches =
     (case map_of byId i of
        None \<Rightarrow> Inr ()
      | Some e \<Rightarrow> throw_if (\<not> matches e) ProvisionedEntryMismatch)"

subsection \<open>Validation of one record\<close>

definition validateAttemptReason :: "attempt_step \<Rightarrow> string option \<Rightarrow> corruption + unit" where
  "validateAttemptReason step reason =
     throw_if (if step = CompactionStep then reason \<notin> {Some ''manual'', Some ''threshold'', Some ''overflow''}
               else reason \<noteq> None) InvalidCompactionReason"

record attempt =
  attemptStep :: attempt_step
  attemptNumber :: nat
  attemptResult :: string
  attemptReason :: "string option"
  attemptSeq :: nat

definition continues_series :: "(string \<times> entry) list \<Rightarrow> attempt option \<Rightarrow> attempt \<Rightarrow> bool" where
  "continues_series byId previous a \<longleftrightarrow>
     (case previous of
        None \<Rightarrow> False
      | Some p \<Rightarrow> attemptStep p = attemptStep a \<and>
          (case map_of byId (attemptResult p) of None \<Rightarrow> True | Some e \<Rightarrow> entrySeq e \<ge> attemptSeq a))"

definition expected_attempt :: "(string \<times> entry) list \<Rightarrow> attempt option \<Rightarrow> attempt \<Rightarrow> nat" where
  "expected_attempt byId previous a =
     (case previous of
        None \<Rightarrow> 1
      | Some p \<Rightarrow> if continues_series byId previous a then attemptNumber p + 1 else 1)"

definition validateAttemptSequence :: "(string \<times> entry) list \<Rightarrow> attempt option \<Rightarrow> attempt \<Rightarrow> corruption + unit" where
  "validateAttemptSequence byId previous a =
     and_then (throw_if (attemptNumber a \<noteq> expected_attempt byId previous a) NonConsecutiveAttempt) (\<lambda>_.
     case previous of
       None \<Rightarrow> Inr ()
     | Some p \<Rightarrow>
         if \<not> continues_series byId previous a \<or> attemptStep a = AssistantStep then Inr ()
         else and_then (throw_if (attemptResult a \<noteq> attemptResult p) InconsistentStep) (\<lambda>_.
              throw_if (attemptReason a \<noteq> attemptReason p) InconsistentStep))"

definition validateAttemptResult :: "(string \<times> entry) list \<Rightarrow> attempt \<Rightarrow> corruption + unit" where
  "validateAttemptResult byId a =
     validateResultEntry byId (attemptResult a)
       (\<lambda>e. case attemptStep a of
              AssistantStep \<Rightarrow> is_assistant e
            | CompactionStep \<Rightarrow> entry_type e = CompactionType
            | BranchSummaryStep \<Rightarrow> entry_type e = BranchSummaryType)"

text \<open>The key of an invocation: the assistant entry's id, a NUL, and the index.\<close>

definition invocation_key :: "string \<Rightarrow> nat \<Rightarrow> string" where
  "invocation_key assistantEntryId toolIndex = assistantEntryId @ [CHR 0x00] @ show_nat toolIndex"

definition validateToolStart ::
  "(string \<times> entry) list \<Rightarrow> string set \<Rightarrow> string \<Rightarrow> nat \<Rightarrow> string \<Rightarrow> string \<Rightarrow> string \<Rightarrow> corruption + string set" where
  "validateToolStart byId invocations assistantEntryId toolIndex toolCallId toolName resultEntryId =
     (let invocation = invocation_key assistantEntryId toolIndex in
      and_then (throw_if (invocation \<in> invocations) DuplicateToolInvocation) (\<lambda>_.
      case Option.bind (map_of byId assistantEntryId) (\<lambda>e. assistant_of (entryBody e)) of
        None \<Rightarrow> Inl ToolCallMismatch
      | Some m \<Rightarrow>
          let toolCalls = tool_calls_of (asstContent m) in
          if toolIndex \<ge> length toolCalls \<or> callId (toolCalls ! toolIndex) \<noteq> toolCallId \<or>
             callName (toolCalls ! toolIndex) \<noteq> toolName
          then Inl ToolCallMismatch
          else and_then (validateResultEntry byId resultEntryId
                 (\<lambda>e. case tool_result_of (entryBody e) of
                        None \<Rightarrow> False
                      | Some r \<Rightarrow> resToolCallId r = toolCallId \<and> resToolName r = toolName)) (\<lambda>_.
               Inr (insert invocation invocations))))"

definition bad_deferred :: "entry \<Rightarrow> bool" where
  "bad_deferred e \<longleftrightarrow>
     (case assistant_of (entryBody e) of
        None \<Rightarrow> False
      | Some m \<Rightarrow> asstStopReason m = DeferredStop \<and> asstDeferred m = None)"

definition validateDeferredHandles :: "entry list \<Rightarrow> corruption + unit" where
  "validateDeferredHandles es = throw_if (list_ex bad_deferred es) InvalidDeferredHandle"

definition validateOperationResult :: "(string \<times> entry) list \<Rightarrow> operation_intent \<Rightarrow> corruption + unit" where
  "validateOperationResult byId intent =
     (case intent of
        RunIntent originalPrompt initialMessages override resumeData \<Rightarrow> validate_all byId initialMessages
      | CompactionIntent instructions resultEntryId \<Rightarrow>
          validateResultEntry byId resultEntryId (\<lambda>e. entry_type e = CompactionType)
      | NavigationIntent targetId summarize instructions label summaryEntryId \<Rightarrow>
          (case summaryEntryId of
             None \<Rightarrow> Inr ()
           | Some i \<Rightarrow> if i = '''' then Inr ()
                       else validateResultEntry byId i (\<lambda>e. entry_type e = BranchSummaryType)))"

subsection \<open>Validation of the log\<close>

record log_state =
  logStarts :: "string set"
  logFinishedAt :: "(string \<times> nat) list"
  logAbortedAt :: "(string \<times> nat) list"
  logEnqueues :: "(string \<times> lane_record) list"
  logAttempts :: "(string \<times> attempt) list"
  logInvocations :: "string set"

definition new_log_state :: log_state where
  "new_log_state = \<lparr>logStarts = {}, logFinishedAt = [], logAbortedAt = [], logEnqueues = [], logAttempts = [],
     logInvocations = {}\<rparr>"

text \<open>The checks on the operation a record belongs to.\<close>

definition check_owner :: "log_state \<Rightarrow> lane_record \<Rightarrow> corruption + unit" where
  "check_owner s r =
     (case run_id (recordBody r) of
        None \<Rightarrow> Inr ()
      | Some i \<Rightarrow>
          and_then (throw_if (i \<notin> logStarts s) UnknownOperation) (\<lambda>_.
          case map_of (logFinishedAt s) i of
            None \<Rightarrow> Inr ()
          | Some finishSeq \<Rightarrow> throw_if (recordSeq r > finishSeq) RecordAfterFinish))"

fun enqueue_run :: "record_body \<Rightarrow> string option" where
  "enqueue_run (QueueEnqueued q runId t) = runId"
| "enqueue_run _ = None"

definition check_body :: "(string \<times> entry) list \<Rightarrow> log_state \<Rightarrow> lane_record \<Rightarrow> corruption + log_state" where
  "check_body byId s r =
     (case recordBody r of
        OperationStarted leaf intent \<Rightarrow> Inr s
      | OperationFinished runId outcome err \<Rightarrow> Inr (s\<lparr>logFinishedAt := AList.update runId (recordSeq r) (logFinishedAt s)\<rparr>)
      | AbortRequested runId \<Rightarrow> Inr (s\<lparr>logAbortedAt := AList.update runId (recordSeq r) (logAbortedAt s)\<rparr>)
      | StepAttempt runId step n resultEntryId reason \<Rightarrow>
          let a = \<lparr>attemptStep = step, attemptNumber = n, attemptResult = resultEntryId, attemptReason = reason,
                   attemptSeq = recordSeq r\<rparr> in
          and_then (validateAttemptReason step reason) (\<lambda>_.
          and_then (validateAttemptSequence byId (map_of (logAttempts s) runId) a) (\<lambda>_.
          and_then (validateAttemptResult byId a) (\<lambda>_.
          Inr (s\<lparr>logAttempts := AList.update runId a (logAttempts s)\<rparr>))))
      | ToolStarted runId assistantEntryId toolIndex toolCallId toolName args resultEntryId replay \<Rightarrow>
          and_then (validateToolStart byId (logInvocations s) assistantEntryId toolIndex toolCallId toolName resultEntryId)
            (\<lambda>invocations. Inr (s\<lparr>logInvocations := invocations\<rparr>))
      | QueueEnqueued queue runId target \<Rightarrow>
          and_then (throw_if (queue \<noteq> NextRunQueue \<and>
              (case Option.bind runId (map_of (logAbortedAt s)) of None \<Rightarrow> False | Some n \<Rightarrow> recordSeq r > n)) QueueAfterAbort) (\<lambda>_.
          and_then (validateExactProvisionedEntry byId target) (\<lambda>_.
          Inr (s\<lparr>logEnqueues := AList.update (entryId target) r (logEnqueues s)\<rparr>)))
      | QueueCancelled runId i \<Rightarrow>
          (case map_of (logEnqueues s) i of
             None \<Rightarrow> Inl InvalidQueueCancellation
           | Some enqueue \<Rightarrow>
               if recordSeq enqueue \<ge> recordSeq r \<or> enqueue_run (recordBody enqueue) \<noteq> runId \<or> has_entry_id byId i
               then Inl InvalidQueueCancellation else Inr s)
      | WriteDeferred runId target \<Rightarrow> and_then (validateExactProvisionedEntry byId target) (\<lambda>_. Inr s)
      | UsageRecorded u cause runId i \<Rightarrow> Inr s)"

definition check_record_log :: "(string \<times> entry) list \<Rightarrow> log_state \<Rightarrow> lane_record \<Rightarrow> corruption + log_state" where
  "check_record_log byId s r =
     (case recordBody r of
        OperationStarted leaf intent \<Rightarrow>
          and_then (validateOperationResult byId intent) (\<lambda>_. Inr (s\<lparr>logStarts := insert (recordId r) (logStarts s)\<rparr>))
      | _ \<Rightarrow> and_then (check_owner s r) (\<lambda>_. check_body byId s r))"

fun check_records :: "(string \<times> entry) list \<Rightarrow> log_state \<Rightarrow> lane_record list \<Rightarrow> corruption + log_state" where
  "check_records byId s [] = Inr s"
| "check_records byId s (r # rs) = and_then (check_record_log byId s r) (\<lambda>s. check_records byId s rs)"

definition validateRecordLog :: "record_log_slice \<Rightarrow> corruption + unit" where
  "validateRecordLog input =
     and_then (throw_if (length (sliceOpenOperations input) > 1) MultipleOpenOperations) (\<lambda>_.
     let byId = entry_map (sliceEntries input) in
     and_then (validateDeferredHandles (map snd byId)) (\<lambda>_.
     and_then (check_records byId new_log_state (sort_key recordSeq (sliceRecords input))) (\<lambda>_. Inr ())))"

subsection \<open>The reconstructed state\<close>

record lane_configuration =
  configModel :: "string \<times> string"
  configThinkingLevel :: string
  configActiveTools :: "string list"

datatype failure_source = StepFailure | DeferredFetchFailure

record terminal_failure =
  failureEntryId :: string
  failureSource :: failure_source
  failureMessage :: assistant_message

record tool_call_state =
  tcsIndex :: nat
  tcsCall :: tool_call
  tcsStarted :: "lane_record option"
  tcsResultExists :: bool
  tcsTerminate :: bool

record tool_batch_state =
  batchAssistantEntryId :: string
  batchCalls :: "tool_call_state list"
  batchTruncated :: bool
  batchUnresolved :: bool

record step_state =
  stepKind :: attempt_step
  stepAttempts :: nat
  stepResultEntryId :: string
  stepCompactionReason :: "string option"

record newest_own =
  newestEntryId :: string
  newestType :: entry_type
  newestRole :: "role option"
  newestStopReason :: "stop_reason option"

record operation_state =
  operationId :: string
  operationKind :: operation_kind
  operationIntent :: operation_intent
  operationAborting :: bool
  operationStep :: "step_state option"
  operationToolBatch :: "tool_batch_state option"
  missingInitialMessages :: "provisioned_entry list"
  pendingSteer :: "provisioned_entry list"
  pendingFollowUp :: "provisioned_entry list"
  pendingWrites :: "provisioned_entry list"
  operationDeferred :: "js_value option"
  overflowRecoveryUsed :: bool
  newestOwn :: "newest_own option"
  targetResult :: "bool option"
  targetSummary :: "bool option"

record lane_state =
  laneName :: string
  laneLeafId :: "string option"
  laneOperation :: "operation_state option"
  pendingNextRun :: "provisioned_entry list"

record reduction_input = record_log_slice +
  inputLeafId :: "string option"
  inputOwnEntries :: "entry list"
  inputConfigurationEntries :: "entry list"
  inputDefaults :: lane_configuration

record reduction_result =
  resultLaneState :: lane_state
  resultConfiguration :: lane_configuration
  resultTerminalFailure :: "terminal_failure option"

definition slice_of :: "reduction_input \<Rightarrow> record_log_slice" where
  "slice_of input = record_log_slice.truncate input"

subsection \<open>Derivation\<close>

definition apply_configuration :: "entry \<Rightarrow> lane_configuration \<Rightarrow> lane_configuration" where
  "apply_configuration e c =
     (case entryBody e of
        ModelChangeEntry provider modelId \<Rightarrow> c\<lparr>configModel := (provider, modelId)\<rparr>
      | ThinkingLevelEntry level \<Rightarrow> c\<lparr>configThinkingLevel := level\<rparr>
      | ActiveToolsEntry names \<Rightarrow> c\<lparr>configActiveTools := names\<rparr>
      | MessageEntry (AssistantMessage m) _ \<Rightarrow> c\<lparr>configModel := (asstProvider m, asstModel m)\<rparr>
      | _ \<Rightarrow> c)"

definition deriveEffectiveConfiguration :: "reduction_input \<Rightarrow> lane_configuration" where
  "deriveEffectiveConfiguration input =
     fold apply_configuration
       (sort_key entrySeq (map snd (entry_map (inputConfigurationEntries input @ inputOwnEntries input))))
       (inputDefaults input)"

definition deriveNewestOwn :: "entry option \<Rightarrow> newest_own option" where
  "deriveNewestOwn e =
     (case e of
        None \<Rightarrow> None
      | Some e \<Rightarrow> Some
          (case entryBody e of
             MessageEntry m _ \<Rightarrow>
               (case m of
                  AssistantMessage a \<Rightarrow> \<lparr>newestEntryId = entryId e, newestType = entry_type e,
                    newestRole = Some (role_of m), newestStopReason = Some (asstStopReason a)\<rparr>
                | _ \<Rightarrow> \<lparr>newestEntryId = entryId e, newestType = entry_type e, newestRole = Some (role_of m),
                    newestStopReason = None\<rparr>)
           | _ \<Rightarrow> \<lparr>newestEntryId = entryId e, newestType = entry_type e, newestRole = None, newestStopReason = None\<rparr>))"

text \<open>The newest entry with tool calls among the operation's own entries.\<close>

definition calls_of_entry :: "entry \<Rightarrow> tool_call list" where
  "calls_of_entry e = (case assistant_of (entryBody e) of None \<Rightarrow> [] | Some m \<Rightarrow> tool_calls_of (asstContent m))"

definition tool_start_at :: "string \<Rightarrow> string \<Rightarrow> nat \<Rightarrow> lane_record \<Rightarrow> bool" where
  "tool_start_at operation assistantEntryId toolIndex r \<longleftrightarrow>
     (case recordBody r of
        ToolStarted runId assistant index toolCallId toolName args result replay \<Rightarrow>
          runId = operation \<and> assistant = assistantEntryId \<and> index = toolIndex
      | _ \<Rightarrow> False)"

fun start_result :: "record_body \<Rightarrow> string" where
  "start_result (ToolStarted runId assistant index toolCallId toolName args result replay) = result"
| "start_result _ = ''''"

fun body_terminates :: "entry_body \<Rightarrow> bool" where
  "body_terminates (MessageEntry m terminate) = terminate"
| "body_terminates _ = False"

definition blocked_result :: "entry \<Rightarrow> string set \<Rightarrow> entry list \<Rightarrow> tool_call \<Rightarrow> entry option" where
  "blocked_result assistantEntry deferredWriteIds own c =
     find (\<lambda>e. entrySeq e > entrySeq assistantEntry \<and> entryId e \<notin> deferredWriteIds \<and>
               (case tool_result_of (entryBody e) of None \<Rightarrow> False | Some r \<Rightarrow> resToolCallId r = callId c)) own"

definition call_state :: "string \<Rightarrow> lane_record list \<Rightarrow> entry list \<Rightarrow> (string \<times> entry) list \<Rightarrow> string set \<Rightarrow> entry \<Rightarrow>
    nat \<Rightarrow> tool_call \<Rightarrow> tool_call_state" where
  "call_state operation rs own byId deferredWriteIds assistantEntry toolIndex c =
     (let started = find (tool_start_at operation (entryId assistantEntry) toolIndex) (rev rs);
          startedResult = Option.bind started (\<lambda>r. map_of byId (start_result (recordBody r)));
          result = (case startedResult of Some e \<Rightarrow> Some e | None \<Rightarrow> blocked_result assistantEntry deferredWriteIds own c)
      in \<lparr>tcsIndex = toolIndex, tcsCall = c, tcsStarted = started, tcsResultExists = (result \<noteq> None),
          tcsTerminate = (case result of None \<Rightarrow> False | Some e \<Rightarrow> body_terminates (entryBody e))\<rparr>)"

definition deriveToolBatch ::
  "string \<Rightarrow> lane_record list \<Rightarrow> entry list \<Rightarrow> (string \<times> entry) list \<Rightarrow> string set \<Rightarrow> tool_batch_state option" where
  "deriveToolBatch operation rs own byId deferredWriteIds =
     (case find (\<lambda>e. calls_of_entry e \<noteq> []) (rev own) of
        None \<Rightarrow> None
      | Some assistantEntry \<Rightarrow>
          let calls = map (\<lambda>(i, c). call_state operation rs own byId deferredWriteIds assistantEntry i c)
                        (enumerate 0 (calls_of_entry assistantEntry))
          in Some \<lparr>batchAssistantEntryId = entryId assistantEntry, batchCalls = calls,
                   batchTruncated = (case assistant_of (entryBody assistantEntry) of
                      None \<Rightarrow> False | Some m \<Rightarrow> asstStopReason m = LengthStop),
                   batchUnresolved = list_ex (\<lambda>c. \<not> tcsResultExists c) calls\<rparr>)"

subsection \<open>Reduction of a lane\<close>

fun queue_target :: "record_body \<Rightarrow> (queue_name \<times> provisioned_entry) option" where
  "queue_target (QueueEnqueued q runId t) = Some (q, t)"
| "queue_target _ = None"

fun cancelled_id :: "record_body \<Rightarrow> string option" where
  "cancelled_id (QueueCancelled runId i) = Some i"
| "cancelled_id _ = None"

fun deferred_target :: "record_body \<Rightarrow> provisioned_entry option" where
  "deferred_target (WriteDeferred runId t) = Some t"
| "deferred_target _ = None"

definition pending_queue_record :: "(string \<times> entry) list \<Rightarrow> string set \<Rightarrow> lane_record \<Rightarrow> bool" where
  "pending_queue_record byId cancelled r \<longleftrightarrow>
     (case queue_target (recordBody r) of
        None \<Rightarrow> False
      | Some (q, t) \<Rightarrow> \<not> has_entry_id byId (entryId t) \<and> entryId t \<notin> cancelled)"

text \<open>The targets of the records of a queue that satisfy a condition.\<close>

definition queue_targets :: "queue_name \<Rightarrow> (lane_record \<Rightarrow> bool) \<Rightarrow> lane_record list \<Rightarrow> provisioned_entry list" where
  "queue_targets q cond rs =
     List.map_filter (\<lambda>r. case queue_target (recordBody r) of
         None \<Rightarrow> None | Some (q', t) \<Rightarrow> if q' = q \<and> cond r then Some t else None) rs"

fun initial_messages :: "operation_intent \<Rightarrow> provisioned_entry list" where
  "initial_messages (RunIntent originalPrompt targets override resumeData) = targets"
| "initial_messages _ = []"

fun intent_of :: "record_body \<Rightarrow> operation_intent option" where
  "intent_of (OperationStarted leaf intent) = Some intent"
| "intent_of _ = None"

definition owned_by :: "string \<Rightarrow> lane_record \<Rightarrow> bool" where
  "owned_by operation r \<longleftrightarrow>
     (case recordBody r of OperationStarted leaf intent \<Rightarrow> recordId r = operation | b \<Rightarrow> run_id b = Some operation)"

fun attempt_of :: "record_body \<Rightarrow> (attempt_step \<times> nat \<times> string \<times> string option) option" where
  "attempt_of (StepAttempt runId step n result reason) = Some (step, n, result, reason)"
| "attempt_of _ = None"

definition derive_step :: "(string \<times> entry) list \<Rightarrow> lane_record list \<Rightarrow> step_state option" where
  "derive_step byId own_records =
     (case List.map_filter (\<lambda>r. attempt_of (recordBody r)) (rev own_records) of
        [] \<Rightarrow> None
      | (step, n, result, reason) # _ \<Rightarrow>
          if has_entry_id byId result then None
          else Some \<lparr>stepKind = step, stepAttempts = n, stepResultEntryId = result,
                      stepCompactionReason = (if step = CompactionStep then reason else None)\<rparr>)"

text \<open>\<open>record.seq > newestConsumedInputSequence\<close>: the record is after every consumed input message.\<close>

definition consumed_list :: "operation_intent \<Rightarrow> lane_record list \<Rightarrow> string list" where
  "consumed_list intent own_records =
     map entryId (initial_messages intent) @
     List.map_filter (\<lambda>r. case queue_target (recordBody r) of
         None \<Rightarrow> None | Some (q, t) \<Rightarrow> if q \<noteq> NextRunQueue then Some (entryId t) else None) own_records"

definition after_consumed :: "(string \<times> entry) list \<Rightarrow> string list \<Rightarrow> nat \<Rightarrow> bool" where
  "after_consumed byId ids seq \<longleftrightarrow>
     list_all (\<lambda>i. case map_of byId i of
         None \<Rightarrow> True
       | Some e \<Rightarrow> entry_type e = MessageType \<longrightarrow> seq > entrySeq e) ids"

definition overflow_used :: "(string \<times> entry) list \<Rightarrow> operation_intent \<Rightarrow> lane_record list \<Rightarrow> bool" where
  "overflow_used byId intent own_records \<longleftrightarrow>
     list_ex (\<lambda>r. case attempt_of (recordBody r) of
         None \<Rightarrow> False
       | Some (step, n, result, reason) \<Rightarrow> step = CompactionStep \<and> reason = Some ''overflow'' \<and>
           after_consumed byId (consumed_list intent own_records) (recordSeq r)) own_records"

definition last_option :: "'a list \<Rightarrow> 'a option" where
  "last_option xs = (if xs = [] then None else Some (last xs))"

definition assistant_stop :: "entry option \<Rightarrow> (assistant_message \<times> stop_reason) option" where
  "assistant_stop e = Option.bind e (\<lambda>e. map_option (\<lambda>m. (m, asstStopReason m)) (assistant_of (entryBody e)))"

definition derive_failure :: "lane_record list \<Rightarrow> entry list \<Rightarrow> terminal_failure option" where
  "derive_failure own_records own =
     (case last_option own of
        None \<Rightarrow> None
      | Some newest \<Rightarrow>
          (case assistant_of (entryBody newest) of
             None \<Rightarrow> None
           | Some m \<Rightarrow>
               if asstStopReason m \<noteq> ErrorStop \<or>
                  list_ex (\<lambda>r. map_option entryId (deferred_target (recordBody r)) = Some (entryId newest)) own_records
               then None
               else let producedByStep = list_ex (\<lambda>r. case attempt_of (recordBody r) of
                            None \<Rightarrow> False | Some (step, n, result, reason) \<Rightarrow> result = entryId newest) own_records;
                        producedByDeferredFetch =
                          list_ex (\<lambda>r. case recordBody r of
                             UsageRecorded u cause runId i \<Rightarrow> cause = DeferredFetchCause \<and> i = Some (entryId newest)
                           | _ \<Rightarrow> False) own_records \<or>
                          map_option snd (assistant_stop (last_option (butlast own))) = Some DeferredStop
                    in if producedByStep \<or> producedByDeferredFetch
                       then Some \<lparr>failureEntryId = entryId newest,
                              failureSource = (if producedByStep then StepFailure else DeferredFetchFailure),
                              failureMessage = m\<rparr>
                       else None))"

definition derive_operation :: "(string \<times> entry) list \<Rightarrow> lane_record list \<Rightarrow> string set \<Rightarrow> entry list \<Rightarrow> lane_record \<Rightarrow>
    operation_intent \<Rightarrow> operation_state" where
  "derive_operation byId rs cancelled own started intent =
     (let own_records = filter (owned_by (recordId started)) rs;
          pending = filter (pending_queue_record byId cancelled) rs;
          aborting = list_ex (\<lambda>r. type_of_record (recordBody r) = AbortRequestedType) own_records;
          deferredWriteIds = set (List.map_filter (\<lambda>r. map_option entryId (deferred_target (recordBody r))) own_records)
      in \<lparr>operationId = recordId started, operationKind = intent_kind intent, operationIntent = intent,
          operationAborting = aborting,
          operationStep = derive_step byId own_records,
          operationToolBatch = deriveToolBatch (recordId started) own_records own byId deferredWriteIds,
          missingInitialMessages = filter (\<lambda>t. \<not> has_entry_id byId (entryId t)) (initial_messages intent),
          pendingSteer = (if aborting then []
            else queue_targets SteerQueue (\<lambda>r. run_id (recordBody r) = Some (recordId started)) pending),
          pendingFollowUp = (if aborting then []
            else queue_targets FollowUpQueue (\<lambda>r. run_id (recordBody r) = Some (recordId started)) pending),
          pendingWrites = List.map_filter (\<lambda>r. case deferred_target (recordBody r) of
              None \<Rightarrow> None | Some t \<Rightarrow> if has_entry_id byId (entryId t) then None else Some t) own_records,
          operationDeferred = (case assistant_stop (last_option own) of
              None \<Rightarrow> None
            | Some (m, stop) \<Rightarrow> if stop = DeferredStop then asstDeferred m else None),
          overflowRecoveryUsed = overflow_used byId intent own_records,
          newestOwn = deriveNewestOwn (last_option own),
          targetResult = (case intent of CompactionIntent instructions i \<Rightarrow> Some (has_entry_id byId i) | _ \<Rightarrow> None),
          targetSummary = (case intent of
              NavigationIntent target summarize instructions label summary \<Rightarrow>
                (case summary of None \<Rightarrow> None | Some i \<Rightarrow> if i = [] then None else Some (has_entry_id byId i))
            | _ \<Rightarrow> None)\<rparr>)"

definition reduceLaneState :: "reduction_input \<Rightarrow> corruption + reduction_result" where
  "reduceLaneState input =
     and_then (validateRecordLog (slice_of input)) (\<lambda>_.
     let rs = sort_key recordSeq (sliceRecords input);
         own = sort_key entrySeq (inputOwnEntries input);
         byId = entry_map (sliceEntries input @ own);
         cancelled = set (List.map_filter (\<lambda>r. cancelled_id (recordBody r)) rs);
         pending = filter (pending_queue_record byId cancelled) rs;
         operation = (case sliceOpenOperations input of
             [] \<Rightarrow> None
           | started # _ \<Rightarrow> map_option (Pair started) (intent_of (recordBody started)));
         captured = (case operation of None \<Rightarrow> {} | Some (started, intent) \<Rightarrow> entryId ` set (initial_messages intent));
         nextRun = queue_targets NextRunQueue
           (\<lambda>r. case queue_target (recordBody r) of None \<Rightarrow> False | Some (q, t) \<Rightarrow> entryId t \<notin> captured) pending
     in Inr \<lparr>resultLaneState =
               \<lparr>laneName = sliceLane input, laneLeafId = inputLeafId input,
                laneOperation = (case operation of
                    None \<Rightarrow> None
                  | Some (started, intent) \<Rightarrow> Some (derive_operation byId rs cancelled own started intent)),
                pendingNextRun = nextRun\<rparr>,
             resultConfiguration = deriveEffectiveConfiguration input,
             resultTerminalFailure = (case operation of
                 None \<Rightarrow> None
               | Some (started, intent) \<Rightarrow> derive_failure (filter (owned_by (recordId started)) rs) own)\<rparr>)"

end
