(* ===== verification/ReducerCorrect.thy ===== *)
theory ReducerCorrect
  imports Reducer
begin

section \<open>Lane recovery: correctness\<close>

text \<open>
  What an accepted record log guarantees, that no input of an open operation is lost or changed by a
  recovery, that the effective configuration is that of the latest entries, and that a recovery does
  not depend on the order in which storage returned records and entries.
\<close>

subsection \<open>Entry maps\<close>

lemma entry_map_snoc: "entry_map (es @ [e]) = AList.update (entryId e) e (entry_map es)"
  by (simp add: entry_map_def)

lemma entry_map_Nil [simp]: "entry_map [] = []"
  by (simp add: entry_map_def)

lemma entry_map_SomeD: "map_of (entry_map es) i = Some e \<Longrightarrow> e \<in> set es \<and> entryId e = i"
  by (induction es rule: rev_induct) (auto simp: entry_map_snoc update_conv' split: if_splits)

lemma has_entry_map [simp]: "has_entry_id (entry_map es) i \<longleftrightarrow> i \<in> entryId ` set es"
  by (induction es rule: rev_induct) (auto simp: entry_map_snoc update_conv' has_entry_id_def)

lemma entry_map_Some:
  assumes "distinct (map entryId es)"
  shows "map_of (entry_map es) i = Some e \<longleftrightarrow> e \<in> set es \<and> entryId e = i"
proof
  assume e: "e \<in> set es \<and> entryId e = i"
  then have "map_of (entry_map es) i \<noteq> None"
    using has_entry_map[of es i] by (auto simp: has_entry_id_def)
  then obtain e' where e': "map_of (entry_map es) i = Some e'" by blast
  with entry_map_SomeD have "e' \<in> set es" "entryId e' = i" by blast+
  with e assms have "e' = e" by (auto simp: distinct_map dest: inj_onD)
  with e' show "map_of (entry_map es) i = Some e" by simp
qed (rule entry_map_SomeD)

lemma entry_map_distinct: "distinct (map entryId es) \<Longrightarrow> entry_map es = map (\<lambda>e. (entryId e, e)) es"
proof (induction es rule: rev_induct)
  case (snoc e es)
  have "AList.update k v xs = xs @ [(k, v)]" if "k \<notin> fst ` set xs" for k v and xs :: "(string \<times> entry) list"
    using that by (induction xs) auto
  with snoc show ?case by (simp add: entry_map_snoc image_image)
qed simp

subsection \<open>Accepted logs\<close>

definition is_start :: "string \<Rightarrow> lane_record \<Rightarrow> bool" where
  "is_start i r \<longleftrightarrow> recordId r = i \<and> (case recordBody r of OperationStarted _ _ \<Rightarrow> True | _ \<Rightarrow> False)"

definition is_finish :: "string \<Rightarrow> lane_record \<Rightarrow> bool" where
  "is_finish i r \<longleftrightarrow> (case recordBody r of OperationFinished runId _ _ \<Rightarrow> runId = i | _ \<Rightarrow> False)"

definition is_abort :: "string \<Rightarrow> lane_record \<Rightarrow> bool" where
  "is_abort i r \<longleftrightarrow> recordBody r = AbortRequested i"

fun invocation_of :: "record_body \<Rightarrow> (string \<times> nat) option" where
  "invocation_of (ToolStarted runId assistant index toolCallId toolName args result replay) = Some (assistant, index)"
| "invocation_of _ = None"

text \<open>What an accepted log guarantees for a record, given the records before it.\<close>

definition log_rule :: "lane_record list \<Rightarrow> lane_record \<Rightarrow> bool" where
  "log_rule pre r \<longleftrightarrow>
     (\<forall>i. run_id (recordBody r) = Some i \<longrightarrow> list_ex (is_start i) pre \<and> \<not> list_ex (is_finish i) pre) \<and>
     (\<forall>inv. invocation_of (recordBody r) = Some inv \<longrightarrow> \<not> list_ex (\<lambda>t. invocation_of (recordBody t) = Some inv) pre) \<and>
     (\<forall>q i t. recordBody r = QueueEnqueued q (Some i) t \<longrightarrow> q \<noteq> NextRunQueue \<longrightarrow> \<not> list_ex (is_abort i) pre) \<and>
     (\<forall>i e. recordBody r = QueueCancelled i e \<longrightarrow>
        list_ex (\<lambda>t. case recordBody t of QueueEnqueued q j target \<Rightarrow> j = i \<and> entryId target = e | _ \<Rightarrow> False) pre)"

definition log_state_inv :: "lane_record list \<Rightarrow> log_state \<Rightarrow> bool" where
  "log_state_inv pre s \<longleftrightarrow>
     (\<forall>i. i \<in> logStarts s \<longrightarrow> list_ex (is_start i) pre) \<and>
     (\<forall>i. list_ex (is_finish i) pre \<longrightarrow> (\<exists>f \<in> set pre. map_of (logFinishedAt s) i = Some (recordSeq f))) \<and>
     (\<forall>i. list_ex (is_abort i) pre \<longrightarrow> (\<exists>f \<in> set pre. map_of (logAbortedAt s) i = Some (recordSeq f))) \<and>
     (\<forall>i q. map_of (logEnqueues s) i = Some q \<longrightarrow> q \<in> set pre \<and> (\<exists>name j t. recordBody q = QueueEnqueued name j t \<and> entryId t = i)) \<and>
     (\<forall>t \<in> set pre. \<forall>a k. invocation_of (recordBody t) = Some (a, k) \<longrightarrow> invocation_key a k \<in> logInvocations s)"

lemma log_state_inv_new: "log_state_inv [] new_log_state"
  by (simp add: log_state_inv_def new_log_state_def)

lemma check_step_rule:
  assumes inv: "log_state_inv pre s" and ok: "check_record_log byId s r = Inr s'"
    and later: "\<forall>t \<in> set pre. recordSeq t < recordSeq r"
  shows "log_rule pre r"
proof -
  have owner: "list_ex (is_start i) pre \<and> \<not> list_ex (is_finish i) pre" if i: "run_id (recordBody r) = Some i" for i
  proof -
    from ok i have "check_owner s r = Inr ()"
      by (cases "recordBody r") (auto simp: check_record_log_def result_simps)
    with i have "i \<in> logStarts s" and fin: "\<forall>n. map_of (logFinishedAt s) i = Some n \<longrightarrow> \<not> recordSeq r > n"
      by (auto simp: check_owner_def result_simps split: option.splits)
    with inv later show ?thesis unfolding log_state_inv_def by blast
  qed
  moreover have "\<not> list_ex (\<lambda>t. invocation_of (recordBody t) = Some (a, k)) pre" if "invocation_of (recordBody r) = Some (a, k)" for a k
  proof -
    from ok that have "invocation_key a k \<notin> logInvocations s"
      by (cases "recordBody r")
        (auto simp: check_record_log_def check_body_def validateToolStart_def Let_def result_simps)
    with inv show ?thesis unfolding log_state_inv_def by (auto simp: list_ex_iff)
  qed
  moreover have "\<not> list_ex (is_abort i) pre" if "recordBody r = QueueEnqueued q (Some i) t" "q \<noteq> NextRunQueue" for q i t
  proof
    assume "list_ex (is_abort i) pre"
    with inv obtain f where "f \<in> set pre" "map_of (logAbortedAt s) i = Some (recordSeq f)"
      unfolding log_state_inv_def by blast
    with ok that later show False
      by (auto simp: check_record_log_def check_body_def result_simps)
  qed
  moreover have "list_ex (\<lambda>t. case recordBody t of QueueEnqueued q j target \<Rightarrow> j = i \<and> entryId target = e | _ \<Rightarrow> False) pre"
    if "recordBody r = QueueCancelled i e" for i e
  proof -
    from ok that obtain q where q: "map_of (logEnqueues s) e = Some q" "enqueue_run (recordBody q) = i"
      by (auto simp: check_record_log_def check_body_def result_simps split: option.splits if_splits)
    with inv obtain name j t where "q \<in> set pre" "recordBody q = QueueEnqueued name j t" "entryId t = e"
      unfolding log_state_inv_def by blast
    with q show ?thesis by (auto simp: list_ex_iff intro!: bexI[of _ q])
  qed
  ultimately show ?thesis
    unfolding log_rule_def by (intro conjI allI impI) auto
qed

lemma check_step_inv:
  assumes inv: "log_state_inv pre s" and ok: "check_record_log byId s r = Inr s'"
  shows "log_state_inv (pre @ [r]) s'"
proof (cases "recordBody r")
  case (OperationStarted leaf intent)
  with inv ok show ?thesis
    by (auto simp: log_state_inv_def check_record_log_def result_simps is_start_def[of _ r] is_finish_def[of _ r] is_abort_def[of _ r])
next
  case (AbortRequested i)
  with inv ok show ?thesis
    by (fastforce simp: log_state_inv_def check_record_log_def check_body_def result_simps is_start_def[of _ r] is_finish_def[of _ r]
        is_abort_def[of _ r] update_conv')
next
  case (OperationFinished i outcome err)
  with inv ok show ?thesis
    by (fastforce simp: log_state_inv_def check_record_log_def check_body_def result_simps is_start_def[of _ r] is_finish_def[of _ r]
        is_abort_def[of _ r] update_conv')
next
  case (StepAttempt i step n result reason)
  with inv ok show ?thesis
    by (auto simp: log_state_inv_def check_record_log_def check_body_def Let_def result_simps is_start_def[of _ r] is_finish_def[of _ r]
        is_abort_def[of _ r])
next
  case (ToolStarted i assistant index callid callname args result replay)
  with inv ok show ?thesis
    by (auto simp: log_state_inv_def check_record_log_def check_body_def validateToolStart_def Let_def result_simps
        is_start_def[of _ r] is_finish_def[of _ r] is_abort_def[of _ r] split: option.splits if_splits)
next
  case (QueueEnqueued q i t)
  with inv ok show ?thesis
    by (auto simp: log_state_inv_def check_record_log_def check_body_def result_simps is_start_def[of _ r] is_finish_def[of _ r]
        is_abort_def[of _ r] update_conv' split: if_splits)
next
  case (QueueCancelled i e)
  with inv ok show ?thesis
    by (auto simp: log_state_inv_def check_record_log_def check_body_def result_simps is_start_def[of _ r] is_finish_def[of _ r]
        is_abort_def[of _ r] split: option.splits if_splits)
next
  case (WriteDeferred i t)
  with inv ok show ?thesis
    by (auto simp: log_state_inv_def check_record_log_def check_body_def result_simps is_start_def[of _ r] is_finish_def[of _ r]
        is_abort_def[of _ r])
next
  case (UsageRecorded u cause i e)
  with inv ok show ?thesis
    by (auto simp: log_state_inv_def check_record_log_def check_body_def result_simps is_start_def[of _ r] is_finish_def[of _ r]
        is_abort_def[of _ r])
qed

lemma check_records_rules:
  assumes "log_state_inv pre s" and "check_records byId s rs = Inr s'" and "sorted_wrt (<) (map recordSeq (pre @ rs))"
    and "rs = as @ r # bs"
  shows "log_rule (pre @ as) r"
  using assms
proof (induction rs arbitrary: pre s as)
  case (Cons x rs)
  from Cons.prems(2) obtain s1 where s1: "check_record_log byId s x = Inr s1" "check_records byId s1 rs = Inr s'"
    by (auto simp: result_simps)
  have inv1: "log_state_inv (pre @ [x]) s1"
    by (rule check_step_inv[OF Cons.prems(1) s1(1)])
  show ?case
  proof (cases as)
    case Nil
    have "\<forall>t \<in> set pre. recordSeq t < recordSeq x"
      using Cons.prems(3) by (auto simp: sorted_wrt_append)
    from check_step_rule[OF Cons.prems(1) s1(1) this] Nil Cons.prems(4) show ?thesis by simp
  next
    case (Cons y as')
    with Cons.IH[OF inv1 s1(2), of as'] Cons.prems(3,4) show ?thesis by simp
  qed
qed simp

lemma sorted_key_strict:
  assumes "distinct (map f xs)"
  shows "sorted_wrt (<) (map (f :: 'a \<Rightarrow> nat) (sort_key f xs))"
proof -
  have "distinct (map f (sort_key f xs))"
    using assms by (metis distinct_map distinct_sort set_sort)
  then show ?thesis by (simp add: strict_sorted_iff)
qed

subsection \<open>No input is lost\<close>

lemma validate_all_Inr: "validate_all byId ts = Inr () \<Longrightarrow> t \<in> set ts \<Longrightarrow> validateExactProvisionedEntry byId t = Inr ()"
  by (induction ts) (auto simp: result_simps)

lemma check_records_each:
  "check_records byId s rs = Inr s' \<Longrightarrow> r \<in> set rs \<Longrightarrow> \<exists>s1 s2. check_record_log byId s1 r = Inr s2"
  by (induction rs arbitrary: s) (auto simp: result_simps)

text \<open>The provisioned entries a record intends to append.\<close>

fun intended_entries :: "record_body \<Rightarrow> provisioned_entry list" where
  "intended_entries (OperationStarted leaf intent) = initial_messages intent"
| "intended_entries (QueueEnqueued q runId t) = [t]"
| "intended_entries (WriteDeferred runId t) = [t]"
| "intended_entries _ = []"

lemma intended_exact:
  assumes "check_record_log byId s r = Inr s'" and "t \<in> set (intended_entries (recordBody r))"
  shows "validateExactProvisionedEntry byId t = Inr ()"
proof (cases "recordBody r")
  case (OperationStarted leaf intent)
  with assms show ?thesis
    by (cases intent) (auto simp: check_record_log_def validateOperationResult_def result_simps dest: validate_all_Inr)
qed (use assms in \<open>auto simp: check_record_log_def check_body_def result_simps\<close>)

lemma exact_entry:
  assumes "distinct (map entryId es)" and "validateExactProvisionedEntry (entry_map es) t = Inr ()"
    and "e \<in> set es" and "entryId e = entryId t"
  shows "payload_of_entry e = t"
proof -
  have "map_of (entry_map es) (entryId t) = Some e"
    using assms by (simp add: entry_map_Some)
  with assms(2) show ?thesis
    by (simp add: validateExactProvisionedEntry_def matchesProvisionedEntry_def)
qed

lemma validated_exact:
  assumes "validateRecordLog input = Inr ()" and "r \<in> set (sliceRecords input)" and "t \<in> set (intended_entries (recordBody r))"
    and "distinct (map entryId (sliceEntries input))" and "e \<in> set (sliceEntries input)" and "entryId e = entryId t"
  shows "payload_of_entry e = t"
proof -
  from assms(1) obtain s' where "check_records (entry_map (sliceEntries input)) new_log_state (sort_key recordSeq (sliceRecords input)) = Inr s'"
    by (auto simp: validateRecordLog_def Let_def result_simps)
  then obtain s1 s2 where "check_record_log (entry_map (sliceEntries input)) s1 r = Inr s2"
    using check_records_each assms(2) by (metis set_sort)
  from exact_entry[OF assms(4) intended_exact[OF this assms(3)] assms(5,6)] show ?thesis .
qed

lemma slice_of_simps [simp]:
  "sliceRecords (slice_of input) = sliceRecords input" "sliceEntries (slice_of input) = sliceEntries input"
  "sliceOpenOperations (slice_of input) = sliceOpenOperations input"
  by (simp_all add: slice_of_def record_log_slice.defs)

lemma set_map_filter: "set (List.map_filter f xs) = {y. \<exists>x \<in> set xs. f x = Some y}"
  by (induction xs) (auto split: option.splits)

lemma set_queue_targets:
  "set (queue_targets q cond rs) = {t. \<exists>r \<in> set rs. queue_target (recordBody r) = Some (q, t) \<and> cond r}"
  by (force simp: queue_targets_def set_map_filter split: option.splits if_splits)

text \<open>The parts of the input a reduction works on, in sequence order.\<close>

definition ordered_records :: "reduction_input \<Rightarrow> lane_record list" where
  "ordered_records input = sort_key recordSeq (sliceRecords input)"

definition all_known :: "reduction_input \<Rightarrow> (string \<times> entry) list" where
  "all_known input = entry_map (sliceEntries input @ sort_key entrySeq (inputOwnEntries input))"

definition cancelled_ids :: "reduction_input \<Rightarrow> string set" where
  "cancelled_ids input = set (List.map_filter (\<lambda>r. cancelled_id (recordBody r)) (ordered_records input))"

lemma reduce_operation:
  assumes "reduceLaneState input = Inr res" and "laneOperation (resultLaneState res) = Some op"
  obtains started intent where "sliceOpenOperations input = [started]" "intent_of (recordBody started) = Some intent"
    "validateRecordLog (slice_of input) = Inr ()"
    "op = derive_operation (all_known input) (ordered_records input) (cancelled_ids input)
       (sort_key entrySeq (inputOwnEntries input)) started intent"
proof -
  from assms(1) have val: "validateRecordLog (slice_of input) = Inr ()"
    by (auto simp: reduceLaneState_def result_simps)
  then have "length (sliceOpenOperations input) \<le> 1"
    by (auto simp: validateRecordLog_def result_simps)
  moreover from assms val obtain started rest intent where "sliceOpenOperations input = started # rest"
    "intent_of (recordBody started) = Some intent"
    "op = derive_operation (all_known input) (ordered_records input) (cancelled_ids input)
       (sort_key entrySeq (inputOwnEntries input)) started intent"
    by (auto simp: reduceLaneState_def Let_def all_known_def ordered_records_def cancelled_ids_def
        split: list.split_asm option.split_asm)
  ultimately show thesis using that val by auto
qed

lemma known_ids:
  "set (inputOwnEntries input) \<subseteq> set (sliceEntries input) \<Longrightarrow>
   has_entry_id (all_known input) i \<longleftrightarrow> i \<in> entryId ` set (sliceEntries input)"
  by (auto simp: all_known_def)

lemma set_ordered_records [simp]: "set (ordered_records input) = set (sliceRecords input)"
  by (simp add: ordered_records_def)

text \<open>An intended entry that is in the tree with its intended content.\<close>

definition present :: "reduction_input \<Rightarrow> provisioned_entry \<Rightarrow> bool" where
  "present input t \<longleftrightarrow> (\<exists>e \<in> set (sliceEntries input). payload_of_entry e = t)"

lemma present_or_absent:
  assumes "validateRecordLog (slice_of input) = Inr ()" and "distinct (map entryId (sliceEntries input))"
    and "set (inputOwnEntries input) \<subseteq> set (sliceEntries input)"
    and "r \<in> set (sliceRecords input)" and "t \<in> set (intended_entries (recordBody r))"
  shows "present input t \<longleftrightarrow> has_entry_id (all_known input) (entryId t)"
proof
  assume "present input t"
  then show "has_entry_id (all_known input) (entryId t)"
    unfolding known_ids[OF assms(3)] present_def payload_of_entry_def by force
next
  assume "has_entry_id (all_known input) (entryId t)"
  then obtain e where "e \<in> set (sliceEntries input)" "entryId e = entryId t"
    unfolding known_ids[OF assms(3)] by auto
  with validated_exact[OF assms(1), of r t e] assms(2,4,5) show "present input t"
    unfolding present_def by auto
qed

text \<open>The items that the records of an input intend, in sequence order, and what was done about them.\<close>

definition intended_items :: "(record_body \<Rightarrow> provisioned_entry option) \<Rightarrow> reduction_input \<Rightarrow> provisioned_entry list" where
  "intended_items f input = List.map_filter (\<lambda>r. f (recordBody r)) (sort_key recordSeq (sliceRecords input))"

fun write_of :: "string \<Rightarrow> record_body \<Rightarrow> provisioned_entry option" where
  "write_of i (WriteDeferred j t) = (if i = j then Some t else None)"
| "write_of i b = None"

fun queued_for :: "queue_name \<Rightarrow> string \<Rightarrow> record_body \<Rightarrow> provisioned_entry option" where
  "queued_for q i (QueueEnqueued q' j t) = (if q' = q \<and> j = Some i then Some t else None)"
| "queued_for q i b = None"

fun queued_next :: "record_body \<Rightarrow> provisioned_entry option" where
  "queued_next (QueueEnqueued q j t) = (if q = NextRunQueue then Some t else None)"
| "queued_next b = None"

definition was_cancelled :: "reduction_input \<Rightarrow> provisioned_entry \<Rightarrow> bool" where
  "was_cancelled input t \<longleftrightarrow> (\<exists>r \<in> set (sliceRecords input). \<exists>runId. recordBody r = QueueCancelled runId (entryId t))"

definition abort_requested :: "reduction_input \<Rightarrow> string \<Rightarrow> bool" where
  "abort_requested input i \<longleftrightarrow> (\<exists>r \<in> set (sliceRecords input). recordBody r = AbortRequested i)"

lemma cancelled_iff: "entryId t \<in> cancelled_ids input \<longleftrightarrow> was_cancelled input t"
proof -
  have "cancelled_id b = Some i \<longleftrightarrow> (\<exists>runId. b = QueueCancelled runId i)" for b i by (cases b) auto
  then show ?thesis by (auto simp: cancelled_ids_def was_cancelled_def set_map_filter)
qed

lemma intended_present:
  assumes "validateRecordLog (slice_of input) = Inr ()" and "distinct (map entryId (sliceEntries input))"
    and "set (inputOwnEntries input) \<subseteq> set (sliceEntries input)"
    and "\<And>b t. f b = Some t \<Longrightarrow> t \<in> set (intended_entries b)" and "t \<in> set (intended_items f input)"
  shows "present input t \<longleftrightarrow> has_entry_id (all_known input) (entryId t)"
proof -
  from assms(5) obtain r where "r \<in> set (sliceRecords input)" "f (recordBody r) = Some t"
    by (auto simp: intended_items_def set_map_filter)
  with assms(4) present_or_absent[OF assms(1-3)] show ?thesis by blast
qed

lemma queue_targets_items:
  assumes f: "\<And>r t. c r \<and> queue_target (recordBody r) = Some (q, t) \<longleftrightarrow> f (recordBody r) = Some t"
  shows "queue_targets q c (filter (pending_queue_record byId ids) rs) =
    filter (\<lambda>t. \<not> has_entry_id byId (entryId t) \<and> entryId t \<notin> ids) (List.map_filter (\<lambda>r. f (recordBody r)) rs)"
proof (induction rs)
  case (Cons r rs)
  have "f (recordBody r) = (case queue_target (recordBody r) of None \<Rightarrow> None | Some (q', t) \<Rightarrow> if q' = q \<and> c r then Some t else None)"
  proof (cases "f (recordBody r)")
    case None
    with f[of r] have "\<not> (c r \<and> queue_target (recordBody r) = Some (q, t))" for t by simp
    with None show ?thesis by (auto split: option.splits)
  next
    case (Some t)
    with f[of r t] show ?thesis by simp
  qed
  with Cons show ?case
    by (cases "queue_target (recordBody r)") (auto simp: queue_targets_def pending_queue_record_def split: if_splits)
qed (simp add: queue_targets_def)

lemma intended_filter:
  "intended_items (\<lambda>b. case f b of None \<Rightarrow> None | Some t \<Rightarrow> if P t then Some t else None) input = filter P (intended_items f input)"
proof -
  have "List.map_filter (\<lambda>r. case f (recordBody r) of None \<Rightarrow> None | Some t \<Rightarrow> if P t then Some t else None) rs =
      filter P (List.map_filter (\<lambda>r. f (recordBody r)) rs)" for rs
    by (induction rs) (auto split: option.splits)
  then show ?thesis by (simp add: intended_items_def)
qed

lemma pending_items:
  assumes "validateRecordLog (slice_of input) = Inr ()" and "distinct (map entryId (sliceEntries input))"
    and "set (inputOwnEntries input) \<subseteq> set (sliceEntries input)"
    and f: "\<And>r t. c r \<and> queue_target (recordBody r) = Some (q, t) \<longleftrightarrow> f (recordBody r) = Some t"
  shows "queue_targets q c (filter (pending_queue_record (all_known input) (cancelled_ids input)) (ordered_records input)) =
    filter (\<lambda>t. \<not> present input t \<and> \<not> was_cancelled input t) (intended_items f input)"
proof -
  have "t \<in> set (intended_entries (recordBody r))" if "f (recordBody r) = Some t" for r :: lane_record and t
    using f[of r t] that by (cases "recordBody r") auto
  then have "present input t \<longleftrightarrow> has_entry_id (all_known input) (entryId t)" if "t \<in> set (intended_items f input)" for t
    using that present_or_absent[OF assms(1-3)] by (auto simp: intended_items_def set_map_filter)
  then show ?thesis
    unfolding queue_targets_items[OF f] ordered_records_def intended_items_def[symmetric] cancelled_iff
    by (auto intro!: filter_cong)
qed

lemma recovered_inputs:
  assumes "reduceLaneState input = Inr res" and "laneOperation (resultLaneState res) = Some op"
    and "distinct (map entryId (sliceEntries input))" and "set (inputOwnEntries input) \<subseteq> set (sliceEntries input)"
    and "set (sliceOpenOperations input) \<subseteq> set (sliceRecords input)"
  shows "missingInitialMessages op = filter (\<lambda>t. \<not> present input t) (initial_messages (operationIntent op))"
    and "pendingWrites op = filter (\<lambda>t. \<not> present input t) (intended_items (write_of (operationId op)) input)"
    and "operationAborting op \<longleftrightarrow> abort_requested input (operationId op)"
    and "pendingSteer op = (if abort_requested input (operationId op) then []
      else filter (\<lambda>t. \<not> present input t \<and> \<not> was_cancelled input t) (intended_items (queued_for SteerQueue (operationId op)) input))"
    and "pendingFollowUp op = (if abort_requested input (operationId op) then []
      else filter (\<lambda>t. \<not> present input t \<and> \<not> was_cancelled input t) (intended_items (queued_for FollowUpQueue (operationId op)) input))"
    and "pendingNextRun (resultLaneState res) = filter (\<lambda>t. \<not> present input t \<and> \<not> was_cancelled input t \<and>
      entryId t \<notin> entryId ` set (initial_messages (operationIntent op))) (intended_items queued_next input)"
    and "\<exists>started leaf. sliceOpenOperations input = [started] \<and> recordId started = operationId op \<and>
      recordBody started = OperationStarted leaf (operationIntent op)"
proof -
  obtain started intent where o: "sliceOpenOperations input = [started]" "intent_of (recordBody started) = Some intent"
    "validateRecordLog (slice_of input) = Inr ()"
    "op = derive_operation (all_known input) (ordered_records input) (cancelled_ids input)
       (sort_key entrySeq (inputOwnEntries input)) started intent"
    using reduce_operation[OF assms(1,2)] .
  from o(2) obtain leaf where started: "recordBody started = OperationStarted leaf intent"
    by (cases "recordBody started") auto
  let ?i = "recordId started" and ?own = "filter (owned_by (recordId started)) (ordered_records input)"
    and ?pending = "filter (pending_queue_record (all_known input) (cancelled_ids input)) (ordered_records input)"
  have op: "operationId op = ?i" "operationIntent op = intent"
    "missingInitialMessages op = filter (\<lambda>t. \<not> has_entry_id (all_known input) (entryId t)) (initial_messages intent)"
    "operationAborting op = list_ex (\<lambda>r. type_of_record (recordBody r) = AbortRequestedType) ?own"
    "pendingWrites op = List.map_filter (\<lambda>r. case deferred_target (recordBody r) of
       None \<Rightarrow> None | Some t \<Rightarrow> if has_entry_id (all_known input) (entryId t) then None else Some t) ?own"
    "pendingSteer op = (if operationAborting op then [] else queue_targets SteerQueue (\<lambda>r. run_id (recordBody r) = Some ?i) ?pending)"
    "pendingFollowUp op = (if operationAborting op then []
      else queue_targets FollowUpQueue (\<lambda>r. run_id (recordBody r) = Some ?i) ?pending)"
    by (simp_all add: o(4) derive_operation_def Let_def)
  note present = intended_present[OF o(3) assms(3,4)]
  show "\<exists>started leaf. sliceOpenOperations input = [started] \<and> recordId started = operationId op \<and>
      recordBody started = OperationStarted leaf (operationIntent op)"
    using o(1) started op(1,2) by auto
  have "present input t \<longleftrightarrow> has_entry_id (all_known input) (entryId t)" if "t \<in> set (initial_messages intent)" for t
    using present_or_absent[OF o(3) assms(3,4), of started t] that assms(5) o(1) started by simp
  then show "missingInitialMessages op = filter (\<lambda>t. \<not> present input t) (initial_messages (operationIntent op))"
    unfolding op(2,3) by (auto intro!: filter_cong)
  show abort: "operationAborting op \<longleftrightarrow> abort_requested input (operationId op)"
  proof -
    have "owned_by ?i r \<and> type_of_record (recordBody r) = AbortRequestedType \<longleftrightarrow> recordBody r = AbortRequested ?i" for r
      by (cases "recordBody r") (auto simp: owned_by_def)
    then show ?thesis by (auto simp: op(1,4) abort_requested_def list_ex_iff)
  qed
  have writes: "List.map_filter (\<lambda>r. case deferred_target (recordBody r) of
       None \<Rightarrow> None | Some t \<Rightarrow> if has_entry_id byId (entryId t) then None else Some t) (filter (owned_by ?i) rs) =
      filter (\<lambda>t. \<not> has_entry_id byId (entryId t)) (List.map_filter (\<lambda>r. write_of ?i (recordBody r)) rs)" for byId rs
  proof (induction rs)
    case (Cons r rs)
    then show ?case by (cases "recordBody r") (auto simp: owned_by_def)
  qed simp
  show "pendingWrites op = filter (\<lambda>t. \<not> present input t) (intended_items (write_of (operationId op)) input)"
  proof -
    have "\<not> has_entry_id (all_known input) (entryId t) \<longleftrightarrow> \<not> present input t" if "t \<in> set (intended_items (write_of ?i) input)" for t
    proof -
      have "t \<in> set (intended_entries b)" if "write_of ?i b = Some t" for b t using that by (cases b) (auto split: if_splits)
      with present[of "write_of ?i" t] that show ?thesis by blast
    qed
    then show ?thesis
      unfolding op(1,5) writes by (auto simp: intended_items_def ordered_records_def intro!: filter_cong)
  qed
  have queue: "queue_targets q (\<lambda>r. run_id (recordBody r) = Some ?i) ?pending =
      filter (\<lambda>t. \<not> present input t \<and> \<not> was_cancelled input t) (intended_items (queued_for q ?i) input)" for q
  proof (rule pending_items[OF o(3) assms(3,4)])
    show "run_id (recordBody r) = Some ?i \<and> queue_target (recordBody r) = Some (q, t) \<longleftrightarrow> queued_for q ?i (recordBody r) = Some t" for r t
      by (cases "recordBody r") auto
  qed
  show "pendingSteer op = (if abort_requested input (operationId op) then []
      else filter (\<lambda>t. \<not> present input t \<and> \<not> was_cancelled input t) (intended_items (queued_for SteerQueue (operationId op)) input))"
    "pendingFollowUp op = (if abort_requested input (operationId op) then []
      else filter (\<lambda>t. \<not> present input t \<and> \<not> was_cancelled input t) (intended_items (queued_for FollowUpQueue (operationId op)) input))"
    unfolding op(6,7) queue abort op(1) by simp_all
  show "pendingNextRun (resultLaneState res) = filter (\<lambda>t. \<not> present input t \<and> \<not> was_cancelled input t \<and>
      entryId t \<notin> entryId ` set (initial_messages (operationIntent op))) (intended_items queued_next input)"
  proof -
    let ?captured = "entryId ` set (initial_messages intent)"
    let ?free = "\<lambda>b. case queued_next b of None \<Rightarrow> None | Some t \<Rightarrow> if entryId t \<notin> ?captured then Some t else None"
    have "pendingNextRun (resultLaneState res) = queue_targets NextRunQueue
        (\<lambda>r. case queue_target (recordBody r) of None \<Rightarrow> False | Some (q, t) \<Rightarrow> entryId t \<notin> ?captured) ?pending"
      using assms(1) o(1,2)
      by (auto simp: reduceLaneState_def Let_def result_simps all_known_def ordered_records_def cancelled_ids_def cong: option.case_cong)
    also have "\<dots> = filter (\<lambda>t. \<not> present input t \<and> \<not> was_cancelled input t) (intended_items ?free input)"
    proof (rule pending_items[OF o(3) assms(3,4)])
      show "(case queue_target (recordBody r) of None \<Rightarrow> False | Some (q, t) \<Rightarrow> entryId t \<notin> ?captured) \<and>
          queue_target (recordBody r) = Some (NextRunQueue, t) \<longleftrightarrow> ?free (recordBody r) = Some t" for r t
        by (cases "recordBody r") auto
    qed
    also have "intended_items ?free input = filter (\<lambda>t. entryId t \<notin> ?captured) (intended_items queued_next input)"
      by (rule intended_filter)
    finally show ?thesis by (simp add: op(2) conj_ac)
  qed
qed

subsection \<open>The effective configuration\<close>

definition model_of :: "entry \<Rightarrow> (string \<times> string) option" where
  "model_of e = (case entryBody e of
     ModelChangeEntry provider modelId \<Rightarrow> Some (provider, modelId)
   | MessageEntry (AssistantMessage m) _ \<Rightarrow> Some (asstProvider m, asstModel m)
   | _ \<Rightarrow> None)"

definition level_of :: "entry \<Rightarrow> string option" where
  "level_of e = (case entryBody e of ThinkingLevelEntry level \<Rightarrow> Some level | _ \<Rightarrow> None)"

definition tools_of :: "entry \<Rightarrow> string list option" where
  "tools_of e = (case entryBody e of ActiveToolsEntry names \<Rightarrow> Some names | _ \<Rightarrow> None)"

text \<open>The value of the last entry that sets one, or the default.\<close>

definition latest :: "(entry \<Rightarrow> 'a option) \<Rightarrow> 'a \<Rightarrow> entry list \<Rightarrow> 'a" where
  "latest f d es = (case last_option (List.map_filter f es) of None \<Rightarrow> d | Some x \<Rightarrow> x)"

lemma latest_simps [simp]:
  "latest f d [] = d" "latest f d (e # es) = latest f (case f e of None \<Rightarrow> d | Some x \<Rightarrow> x) es"
  by (auto simp: latest_def last_option_def split: option.splits)

lemma apply_configuration_fields:
  "configModel (apply_configuration e c) = (case model_of e of None \<Rightarrow> configModel c | Some m \<Rightarrow> m)"
  "configThinkingLevel (apply_configuration e c) = (case level_of e of None \<Rightarrow> configThinkingLevel c | Some l \<Rightarrow> l)"
  "configActiveTools (apply_configuration e c) = (case tools_of e of None \<Rightarrow> configActiveTools c | Some t \<Rightarrow> t)"
  by (simp_all add: apply_configuration_def model_of_def level_of_def tools_of_def split: entry_body.split agent_message.split)

lemma fold_configuration:
  "configModel (fold apply_configuration es c) = latest model_of (configModel c) es"
  "configThinkingLevel (fold apply_configuration es c) = latest level_of (configThinkingLevel c) es"
  "configActiveTools (fold apply_configuration es c) = latest tools_of (configActiveTools c) es"
  by (induction es arbitrary: c) (simp_all add: apply_configuration_fields)

subsection \<open>Order of the input\<close>

lemma sort_key_set:
  fixes f :: "'a \<Rightarrow> nat"
  assumes "set xs = set ys" and "distinct (map f xs)" and "distinct (map f ys)"
  shows "sort_key f xs = sort_key f ys"
proof (rule map_sorted_distinct_set_unique[of f])
  show "inj_on f (set (sort_key f xs) \<union> set (sort_key f ys))"
    using assms by (simp add: distinct_map)
  show "distinct (map f (sort_key f xs))" "distinct (map f (sort_key f ys))"
    using assms by (simp_all add: distinct_map)
qed (use assms in simp_all)

lemma entry_map_set:
  assumes "set es = set fs" and "distinct (map entryId es)" and "distinct (map entryId fs)"
  shows "map_of (entry_map es) = map_of (entry_map fs)"
proof
  fix i
  show "map_of (entry_map es) i = map_of (entry_map fs) i"
    using assms(1) entry_map_Some[OF assms(2), of i] entry_map_Some[OF assms(3), of i] by (metis option.exhaust)
qed

lemma entry_map_snd_set: "distinct (map entryId es) \<Longrightarrow> set (map snd (entry_map es)) = set es"
  by (simp add: entry_map_distinct image_image)

text \<open>Validation and derivation read an entry map only through its lookups.\<close>

lemma check_records_lookups:
  assumes "map_of m = map_of m'"
  shows "check_records m s rs = check_records m' s rs"
proof -
  have exact: "validateExactProvisionedEntry m = validateExactProvisionedEntry m'"
    unfolding validateExactProvisionedEntry_def assms fun_eq_iff by simp
  have all: "validate_all m ts = validate_all m' ts" for ts
    by (induction ts) (simp_all add: exact)
  have res: "validateResultEntry m = validateResultEntry m'"
    unfolding validateResultEntry_def assms fun_eq_iff by simp
  have cont: "continues_series m = continues_series m'"
    unfolding continues_series_def assms fun_eq_iff by simp
  have seq: "validateAttemptSequence m = validateAttemptSequence m'"
    unfolding validateAttemptSequence_def expected_attempt_def cont fun_eq_iff by simp
  have tool: "validateToolStart m = validateToolStart m'"
    unfolding validateToolStart_def assms res fun_eq_iff by simp
  have body: "check_body m = check_body m'"
    unfolding check_body_def seq tool exact validateAttemptResult_def res has_entry_id_def assms fun_eq_iff by simp
  have "check_record_log m = check_record_log m'"
    unfolding check_record_log_def validateOperationResult_def all res body fun_eq_iff by simp
  then show ?thesis
    by (induction rs arbitrary: s) simp_all
qed

lemma derive_operation_lookups:
  assumes "map_of m = map_of m'"
  shows "derive_operation m rs cancelled own started intent = derive_operation m' rs cancelled own started intent"
proof -
  have has: "has_entry_id m = has_entry_id m'"
    by (simp add: fun_eq_iff has_entry_id_def assms)
  have call: "call_state operation rs own m = call_state operation rs own m'" for operation rs own
    unfolding call_state_def assms by (rule refl)
  have batch: "deriveToolBatch operation rs own m = deriveToolBatch operation rs own m'" for operation rs own
    unfolding deriveToolBatch_def call by (rule refl)
  have step: "derive_step m = derive_step m'"
    unfolding derive_step_def has by (rule refl)
  have pend: "pending_queue_record m = pending_queue_record m'"
    unfolding pending_queue_record_def has by (rule refl)
  have over: "overflow_used m = overflow_used m'"
    unfolding overflow_used_def after_consumed_def assms by (rule refl)
  show ?thesis
    unfolding derive_operation_def has batch step pend over by (rule refl)
qed

definition same_input :: "reduction_input \<Rightarrow> reduction_input \<Rightarrow> bool" where
  "same_input a b \<longleftrightarrow>
     sliceLane a = sliceLane b \<and> sliceOpenOperations a = sliceOpenOperations b \<and> inputLeafId a = inputLeafId b \<and>
     inputDefaults a = inputDefaults b \<and> set (sliceRecords a) = set (sliceRecords b) \<and>
     set (sliceEntries a) = set (sliceEntries b) \<and> set (inputOwnEntries a) = set (inputOwnEntries b) \<and>
     set (inputConfigurationEntries a) = set (inputConfigurationEntries b)"

text \<open>Ids and sequence numbers identify records and entries.\<close>

definition identified :: "reduction_input \<Rightarrow> bool" where
  "identified a \<longleftrightarrow> distinct (map recordSeq (sliceRecords a)) \<and> distinct (map entryId (sliceEntries a)) \<and>
     distinct (map entrySeq (inputOwnEntries a)) \<and>
     inj_on entryId (set (sliceEntries a) \<union> set (inputOwnEntries a)) \<and>
     inj_on entryId (set (inputConfigurationEntries a) \<union> set (inputOwnEntries a)) \<and>
     inj_on entrySeq (set (inputConfigurationEntries a) \<union> set (inputOwnEntries a))"

lemma entry_map_inj:
  assumes "inj_on entryId (set es)"
  shows "map_of (entry_map es) i = Some e \<longleftrightarrow> e \<in> set es \<and> entryId e = i"
proof
  assume e: "e \<in> set es \<and> entryId e = i"
  then obtain e' where e': "map_of (entry_map es) i = Some e'"
    using has_entry_map[of es i] by (auto simp: has_entry_id_def)
  with entry_map_SomeD e assms have "e' = e" by (metis inj_onD)
  with e' show "map_of (entry_map es) i = Some e" by simp
qed (rule entry_map_SomeD)

lemma entry_map_inj_set:
  assumes "set es = set fs" and "inj_on entryId (set es)"
  shows "map_of (entry_map es) = map_of (entry_map fs)"
proof
  fix i
  show "map_of (entry_map es) i = map_of (entry_map fs) i"
    using assms entry_map_inj[of es i] entry_map_inj[of fs i] by (metis option.exhaust)
qed

lemma entry_map_keys_distinct: "distinct (map fst (entry_map es))"
  by (induction es rule: rev_induct) (simp_all add: entry_map_snoc distinct_update)

lemma entry_map_in: "(k, e) \<in> set (entry_map es) \<longleftrightarrow> map_of (entry_map es) k = Some e"
  using entry_map_keys_distinct[of es] by (simp add: map_of_eq_Some_iff)

lemma entry_map_snd: "inj_on entryId (set es) \<Longrightarrow> set (map snd (entry_map es)) = set es"
proof (intro set_eqI iffI)
  fix e
  assume inj: "inj_on entryId (set es)"
  show "e \<in> set es" if "e \<in> set (map snd (entry_map es))"
    using that entry_map_in[of _ e es] entry_map_SomeD[of es _ e] by auto
  show "e \<in> set (map snd (entry_map es))" if "e \<in> set es"
    using that entry_map_inj[OF inj, of "entryId e" e] entry_map_in[of "entryId e" e es] by force
qed

lemma entry_map_snd_distinct: "distinct (map snd (entry_map es))"
proof -
  have "fst p = entryId (snd p)" if "p \<in> set (entry_map es)" for p
    using that entry_map_in[of "fst p" "snd p" es] entry_map_SomeD[of es "fst p" "snd p"] by simp
  then have "map fst (entry_map es) = map entryId (map snd (entry_map es))"
    unfolding map_map by (intro map_cong) simp_all
  then have "distinct (map entryId (map snd (entry_map es)))"
    using entry_map_keys_distinct[of es] by (simp only:)
  then show ?thesis
    by (simp only: distinct_map[of entryId])
qed

lemma reduce_same_input:
  assumes same: "same_input a b" and ids: "identified a" "identified b"
  shows "reduceLaneState a = reduceLaneState b"
proof -
  note s = same[unfolded same_input_def] and i = ids[unfolded identified_def]
  have rs: "sort_key recordSeq (sliceRecords a) = sort_key recordSeq (sliceRecords b)"
    using s i by (intro sort_key_set) simp_all
  have own: "sort_key entrySeq (inputOwnEntries a) = sort_key entrySeq (inputOwnEntries b)"
    using s i by (intro sort_key_set) simp_all
  have byId: "map_of (entry_map (sliceEntries a)) = map_of (entry_map (sliceEntries b))"
    using s i by (intro entry_map_set) simp_all
  have known: "map_of (entry_map (sliceEntries a @ sort_key entrySeq (inputOwnEntries a))) =
      map_of (entry_map (sliceEntries b @ sort_key entrySeq (inputOwnEntries b)))"
    using s i by (intro entry_map_inj_set) simp_all
  have "validateDeferredHandles (map snd (entry_map (sliceEntries a))) =
      validateDeferredHandles (map snd (entry_map (sliceEntries b)))"
    using s i entry_map_snd_set[of "sliceEntries a"] entry_map_snd_set[of "sliceEntries b"]
    by (simp add: validateDeferredHandles_def list_ex_iff del: set_map)
  then have val: "validateRecordLog (slice_of a) = validateRecordLog (slice_of b)"
    using s check_records_lookups[OF byId] by (simp add: validateRecordLog_def rs Let_def)
  have "sort_key entrySeq (map snd (entry_map (inputConfigurationEntries a @ inputOwnEntries a))) =
      sort_key entrySeq (map snd (entry_map (inputConfigurationEntries b @ inputOwnEntries b)))"
  proof (rule sort_key_set)
    let ?ca = "inputConfigurationEntries a @ inputOwnEntries a" and ?cb = "inputConfigurationEntries b @ inputOwnEntries b"
    have sa: "set (map snd (entry_map ?ca)) = set ?ca" and sb: "set (map snd (entry_map ?cb)) = set ?cb"
      using i by (simp_all only: entry_map_snd set_append)
    then show "set (map snd (entry_map ?ca)) = set (map snd (entry_map ?cb))"
      using s by (simp only: set_append)
    show "distinct (map entrySeq (map snd (entry_map ?ca)))"
      using i entry_map_snd_distinct[of ?ca] unfolding distinct_map[of entrySeq] sa by (simp only: set_append)
    show "distinct (map entrySeq (map snd (entry_map ?cb)))"
      using i entry_map_snd_distinct[of ?cb] unfolding distinct_map[of entrySeq] sb by (simp only: set_append)
  qed
  then have config: "deriveEffectiveConfiguration a = deriveEffectiveConfiguration b"
    using s by (simp add: deriveEffectiveConfiguration_def)
  note known = known[unfolded own]
  have pend: "pending_queue_record (entry_map (sliceEntries a @ sort_key entrySeq (inputOwnEntries b))) =
      pending_queue_record (entry_map (sliceEntries b @ sort_key entrySeq (inputOwnEntries b)))"
    unfolding pending_queue_record_def has_entry_id_def known by (rule refl)
  have same_parts: "sliceLane a = sliceLane b" "sliceOpenOperations a = sliceOpenOperations b" "inputLeafId a = inputLeafId b"
    using s by simp_all
  show ?thesis
    unfolding reduceLaneState_def Let_def val rs own config pend derive_operation_lookups[OF known] same_parts
    by (rule refl)
qed

subsection \<open>A sample recovery\<close>

definition sample_prompt :: provisioned_entry where
  "sample_prompt = \<lparr>entryId = ''m'', entryBody = MessageEntry (UserMessage (PlainContent ''hi'') 0) False\<rparr>"

definition sample_steer :: provisioned_entry where
  "sample_steer = \<lparr>entryId = ''q'', entryBody = MessageEntry (UserMessage (PlainContent ''also'') 0) False\<rparr>"

definition sample_log :: "lane_record list" where
  "sample_log =
     [record_of_new \<lparr>recordId = ''s'', recordLane = ''main'', recordBody = QueueEnqueued SteerQueue (Some ''op'') sample_steer\<rparr> 3 0,
      record_of_new \<lparr>recordId = ''op'', recordLane = ''main'', recordBody = OperationStarted None (RunIntent [] [sample_prompt] None JUndefined)\<rparr> 1 0]"

definition sample_input :: "lane_record list \<Rightarrow> reduction_input" where
  "sample_input rs =
     \<lparr>sliceLane = ''main'', sliceOpenOperations = [sample_log ! 1], sliceRecords = rs,
      sliceEntries = [provision sample_prompt 2 None 0], inputLeafId = Some ''m'',
      inputOwnEntries = [provision sample_prompt 2 None 0], inputConfigurationEntries = [],
      inputDefaults = \<lparr>configModel = (''p'', ''m''), configThinkingLevel = ''off'', configActiveTools = []\<rparr>\<rparr>"

lemma sample_validates: "validateRecordLog (slice_of (sample_input sample_log)) = Inr ()"
  by (simp add: validateRecordLog_def sample_input_def sample_log_def slice_of_def record_log_slice.defs Let_def
      entry_map_def validateDeferredHandles_def bad_deferred_def sample_prompt_def sample_steer_def check_record_log_def
      validateOperationResult_def validateExactProvisionedEntry_def matchesProvisionedEntry_def new_log_state_def
      check_owner_def check_body_def)

lemma sample_reduces: "\<exists>res op. reduceLaneState (sample_input sample_log) = Inr res \<and> laneOperation (resultLaneState res) = Some op"
proof -
  have "sliceOpenOperations (sample_input sample_log) = [sample_log ! 1]"
    "intent_of (recordBody (sample_log ! 1)) = Some (RunIntent [] [sample_prompt] None JUndefined)"
    by (simp_all add: sample_input_def sample_log_def)
  then show ?thesis
    by (simp add: reduceLaneState_def sample_validates Let_def del: sample_log_def)
qed

subsection \<open>Properties\<close>

text \<open>C18: In a record log that validation accepts, in sequence order, every record of an operation comes
  after the operation's start and before its finish, no tool invocation is started twice, nothing is
  queued for an operation after its abort was requested, and a cancellation follows the enqueue it
  cancels, of the same operation.\<close>

theorem accepted_log:
  assumes "validateRecordLog input = Inr ()" and "distinct (map recordSeq (sliceRecords input))"
    and "sort_key recordSeq (sliceRecords input) = pre @ r # post"
  shows "log_rule pre r"
proof -
  from assms(1) obtain s' where "check_records (entry_map (sliceEntries input)) new_log_state
      (sort_key recordSeq (sliceRecords input)) = Inr s'"
    by (auto simp: validateRecordLog_def Let_def result_simps)
  from check_records_rules[OF log_state_inv_new this _ assms(3)] sorted_key_strict[OF assms(2)] show ?thesis
    by simp
qed

theorem accepted_log_witness: "log_rule [sample_log ! 1] (sample_log ! 0)"
proof -
  have "sort_key recordSeq (sliceRecords (slice_of (sample_input sample_log))) = [sample_log ! 1] @ sample_log ! 0 # []"
    "distinct (map recordSeq (sliceRecords (slice_of (sample_input sample_log))))"
    by (simp_all add: sample_input_def sample_log_def)
  with accepted_log[OF sample_validates] show ?thesis by blast
qed

text \<open>C17: A recovery of a lane with an open operation loses no input and repeats none. What is still to be
  appended, in this order and each item as often as it is intended: of the initial messages of the operation,
  of the deferred writes its records intend, in sequence order, those that are not in the tree with exactly
  their content; of the steering and follow-up items its records queue, in sequence order, those that are
  neither in the tree nor cancelled, and none exactly when a record requests the abort of this operation; of
  the items queued for the next run those that are neither in the tree, nor cancelled, nor among the initial
  messages. The operation is the one open operation of the input, with its id and intent.\<close>

theorem no_input_lost:
  assumes "reduceLaneState input = Inr res" and "laneOperation (resultLaneState res) = Some op"
    and "distinct (map entryId (sliceEntries input))" and "set (inputOwnEntries input) \<subseteq> set (sliceEntries input)"
    and "set (sliceOpenOperations input) \<subseteq> set (sliceRecords input)"
  shows "(\<exists>started leaf. sliceOpenOperations input = [started] \<and> recordId started = operationId op \<and>
      recordBody started = OperationStarted leaf (operationIntent op)) \<and>
    (operationAborting op \<longleftrightarrow> abort_requested input (operationId op)) \<and>
    missingInitialMessages op = filter (\<lambda>t. \<not> present input t) (initial_messages (operationIntent op)) \<and>
    pendingWrites op = filter (\<lambda>t. \<not> present input t) (intended_items (write_of (operationId op)) input) \<and>
    pendingSteer op = (if abort_requested input (operationId op) then []
      else filter (\<lambda>t. \<not> present input t \<and> \<not> was_cancelled input t) (intended_items (queued_for SteerQueue (operationId op)) input)) \<and>
    pendingFollowUp op = (if abort_requested input (operationId op) then []
      else filter (\<lambda>t. \<not> present input t \<and> \<not> was_cancelled input t) (intended_items (queued_for FollowUpQueue (operationId op)) input)) \<and>
    pendingNextRun (resultLaneState res) = filter (\<lambda>t. \<not> present input t \<and> \<not> was_cancelled input t \<and>
      entryId t \<notin> entryId ` set (initial_messages (operationIntent op))) (intended_items queued_next input)"
  using recovered_inputs[OF assms] by blast

theorem no_input_lost_witness:
  "\<exists>res op. reduceLaneState (sample_input sample_log) = Inr res \<and> laneOperation (resultLaneState res) = Some op \<and>
    missingInitialMessages op = filter (\<lambda>t. \<not> present (sample_input sample_log) t) (initial_messages (operationIntent op))"
proof -
  obtain res op where r: "reduceLaneState (sample_input sample_log) = Inr res" "laneOperation (resultLaneState res) = Some op"
    using sample_reduces by blast
  have "distinct (map entryId (sliceEntries (sample_input sample_log)))"
    "set (inputOwnEntries (sample_input sample_log)) \<subseteq> set (sliceEntries (sample_input sample_log))"
    "set (sliceOpenOperations (sample_input sample_log)) \<subseteq> set (sliceRecords (sample_input sample_log))"
    by (simp_all add: sample_input_def sample_log_def)
  from no_input_lost[OF r this] r show ?thesis by blast
qed

text \<open>The effective configuration has, independently for the model, the thinking level and the
  active tools, the value of the latest entry in sequence order that sets it, and the harness default
  when none does; an assistant message sets the model.\<close>

theorem effective_configuration:
  "deriveEffectiveConfiguration input =
     (let es = sort_key entrySeq (map snd (entry_map (inputConfigurationEntries input @ inputOwnEntries input)));
          d = inputDefaults input
      in \<lparr>configModel = latest model_of (configModel d) es,
          configThinkingLevel = latest level_of (configThinkingLevel d) es,
          configActiveTools = latest tools_of (configActiveTools d) es\<rparr>)"
  using fold_configuration
  by (simp add: deriveEffectiveConfiguration_def Let_def lane_configuration.equality)

text \<open>C19: A recovery depends only on which records and entries storage returned, not on their order:
  two inputs with the same records, entries and options, in which sequence numbers and ids identify
  them, reduce to the same state, configuration and failure, or to the same corruption.\<close>

theorem recovery_order_independent:
  assumes "same_input a b" and "identified a" and "identified b"
  shows "reduceLaneState a = reduceLaneState b"
  using assms by (rule reduce_same_input)

theorem recovery_order_independent_witness:
  "reduceLaneState (sample_input sample_log) = reduceLaneState (sample_input (rev sample_log))"
  by (rule recovery_order_independent) (auto simp: same_input_def identified_def sample_input_def sample_log_def)

end
