(* ===== verification/AgentLoop.thy ===== *)
theory AgentLoop
  imports Messages "HOL-Library.State_Monad"
begin

section \<open>The agent loop\<close>

text \<open>
  \<^verbatim>\<open>packages/agent/src/agent-loop.ts\<close>: a run asks the model for a message, executes the tool calls in it,
  appends their results, and goes on until nothing is left to do. The code is asynchronous; what it
  awaits (the model, the tools, the hooks, the event sink, the clock, the abort signal) acts on a world
  of an arbitrary type \<open>'w\<close>, and each is a parameter of the model: a state transformer of the world.
  The events a stream will deliver and the partial results a tool will report are fixed when it is
  called; how it ends is read in the world in which it ends. As the contracts in
  \<^verbatim>\<open>packages/agent/src/types.ts\<close> demand, the model stream, the queue callbacks and the sink do not throw;
  the callbacks whose exceptions the code catches return a sum. Tools that run at the same time are
  tasks that advance one step, between two awaits, at a time, in an order the world chooses.
\<close>

subsection \<open>Data\<close>

datatype execution_mode = SequentialMode | ParallelMode

record model_ref =
  modelProvider :: string
  modelId :: string

record agent_tool_result =
  trContent :: "content_block list option"     \<comment> \<open>untyped tools may leave it out\<close>
  trDetails :: js_value
  trUsage :: "usage option"
  trAddedToolNames :: "string list option"
  trTerminate :: "bool option"

record 'w agent_tool =
  toolName :: string
  toolMode :: "execution_mode option"
  toolPrepareArguments :: "(js_value \<Rightarrow> ('w, string + js_value) state) option"
  toolUpdates :: "string \<Rightarrow> js_value \<Rightarrow> ('w, agent_tool_result list) state"
  toolOutcome :: "string \<Rightarrow> js_value \<Rightarrow> ('w, string + agent_tool_result) state"

record 'w agent_context =
  ctxSystemPrompt :: string
  ctxMessages :: "agent_message list"
  ctxTools :: "'w agent_tool list option"

datatype delta_kind = TextStart | TextDelta | TextEnd | ThinkingStart | ThinkingDelta | ThinkingEnd
  | ToolCallStart | ToolCallDelta | ToolCallEnd

datatype assistant_event =
    StreamStart assistant_message
  | StreamDelta delta_kind js_value assistant_message
  | StreamDone
  | StreamError

datatype agent_event =
    AgentStart
  | AgentEnd "agent_message list"
  | TurnStart
  | TurnEnd agent_message "tool_result list"
  | MessageStart agent_message
  | MessageUpdate agent_message assistant_event
  | MessageEnd agent_message
  | ToolExecutionStart string string js_value
  | ToolExecutionUpdate string string js_value agent_tool_result
  | ToolExecutionEnd string string agent_tool_result bool

record 'w turn_context =
  tcMessage :: assistant_message
  tcToolResults :: "tool_result list"
  tcContext :: "'w agent_context"
  tcNewMessages :: "agent_message list"

record 'w turn_update =
  updateContext :: "'w agent_context option"
  updateModel :: "model_ref option"
  updateThinkingLevel :: "string option"

record 'w tool_call_context =
  tccMessage :: assistant_message
  tccCall :: tool_call
  tccArgs :: js_value
  tccContext :: "'w agent_context"

record before_result =
  beforeBlock :: bool
  beforeReason :: "string option"
  beforeTerminate :: "bool option"

record after_result =
  afterContent :: "content_block list option"
  afterDetails :: "js_value option"
  afterIsError :: "bool option"
  afterUsage :: "usage option"
  afterTerminate :: "bool option"

record 'w loop_config =
  cfgModel :: model_ref
  cfgReasoning :: "string option"
  cfgApiKey :: "string option"
  cfgToolExecution :: "execution_mode option"
  cfgConvertToLlm :: "agent_message list \<Rightarrow> ('w, agent_message list) state"
  cfgTransformContext :: "(agent_message list \<Rightarrow> ('w, agent_message list) state) option"
  cfgGetApiKey :: "(string \<Rightarrow> ('w, string option) state) option"
  cfgShouldStopAfterTurn :: "('w turn_context \<Rightarrow> ('w, bool) state) option"
  cfgPrepareNextTurn :: "('w turn_context \<Rightarrow> ('w, 'w turn_update option) state) option"
  cfgGetSteeringMessages :: "('w, agent_message list) state option"
  cfgGetFollowUpMessages :: "('w, agent_message list) state option"
  cfgBeforeToolCall :: "('w tool_call_context \<Rightarrow> ('w, js_value \<times> (string + before_result option)) state) option"
  cfgAfterToolCall :: "('w tool_call_context \<Rightarrow> agent_tool_result \<Rightarrow> bool \<Rightarrow> ('w, string + after_result option) state) option"

text \<open>What surrounds a run: the stream function, the sink, the signal, the clock, argument validation,
  and which of the running tools advances next.\<close>

record 'w environment =
  streamEvents :: "'w loop_config \<Rightarrow> string option \<Rightarrow> 'w agent_context \<Rightarrow> ('w, assistant_event list) state"
  streamResult :: "('w, assistant_message) state"
  eventSink :: "agent_event \<Rightarrow> 'w \<Rightarrow> 'w"
  signalAborted :: "'w \<Rightarrow> bool"
  dateNow :: "('w, int) state"
  validateToolArguments :: "'w agent_tool \<Rightarrow> tool_call \<Rightarrow> string + js_value"
  nextTask :: "('w, nat) state"

text \<open>The state of a run: the world, the events emitted so far, \<open>currentContext\<close> and \<open>newMessages\<close>.\<close>

record 'w run =
  runWorld :: 'w
  runEvents :: "agent_event list"
  runContext :: "'w agent_context"
  runNew :: "agent_message list"

subsection \<open>Elementary actions\<close>

definition in_world :: "('w, 'a) state \<Rightarrow> ('w run, 'a) state" where
  "in_world m = State (\<lambda>s. case run_state m (runWorld s) of (x, w) \<Rightarrow> (x, s\<lparr>runWorld := w\<rparr>))"

definition emit :: "'w environment \<Rightarrow> agent_event \<Rightarrow> ('w run, unit) state" where
  "emit env e = State (\<lambda>s. ((), s\<lparr>runEvents := runEvents s @ [e], runWorld := eventSink env e (runWorld s)\<rparr>))"

definition aborted :: "'w environment \<Rightarrow> ('w run, bool) state" where
  "aborted env = State (\<lambda>s. (signalAborted env (runWorld s), s))"

definition current_context :: "('w run, 'w agent_context) state" where
  "current_context = State (\<lambda>s. (runContext s, s))"

definition new_messages :: "('w run, agent_message list) state" where
  "new_messages = State (\<lambda>s. (runNew s, s))"

definition set_context :: "'w agent_context \<Rightarrow> ('w run, unit) state" where
  "set_context c = State (\<lambda>s. ((), s\<lparr>runContext := c\<rparr>))"

definition push_context :: "agent_message \<Rightarrow> ('w run, unit) state" where
  "push_context m = State (\<lambda>s. ((), s\<lparr>runContext := (runContext s)\<lparr>ctxMessages := ctxMessages (runContext s) @ [m]\<rparr>\<rparr>))"

text \<open>\<open>context.messages[context.messages.length - 1] = m\<close>, of a list that is not empty\<close>

definition replace_last :: "agent_message \<Rightarrow> ('w run, unit) state" where
  "replace_last m = State (\<lambda>s. ((), s\<lparr>runContext := (runContext s)\<lparr>ctxMessages := butlast (ctxMessages (runContext s)) @ [m]\<rparr>\<rparr>))"

definition push_new :: "agent_message \<Rightarrow> ('w run, unit) state" where
  "push_new m = State (\<lambda>s. ((), s\<lparr>runNew := runNew s @ [m]\<rparr>))"

primrec for_each :: "('a \<Rightarrow> ('s, unit) state) \<Rightarrow> 'a list \<Rightarrow> ('s, unit) state" where
  "for_each f [] = State_Monad.return ()"
| "for_each f (x # xs) = do { f x; for_each f xs }"

primrec map_each :: "('a \<Rightarrow> ('s, 'b) state) \<Rightarrow> 'a list \<Rightarrow> ('s, 'b list) state" where
  "map_each f [] = State_Monad.return []"
| "map_each f (x # xs) = do { y \<leftarrow> f x; ys \<leftarrow> map_each f xs; State_Monad.return (y # ys) }"

definition emit_message :: "'w environment \<Rightarrow> agent_message \<Rightarrow> ('w run, unit) state" where
  "emit_message env m = do { emit env (MessageStart m); emit env (MessageEnd m) }"

subsection \<open>The model's message\<close>

definition resolve_api_key :: "'w loop_config \<Rightarrow> ('w run, string option) state" where
  "resolve_api_key cfg =
     do { key \<leftarrow> (case cfgGetApiKey cfg of
              None \<Rightarrow> State_Monad.return None
            | Some f \<Rightarrow> in_world (f (modelProvider (cfgModel cfg))));
          State_Monad.return (case key of
              None \<Rightarrow> cfgApiKey cfg
            | Some k \<Rightarrow> if k = [] then cfgApiKey cfg else Some k) }"

definition finish_stream :: "'w environment \<Rightarrow> bool \<Rightarrow> ('w run, assistant_message) state" where
  "finish_stream env addedPartial =
     do { final \<leftarrow> in_world (streamResult env);
          (if addedPartial then replace_last (AssistantMessage final)
           else do { push_context (AssistantMessage final);
                     emit env (MessageStart (AssistantMessage final)) });
          emit env (MessageEnd (AssistantMessage final));
          State_Monad.return final }"

text \<open>The \<open>for await\<close> over the stream; \<open>started\<close>: \<open>partialMessage\<close> is set and has been added.\<close>

fun consume_stream :: "'w environment \<Rightarrow> bool \<Rightarrow> assistant_event list \<Rightarrow> ('w run, assistant_message) state" where
  "consume_stream env started [] = finish_stream env started"
| "consume_stream env started (StreamStart partial # es) =
     do { push_context (AssistantMessage partial);
          emit env (MessageStart (AssistantMessage partial));
          consume_stream env True es }"
| "consume_stream env started (StreamDelta k d partial # es) =
     do { (if started
           then do { replace_last (AssistantMessage partial);
                     emit env (MessageUpdate (AssistantMessage partial) (StreamDelta k d partial)) }
           else State_Monad.return ());
          consume_stream env started es }"
| "consume_stream env started (StreamDone # es) = finish_stream env started"
| "consume_stream env started (StreamError # es) = finish_stream env started"

definition streamAssistantResponse :: "'w environment \<Rightarrow> 'w loop_config \<Rightarrow> ('w run, assistant_message) state" where
  "streamAssistantResponse env cfg =
     do { ctx \<leftarrow> current_context;
          messages \<leftarrow> (case cfgTransformContext cfg of
              None \<Rightarrow> State_Monad.return (ctxMessages ctx)
            | Some f \<Rightarrow> in_world (f (ctxMessages ctx)));
          llmMessages \<leftarrow> in_world (cfgConvertToLlm cfg messages);
          key \<leftarrow> resolve_api_key cfg;
          es \<leftarrow> in_world (streamEvents env cfg key (ctx\<lparr>ctxMessages := llmMessages\<rparr>));
          consume_stream env False es }"

subsection \<open>Tool calls\<close>

record finalized =
  finCall :: tool_call
  finResult :: agent_tool_result
  finIsError :: bool

record 'w prepared =
  prepCall :: tool_call
  prepTool :: "'w agent_tool"
  prepArgs :: js_value

datatype 'w preparation = Prepared "'w prepared" | Immediate agent_tool_result bool

definition createErrorToolResult :: "string \<Rightarrow> agent_tool_result" where
  "createErrorToolResult message = \<lparr>trContent = Some [TextContent message], trDetails = JObject False [], trUsage = None,
     trAddedToolNames = None, trTerminate = None\<rparr>"

definition createToolResultMessage :: "'w environment \<Rightarrow> finalized \<Rightarrow> ('w run, tool_result) state" where
  "createToolResultMessage env f =
     do { now \<leftarrow> in_world (dateNow env);
          State_Monad.return
            \<lparr>resToolCallId = callId (finCall f), resToolName = callName (finCall f),
             resContent = (case trContent (finResult f) of None \<Rightarrow> [] | Some c \<Rightarrow> c),
             resDetails = trDetails (finResult f), resUsage = trUsage (finResult f),
             resAddedToolNames = (case trAddedToolNames (finResult f) of None \<Rightarrow> [] | Some ns \<Rightarrow> ns),
             resIsError = finIsError f, resTimestamp = now\<rparr> }"

definition emitToolExecutionStart :: "'w environment \<Rightarrow> tool_call \<Rightarrow> ('w run, unit) state" where
  "emitToolExecutionStart env c = emit env (ToolExecutionStart (callId c) (callName c) (callArguments c))"

definition emitToolExecutionEnd :: "'w environment \<Rightarrow> finalized \<Rightarrow> ('w run, unit) state" where
  "emitToolExecutionEnd env f =
     emit env (ToolExecutionEnd (callId (finCall f)) (callName (finCall f)) (finResult f) (finIsError f))"

definition report_result :: "'w environment \<Rightarrow> finalized \<Rightarrow> ('w run, tool_result) state" where
  "report_result env f =
     do { m \<leftarrow> createToolResultMessage env f;
          emit_message env (ToolResultMessage m);
          State_Monad.return m }"

definition shouldTerminateToolBatch :: "finalized list \<Rightarrow> bool" where
  "shouldTerminateToolBatch fs \<longleftrightarrow> fs \<noteq> [] \<and> list_all (\<lambda>f. trTerminate (finResult f) = Some True) fs"

text \<open>Calls of a message cut off by the token limit fail unexecuted.\<close>

definition truncated_error :: "string \<Rightarrow> string" where
  "truncated_error name = ''Tool call '' @ [CHR 0x22] @ name @ [CHR 0x22] @
     '' was not executed: the response hit the output token limit, so its arguments may be truncated. '' @
     ''Re-issue the tool call with complete arguments.''"

definition fail_truncated_call :: "'w environment \<Rightarrow> tool_call \<Rightarrow> ('w run, tool_result) state" where
  "fail_truncated_call env c =
     do { emitToolExecutionStart env c;
          let f = \<lparr>finCall = c, finResult = createErrorToolResult (truncated_error (callName c)), finIsError = True\<rparr>;
          emitToolExecutionEnd env f;
          report_result env f }"

definition failToolCallsFromTruncatedMessage :: "'w environment \<Rightarrow> tool_call list \<Rightarrow> ('w run, tool_result list \<times> bool) state" where
  "failToolCallsFromTruncatedMessage env calls =
     do { messages \<leftarrow> map_each (fail_truncated_call env) calls; State_Monad.return (messages, False) }"

definition find_tool :: "'w agent_context \<Rightarrow> string \<Rightarrow> 'w agent_tool option" where
  "find_tool ctx name = (case ctxTools ctx of None \<Rightarrow> None | Some ts \<Rightarrow> find (\<lambda>t. toolName t = name) ts)"

definition prepareToolCallArguments :: "'w agent_tool \<Rightarrow> tool_call \<Rightarrow> ('w run, string + tool_call) state" where
  "prepareToolCallArguments tool c =
     (case toolPrepareArguments tool of
        None \<Rightarrow> State_Monad.return (Inr c)
      | Some f \<Rightarrow> do { r \<leftarrow> in_world (f (callArguments c));
                     State_Monad.return (case r of Inl e \<Rightarrow> Inl e | Inr args \<Rightarrow> Inr (c\<lparr>callArguments := args\<rparr>)) })"

definition error_outcome :: "string \<Rightarrow> ('w run, 'w preparation) state" where
  "error_outcome message = State_Monad.return (Immediate (createErrorToolResult message) True)"

text \<open>The last check of the signal before a call counts as prepared.\<close>

definition unless_aborted :: "'w environment \<Rightarrow> ('w run, 'w preparation) state \<Rightarrow> ('w run, 'w preparation) state" where
  "unless_aborted env m =
     do { b \<leftarrow> aborted env; if b then error_outcome ''Operation aborted'' else m }"

definition blocked_outcome :: "before_result \<Rightarrow> ('w run, 'w preparation) state" where
  "blocked_outcome b =
     (let r = createErrorToolResult (case beforeReason b of
            None \<Rightarrow> ''Tool execution was blocked''
          | Some reason \<Rightarrow> if reason = [] then ''Tool execution was blocked'' else reason)
      in State_Monad.return (Immediate (if beforeTerminate b = Some True then r\<lparr>trTerminate := Some True\<rparr> else r) True))"

text \<open>The hook is given the validated arguments, a copy of the call's, and may modify them in place: the first
  component of what it yields is how it leaves them, and what the tool is called with, without another
  validation. \<open>rest args\<close> is what follows a hook that lets the call pass.\<close>

definition run_before_hook :: "'w environment \<Rightarrow> 'w loop_config \<Rightarrow> assistant_message \<Rightarrow> tool_call \<Rightarrow> js_value \<Rightarrow>
    (js_value \<Rightarrow> ('w run, 'w preparation) state) \<Rightarrow> ('w run, 'w preparation) state" where
  "run_before_hook env cfg msg c args rest =
     (case cfgBeforeToolCall cfg of
        None \<Rightarrow> rest args
      | Some hook \<Rightarrow>
          do { ctx \<leftarrow> current_context;
               (args', r) \<leftarrow> in_world (hook \<lparr>tccMessage = msg, tccCall = c, tccArgs = args, tccContext = ctx\<rparr>);
               (case r of
                  Inl e \<Rightarrow> error_outcome e
                | Inr before \<Rightarrow> unless_aborted env
                    (case before of
                       None \<Rightarrow> rest args'
                     | Some b \<Rightarrow> if beforeBlock b then blocked_outcome b else rest args')) })"

definition prepareToolCall :: "'w environment \<Rightarrow> 'w loop_config \<Rightarrow> assistant_message \<Rightarrow> tool_call \<Rightarrow> ('w run, 'w preparation) state" where
  "prepareToolCall env cfg msg c =
     do { ctx \<leftarrow> current_context;
          (case find_tool ctx (callName c) of
             None \<Rightarrow> error_outcome (''Tool '' @ callName c @ '' not found'')
           | Some tool \<Rightarrow>
               do { p \<leftarrow> prepareToolCallArguments tool c;
                    (case p of
                       Inl e \<Rightarrow> error_outcome e
                     | Inr c' \<Rightarrow>
                         (case validateToolArguments env tool c' of
                            Inl e \<Rightarrow> error_outcome e
                          | Inr args \<Rightarrow>
                              run_before_hook env cfg msg c args
                                (\<lambda>args'. unless_aborted env
                                  (State_Monad.return
                                    (Prepared \<lparr>prepCall = c, prepTool = tool, prepArgs = args'\<rparr>))))) }) }"

text \<open>
  Updates that a tool reports after it has settled are not accepted, so they are no part of the model;
  those before are given with the call. A tool does not modify the arguments it is called with.
\<close>

definition emit_update :: "'w environment \<Rightarrow> tool_call \<Rightarrow> agent_tool_result \<Rightarrow> ('w run, unit) state" where
  "emit_update env c partial = emit env (ToolExecutionUpdate (callId c) (callName c) (callArguments c) partial)"

definition start_tool :: "'w prepared \<Rightarrow> ('w run, agent_tool_result list) state" where
  "start_tool p = in_world (toolUpdates (prepTool p) (callId (prepCall p)) (prepArgs p))"

definition settle_tool :: "'w prepared \<Rightarrow> ('w run, agent_tool_result \<times> bool) state" where
  "settle_tool p =
     do { r \<leftarrow> in_world (toolOutcome (prepTool p) (callId (prepCall p)) (prepArgs p));
          State_Monad.return (case r of Inl e \<Rightarrow> (createErrorToolResult e, True) | Inr result \<Rightarrow> (result, False)) }"

definition executePreparedToolCall :: "'w environment \<Rightarrow> 'w prepared \<Rightarrow> ('w run, agent_tool_result \<times> bool) state" where
  "executePreparedToolCall env p =
     do { us \<leftarrow> start_tool p; for_each (emit_update env (prepCall p)) us; settle_tool p }"

definition merge_after :: "after_result \<Rightarrow> agent_tool_result \<Rightarrow> agent_tool_result" where
  "merge_after a r = r\<lparr>
     trContent := (case afterContent a of None \<Rightarrow> trContent r | Some c \<Rightarrow> Some c),
     trDetails := (case afterDetails a of None \<Rightarrow> trDetails r | Some d \<Rightarrow> d),
     trUsage := (case afterUsage a of None \<Rightarrow> trUsage r | Some u \<Rightarrow> Some u),
     trTerminate := (case afterTerminate a of None \<Rightarrow> trTerminate r | Some b \<Rightarrow> Some b)\<rparr>"

definition finalizeExecutedToolCall :: "'w loop_config \<Rightarrow> assistant_message \<Rightarrow> 'w prepared \<Rightarrow> agent_tool_result \<times> bool \<Rightarrow>
    ('w run, finalized) state" where
  "finalizeExecutedToolCall cfg msg p executed =
     (case cfgAfterToolCall cfg of
        None \<Rightarrow> State_Monad.return \<lparr>finCall = prepCall p, finResult = fst executed, finIsError = snd executed\<rparr>
      | Some hook \<Rightarrow>
          do { ctx \<leftarrow> current_context;
               r \<leftarrow> in_world (hook \<lparr>tccMessage = msg, tccCall = prepCall p, tccArgs = prepArgs p, tccContext = ctx\<rparr>
                     (fst executed) (snd executed));
               State_Monad.return (case r of
                   Inl e \<Rightarrow> \<lparr>finCall = prepCall p, finResult = createErrorToolResult e, finIsError = True\<rparr>
                 | Inr None \<Rightarrow> \<lparr>finCall = prepCall p, finResult = fst executed, finIsError = snd executed\<rparr>
                 | Inr (Some a) \<Rightarrow>
                     \<lparr>finCall = prepCall p, finResult = merge_after a (fst executed),
                      finIsError = (case afterIsError a of None \<Rightarrow> snd executed | Some b \<Rightarrow> b)\<rparr>) })"

subsection \<open>A batch, one call at a time\<close>

definition run_call_sequentially :: "'w environment \<Rightarrow> 'w loop_config \<Rightarrow> assistant_message \<Rightarrow> tool_call \<Rightarrow>
    ('w run, finalized \<times> tool_result) state" where
  "run_call_sequentially env cfg msg c =
     do { emitToolExecutionStart env c;
          preparation \<leftarrow> prepareToolCall env cfg msg c;
          f \<leftarrow> (case preparation of
              Immediate r e \<Rightarrow> State_Monad.return \<lparr>finCall = c, finResult = r, finIsError = e\<rparr>
            | Prepared p \<Rightarrow>
                do { executed \<leftarrow> executePreparedToolCall env p; finalizeExecutedToolCall cfg msg p executed });
          emitToolExecutionEnd env f;
          m \<leftarrow> report_result env f;
          State_Monad.return (f, m) }"

fun sequential_calls :: "'w environment \<Rightarrow> 'w loop_config \<Rightarrow> assistant_message \<Rightarrow> tool_call list \<Rightarrow>
    ('w run, (finalized \<times> tool_result) list) state" where
  "sequential_calls env cfg msg [] = State_Monad.return []"
| "sequential_calls env cfg msg (c # cs) =
     do { fm \<leftarrow> run_call_sequentially env cfg msg c;
          b \<leftarrow> aborted env;
          (if b then State_Monad.return [fm]
           else do { fms \<leftarrow> sequential_calls env cfg msg cs; State_Monad.return (fm # fms) }) }"

definition executeToolCallsSequential :: "'w environment \<Rightarrow> 'w loop_config \<Rightarrow> assistant_message \<Rightarrow> tool_call list \<Rightarrow>
    ('w run, tool_result list \<times> bool) state" where
  "executeToolCallsSequential env cfg msg calls =
     do { fms \<leftarrow> sequential_calls env cfg msg calls;
          State_Monad.return (map snd fms, shouldTerminateToolBatch (map fst fms)) }"

subsection \<open>A batch, tools running together\<close>

text \<open>
  The calls are prepared in order; a call that is not executed is finalized at once. Then
  \<open>Promise.all\<close> starts the others in order, and they advance, each from one await to its next, in the
  order the world chooses until all are done.
\<close>

datatype 'w call_entry = Ready finalized | Closure "'w prepared"

definition prepare_entry :: "'w environment \<Rightarrow> 'w loop_config \<Rightarrow> assistant_message \<Rightarrow> tool_call \<Rightarrow> ('w run, 'w call_entry) state" where
  "prepare_entry env cfg msg c =
     do { emitToolExecutionStart env c;
          preparation \<leftarrow> prepareToolCall env cfg msg c;
          (case preparation of
             Immediate r e \<Rightarrow>
               do { let f = \<lparr>finCall = c, finResult = r, finIsError = e\<rparr>;
                    emitToolExecutionEnd env f;
                    State_Monad.return (Ready f) }
           | Prepared p \<Rightarrow> State_Monad.return (Closure p)) }"

fun prepare_entries :: "'w environment \<Rightarrow> 'w loop_config \<Rightarrow> assistant_message \<Rightarrow> tool_call list \<Rightarrow> ('w run, 'w call_entry list) state" where
  "prepare_entries env cfg msg [] = State_Monad.return []"
| "prepare_entries env cfg msg (c # cs) =
     do { entry \<leftarrow> prepare_entry env cfg msg c;
          b \<leftarrow> aborted env;
          (if b then State_Monad.return [entry]
           else do { es \<leftarrow> prepare_entries env cfg msg cs; State_Monad.return (entry # es) }) }"

datatype 'w task =
    Reporting "'w prepared" "agent_tool_result list"        \<comment> \<open>running, with the updates still to come\<close>
  | Executed "'w prepared" "agent_tool_result \<times> bool"      \<comment> \<open>settled\<close>
  | Finishing finalized                                     \<comment> \<open>after the hook\<close>
  | Finished finalized                                      \<comment> \<open>end emitted\<close>

definition start_entry :: "'w call_entry \<Rightarrow> ('w run, 'w task) state" where
  "start_entry entry = (case entry of
       Ready f \<Rightarrow> State_Monad.return (Finished f)
     | Closure p \<Rightarrow> do { us \<leftarrow> start_tool p; State_Monad.return (Reporting p us) })"

fun advance :: "'w environment \<Rightarrow> 'w loop_config \<Rightarrow> assistant_message \<Rightarrow> 'w task \<Rightarrow> ('w run, 'w task) state" where
  "advance env cfg msg (Reporting p (u # us)) =
     do { emit_update env (prepCall p) u; State_Monad.return (Reporting p us) }"
| "advance env cfg msg (Reporting p []) =
     do { executed \<leftarrow> settle_tool p; State_Monad.return (Executed p executed) }"
| "advance env cfg msg (Executed p executed) =
     do { f \<leftarrow> finalizeExecutedToolCall cfg msg p executed; State_Monad.return (Finishing f) }"
| "advance env cfg msg (Finishing f) =
     do { emitToolExecutionEnd env f; State_Monad.return (Finished f) }"
| "advance env cfg msg (Finished f) = State_Monad.return (Finished f)"

fun steps_left :: "'w task \<Rightarrow> nat" where
  "steps_left (Reporting p us) = length us + 3"
| "steps_left (Executed p executed) = 2"
| "steps_left (Finishing f) = 1"
| "steps_left (Finished f) = 0"

definition unfinished :: "'w task list \<Rightarrow> nat list" where
  "unfinished ts = filter (\<lambda>i. steps_left (ts ! i) > 0) [0..<length ts]"

primrec run_tasks :: "'w environment \<Rightarrow> 'w loop_config \<Rightarrow> assistant_message \<Rightarrow> nat \<Rightarrow> 'w task list \<Rightarrow> ('w run, 'w task list) state" where
  "run_tasks env cfg msg 0 ts = State_Monad.return ts"
| "run_tasks env cfg msg (Suc n) ts =
     do { k \<leftarrow> in_world (nextTask env);
          let i = unfinished ts ! (k mod length (unfinished ts));
          t \<leftarrow> advance env cfg msg (ts ! i);
          run_tasks env cfg msg n (ts[i := t]) }"

fun outcome_of :: "'w task \<Rightarrow> finalized option" where
  "outcome_of (Finished f) = Some f"
| "outcome_of _ = None"

definition all_settled :: "'w environment \<Rightarrow> 'w loop_config \<Rightarrow> assistant_message \<Rightarrow> 'w call_entry list \<Rightarrow> ('w run, finalized list) state" where
  "all_settled env cfg msg entries =
     do { ts \<leftarrow> map_each start_entry entries;
          ts' \<leftarrow> run_tasks env cfg msg (sum_list (map steps_left ts)) ts;
          State_Monad.return (List.map_filter outcome_of ts') }"

definition executeToolCallsParallel :: "'w environment \<Rightarrow> 'w loop_config \<Rightarrow> assistant_message \<Rightarrow> tool_call list \<Rightarrow>
    ('w run, tool_result list \<times> bool) state" where
  "executeToolCallsParallel env cfg msg calls =
     do { entries \<leftarrow> prepare_entries env cfg msg calls;
          fs \<leftarrow> all_settled env cfg msg entries;
          messages \<leftarrow> map_each (report_result env) fs;
          State_Monad.return (messages, shouldTerminateToolBatch fs) }"

definition has_sequential_call :: "'w agent_context \<Rightarrow> tool_call list \<Rightarrow> bool" where
  "has_sequential_call ctx calls =
     list_ex (\<lambda>c. case find_tool ctx (callName c) of None \<Rightarrow> False | Some t \<Rightarrow> toolMode t = Some SequentialMode) calls"

definition executeToolCalls :: "'w environment \<Rightarrow> 'w loop_config \<Rightarrow> assistant_message \<Rightarrow> ('w run, tool_result list \<times> bool) state" where
  "executeToolCalls env cfg msg =
     do { ctx \<leftarrow> current_context;
          let calls = tool_calls_of (asstContent msg);
          (if cfgToolExecution cfg = Some SequentialMode \<or> has_sequential_call ctx calls
           then executeToolCallsSequential env cfg msg calls
           else executeToolCallsParallel env cfg msg calls) }"

subsection \<open>The loop\<close>

definition inject :: "'w environment \<Rightarrow> agent_message \<Rightarrow> ('w run, unit) state" where
  "inject env m = do { emit_message env m; push_context m; push_new m }"

definition end_run :: "'w environment \<Rightarrow> ('w run, unit) state" where
  "end_run env = do { ms \<leftarrow> new_messages; emit env (AgentEnd ms) }"

definition poll :: "('w, agent_message list) state option \<Rightarrow> ('w run, agent_message list) state" where
  "poll callback = (case callback of None \<Rightarrow> State_Monad.return [] | Some f \<Rightarrow> in_world f)"

definition run_tool_calls :: "'w environment \<Rightarrow> 'w loop_config \<Rightarrow> assistant_message \<Rightarrow> ('w run, tool_result list \<times> bool) state" where
  "run_tool_calls env cfg msg =
     (if tool_calls_of (asstContent msg) = [] then State_Monad.return ([], False)
      else do { (results, terminate) \<leftarrow>
                  (if asstStopReason msg = LengthStop
                   then failToolCallsFromTruncatedMessage env (tool_calls_of (asstContent msg))
                   else executeToolCalls env cfg msg);
                for_each (\<lambda>r. do { push_context (ToolResultMessage r); push_new (ToolResultMessage r) }) results;
                State_Monad.return (results, \<not> terminate) })"

definition turn_snapshot :: "assistant_message \<Rightarrow> tool_result list \<Rightarrow> ('w run, 'w turn_context) state" where
  "turn_snapshot msg results =
     do { ctx \<leftarrow> current_context;
          ms \<leftarrow> new_messages;
          State_Monad.return \<lparr>tcMessage = msg, tcToolResults = results, tcContext = ctx, tcNewMessages = ms\<rparr> }"

definition apply_turn_update :: "'w loop_config \<Rightarrow> 'w turn_update \<Rightarrow> ('w run, 'w loop_config) state" where
  "apply_turn_update cfg u =
     do { (case updateContext u of None \<Rightarrow> State_Monad.return () | Some ctx \<Rightarrow> set_context ctx);
          State_Monad.return
            (cfg\<lparr>cfgModel := (case updateModel u of None \<Rightarrow> cfgModel cfg | Some m \<Rightarrow> m),
                 cfgReasoning := (case updateThinkingLevel u of
                     None \<Rightarrow> cfgReasoning cfg
                   | Some level \<Rightarrow> if level = ''off'' then None else Some level)\<rparr>) }"

definition prepare_next_turn :: "'w loop_config \<Rightarrow> assistant_message \<Rightarrow> tool_result list \<Rightarrow> ('w run, 'w loop_config) state" where
  "prepare_next_turn cfg msg results =
     (case cfgPrepareNextTurn cfg of
        None \<Rightarrow> State_Monad.return cfg
      | Some f \<Rightarrow>
          do { snapshot \<leftarrow> turn_snapshot msg results;
               u \<leftarrow> in_world (f snapshot);
               (case u of None \<Rightarrow> State_Monad.return cfg | Some u \<Rightarrow> apply_turn_update cfg u) })"

definition should_stop :: "'w loop_config \<Rightarrow> assistant_message \<Rightarrow> tool_result list \<Rightarrow> ('w run, bool) state" where
  "should_stop cfg msg results =
     (case cfgShouldStopAfterTurn cfg of
        None \<Rightarrow> State_Monad.return False
      | Some f \<Rightarrow> do { snapshot \<leftarrow> turn_snapshot msg results; in_world (f snapshot) })"

datatype 'w turn_outcome = RunEnded | Continue "'w loop_config" bool "agent_message list"

text \<open>The body of the inner loop. \<open>Continue cfg hasMore pending\<close>: the loop goes on with these values.\<close>

definition run_turn :: "'w environment \<Rightarrow> 'w loop_config \<Rightarrow> bool \<Rightarrow> agent_message list \<Rightarrow> ('w run, 'w turn_outcome) state" where
  "run_turn env cfg firstTurn pending =
     do { (if firstTurn then State_Monad.return () else emit env TurnStart);
          for_each (inject env) pending;
          msg \<leftarrow> streamAssistantResponse env cfg;
          push_new (AssistantMessage msg);
          (if asstStopReason msg \<in> {ErrorStop, AbortedStop}
           then do { emit env (TurnEnd (AssistantMessage msg) []); end_run env; State_Monad.return RunEnded }
           else
             do { (results, hasMore) \<leftarrow> run_tool_calls env cfg msg;
                  emit env (TurnEnd (AssistantMessage msg) results);
                  cfg' \<leftarrow> prepare_next_turn cfg msg results;
                  stop \<leftarrow> should_stop cfg' msg results;
                  (if stop then do { end_run env; State_Monad.return RunEnded }
                   else do { pending' \<leftarrow> poll (cfgGetSteeringMessages cfg');
                             State_Monad.return (Continue cfg' hasMore pending') }) }) }"

text \<open>
  The two loops. A run may go on for ever, so each turn and each round of follow-up messages costs a
  unit of fuel; \<open>False\<close>: the fuel ran out before the run ended.
\<close>

primrec turns :: "'w environment \<Rightarrow> nat \<Rightarrow> 'w loop_config \<Rightarrow> bool \<Rightarrow> bool \<Rightarrow> agent_message list \<Rightarrow> ('w run, bool) state" where
  "turns env 0 cfg firstTurn hasMore pending = State_Monad.return False"
| "turns env (Suc n) cfg firstTurn hasMore pending =
     (if hasMore \<or> pending \<noteq> []
      then do { outcome \<leftarrow> run_turn env cfg firstTurn pending;
                (case outcome of
                   RunEnded \<Rightarrow> State_Monad.return True
                 | Continue cfg' hasMore' pending' \<Rightarrow> turns env n cfg' False hasMore' pending') }
      else do { followUps \<leftarrow> poll (cfgGetFollowUpMessages cfg);
                (if followUps \<noteq> [] then turns env n cfg firstTurn True followUps
                 else do { end_run env; State_Monad.return True }) })"

definition runLoop :: "'w environment \<Rightarrow> nat \<Rightarrow> 'w loop_config \<Rightarrow> ('w run, bool) state" where
  "runLoop env fuel cfg =
     do { pending \<leftarrow> poll (cfgGetSteeringMessages cfg); turns env fuel cfg True True pending }"

definition start_run :: "'w agent_context \<Rightarrow> agent_message list \<Rightarrow> 'w \<Rightarrow> 'w run" where
  "start_run ctx new w = \<lparr>runWorld = w, runEvents = [], runContext = ctx, runNew = new\<rparr>"

definition announce_run :: "'w environment \<Rightarrow> agent_message list \<Rightarrow> ('w run, unit) state" where
  "announce_run env prompts =
     do { emit env AgentStart; emit env TurnStart; for_each (emit_message env) prompts }"

text \<open>The result is the state the run ends in, \<open>runNew\<close> being the messages it returns; \<open>None\<close>: no end
  within the fuel.\<close>

definition ended :: "bool \<times> 'w run \<Rightarrow> 'w run option" where
  "ended r = (if fst r then Some (snd r) else None)"

definition runAgentLoop :: "'w environment \<Rightarrow> nat \<Rightarrow> agent_message list \<Rightarrow> 'w agent_context \<Rightarrow> 'w loop_config \<Rightarrow> 'w \<Rightarrow> 'w run option" where
  "runAgentLoop env fuel prompts ctx cfg w =
     ended (run_state (do { announce_run env prompts; runLoop env fuel cfg })
       (start_run (ctx\<lparr>ctxMessages := ctxMessages ctx @ prompts\<rparr>) prompts w))"

definition cannot_continue :: "'w agent_context \<Rightarrow> string option" where
  "cannot_continue ctx =
     (if ctxMessages ctx = [] then Some ''Cannot continue: no messages in context''
      else if role_of (last (ctxMessages ctx)) = AssistantRole then Some ''Cannot continue from message role: assistant''
      else None)"

definition runAgentLoopContinue :: "'w environment \<Rightarrow> nat \<Rightarrow> 'w agent_context \<Rightarrow> 'w loop_config \<Rightarrow> 'w \<Rightarrow> string + 'w run option" where
  "runAgentLoopContinue env fuel ctx cfg w =
     (case cannot_continue ctx of
        Some e \<Rightarrow> Inl e
      | None \<Rightarrow> Inr (ended (run_state (do { announce_run env []; runLoop env fuel cfg }) (start_run ctx [] w))))"

end
