(* ===== verification/AgentEvents.thy ===== *)
theory AgentEvents
  imports AgentLoop "HOL-Library.Multiset"
begin

section \<open>The agent loop: events, results, transcript\<close>

text \<open>
  The protocol of the events a run emits, as an automaton, and a calculus for what an action adds to
  the events, to the run's new messages and to the transcript, in which the loop is proved to follow
  the protocol whatever the model, the tools and the hooks do.
\<close>

subsection \<open>The event protocol\<close>

text \<open>
  Inside a turn: the open message, the ids of the running calls, and the messages announced so far.
\<close>

datatype phase = NotStarted | Between | InTurn "agent_message option" "string multiset" "agent_message list" | Done

text \<open>An assistant message may change while it streams; every other message is announced as it started.\<close>

definition same_message :: "agent_message \<Rightarrow> agent_message \<Rightarrow> bool" where
  "same_message m m' \<longleftrightarrow> (if role_of m = AssistantRole then role_of m' = AssistantRole else m' = m)"

text \<open>A turn's messages: what was injected, the assistant's message, and the results of its calls.\<close>

definition turn_messages :: "agent_message list \<Rightarrow> agent_message \<Rightarrow> tool_result list \<Rightarrow> bool" where
  "turn_messages said m results \<longleftrightarrow>
     length results < length said \<and>
     drop (length said - Suc (length results)) said = m # map ToolResultMessage results"

text \<open>The results of a turn answer the calls of its message, in order; all of them, unless the run was
  aborted. A message that failed or was aborted has none.\<close>

definition answers :: "tool_call list \<Rightarrow> tool_result list \<Rightarrow> bool" where
  "answers cs rs \<longleftrightarrow> map (\<lambda>r. (resToolCallId r, resToolName r)) rs = map (\<lambda>c. (callId c, callName c)) cs"

fun results_answer :: "agent_message \<Rightarrow> tool_result list \<Rightarrow> bool" where
  "results_answer (AssistantMessage m) rs \<longleftrightarrow>
     (if asstStopReason m \<in> {ErrorStop, AbortedStop} then rs = []
      else answers (take (length rs) (tool_calls_of (asstContent m))) rs \<and>
        (tool_calls_of (asstContent m) \<noteq> [] \<longrightarrow> rs \<noteq> []))"
| "results_answer _ rs \<longleftrightarrow> False"

fun event_step :: "phase \<Rightarrow> agent_event \<Rightarrow> phase option" where
  "event_step NotStarted AgentStart = Some Between"
| "event_step Between TurnStart = Some (InTurn None {#} [])"
| "event_step Between (AgentEnd ms) = Some Done"
| "event_step (InTurn None R said) (MessageStart m) = Some (InTurn (Some m) R said)"
| "event_step (InTurn (Some m) R said) (MessageUpdate m' e) =
     (if role_of m = AssistantRole \<and> same_message m m' then Some (InTurn (Some m') R said) else None)"
| "event_step (InTurn (Some m) R said) (MessageEnd m') =
     (if same_message m m' then Some (InTurn None R (said @ [m'])) else None)"
| "event_step (InTurn None R said) (ToolExecutionStart i name args) = Some (InTurn None (add_mset i R) said)"
| "event_step (InTurn None R said) (ToolExecutionUpdate i name args partial) =
     (if i \<in># R then Some (InTurn None R said) else None)"
| "event_step (InTurn None R said) (ToolExecutionEnd i name result e) =
     (if i \<in># R then Some (InTurn None (R - {#i#}) said) else None)"
| "event_step (InTurn None R said) (TurnEnd m results) =
     (if R = {#} \<and> turn_messages said m results \<and> results_answer m results then Some Between else None)"
| "event_step _ _ = None"

fun follow :: "phase \<Rightarrow> agent_event list \<Rightarrow> phase option" where
  "follow p [] = Some p"
| "follow p (e # es) = (case event_step p e of None \<Rightarrow> None | Some q \<Rightarrow> follow q es)"

lemma follow_append: "follow p (es @ fs) = (case follow p es of None \<Rightarrow> None | Some q \<Rightarrow> follow q fs)"
  by (induction es arbitrary: p) (auto split: option.splits)

lemma follow_appendI: "follow p es = Some q \<Longrightarrow> follow q fs = r \<Longrightarrow> follow p (es @ fs) = r"
  by (simp add: follow_append)

text \<open>The messages announced by \<open>message_end\<close> events, in order.\<close>

fun announced :: "agent_event list \<Rightarrow> agent_message list" where
  "announced [] = []"
| "announced (MessageEnd m # es) = m # announced es"
| "announced (e # es) = announced es"

lemma announced_append [simp]: "announced (es @ fs) = announced es @ announced fs"
  by (induction es rule: announced.induct) auto

subsection \<open>What an action adds\<close>

text \<open>
  \<open>adds k m D\<close>: run from any state, \<open>m\<close> appends some events, new messages and, when \<open>k\<close>, transcript
  messages that are in the relation \<open>D\<close> with its result.
\<close>

definition adds :: "bool \<Rightarrow> ('w run, 'a) state \<Rightarrow>
    ('a \<Rightarrow> agent_event list \<Rightarrow> agent_message list \<Rightarrow> agent_message list \<Rightarrow> bool) \<Rightarrow> bool" where
  "adds k m D \<longleftrightarrow> (\<forall>s x s'. run_state m s = (x, s') \<longrightarrow>
     (\<exists>es ns cs. runEvents s' = runEvents s @ es \<and> runNew s' = runNew s @ ns \<and>
        (k \<longrightarrow> ctxMessages (runContext s') = ctxMessages (runContext s) @ cs) \<and> D x es ns cs))"

named_theorems adds_rules \<open>what an elementary action adds\<close>

lemma adds_weaken: "adds k m D \<Longrightarrow> (\<And>x es ns cs. D x es ns cs \<Longrightarrow> E x es ns cs) \<Longrightarrow> adds k m E"
  unfolding adds_def by meson

lemma adds_bind:
  assumes "adds k m D"
    and "\<And>x es ns cs. D x es ns cs \<Longrightarrow> adds k (f x) (\<lambda>y es' ns' cs'. E y (es @ es') (ns @ ns') (cs @ cs'))"
  shows "adds k (State_Monad.bind m f) E"
  unfolding adds_def
proof (intro allI impI)
  fix s y s2
  assume run: "run_state (State_Monad.bind m f) s = (y, s2)"
  obtain x s1 where m: "run_state m s = (x, s1)" by fastforce
  with run have f: "run_state (f x) s1 = (y, s2)" by simp
  from assms(1) m obtain es ns cs where 1: "runEvents s1 = runEvents s @ es" "runNew s1 = runNew s @ ns"
    "k \<longrightarrow> ctxMessages (runContext s1) = ctxMessages (runContext s) @ cs" "D x es ns cs"
    unfolding adds_def by meson
  from assms(2)[OF 1(4)] f obtain es' ns' cs' where "runEvents s2 = runEvents s1 @ es'" "runNew s2 = runNew s1 @ ns'"
    "k \<longrightarrow> ctxMessages (runContext s2) = ctxMessages (runContext s1) @ cs'" "E y (es @ es') (ns @ ns') (cs @ cs')"
    unfolding adds_def by meson
  with 1 show "\<exists>es ns cs. runEvents s2 = runEvents s @ es \<and> runNew s2 = runNew s @ ns \<and>
      (k \<longrightarrow> ctxMessages (runContext s2) = ctxMessages (runContext s) @ cs) \<and> E y es ns cs"
    by (intro exI[of _ "es @ es'"] exI[of _ "ns @ ns'"] exI[of _ "cs @ cs'"]) simp
qed

lemma addsE:
  assumes "adds k m D" and "run_state m s = (x, s')"
  obtains es ns cs where "runEvents s' = runEvents s @ es" "runNew s' = runNew s @ ns"
    "k \<longrightarrow> ctxMessages (runContext s') = ctxMessages (runContext s) @ cs" "D x es ns cs"
  using assms unfolding adds_def by meson

lemma adds_return [adds_rules]: "D x [] [] [] \<Longrightarrow> adds k (State_Monad.return x) D"
  by (auto simp: adds_def)

lemma adds_emit [adds_rules]: "D () [e] [] [] \<Longrightarrow> adds k (emit env e) D"
  by (auto simp: adds_def emit_def)

lemma adds_in_world [adds_rules]: "(\<And>x. D x [] [] []) \<Longrightarrow> adds k (in_world m) D"
  by (auto simp: adds_def in_world_def split: prod.splits)

lemma adds_aborted [adds_rules]: "(\<And>b. D b [] [] []) \<Longrightarrow> adds k (aborted env) D"
  by (auto simp: adds_def aborted_def)

lemma adds_current_context [adds_rules]: "(\<And>c. D c [] [] []) \<Longrightarrow> adds k current_context D"
  by (auto simp: adds_def current_context_def)

lemma adds_new_messages [adds_rules]: "(\<And>ms. D ms [] [] []) \<Longrightarrow> adds k new_messages D"
  by (auto simp: adds_def new_messages_def)

lemma adds_push_context [adds_rules]: "D () [] [] [m] \<Longrightarrow> adds k (push_context m) D"
  by (auto simp: adds_def push_context_def)

lemma adds_push_new [adds_rules]: "D () [] [m] [] \<Longrightarrow> adds k (push_new m) D"
  by (auto simp: adds_def push_new_def)

lemma adds_set_context: "\<not> k \<Longrightarrow> D () [] [] [] \<Longrightarrow> adds k (set_context c) D"
  by (auto simp: adds_def set_context_def)

text \<open>An action with no effect but in the world.\<close>

definition silent :: "('w run, 'a) state \<Rightarrow> ('a \<Rightarrow> bool) \<Rightarrow> bool" where
  "silent m P \<longleftrightarrow> (\<forall>k. adds k m (\<lambda>x es ns cs. es = [] \<and> ns = [] \<and> cs = [] \<and> P x))"

lemma silent_adds: "silent m P \<Longrightarrow> (\<And>x. P x \<Longrightarrow> D x [] [] []) \<Longrightarrow> adds k m D"
  unfolding silent_def by (erule allE[of _ k], erule adds_weaken) simp

lemma silent_adds_bind:
  assumes "silent m P" and "\<And>x. P x \<Longrightarrow> adds k (f x) D"
  shows "adds k (State_Monad.bind m f) D"
  using assms(1)[unfolded silent_def, rule_format, of k] by (rule adds_bind) (simp add: assms(2))

lemma silent_bind: "silent m P \<Longrightarrow> (\<And>x. P x \<Longrightarrow> silent (f x) Q) \<Longrightarrow> silent (State_Monad.bind m f) Q"
  unfolding silent_def by (auto intro!: adds_bind[of _ m])

lemma silent_return: "P x \<Longrightarrow> silent (State_Monad.return x) P"
  unfolding silent_def by (auto intro: adds_rules)

lemma silent_in_world: "(\<And>x. P x) \<Longrightarrow> silent (in_world m) P"
  unfolding silent_def by (auto intro: adds_rules)

lemma silent_current_context: "(\<And>x. P x) \<Longrightarrow> silent current_context P"
  unfolding silent_def by (auto intro: adds_rules)

lemma silent_aborted: "(\<And>x. P x) \<Longrightarrow> silent (aborted env) P"
  unfolding silent_def by (auto intro: adds_rules)

lemma silent_weaken: "silent m P \<Longrightarrow> (\<And>x. P x \<Longrightarrow> Q x) \<Longrightarrow> silent m Q"
  unfolding silent_def by (intro allI, erule allE, erule adds_weaken) simp

lemma adds_for_each:
  assumes "\<And>x. adds k (f x) (\<lambda>_ es ns cs. es = E x \<and> ns = N x \<and> cs = C x)"
  shows "adds k (for_each f xs) (\<lambda>_ es ns cs. es = concat (map E xs) \<and> ns = concat (map N xs) \<and> cs = concat (map C xs))"
proof (induction xs)
  case (Cons x xs)
  then show ?case
    by (auto intro!: adds_bind[OF assms] elim!: adds_weaken)
qed (auto intro: adds_rules)

lemma concat_singletons: "concat (map (\<lambda>x. [f x]) xs) = map f xs"
  by (induction xs) auto

lemma concat_Nils [simp]: "concat (map (\<lambda>x. []) xs) = []"
  by (induction xs) auto

lemma emit_message_adds: "adds k (emit_message env m) (\<lambda>_ es ns cs. es = [MessageStart m, MessageEnd m] \<and> ns = [] \<and> cs = [])"
  by (auto simp: emit_message_def adds_def emit_def)

subsection \<open>The model's message\<close>

text \<open>A stream delivers at most one \<open>start\<close>.\<close>

fun is_stream_start :: "assistant_event \<Rightarrow> bool" where
  "is_stream_start (StreamStart _) = True"
| "is_stream_start _ = False"

definition starts_once :: "assistant_event list \<Rightarrow> bool" where
  "starts_once es \<longleftrightarrow> length (filter is_stream_start es) \<le> 1"

definition single_start :: "'w environment \<Rightarrow> bool" where
  "single_start env \<longleftrightarrow> (\<forall>cfg key ctx w. starts_once (fst (run_state (streamEvents env cfg key ctx) w)))"

lemma same_assistant [simp]: "same_message (AssistantMessage m) (AssistantMessage m')"
  by (simp add: same_message_def)

lemma same_message_refl [simp]: "same_message m m"
  by (simp add: same_message_def)

definition streamed :: "bool \<Rightarrow> assistant_message \<Rightarrow> agent_event list \<Rightarrow> bool" where
  "streamed started x es \<longleftrightarrow> announced es = [AssistantMessage x] \<and>
     (\<forall>p R said. follow (InTurn (if started then Some (AssistantMessage p) else None) R said) es =
        Some (InTurn None R (said @ [AssistantMessage x])))"

lemma finish_stream_spec:
  assumes "run_state (finish_stream env started) s = (x, s')" and "started \<longrightarrow> ctxMessages (runContext s) \<noteq> []"
  shows "\<exists>es. runEvents s' = runEvents s @ es \<and> runNew s' = runNew s \<and>
    ctxMessages (runContext s') = (if started then butlast (ctxMessages (runContext s)) else ctxMessages (runContext s)) @
      [AssistantMessage x] \<and> streamed started x es"
  using assms
  by (cases started)
    (auto simp: finish_stream_def in_world_def replace_last_def push_context_def emit_def streamed_def split: prod.splits)

lemma consume_stream_spec:
  assumes "run_state (consume_stream env started es) s = (x, s')" and "started \<longrightarrow> ctxMessages (runContext s) \<noteq> []"
    and "starts_once es" and "started \<longrightarrow> (\<forall>e \<in> set es. \<not> is_stream_start e)"
  shows "\<exists>ev. runEvents s' = runEvents s @ ev \<and> runNew s' = runNew s \<and>
    ctxMessages (runContext s') = (if started then butlast (ctxMessages (runContext s)) else ctxMessages (runContext s)) @
      [AssistantMessage x] \<and> streamed started x ev"
  using assms
proof (induction env started es arbitrary: s rule: consume_stream.induct)
  case (2 env started partial es)
  let ?s = "s\<lparr>runContext := (runContext s)\<lparr>ctxMessages := ctxMessages (runContext s) @ [AssistantMessage partial]\<rparr>,
      runEvents := runEvents s @ [MessageStart (AssistantMessage partial)],
      runWorld := eventSink env (MessageStart (AssistantMessage partial)) (runWorld s)\<rparr>"
  from 2(2) have run: "run_state (consume_stream env True es) ?s = (x, s')"
    by (simp add: push_context_def emit_def)
  from 2(4) have none: "\<forall>e \<in> set es. \<not> is_stream_start e"
    by (auto simp: starts_once_def filter_empty_conv)
  then have "filter is_stream_start es = []" by (simp add: filter_empty_conv)
  then have "starts_once es" by (simp add: starts_once_def)
  with 2(1)[OF run] none obtain ev where "runEvents s' = runEvents ?s @ ev" "runNew s' = runNew ?s"
    "ctxMessages (runContext s') = butlast (ctxMessages (runContext ?s)) @ [AssistantMessage x]" "streamed True x ev"
    by auto
  with 2(5) show ?case
    by (intro exI[of _ "MessageStart (AssistantMessage partial) # ev"]) (auto simp: streamed_def)
next
  case (3 env started k d partial es)
  have once: "starts_once es" using 3(4) by (simp add: starts_once_def)
  show ?case
  proof (cases started)
    case True
    let ?s = "s\<lparr>runContext := (runContext s)\<lparr>ctxMessages := butlast (ctxMessages (runContext s)) @ [AssistantMessage partial]\<rparr>,
        runEvents := runEvents s @ [MessageUpdate (AssistantMessage partial) (StreamDelta k d partial)],
        runWorld := eventSink env (MessageUpdate (AssistantMessage partial) (StreamDelta k d partial)) (runWorld s)\<rparr>"
    from True 3(2) have run: "run_state (consume_stream env started es) ?s = (x, s')"
      by (simp add: replace_last_def emit_def)
    from 3(1)[OF run _ once] True 3(5) obtain ev where "runEvents s' = runEvents ?s @ ev" "runNew s' = runNew ?s"
      "ctxMessages (runContext s') = butlast (ctxMessages (runContext ?s)) @ [AssistantMessage x]" "streamed True x ev"
      by auto
    with True show ?thesis
      by (intro exI[of _ "MessageUpdate (AssistantMessage partial) (StreamDelta k d partial) # ev"]) (auto simp: streamed_def)
  next
    case False
    with 3(2) have run: "run_state (consume_stream env started es) s = (x, s')" by simp
    from 3(1)[OF run _ once] False show ?thesis by simp
  qed
qed (simp_all only: consume_stream.simps, (rule finish_stream_spec, assumption, assumption)+)

lemma resolve_api_key_silent: "silent (resolve_api_key cfg) (\<lambda>_. True)"
  unfolding resolve_api_key_def
  by (auto intro!: silent_bind[where P = "\<lambda>_. True"] silent_return silent_in_world split: option.splits)


lemma streamAssistantResponse_adds:
  assumes "single_start env"
  shows "adds k (streamAssistantResponse env cfg)
    (\<lambda>x es ns cs. ns = [] \<and> cs = [AssistantMessage x] \<and> streamed False x es)"
proof -
  have stream: "adds k (in_world (streamEvents env cfg key ctx) \<bind> consume_stream env False)
      (\<lambda>x es ns cs. ns = [] \<and> cs = [AssistantMessage x] \<and> streamed False x es)" for key ctx
    unfolding adds_def
  proof (intro allI impI)
    fix s x s'
    assume run: "run_state (in_world (streamEvents env cfg key ctx) \<bind> consume_stream env False) s = (x, s')"
    obtain es w where es: "run_state (streamEvents env cfg key ctx) (runWorld s) = (es, w)" by fastforce
    with assms have "starts_once es" by (metis single_start_def fst_conv)
    with run es consume_stream_spec[of env False es "s\<lparr>runWorld := w\<rparr>" x s']
    show "\<exists>es ns cs. runEvents s' = runEvents s @ es \<and> runNew s' = runNew s @ ns \<and>
        (k \<longrightarrow> ctxMessages (runContext s') = ctxMessages (runContext s) @ cs) \<and>
        ns = [] \<and> cs = [AssistantMessage x] \<and> streamed False x es"
      by (auto simp: in_world_def)
  qed
  show ?thesis
    unfolding streamAssistantResponse_def
    by (rule silent_adds_bind[OF silent_current_context[OF TrueI]],
        rule silent_adds_bind[where P = "\<lambda>_. True"],
        force intro: silent_return silent_in_world split: option.splits,
        rule silent_adds_bind[OF silent_in_world[OF TrueI]],
        rule silent_adds_bind[OF resolve_api_key_silent],
        rule stream)
qed

subsection \<open>Tool calls\<close>

definition same_call :: "finalized \<Rightarrow> tool_result \<Rightarrow> bool" where
  "same_call f m \<longleftrightarrow> resToolCallId m = callId (finCall f) \<and> resToolName m = callName (finCall f) \<and> resIsError m = finIsError f"

text \<open>What a reported result adds, and what a batch's reports add.\<close>

definition reported :: "tool_result list \<Rightarrow> agent_event list \<Rightarrow> bool" where
  "reported ms es \<longleftrightarrow> announced es = map ToolResultMessage ms \<and>
     (\<forall>R said. follow (InTurn None R said) es = Some (InTurn None R (said @ map ToolResultMessage ms)))"

lemma reported_Nil [simp]: "reported [] []"
  by (simp add: reported_def)

lemma reported_append: "reported ms es \<Longrightarrow> reported ns fs \<Longrightarrow> reported (ms @ ns) (es @ fs)"
  by (simp add: reported_def follow_append)

lemma createToolResultMessage_silent: "silent (createToolResultMessage env f) (same_call f)"
  unfolding createToolResultMessage_def
  by (rule silent_bind[OF silent_in_world[OF TrueI]]) (rule silent_return, simp add: same_call_def)

lemma report_result_adds:
  "adds k (report_result env f) (\<lambda>m es ns cs. ns = [] \<and> cs = [] \<and> same_call f m \<and> reported [m] es)"
  unfolding report_result_def
  by (rule silent_adds_bind[OF createToolResultMessage_silent], rule adds_bind[OF emit_message_adds], rule adds_return)
    (simp add: reported_def)

lemma prepareToolCall_silent:
  "silent (prepareToolCall env cfg msg c) (\<lambda>p. case p of Prepared p \<Rightarrow> prepCall p = c | Immediate r e \<Rightarrow> True)"
    (is "silent _ ?P")
proof -
  have error: "silent (error_outcome e) ?P" for e
    unfolding error_outcome_def by (rule silent_return) simp
  have unless: "silent (unless_aborted env m) ?P" if "silent m ?P" for m
    unfolding unless_aborted_def
    by (rule silent_bind[OF silent_aborted[OF TrueI]]) (simp add: that error)
  have prepared: "silent (State_Monad.return (Prepared \<lparr>prepCall = c, prepTool = tool, prepArgs = args\<rparr>)) ?P" for tool args
    by (rule silent_return) simp
  have hook: "silent (run_before_hook env cfg msg c args rest) ?P" if "\<And>a. silent (rest a) ?P" for args rest
  proof (cases "cfgBeforeToolCall cfg")
    case (Some h)
    have "silent (blocked_outcome b) ?P" for b
      unfolding blocked_outcome_def Let_def by (rule silent_return) simp
    with that Some show ?thesis
      unfolding run_before_hook_def
      by (auto intro!: silent_bind[OF silent_current_context[OF TrueI]] silent_bind[OF silent_in_world[OF TrueI]] error unless
          split: sum.splits option.splits)
  qed (simp add: run_before_hook_def that)
  have args: "silent (prepareToolCallArguments tool c) (\<lambda>_. True)" for tool
    unfolding prepareToolCallArguments_def
    by (auto intro!: silent_bind[OF silent_in_world[OF TrueI]] silent_return split: option.splits)
  show ?thesis
    unfolding prepareToolCall_def
    by (rule silent_bind[OF silent_current_context[OF TrueI]])
      (auto intro!: silent_bind[OF args] error unless hook prepared split: option.splits sum.splits)
qed

lemma start_tool_silent: "silent (start_tool p) (\<lambda>_. True)"
  unfolding start_tool_def by (rule silent_in_world) simp

lemma settle_tool_silent: "silent (settle_tool p) (\<lambda>_. True)"
  unfolding settle_tool_def by (rule silent_bind[OF silent_in_world[OF TrueI]]) (rule silent_return, simp)

lemma finalize_silent: "silent (finalizeExecutedToolCall cfg msg p executed) (\<lambda>f. finCall f = prepCall p)"
  unfolding finalizeExecutedToolCall_def
  by (auto intro!: silent_bind[OF silent_current_context[OF TrueI]] silent_bind[OF silent_in_world[OF TrueI]] silent_return
      split: option.splits sum.splits)

text \<open>Updates of running calls.\<close>

definition updates_of :: "string \<Rightarrow> agent_event list \<Rightarrow> bool" where
  "updates_of i es \<longleftrightarrow> announced es = [] \<and> (\<forall>R said. i \<in># R \<longrightarrow> follow (InTurn None R said) es = Some (InTurn None R said))"

lemma emit_updates_adds:
  "adds k (for_each (emit_update env c) us) (\<lambda>_ es ns cs. ns = [] \<and> cs = [] \<and> updates_of (callId c) es)"
proof (induction us)
  case (Cons u us)
  show ?case
    unfolding for_each.simps emit_update_def
    by (rule adds_bind[where D = "\<lambda>_ es ns cs. es = [ToolExecutionUpdate (callId c) (callName c) (callArguments c) u] \<and> ns = [] \<and> cs = []"],
        rule adds_emit, simp, rule adds_weaken[OF Cons[unfolded emit_update_def]]) (auto simp: updates_of_def)
qed (auto intro!: adds_rules simp: updates_of_def)

lemma execute_adds:
  "adds k (executePreparedToolCall env p) (\<lambda>_ es ns cs. ns = [] \<and> cs = [] \<and> updates_of (callId (prepCall p)) es)"
  unfolding executePreparedToolCall_def
  by (rule silent_adds_bind[OF start_tool_silent], rule adds_bind[OF emit_updates_adds],
      rule silent_adds[OF settle_tool_silent]) simp

subsection \<open>A batch, one call at a time\<close>

text \<open>The executed part of a call: its start, its updates, its end.\<close>

lemma sequential_call_adds:
  "adds k (run_call_sequentially env cfg msg c)
     (\<lambda>(f, m) es ns cs. ns = [] \<and> cs = [] \<and> finCall f = c \<and> same_call f m \<and> reported [m] es)"
proof -
  have body: "adds k (case preparation of
              Immediate r e \<Rightarrow> State_Monad.return \<lparr>finCall = c, finResult = r, finIsError = e\<rparr>
            | Prepared p \<Rightarrow> do { executed \<leftarrow> executePreparedToolCall env p; finalizeExecutedToolCall cfg msg p executed })
       (\<lambda>f es ns cs. ns = [] \<and> cs = [] \<and> finCall f = c \<and> updates_of (callId c) es)"
    if "case preparation of Prepared p \<Rightarrow> prepCall p = c | Immediate r e \<Rightarrow> True" for preparation
  proof (cases preparation)
    case (Prepared p)
    with that show ?thesis
      by (auto intro!: adds_bind[OF execute_adds] silent_adds[OF finalize_silent])
  qed (auto intro!: adds_return simp: updates_of_def)
  show ?thesis
    unfolding run_call_sequentially_def emitToolExecutionStart_def emitToolExecutionEnd_def
    by (rule adds_bind[where D = "\<lambda>_ es ns cs. es = [ToolExecutionStart (callId c) (callName c) (callArguments c)] \<and> ns = [] \<and> cs = []"],
        rule adds_emit, simp, rule silent_adds_bind[OF prepareToolCall_silent], rule adds_bind[OF body], assumption,
        rule adds_bind[where D = "\<lambda>_ es ns cs. (\<exists>r e. es = [ToolExecutionEnd (callId c) (callName c) r e]) \<and> ns = [] \<and> cs = []"],
        rule adds_emit, force, rule adds_bind[OF report_result_adds], rule adds_return)
      (auto simp: updates_of_def reported_def follow_append)
qed

text \<open>The results answer the calls, in order, up to one after which the run was aborted.\<close>

definition never_aborted :: "'w environment \<Rightarrow> bool" where
  "never_aborted env \<longleftrightarrow> (\<forall>w. \<not> signalAborted env w)"

definition answered :: "'w environment \<Rightarrow> tool_call list \<Rightarrow> tool_result list \<Rightarrow> bool" where
  "answered env cs rs \<longleftrightarrow> (\<exists>j. answers (take j cs) rs) \<and> (cs \<noteq> [] \<longrightarrow> rs \<noteq> []) \<and> (never_aborted env \<longrightarrow> answers cs rs)"

lemma answers_finalized: "list_all2 same_call fs rs \<Longrightarrow> answers (map finCall fs) rs"
  unfolding answers_def by (induction rule: list_all2_induct) (auto simp: same_call_def)

lemma aborted_silent: "silent (aborted env) (\<lambda>b. never_aborted env \<longrightarrow> \<not> b)"
  unfolding silent_def adds_def aborted_def never_aborted_def by auto

definition cut_short :: "'w environment \<Rightarrow> 'a list \<Rightarrow> 'a list \<Rightarrow> bool" where
  "cut_short env xs ys \<longleftrightarrow> (\<exists>j. ys = take j xs) \<and> (xs \<noteq> [] \<longrightarrow> ys \<noteq> []) \<and> (never_aborted env \<longrightarrow> ys = xs)"

lemma cut_short_Nil [simp]: "cut_short env [] ys \<longleftrightarrow> ys = []"
  by (auto simp: cut_short_def)

lemma cut_short_single: "\<not> never_aborted env \<Longrightarrow> cut_short env (x # xs) [x]"
  unfolding cut_short_def by (auto intro: exI[of _ 1])

lemma cut_short_Cons: "cut_short env xs ys \<Longrightarrow> cut_short env (x # xs) (x # ys)"
  unfolding cut_short_def by (metis take_Suc_Cons list.distinct(1))

lemma answered_finalized:
  assumes "cut_short env cs (map finCall fs)" and "list_all2 same_call fs rs"
  shows "answered env cs rs"
proof -
  have "answers (map finCall fs) rs" using assms(2) by (rule answers_finalized)
  moreover have "rs = [] \<longleftrightarrow> fs = []" using assms(2) by auto
  ultimately show ?thesis
    using assms(1) unfolding cut_short_def answered_def by (metis map_is_Nil_conv)
qed

lemma sequential_calls_adds:
  "adds k (sequential_calls env cfg msg calls)
     (\<lambda>fms es ns cs. ns = [] \<and> cs = [] \<and> reported (map snd fms) es \<and> cut_short env calls (map (finCall \<circ> fst) fms) \<and>
        list_all2 same_call (map fst fms) (map snd fms))"
proof (induction calls)
  case (Cons c cs)
  show ?case
    unfolding sequential_calls.simps
  proof (rule adds_bind[OF sequential_call_adds], rule silent_adds_bind[OF aborted_silent], goal_cases)
    case (1 fm es ns cs' b)
    then obtain f m where fm: "fm = (f, m)" "finCall f = c" "same_call f m" "reported [m] es" "ns = []" "cs' = []"
      by (cases fm) auto
    show ?case
    proof (cases b)
      case True
      with 1 fm show ?thesis by (auto intro!: adds_return cut_short_single)
    next
      case False
      with fm show ?thesis
        by (auto intro!: adds_bind[OF Cons.IH] adds_return intro: cut_short_Cons reported_append[of "[m]", simplified])
    qed
  qed
qed (auto intro!: adds_return)

lemma sequential_adds:
  "adds k (executeToolCallsSequential env cfg msg calls)
     (\<lambda>(rs, t) es ns cs. ns = [] \<and> cs = [] \<and> reported rs es \<and> answered env calls rs)"
  unfolding executeToolCallsSequential_def
  by (rule adds_bind[OF sequential_calls_adds], rule adds_return) (auto intro!: answered_finalized simp: comp_def)

lemma map_each_report_adds:
  "adds k (map_each (report_result env) fs) (\<lambda>rs es ns cs. ns = [] \<and> cs = [] \<and> reported rs es \<and> list_all2 same_call fs rs)"
proof (induction fs)
  case (Cons f fs)
  show ?case
    unfolding map_each.simps
    by (rule adds_bind[OF report_result_adds], rule adds_bind[OF Cons.IH], rule adds_return)
      (auto intro: reported_append[of "[m]" for m, simplified])
qed (auto intro!: adds_return)

subsection \<open>A batch, tools running together\<close>

fun entry_call :: "'w call_entry \<Rightarrow> tool_call" where
  "entry_call (Ready f) = finCall f"
| "entry_call (Closure p) = prepCall p"

fun entry_running :: "'w call_entry \<Rightarrow> string multiset" where
  "entry_running (Ready f) = {#}"
| "entry_running (Closure p) = {#callId (prepCall p)#}"

fun task_call :: "'w task \<Rightarrow> tool_call" where
  "task_call (Reporting p us) = prepCall p"
| "task_call (Executed p x) = prepCall p"
| "task_call (Finishing f) = finCall f"
| "task_call (Finished f) = finCall f"

definition task_running :: "'w task \<Rightarrow> string multiset" where
  "task_running t = (if steps_left t = 0 then {#} else {#callId (task_call t)#})"

text \<open>Events that take the running calls from some to others.\<close>

definition running_change :: "string multiset \<Rightarrow> string multiset \<Rightarrow> agent_event list \<Rightarrow> bool" where
  "running_change before after es \<longleftrightarrow> announced es = [] \<and>
     (\<forall>R said. follow (InTurn None (R + before) said) es = Some (InTurn None (R + after) said))"

lemma running_change_Nil [simp]: "running_change a a []"
  by (simp add: running_change_def)

lemma running_change_append:
  assumes "running_change a b es" and "running_change b c fs"
  shows "running_change a c (es @ fs)"
  using assms by (simp add: running_change_def follow_append)

lemma running_change_frame:
  assumes "running_change a b es" shows "running_change (r + a) (r + b) es"
  using assms unfolding running_change_def by (metis add.assoc)

lemma prepare_entry_adds:
  "adds k (prepare_entry env cfg msg c)
     (\<lambda>e es ns cs. ns = [] \<and> cs = [] \<and> entry_call e = c \<and> running_change {#} (entry_running e) es)"
  unfolding prepare_entry_def emitToolExecutionStart_def emitToolExecutionEnd_def Let_def
proof (rule adds_bind[where D = "\<lambda>_ es ns cs. es = [ToolExecutionStart (callId c) (callName c) (callArguments c)] \<and> ns = [] \<and> cs = []"],
    rule adds_emit, simp, rule silent_adds_bind[OF prepareToolCall_silent], goal_cases)
  case (1 _ es ns cs preparation)
  show ?case
  proof (cases preparation)
    case (Immediate r e)
    show ?thesis
      unfolding Immediate preparation.case
      by (rule adds_bind[where D = "\<lambda>_ es ns cs. (\<exists>r e. es = [ToolExecutionEnd (callId c) (callName c) r e]) \<and> ns = [] \<and> cs = []"],
          rule adds_emit, force, rule adds_return) (use 1 in \<open>auto simp: running_change_def\<close>)
  qed (use 1 in \<open>auto intro!: adds_return simp: running_change_def\<close>)
qed

lemma prepare_entries_adds:
  "adds k (prepare_entries env cfg msg calls)
     (\<lambda>entries es ns cs. ns = [] \<and> cs = [] \<and> cut_short env calls (map entry_call entries) \<and>
        running_change {#} (sum_list (map entry_running entries)) es)"
proof (induction calls)
  case (Cons c cs)
  show ?case
    unfolding prepare_entries.simps
  proof (rule adds_bind[OF prepare_entry_adds], rule silent_adds_bind[OF aborted_silent], goal_cases)
    case (1 e es ns cs' b)
    show ?case
    proof (cases b)
      case True
      with 1 show ?thesis by (auto intro!: adds_return cut_short_single)
    next
      case False
      have "running_change (entry_running e) (entry_running e + r) fs" if "running_change {#} r fs" for r fs
        using running_change_frame[OF that, of "entry_running e"] by simp
      with False 1 show ?thesis
        by (auto intro!: adds_bind[OF Cons.IH] adds_return intro: cut_short_Cons running_change_append)
    qed
  qed
qed (auto intro!: adds_return)

lemma start_entry_silent:
  "silent (start_entry e) (\<lambda>t. task_call t = entry_call e \<and> task_running t = entry_running e)"
proof (cases e)
  case (Closure p)
  then show ?thesis
    unfolding start_entry_def call_entry.case
    by (auto intro!: silent_bind[OF start_tool_silent] silent_return simp: task_running_def)
qed (auto simp: start_entry_def task_running_def intro: silent_return)

lemma start_entries_silent:
  "silent (map_each start_entry es) (\<lambda>ts. map task_call ts = map entry_call es \<and>
     sum_list (map task_running ts) = sum_list (map entry_running es))"
proof (induction es)
  case (Cons e es)
  show ?case
    unfolding map_each.simps
    by (rule silent_bind[OF start_entry_silent], rule silent_bind[OF Cons.IH], rule silent_return) auto
qed (auto intro: silent_return)

lemma advance_adds:
  assumes "steps_left t > 0"
  shows "adds k (advance env cfg msg t)
     (\<lambda>t' es ns cs. ns = [] \<and> cs = [] \<and> Suc (steps_left t') = steps_left t \<and> task_call t' = task_call t \<and>
        running_change (task_running t) (task_running t') es)"
  using assms
proof (induction env cfg msg t rule: advance.induct)
  case (1 env cfg msg p u us)
  show ?case
    unfolding advance.simps emit_update_def
    by (rule adds_bind[where D = "\<lambda>_ es ns cs. es = [ToolExecutionUpdate (callId (prepCall p)) (callName (prepCall p)) (callArguments (prepCall p)) u] \<and> ns = [] \<and> cs = []"],
        rule adds_emit, simp, rule adds_return) (auto simp: running_change_def task_running_def)
next
  case (2 env cfg msg p)
  show ?case
    unfolding advance.simps
    by (rule silent_adds_bind[OF settle_tool_silent], rule adds_return) (auto simp: task_running_def)
next
  case (3 env cfg msg p executed)
  show ?case
    unfolding advance.simps
    by (rule silent_adds_bind[OF finalize_silent], rule adds_return) (auto simp: task_running_def)
next
  case (4 env cfg msg f)
  show ?case
    unfolding advance.simps emitToolExecutionEnd_def
    by (rule adds_bind[where D = "\<lambda>_ es ns cs. es = [ToolExecutionEnd (callId (finCall f)) (callName (finCall f)) (finResult f) (finIsError f)] \<and> ns = [] \<and> cs = []"],
        rule adds_emit, simp, rule adds_return) (auto simp: running_change_def task_running_def)
qed simp

text \<open>One task of a list changes.\<close>

lemma split_at: "i < length ts \<Longrightarrow> ts = take i ts @ ts ! i # drop (Suc i) ts"
  by (rule id_take_nth_drop)

lemma sum_list_update_split:
  fixes f :: "'a \<Rightarrow> 'b :: comm_monoid_add"
  assumes "i < length ts"
  obtains r where "sum_list (map f ts) = r + f (ts ! i)" and "\<And>t. sum_list (map f (ts[i := t])) = r + f t"
proof
  let ?r = "sum_list (map f (take i ts)) + sum_list (map f (drop (Suc i) ts))"
  show "sum_list (map f ts) = ?r + f (ts ! i)"
    by (subst split_at[OF assms]) (simp add: ac_simps)
  show "sum_list (map f (ts[i := t])) = ?r + f t" for t
    using assms by (simp add: upd_conv_take_nth_drop ac_simps)
qed

lemma unfinished_nth:
  assumes "sum_list (map steps_left ts) > 0"
  shows "unfinished ts ! (j mod length (unfinished ts)) < length ts"
    and "steps_left (ts ! (unfinished ts ! (j mod length (unfinished ts)))) > 0"
proof -
  from assms obtain t where t: "t \<in> set ts" "steps_left t > 0"
    by (metis (no_types, lifting) bot_nat_0.not_eq_extremum map_eq_conv sum_list_0 not_less_zero)
  then obtain i where "i < length ts" "ts ! i = t" by (auto simp: in_set_conv_nth)
  with t have "i \<in> set (unfinished ts)" by (simp add: unfinished_def)
  then have "j mod length (unfinished ts) < length (unfinished ts)" by (auto intro!: mod_less_divisor)
  then have "unfinished ts ! (j mod length (unfinished ts)) \<in> set (unfinished ts)" by (rule nth_mem)
  then show "unfinished ts ! (j mod length (unfinished ts)) < length ts"
    "steps_left (ts ! (unfinished ts ! (j mod length (unfinished ts)))) > 0"
    by (auto simp: unfinished_def)
qed

lemma run_tasks_adds:
  assumes "sum_list (map steps_left ts) = n"
  shows "adds k (run_tasks env cfg msg n ts)
     (\<lambda>ts' es ns cs. ns = [] \<and> cs = [] \<and> map task_call ts' = map task_call ts \<and> sum_list (map steps_left ts') = 0 \<and>
        running_change (sum_list (map task_running ts)) {#} es)"
  using assms
proof (induction n arbitrary: ts)
  case 0
  then have "sum_list (map task_running ts) = {#}"
    by (auto simp: task_running_def cong: map_cong)
  with 0 show ?case by (auto intro!: adds_return)
next
  case (Suc n)
  show ?case
    unfolding run_tasks.simps Let_def
  proof (rule silent_adds_bind[OF silent_in_world[OF TrueI]], goal_cases)
    case (1 j)
    let ?i = "unfinished ts ! (j mod length (unfinished ts))"
    from Suc.prems have i: "?i < length ts" "steps_left (ts ! ?i) > 0"
      using unfinished_nth[of ts j] by auto
    obtain r where r: "sum_list (map task_running ts) = r + task_running (ts ! ?i)"
      "\<And>t. sum_list (map task_running (ts[?i := t])) = r + task_running t"
      using sum_list_update_split[OF i(1), of task_running] by blast
    obtain q where q: "sum_list (map steps_left ts) = q + steps_left (ts ! ?i)"
      "\<And>t. sum_list (map steps_left (ts[?i := t])) = q + steps_left t"
      using sum_list_update_split[OF i(1), of steps_left] by blast
    show ?case
    proof (rule adds_bind[OF advance_adds[OF i(2)]], goal_cases)
      case (1 t es ns cs)
      then have "sum_list (map steps_left (ts[?i := t])) = n" using q Suc.prems by simp
      note IH = Suc.IH[OF this]
      from 1 have calls: "map task_call (ts[?i := t]) = map task_call ts"
        by (metis list_update_id map_update)
      from 1 r have "running_change (sum_list (map task_running ts)) (sum_list (map task_running (ts[?i := t]))) es"
        by (simp add: running_change_frame)
      with 1 calls show ?case
        by (auto intro!: adds_weaken[OF IH] intro: running_change_append)
    qed
  qed
qed

lemma all_settled_adds:
  "adds k (all_settled env cfg msg entries)
     (\<lambda>fs es ns cs. ns = [] \<and> cs = [] \<and> map finCall fs = map entry_call entries \<and>
        running_change (sum_list (map entry_running entries)) {#} es)"
proof -
  have finished: "map finCall (List.map_filter outcome_of ts) = map task_call ts" if "sum_list (map steps_left ts) = 0" for ts :: "'a task list"
    using that
  proof (induction ts)
    case (Cons t ts)
    then show ?case by (cases t) (auto simp: List.map_filter_def)
  qed (simp add: List.map_filter_def)
  show ?thesis
    unfolding all_settled_def
    by (rule silent_adds_bind[OF start_entries_silent], rule adds_bind[OF run_tasks_adds[OF refl]], rule adds_return)
      (auto simp: finished)
qed

lemma parallel_adds:
  "adds k (executeToolCallsParallel env cfg msg calls)
     (\<lambda>(rs, t) es ns cs. ns = [] \<and> cs = [] \<and> reported rs es \<and> answered env calls rs)"
proof -
  have rc: "reported rs (es @ fs @ gs)" if "running_change {#} a es" "running_change a {#} fs" "reported rs gs" for a es fs gs rs
    using running_change_append[OF that(1,2)] that(3)
    unfolding running_change_def reported_def append_assoc[symmetric] announced_append follow_append[of _ "es @ fs"]
    by (auto dest: spec[of _ "{#}"])
  show ?thesis
    unfolding executeToolCallsParallel_def
    by (rule adds_bind[OF prepare_entries_adds], rule adds_bind[OF all_settled_adds],
        rule adds_bind[OF map_each_report_adds], rule adds_return)
      (auto intro!: answered_finalized elim: rc)
qed

lemma truncated_adds:
  "adds k (failToolCallsFromTruncatedMessage env calls)
     (\<lambda>(rs, t) es ns cs. ns = [] \<and> cs = [] \<and> reported rs es \<and> answered env calls rs)"
proof -
  have one: "adds k (fail_truncated_call env c)
      (\<lambda>m es ns cs. ns = [] \<and> cs = [] \<and> reported [m] es \<and> resToolCallId m = callId c \<and> resToolName m = callName c)" for c
    unfolding fail_truncated_call_def emitToolExecutionStart_def emitToolExecutionEnd_def Let_def
    by (rule adds_bind[where D = "\<lambda>_ es ns cs. es = [ToolExecutionStart (callId c) (callName c) (callArguments c)] \<and> ns = [] \<and> cs = []"],
        rule adds_emit, simp,
        rule adds_bind[where D = "\<lambda>_ es ns cs. (\<exists>r e. es = [ToolExecutionEnd (callId c) (callName c) r e]) \<and> ns = [] \<and> cs = []"],
        rule adds_emit, force, rule adds_weaken[OF report_result_adds])
      (auto simp: reported_def same_call_def)
  have all: "adds k (map_each (fail_truncated_call env) calls)
      (\<lambda>rs es ns cs. ns = [] \<and> cs = [] \<and> reported rs es \<and> answers calls rs)" for calls
  proof (induction calls)
    case (Cons c cs)
    show ?case
      unfolding map_each.simps
      by (rule adds_bind[OF one], rule adds_bind[OF Cons.IH], rule adds_return)
        (auto simp: answers_def intro: reported_append[of "[m]" for m, simplified])
  qed (auto intro!: adds_return simp: answers_def)
  have "answered env calls rs" if "answers calls rs" for rs
    using that unfolding answered_def by (auto simp: answers_def intro: exI[of _ "length calls"])
  then show ?thesis
    unfolding failToolCallsFromTruncatedMessage_def
    by (intro adds_bind[OF all] adds_return) auto
qed

lemma executeToolCalls_adds:
  "adds k (executeToolCalls env cfg msg)
     (\<lambda>(rs, t) es ns cs. ns = [] \<and> cs = [] \<and> reported rs es \<and> answered env (tool_calls_of (asstContent msg)) rs)"
  unfolding executeToolCalls_def Let_def
  by (rule silent_adds_bind[OF silent_current_context[OF TrueI]]) (simp add: sequential_adds parallel_adds)

lemma run_tool_calls_adds:
  "adds k (run_tool_calls env cfg msg)
     (\<lambda>(rs, t) es ns cs. ns = map ToolResultMessage rs \<and> cs = map ToolResultMessage rs \<and> reported rs es \<and>
        answered env (tool_calls_of (asstContent msg)) rs)"
proof (cases "tool_calls_of (asstContent msg) = []")
  case True
  then show ?thesis
    unfolding run_tool_calls_def by (auto intro!: adds_return simp: answered_def answers_def)
next
  case False
  have push: "adds k (do { push_context (ToolResultMessage r); push_new (ToolResultMessage r) })
      (\<lambda>_ es ns cs. es = [] \<and> ns = [ToolResultMessage r] \<and> cs = [ToolResultMessage r])" for r
    by (auto simp: adds_def push_context_def push_new_def)
  have "adds k (if asstStopReason msg = LengthStop
          then failToolCallsFromTruncatedMessage env (tool_calls_of (asstContent msg)) else executeToolCalls env cfg msg)
      (\<lambda>(rs, t) es ns cs. ns = [] \<and> cs = [] \<and> reported rs es \<and> answered env (tool_calls_of (asstContent msg)) rs)"
    by (simp add: truncated_adds executeToolCalls_adds)
  with False show ?thesis
    unfolding run_tool_calls_def
    by (auto intro!: adds_bind[where D = "\<lambda>(rs, t) es ns cs. ns = [] \<and> cs = [] \<and> reported rs es \<and>
          answered env (tool_calls_of (asstContent msg)) rs"] adds_bind[OF adds_for_each[OF push]] adds_return
        simp: concat_singletons)
qed

subsection \<open>Turns\<close>

text \<open>The hook before the next turn leaves the transcript alone.\<close>

definition keeps_context :: "('w turn_context \<Rightarrow> ('w, 'w turn_update option) state) option \<Rightarrow> bool" where
  "keeps_context hook \<longleftrightarrow> (\<forall>f tc w. hook = Some f \<longrightarrow>
     (case fst (run_state (f tc) w) of None \<Rightarrow> True | Some u \<Rightarrow> updateContext u = None))"

lemma turn_snapshot_silent: "silent (turn_snapshot msg results) (\<lambda>_. True)"
  unfolding turn_snapshot_def silent_def
  by (auto simp: adds_def current_context_def new_messages_def)

lemma prepare_next_turn_adds:
  assumes "k \<longrightarrow> keeps_context (cfgPrepareNextTurn cfg)"
  shows "adds k (prepare_next_turn cfg msg results)
    (\<lambda>cfg' es ns cs. es = [] \<and> ns = [] \<and> cs = [] \<and> cfgPrepareNextTurn cfg' = cfgPrepareNextTurn cfg)"
proof (cases "cfgPrepareNextTurn cfg")
  case (Some f)
  have "adds k (in_world (f tc) \<bind> (\<lambda>u. case u of None \<Rightarrow> State_Monad.return cfg | Some u \<Rightarrow> apply_turn_update cfg u))
      (\<lambda>cfg' es ns cs. es = [] \<and> ns = [] \<and> cs = [] \<and> cfgPrepareNextTurn cfg' = cfgPrepareNextTurn cfg)" for tc
    using assms Some
    by (auto simp: adds_def in_world_def apply_turn_update_def set_context_def keeps_context_def
        split: prod.splits option.splits) (metis fst_conv option.simps(5) option.distinct(1))+
  with Some show ?thesis
    unfolding prepare_next_turn_def by (auto intro!: silent_adds_bind[OF turn_snapshot_silent])
qed (auto simp: prepare_next_turn_def intro!: adds_return)

lemma should_stop_silent: "silent (should_stop cfg msg results) (\<lambda>_. True)"
  unfolding should_stop_def
  by (auto intro!: silent_bind[OF turn_snapshot_silent] silent_return silent_in_world split: option.splits)

lemma poll_silent: "silent (poll callback) (\<lambda>_. True)"
  unfolding poll_def by (auto intro!: silent_return silent_in_world split: option.splits)

lemma end_run_adds: "adds k (end_run env) (\<lambda>_ es ns cs. (\<exists>ms. es = [AgentEnd ms]) \<and> ns = [] \<and> cs = [])"
  by (auto simp: adds_def end_run_def new_messages_def emit_def)

lemma answered_take:
  assumes "answered env cs rs" shows "answers (take (length rs) cs) rs"
proof -
  from assms obtain j where j: "answers (take j cs) rs" by (auto simp: answered_def)
  then have "length rs = min (length cs) j"
    unfolding answers_def by (metis length_map length_take)
  then have "take (length rs) cs = take j cs"
    by (cases "j \<le> length cs") (auto simp: min_def)
  with j show ?thesis by simp
qed

lemma answered_results:
  assumes "answered env (tool_calls_of (asstContent m)) rs" and "asstStopReason m \<notin> {ErrorStop, AbortedStop}"
  shows "results_answer (AssistantMessage m) rs"
  using answered_take[OF assms(1)] assms by (auto simp: answered_def)

lemma turn_messages_end: "turn_messages (said @ m # map ToolResultMessage rs) m rs"
  by (simp add: turn_messages_def)

definition turn_start :: "bool \<Rightarrow> agent_message list \<Rightarrow> phase" where
  "turn_start firstTurn said = (if firstTurn then InTurn None {#} said else Between)"

fun after_turn :: "'w turn_outcome \<Rightarrow> phase" where
  "after_turn RunEnded = Done"
| "after_turn (Continue cfg hasMore pending) = Between"

fun outcome_hook :: "'w loop_config \<Rightarrow> 'w turn_outcome \<Rightarrow> bool" where
  "outcome_hook cfg RunEnded = True"
| "outcome_hook cfg (Continue cfg' hasMore pending) = (cfgPrepareNextTurn cfg' = cfgPrepareNextTurn cfg)"

definition injected :: "agent_message list \<Rightarrow> agent_event list \<Rightarrow> bool" where
  "injected ms es \<longleftrightarrow> announced es = ms \<and> (\<forall>R said. follow (InTurn None R said) es = Some (InTurn None R (said @ ms)))"

lemma emit_messages_injected: "injected ms (concat (map (\<lambda>m. [MessageStart m, MessageEnd m]) ms))"
proof (induction ms)
  case (Cons m ms)
  then show ?case by (auto simp: injected_def)
qed (simp add: injected_def)

lemma inject_adds: "adds k (inject env m) (\<lambda>_ es ns cs. es = [MessageStart m, MessageEnd m] \<and> ns = [m] \<and> cs = [m])"
  by (auto simp: adds_def inject_def emit_message_def emit_def push_context_def push_new_def)

lemma inject_all_adds:
  "adds k (for_each (inject env) ms) (\<lambda>_ es ns cs. injected ms es \<and> ns = ms \<and> cs = ms)"
  by (rule adds_weaken[OF adds_for_each[OF inject_adds]]) (simp add: emit_messages_injected)

text \<open>The events of a turn up to its end.\<close>

lemma turn_prefix:
  assumes start: "es0 = (if firstTurn then [] else [TurnStart])" and "injected pending es1" and "streamed False msg es2"
    and "reported rs es3" and "results_answer (AssistantMessage msg) rs"
  shows "follow (turn_start firstTurn (if firstTurn then said else [])) (es0 @ es1 @ es2 @ es3 @ [TurnEnd (AssistantMessage msg) rs]) = Some Between"
proof -
  let ?said = "if firstTurn then said else []"
  have 0: "follow (turn_start firstTurn ?said) es0 = Some (InTurn None {#} ?said)"
    using start by (simp add: turn_start_def)
  have 1: "follow (InTurn None {#} ?said) es1 = Some (InTurn None {#} (?said @ pending))"
    using assms(2) by (simp add: injected_def)
  have 2: "follow (InTurn None {#} (?said @ pending)) es2 = Some (InTurn None {#} ((?said @ pending) @ [AssistantMessage msg]))"
    using assms(3) by (simp add: streamed_def)
  have 3: "follow (InTurn None {#} ((?said @ pending) @ [AssistantMessage msg])) es3 =
      Some (InTurn None {#} ((?said @ pending) @ AssistantMessage msg # map ToolResultMessage rs))"
    using assms(4) by (simp add: reported_def)
  have 4: "follow (InTurn None {#} ((?said @ pending) @ AssistantMessage msg # map ToolResultMessage rs)) [TurnEnd (AssistantMessage msg) rs] =
      Some Between"
    using assms(5) turn_messages_end[of "?said @ pending" "AssistantMessage msg" rs] by simp
  show ?thesis
    by (intro follow_appendI[OF 0] follow_appendI[OF 1] follow_appendI[OF 2] follow_appendI[OF 3] 4)
qed

definition turn_spec :: "'w loop_config \<Rightarrow> bool \<Rightarrow> 'w turn_outcome \<Rightarrow> agent_event list \<Rightarrow> agent_message list \<Rightarrow> agent_message list \<Rightarrow> bool" where
  "turn_spec cfg firstTurn out es ns cs \<longleftrightarrow> announced es = ns \<and> cs = ns \<and>
     (\<forall>said. follow (turn_start firstTurn (if firstTurn then said else [])) es = Some (after_turn out)) \<and> outcome_hook cfg out"

lemma turn_finished:
  assumes "es0 = (if firstTurn then [] else [TurnStart])" and "injected pending es1" and "streamed False msg es2"
    and "reported rs es3" and "results_answer (AssistantMessage msg) rs"
  shows "turn_spec cfg firstTurn RunEnded (es0 @ es1 @ es2 @ es3 @ [TurnEnd (AssistantMessage msg) rs] @ [AgentEnd ms])
      (pending @ AssistantMessage msg # map ToolResultMessage rs) (pending @ AssistantMessage msg # map ToolResultMessage rs)"
    and "cfgPrepareNextTurn cfg' = cfgPrepareNextTurn cfg \<Longrightarrow>
      turn_spec cfg firstTurn (Continue cfg' hasMore pending') (es0 @ es1 @ es2 @ es3 @ [TurnEnd (AssistantMessage msg) rs])
      (pending @ AssistantMessage msg # map ToolResultMessage rs) (pending @ AssistantMessage msg # map ToolResultMessage rs)"
proof -
  have ann: "announced (es0 @ es1 @ es2 @ es3 @ [TurnEnd (AssistantMessage msg) rs] @ es4) =
      pending @ AssistantMessage msg # map ToolResultMessage rs @ announced es4" for es4
    using assms(1-4) by (simp add: injected_def streamed_def reported_def)
  note prefix = turn_prefix[OF assms]
  have "follow (turn_start firstTurn (if firstTurn then said else [])) ((es0 @ es1 @ es2 @ es3 @ [TurnEnd (AssistantMessage msg) rs]) @ [AgentEnd ms]) =
      Some Done" for said
    by (rule follow_appendI[OF prefix]) simp
  then show "turn_spec cfg firstTurn RunEnded (es0 @ es1 @ es2 @ es3 @ [TurnEnd (AssistantMessage msg) rs] @ [AgentEnd ms])
      (pending @ AssistantMessage msg # map ToolResultMessage rs) (pending @ AssistantMessage msg # map ToolResultMessage rs)"
    using ann[of "[AgentEnd ms]"] by (simp add: turn_spec_def)
  show "turn_spec cfg firstTurn (Continue cfg' hasMore pending') (es0 @ es1 @ es2 @ es3 @ [TurnEnd (AssistantMessage msg) rs])
      (pending @ AssistantMessage msg # map ToolResultMessage rs) (pending @ AssistantMessage msg # map ToolResultMessage rs)"
    if "cfgPrepareNextTurn cfg' = cfgPrepareNextTurn cfg"
    using ann[of "[]"] prefix that by (simp add: turn_spec_def)
qed

text \<open>The two ways a turn goes on after the assistant's message.\<close>

lemma turn_failed_adds:
  assumes "asstStopReason msg \<in> {ErrorStop, AbortedStop}"
    and "es0 = (if firstTurn then [] else [TurnStart])" "injected pending es1" "streamed False msg es2"
  shows "adds k (do { emit env (TurnEnd (AssistantMessage msg) []); end_run env; State_Monad.return RunEnded })
    (\<lambda>out es ns cs. turn_spec cfg firstTurn out (es0 @ es1 @ es2 @ es) (pending @ AssistantMessage msg # ns) (pending @ AssistantMessage msg # cs))"
proof -
  have "results_answer (AssistantMessage msg) []" using assms(1) by simp
  note fin = turn_finished(1)[OF assms(2-4) reported_Nil this]
  show ?thesis
    by (rule adds_bind[where D = "\<lambda>_ es ns cs. es = [TurnEnd (AssistantMessage msg) []] \<and> ns = [] \<and> cs = []"],
        rule adds_emit, simp, rule adds_bind[OF end_run_adds], rule adds_return)
      (use fin in auto)
qed

lemma turn_completed_adds:
  assumes "asstStopReason msg \<notin> {ErrorStop, AbortedStop}" and keeps: "k \<longrightarrow> keeps_context (cfgPrepareNextTurn cfg)"
    and "es0 = (if firstTurn then [] else [TurnStart])" "injected pending es1" "streamed False msg es2"
  shows "adds k (do { (results, hasMore) \<leftarrow> run_tool_calls env cfg msg;
           emit env (TurnEnd (AssistantMessage msg) results);
           cfg' \<leftarrow> prepare_next_turn cfg msg results;
           stop \<leftarrow> should_stop cfg' msg results;
           (if stop then do { end_run env; State_Monad.return RunEnded }
            else do { pending' \<leftarrow> poll (cfgGetSteeringMessages cfg'); State_Monad.return (Continue cfg' hasMore pending') }) })
    (\<lambda>out es ns cs. turn_spec cfg firstTurn out (es0 @ es1 @ es2 @ es) (pending @ AssistantMessage msg # ns) (pending @ AssistantMessage msg # cs))"
proof (rule adds_bind[OF run_tool_calls_adds], goal_cases)
  case (1 x es3 ns cs)
  obtain rs hasMore where x: "x = (rs, hasMore)" by (cases x)
  with 1 have rs: "reported rs es3" "ns = map ToolResultMessage rs" "cs = map ToolResultMessage rs"
    and "answered env (tool_calls_of (asstContent msg)) rs"
    by auto
  note fin = turn_finished[OF assms(3-5) rs(1) answered_results[OF this(4) assms(1)]]
  have ending: "adds k (if stop then do { end_run env; State_Monad.return RunEnded }
            else do { pending' \<leftarrow> poll (cfgGetSteeringMessages cfg'); State_Monad.return (Continue cfg' hasMore pending') })
      (\<lambda>out es ns cs. turn_spec cfg firstTurn out (es0 @ es1 @ es2 @ es3 @ [TurnEnd (AssistantMessage msg) rs] @ es)
         (pending @ AssistantMessage msg # map ToolResultMessage rs @ ns) (pending @ AssistantMessage msg # map ToolResultMessage rs @ cs))"
    if "cfgPrepareNextTurn cfg' = cfgPrepareNextTurn cfg" for cfg' stop
    using fin(1) fin(2)[OF that]
    by (cases stop) (auto intro!: adds_bind[OF end_run_adds] silent_adds_bind[OF poll_silent] adds_return)
  show ?case
    unfolding x prod.case
    by (rule adds_bind[where D = "\<lambda>_ es ns cs. es = [TurnEnd (AssistantMessage msg) rs] \<and> ns = [] \<and> cs = []"],
        rule adds_emit, simp, rule adds_bind[OF prepare_next_turn_adds[OF keeps]], rule silent_adds_bind[OF should_stop_silent],
        rule adds_weaken[OF ending]) (auto simp: rs)
qed

lemma run_turn_adds:
  assumes "single_start env" and keeps: "k \<longrightarrow> keeps_context (cfgPrepareNextTurn cfg)"
  shows "adds k (run_turn env cfg firstTurn pending) (\<lambda>out es ns cs. turn_spec cfg firstTurn out es ns cs)"
proof -
  have start: "adds k (if firstTurn then State_Monad.return () else emit env TurnStart)
      (\<lambda>_ es ns cs. es = (if firstTurn then [] else [TurnStart]) \<and> ns = [] \<and> cs = [])"
    by (auto intro: adds_rules)
  show ?thesis
    unfolding run_turn_def
  proof (rule adds_bind[OF start], rule adds_bind[OF inject_all_adds], rule adds_bind[OF streamAssistantResponse_adds[OF assms(1)]],
      goal_cases)
    case (1 _ es0 ns0 cs0 _ es1 ns1 cs1 msg es2 ns2 cs2)
    show ?case
    proof (rule adds_bind[where D = "\<lambda>_ es ns cs. es = [] \<and> ns = [AssistantMessage msg] \<and> cs = []"], rule adds_push_new, simp, goal_cases)
      case (1 _ es ns cs)
      with \<open>es0 = _ \<and> _\<close> \<open>injected _ _ \<and> _\<close> \<open>ns2 = _ \<and> _\<close> show ?case
        by (cases "asstStopReason msg \<in> {ErrorStop, AbortedStop}")
          (auto intro!: adds_weaken[OF turn_failed_adds[where cfg = cfg]] adds_weaken[OF turn_completed_adds[OF _ keeps]])
    qed
  qed
qed

subsection \<open>Runs\<close>

definition run_spec :: "phase \<Rightarrow> bool \<Rightarrow> agent_event list \<Rightarrow> agent_message list \<Rightarrow> agent_message list \<Rightarrow> bool" where
  "run_spec p finished es ns cs \<longleftrightarrow> announced es = ns \<and> cs = ns \<and> (finished \<longrightarrow> follow p es = Some Done)"

lemma turns_adds:
  assumes "single_start env" and "k \<longrightarrow> keeps_context (cfgPrepareNextTurn cfg)" and "firstTurn \<longrightarrow> hasMore"
  shows "adds k (turns env fuel cfg firstTurn hasMore pending)
    (\<lambda>b es ns cs. run_spec (turn_start firstTurn (if firstTurn then said else [])) b es ns cs)"
  using assms(2,3)
proof (induction fuel arbitrary: cfg firstTurn hasMore pending)
  case 0
  then show ?case by (auto intro!: adds_return simp: run_spec_def)
next
  case (Suc n)
  let ?p = "turn_start firstTurn (if firstTurn then said else [])"
  show ?case
  proof (cases "hasMore \<or> pending \<noteq> []")
    case True
    have "adds k (case out of RunEnded \<Rightarrow> State_Monad.return True
            | Continue cfg' hasMore' pending' \<Rightarrow> turns env n cfg' False hasMore' pending')
        (\<lambda>b es' ns' cs'. run_spec ?p b (es @ es') (ns @ ns') (cs @ cs'))"
      if spec: "turn_spec cfg firstTurn out es ns cs" for out es ns cs
    proof (cases out)
      case RunEnded
      with spec show ?thesis by (auto intro!: adds_return simp: turn_spec_def run_spec_def split: if_splits)
    next
      case (Continue cfg' hasMore' pending')
      with spec Suc.prems have "k \<longrightarrow> keeps_context (cfgPrepareNextTurn cfg')" by (simp add: turn_spec_def)
      from Suc.IH[OF this, of False] spec Continue show ?thesis
        by (auto elim!: adds_weaken simp: turn_spec_def run_spec_def turn_start_def follow_append split: if_splits)
    qed
    with True show ?thesis
      by (simp add: adds_bind[OF run_turn_adds[OF assms(1) Suc.prems(1)]])
  next
    case False
    with Suc.prems have first: "\<not> firstTurn" by simp
    show ?thesis
    proof -
      have "adds k (if followUps \<noteq> [] then turns env n cfg firstTurn True followUps
          else do { end_run env; State_Monad.return True })
          (\<lambda>b es ns cs. run_spec ?p b es ns cs)" for followUps
      proof (cases "followUps = []")
        case True
        with first show ?thesis
          by (auto intro!: adds_bind[OF end_run_adds] adds_return simp: run_spec_def turn_start_def)
      qed (use Suc.IH[OF Suc.prems(1), of firstTurn True followUps] in simp)
      with False show ?thesis
        by (simp add: silent_adds_bind[OF poll_silent])
    qed
  qed
qed

lemma runLoop_adds:
  assumes "single_start env" and "k \<longrightarrow> keeps_context (cfgPrepareNextTurn cfg)"
  shows "adds k (runLoop env fuel cfg) (\<lambda>b es ns cs. run_spec (InTurn None {#} said) b es ns cs)"
  unfolding runLoop_def
  using turns_adds[OF assms, of True True] 
  by (auto intro!: silent_adds_bind[OF poll_silent] simp: turn_start_def)

text \<open>The last event carries the messages the run returns.\<close>

lemma end_run_last: "run_state (end_run env) s = (u, s') \<Longrightarrow> runEvents s' = runEvents s @ [AgentEnd (runNew s')] \<and> runNew s' = runNew s"
  by (auto simp: end_run_def new_messages_def emit_def)

lemma run_turn_last:
  "run_state (run_turn env cfg firstTurn pending) s = (RunEnded, s') \<Longrightarrow> \<exists>es. runEvents s' = es @ [AgentEnd (runNew s')]"
  unfolding run_turn_def
  by (auto split: prod.splits if_splits dest!: end_run_last)

lemma turns_last:
  "run_state (turns env fuel cfg firstTurn hasMore pending) s = (True, s') \<Longrightarrow> \<exists>es. runEvents s' = es @ [AgentEnd (runNew s')]"
proof (induction fuel arbitrary: cfg firstTurn hasMore pending s)
  case (Suc n)
  then show ?case
    by (auto split: prod.splits if_splits turn_outcome.splits dest: run_turn_last end_run_last)
qed simp

lemma runLoop_last: "run_state (runLoop env fuel cfg) s = (True, s') \<Longrightarrow> \<exists>es. runEvents s' = es @ [AgentEnd (runNew s')]"
  unfolding runLoop_def by (auto split: prod.splits dest: turns_last)

lemma announce_run_adds:
  "adds k (announce_run env prompts) (\<lambda>_ es ns cs. announced es = prompts \<and> ns = [] \<and> cs = [] \<and>
     follow NotStarted es = Some (InTurn None {#} prompts))"
proof -
  have 1: "adds k (emit env e) (\<lambda>_ es ns cs. es = [e] \<and> ns = [] \<and> cs = [])" for e
    by (rule adds_emit) simp
  show ?thesis
    unfolding announce_run_def
    by (rule adds_bind[OF 1], rule adds_bind[OF 1], rule adds_weaken[OF adds_for_each[OF emit_message_adds]])
      (use emit_messages_injected[of prompts] in \<open>auto simp: injected_def\<close>)
qed

text \<open>A run that ends, from its start.\<close>

lemma whole_run:
  assumes "single_start env" and "k \<longrightarrow> keeps_context (cfgPrepareNextTurn cfg)"
    and run: "run_state (do { announce_run env prompts; runLoop env fuel cfg }) (start_run ctx prompts w) = (True, s)"
  shows "follow NotStarted (runEvents s) = Some Done" and "announced (runEvents s) = runNew s"
    and "\<exists>es. runEvents s = es @ [AgentEnd (runNew s)]"
    and "\<exists>ms. runNew s = prompts @ ms \<and> (k \<longrightarrow> ctxMessages (runContext s) = ctxMessages ctx @ ms)"
proof -
  have "adds k (do { announce_run env prompts; runLoop env fuel cfg })
      (\<lambda>b es ns cs. announced es = prompts @ ns \<and> cs = ns \<and> (b \<longrightarrow> follow NotStarted es = Some Done))"
    by (rule adds_bind[OF announce_run_adds], rule adds_weaken[OF runLoop_adds[OF assms(1,2), of fuel prompts]])
      (auto simp: run_spec_def follow_append)
  then obtain es ns cs where 1: "runEvents s = es" "runNew s = prompts @ ns"
    "k \<longrightarrow> ctxMessages (runContext s) = ctxMessages ctx @ cs" "announced es = prompts @ ns" "cs = ns" "follow NotStarted es = Some Done"
    by (rule addsE[OF _ run]) (auto simp: start_run_def)
  then show "follow NotStarted (runEvents s) = Some Done" and "announced (runEvents s) = runNew s"
    "\<exists>ms. runNew s = prompts @ ms \<and> (k \<longrightarrow> ctxMessages (runContext s) = ctxMessages ctx @ ms)"
    by auto
  from run show "\<exists>es. runEvents s = es @ [AgentEnd (runNew s)]"
    by (auto split: prod.splits dest: runLoop_last)
qed

subsection \<open>Runs that end\<close>

lemma turns_fuel_mono:
  assumes "run_state (turns env n cfg firstTurn hasMore pending) s = (True, s')" and "n \<le> n'"
  shows "run_state (turns env n' cfg firstTurn hasMore pending) s = (True, s')"
  using assms
proof (induction n arbitrary: n' cfg firstTurn hasMore pending s)
  case (Suc n)
  then obtain m where "n' = Suc m" "n \<le> m" by (cases n') auto
  with Suc show ?case by (auto split: prod.splits if_splits turn_outcome.splits)
qed simp

lemma run_fuel_mono:
  assumes "runAgentLoop env n prompts ctx cfg w = Some s" and "n \<le> n'"
  shows "runAgentLoop env n' prompts ctx cfg w = Some s"
proof -
  let ?s = "start_run (ctx\<lparr>ctxMessages := ctxMessages ctx @ prompts\<rparr>) prompts w"
  obtain s1 where s1: "run_state (announce_run env prompts) ?s = ((), s1)" by (metis old.unit.exhaust surj_pair)
  obtain pending s2 where s2: "run_state (poll (cfgGetSteeringMessages cfg)) s1 = (pending, s2)" by fastforce
  from assms(1) s1 s2 have "run_state (turns env n cfg True True pending) s2 = (True, s)"
    by (cases "run_state (turns env n cfg True True pending) s2")
      (auto simp: runAgentLoop_def runLoop_def ended_def split: if_splits)
  from turns_fuel_mono[OF this assms(2)] s1 s2 show ?thesis
    by (simp add: runAgentLoop_def runLoop_def ended_def)
qed

end
