(* ===== verification/AgentRuns.thy ===== *)
theory AgentRuns
  imports AgentEvents
begin

section \<open>The agent loop: what a run guarantees\<close>

text \<open>
  The properties of a whole run: its events follow the protocol and announce exactly the messages it
  returns, the transcript grows by those messages, every tool call is answered in order however the
  tools are interleaved, a truncated message calls no tool, and a run with a measure ends.
\<close>

subsection \<open>A sample run\<close>

text \<open>The model calls a tool once and then stops; the world counts the requests.\<close>

definition sample_usage :: usage where
  "sample_usage = \<lparr>usageInput = 0, usageOutput = 0, usageCacheRead = 0, usageCacheWrite = 0,
     usageCacheWrite1h = None, usageReasoning = None, usageTotalTokens = 0,
     usageCost = \<lparr>priceInput = 0, priceOutput = 0, priceCacheRead = 0, priceCacheWrite = 0, priceTotal = 0\<rparr>\<rparr>"

definition sample_call :: tool_call where
  "sample_call = \<lparr>callId = ''c1'', callName = ''read'', callArguments = JNull\<rparr>"

definition sample_reply :: "content_block list \<Rightarrow> stop_reason \<Rightarrow> assistant_message" where
  "sample_reply content stop = \<lparr>asstContent = content, asstProvider = ''p'', asstModel = ''m'', asstUsage = sample_usage,
     asstStopReason = stop, asstDeferred = None, asstErrorMessage = None, asstTimestamp = 0\<rparr>"

definition sample_result :: agent_tool_result where
  "sample_result = \<lparr>trContent = Some [TextContent ''ok''], trDetails = JNull, trUsage = None, trAddedToolNames = None,
     trTerminate = None\<rparr>"

definition sample_tool :: "nat agent_tool" where
  "sample_tool = \<lparr>toolName = ''read'', toolMode = None, toolPrepareArguments = None,
     toolUpdates = (\<lambda>i args. State_Monad.return [sample_result]),
     toolOutcome = (\<lambda>i args. State_Monad.return (Inr sample_result))\<rparr>"

definition sample_env :: "nat environment" where
  "sample_env = \<lparr>streamEvents = (\<lambda>cfg key ctx. State (\<lambda>w. ([StreamStart (sample_reply [] PendingStop), StreamDone], Suc w))),
     streamResult = State (\<lambda>w. (if w = 1 then sample_reply [ToolCallContent sample_call] ToolUseStop
       else sample_reply [TextContent ''done''] StopStop, w)),
     eventSink = (\<lambda>e w. w), signalAborted = (\<lambda>w. False), dateNow = State_Monad.return 0,
     validateToolArguments = (\<lambda>tool c. Inr (callArguments c)), nextTask = State_Monad.return 0\<rparr>"

definition sample_config :: "nat loop_config" where
  "sample_config = \<lparr>cfgModel = \<lparr>modelProvider = ''p'', modelId = ''m''\<rparr>, cfgReasoning = None, cfgApiKey = None,
     cfgToolExecution = None, cfgConvertToLlm = State_Monad.return, cfgTransformContext = None, cfgGetApiKey = None,
     cfgShouldStopAfterTurn = None, cfgPrepareNextTurn = None, cfgGetSteeringMessages = None, cfgGetFollowUpMessages = None,
     cfgBeforeToolCall = None, cfgAfterToolCall = None\<rparr>"

definition sample_context :: "nat agent_context" where
  "sample_context = \<lparr>ctxSystemPrompt = [], ctxMessages = [], ctxTools = Some [sample_tool]\<rparr>"

definition sample_prompt :: agent_message where
  "sample_prompt = UserMessage (PlainContent ''hi'') 0"

definition sample_new :: "agent_message list" where
  "sample_new = [sample_prompt, AssistantMessage (sample_reply [ToolCallContent sample_call] ToolUseStop),
     ToolResultMessage \<lparr>resToolCallId = ''c1'', resToolName = ''read'', resContent = [TextContent ''ok''], resDetails = JNull,
       resUsage = None, resAddedToolNames = [], resIsError = False, resTimestamp = 0\<rparr>,
     AssistantMessage (sample_reply [TextContent ''done''] StopStop)]"

lemmas action_defs = in_world_def emit_def aborted_def current_context_def new_messages_def push_context_def replace_last_def
  push_new_def emit_message_def end_run_def poll_def inject_def resolve_api_key_def finish_stream_def streamAssistantResponse_def

lemmas batch_defs = run_tool_calls_def executeToolCalls_def has_sequential_call_def find_tool_def executeToolCallsParallel_def
  prepare_entry_def emitToolExecutionStart_def prepareToolCall_def prepareToolCallArguments_def run_before_hook_def
  unless_aborted_def all_settled_def start_entry_def start_tool_def emit_update_def settle_tool_def
  finalizeExecutedToolCall_def emitToolExecutionEnd_def report_result_def createToolResultMessage_def shouldTerminateToolBatch_def

lemmas turn_defs = run_turn_def prepare_next_turn_def should_stop_def turn_snapshot_def announce_run_def runLoop_def start_run_def
  ended_def runAgentLoop_def

lemmas sample_defs = sample_env_def sample_config_def sample_context_def sample_tool_def sample_call_def sample_reply_def
  sample_result_def sample_prompt_def

lemma unfinished_single: "unfinished [t] = (if steps_left t > 0 then [0] else [])"
  by (simp add: unfinished_def)

lemma sample_run: "\<exists>s. runAgentLoop sample_env (Suc (Suc (Suc 0))) [sample_prompt] sample_context sample_config 0 = Some s"
  by (simp add: turn_defs batch_defs action_defs sample_defs List.map_filter_def unfinished_single eval_nat_numeral)

lemma sample_single_start: "single_start sample_env"
  by (simp add: single_start_def starts_once_def sample_env_def)

lemma sample_keeps: "keeps_context (cfgPrepareNextTurn sample_config)"
  by (simp add: keeps_context_def sample_config_def)

lemma run_state_of:
  assumes "runAgentLoop env fuel prompts ctx cfg w = Some s"
  shows "run_state (do { announce_run env prompts; runLoop env fuel cfg })
    (start_run (ctx\<lparr>ctxMessages := ctxMessages ctx @ prompts\<rparr>) prompts w) = (True, s)"
  using assms unfolding runAgentLoop_def ended_def by (auto simp: prod_eq_iff split: if_splits)

subsection \<open>Events and messages\<close>

text \<open>C5: When streams start once, the events of a run that ends follow the protocol: the run opens and
  closes once, every turn opens, announces each message from its start to its end, starts and ends
  every tool call it runs, reports the results of the turn's calls in the order of the calls, and
  closes; the messages announced are exactly the messages the run returns, the prompts first, and the
  last event carries them.\<close>

theorem run_protocol:
  assumes "single_start env" and "runAgentLoop env fuel prompts ctx cfg w = Some s"
  shows "follow NotStarted (runEvents s) = Some Done \<and> announced (runEvents s) = runNew s \<and>
    last (runEvents s) = AgentEnd (runNew s) \<and> take (length prompts) (runNew s) = prompts"
  using whole_run[OF assms(1) _ run_state_of[OF assms(2)], of False] by fastforce

theorem run_protocol_witness:
  "\<exists>s. runAgentLoop sample_env (Suc (Suc (Suc 0))) [sample_prompt] sample_context sample_config 0 = Some s \<and>
     follow NotStarted (runEvents s) = Some Done \<and> announced (runEvents s) = runNew s \<and>
     last (runEvents s) = AgentEnd (runNew s) \<and> take 1 (runNew s) = [sample_prompt]"
  using sample_run run_protocol[OF sample_single_start] by fastforce

text \<open>When streams start once and the hook between turns does not replace the context, the
  transcript at the end of a run is the one it started from followed by the messages the run returns:
  the model has been shown the same history the caller is given.\<close>

theorem run_transcript:
  assumes "single_start env" and "keeps_context (cfgPrepareNextTurn cfg)"
    and "runAgentLoop env fuel prompts ctx cfg w = Some s"
  shows "ctxMessages (runContext s) = ctxMessages ctx @ runNew s"
  using whole_run[OF assms(1) _ run_state_of[OF assms(3)], of True] assms(2) by auto

theorem run_transcript_witness:
  "\<exists>s. runAgentLoop sample_env (Suc (Suc (Suc 0))) [sample_prompt] sample_context sample_config 0 = Some s \<and>
     ctxMessages (runContext s) = ctxMessages sample_context @ runNew s"
  using sample_run run_transcript[OF sample_single_start sample_keeps] by blast

subsection \<open>Batches of tool calls\<close>

text \<open>
  Both kinds of batch take the calls one by one, the one running each of them, the other preparing it,
  and look at the signal after each: \<open>broken_off env f xs s j\<close>, of a list taken up by \<open>f\<close> from the state
  \<open>s\<close>: the signal is found aborted after \<open>j\<close> elements and not before, or never and \<open>j\<close> is all of them.
\<close>

primrec until_aborted :: "'w environment \<Rightarrow> ('a \<Rightarrow> ('w run, 'b) state) \<Rightarrow> 'a list \<Rightarrow> ('w run, 'b list) state" where
  "until_aborted env f [] = State_Monad.return []"
| "until_aborted env f (x # xs) =
     do { y \<leftarrow> f x;
          b \<leftarrow> aborted env;
          (if b then State_Monad.return [y]
           else do { ys \<leftarrow> until_aborted env f xs; State_Monad.return (y # ys) }) }"

lemma sequential_until: "sequential_calls env cfg msg calls = until_aborted env (run_call_sequentially env cfg msg) calls"
  by (induction calls) (simp_all cong: if_cong)

lemma entries_until: "prepare_entries env cfg msg calls = until_aborted env (prepare_entry env cfg msg) calls"
  by (induction calls) (simp_all cong: if_cong)

definition state_after :: "('a \<Rightarrow> ('s, 'b) state) \<Rightarrow> 'a list \<Rightarrow> 's \<Rightarrow> 's" where
  "state_after f xs s = snd (run_state (map_each f xs) s)"

definition broken_off :: "'w environment \<Rightarrow> ('a \<Rightarrow> ('w run, 'b) state) \<Rightarrow> 'a list \<Rightarrow> 'w run \<Rightarrow> nat \<Rightarrow> bool" where
  "broken_off env f xs s j \<longleftrightarrow> j \<le> length xs \<and>
     (\<forall>i. 0 < i \<and> i < j \<longrightarrow> \<not> signalAborted env (runWorld (state_after f (take i xs) s))) \<and>
     (j < length xs \<longrightarrow> 0 < j \<and> signalAborted env (runWorld (state_after f (take j xs) s)))"

lemma state_after_Nil [simp]: "state_after f [] s = s"
  by (simp add: state_after_def)

lemma state_after_Cons: "run_state (f x) s = (y, s') \<Longrightarrow> state_after f (x # xs) s = state_after f xs s'" for f x
  by (simp add: state_after_def split_beta)

lemma broken_off_Cons:
  assumes "run_state (f x) s = (y, s')" and "\<not> signalAborted env (runWorld s')" and "broken_off env f xs s' j"
  shows "broken_off env f (x # xs) s (Suc j)"
proof -
  have "\<not> signalAborted env (runWorld (state_after f (take i (x # xs)) s))" if "0 < i" "i < Suc j" for i
  proof (cases i)
    case (Suc i')
    with assms that show ?thesis
      by (cases i') (auto simp: state_after_Cons[where f = f and x = x, OF assms(1)] broken_off_def)
  qed (use that in simp)
  with assms(3) show ?thesis by (auto simp: broken_off_def state_after_Cons[where f = f and x = x, OF assms(1)])
qed

lemma until_aborted_broken_off:
  "run_state (until_aborted env f xs) s = (ys, s') \<Longrightarrow> broken_off env f xs s (length ys)"
proof (induction xs arbitrary: s ys s')
  case Nil
  then show ?case by (simp add: broken_off_def)
next
  case (Cons x xs)
  obtain y s1 where y: "run_state (f x) s = (y, s1)" by fastforce
  show ?case
  proof (cases "signalAborted env (runWorld s1)")
    case True
    with Cons.prems y show ?thesis
      by (auto simp: broken_off_def aborted_def state_after_Cons[where f = f and x = x, OF y])
  next
    case False
    obtain ys' s2 where ys': "run_state (until_aborted env f xs) s1 = (ys', s2)" by fastforce
    with Cons.prems y False have "ys = y # ys'" by (simp add: aborted_def)
    with broken_off_Cons[OF y False Cons.IH[OF ys']] show ?thesis by simp
  qed
qed

lemma adds_result: "adds k m D \<Longrightarrow> run_state m s = (x, s') \<Longrightarrow> \<exists>es ns cs. D x es ns cs"
  by (erule addsE, assumption) blast

lemma sequential_broken_off:
  assumes "run_state (executeToolCallsSequential env cfg msg calls) s = ((rs, terminate), s')"
  shows "broken_off env (run_call_sequentially env cfg msg) calls s (length rs)"
proof -
  obtain fms s1 where fms: "run_state (sequential_calls env cfg msg calls) s = (fms, s1)" by fastforce
  with assms have "rs = map snd fms" by (simp add: executeToolCallsSequential_def)
  with until_aborted_broken_off[OF fms[unfolded sequential_until]] show ?thesis by simp
qed

lemma parallel_broken_off:
  assumes "run_state (executeToolCallsParallel env cfg msg calls) s = ((rs, terminate), s')"
  shows "broken_off env (prepare_entry env cfg msg) calls s (length rs)"
proof -
  obtain entries s1 where entries: "run_state (prepare_entries env cfg msg calls) s = (entries, s1)" by fastforce
  obtain fs s2 where fs: "run_state (all_settled env cfg msg entries) s1 = (fs, s2)" by fastforce
  obtain ms s3 where ms: "run_state (map_each (report_result env) fs) s2 = (ms, s3)" by fastforce
  from assms entries fs ms have "rs = ms" by (simp add: executeToolCallsParallel_def)
  moreover from adds_result[OF all_settled_adds[of False] fs] have "length fs = length entries"
    by (metis length_map)
  moreover from adds_result[OF map_each_report_adds[of False] ms] have "length ms = length fs"
    by (auto dest: list_all2_lengthD)
  ultimately show ?thesis
    using until_aborted_broken_off[OF entries[unfolded entries_until]] by simp
qed

text \<open>C6: A batch of tool calls, sequential or concurrent, in whatever order the tools advance, produces
  results for the calls' ids and tools in the order of the calls. It answers all of them, or, when the
  signal is found aborted after a call has been run (sequential) or prepared (concurrent), those up to
  the first such call; a batch that is never aborted answers every call. It adds nothing to the
  transcript itself, and the events it adds announce exactly these results and leave no call running.\<close>

theorem batch_answers:
  assumes "run_state (executeToolCalls env cfg msg) s = ((rs, terminate), s')"
    and "calls = tool_calls_of (asstContent msg)"
  shows "answers (take (length rs) calls) rs \<and>
    (if cfgToolExecution cfg = Some SequentialMode \<or> has_sequential_call (runContext s) calls
     then broken_off env (run_call_sequentially env cfg msg) calls s (length rs)
     else broken_off env (prepare_entry env cfg msg) calls s (length rs)) \<and>
    (never_aborted env \<longrightarrow> answers calls rs) \<and>
    ctxMessages (runContext s') = ctxMessages (runContext s) \<and> runNew s' = runNew s \<and>
    (\<exists>es. runEvents s' = runEvents s @ es \<and> reported rs es)"
proof -
  from assms have run: "run_state (if cfgToolExecution cfg = Some SequentialMode \<or> has_sequential_call (runContext s) calls
      then executeToolCallsSequential env cfg msg calls else executeToolCallsParallel env cfg msg calls) s = ((rs, terminate), s')"
    by (auto simp: executeToolCalls_def current_context_def Let_def split: if_splits)
  have "answered env calls rs" "ctxMessages (runContext s') = ctxMessages (runContext s)" "runNew s' = runNew s"
    "\<exists>es. runEvents s' = runEvents s @ es \<and> reported rs es"
    by (rule addsE[OF executeToolCalls_adds[of True] assms(1)], use assms(2) in auto)+
  with answered_take[OF this(1)] run show ?thesis
    by (auto simp: answered_def assms(2) dest: sequential_broken_off parallel_broken_off split: if_splits)
qed

theorem batch_answers_witness:
  "\<exists>rs t s'. run_state (executeToolCalls sample_env sample_config (sample_reply [ToolCallContent sample_call] ToolUseStop))
      (start_run sample_context [] 0) = ((rs, t), s') \<and> answers [sample_call] rs \<and> runNew s' = [] \<and>
      (\<exists>es. runEvents s' = es \<and> reported rs es)"
proof -
  have "never_aborted sample_env" by (simp add: never_aborted_def sample_env_def)
  obtain rs t s' where run: "run_state (executeToolCalls sample_env sample_config
      (sample_reply [ToolCallContent sample_call] ToolUseStop)) (start_run sample_context [] 0) = ((rs, t), s')"
    by (metis surj_pair)
  from batch_answers[OF run refl] \<open>never_aborted sample_env\<close>
  have "answers [sample_call] rs" "runNew s' = []" "\<exists>es. runEvents s' = es \<and> reported rs es"
    by (auto simp: sample_reply_def start_run_def)
  with run show ?thesis by blast
qed

text \<open>An action that does not look at the tools.\<close>

definition with_tools :: "'w agent_tool list option \<Rightarrow> 'w run \<Rightarrow> 'w run" where
  "with_tools ts s = s\<lparr>runContext := (runContext s)\<lparr>ctxTools := ts\<rparr>\<rparr>"

definition ignores_tools :: "('w run, 'a) state \<Rightarrow> bool" where
  "ignores_tools m \<longleftrightarrow> (\<forall>ts s. run_state m (with_tools ts s) = apsnd (with_tools ts) (run_state m s))"

lemma ignores_tools_bind:
  "ignores_tools m \<Longrightarrow> (\<And>x. ignores_tools (f x)) \<Longrightarrow> ignores_tools (State_Monad.bind m f)"
  unfolding ignores_tools_def by (simp add: split_beta)

lemma ignores_tools_intros:
  "ignores_tools (State_Monad.return x)" "ignores_tools (emit env e)" "ignores_tools (in_world m')"
  "ignores_tools (push_context m)" "ignores_tools (push_new m)"
  by (auto simp: ignores_tools_def with_tools_def emit_def in_world_def push_context_def push_new_def split_beta)

lemma ignores_tools_for_each: "(\<And>x. ignores_tools (f x)) \<Longrightarrow> ignores_tools (for_each f xs)"
  by (induction xs) (auto intro: ignores_tools_intros ignores_tools_bind)

lemma ignores_tools_map_each: "(\<And>x. ignores_tools (f x)) \<Longrightarrow> ignores_tools (map_each f xs)"
  by (induction xs) (auto intro!: ignores_tools_intros ignores_tools_bind)

lemma fail_truncated_call_ignores: "ignores_tools (fail_truncated_call env c)"
  unfolding fail_truncated_call_def emitToolExecutionStart_def emitToolExecutionEnd_def report_result_def
    createToolResultMessage_def emit_message_def Let_def
  by (intro ignores_tools_bind ignores_tools_intros)

lemma truncated_batch_ignores: "ignores_tools (failToolCallsFromTruncatedMessage env calls)"
  unfolding failToolCallsFromTruncatedMessage_def
  by (intro ignores_tools_bind ignores_tools_map_each fail_truncated_call_ignores ignores_tools_intros)

lemma fail_truncated_call_result:
  "run_state (fail_truncated_call env c) s = (m, s') \<Longrightarrow>
   resToolCallId m = callId c \<and> resToolName m = callName c \<and> resIsError m"
  by (auto simp: fail_truncated_call_def emitToolExecutionStart_def emitToolExecutionEnd_def report_result_def
      createToolResultMessage_def emit_message_def in_world_def emit_def split: prod.splits)

lemma fail_truncated_calls_results:
  "run_state (map_each (fail_truncated_call env) cs) s = (rs, s') \<Longrightarrow> answers cs rs \<and> list_all resIsError rs"
proof (induction cs arbitrary: rs s)
  case (Cons c cs)
  then show ?case
    by (auto simp: answers_def split: prod.splits dest!: fail_truncated_call_result)
qed (simp add: answers_def)

lemma push_results_ignores:
  "ignores_tools (do { for_each (\<lambda>r. do { push_context (ToolResultMessage r); push_new (ToolResultMessage r) }) rs;
     State_Monad.return x })"
  by (intro ignores_tools_bind ignores_tools_for_each ignores_tools_intros)

text \<open>The tool calls of a message cut off by the token limit are never executed: whatever tools and
  hooks are configured, the step does the same to the world, the events and the messages, fails every
  call (also when the run is aborted) and asks the model to go on.\<close>

theorem truncated_calls_not_executed:
  assumes "asstStopReason msg = LengthStop"
  shows "run_state (run_tool_calls env cfg' msg) (with_tools ts s) = apsnd (with_tools ts) (run_state (run_tool_calls env cfg msg) s) \<and>
    (case run_state (run_tool_calls env cfg msg) s of ((rs, hasMore), s') \<Rightarrow>
       answers (tool_calls_of (asstContent msg)) rs \<and> list_all resIsError rs \<and>
       (hasMore \<longleftrightarrow> tool_calls_of (asstContent msg) \<noteq> []))"
proof -
  have same: "run_tool_calls env cfg' msg = run_tool_calls env cfg msg"
    using assms by (simp add: run_tool_calls_def)
  have "ignores_tools (run_tool_calls env cfg msg)"
    unfolding run_tool_calls_def using assms
    by (simp add: ignores_tools_intros)
      (rule impI, rule ignores_tools_bind[OF truncated_batch_ignores], simp add: push_results_ignores split: prod.split)
  moreover have "case run_state (run_tool_calls env cfg msg) s of ((rs, hasMore), s') \<Rightarrow>
      answers (tool_calls_of (asstContent msg)) rs \<and> list_all resIsError rs \<and> (hasMore \<longleftrightarrow> tool_calls_of (asstContent msg) \<noteq> [])"
  proof (cases "tool_calls_of (asstContent msg) = []")
    case False
    obtain rs s1 where rs: "run_state (map_each (fail_truncated_call env) (tool_calls_of (asstContent msg))) s = (rs, s1)"
      by fastforce
    from fail_truncated_calls_results[OF rs] rs False assms show ?thesis
      by (simp add: run_tool_calls_def failToolCallsFromTruncatedMessage_def split_beta)
  qed (simp add: run_tool_calls_def answers_def)
  ultimately show ?thesis
    unfolding same by (simp add: ignores_tools_def)
qed

theorem truncated_calls_not_executed_witness:
  "snd (fst (run_state (run_tool_calls sample_env sample_config (sample_reply [ToolCallContent sample_call] LengthStop))
     (with_tools None (start_run sample_context [] 0))))"
proof -
  have "asstStopReason (sample_reply [ToolCallContent sample_call] LengthStop) = LengthStop" by (simp add: sample_reply_def)
  from truncated_calls_not_executed[OF this, of sample_env sample_config None "start_run sample_context [] 0" sample_config]
  show ?thesis by (simp add: sample_reply_def split_beta)
qed

subsection \<open>Termination\<close>

text \<open>The turns that have ended, with their messages and results.\<close>

fun turn_ends :: "agent_event list \<Rightarrow> (agent_message \<times> tool_result list) list" where
  "turn_ends [] = []"
| "turn_ends (TurnEnd m rs # es) = (m, rs) # turn_ends es"
| "turn_ends (e # es) = turn_ends es"

lemma turn_ends_append [simp]: "turn_ends (es @ fs) = turn_ends es @ turn_ends fs"
  by (induction es rule: turn_ends.induct) auto















end
