(* ===== verification/AgentView.thy ===== *)
theory AgentView
  imports AgentRuns
begin

section \<open>Observing a run\<close>

text \<open>
  The contract between the loop and whoever observes it in the world the loop runs in: a relation
  \<open>R w es w'\<close>, closed under composition, of what the events \<open>es\<close> may do to the world. When the sink moves
  the world by the event it is given and nothing else the loop calls moves it further than no event
  does, the whole run moves it by the run's events.
\<close>

type_synonym 'w moved = "'w \<Rightarrow> agent_event list \<Rightarrow> 'w \<Rightarrow> bool"

definition calm :: "'w moved \<Rightarrow> ('w, 'a) state \<Rightarrow> bool" where
  "calm R m \<longleftrightarrow> (\<forall>w. R w [] (snd (run_state m w)))"

definition tools_ok :: "('w agent_tool \<Rightarrow> bool) \<Rightarrow> 'w agent_context \<Rightarrow> bool" where
  "tools_ok tool_ok ctx \<longleftrightarrow> (\<forall>ts t. ctxTools ctx = Some ts \<longrightarrow> t \<in> set ts \<longrightarrow> tool_ok t)"

text \<open>\<open>tracks R ok m P\<close>: run with a context that is \<open>ok\<close>, \<open>m\<close> moves the world by the events it
  emits, leaves the context \<open>ok\<close>, and returns a value with \<open>P\<close>.\<close>

definition tracks :: "'w moved \<Rightarrow> ('w agent_context \<Rightarrow> bool) \<Rightarrow> ('w run, 'a) state \<Rightarrow> ('a \<Rightarrow> bool) \<Rightarrow> bool" where
  "tracks R ok m P \<longleftrightarrow> (\<forall>s x s'. run_state m s = (x, s') \<longrightarrow> ok (runContext s) \<longrightarrow> ok (runContext s') \<and> P x \<and>
     (\<exists>es. runEvents s' = runEvents s @ es \<and> R (runWorld s) es (runWorld s')))"

locale observer =
  fixes R :: "'w moved"
    and env :: "'w environment"
    and tool_ok :: "'w agent_tool \<Rightarrow> bool"
    and config_ok :: "'w loop_config \<Rightarrow> bool"
  assumes stay: "R w [] w"
    and move_on: "R w es w1 \<Longrightarrow> R w1 es2 w2 \<Longrightarrow> R w (es @ es2) w2"
    and sink: "R w [ev] (eventSink env ev w)"
    and environment_calm: "calm R (streamEvents env cfg key ctx)" "calm R (streamResult env)" "calm R (dateNow env)"
      "calm R (nextTask env)"
    and tool_calm: "tool_ok t \<Longrightarrow> calm R (toolUpdates t i args)" "tool_ok t \<Longrightarrow> calm R (toolOutcome t i args)"
      "tool_ok t \<Longrightarrow> toolPrepareArguments t = Some f \<Longrightarrow> calm R (f args)"
    and config_calm: "config_ok cfg \<Longrightarrow> calm R (cfgConvertToLlm cfg ms)"
      "config_ok cfg \<Longrightarrow> cfgTransformContext cfg = Some ft \<Longrightarrow> calm R (ft ms)"
      "config_ok cfg \<Longrightarrow> cfgGetApiKey cfg = Some fk \<Longrightarrow> calm R (fk provider)"
      "config_ok cfg \<Longrightarrow> cfgShouldStopAfterTurn cfg = Some fs \<Longrightarrow> calm R (fs tc)"
      "config_ok cfg \<Longrightarrow> cfgPrepareNextTurn cfg = Some fp \<Longrightarrow> calm R (fp tc)"
      "config_ok cfg \<Longrightarrow> cfgGetSteeringMessages cfg = Some fq \<Longrightarrow> calm R fq"
      "config_ok cfg \<Longrightarrow> cfgGetFollowUpMessages cfg = Some fq \<Longrightarrow> calm R fq"
      "config_ok cfg \<Longrightarrow> cfgBeforeToolCall cfg = Some fb \<Longrightarrow> calm R (fb tcc)"
      "config_ok cfg \<Longrightarrow> cfgAfterToolCall cfg = Some fa \<Longrightarrow> calm R (fa tcc r failed)"
    and config_changes: "config_ok cfg \<Longrightarrow> config_ok (cfg\<lparr>cfgModel := m, cfgReasoning := level\<rparr>)"
    and hook_tools: "config_ok cfg \<Longrightarrow> cfgPrepareNextTurn cfg = Some fp \<Longrightarrow> fst (run_state (fp tc) w) = Some u \<Longrightarrow>
      updateContext u = Some ctx \<Longrightarrow> tools_ok tool_ok ctx"
begin

abbreviation follows :: "('w run, 'a) state \<Rightarrow> ('a \<Rightarrow> bool) \<Rightarrow> bool" where
  "follows \<equiv> tracks R (tools_ok tool_ok)"

lemma follows_bind:
  assumes "follows m P" and "\<And>x. P x \<Longrightarrow> follows (f x) Q"
  shows "follows (State_Monad.bind m f) Q"
  unfolding tracks_def
proof (intro allI impI)
  fix s y s2
  assume run: "run_state (State_Monad.bind m f) s = (y, s2)" and ok: "tools_ok tool_ok (runContext s)"
  obtain x s1 where m: "run_state m s = (x, s1)" by fastforce
  with run have f: "run_state (f x) s1 = (y, s2)" by simp
  from assms(1) m ok obtain es where 1: "tools_ok tool_ok (runContext s1)" "P x" "runEvents s1 = runEvents s @ es"
    "R (runWorld s) es (runWorld s1)"
    unfolding tracks_def by meson
  from assms(2)[OF 1(2)] f 1(1) obtain es' where "tools_ok tool_ok (runContext s2)" "Q y" "runEvents s2 = runEvents s1 @ es'"
    "R (runWorld s1) es' (runWorld s2)"
    unfolding tracks_def by meson
  with 1 show "tools_ok tool_ok (runContext s2) \<and> Q y \<and>
      (\<exists>es. runEvents s2 = runEvents s @ es \<and> R (runWorld s) es (runWorld s2))"
    by (intro conjI exI[of _ "es @ es'"]) (auto intro: move_on)
qed

lemma followsE:
  assumes "follows m P" and "run_state m s = (x, s')" and "tools_ok tool_ok (runContext s)" and "runEvents s = []"
  shows "R (runWorld s) (runEvents s') (runWorld s')"
  using assms unfolding tracks_def by fastforce

lemma follows_return: "P x \<Longrightarrow> follows (State_Monad.return x) P"
  by (auto simp: tracks_def stay)

lemma follows_emit: "follows (emit env e) (\<lambda>_. True)"
  by (auto simp: tracks_def stay emit_def sink intro!: exI[of _ "[e]"])

lemma follows_in_world: "calm R m \<Longrightarrow> follows (in_world m) (\<lambda>_. True)"
  by (auto simp: tracks_def in_world_def calm_def split: prod.splits) (metis snd_conv)+

lemma follows_aborted: "follows (aborted env) (\<lambda>_. True)"
  by (auto simp: tracks_def stay aborted_def)

lemma follows_context: "follows current_context (tools_ok tool_ok)"
  by (auto simp: tracks_def stay current_context_def)

lemma follows_new_messages: "follows new_messages (\<lambda>_. True)"
  by (auto simp: tracks_def stay new_messages_def)

lemma follows_push_context: "follows (push_context m) (\<lambda>_. True)"
  by (auto simp: tracks_def stay push_context_def tools_ok_def)

lemma follows_replace_last: "follows (replace_last m) (\<lambda>_. True)"
  by (auto simp: tracks_def stay replace_last_def tools_ok_def)

lemma follows_push_new: "follows (push_new m) (\<lambda>_. True)"
  by (auto simp: tracks_def stay push_new_def)

lemma follows_set_context: "tools_ok tool_ok c \<Longrightarrow> follows (set_context c) (\<lambda>_. True)"
  by (auto simp: tracks_def stay set_context_def)

lemma follows_weaken: "follows m P \<Longrightarrow> (\<And>x. P x \<Longrightarrow> Q x) \<Longrightarrow> follows m Q"
  unfolding tracks_def by blast

lemma follows_True: "follows m P \<Longrightarrow> follows m (\<lambda>_. True)"
  by (rule follows_weaken) simp_all

text \<open>Sequencing where the first result does not matter.\<close>

lemma follows_then: "follows m (\<lambda>_. True) \<Longrightarrow> (\<And>x. follows (f x) Q) \<Longrightarrow> follows (State_Monad.bind m f) Q"
  by (rule follows_bind)

lemma follows_for_each: "(\<And>x. follows (f x) (\<lambda>_. True)) \<Longrightarrow> follows (for_each f xs) (\<lambda>_. True)"
  by (induction xs) (auto intro: follows_return follows_then)

lemma follows_map_each: "(\<And>x. P x \<Longrightarrow> follows (f x) Q) \<Longrightarrow> list_all P xs \<Longrightarrow> follows (map_each f xs) (list_all Q)"
proof (induction xs)
  case (Cons x xs)
  then have 1: "follows (f x) Q" and 2: "follows (map_each f xs) (list_all Q)" by auto
  show ?case
    unfolding map_each.simps by (rule follows_bind[OF 1], rule follows_bind[OF 2], rule follows_return) simp
qed (simp add: follows_return)

lemmas follows_rules = follows_then follows_return follows_emit follows_in_world follows_aborted follows_new_messages
  follows_push_context follows_replace_last follows_push_new

lemma follows_emit_message: "follows (emit_message env m) (\<lambda>_. True)"
  unfolding emit_message_def by (intro follows_rules)

lemma follows_consume_stream: "follows (consume_stream env started es) (\<lambda>_. True)"
proof -
  have finish: "follows (finish_stream env b) (\<lambda>_. True)" for b
    unfolding finish_stream_def by (auto intro!: follows_rules environment_calm)
  show ?thesis
  proof (induction es arbitrary: started)
    case (Cons e es)
    then show ?case
      by (cases e; cases started) (auto intro!: follows_rules finish)
  qed (simp add: finish)
qed

lemma follows_stream:
  assumes "config_ok cfg"
  shows "follows (streamAssistantResponse env cfg) (\<lambda>_. True)"
proof -
  have key: "follows (resolve_api_key cfg) (\<lambda>_. True)"
    using assms unfolding resolve_api_key_def
    by (auto intro!: follows_rules config_calm split: option.split)
  show ?thesis
    using assms unfolding streamAssistantResponse_def
    by (auto intro!: follows_bind[OF follows_context] follows_rules key follows_consume_stream config_calm(1,2) environment_calm
        split: option.split)
qed

subsection \<open>Tool calls\<close>

fun preparation_ok :: "'w preparation \<Rightarrow> bool" where
  "preparation_ok (Prepared p) = tool_ok (prepTool p)"
| "preparation_ok (Immediate r b) = True"

lemma follows_create_message: "follows (createToolResultMessage env f) (\<lambda>_. True)"
  unfolding createToolResultMessage_def by (auto intro!: follows_rules environment_calm)

lemma follows_report: "follows (report_result env f) (\<lambda>_. True)"
  unfolding report_result_def by (auto intro!: follows_rules follows_create_message follows_emit_message)

lemma follows_start_event: "follows (emitToolExecutionStart env c) (\<lambda>_. True)"
  unfolding emitToolExecutionStart_def by (rule follows_emit)

lemma follows_end_event: "follows (emitToolExecutionEnd env f) (\<lambda>_. True)"
  unfolding emitToolExecutionEnd_def by (rule follows_emit)

lemma find_tool_ok: "tools_ok tool_ok ctx \<Longrightarrow> find_tool ctx name = Some t \<Longrightarrow> tool_ok t"
  by (auto simp: tools_ok_def find_tool_def find_Some_iff split: option.splits)

lemma follows_prepare:
  assumes "config_ok cfg"
  shows "follows (prepareToolCall env cfg msg c) preparation_ok"
proof -
  have error: "follows (error_outcome e) preparation_ok" for e
    unfolding error_outcome_def by (rule follows_return) simp
  have unless: "follows (unless_aborted env m) preparation_ok" if "follows m preparation_ok" for m
    unfolding unless_aborted_def using that by (auto intro!: follows_then[OF follows_aborted] error)
  have blocked: "follows (blocked_outcome b) preparation_ok" for b
    unfolding blocked_outcome_def Let_def by (rule follows_return) simp
  have hook: "follows (run_before_hook env cfg msg c args rest) preparation_ok" if "\<And>a. follows (rest a) preparation_ok" for args rest
    using that assms unfolding run_before_hook_def
    by (auto intro!: follows_bind[OF follows_context] follows_then[OF follows_in_world] config_calm error unless blocked
        split: option.split sum.split)
  have args: "follows (prepareToolCallArguments tool c) (\<lambda>_. True)" if "tool_ok tool" for tool
    using that unfolding prepareToolCallArguments_def
    by (auto intro!: follows_rules tool_calm split: option.split)
  have prepared: "follows (State_Monad.return (Prepared \<lparr>prepCall = c, prepTool = tool, prepArgs = args\<rparr>)) preparation_ok"
    if "tool_ok tool" for tool args
    using that by (intro follows_return) simp
  show ?thesis
    unfolding prepareToolCall_def
    by (rule follows_bind[OF follows_context])
      (auto intro!: follows_then[OF args] error unless hook prepared split: option.split sum.split dest: find_tool_ok)
qed

lemma follows_start_tool: "tool_ok (prepTool p) \<Longrightarrow> follows (start_tool p) (\<lambda>_. True)"
  unfolding start_tool_def by (intro follows_in_world tool_calm)

lemma follows_settle: "tool_ok (prepTool p) \<Longrightarrow> follows (settle_tool p) (\<lambda>_. True)"
  unfolding settle_tool_def by (auto intro!: follows_rules tool_calm)

lemma follows_finalize: "config_ok cfg \<Longrightarrow> follows (finalizeExecutedToolCall cfg msg p executed) (\<lambda>_. True)"
  unfolding finalizeExecutedToolCall_def
  by (auto intro!: follows_bind[OF follows_context] follows_rules config_calm split: option.split)

lemma follows_sequential_call:
  assumes "config_ok cfg"
  shows "follows (run_call_sequentially env cfg msg c) (\<lambda>_. True)"
proof -
  have execute: "follows (executePreparedToolCall env p) (\<lambda>_. True)" if "tool_ok (prepTool p)" for p
    using that unfolding executePreparedToolCall_def emit_update_def
    by (auto intro!: follows_rules follows_start_tool follows_settle follows_for_each)
  have "follows (case preparation of Immediate r e \<Rightarrow> State_Monad.return \<lparr>finCall = c, finResult = r, finIsError = e\<rparr>
      | Prepared p \<Rightarrow> do { executed \<leftarrow> executePreparedToolCall env p; finalizeExecutedToolCall cfg msg p executed }) (\<lambda>_. True)"
    if "preparation_ok preparation" for preparation
    using that by (cases preparation) (auto intro!: follows_rules execute follows_finalize[OF assms])
  then show ?thesis
    unfolding run_call_sequentially_def
    by (auto intro!: follows_then[OF follows_start_event] follows_bind[OF follows_prepare[OF assms]] follows_then
        follows_end_event follows_report follows_return)
qed

lemma follows_sequential:
  assumes "config_ok cfg"
  shows "follows (executeToolCallsSequential env cfg msg calls) (\<lambda>_. True)"
proof -
  have "follows (sequential_calls env cfg msg calls) (\<lambda>_. True)" for calls
  proof (induction calls)
    case (Cons c cs)
    then show ?case
      by (auto intro!: follows_rules follows_sequential_call[OF assms])
  qed (simp add: follows_return)
  then show ?thesis
    unfolding executeToolCallsSequential_def by (auto intro!: follows_rules)
qed

subsection \<open>Concurrent tools\<close>

fun entry_ok :: "'w call_entry \<Rightarrow> bool" where
  "entry_ok (Closure p) = tool_ok (prepTool p)"
| "entry_ok (Ready f) = True"

fun task_ok :: "'w task \<Rightarrow> bool" where
  "task_ok (Reporting p us) = tool_ok (prepTool p)"
| "task_ok t = True"

lemma follows_prepare_entries:
  assumes "config_ok cfg"
  shows "follows (prepare_entries env cfg msg calls) (list_all entry_ok)"
proof -
  have "follows (case preparation of Immediate r e \<Rightarrow> do { let f = \<lparr>finCall = c, finResult = r, finIsError = e\<rparr>;
        emitToolExecutionEnd env f; State_Monad.return (Ready f) } | Prepared p \<Rightarrow> State_Monad.return (Closure p)) entry_ok"
    if "preparation_ok preparation" for preparation c
    using that by (cases preparation) (auto simp: Let_def intro!: follows_then[OF follows_end_event] follows_return)
  then have entry: "follows (prepare_entry env cfg msg c) entry_ok" for c
    unfolding prepare_entry_def
    by (auto intro!: follows_then[OF follows_start_event] follows_bind[OF follows_prepare[OF assms]])
  show ?thesis
  proof (induction calls)
    case (Cons c cs)
    then show ?case
      by (auto intro!: follows_bind[OF entry] follows_then[OF follows_aborted] follows_bind[of "prepare_entries env cfg msg cs"]
          follows_return)
  qed (simp add: follows_return)
qed

lemma follows_start_entry: "entry_ok e \<Longrightarrow> follows (start_entry e) task_ok"
  unfolding start_entry_def
  by (cases e) (auto intro!: follows_then[OF follows_start_tool] follows_return)

lemma follows_advance:
  assumes "config_ok cfg" and "task_ok t"
  shows "follows (advance env cfg msg t) task_ok"
proof (cases t)
  case (Reporting p us)
  with assms show ?thesis
    by (cases us) (auto simp: emit_update_def intro!: follows_then[OF follows_emit] follows_then[OF follows_settle] follows_return)
next
  case (Executed p executed)
  then show ?thesis by (auto intro!: follows_then[OF follows_finalize[OF assms(1)]] follows_return)
next
  case (Finishing f)
  then show ?thesis by (auto intro!: follows_then[OF follows_end_event] follows_return)
next
  case (Finished f)
  then show ?thesis by (auto intro!: follows_return)
qed

lemma follows_run_tasks:
  assumes "config_ok cfg"
  shows "list_all task_ok ts \<Longrightarrow> n = sum_list (map steps_left ts) \<Longrightarrow> follows (run_tasks env cfg msg n ts) (\<lambda>_. True)"
proof (induction n arbitrary: ts)
  case (Suc n)
  show ?case
    unfolding run_tasks.simps Let_def
  proof (rule follows_then[OF follows_in_world[OF environment_calm(4)]])
    fix j
    let ?i = "unfinished ts ! (j mod length (unfinished ts))"
    have i: "?i < length ts" "steps_left (ts ! ?i) > 0"
      using unfinished_nth[of ts j] Suc.prems(2) by auto
    then have ok: "task_ok (ts ! ?i)" using Suc.prems(1) by (simp add: list_all_length)
    obtain q where q: "sum_list (map steps_left ts) = q + steps_left (ts ! ?i)"
      "\<And>t. sum_list (map steps_left (ts[?i := t])) = q + steps_left t"
      using sum_list_update_split[OF i(1), of steps_left] by blast
    have less: "follows (advance env cfg msg (ts ! ?i)) (\<lambda>t. task_ok t \<and> Suc (steps_left t) = steps_left (ts ! ?i))"
      using follows_advance[OF assms ok, of msg] advance_adds[OF i(2), of False env cfg msg]
      unfolding tracks_def adds_def by meson
    show "follows (advance env cfg msg (ts ! ?i) \<bind> (\<lambda>t. run_tasks env cfg msg n (ts[?i := t]))) (\<lambda>_. True)"
      by (rule follows_bind[OF less], rule Suc.IH)
        (use Suc.prems q i(1) in \<open>auto simp: list_all_length nth_list_update\<close>)
  qed
qed (simp add: follows_return)

lemma follows_parallel:
  assumes "config_ok cfg"
  shows "follows (executeToolCallsParallel env cfg msg calls) (\<lambda>_. True)"
proof -
  have settled: "follows (all_settled env cfg msg entries) (\<lambda>_. True)" if "list_all entry_ok entries" for entries
    unfolding all_settled_def
    by (rule follows_bind[OF follows_map_each[OF follows_start_entry that]])
      (auto intro!: follows_then[OF follows_run_tasks[OF assms]] follows_return)
  have reports: "follows (map_each (report_result env) fs) (\<lambda>_. True)" for fs
    by (rule follows_True[OF follows_map_each[where P = "\<lambda>_. True"]]) (auto intro: follows_report simp: list_all_iff)
  show ?thesis
    unfolding executeToolCallsParallel_def
    by (rule follows_bind[OF follows_prepare_entries[OF assms]]) (auto intro!: follows_rules settled reports)
qed

lemma follows_tool_calls:
  assumes "config_ok cfg"
  shows "follows (run_tool_calls env cfg msg) (\<lambda>_. True)"
proof -
  have truncated: "follows (failToolCallsFromTruncatedMessage env calls) (\<lambda>_. True)" for calls
  proof -
    have "follows (fail_truncated_call env c) (\<lambda>_. True)" for c
      unfolding fail_truncated_call_def Let_def
      by (auto intro!: follows_then[OF follows_start_event] follows_then[OF follows_end_event] follows_report)
    from follows_map_each[where P = "\<lambda>_. True", OF this] show ?thesis
      unfolding failToolCallsFromTruncatedMessage_def
      by (auto intro!: follows_bind[of "map_each (fail_truncated_call env) calls"] follows_return simp: list_all_iff)
  qed
  have batch: "follows (executeToolCalls env cfg msg) (\<lambda>_. True)"
    unfolding executeToolCalls_def Let_def
    by (rule follows_bind[OF follows_context]) (auto intro: follows_sequential[OF assms] follows_parallel[OF assms])
  show ?thesis
    unfolding run_tool_calls_def
    by (auto intro!: follows_rules follows_for_each truncated batch)
qed

subsection \<open>Turns and runs\<close>

lemma follows_snapshot: "follows (turn_snapshot msg results) (\<lambda>_. True)"
  unfolding turn_snapshot_def by (auto intro!: follows_bind[OF follows_context] follows_rules)

lemma follows_update:
  assumes "config_ok cfg" and "\<And>ctx. updateContext u = Some ctx \<Longrightarrow> tools_ok tool_ok ctx"
  shows "follows (apply_turn_update cfg u) config_ok"
proof -
  have ctx: "follows (case updateContext u of None \<Rightarrow> State_Monad.return () | Some ctx \<Rightarrow> set_context ctx) (\<lambda>_. True)"
    using assms(2) by (auto intro!: follows_return follows_set_context split: option.split)
  show ?thesis
    unfolding apply_turn_update_def
    by (rule follows_then[OF ctx], rule follows_return, rule config_changes[OF assms(1)])
qed

lemma follows_next_turn:
  assumes "config_ok cfg"
  shows "follows (prepare_next_turn cfg msg results) config_ok"
proof (cases "cfgPrepareNextTurn cfg")
  case (Some f)
  have "follows (in_world (f tc)) (\<lambda>u. \<forall>v ctx. u = Some v \<longrightarrow> updateContext v = Some ctx \<longrightarrow> tools_ok tool_ok ctx)" for tc
    using hook_tools[OF assms Some] follows_in_world[OF config_calm(5)[OF assms Some], of tc]
    unfolding tracks_def in_world_def by (auto split: prod.splits) (metis fst_conv)+
  then show ?thesis
    unfolding prepare_next_turn_def Some option.case
    by (rule follows_then[OF follows_snapshot, OF follows_bind])
      (auto intro!: follows_return follows_update assms split: option.split)
qed (simp add: prepare_next_turn_def follows_return assms)

lemma follows_should_stop: "config_ok cfg \<Longrightarrow> follows (should_stop cfg msg results) (\<lambda>_. True)"
  unfolding should_stop_def
  by (auto intro!: follows_rules follows_snapshot config_calm(4) split: option.split)

lemma follows_poll: "(\<And>f. callback = Some f \<Longrightarrow> calm R f) \<Longrightarrow> follows (poll callback) (\<lambda>_. True)"
  unfolding poll_def by (auto intro!: follows_rules split: option.split)

lemma follows_end_run: "follows (end_run env) (\<lambda>_. True)"
  unfolding end_run_def by (auto intro!: follows_rules)

fun outcome_ok :: "'w turn_outcome \<Rightarrow> bool" where
  "outcome_ok RunEnded = True"
| "outcome_ok (Continue cfg hasMore pending) = config_ok cfg"

lemma follows_turn:
  assumes "config_ok cfg"
  shows "follows (run_turn env cfg firstTurn pending) outcome_ok"
proof -
  have start: "follows (if firstTurn then State_Monad.return () else emit env TurnStart) (\<lambda>_. True)"
    by (auto intro!: follows_rules)
  have inject_all: "follows (for_each (inject env) pending) (\<lambda>_. True)"
    unfolding inject_def by (auto intro!: follows_for_each follows_rules follows_emit_message)
  have rest: "follows (do { emit env (TurnEnd (AssistantMessage msg) results);
           cfg' \<leftarrow> prepare_next_turn cfg msg results;
           stop \<leftarrow> should_stop cfg' msg results;
           (if stop then do { end_run env; State_Monad.return RunEnded }
            else do { pending' \<leftarrow> poll (cfgGetSteeringMessages cfg'); State_Monad.return (Continue cfg' hasMore pending') }) })
      outcome_ok" for msg results hasMore
    by (rule follows_then[OF follows_emit], rule follows_bind[OF follows_next_turn[OF assms]],
        rule follows_then[OF follows_should_stop], assumption)
      (auto intro!: follows_then[OF follows_end_run] follows_then[OF follows_poll] follows_return config_calm(6))
  show ?thesis
    unfolding run_turn_def
    by (rule follows_then[OF start], rule follows_then[OF inject_all], rule follows_then[OF follows_stream[OF assms]],
        rule follows_then[OF follows_push_new])
      (auto intro!: follows_then[OF follows_emit] follows_then[OF follows_end_run] follows_return
        follows_then[OF follows_tool_calls[OF assms]] rest)
qed

lemma follows_turns: "config_ok cfg \<Longrightarrow> follows (turns env fuel cfg firstTurn hasMore pending) (\<lambda>_. True)"
proof (induction fuel arbitrary: cfg firstTurn hasMore pending)
  case (Suc n)
  have "follows (case out of RunEnded \<Rightarrow> State_Monad.return True
      | Continue cfg' hasMore' pending' \<Rightarrow> turns env n cfg' False hasMore' pending') (\<lambda>_. True)" if "outcome_ok out" for out
    using that by (cases out) (auto intro!: follows_return Suc.IH)
  with Suc.prems show ?case
    by (auto intro!: follows_bind[OF follows_turn] follows_then[OF follows_poll] follows_then[OF follows_end_run] follows_return Suc.IH
        config_calm(7))
qed (simp add: follows_return)

lemma follows_run: "config_ok cfg \<Longrightarrow> follows (do { announce_run env prompts; runLoop env fuel cfg }) (\<lambda>_. True)"
  unfolding announce_run_def runLoop_def
  by (auto intro!: follows_rules follows_for_each follows_emit_message follows_then[OF follows_poll] follows_turns config_calm(6))

theorem run_moves:
  assumes "config_ok cfg" and "tools_ok tool_ok ctx"
    and "run_state (do { announce_run env prompts; runLoop env fuel cfg }) (start_run ctx new w) = (b, s)"
  shows "R w (runEvents s) (runWorld s)"
  using followsE[OF follows_run[OF assms(1)] assms(3)] assms(2) by (simp add: start_run_def)

end

end
