(* ===== verification/Agent.thy ===== *)
theory Agent
  imports AgentView
begin

section \<open>The agent\<close>

text \<open>
  \<^verbatim>\<open>packages/agent/src/agent.ts\<close>: the stateful wrapper around the loop. An agent owns the transcript, what
  its observers see of the running turn, two queues of messages to inject, and at most one active run.
  What the model stream, the tools, the hooks and the listeners do is an act on the agent: it may read
  all of it, queue messages, abort the run, assign the transcript (\<^verbatim>\<open>agent.state.messages = ...\<close>), change
  the world outside, and throw. The other fields of the state are read-only to them. The system prompt,
  the model, the thinking level, the tools and the set of listeners are options here: a run takes them as
  they are when it starts, and their reassignment while it runs is not modelled.
\<close>

subsection \<open>Queues\<close>

datatype queue_mode = AllMode | OneAtATimeMode

record pending_queue =
  queueMessages :: "agent_message list"
  queueMode :: queue_mode

definition new_queue :: "queue_mode \<Rightarrow> pending_queue" where
  "new_queue mode = \<lparr>queueMessages = [], queueMode = mode\<rparr>"

definition enqueue :: "pending_queue \<Rightarrow> agent_message \<Rightarrow> pending_queue" where
  "enqueue q m = q\<lparr>queueMessages := queueMessages q @ [m]\<rparr>"

definition hasItems :: "pending_queue \<Rightarrow> bool" where
  "hasItems q \<longleftrightarrow> queueMessages q \<noteq> []"

definition drain :: "pending_queue \<Rightarrow> agent_message list \<times> pending_queue" where
  "drain q =
     (if queueMode q = AllMode then (queueMessages q, q\<lparr>queueMessages := []\<rparr>)
      else (case queueMessages q of
              [] \<Rightarrow> ([], q)
            | first # rest \<Rightarrow> ([first], q\<lparr>queueMessages := rest\<rparr>)))"

definition clear_queue :: "pending_queue \<Rightarrow> pending_queue" where
  "clear_queue q = q\<lparr>queueMessages := []\<rparr>"

subsection \<open>State\<close>

record 'x shared =
  steeringQueue :: pending_queue
  followUpQueue :: pending_queue
  abortRequested :: bool
  outside :: 'x

record 'x agent =
  agentMessages :: "agent_message list"
  isStreaming :: bool
  streamingMessage :: "agent_message option"
  pendingToolCalls :: "string set"
  errorMessage :: "string option"
  activeRun :: bool
  skipInitialSteeringPoll :: bool
  agentShared :: "'x shared"

text \<open>An act from outside, of which the agent takes over what is assignable; and one that may throw.\<close>

type_synonym ('x, 'a) act = "'x agent \<Rightarrow> 'a \<times> 'x agent"

type_synonym ('x, 'a) effect = "('x, string + 'a) act"

definition outside_act :: "('x, 'a) act \<Rightarrow> ('x, 'a) act" where
  "outside_act f a = (case f a of (x, b) \<Rightarrow> (x, a\<lparr>agentMessages := agentMessages b, agentShared := agentShared b\<rparr>))"

text \<open>
  The world of a run: the agent; once something the loop does not catch has thrown, the error with the
  agent as it then was, which is what the executor of the run rejects with; and the rejections of update
  events whose tools are still running, by the call's id, which \<^verbatim>\<open>executePreparedToolCall\<close> throws when
  the tool has settled. After a failure nothing acts any more: what the loop's model still does is
  without effect but for the reduction of its events, and is dropped by the executor.
\<close>

record 'x running =
  runningAgent :: "'x agent"
  runningFailure :: "(string \<times> 'x agent) option"
  updateFailures :: "(string \<times> string) list"

definition failed_with :: "string \<Rightarrow> 'x running \<Rightarrow> 'x running" where
  "failed_with e r = r\<lparr>runningFailure := Some (e, runningAgent r)\<rparr>"

text \<open>An act whose exceptions, if any, are in its result; and one whose exception fails the run. \<open>d\<close>: the
  value the model goes on with after a failure.\<close>

definition acting :: "'a \<Rightarrow> ('x, 'a) act \<Rightarrow> ('x running, 'a) state" where
  "acting d f = State (\<lambda>r. if runningFailure r \<noteq> None then (d, r)
     else (case f (runningAgent r) of (x, a) \<Rightarrow> (x, r\<lparr>runningAgent := a\<rparr>)))"

definition throwing :: "'a \<Rightarrow> ('x, 'a) effect \<Rightarrow> ('x running, 'a) state" where
  "throwing d f = State (\<lambda>r. case run_state (acting (Inr d) (outside_act f)) r of
     (Inl e, r) \<Rightarrow> (d, failed_with e r)
   | (Inr x, r) \<Rightarrow> (x, r))"

definition settling :: "string \<Rightarrow> ('x, 'a) effect \<Rightarrow> ('x running, string + 'a) state" where
  "settling i f = State (\<lambda>r. case run_state (acting (Inl []) (outside_act f)) r of
     (x, r) \<Rightarrow> (case map_of (updateFailures r) i of
         Some e \<Rightarrow> if runningFailure r = None then (Inl e, failed_with e r) else (x, r)
       | None \<Rightarrow> (x, r)))"

record 'x tool_source =
  srcName :: string
  srcMode :: "execution_mode option"
  srcPrepareArguments :: "(js_value \<Rightarrow> ('x, js_value) effect) option"
  srcUpdates :: "string \<Rightarrow> js_value \<Rightarrow> ('x, agent_tool_result list) act"
  srcOutcome :: "string \<Rightarrow> js_value \<Rightarrow> ('x, agent_tool_result) effect"

definition tool_of :: "'x tool_source \<Rightarrow> 'x running agent_tool" where
  "tool_of t = \<lparr>toolName = srcName t, toolMode = srcMode t,
     toolPrepareArguments = map_option (\<lambda>f args. acting (Inl []) (outside_act (f args))) (srcPrepareArguments t),
     toolUpdates = (\<lambda>i args. acting [] (outside_act (srcUpdates t i args))),
     toolOutcome = (\<lambda>i args. settling i (srcOutcome t i args))\<rparr>"

text \<open>A context a hook may return.\<close>

record 'x context_source =
  srcSystemPrompt :: string
  srcMessages :: "agent_message list"
  srcTools :: "'x tool_source list option"

definition context_of :: "'x context_source \<Rightarrow> 'x running agent_context" where
  "context_of c = \<lparr>ctxSystemPrompt = srcSystemPrompt c, ctxMessages = srcMessages c,
     ctxTools = map_option (map tool_of) (srcTools c)\<rparr>"

record 'x update_source =
  srcContext :: "'x context_source option"
  srcModel :: "model_ref option"
  srcThinkingLevel :: "string option"

definition update_of :: "'x update_source \<Rightarrow> 'x running turn_update" where
  "update_of u = \<lparr>updateContext = map_option context_of (srcContext u), updateModel = srcModel u,
     updateThinkingLevel = srcThinkingLevel u\<rparr>"

text \<open>What the agent is configured with, and what the loop runs in.\<close>

record 'x agent_options =
  optSystemPrompt :: string
  optModel :: model_ref
  optThinkingLevel :: string
  optTools :: "'x tool_source list"
  optToolExecution :: execution_mode
  optConvertToLlm :: "agent_message list \<Rightarrow> ('x, agent_message list) effect"
  optTransformContext :: "(agent_message list \<Rightarrow> ('x, agent_message list) effect) option"
  optGetApiKey :: "(string \<Rightarrow> ('x, string option) effect) option"
  optShouldStopAfterTurn :: "('x running turn_context \<Rightarrow> ('x, bool) effect) option"
  optPrepareNextTurn :: "('x, 'x update_source option) effect option"
  optPrepareNextTurnWithContext :: "('x running turn_context \<Rightarrow> ('x, 'x update_source option) effect) option"
  optBeforeToolCall :: "('x running tool_call_context \<Rightarrow> ('x, js_value \<times> (string + before_result option)) act) option"
  optAfterToolCall :: "('x running tool_call_context \<Rightarrow> agent_tool_result \<Rightarrow> bool \<Rightarrow> ('x, after_result option) effect) option"
  optStreamEvents :: "'x running loop_config \<Rightarrow> string option \<Rightarrow> 'x running agent_context \<Rightarrow> ('x, assistant_event list) effect"
  optStreamResult :: "('x, assistant_message) effect"
  optListeners :: "(agent_event \<Rightarrow> ('x, unit) effect) list"
  optNow :: "('x, int) act"
  optValidate :: "'x running agent_tool \<Rightarrow> tool_call \<Rightarrow> string + js_value"
  optNextTask :: "('x, nat) act"

definition defaultConvertToLlm :: "agent_message list \<Rightarrow> agent_message list" where
  "defaultConvertToLlm messages = filter (\<lambda>m. role_of m \<in> {UserRole, AssistantRole, ToolResultRole}) messages"

subsection \<open>Public operations\<close>

definition steer :: "agent_message \<Rightarrow> 'x shared \<Rightarrow> 'x shared" where
  "steer m sh = sh\<lparr>steeringQueue := enqueue (steeringQueue sh) m\<rparr>"

definition followUp :: "agent_message \<Rightarrow> 'x shared \<Rightarrow> 'x shared" where
  "followUp m sh = sh\<lparr>followUpQueue := enqueue (followUpQueue sh) m\<rparr>"

definition clearAllQueues :: "'x shared \<Rightarrow> 'x shared" where
  "clearAllQueues sh = sh\<lparr>steeringQueue := clear_queue (steeringQueue sh), followUpQueue := clear_queue (followUpQueue sh)\<rparr>"

definition hasQueuedMessages :: "'x shared \<Rightarrow> bool" where
  "hasQueuedMessages sh \<longleftrightarrow> hasItems (steeringQueue sh) \<or> hasItems (followUpQueue sh)"

definition abort_run :: "'x agent \<Rightarrow> 'x agent" where
  "abort_run a = (if activeRun a then a\<lparr>agentShared := (agentShared a)\<lparr>abortRequested := True\<rparr>\<rparr> else a)"

definition reset_agent :: "'x agent \<Rightarrow> string + 'x agent" where
  "reset_agent a =
     (if activeRun a then Inl ''Agent is already processing. Wait for completion before resetting.''
      else Inr (a\<lparr>agentMessages := [], isStreaming := False, streamingMessage := None, pendingToolCalls := {},
                 errorMessage := None, agentShared := clearAllQueues (agentShared a)\<rparr>))"

subsection \<open>Events\<close>

fun process_view :: "agent_event \<Rightarrow> 'x agent \<Rightarrow> 'x agent" where
  "process_view (MessageStart m) a = a\<lparr>streamingMessage := Some m\<rparr>"
| "process_view (MessageUpdate m e) a = a\<lparr>streamingMessage := Some m\<rparr>"
| "process_view (MessageEnd m) a = a\<lparr>streamingMessage := None, agentMessages := agentMessages a @ [m]\<rparr>"
| "process_view (ToolExecutionStart i name args) a = a\<lparr>pendingToolCalls := insert i (pendingToolCalls a)\<rparr>"
| "process_view (ToolExecutionEnd i name result e) a = a\<lparr>pendingToolCalls := pendingToolCalls a - {i}\<rparr>"
| "process_view (TurnEnd m results) a =
     (case m of
        AssistantMessage am \<Rightarrow>
          (case asstErrorMessage am of
             None \<Rightarrow> a
           | Some e \<Rightarrow> if e = [] then a else a\<lparr>errorMessage := Some e\<rparr>)
      | _ \<Rightarrow> a)"
| "process_view (AgentEnd ms) a = a\<lparr>streamingMessage := None\<rparr>"
| "process_view _ a = a"

text \<open>The listeners are awaited in turn; the first that throws or rejects fails the event.\<close>

primrec notify :: "(agent_event \<Rightarrow> ('x, unit) effect) list \<Rightarrow> agent_event \<Rightarrow> 'x agent \<Rightarrow> string option \<times> 'x agent" where
  "notify [] e a = (None, a)"
| "notify (l # ls) e a =
     (case outside_act (l e) a of
        (Inl err, a) \<Rightarrow> (Some err, a)
      | (Inr u, a) \<Rightarrow> notify ls e a)"

definition processEvents :: "'x agent_options \<Rightarrow> agent_event \<Rightarrow> 'x agent \<Rightarrow> string option \<times> 'x agent" where
  "processEvents opts e a =
     (let a = process_view e a in
      if activeRun a then notify (optListeners opts) e a
      else (Some ''Agent listener invoked outside active run'', a))"

text \<open>The sink of a run. An update event is not awaited where it is emitted.\<close>

definition agent_sink :: "'x agent_options \<Rightarrow> agent_event \<Rightarrow> 'x running \<Rightarrow> 'x running" where
  "agent_sink opts e r =
     (if runningFailure r \<noteq> None then r\<lparr>runningAgent := process_view e (runningAgent r)\<rparr>
      else (case processEvents opts e (runningAgent r) of
              (None, a) \<Rightarrow> r\<lparr>runningAgent := a\<rparr>
            | (Some err, a) \<Rightarrow>
                (case e of
                   ToolExecutionUpdate i name args partial \<Rightarrow>
                     r\<lparr>runningAgent := a, updateFailures := updateFailures r @ [(i, err)]\<rparr>
                 | _ \<Rightarrow> failed_with err (r\<lparr>runningAgent := a\<rparr>))))"

subsection \<open>Runs\<close>

definition createContextSnapshot :: "'x agent_options \<Rightarrow> 'x agent \<Rightarrow> 'x running agent_context" where
  "createContextSnapshot opts a = \<lparr>ctxSystemPrompt = optSystemPrompt opts, ctxMessages = agentMessages a,
     ctxTools = Some (map tool_of (optTools opts))\<rparr>"

definition drain_steering :: "('x, agent_message list) act" where
  "drain_steering a = (case drain (steeringQueue (agentShared a)) of
     (ms, q) \<Rightarrow> (ms, a\<lparr>agentShared := (agentShared a)\<lparr>steeringQueue := q\<rparr>\<rparr>))"

definition drain_follow_ups :: "('x, agent_message list) act" where
  "drain_follow_ups a = (case drain (followUpQueue (agentShared a)) of
     (ms, q) \<Rightarrow> (ms, a\<lparr>agentShared := (agentShared a)\<lparr>followUpQueue := q\<rparr>\<rparr>))"

definition poll_steering :: "('x, agent_message list) act" where
  "poll_steering a = (if skipInitialSteeringPoll a then ([], a\<lparr>skipInitialSteeringPoll := False\<rparr>) else drain_steering a)"

definition next_turn_update :: "('x, 'x update_source option) effect \<Rightarrow> ('x running, 'x running turn_update option) state" where
  "next_turn_update f = State_Monad.bind (throwing None f) (\<lambda>u. State_Monad.return (map_option update_of u))"

definition next_turn_hook :: "'x agent_options \<Rightarrow> ('x running turn_context \<Rightarrow> ('x running, 'x running turn_update option) state) option" where
  "next_turn_hook opts =
     (case optPrepareNextTurnWithContext opts of
        Some f \<Rightarrow> Some (\<lambda>tc. next_turn_update (f tc))
      | None \<Rightarrow> map_option (\<lambda>f tc. next_turn_update f) (optPrepareNextTurn opts))"

definition empty_usage :: usage where
  "empty_usage = \<lparr>usageInput = 0, usageOutput = 0, usageCacheRead = 0, usageCacheWrite = 0,
     usageCacheWrite1h = None, usageReasoning = None, usageTotalTokens = 0,
     usageCost = \<lparr>priceInput = 0, priceOutput = 0, priceCacheRead = 0, priceCacheWrite = 0, priceTotal = 0\<rparr>\<rparr>"

definition failure_message :: "'x agent_options \<Rightarrow> string \<Rightarrow> bool \<Rightarrow> int \<Rightarrow> assistant_message" where
  "failure_message opts error wasAborted now =
     \<lparr>asstContent = [TextContent []], asstProvider = modelProvider (optModel opts), asstModel = modelId (optModel opts),
      asstUsage = empty_usage, asstStopReason = (if wasAborted then AbortedStop else ErrorStop), asstDeferred = None,
      asstErrorMessage = Some error, asstTimestamp = now\<rparr>"

text \<open>What the model of a failed run has the stream answer, so that its loop ends.\<close>

definition failed_reply :: "'x agent_options \<Rightarrow> assistant_message" where
  "failed_reply opts = failure_message opts [] False 0"

definition createLoopConfig :: "'x agent_options \<Rightarrow> 'x running loop_config" where
  "createLoopConfig opts = \<lparr>cfgModel = optModel opts,
     cfgReasoning = (if optThinkingLevel opts = ''off'' then None else Some (optThinkingLevel opts)),
     cfgApiKey = None,
     cfgToolExecution = Some (optToolExecution opts),
     cfgConvertToLlm = (\<lambda>ms. throwing [] (optConvertToLlm opts ms)),
     cfgTransformContext = map_option (\<lambda>f ms. throwing [] (f ms)) (optTransformContext opts),
     cfgGetApiKey = map_option (\<lambda>f p. throwing None (f p)) (optGetApiKey opts),
     cfgShouldStopAfterTurn = map_option (\<lambda>f tc. throwing True (f tc)) (optShouldStopAfterTurn opts),
     cfgPrepareNextTurn = next_turn_hook opts,
     cfgGetSteeringMessages = Some (acting [] poll_steering),
     cfgGetFollowUpMessages = Some (acting [] drain_follow_ups),
     cfgBeforeToolCall = map_option (\<lambda>f tc. acting (JNull, Inl []) (outside_act (f tc))) (optBeforeToolCall opts),
     cfgAfterToolCall = map_option (\<lambda>f tc r e. acting (Inl []) (outside_act (f tc r e))) (optAfterToolCall opts)\<rparr>"

definition agent_environment :: "'x agent_options \<Rightarrow> 'x running environment" where
  "agent_environment opts = \<lparr>streamEvents = (\<lambda>cfg key ctx. throwing [] (optStreamEvents opts cfg key ctx)),
     streamResult = throwing (failed_reply opts) (optStreamResult opts),
     eventSink = agent_sink opts,
     signalAborted = (\<lambda>r. abortRequested (agentShared (runningAgent r))),
     dateNow = acting 0 (outside_act (optNow opts)),
     validateToolArguments = optValidate opts,
     nextTask = acting 0 (outside_act (optNextTask opts))\<rparr>"

primrec deliver :: "'x agent_options \<Rightarrow> agent_event list \<Rightarrow> 'x agent \<Rightarrow> string option \<times> 'x agent" where
  "deliver opts [] a = (None, a)"
| "deliver opts (e # es) a =
     (case processEvents opts e a of
        (Some err, a) \<Rightarrow> (Some err, a)
      | (None, a) \<Rightarrow> deliver opts es a)"

definition handleRunFailure :: "'x agent_options \<Rightarrow> string \<Rightarrow> 'x agent \<Rightarrow> string option \<times> 'x agent" where
  "handleRunFailure opts error a =
     (let wasAborted = abortRequested (agentShared a) in
      case outside_act (optNow opts) a of (now, a) \<Rightarrow>
      let m = AssistantMessage (failure_message opts error wasAborted now) in
      deliver opts [MessageStart m, MessageEnd m, TurnEnd m [], AgentEnd [m]] a)"

definition finishRun :: "'x agent \<Rightarrow> 'x agent" where
  "finishRun a = a\<lparr>isStreaming := False, streamingMessage := None, pendingToolCalls := {}, activeRun := False\<rparr>"

definition begin_run :: "'x agent \<Rightarrow> 'x agent" where
  "begin_run a = a\<lparr>activeRun := True, isStreaming := True, streamingMessage := None, errorMessage := None,
     agentShared := (agentShared a)\<lparr>abortRequested := False\<rparr>\<rparr>"

text \<open>
  \<open>None\<close>: the executor does not come to an end (within its fuel). Otherwise how the promise of the run
  settles, \<open>Inl\<close> for a rejection, and the agent. When the executor fails while tools of a concurrent
  batch are running, what these still do, after the run, is not modelled.
\<close>

definition runWithLifecycle :: "'x agent_options \<Rightarrow> ('x agent \<Rightarrow> ((string + unit) \<times> 'x agent) option) \<Rightarrow> 'x agent \<Rightarrow>
    ((string + unit) \<times> 'x agent) option" where
  "runWithLifecycle opts executor a =
     (if activeRun a then Some (Inl ''Agent is already processing.'', a)
      else (case executor (begin_run a) of
              None \<Rightarrow> None
            | Some (Inl error, a) \<Rightarrow>
                (case handleRunFailure opts error a of
                   (None, a) \<Rightarrow> Some (Inr (), finishRun a)
                 | (Some err, a) \<Rightarrow> Some (Inl err, finishRun a))
            | Some (Inr u, a) \<Rightarrow> Some (Inr (), finishRun a)))"

definition starting :: "'x agent \<Rightarrow> 'x running" where
  "starting a = \<lparr>runningAgent = a, runningFailure = None, updateFailures = []\<rparr>"

definition executed_run :: "'x running \<Rightarrow> (string + unit) \<times> 'x agent" where
  "executed_run r = (case runningFailure r of None \<Rightarrow> (Inr (), runningAgent r) | Some (e, a) \<Rightarrow> (Inl e, a))"

definition prompt_executor :: "'x agent_options \<Rightarrow> nat \<Rightarrow> agent_message list \<Rightarrow> bool \<Rightarrow> 'x agent \<Rightarrow> ((string + unit) \<times> 'x agent) option" where
  "prompt_executor opts fuel messages skip a =
     map_option (\<lambda>s. executed_run (runWorld s))
       (runAgentLoop (agent_environment opts) fuel messages (createContextSnapshot opts a) (createLoopConfig opts)
         (starting (a\<lparr>skipInitialSteeringPoll := skip\<rparr>)))"

definition runPromptMessages :: "'x agent_options \<Rightarrow> nat \<Rightarrow> agent_message list \<Rightarrow> bool \<Rightarrow> 'x agent \<Rightarrow> ((string + unit) \<times> 'x agent) option" where
  "runPromptMessages opts fuel messages skip a = runWithLifecycle opts (prompt_executor opts fuel messages skip) a"

definition continue_executor :: "'x agent_options \<Rightarrow> nat \<Rightarrow> 'x agent \<Rightarrow> ((string + unit) \<times> 'x agent) option" where
  "continue_executor opts fuel a =
     (let a = a\<lparr>skipInitialSteeringPoll := False\<rparr> in
      case runAgentLoopContinue (agent_environment opts) fuel (createContextSnapshot opts a) (createLoopConfig opts) (starting a) of
        Inl e \<Rightarrow> Some (Inl e, a)
      | Inr r \<Rightarrow> map_option (\<lambda>s. executed_run (runWorld s)) r)"

definition runContinuation :: "'x agent_options \<Rightarrow> nat \<Rightarrow> 'x agent \<Rightarrow> ((string + unit) \<times> 'x agent) option" where
  "runContinuation opts fuel a = runWithLifecycle opts (continue_executor opts fuel) a"

datatype prompt_input = TextPrompt string "content_block list" | MessagePrompt agent_message | MessagesPrompt "agent_message list"

fun normalizePromptInput :: "prompt_input \<Rightarrow> int \<Rightarrow> agent_message list" where
  "normalizePromptInput (MessagesPrompt ms) now = ms"
| "normalizePromptInput (MessagePrompt m) now = [m]"
| "normalizePromptInput (TextPrompt t images) now = [UserMessage (BlockContent (TextContent t # images)) now]"

definition prompt_agent :: "'x agent_options \<Rightarrow> nat \<Rightarrow> prompt_input \<Rightarrow> int \<Rightarrow> 'x agent \<Rightarrow> ((string + unit) \<times> 'x agent) option" where
  "prompt_agent opts fuel input now a =
     (if activeRun a
      then Some (Inl (''Agent is already processing a prompt. Use steer() or followUp() to queue messages, or wait for completion.''), a)
      else runPromptMessages opts fuel (normalizePromptInput input now) False a)"

definition continue_agent :: "'x agent_options \<Rightarrow> nat \<Rightarrow> 'x agent \<Rightarrow> ((string + unit) \<times> 'x agent) option" where
  "continue_agent opts fuel a =
     (if activeRun a then Some (Inl ''Agent is already processing. Wait for completion before continuing.'', a)
      else if agentMessages a = [] then Some (Inl ''No messages to continue from'', a)
      else if role_of (last (agentMessages a)) = AssistantRole
      then (case drain_steering a of
              (steering, a) \<Rightarrow>
                if steering \<noteq> [] then runPromptMessages opts fuel steering True a
                else (case drain_follow_ups a of
                        (followUps, a) \<Rightarrow>
                          if followUps \<noteq> [] then runPromptMessages opts fuel followUps False a
                          else Some (Inl ''Cannot continue from message role: assistant'', a)))
      else runContinuation opts fuel a)"

end
