(* ===== verification/AgentCorrect.thy ===== *)
theory AgentCorrect
  imports Agent
begin

section \<open>The agent: correctness\<close>

text \<open>
  The queues as a first-in-first-out interface and its interpretation; the agent as an observer of the
  loop (an interpretation of \<open>observer\<close>); what observers of the agent see during a run; that every run
  leaves the agent idle, however it fails; and what a prompt does to the transcript.
\<close>

subsection \<open>Queues\<close>

locale message_queue =
  fixes add :: "'q \<Rightarrow> 'm \<Rightarrow> 'q"
    and take_some :: "'q \<Rightarrow> 'm list \<times> 'q"
    and items :: "'q \<Rightarrow> 'm list"
  assumes items_add: "items (add q m) = items q @ [m]"
    and items_take: "fst (take_some q) @ items (snd (take_some q)) = items q"
    and take_nonempty: "items q \<noteq> [] \<Longrightarrow> fst (take_some q) \<noteq> []"
begin

primrec take_times :: "nat \<Rightarrow> 'q \<Rightarrow> 'm list \<times> 'q" where
  "take_times 0 q = ([], q)"
| "take_times (Suc n) q = (case take_some q of (ms, q) \<Rightarrow> case take_times n q of (ns, q) \<Rightarrow> (ms @ ns, q))"

lemma take_times_items: "fst (take_times n q) @ items (snd (take_times n q)) = items q"
proof (induction n arbitrary: q)
  case (Suc n)
  from items_take[of q] Suc[of "snd (take_some q)"] show ?case by (simp add: split_beta)
qed simp

lemma take_times_all: "length (items q) \<le> n \<Longrightarrow> fst (take_times n q) = items q"
proof (induction n arbitrary: q)
  case (Suc n)
  have "length (items (snd (take_some q))) \<le> n"
  proof (cases "items q = []")
    case False
    with take_nonempty[of q] items_take[of q] Suc.prems have "length (fst (take_some q)) > 0" by simp
    with arg_cong[OF items_take[of q], of length] Suc.prems show ?thesis
      unfolding length_append by linarith
  qed (use arg_cong[OF items_take[of q], of length] in simp)
  from Suc.IH[OF this] items_take[of q] show ?case by (simp add: split_beta)
qed simp

end

interpretation pending: message_queue enqueue drain queueMessages
  by unfold_locales (auto simp: enqueue_def drain_def split: list.splits)

subsection \<open>The agent observes the loop\<close>

definition no_shared :: "unit shared" where
  "no_shared = \<lparr>steeringQueue = new_queue AllMode, followUpQueue = new_queue AllMode, abortRequested = False, outside = ()\<rparr>"

definition agent_view :: "'x agent \<Rightarrow> unit agent" where
  "agent_view a = \<lparr>agentMessages = agentMessages a, isStreaming = isStreaming a, streamingMessage = streamingMessage a,
     pendingToolCalls = pendingToolCalls a, errorMessage = errorMessage a, activeRun = activeRun a,
     skipInitialSteeringPoll = False, agentShared = no_shared\<rparr>"

lemma agent_view_shared [simp]: "agent_view (a\<lparr>agentShared := sh\<rparr>) = agent_view a"
  by (simp add: agent_view_def)

lemma agent_view_skip [simp]: "agent_view (a\<lparr>skipInitialSteeringPoll := b\<rparr>) = agent_view a"
  by (simp add: agent_view_def)

lemma agent_view_fields:
  "agentMessages (agent_view a) = agentMessages a" "streamingMessage (agent_view a) = streamingMessage a"
  "pendingToolCalls (agent_view a) = pendingToolCalls a" "errorMessage (agent_view a) = errorMessage a"
  "activeRun (agent_view a) = activeRun a"
  by (simp_all add: agent_view_def)

lemma process_view_shared: "process_view e (agent_view a) = agent_view (process_view e a)"
  by (cases "(e, a)" rule: process_view.cases)
    (auto simp: agent_view_def split: agent_message.splits option.splits)

text \<open>
  Acts that do not assign the transcript: those that restoring the transcript afterwards does not change.
\<close>

definition restrained :: "('x, 'a) act \<Rightarrow> ('x, 'a) act" where
  "restrained f a = (case f a of (x, b) \<Rightarrow> (x, b\<lparr>agentMessages := agentMessages a\<rparr>))"

definition restrain_tool :: "'x tool_source \<Rightarrow> 'x tool_source" where
  "restrain_tool t = t\<lparr>srcPrepareArguments := map_option (\<lambda>f args. restrained (f args)) (srcPrepareArguments t),
     srcUpdates := (\<lambda>i args. restrained (srcUpdates t i args)), srcOutcome := (\<lambda>i args. restrained (srcOutcome t i args))\<rparr>"

definition restrain_context :: "'x context_source \<Rightarrow> 'x context_source" where
  "restrain_context c = c\<lparr>srcTools := map_option (map restrain_tool) (srcTools c)\<rparr>"

definition restrain_update :: "'x update_source \<Rightarrow> 'x update_source" where
  "restrain_update u = u\<lparr>srcContext := map_option restrain_context (srcContext u)\<rparr>"

definition restrain_hook :: "('x, 'x update_source option) effect \<Rightarrow> ('x, 'x update_source option) effect" where
  "restrain_hook f a = apfst (map_sum id (map_option restrain_update)) (restrained f a)"

definition restrain :: "'x agent_options \<Rightarrow> 'x agent_options" where
  "restrain opts = opts\<lparr>optTools := map restrain_tool (optTools opts),
     optConvertToLlm := (\<lambda>ms. restrained (optConvertToLlm opts ms)),
     optTransformContext := map_option (\<lambda>f ms. restrained (f ms)) (optTransformContext opts),
     optGetApiKey := map_option (\<lambda>f p. restrained (f p)) (optGetApiKey opts),
     optShouldStopAfterTurn := map_option (\<lambda>f tc. restrained (f tc)) (optShouldStopAfterTurn opts),
     optPrepareNextTurn := map_option restrain_hook (optPrepareNextTurn opts),
     optPrepareNextTurnWithContext := map_option (\<lambda>f tc. restrain_hook (f tc)) (optPrepareNextTurnWithContext opts),
     optBeforeToolCall := map_option (\<lambda>f tc. restrained (f tc)) (optBeforeToolCall opts),
     optAfterToolCall := map_option (\<lambda>f tc r e. restrained (f tc r e)) (optAfterToolCall opts),
     optStreamEvents := (\<lambda>cfg key ctx. restrained (optStreamEvents opts cfg key ctx)),
     optStreamResult := restrained (optStreamResult opts),
     optListeners := map (\<lambda>l e. restrained (l e)) (optListeners opts),
     optNow := restrained (optNow opts), optNextTask := restrained (optNextTask opts)\<rparr>"

definition leaves_transcript :: "'x agent_options \<Rightarrow> bool" where
  "leaves_transcript opts \<longleftrightarrow> restrain opts = opts"

text \<open>
  What a stretch of a run with the events \<open>es\<close> does to its world: the view moves by the events, a failure
  stays, and a failure that is new holds the agent as some of the events left it.
\<close>

definition run_moves :: "'x running moved" where
  "run_moves r es r' \<longleftrightarrow>
     agent_view (runningAgent r') = fold process_view es (agent_view (runningAgent r)) \<and>
     (case runningFailure r of
        Some f \<Rightarrow> runningFailure r' = Some f
      | None \<Rightarrow> (case runningFailure r' of
            None \<Rightarrow> True
          | Some (e, b) \<Rightarrow> \<exists>k \<le> length es. agent_view b = fold process_view (take k es) (agent_view (runningAgent r))))"

lemma run_moves_append:
  assumes "run_moves r es r1" and "run_moves r1 es2 r2"
  shows "run_moves r (es @ es2) r2"
proof (cases "runningFailure r1")
  case None
  with assms(1) have none: "runningFailure r = None" and view: "agent_view (runningAgent r1) = fold process_view es (agent_view (runningAgent r))"
    by (auto simp: run_moves_def split: option.splits)
  show ?thesis
  proof (cases "runningFailure r2")
    case (Some f)
    obtain e b where f: "f = (e, b)" by (cases f)
    with assms(2) None Some view obtain k where "k \<le> length es2"
      "agent_view b = fold process_view (take k es2) (fold process_view es (agent_view (runningAgent r)))"
      by (auto simp: run_moves_def)
    with assms none Some f view show ?thesis
      by (auto simp: run_moves_def intro!: exI[of _ "length es + k"])
  qed (use assms none view in \<open>auto simp: run_moves_def\<close>)
next
  case (Some f)
  with assms(2) have "runningFailure r2 = Some f" by (simp add: run_moves_def)
  moreover have "\<exists>k \<le> length (es @ es2). agent_view b = fold process_view (take k (es @ es2)) (agent_view (runningAgent r))"
    if "runningFailure r = None" "f = (e, b)" for e b
  proof -
    from assms(1) that Some obtain k where "k \<le> length es" "agent_view b = fold process_view (take k es) (agent_view (runningAgent r))"
      by (auto simp: run_moves_def)
    then show ?thesis by (intro exI[of _ k]) simp
  qed
  ultimately show ?thesis
    using assms Some by (auto simp: run_moves_def split: option.splits)
qed

text \<open>Acts that keep the view keep still.\<close>

definition keeps_view :: "('x, 'a) act \<Rightarrow> bool" where
  "keeps_view f \<longleftrightarrow> (\<forall>a. agent_view (snd (f a)) = agent_view a)"

lemma keeps_view_restrained: "keeps_view (outside_act (restrained f))"
  by (auto simp: keeps_view_def outside_act_def restrained_def agent_view_def split: prod.splits)

lemma keeps_view_hook: "keeps_view (outside_act (restrain_hook f))"
  by (auto simp: keeps_view_def outside_act_def restrain_hook_def restrained_def agent_view_def split: prod.splits)

lemma keeps_view_drains: "keeps_view drain_steering" "keeps_view drain_follow_ups" "keeps_view poll_steering"
  by (auto simp: keeps_view_def drain_steering_def drain_follow_ups_def poll_steering_def split: prod.split)

lemma calm_acting: "keeps_view f \<Longrightarrow> calm run_moves (acting d f)"
  by (auto simp: calm_def acting_def run_moves_def keeps_view_def split: prod.splits option.splits) (metis snd_conv)+

lemma run_moves_failed: "run_moves r [] r' \<Longrightarrow> runningFailure r' = None \<Longrightarrow> run_moves r [] (failed_with e r')"
  by (auto simp: run_moves_def failed_with_def split: option.splits)

lemma acting_failed: "runningFailure (snd (run_state (acting d f) r)) = runningFailure r"
  by (simp add: acting_def split: prod.split)

lemma calm_throwing:
  assumes "keeps_view (outside_act f)"
  shows "calm run_moves (throwing d f)"
  unfolding calm_def
proof
  fix r
  obtain x r1 where r1: "run_state (acting (Inr d) (outside_act f)) r = (x, r1)" by fastforce
  from calm_acting[OF assms, of "Inr d"] r1 have moved: "run_moves r [] r1" unfolding calm_def by (metis snd_conv)
  show "run_moves r [] (snd (run_state (throwing d f) r))"
  proof (cases x)
    case (Inl e)
    with r1 have "runningFailure r = None" by (cases "runningFailure r") (auto simp: acting_def)
    with acting_failed[of "Inr d" "outside_act f" r] r1 have "runningFailure r1 = None" by simp
    with moved r1 Inl show ?thesis by (simp add: throwing_def run_moves_failed)
  qed (use moved r1 in \<open>simp add: throwing_def\<close>)
qed

lemma calm_settling:
  assumes "keeps_view (outside_act f)"
  shows "calm run_moves (settling i f)"
  unfolding calm_def
proof
  fix r
  obtain x r1 where r1: "run_state (acting (Inl []) (outside_act f)) r = (x, r1)" by fastforce
  from calm_acting[OF assms, of "Inl []"] r1 have "run_moves r [] r1" unfolding calm_def by (metis snd_conv)
  with r1 show "run_moves r [] (snd (run_state (settling i f) r))"
    by (auto simp: settling_def run_moves_failed split: option.split)
qed

lemma calm_next_turn: "keeps_view (outside_act f) \<Longrightarrow> calm run_moves (next_turn_update f)"
  using calm_throwing[of f None] by (auto simp: calm_def next_turn_update_def split: prod.split) (metis snd_conv)

lemma restrained_view: "outside_act (restrained f) a = (x, b) \<Longrightarrow> agent_view b = agent_view a"
  using keeps_view_restrained[of f] unfolding keeps_view_def by (metis snd_conv)

lemma notify_view:
  "agent_view (snd (notify (map (\<lambda>l e. restrained (l e)) ls) e a)) = agent_view a"
  by (induction ls arbitrary: a) (auto split: prod.splits sum.splits dest: restrained_view)

lemma process_restrained_view:
  "agent_view (snd (processEvents (restrain opts) e a)) = process_view e (agent_view a)"
  by (simp add: processEvents_def Let_def restrain_def notify_view process_view_shared)

lemma sink_moves: "run_moves r [e] (agent_sink (restrain opts) e r)"
proof -
  obtain f a where p: "processEvents (restrain opts) e (runningAgent r) = (f, a)" by fastforce
  with process_restrained_view[of opts e "runningAgent r"] have "agent_view a = process_view e (agent_view (runningAgent r))"
    by simp
  with p show ?thesis
    by (auto simp: agent_sink_def run_moves_def failed_with_def process_view_shared
        split: option.splits agent_event.splits intro: exI[of _ "Suc 0"])
qed

definition agent_tool_ok :: "'x running agent_tool \<Rightarrow> bool" where
  "agent_tool_ok t \<longleftrightarrow> (\<exists>src. t = tool_of (restrain_tool src))"

lemma agent_tool_calm:
  assumes "agent_tool_ok t"
  shows "calm run_moves (toolUpdates t i args)" and "calm run_moves (toolOutcome t i args)"
    and "toolPrepareArguments t = Some f \<Longrightarrow> calm run_moves (f args)"
  using assms by (auto simp: agent_tool_ok_def tool_of_def restrain_tool_def intro!: calm_acting calm_settling keeps_view_restrained)

lemma agent_tool_ok_tool_of [simp]: "agent_tool_ok (tool_of (restrain_tool src))"
  by (auto simp: agent_tool_ok_def)

lemma restrained_update_ok: "updateContext (update_of (restrain_update u)) = Some ctx \<Longrightarrow> tools_ok agent_tool_ok ctx"
  by (auto simp: update_of_def restrain_update_def context_of_def restrain_context_def tools_ok_def)

lemma next_turn_update_restrained:
  "fst (run_state (next_turn_update (restrain_hook f)) w) = Some u \<Longrightarrow> \<exists>v. u = update_of (restrain_update v)"
  by (auto simp: next_turn_update_def throwing_def acting_def outside_act_def restrain_hook_def failed_with_def apfst_def map_prod_def
      split: prod.splits sum.splits if_splits) (auto simp: map_sum_def split: sum.splits)

lemma hook_tools_ok:
  "fst (run_state (next_turn_update (restrain_hook f)) w) = Some u \<Longrightarrow> updateContext u = Some ctx \<Longrightarrow> tools_ok agent_tool_ok ctx"
  using next_turn_update_restrained restrained_update_ok by blast

text \<open>The configurations of an agent's runs.\<close>

definition agent_config :: "'x agent_options \<Rightarrow> 'x running loop_config \<Rightarrow> bool" where
  "agent_config opts cfg \<longleftrightarrow> (\<exists>m r. cfg = (createLoopConfig (restrain opts))\<lparr>cfgModel := m, cfgReasoning := r\<rparr>)"

lemma agent_config_own: "agent_config opts (createLoopConfig (restrain opts))"
  unfolding agent_config_def
  by (intro exI[of _ "cfgModel (createLoopConfig (restrain opts))"] exI[of _ "cfgReasoning (createLoopConfig (restrain opts))"]) simp

lemma restrained_hook_cases:
  "next_turn_hook (restrain opts) = Some fp \<Longrightarrow> \<exists>f. fp tc = next_turn_update (restrain_hook f)"
  by (auto simp: next_turn_hook_def restrain_def split: option.splits)

lemma agent_config_callbacks:
  assumes "agent_config opts cfg"
  shows "calm run_moves (cfgConvertToLlm cfg ms)"
    "cfgTransformContext cfg = Some ft \<Longrightarrow> calm run_moves (ft ms)"
    "cfgGetApiKey cfg = Some fk \<Longrightarrow> calm run_moves (fk provider)"
    "cfgShouldStopAfterTurn cfg = Some fs \<Longrightarrow> calm run_moves (fs tc)"
    "cfgPrepareNextTurn cfg = Some fp \<Longrightarrow> calm run_moves (fp tc)"
    "cfgGetSteeringMessages cfg = Some fq \<Longrightarrow> calm run_moves fq"
    "cfgGetFollowUpMessages cfg = Some fq \<Longrightarrow> calm run_moves fq"
    "cfgBeforeToolCall cfg = Some fb \<Longrightarrow> calm run_moves (fb tcc)"
    "cfgAfterToolCall cfg = Some fa \<Longrightarrow> calm run_moves (fa tcc r failed)"
    "cfgPrepareNextTurn cfg = Some fp \<Longrightarrow> fst (run_state (fp tc) w) = Some u \<Longrightarrow> updateContext u = Some ctx \<Longrightarrow>
      tools_ok agent_tool_ok ctx"
proof -
  obtain m rs where cfg: "cfg = (createLoopConfig (restrain opts))\<lparr>cfgModel := m, cfgReasoning := rs\<rparr>"
    using assms by (auto simp: agent_config_def)
  show "cfgPrepareNextTurn cfg = Some fp \<Longrightarrow> calm run_moves (fp tc)"
    using restrained_hook_cases[of opts fp tc] cfg by (auto simp: createLoopConfig_def calm_next_turn keeps_view_hook)
  show "cfgPrepareNextTurn cfg = Some fp \<Longrightarrow> fst (run_state (fp tc) w) = Some u \<Longrightarrow> updateContext u = Some ctx \<Longrightarrow>
      tools_ok agent_tool_ok ctx"
    using restrained_hook_cases[of opts fp tc] cfg by (auto simp: createLoopConfig_def dest: hook_tools_ok)
qed (use assms in \<open>auto simp: agent_config_def createLoopConfig_def restrain_def
      intro!: calm_acting calm_throwing keeps_view_restrained keeps_view_drains\<close>)

interpretation observed: observer run_moves "agent_environment (restrain opts)" agent_tool_ok "agent_config opts"
  for opts :: "'x agent_options"
proof (unfold_locales)
  show "run_moves w [] w" for w :: "'x running" by (auto simp: run_moves_def split: option.split)
  show "run_moves w es w1 \<Longrightarrow> run_moves w1 es2 w2 \<Longrightarrow> run_moves w (es @ es2) w2" for w w1 w2 :: "'x running" and es es2
    by (rule run_moves_append)
  show "run_moves w [ev] (eventSink (agent_environment (restrain opts)) ev w)" for ev w
    by (simp add: agent_environment_def sink_moves)
  show "agent_config opts cfg \<Longrightarrow> agent_config opts (cfg\<lparr>cfgModel := m, cfgReasoning := level\<rparr>)" for cfg m level
    unfolding agent_config_def by (elim exE) (intro exI[of _ m] exI[of _ level], simp)
qed (auto simp: agent_environment_def restrain_def intro!: calm_acting calm_throwing keeps_view_restrained intro: agent_tool_calm agent_config_callbacks)

subsection \<open>What observers see\<close>

fun open_message :: "phase \<Rightarrow> agent_message option" where
  "open_message (InTurn m R said) = m"
| "open_message _ = None"

fun running_calls :: "phase \<Rightarrow> string multiset" where
  "running_calls (InTurn m R said) = R"
| "running_calls _ = {#}"

lemma process_view_step:
  assumes "event_step p e = Some q" and "streamingMessage a = open_message p" and "pendingToolCalls a \<subseteq> set_mset (running_calls p)"
  shows "streamingMessage (process_view e a) = open_message q \<and>
    pendingToolCalls (process_view e a) \<subseteq> set_mset (running_calls q) \<and>
    agentMessages (process_view e a) = agentMessages a @ announced [e]"
  using assms
  by (cases "(p, e)" rule: event_step.cases)
    (auto split: if_splits agent_message.splits option.splits simp: in_diff_count)

text \<open>The view refines the protocol: between any two events it shows the open message and no call that is not running.\<close>

lemma process_view_follow:
  assumes "follow p es = Some q" and "streamingMessage a = open_message p" and "pendingToolCalls a \<subseteq> set_mset (running_calls p)"
  shows "streamingMessage (fold process_view es a) = open_message q \<and>
    pendingToolCalls (fold process_view es a) \<subseteq> set_mset (running_calls q) \<and>
    agentMessages (fold process_view es a) = agentMessages a @ announced es"
  using assms
proof (induction es arbitrary: p a)
  case (Cons e es)
  then obtain p' where p': "event_step p e = Some p'" "follow p' es = Some q" by (auto split: option.splits)
  from process_view_step[OF p'(1) Cons.prems(2,3)] Cons.IH[OF p'(2), of "process_view e a"] show ?case
    by (auto simp: announced_append[of "[e]" es, simplified])
qed simp

lemma process_view_activeRun [simp]: "activeRun (process_view e a) = activeRun a"
  by (cases "(e, a)" rule: process_view.cases) (auto split: agent_message.splits option.splits)

subsection \<open>Runs leave the agent idle\<close>

definition idle :: "'x agent \<Rightarrow> bool" where
  "idle a \<longleftrightarrow> \<not> activeRun a \<and> \<not> isStreaming a \<and> streamingMessage a = None \<and> pendingToolCalls a = {}"

lemma idle_finishRun [simp]: "idle (finishRun a)"
  by (simp add: idle_def finishRun_def)

lemma finishRun_fields [simp]: "agentMessages (finishRun a) = agentMessages a" "errorMessage (finishRun a) = errorMessage a"
  by (simp_all add: finishRun_def)

lemma process_view_messages: "agentMessages (fold process_view es a) = agentMessages a @ announced es"
proof (induction es arbitrary: a)
  case (Cons e es)
  have "agentMessages (process_view e a) = agentMessages a @ announced [e]"
    by (cases "(e, a)" rule: process_view.cases) (auto split: agent_message.splits option.splits)
  with Cons[of "process_view e a"] announced_append[of "[e]" es] show ?case by simp
qed simp

lemma deliver_view:
  "deliver (restrain opts) es a = (r, b) \<Longrightarrow>
   \<exists>k \<le> length es. agent_view b = fold process_view (take k es) (agent_view a) \<and> (r = None \<longrightarrow> k = length es)"
proof (induction es arbitrary: a)
  case (Cons e es)
  obtain f a1 where p: "processEvents (restrain opts) e a = (f, a1)" by fastforce
  with process_restrained_view[of opts e a] have view: "agent_view a1 = process_view e (agent_view a)" by simp
  show ?case
  proof (cases f)
    case None
    with Cons.prems p have "deliver (restrain opts) es a1 = (r, b)" by simp
    from Cons.IH[OF this] obtain k where "k \<le> length es" "agent_view b = fold process_view (take k es) (agent_view a1)" "r = None \<longrightarrow> k = length es"
      by blast
    with view show ?thesis by (intro exI[of _ "Suc k"]) auto
  next
    case (Some err)
    with Cons.prems p view show ?thesis by (intro exI[of _ "Suc 0"]) auto
  qed
qed simp

text \<open>The four events of a failure with the message \<open>m\<close>.\<close>

definition failure_events :: "agent_message \<Rightarrow> agent_event list" where
  "failure_events m = [MessageStart m, MessageEnd m, TurnEnd m [], AgentEnd [m]]"

lemma restrained_now: "optNow (restrain opts) = restrained (optNow opts)"
  by (simp add: restrain_def)

lemma handleRunFailure_view:
  assumes "handleRunFailure (restrain opts) error a = (r, b)"
  obtains now k where "agent_view b = fold process_view
      (take k (failure_events (AssistantMessage (failure_message opts error (abortRequested (agentShared a)) now)))) (agent_view a)"
    and "r = None \<longrightarrow> k = 4"
proof -
  obtain now a1 where now: "outside_act (restrained (optNow opts)) a = (now, a1)" by fastforce
  have fm: "failure_message (restrain opts) = failure_message opts"
    by (intro ext) (simp add: failure_message_def restrain_def)
  have "deliver (restrain opts) (failure_events (AssistantMessage (failure_message opts error (abortRequested (agentShared a)) now))) a1 = (r, b)"
    using assms now by (simp add: handleRunFailure_def failure_events_def fm restrained_now Let_def del: deliver.simps)
  from deliver_view[OF this] obtain k where "agent_view b = fold process_view
      (take k (failure_events (AssistantMessage (failure_message opts error (abortRequested (agentShared a)) now)))) (agent_view a)"
    "r = None \<longrightarrow> k = length (failure_events (AssistantMessage (failure_message opts error (abortRequested (agentShared a)) now)))"
    unfolding restrained_view[OF now] by blast
  with that[of k now] show thesis by (simp add: failure_events_def)
qed

lemma failure_view:
  assumes "agent_view b = fold process_view (take k (failure_events (AssistantMessage (failure_message opts error ab now)))) (agent_view a)"
  shows "agentMessages b \<in> {agentMessages a, agentMessages a @ [AssistantMessage (failure_message opts error ab now)]}"
    and "k = 4 \<Longrightarrow> agentMessages b = agentMessages a @ [AssistantMessage (failure_message opts error ab now)]"
    and "k = 4 \<Longrightarrow> error \<noteq> [] \<Longrightarrow> errorMessage b = Some error"
proof -
  have k: "announced (take k (failure_events m)) \<in> {[], [m]}" "k = 4 \<Longrightarrow> announced (take k (failure_events m)) = [m]" for m
    by (auto simp: failure_events_def take_Cons' split: if_splits)
  from arg_cong[OF assms, of agentMessages] k
  show "agentMessages b \<in> {agentMessages a, agentMessages a @ [AssistantMessage (failure_message opts error ab now)]}"
    "k = 4 \<Longrightarrow> agentMessages b = agentMessages a @ [AssistantMessage (failure_message opts error ab now)]"
    by (auto simp: agent_view_fields process_view_messages)
  show "errorMessage b = Some error" if "k = 4" "error \<noteq> []"
    using that arg_cong[OF assms, of errorMessage] by (simp add: agent_view_fields failure_events_def failure_message_def)
qed

text \<open>Listeners that do not throw fail no event of an active run.\<close>

definition listeners_accept :: "'x agent_options \<Rightarrow> bool" where
  "listeners_accept opts \<longleftrightarrow> (\<forall>l \<in> set (optListeners opts). \<forall>e a. \<not> isl (fst (l e a)))"

lemma outside_activeRun: "outside_act f a = (x, b) \<Longrightarrow> activeRun b = activeRun a"
  by (auto simp: outside_act_def split: prod.splits)

lemma notify_accepted:
  "\<forall>l \<in> set ls. \<forall>e a. \<not> isl (fst (l e a)) \<Longrightarrow> \<exists>b. notify ls e a = (None, b) \<and> activeRun b = activeRun a"
proof (induction ls arbitrary: a)
  case (Cons l ls)
  obtain x b where l: "outside_act (l e) a = (x, b)" by fastforce
  then have "x = fst (l e a)" by (auto simp: outside_act_def split: prod.splits)
  with Cons.prems have "\<not> isl x" by simp
  with l Cons.IH[of b] Cons.prems show ?case
    by (cases x) (auto dest: outside_activeRun)
qed simp

lemma deliver_accepted:
  "listeners_accept opts \<Longrightarrow> activeRun a \<Longrightarrow> fst (deliver opts es a) = None"
proof (induction es arbitrary: a)
  case (Cons e es)
  from notify_accepted[of "optListeners opts" e "process_view e a"] Cons show ?case
    by (auto simp: listeners_accept_def processEvents_def)
qed simp

lemma handleRunFailure_accepted:
  assumes "listeners_accept opts" and "activeRun a"
  shows "fst (handleRunFailure opts error a) = None"
  using assms deliver_accepted[OF assms(1)]
  by (auto simp: handleRunFailure_def Let_def simp del: deliver.simps dest: outside_activeRun split: prod.split)

lemma lifecycle_outcome:
  assumes "runWithLifecycle opts executor a = Some (r, a')"
  shows "if activeRun a then r = Inl ''Agent is already processing.'' \<and> a' = a
    else idle a' \<and>
      (case executor (begin_run a) of
         None \<Rightarrow> False
       | Some (Inr u, b) \<Rightarrow> r = Inr () \<and> agentMessages a' = agentMessages b \<and> errorMessage a' = errorMessage b
       | Some (Inl error, b) \<Rightarrow>
           (listeners_accept opts \<and> activeRun b \<longrightarrow> r = Inr ()) \<and>
           (leaves_transcript opts \<longrightarrow>
              (\<exists>now. let m = AssistantMessage (failure_message opts error (abortRequested (agentShared b)) now)
                 in agentMessages a' \<in> {agentMessages b, agentMessages b @ [m]} \<and>
                   (r = Inr () \<longrightarrow> agentMessages a' = agentMessages b @ [m] \<and> (error \<noteq> [] \<longrightarrow> errorMessage a' = Some error)))))"
proof (cases "activeRun a")
  case False
  obtain x b where ex: "executor (begin_run a) = Some (x, b)"
    using assms False by (auto simp: runWithLifecycle_def split: option.splits)
  show ?thesis
  proof (cases x)
    case (Inl error)
    obtain f c where hf: "handleRunFailure opts error b = (f, c)" by fastforce
    with assms False ex Inl have a': "a' = finishRun c" and r: "r = (case f of None \<Rightarrow> Inr () | Some e \<Rightarrow> Inl e)"
      by (auto simp: runWithLifecycle_def split: option.splits)
    have "\<exists>now. let m = AssistantMessage (failure_message opts error (abortRequested (agentShared b)) now)
        in agentMessages a' \<in> {agentMessages b, agentMessages b @ [m]} \<and>
          (r = Inr () \<longrightarrow> agentMessages a' = agentMessages b @ [m] \<and> (error \<noteq> [] \<longrightarrow> errorMessage a' = Some error))"
      if "leaves_transcript opts"
    proof -
      from that hf have "handleRunFailure (restrain opts) error b = (f, c)" by (simp add: leaves_transcript_def)
      then obtain now k where k: "agent_view c = fold process_view (take k (failure_events (AssistantMessage
          (failure_message opts error (abortRequested (agentShared b)) now)))) (agent_view b)" "f = None \<longrightarrow> k = 4"
        by (rule handleRunFailure_view)
      from failure_view[OF k(1)] k(2) show ?thesis
        by (intro exI[of _ now]) (cases f; simp add: a' r Let_def)
    qed
    moreover have "r = Inr ()" if "listeners_accept opts" "activeRun b"
      using handleRunFailure_accepted[OF that, of error] hf r by simp
    ultimately show ?thesis using False ex Inl a' by simp
  next
    case (Inr u)
    with assms False ex have "r = Inr ()" "a' = finishRun b" by (simp_all add: runWithLifecycle_def)
    with False ex Inr show ?thesis by simp
  qed
qed (use assms in \<open>simp add: runWithLifecycle_def\<close>)

text \<open>C22: A run of an agent that is running is refused and changes nothing. Every other run leaves the agent
  idle, whatever its executor does and however listeners fail. When the executor succeeds, the run
  resolves with the transcript it left. When it fails, and the callbacks do not assign the transcript,
  the run resolves after one assistant message with the error, marked as aborted when the run was, has
  been added to the transcript, unless a listener fails again: then the run rejects, and the message has
  been added or not. Listeners that do not fail make no run reject.\<close>

theorem lifecycle_idle:
  assumes "runWithLifecycle opts executor a = Some (r, a')"
  shows "if activeRun a then r = Inl ''Agent is already processing.'' \<and> a' = a
    else idle a' \<and>
      (case executor (begin_run a) of
         None \<Rightarrow> False
       | Some (Inr u, b) \<Rightarrow> r = Inr () \<and> agentMessages a' = agentMessages b \<and> errorMessage a' = errorMessage b
       | Some (Inl error, b) \<Rightarrow>
           (listeners_accept opts \<and> activeRun b \<longrightarrow> r = Inr ()) \<and>
           (leaves_transcript opts \<longrightarrow>
              (\<exists>now. let m = AssistantMessage (failure_message opts error (abortRequested (agentShared b)) now)
                 in agentMessages a' \<in> {agentMessages b, agentMessages b @ [m]} \<and>
                   (r = Inr () \<longrightarrow> agentMessages a' = agentMessages b @ [m] \<and> (error \<noteq> [] \<longrightarrow> errorMessage a' = Some error)))))"
  by (rule lifecycle_outcome[OF assms])

subsection \<open>Prompts\<close>

lemma announced_take: "\<exists>j. announced (take k es) = take j (announced es)"
proof -
  have "announced es = announced (take k es) @ announced (drop k es)"
    using announced_append[of "take k es" "drop k es"] by simp
  then show ?thesis by (intro exI[of _ "length (announced (take k es))"]) simp
qed

lemma prompt_executor_view:
  assumes "leaves_transcript opts" and "single_start (agent_environment opts)" and "prompt_executor opts fuel messages skip a = Some (x, b)"
  shows "\<exists>new j. agentMessages b = agentMessages a @ take j (messages @ new) \<and> (x = Inr () \<longrightarrow> length (messages @ new) \<le> j)"
proof -
  let ?a = "starting (a\<lparr>skipInitialSteeringPoll := skip\<rparr>)"
  have own: "restrain opts = opts" using assms(1) by (simp add: leaves_transcript_def)
  from assms(3) obtain s where s: "runAgentLoop (agent_environment opts) fuel messages (createContextSnapshot opts a)
      (createLoopConfig opts) ?a = Some s" and x: "executed_run (runWorld s) = (x, b)"
    unfolding prompt_executor_def by auto
  note run = run_state_of[OF s]
  have "tools_ok agent_tool_ok ((createContextSnapshot (restrain opts) a)\<lparr>ctxMessages := ms\<rparr>)" for ms
    by (auto simp: tools_ok_def createContextSnapshot_def restrain_def)
  from observed.run_moves[of opts, OF agent_config_own this, unfolded own, OF run]
  have moved: "run_moves ?a (runEvents s) (runWorld s)" .
  from whole_run(2,4)[OF assms(2) _ run, of False] obtain new where new: "announced (runEvents s) = messages @ new" by auto
  show ?thesis
  proof (cases "runningFailure (runWorld s)")
    case None
    with moved x have "agent_view b = fold process_view (runEvents s) (agent_view a)" "x = Inr ()"
      by (auto simp: run_moves_def starting_def executed_run_def)
    from arg_cong[OF this(1), of agentMessages] new show ?thesis
      by (intro exI[of _ new] exI[of _ "length (messages @ new)"]) (simp add: agent_view_fields process_view_messages)
  next
    case (Some f)
    with moved x obtain k where "agent_view b = fold process_view (take k (runEvents s)) (agent_view a)" "x \<noteq> Inr ()"
      by (auto simp: run_moves_def starting_def executed_run_def)
    from arg_cong[OF this(1), of agentMessages] this(2) new announced_take[of k "runEvents s"] show ?thesis
      by (auto simp: agent_view_fields process_view_messages)
  qed
qed

text \<open>C21: A prompt given to a running agent is refused and changes nothing. Given to an idle agent whose streams
  start once and whose callbacks do not assign the transcript, when its run ends, it leaves the agent
  idle. When nothing the run does not catch throws, the prompt resolves and the transcript is the one the
  agent had, then the prompt's messages, then what the run added. When something does, the transcript is
  the one it had, then the first of these messages, up to some point, and then, when the prompt
  resolves, one assistant message with the error; at most that message when it rejects.\<close>

theorem prompt_extends_transcript:
  assumes "leaves_transcript opts" and "single_start (agent_environment opts)"
    and "prompt_agent opts fuel input now a = Some (r, a')" and "prompts = normalizePromptInput input now"
  shows "if activeRun a then isl r \<and> a' = a
    else idle a' \<and>
      (case prompt_executor opts fuel prompts False (begin_run a) of
         None \<Rightarrow> False
       | Some (Inr u, b) \<Rightarrow> r = Inr () \<and> (\<exists>new. agentMessages a' = agentMessages a @ prompts @ new)
       | Some (Inl error, b) \<Rightarrow>
           \<exists>new j failure. agentMessages a' = agentMessages a @ take j (prompts @ new) @ failure \<and> length failure \<le> 1 \<and>
             (r = Inr () \<longrightarrow> (\<exists>wasAborted time. failure = [AssistantMessage (failure_message opts error wasAborted time)])))"
proof (cases "activeRun a")
  case False
  with assms(3,4) have run: "runWithLifecycle opts (prompt_executor opts fuel prompts False) a = Some (r, a')"
    by (simp add: prompt_agent_def runPromptMessages_def)
  note idle = lifecycle_outcome[OF run]
  with False obtain x b where ex: "prompt_executor opts fuel prompts False (begin_run a) = Some (x, b)"
    by (auto split: option.splits)
  from prompt_executor_view[OF assms(1,2) ex] obtain new j where b: "agentMessages b = agentMessages a @ take j (prompts @ new)"
    "x = Inr () \<longrightarrow> length (prompts @ new) \<le> j"
    by (auto simp: begin_run_def)
  show ?thesis
  proof (cases x)
    case (Inr u)
    with idle ex b False show ?thesis by auto
  next
    case (Inl error)
    with idle ex False assms(1) obtain time where m: "idle a'"
      "agentMessages a' \<in> {agentMessages b, agentMessages b @ [AssistantMessage (failure_message opts error (abortRequested (agentShared b)) time)]}"
      "r = Inr () \<longrightarrow> agentMessages a' = agentMessages b @ [AssistantMessage (failure_message opts error (abortRequested (agentShared b)) time)]"
      by (auto simp: Let_def)
    define failure where "failure = drop (length (agentMessages b)) (agentMessages a')"
    from m(2) have "agentMessages a' = agentMessages a @ take j (prompts @ new) @ failure" "length failure \<le> 1"
      by (auto simp: failure_def b(1))
    moreover from m(3) have "r = Inr () \<longrightarrow> failure = [AssistantMessage (failure_message opts error (abortRequested (agentShared b)) time)]"
      by (simp add: failure_def)
    ultimately have "\<exists>new j failure. agentMessages a' = agentMessages a @ take j (prompts @ new) @ failure \<and> length failure \<le> 1 \<and>
        (r = Inr () \<longrightarrow> (\<exists>wasAborted time. failure = [AssistantMessage (failure_message opts error wasAborted time)]))"
      by blast
    with Inl ex False m(1) show ?thesis by simp
  qed
qed (use assms(3) in \<open>auto simp: prompt_agent_def\<close>)

subsection \<open>A sample agent\<close>

text \<open>A model that answers at once, no tools, no hooks.\<close>

definition sample_options :: "unit agent_options" where
  "sample_options = \<lparr>optSystemPrompt = [], optModel = \<lparr>modelProvider = ''p'', modelId = ''m''\<rparr>, optThinkingLevel = ''off'',
     optTools = [], optToolExecution = ParallelMode, optConvertToLlm = (\<lambda>ms a. (Inr (defaultConvertToLlm ms), a)),
     optTransformContext = None, optGetApiKey = None, optShouldStopAfterTurn = None, optPrepareNextTurn = None,
     optPrepareNextTurnWithContext = None, optBeforeToolCall = None, optAfterToolCall = None,
     optStreamEvents = (\<lambda>cfg key ctx a. (Inr [], a)),
     optStreamResult = (\<lambda>a. (Inr (sample_reply [TextContent ''hello''] StopStop), a)),
     optListeners = [], optNow = (\<lambda>a. (0, a)), optValidate = (\<lambda>tool c. Inr (callArguments c)),
     optNextTask = (\<lambda>a. (0, a))\<rparr>"

definition sample_agent :: "unit agent" where
  "sample_agent = \<lparr>agentMessages = [], isStreaming = False, streamingMessage = None, pendingToolCalls = {}, errorMessage = None,
     activeRun = False, skipInitialSteeringPoll = False, agentShared = no_shared\<rparr>"

lemma sample_options_single_start: "single_start (agent_environment sample_options)"
  by (simp add: single_start_def starts_once_def agent_environment_def sample_options_def throwing_def acting_def outside_act_def)

lemma sample_options_leaves: "leaves_transcript sample_options"
  by (simp add: leaves_transcript_def restrain_def sample_options_def restrained_def[abs_def])

lemma sample_prompt_runs:
  "\<exists>b. prompt_executor sample_options (Suc (Suc (Suc 0))) [UserMessage (BlockContent [TextContent ''hi'']) 0] False
      (begin_run sample_agent) = Some (Inr (), b)"
  by (simp add: prompt_executor_def begin_run_def executed_run_def starting_def
      createContextSnapshot_def createLoopConfig_def agent_environment_def poll_steering_def drain_steering_def
      drain_follow_ups_def next_turn_hook_def throwing_def acting_def outside_act_def processEvents_def agent_sink_def
      sample_agent_def sample_options_def sample_reply_def
      no_shared_def new_queue_def drain_def turn_defs action_defs run_tool_calls_def)

theorem lifecycle_idle_witness:
  "\<exists>a'. runWithLifecycle sample_options (\<lambda>a. Some (Inl ''boom'', a)) sample_agent = Some (Inr (), a') \<and>
     idle a' \<and> errorMessage a' = Some ''boom'' \<and> length (agentMessages a') = 1"
proof -
  obtain r a' where run: "runWithLifecycle sample_options (\<lambda>a. Some (Inl ''boom'', a)) sample_agent = Some (r, a')"
    by (cases "handleRunFailure sample_options ''boom'' (begin_run sample_agent)"; cases "fst (handleRunFailure sample_options ''boom'' (begin_run sample_agent))")
      (auto simp: runWithLifecycle_def sample_agent_def)
  have "listeners_accept sample_options" "activeRun (begin_run sample_agent)" "\<not> activeRun sample_agent" "agentMessages (begin_run sample_agent) = []"
    by (simp_all add: listeners_accept_def sample_options_def begin_run_def sample_agent_def)
  with lifecycle_idle[OF run] sample_options_leaves have "r = Inr ()" "idle a'" "errorMessage a' = Some ''boom''" "length (agentMessages a') = 1"
    by (auto simp: Let_def)
  with run show ?thesis by blast
qed

theorem prompt_extends_transcript_witness:
  "\<exists>a' new. prompt_agent sample_options (Suc (Suc (Suc 0))) (TextPrompt ''hi'' []) 0 sample_agent = Some (Inr (), a') \<and> idle a' \<and>
     agentMessages a' = UserMessage (BlockContent [TextContent ''hi'']) 0 # new"
proof -
  obtain b where ex: "prompt_executor sample_options (Suc (Suc (Suc 0))) [UserMessage (BlockContent [TextContent ''hi'']) 0] False
      (begin_run sample_agent) = Some (Inr (), b)"
    using sample_prompt_runs by blast
  then have run: "prompt_agent sample_options (Suc (Suc (Suc 0))) (TextPrompt ''hi'' []) 0 sample_agent = Some (Inr (), finishRun b)"
    by (simp add: prompt_agent_def runPromptMessages_def runWithLifecycle_def sample_agent_def)
  from prompt_extends_transcript[OF sample_options_leaves sample_options_single_start run refl] ex
  show ?thesis using run by (auto simp: sample_agent_def)
qed

text \<open>Draining a queue, whichever its mode, as often as it has messages delivers every message once, in
  the order in which they were queued; one at a time, a drain delivers at most one.\<close>

theorem queue_in_order:
  "fst (message_queue.take_times drain (length (queueMessages q)) q) = queueMessages q \<and>
   queueMessages (enqueue q m) = queueMessages q @ [m] \<and>
   (queueMode q = AllMode \<or> length (fst (drain q)) \<le> 1) \<and> (hasItems q \<longleftrightarrow> fst (drain q) \<noteq> [])"
  using pending.take_times_all[of q "length (queueMessages q)"]
  by (auto simp: enqueue_def drain_def hasItems_def split: list.split queue_mode.split)

end
