(* ===== verification/SessionContext.thy ===== *)
theory SessionContext
  imports SessionTypes
begin

section \<open>Session context\<close>

text \<open>
  \<^verbatim>\<open>packages/agent/src/harness/session/context.ts\<close>: what the entries of a branch make the model see. The
  entry transforms and the projectors of custom entries are functions the embedder supplies.
\<close>

record session_context =
  contextMessages :: "agent_message list"
  contextThinkingLevel :: string
  contextModel :: "(string \<times> string) option"          \<comment> \<open>provider, model id\<close>
  contextActiveTools :: "string list option"

type_synonym context_transform = "entry list \<Rightarrow> entry list"

type_synonym message_projector = "entry \<Rightarrow> nat \<Rightarrow> entry list \<Rightarrow> agent_message list option"

definition empty_context :: session_context where
  "empty_context = \<lparr>contextMessages = [], contextThinkingLevel = ''off'', contextModel = None, contextActiveTools = None\<rparr>"

fun context_step :: "entry_body \<Rightarrow> session_context \<Rightarrow> session_context" where
  "context_step (ThinkingLevelEntry level) c = c\<lparr>contextThinkingLevel := level\<rparr>"
| "context_step (ModelChangeEntry provider model) c = c\<lparr>contextModel := Some (provider, model)\<rparr>"
| "context_step (MessageEntry (AssistantMessage m) terminate) c = c\<lparr>contextModel := Some (asstProvider m, asstModel m)\<rparr>"
| "context_step (ActiveToolsEntry names) c = c\<lparr>contextActiveTools := Some names\<rparr>"
| "context_step _ c = c"

definition deriveSessionContextState :: "entry list \<Rightarrow> session_context" where
  "deriveSessionContextState es = fold (\<lambda>e. context_step (entryBody e)) es empty_context"

text \<open>The last index with a property, as a loop from the end finds it.\<close>

definition last_index :: "('a \<Rightarrow> bool) \<Rightarrow> 'a list \<Rightarrow> nat option" where
  "last_index P xs = find (\<lambda>i. P (xs ! i)) (rev [0..<length xs])"

definition is_compaction :: "entry \<Rightarrow> bool" where
  "is_compaction e \<longleftrightarrow> entry_type e = CompactionType"

definition defaultContextEntryTransform :: "entry list \<Rightarrow> entry list" where
  "defaultContextEntryTransform es =
     (case last_index is_compaction es of
        None \<Rightarrow> es
      | Some i \<Rightarrow> es ! i # drop (Suc i) es)"

definition buildContextEntries :: "context_transform list \<Rightarrow> entry list \<Rightarrow> entry list" where
  "buildContextEntries transforms es = fold (\<lambda>t es. t es) transforms (defaultContextEntryTransform es)"

definition sessionEntryToContextMessages :: "(string \<times> message_projector) list \<Rightarrow> entry \<Rightarrow> nat \<Rightarrow> entry list \<Rightarrow> agent_message list" where
  "sessionEntryToContextMessages projectors e i es =
     (case entryBody e of
        MessageEntry m terminate \<Rightarrow>
          (case m of
             AssistantMessage am \<Rightarrow> if asstStopReason am = DeferredStop then [] else [m]
           | _ \<Rightarrow> [m])
      | CompactionEntry summary tail tokensBefore details u \<Rightarrow>
          CompactionSummaryMessage summary tokensBefore (entryTimestamp e) # tail
      | BranchSummaryEntry fromId summary details u \<Rightarrow>
          if summary = [] then [] else [BranchSummaryMessage summary fromId (entryTimestamp e)]
      | CustomEntry customType data \<Rightarrow>
          (case map_of projectors customType of
             None \<Rightarrow> []
           | Some project \<Rightarrow> (case project e i es of None \<Rightarrow> [] | Some ms \<Rightarrow> ms))
      | _ \<Rightarrow> [])"

definition buildSessionContext :: "context_transform list \<Rightarrow> (string \<times> message_projector) list \<Rightarrow> entry list \<Rightarrow> session_context" where
  "buildSessionContext transforms projectors path =
     (let es = buildContextEntries transforms path
      in (deriveSessionContextState path)
           \<lparr>contextMessages := concat (map (\<lambda>i. sessionEntryToContextMessages projectors (es ! i) i es) [0..<length es])\<rparr>)"

subsection \<open>The last compaction\<close>

lemma last_index_snoc: "last_index P (xs @ [x]) = (if P x then Some (length xs) else last_index P xs)"
proof -
  have "find (\<lambda>i. P ((xs @ [x]) ! i)) (rev [0..<length xs]) = find (\<lambda>i. P (xs ! i)) (rev [0..<length xs])"
    by (rule find_cong) (auto simp: nth_append)
  then show ?thesis by (simp add: last_index_def)
qed

lemma last_index_Nil [simp]: "last_index P [] = None"
  by (simp add: last_index_def)

lemma last_index_None: "last_index P xs = None \<longleftrightarrow> (\<forall>x \<in> set xs. \<not> P x)"
  by (induction xs rule: rev_induct) (auto simp: last_index_snoc)

lemma last_index_append:
  "last_index P (xs @ ys) = (case last_index P ys of Some i \<Rightarrow> Some (length xs + i) | None \<Rightarrow> last_index P xs)"
  by (induction ys rule: rev_induct) (auto simp: last_index_snoc append_assoc[symmetric] simp del: append_assoc)

lemma last_index_Cons_hd: "P x \<Longrightarrow> \<forall>y \<in> set ys. \<not> P y \<Longrightarrow> last_index P (x # ys) = Some 0"
  using last_index_append[of P "[x]" ys] last_index_None[of P ys] by (simp add: last_index_def)

lemma default_transform_compacted:
  assumes "is_compaction c" and "\<forall>e \<in> set post. \<not> is_compaction e"
  shows "defaultContextEntryTransform (pre @ c # post) = c # post"
  using last_index_append[of is_compaction pre "c # post"] last_index_Cons_hd[OF assms]
  by (simp add: defaultContextEntryTransform_def nth_append)

lemma default_transform_uncompacted:
  "\<forall>e \<in> set es. \<not> is_compaction e \<Longrightarrow> defaultContextEntryTransform es = es"
  using last_index_None[of is_compaction es] by (simp add: defaultContextEntryTransform_def)

text \<open>Every path is one without a compaction or splits at its last one.\<close>

lemma path_cases:
  obtains "\<forall>e \<in> set es. \<not> is_compaction e"
  | pre c post where "es = pre @ c # post" "is_compaction c" "\<forall>e \<in> set post. \<not> is_compaction e"
  using split_list_last_prop[of es is_compaction] by blast

subsection \<open>The derived state\<close>

fun model_set_by :: "entry_body \<Rightarrow> (string \<times> string) option" where
  "model_set_by (ModelChangeEntry provider model) = Some (provider, model)"
| "model_set_by (MessageEntry (AssistantMessage m) terminate) = Some (asstProvider m, asstModel m)"
| "model_set_by _ = None"

fun level_set_by :: "entry_body \<Rightarrow> string option" where
  "level_set_by (ThinkingLevelEntry level) = Some level"
| "level_set_by _ = None"

fun tools_set_by :: "entry_body \<Rightarrow> string list option" where
  "tools_set_by (ActiveToolsEntry names) = Some names"
| "tools_set_by _ = None"

text \<open>The value of the last entry that sets one.\<close>

definition last_set :: "(entry_body \<Rightarrow> 'a option) \<Rightarrow> entry list \<Rightarrow> 'a option" where
  "last_set f es =
     (let xs = List.map_filter (\<lambda>e. f (entryBody e)) es in if xs = [] then None else Some (last xs))"

lemma last_set_Nil [simp]: "last_set f [] = None"
  by (simp add: last_set_def List.map_filter_def)

lemma last_set_snoc: "last_set f (es @ [e]) = (case f (entryBody e) of None \<Rightarrow> last_set f es | Some x \<Rightarrow> Some x)"
  by (auto simp: last_set_def List.map_filter_def Let_def split: option.splits)

lemma context_step_fields:
  "contextModel (context_step b c) = (case model_set_by b of None \<Rightarrow> contextModel c | Some m \<Rightarrow> Some m)"
  "contextThinkingLevel (context_step b c) = (case level_set_by b of None \<Rightarrow> contextThinkingLevel c | Some l \<Rightarrow> l)"
  "contextActiveTools (context_step b c) = (case tools_set_by b of None \<Rightarrow> contextActiveTools c | Some t \<Rightarrow> Some t)"
  by (cases "(b, c)" rule: context_step.cases; simp)+

lemma derived_state:
  "contextModel (deriveSessionContextState es) = last_set model_set_by es \<and>
   contextThinkingLevel (deriveSessionContextState es) = (case last_set level_set_by es of None \<Rightarrow> ''off'' | Some l \<Rightarrow> l) \<and>
   contextActiveTools (deriveSessionContextState es) = last_set tools_set_by es"
proof (induction es rule: rev_induct)
  case (snoc e es)
  then show ?case
    by (simp add: deriveSessionContextState_def last_set_snoc context_step_fields split: option.split)
qed (simp add: deriveSessionContextState_def empty_context_def)

text \<open>Whatever transforms and projectors extensions install, the messages of a context after a
  compaction do not depend on anything before the compaction, and without extensions they are its
  summary, its retained tail, and the messages of the later entries; the model, the thinking level and
  the active tools are those last set on the whole path, before or after the compaction.\<close>

theorem context_after_compaction:
  assumes "entryBody c = CompactionEntry summary tail tokensBefore details u" and "\<forall>e \<in> set post. \<not> is_compaction e"
  shows "contextMessages (buildSessionContext ts ps (pre @ c # post)) = contextMessages (buildSessionContext ts ps (c # post)) \<and>
    contextMessages (buildSessionContext [] [] (pre @ c # post)) =
      CompactionSummaryMessage summary tokensBefore (entryTimestamp c) # tail @
      concat (map (\<lambda>e. sessionEntryToContextMessages [] e 0 []) post) \<and>
    contextModel (buildSessionContext ts ps (pre @ c # post)) = last_set model_set_by (pre @ c # post) \<and>
    contextThinkingLevel (buildSessionContext ts ps (pre @ c # post)) =
      (case last_set level_set_by (pre @ c # post) of None \<Rightarrow> ''off'' | Some l \<Rightarrow> l) \<and>
    contextActiveTools (buildSessionContext ts ps (pre @ c # post)) = last_set tools_set_by (pre @ c # post)"
proof -
  have c: "is_compaction c" using assms(1) by (simp add: is_compaction_def entry_type_def)
  note pre = default_transform_compacted[OF c assms(2), of pre] default_transform_compacted[OF c assms(2), of "[]"]
  have plain: "sessionEntryToContextMessages [] e i es = sessionEntryToContextMessages [] e 0 []" for e i es
    by (simp add: sessionEntryToContextMessages_def split: entry_body.split agent_message.split)
  have "concat (map (\<lambda>i. sessionEntryToContextMessages [] (es ! i) i es) [0..<length es]) =
      concat (map (\<lambda>e. sessionEntryToContextMessages [] e 0 []) es)" for es
    unfolding plain[of "es ! i" i es for i] by (rule arg_cong[where f = concat], rule nth_equalityI) auto
  with pre assms(1) show ?thesis
    using derived_state[of "pre @ c # post"]
    by (simp add: buildSessionContext_def buildContextEntries_def Let_def sessionEntryToContextMessages_def)
qed

definition context_entry :: "string \<Rightarrow> entry_body \<Rightarrow> nat \<Rightarrow> entry" where
  "context_entry i b n = \<lparr>entryId = i, entryBody = b, entrySeq = n, entryParent = None, entryTimestamp = 0\<rparr>"

theorem context_after_compaction_witness:
  "contextMessages (buildSessionContext [] []
     [context_entry ''a'' (MessageEntry (UserMessage (PlainContent ''old'') 0) False) 1,
      context_entry ''b'' (CompactionEntry ''sum'' [] 9 JNull None) 2,
      context_entry ''c'' (MessageEntry (UserMessage (PlainContent ''new'') 0) False) 3]) =
   [CompactionSummaryMessage ''sum'' 9 0, UserMessage (PlainContent ''new'') 0]"
proof -
  let ?c = "context_entry ''b'' (CompactionEntry ''sum'' [] 9 JNull None) 2"
  let ?post = "[context_entry ''c'' (MessageEntry (UserMessage (PlainContent ''new'') 0) False) 3]"
  have "entryBody ?c = CompactionEntry ''sum'' [] 9 JNull None" and "\<forall>e \<in> set ?post. \<not> is_compaction e"
    by (simp_all add: context_entry_def is_compaction_def entry_type_def)
  note claim = context_after_compaction[OF this, of "[]" "[]"
    "[context_entry ''a'' (MessageEntry (UserMessage (PlainContent ''old'') 0) False) 1]"]
  have "contextMessages (buildSessionContext [] []
      ([context_entry ''a'' (MessageEntry (UserMessage (PlainContent ''old'') 0) False) 1] @ ?c # ?post)) =
    CompactionSummaryMessage ''sum'' 9 (entryTimestamp ?c) # [] @
      concat (map (\<lambda>e. sessionEntryToContextMessages [] e 0 []) ?post)"
    by (rule conjunct1[OF conjunct2[OF claim]])
  moreover have "entryTimestamp ?c = 0" by (simp add: context_entry_def)
  moreover have "concat (map (\<lambda>e. sessionEntryToContextMessages [] e 0 []) ?post) = [UserMessage (PlainContent ''new'') 0]"
    by (simp add: context_entry_def sessionEntryToContextMessages_def)
  ultimately show ?thesis by simp
qed

end
