(* ===== verification/SummaryText.thy ===== *)
theory SummaryText
  imports JsonText "HOL-Library.List_Lexorder" "HOL-Library.Char_ord"
begin

section \<open>Summarised text\<close>

text \<open>
  \<^verbatim>\<open>packages/agent/src/harness/compaction/utils.ts\<close>: the files a conversation touched, and the text of a
  conversation that a model is asked to summarise. A JavaScript \<open>Set\<close> is the list of its members in the
  order of their insertion; strings are sorted by their code units.
\<close>

subsection \<open>File operations\<close>

record file_operations =
  filesRead :: "string list"
  filesWritten :: "string list"
  filesEdited :: "string list"

definition set_add :: "'a \<Rightarrow> 'a list \<Rightarrow> 'a list" where
  "set_add x xs = (if x \<in> set xs then xs else xs @ [x])"

definition createFileOps :: file_operations where
  "createFileOps = \<lparr>filesRead = [], filesWritten = [], filesEdited = []\<rparr>"

text \<open>A string property of an object.\<close>

definition string_property :: "string \<Rightarrow> js_value \<Rightarrow> string option" where
  "string_property k v =
     (case v of
        JObject symbols es \<Rightarrow> (case map_of es (js_of k) of Some (JString s) \<Rightarrow> Some (text_of s) | _ \<Rightarrow> None)
      | _ \<Rightarrow> None)"

definition add_file_op :: "tool_call \<Rightarrow> file_operations \<Rightarrow> file_operations" where
  "add_file_op c ops =
     (case string_property ''path'' (callArguments c) of
        None \<Rightarrow> ops
      | Some path \<Rightarrow>
          if path = '''' then ops
          else if callName c = ''read'' then ops\<lparr>filesRead := set_add path (filesRead ops)\<rparr>
          else if callName c = ''write'' then ops\<lparr>filesWritten := set_add path (filesWritten ops)\<rparr>
          else if callName c = ''edit'' then ops\<lparr>filesEdited := set_add path (filesEdited ops)\<rparr>
          else ops)"

fun extractFileOpsFromMessage :: "agent_message \<Rightarrow> file_operations \<Rightarrow> file_operations" where
  "extractFileOpsFromMessage (AssistantMessage m) ops = fold add_file_op (tool_calls_of (asstContent m)) ops"
| "extractFileOpsFromMessage _ ops = ops"

definition computeFileLists :: "file_operations \<Rightarrow> string list \<times> string list" where
  "computeFileLists ops =
     (let modified = fold set_add (filesEdited ops @ filesWritten ops) []
      in (sort (filter (\<lambda>f. f \<notin> set modified) (filesRead ops)), sort modified))"

definition file_section :: "string \<Rightarrow> string list \<Rightarrow> string list" where
  "file_section tag files =
     (if files = [] then []
      else [''<'' @ tag @ ''>'' @ newline @ join newline files @ newline @ ''</'' @ tag @ ''>''])"

definition formatFileOperations :: "string list \<Rightarrow> string list \<Rightarrow> string" where
  "formatFileOperations readFiles modifiedFiles =
     (let sections = file_section ''read-files'' readFiles @ file_section ''modified-files'' modifiedFiles
      in if sections = [] then '''' else newline @ newline @ join (newline @ newline) sections)"

subsection \<open>Conversations as text\<close>

text \<open>\<open>contentText\<close> of \<^verbatim>\<open>packages/ai/src/utils/text.ts\<close>.\<close>

fun text_block :: "content_block \<Rightarrow> string option" where
  "text_block (TextContent t) = Some t"
| "text_block _ = None"

definition contentText :: "message_content \<Rightarrow> string \<Rightarrow> string" where
  "contentText c separator =
     (case c of PlainContent s \<Rightarrow> s | BlockContent bs \<Rightarrow> join separator (List.map_filter text_block bs))"

definition TOOL_RESULT_MAX_CHARS :: nat where
  "TOOL_RESULT_MAX_CHARS = 2000"

definition truncateForSummary :: "string \<Rightarrow> nat \<Rightarrow> string" where
  "truncateForSummary t maxChars =
     (if length t \<le> maxChars then t
      else take maxChars t @ newline @ newline @ ''[... '' @ show_nat (length t - maxChars) @ '' more characters truncated]'')"

text \<open>\<open>Object.entries\<close> of a call's arguments, which are an object.\<close>

definition object_entries :: "js_value \<Rightarrow> (js_string \<times> js_value) list" where
  "object_entries v = (case v of JObject symbols es \<Rightarrow> es | _ \<Rightarrow> [])"

definition call_text :: "tool_call \<Rightarrow> string" where
  "call_text c =
     callName c @ ''('' @
     join '', '' (map (\<lambda>(k, v). text_of k @ ''='' @ text_of (safeJsonStringify v)) (object_entries (callArguments c))) @ '')''"

fun thinking_block :: "content_block \<Rightarrow> string option" where
  "thinking_block (ThinkingContent t) = Some t"
| "thinking_block _ = None"

definition assistant_parts :: "assistant_message \<Rightarrow> string list" where
  "assistant_parts m =
     (let bs = asstContent m; thinking = List.map_filter thinking_block bs; calls = map call_text (tool_calls_of bs)
      in (if thinking \<noteq> [] then [''[Assistant thinking]: '' @ join newline thinking] else []) @
         (if \<exists>b \<in> set bs. text_block b \<noteq> None then [''[Assistant]: '' @ contentText (BlockContent bs) newline] else []) @
         (if calls \<noteq> [] then [''[Assistant tool calls]: '' @ join ''; '' calls] else []))"

fun message_parts :: "agent_message \<Rightarrow> string list" where
  "message_parts (UserMessage content timestamp) =
     (let t = contentText content '''' in if t \<noteq> '''' then [''[User]: '' @ t] else [])"
| "message_parts (AssistantMessage m) = assistant_parts m"
| "message_parts (ToolResultMessage r) =
     (let t = contentText (BlockContent (resContent r)) ''''
      in if t \<noteq> '''' then [''[Tool result]: '' @ truncateForSummary t TOOL_RESULT_MAX_CHARS] else [])"
| "message_parts _ = []"

definition serializeConversation :: "agent_message list \<Rightarrow> string" where
  "serializeConversation ms = join (newline @ newline) (concat (map message_parts ms))"

subsection \<open>File lists\<close>

lemma set_set_add [simp]: "set (set_add x xs) = insert x (set xs)"
  by (auto simp: set_add_def)

lemma distinct_set_add [simp]: "distinct (set_add x xs) = distinct xs"
  by (simp add: set_add_def)

lemma set_fold_set_add [simp]: "set (fold set_add ys xs) = set ys \<union> set xs"
  by (induction ys arbitrary: xs) auto

lemma distinct_fold_set_add: "distinct xs \<Longrightarrow> distinct (fold set_add ys xs)"
  by (induction ys arbitrary: xs) auto

text \<open>Accumulated operations have no repetitions.\<close>

definition proper_file_ops :: "file_operations \<Rightarrow> bool" where
  "proper_file_ops ops \<longleftrightarrow> distinct (filesRead ops) \<and> distinct (filesWritten ops) \<and> distinct (filesEdited ops)"

lemma proper_createFileOps [simp]: "proper_file_ops createFileOps"
  by (simp add: proper_file_ops_def createFileOps_def)

lemma proper_add_file_op: "proper_file_ops ops \<Longrightarrow> proper_file_ops (add_file_op c ops)"
  by (simp add: proper_file_ops_def add_file_op_def split: option.split)

lemma proper_fold_add_file_op: "proper_file_ops ops \<Longrightarrow> proper_file_ops (fold add_file_op cs ops)"
  by (induction cs arbitrary: ops) (auto simp: proper_add_file_op)

lemma proper_extract: "proper_file_ops ops \<Longrightarrow> proper_file_ops (extractFileOpsFromMessage m ops)"
  by (cases m) (auto simp: proper_fold_add_file_op)

text \<open>The file a tool call names, for one of the three file tools.\<close>

definition call_touches :: "string \<Rightarrow> string \<Rightarrow> tool_call \<Rightarrow> bool" where
  "call_touches tool f c \<longleftrightarrow> callName c = tool \<and> f \<noteq> '''' \<and> string_property ''path'' (callArguments c) = Some f"

fun calls_of_message :: "agent_message \<Rightarrow> tool_call list" where
  "calls_of_message (AssistantMessage m) = tool_calls_of (asstContent m)"
| "calls_of_message _ = []"

definition touched :: "string \<Rightarrow> agent_message list \<Rightarrow> string set" where
  "touched tool ms = {f. \<exists>m \<in> set ms. \<exists>c \<in> set (calls_of_message m). call_touches tool f c}"

lemma extract_calls: "extractFileOpsFromMessage m ops = fold add_file_op (calls_of_message m) ops"
  by (cases m) auto

lemma set_add_file_op:
  "set (filesRead (add_file_op c ops)) = set (filesRead ops) \<union> {f. call_touches ''read'' f c}"
  "set (filesWritten (add_file_op c ops)) = set (filesWritten ops) \<union> {f. call_touches ''write'' f c}"
  "set (filesEdited (add_file_op c ops)) = set (filesEdited ops) \<union> {f. call_touches ''edit'' f c}"
  by (auto simp: add_file_op_def call_touches_def split: option.splits)

lemma set_fold_add_file_op:
  "set (filesRead (fold add_file_op cs ops)) = set (filesRead ops) \<union> {f. \<exists>c \<in> set cs. call_touches ''read'' f c} \<and>
   set (filesWritten (fold add_file_op cs ops)) = set (filesWritten ops) \<union> {f. \<exists>c \<in> set cs. call_touches ''write'' f c} \<and>
   set (filesEdited (fold add_file_op cs ops)) = set (filesEdited ops) \<union> {f. \<exists>c \<in> set cs. call_touches ''edit'' f c}"
  by (induction cs arbitrary: ops) (auto simp: set_add_file_op)

lemma set_fold_extract:
  "set (filesRead (fold extractFileOpsFromMessage ms ops)) = set (filesRead ops) \<union> touched ''read'' ms \<and>
   set (filesWritten (fold extractFileOpsFromMessage ms ops)) = set (filesWritten ops) \<union> touched ''write'' ms \<and>
   set (filesEdited (fold extractFileOpsFromMessage ms ops)) = set (filesEdited ops) \<union> touched ''edit'' ms"
proof (induction ms arbitrary: ops)
  case (Cons m ms)
  then show ?case
    using set_fold_add_file_op[of "calls_of_message m" ops] by (auto simp: touched_def extract_calls)
qed (simp add: touched_def)

lemma proper_fold_extract: "proper_file_ops ops \<Longrightarrow> proper_file_ops (fold extractFileOpsFromMessage ms ops)"
  by (induction ms arbitrary: ops) (auto simp: proper_extract)

lemma file_lists_of_operations:
  assumes "proper_file_ops ops" and "computeFileLists ops = (readFiles, modifiedFiles)"
  shows "set readFiles = set (filesRead ops) - (set (filesEdited ops) \<union> set (filesWritten ops))"
    and "set modifiedFiles = set (filesEdited ops) \<union> set (filesWritten ops)"
    and "sorted readFiles" "sorted modifiedFiles" "distinct readFiles" "distinct modifiedFiles"
  using assms by (auto simp: computeFileLists_def Let_def proper_file_ops_def distinct_fold_set_add)

end
