(* ===== verification/Retry.thy ===== *)
theory Retry
  imports Messages
begin

section \<open>Retried model calls\<close>

text \<open>
  \<^verbatim>\<open>packages/ai/src/utils/retry.ts\<close>: which failed responses look transient, and the loop that
  repeats a call with exponential backoff. A world of type \<open>'w\<close> answers the calls and ends the sleeps;
  the callbacks change it, and what is called and reported is recorded in a trace.
\<close>

subsection \<open>Transient errors\<close>

text \<open>The regular expressions of the classifier: letters in either case, optional letters, \<open>.?\<close>.\<close>

datatype pattern_item = Letter char | OptionalLetter char | OptionalAny

definition lower :: "char \<Rightarrow> char" where
  "lower c = (if 65 \<le> (of_char c :: nat) \<and> (of_char c :: nat) \<le> 90 then char_of (of_char c + 32 :: nat) else c)"

definition line_terminator :: "char \<Rightarrow> bool" where
  "line_terminator c \<longleftrightarrow> c = CHR 0x0A \<or> c = CHR 0x0D"

fun matches_at :: "pattern_item list \<Rightarrow> string \<Rightarrow> bool" where
  "matches_at [] s = True"
| "matches_at (Letter c # ps) s = (case s of [] \<Rightarrow> False | d # s' \<Rightarrow> lower c = lower d \<and> matches_at ps s')"
| "matches_at (OptionalLetter c # ps) s =
     ((case s of [] \<Rightarrow> False | d # s' \<Rightarrow> lower c = lower d \<and> matches_at ps s') \<or> matches_at ps s)"
| "matches_at (OptionalAny # ps) s =
     ((case s of [] \<Rightarrow> False | d # s' \<Rightarrow> \<not> line_terminator d \<and> matches_at ps s') \<or> matches_at ps s)"

fun matches_somewhere :: "pattern_item list \<Rightarrow> string \<Rightarrow> bool" where
  "matches_somewhere ps [] = matches_at ps []"
| "matches_somewhere ps (c # s) = (matches_at ps (c # s) \<or> matches_somewhere ps s)"

text \<open>A source pattern, in which \<open>?\<close> follows a letter or a dot.\<close>

fun parse_pattern :: "string \<Rightarrow> pattern_item list" where
  "parse_pattern [] = []"
| "parse_pattern [c] = [Letter c]"
| "parse_pattern (c # q # s) =
     (if q = CHR ''?'' then (if c = CHR ''.'' then OptionalAny else OptionalLetter c) # parse_pattern s
      else Letter c # parse_pattern (q # s))"

definition NON_RETRYABLE_PROVIDER_LIMIT_ERROR_PATTERN :: "string list" where
  "NON_RETRYABLE_PROVIDER_LIMIT_ERROR_PATTERN =
     [''GoUsageLimitError'', ''FreeUsageLimitError'', ''Monthly usage limit reached'', ''available balance'',
      ''insufficient_quota'', ''out of budget'', ''quota exceeded'', ''billing'']"

definition RETRYABLE_PROVIDER_ERROR_PATTERN :: "string list" where
  "RETRYABLE_PROVIDER_ERROR_PATTERN =
     [''overloaded'', ''rate.?limit'', ''too many requests'', ''429'', ''500'', ''502'', ''503'', ''504'', ''524'',
      ''service.?unavailable'', ''server.?error'', ''internal.?error'',
      ''provider.?returned.?error'', ''exceeded request buffer limit while retrying upstream'',
      ''network.?error'', ''connection.?error'', ''connection.?refused'', ''connection.?lost'',
      ''other side closed'', ''fetch failed'', ''getaddrinfo'', ''ENOTFOUND'', ''EAI_AGAIN'',
      ''upstream.?connect'', ''reset before headers'', ''socket hang up'', ''socket connection was closed'',
      ''timed? out'', ''timeout'', ''terminated'', ''websocket.?closed'', ''websocket.?error'',
      ''ended without'', ''stream ended before message_stop'',
      ''stream ended before a terminal response event'', ''http2 request did not get a response'',
      ''retry delay'', ''you can retry your request'', ''try your request again'',
      ''please retry your request'', ''ResourceExhausted'']"

definition test_patterns :: "string list \<Rightarrow> string \<Rightarrow> bool" where
  "test_patterns ps s \<longleftrightarrow> list_ex (\<lambda>p. matches_somewhere (parse_pattern p) s) ps"

definition isRetryableAssistantError :: "assistant_message \<Rightarrow> bool" where
  "isRetryableAssistantError m =
     (asstStopReason m = ErrorStop \<and>
      (case asstErrorMessage m of
         None \<Rightarrow> False
       | Some e \<Rightarrow> e \<noteq> '''' \<and> \<not> test_patterns NON_RETRYABLE_PROVIDER_LIMIT_ERROR_PATTERN e \<and>
           test_patterns RETRYABLE_PROVIDER_ERROR_PATTERN e))"

subsection \<open>The loop\<close>

record retry_policy =
  retryEnabled :: bool
  maxRetries :: int
  baseDelayMs :: int

datatype retry_event =
    CallMade assistant_message                    \<comment> \<open>\<open>produce()\<close> and its response\<close>
  | RetryScheduled nat int int string             \<comment> \<open>attempt, maximum, delay, error\<close>
  | RetryAttemptStart
  | RetryFinished bool nat "string option"        \<comment> \<open>success, attempt, final error\<close>

text \<open>What a call needs of the world: \<open>sleepFor\<close> says whether the sleep was aborted.\<close>

record 'w retry_world =
  produce :: "'w \<Rightarrow> assistant_message \<times> 'w"
  sleepFor :: "int \<Rightarrow> 'w \<Rightarrow> bool \<times> 'w"
  notify :: "retry_event \<Rightarrow> 'w \<Rightarrow> 'w"

definition max_attempts :: "retry_policy option \<Rightarrow> int" where
  "max_attempts policy = (case policy of None \<Rightarrow> 0 | Some p \<Rightarrow> if retryEnabled p then maxRetries p else 0)"

definition base_delay :: "retry_policy option \<Rightarrow> int" where
  "base_delay policy = (case policy of None \<Rightarrow> 0 | Some p \<Rightarrow> baseDelayMs p)"

text \<open>\<open>error || fallback\<close> on an optional text.\<close>

definition or_text :: "string option \<Rightarrow> string \<Rightarrow> string" where
  "or_text t fallback = (case t of None \<Rightarrow> fallback | Some s \<Rightarrow> if s = '''' then fallback else s)"

text \<open>Reporting: the callback runs and the event is recorded; \<open>onRetryFinished\<close> only after a retry.\<close>

definition finish_retry :: "'w retry_world \<Rightarrow> bool \<Rightarrow> nat \<Rightarrow> string option \<Rightarrow> 'w \<Rightarrow> retry_event list \<times> 'w" where
  "finish_retry env success attempt final w =
     (if attempt = 0 then ([], w)
      else ([RetryFinished success attempt final], notify env (RetryFinished success attempt final) w))"

function retry_loop ::
  "'w retry_world \<Rightarrow> retry_policy option \<Rightarrow> nat \<Rightarrow> 'w \<Rightarrow> assistant_message \<times> retry_event list \<times> 'w" where
  "retry_loop env policy attempt w =
     (case produce env w of (response, w1) \<Rightarrow>
        if asstStopReason response = AbortedStop then
          (case finish_retry env False attempt None w1 of (es, w2) \<Rightarrow> (response, CallMade response # es, w2))
        else if asstStopReason response \<noteq> ErrorStop then
          (case finish_retry env True attempt None w1 of (es, w2) \<Rightarrow> (response, CallMade response # es, w2))
        else if max_attempts policy \<le> int attempt \<or> \<not> isRetryableAssistantError response then
          (case finish_retry env False attempt (asstErrorMessage response) w1 of (es, w2) \<Rightarrow>
             (response, CallMade response # es, w2))
        else
          (let next = Suc attempt; message = or_text (asstErrorMessage response) ''Unknown error'';
               delay = base_delay policy * 2 ^ attempt;
               scheduled = RetryScheduled next (max_attempts policy) delay message
           in case sleepFor env delay (notify env scheduled w1) of (aborted, w2) \<Rightarrow>
                if aborted then
                  (response\<lparr>asstStopReason := AbortedStop, asstErrorMessage := None\<rparr>,
                   [CallMade response, scheduled, RetryFinished False next (Some message)],
                   notify env (RetryFinished False next (Some message)) w2)
                else
                  (case retry_loop env policy next (notify env RetryAttemptStart w2) of (r, es, w3) \<Rightarrow>
                     (r, CallMade response # scheduled # RetryAttemptStart # es, w3))))"
  by pat_completeness auto
termination
  by (relation "measure (\<lambda>(env, policy, attempt, w). nat (max_attempts policy - int attempt))") auto

declare retry_loop.simps [simp del]

definition retryAssistantCall ::
  "'w retry_world \<Rightarrow> retry_policy option \<Rightarrow> 'w \<Rightarrow> assistant_message \<times> retry_event list \<times> 'w" where
  "retryAssistantCall env policy w = retry_loop env policy 0 w"

subsection \<open>The shape of a retried call\<close>

text \<open>A failed round: a transient error, its report, the sleep, and the report of the next attempt.\<close>

definition failed_round :: "retry_policy option \<Rightarrow> nat \<Rightarrow> assistant_message \<Rightarrow> retry_event list" where
  "failed_round policy k m =
     [CallMade m, RetryScheduled (Suc k) (max_attempts policy) (base_delay policy * 2 ^ k)
        (or_text (asstErrorMessage m) ''Unknown error''), RetryAttemptStart]"

definition failed_rounds :: "retry_policy option \<Rightarrow> nat \<Rightarrow> assistant_message list \<Rightarrow> retry_event list" where
  "failed_rounds policy k ms = concat (map (\<lambda>(i, m). failed_round policy i m) (enumerate k ms))"

text \<open>
  Rounds that failed, from a world to the next: the response is transient, retries are left, and the sleep
  is not aborted.
\<close>

definition scheduled_retry :: "retry_policy option \<Rightarrow> nat \<Rightarrow> assistant_message \<Rightarrow> retry_event" where
  "scheduled_retry policy k m =
     RetryScheduled (Suc k) (max_attempts policy) (base_delay policy * 2 ^ k) (or_text (asstErrorMessage m) ''Unknown error'')"

definition backoff :: "'w retry_world \<Rightarrow> retry_policy option \<Rightarrow> nat \<Rightarrow> assistant_message \<Rightarrow> 'w \<Rightarrow> bool \<times> 'w" where
  "backoff env policy k m w = sleepFor env (base_delay policy * 2 ^ k) (notify env (scheduled_retry policy k m) w)"

definition retry_due :: "retry_policy option \<Rightarrow> nat \<Rightarrow> assistant_message \<Rightarrow> bool" where
  "retry_due policy k m \<longleftrightarrow> isRetryableAssistantError m \<and> int k < max_attempts policy"

fun retried_rounds :: "'w retry_world \<Rightarrow> retry_policy option \<Rightarrow> nat \<Rightarrow> 'w \<Rightarrow> assistant_message list \<Rightarrow> 'w \<Rightarrow> bool" where
  "retried_rounds env policy k w [] v = (v = w)"
| "retried_rounds env policy k w (m # ms) v =
     (\<exists>w1 w2. produce env w = (m, w1) \<and> retry_due policy k m \<and> backoff env policy k m w1 = (False, w2) \<and>
        retried_rounds env policy (Suc k) (notify env RetryAttemptStart w2) ms v)"

text \<open>The last round: a response that is not to be retried is returned, or the sleep is aborted.\<close>

definition returned :: "'w retry_world \<Rightarrow> retry_policy option \<Rightarrow> nat \<Rightarrow> 'w \<Rightarrow> assistant_message \<Rightarrow> retry_event list \<Rightarrow> 'w \<Rightarrow> bool" where
  "returned env policy k v r es w' \<longleftrightarrow>
     (\<exists>w1. produce env v = (r, w1) \<and> \<not> retry_due policy k r \<and>
       (let finished = RetryFinished (asstStopReason r \<notin> {AbortedStop, ErrorStop}) k
              (if asstStopReason r = ErrorStop then asstErrorMessage r else None)
        in es = CallMade r # (if k = 0 then [] else [finished]) \<and> w' = (if k = 0 then w1 else notify env finished w1)))"

definition aborted_asleep ::
  "'w retry_world \<Rightarrow> retry_policy option \<Rightarrow> nat \<Rightarrow> 'w \<Rightarrow> assistant_message \<Rightarrow> retry_event list \<Rightarrow> 'w \<Rightarrow> bool" where
  "aborted_asleep env policy k v r es w' \<longleftrightarrow>
     (\<exists>m w1 w2. produce env v = (m, w1) \<and> retry_due policy k m \<and> backoff env policy k m w1 = (True, w2) \<and>
       r = m\<lparr>asstStopReason := AbortedStop, asstErrorMessage := None\<rparr> \<and>
       (let finished = RetryFinished False (Suc k) (Some (or_text (asstErrorMessage m) ''Unknown error''))
        in es = [CallMade m, scheduled_retry policy k m, finished] \<and> w' = notify env finished w2))"

lemma failed_rounds_Cons: "failed_rounds policy k (m # ms) = failed_round policy k m @ failed_rounds policy (Suc k) ms"
  by (simp add: failed_rounds_def)

lemma failed_rounds_Nil [simp]: "failed_rounds policy k [] = []"
  by (simp add: failed_rounds_def)

lemma retried_rounds_bound: "retried_rounds env policy k w ms v \<Longrightarrow> ms \<noteq> [] \<Longrightarrow> int (k + length ms) \<le> max_attempts policy"
proof (induction ms arbitrary: k w)
  case (Cons m ms)
  then show ?case by (cases "ms = []") (fastforce simp: retry_due_def)+
qed simp

lemma retry_loop_shape:
  "retry_loop env policy k w = (r, es, w') \<Longrightarrow>
   \<exists>ms v last. retried_rounds env policy k w ms v \<and> es = failed_rounds policy k ms @ last \<and>
     (returned env policy (k + length ms) v r last w' \<or> aborted_asleep env policy (k + length ms) v r last w')"
proof (induction "nat (max_attempts policy - int k)" arbitrary: k w r es w' rule: less_induct)
  case less
  obtain m w1 where call: "produce env w = (m, w1)" by fastforce
  obtain aborted w2 where slept: "backoff env policy k m w1 = (aborted, w2)" by fastforce
  obtain r' es' w3 where more: "retry_loop env policy (Suc k) (notify env RetryAttemptStart w2) = (r', es', w3)"
    by (cases "retry_loop env policy (Suc k) (notify env RetryAttemptStart w2)") auto
  note loop = retry_loop.simps[of env policy k w] call slept[unfolded backoff_def scheduled_retry_def] more
  show ?case
  proof (cases "retry_due policy k m")
    case False
    with less.prems have "returned env policy k w r es w'"
      by (auto simp: loop returned_def retry_due_def Let_def finish_retry_def isRetryableAssistantError_def split: if_splits)
    then show ?thesis by (intro exI[of _ "[]"] exI[of _ w] exI[of _ es]) simp
  next
    case due: True
    then have m: "asstStopReason m = ErrorStop" by (simp add: retry_due_def isRetryableAssistantError_def)
    show ?thesis
    proof (cases aborted)
      case True
      with less.prems m due have "aborted_asleep env policy k w r es w'"
        using call slept by (auto simp: loop aborted_asleep_def retry_due_def Let_def scheduled_retry_def split: if_splits)
      then show ?thesis by (intro exI[of _ "[]"] exI[of _ w] exI[of _ es]) simp
    next
      case False
      with less.prems m due have run: "r = r'" "w' = w3" "es = failed_round policy k m @ es'"
        by (auto simp: loop retry_due_def Let_def failed_round_def split: if_splits)
      have "nat (max_attempts policy - int (Suc k)) < nat (max_attempts policy - int k)"
        using due by (auto simp: retry_due_def)
      from less.hyps[OF this more] obtain ms v last where
        ih: "retried_rounds env policy (Suc k) (notify env RetryAttemptStart w2) ms v" "es' = failed_rounds policy (Suc k) ms @ last"
          "returned env policy (Suc k + length ms) v r' last w3 \<or> aborted_asleep env policy (Suc k + length ms) v r' last w3"
        by blast
      with False call slept due run show ?thesis
        by (intro exI[of _ "m # ms"] exI[of _ v] exI[of _ last]) (auto simp: failed_rounds_Cons)
    qed
  qed
qed

text \<open>C61: A model call with retries goes through failed rounds and one last round. A response is retried
  exactly when it is a transient error, retries are left, and the sleep of \<open>baseDelayMs * 2^k\<close> milliseconds
  after it (\<open>k\<close> retries before) is not aborted; so there are at most \<open>maxRetries\<close> failed rounds, each reported
  before its sleep and before the next call. Any other response is returned as it is, and an aborted sleep
  returns the failed response as an aborted one. The end is reported once, after at least one scheduled
  retry only, with success exactly for a response that is neither an error nor aborted. All calls, sleeps
  and reports happen in this order in the world.\<close>

theorem retry_contract:
  assumes "retryAssistantCall env policy w = (r, es, w')"
  shows "\<exists>ms v last. retried_rounds env policy 0 w ms v \<and> int (length ms) \<le> max 0 (max_attempts policy) \<and>
    es = failed_rounds policy 0 ms @ last \<and>
    (returned env policy (length ms) v r last w' \<or> aborted_asleep env policy (length ms) v r last w')"
proof -
  obtain ms v last where "retried_rounds env policy 0 w ms v" "es = failed_rounds policy 0 ms @ last"
      "returned env policy (length ms) v r last w' \<or> aborted_asleep env policy (length ms) v r last w'"
    using retry_loop_shape[OF assms[unfolded retryAssistantCall_def]] by auto
  moreover from this(1) have "int (length ms) \<le> max 0 (max_attempts policy)"
    using retried_rounds_bound[of env policy 0 w ms v] by (cases "ms = []") auto
  ultimately show ?thesis by blast
qed

definition scripted :: "assistant_message list retry_world" where
  "scripted = \<lparr>produce = \<lambda>w. (hd w, tl w), sleepFor = \<lambda>d w. (False, w), notify = \<lambda>e w. w\<rparr>"

definition scripted_answer :: "stop_reason \<Rightarrow> string option \<Rightarrow> assistant_message" where
  "scripted_answer reason e = \<lparr>asstContent = [], asstProvider = '''', asstModel = '''',
     asstUsage = \<lparr>usageInput = 0, usageOutput = 0, usageCacheRead = 0, usageCacheWrite = 0,
       usageCacheWrite1h = None, usageReasoning = None, usageTotalTokens = 0,
       usageCost = \<lparr>priceInput = 0, priceOutput = 0, priceCacheRead = 0, priceCacheWrite = 0, priceTotal = 0\<rparr>\<rparr>,
     asstStopReason = reason, asstDeferred = None, asstErrorMessage = e, asstTimestamp = 0\<rparr>"

lemma scripted_simps:
  "produce scripted w = (hd w, tl w)" "sleepFor scripted d w = (False, w)" "notify scripted e w = w"
  "asstStopReason (scripted_answer reason t) = reason" "asstErrorMessage (scripted_answer reason t) = t"
  by (simp_all add: scripted_def scripted_answer_def)

lemma transient_503: "isRetryableAssistantError (scripted_answer ErrorStop (Some ''HTTP 503''))"
  by code_simp

lemma scripted_run:
  "retryAssistantCall scripted (Some \<lparr>retryEnabled = True, maxRetries = 2, baseDelayMs = 1000\<rparr>)
     [scripted_answer ErrorStop (Some ''HTTP 503''), scripted_answer StopStop None] =
   (scripted_answer StopStop None,
    [CallMade (scripted_answer ErrorStop (Some ''HTTP 503'')), RetryScheduled 1 2 1000 ''HTTP 503'', RetryAttemptStart,
     CallMade (scripted_answer StopStop None), RetryFinished True 1 None], [])"
  by (simp add: retryAssistantCall_def retry_loop.simps[of scripted] scripted_simps transient_503 max_attempts_def
      base_delay_def or_text_def finish_retry_def Let_def)

theorem retry_contract_witness:
  "\<exists>ms v last. retried_rounds scripted (Some \<lparr>retryEnabled = True, maxRetries = 2, baseDelayMs = 1000\<rparr>) 0
       [scripted_answer ErrorStop (Some ''HTTP 503''), scripted_answer StopStop None] ms v \<and>
     [CallMade (scripted_answer ErrorStop (Some ''HTTP 503'')), RetryScheduled 1 2 1000 ''HTTP 503'', RetryAttemptStart,
      CallMade (scripted_answer StopStop None), RetryFinished True 1 None] =
       failed_rounds (Some \<lparr>retryEnabled = True, maxRetries = 2, baseDelayMs = 1000\<rparr>) 0 ms @ last"
  using retry_contract[OF scripted_run] by blast

end
