(* ===== verification/Compaction.thy ===== *)
theory Compaction
  imports SessionContext SummaryText Retry
begin

section \<open>Compaction\<close>

text \<open>
  \<^verbatim>\<open>packages/agent/src/harness/compaction/compaction.ts\<close>: how full the context is, where a branch is cut,
  what is summarised and what is kept, and the model calls that write the summary. Token counts are
  integers; the model, its clock and the sleeps between retries are a world of type \<open>'w\<close>.
\<close>

subsection \<open>Token counts\<close>

record compaction_settings =
  compactionEnabled :: bool
  reserveTokens :: int
  keepRecentTokens :: int

definition DEFAULT_COMPACTION_SETTINGS :: compaction_settings where
  "DEFAULT_COMPACTION_SETTINGS = \<lparr>compactionEnabled = True, reserveTokens = 16384, keepRecentTokens = 20000\<rparr>"

definition add_optional :: "int option \<Rightarrow> int option \<Rightarrow> int option" where
  "add_optional x y =
     (if x \<noteq> None \<or> y \<noteq> None
      then Some ((case x of None \<Rightarrow> 0 | Some n \<Rightarrow> n) + (case y of None \<Rightarrow> 0 | Some n \<Rightarrow> n)) else None)"

definition combineUsage :: "usage \<Rightarrow> usage \<Rightarrow> usage" where
  "combineUsage a b =
     \<lparr>usageInput = usageInput a + usageInput b, usageOutput = usageOutput a + usageOutput b,
      usageCacheRead = usageCacheRead a + usageCacheRead b, usageCacheWrite = usageCacheWrite a + usageCacheWrite b,
      usageCacheWrite1h = add_optional (usageCacheWrite1h a) (usageCacheWrite1h b),
      usageReasoning = add_optional (usageReasoning a) (usageReasoning b),
      usageTotalTokens = usageTotalTokens a + usageTotalTokens b,
      usageCost = \<lparr>priceInput = priceInput (usageCost a) + priceInput (usageCost b),
        priceOutput = priceOutput (usageCost a) + priceOutput (usageCost b),
        priceCacheRead = priceCacheRead (usageCost a) + priceCacheRead (usageCost b),
        priceCacheWrite = priceCacheWrite (usageCost a) + priceCacheWrite (usageCost b),
        priceTotal = priceTotal (usageCost a) + priceTotal (usageCost b)\<rparr>\<rparr>"

definition calculateContextTokens :: "usage \<Rightarrow> int" where
  "calculateContextTokens u =
     (if usageTotalTokens u \<noteq> 0 then usageTotalTokens u
      else usageInput u + usageOutput u + usageCacheRead u + usageCacheWrite u)"

fun getAssistantUsage :: "agent_message \<Rightarrow> usage option" where
  "getAssistantUsage (AssistantMessage m) =
     (if asstStopReason m \<noteq> AbortedStop \<and> asstStopReason m \<noteq> ErrorStop \<and> 0 < calculateContextTokens (asstUsage m)
      then Some (asstUsage m) else None)"
| "getAssistantUsage _ = None"

fun entry_message :: "entry_body \<Rightarrow> agent_message option" where
  "entry_message (MessageEntry m terminate) = Some m"
| "entry_message _ = None"

fun first_some :: "('a \<Rightarrow> 'b option) \<Rightarrow> 'a list \<Rightarrow> 'b option" where
  "first_some f [] = None"
| "first_some f (x # xs) = (case f x of None \<Rightarrow> first_some f xs | Some y \<Rightarrow> Some y)"

definition getLastAssistantUsage :: "entry list \<Rightarrow> usage option" where
  "getLastAssistantUsage es =
     first_some (\<lambda>e. case entry_message (entryBody e) of None \<Rightarrow> None | Some m \<Rightarrow> getAssistantUsage m) (rev es)"

definition getLastAssistantUsageInfo :: "agent_message list \<Rightarrow> (usage \<times> nat) option" where
  "getLastAssistantUsageInfo ms =
     first_some (\<lambda>i. map_option (\<lambda>u. (u, i)) (getAssistantUsage (ms ! i))) (rev [0..<length ms])"

definition ESTIMATED_IMAGE_CHARS :: nat where
  "ESTIMATED_IMAGE_CHARS = 4800"

fun block_chars :: "content_block \<Rightarrow> nat" where
  "block_chars (TextContent t) = length t"
| "block_chars (ImageContent d mime) = ESTIMATED_IMAGE_CHARS"
| "block_chars _ = 0"

fun estimateTextAndImageContentChars :: "message_content \<Rightarrow> nat" where
  "estimateTextAndImageContentChars (PlainContent s) = length s"
| "estimateTextAndImageContentChars (BlockContent bs) = sum_list (map block_chars bs)"

fun assistant_chars :: "content_block \<Rightarrow> nat" where
  "assistant_chars (TextContent t) = length t"
| "assistant_chars (ThinkingContent t) = length t"
| "assistant_chars (ToolCallContent c) = length (callName c) + length (safeJsonStringify (callArguments c))"
| "assistant_chars (ImageContent d mime) = 0"

definition ceil_quarter :: "nat \<Rightarrow> int" where
  "ceil_quarter n = int ((n + 3) div 4)"

fun estimateTokens :: "agent_message \<Rightarrow> int" where
  "estimateTokens (UserMessage content timestamp) = ceil_quarter (estimateTextAndImageContentChars content)"
| "estimateTokens (AssistantMessage m) = ceil_quarter (sum_list (map assistant_chars (asstContent m)))"
| "estimateTokens (CustomMessage t content display details timestamp) =
     ceil_quarter (estimateTextAndImageContentChars content)"
| "estimateTokens (ToolResultMessage r) = ceil_quarter (estimateTextAndImageContentChars (BlockContent (resContent r)))"
| "estimateTokens (BashExecutionMessage b) = ceil_quarter (length (bashCommand b) + length (bashOutput b))"
| "estimateTokens (BranchSummaryMessage summary fromId timestamp) = ceil_quarter (length summary)"
| "estimateTokens (CompactionSummaryMessage summary tokensBefore timestamp) = ceil_quarter (length summary)"

record context_usage =
  estimatedTokens :: int
  usageTokens :: int
  trailingTokens :: int
  lastUsageIndex :: "nat option"

definition estimateContextTokens :: "agent_message list \<Rightarrow> context_usage" where
  "estimateContextTokens ms =
     (case getLastAssistantUsageInfo ms of
        None \<Rightarrow>
          let estimated = sum_list (map estimateTokens ms)
          in \<lparr>estimatedTokens = estimated, usageTokens = 0, trailingTokens = estimated, lastUsageIndex = None\<rparr>
      | Some (u, i) \<Rightarrow>
          let known = calculateContextTokens u;
              trailing = sum_list (map (\<lambda>j. estimateTokens (ms ! j)) [Suc i..<length ms])
          in \<lparr>estimatedTokens = known + trailing, usageTokens = known, trailingTokens = trailing,
              lastUsageIndex = Some i\<rparr>)"

definition shouldCompact :: "int \<Rightarrow> int \<Rightarrow> compaction_settings \<Rightarrow> bool" where
  "shouldCompact contextTokens contextWindow settings =
     (compactionEnabled settings \<and> contextWindow - reserveTokens settings < contextTokens)"

subsection \<open>The cut\<close>

definition is_cut_point :: "entry \<Rightarrow> bool" where
  "is_cut_point e =
     (case entryBody e of
        MessageEntry m terminate \<Rightarrow> role_of m \<noteq> ToolResultRole
      | BranchSummaryEntry fromId summary details u \<Rightarrow> True
      | _ \<Rightarrow> False)"

definition findValidCutPoints :: "entry list \<Rightarrow> nat \<Rightarrow> nat \<Rightarrow> nat list" where
  "findValidCutPoints es startIndex endIndex = filter (\<lambda>i. is_cut_point (es ! i)) [startIndex..<endIndex]"

definition starts_turn :: "entry \<Rightarrow> bool" where
  "starts_turn e =
     (case entryBody e of
        BranchSummaryEntry fromId summary details u \<Rightarrow> True
      | MessageEntry m terminate \<Rightarrow> role_of m = UserRole \<or> role_of m = BashExecutionRole
      | _ \<Rightarrow> False)"

text \<open>\<open>None\<close> is the result -1.\<close>

definition findTurnStartIndex :: "entry list \<Rightarrow> nat \<Rightarrow> nat \<Rightarrow> nat option" where
  "findTurnStartIndex es entryIndex startIndex = find (\<lambda>i. starts_turn (es ! i)) (rev [startIndex..<Suc entryIndex])"

record cut_point =
  firstKeptEntryIndex :: nat
  turnStartIndex :: "nat option"
  isSplitTurn :: bool

text \<open>The index at which the messages from the end on reach the budget.\<close>

fun budget_index :: "entry list \<Rightarrow> int \<Rightarrow> int \<Rightarrow> nat list \<Rightarrow> nat option" where
  "budget_index es budget accumulated [] = None"
| "budget_index es budget accumulated (i # is) =
     (case entry_message (entryBody (es ! i)) of
        None \<Rightarrow> budget_index es budget accumulated is
      | Some m \<Rightarrow>
          (let accumulated' = accumulated + estimateTokens m
           in if budget \<le> accumulated' then Some i else budget_index es budget accumulated' is))"

text \<open>Entries that are neither messages nor compactions go with what follows them.\<close>

fun retreat :: "entry list \<Rightarrow> nat \<Rightarrow> nat \<Rightarrow> nat" where
  "retreat es startIndex 0 = 0"
| "retreat es startIndex (Suc i) =
     (if startIndex < Suc i \<and> entry_type (es ! i) \<noteq> CompactionType \<and> entry_type (es ! i) \<noteq> MessageType
      then retreat es startIndex i else Suc i)"

definition is_user_message :: "entry \<Rightarrow> bool" where
  "is_user_message e =
     (case entryBody e of MessageEntry m terminate \<Rightarrow> role_of m = UserRole | _ \<Rightarrow> False)"

definition findCutPoint :: "entry list \<Rightarrow> nat \<Rightarrow> nat \<Rightarrow> int \<Rightarrow> cut_point" where
  "findCutPoint es startIndex endIndex keep =
     (let cutPoints = findValidCutPoints es startIndex endIndex
      in if cutPoints = [] then \<lparr>firstKeptEntryIndex = startIndex, turnStartIndex = None, isSplitTurn = False\<rparr>
         else
           let chosen = (case budget_index es keep 0 (rev [startIndex..<endIndex]) of
                  None \<Rightarrow> hd cutPoints
                | Some i \<Rightarrow> (case find (\<lambda>c. i \<le> c) cutPoints of None \<Rightarrow> hd cutPoints | Some c \<Rightarrow> c));
               cutIndex = retreat es startIndex chosen;
               isUserMessage = is_user_message (es ! cutIndex);
               turnStart = if isUserMessage then None else findTurnStartIndex es cutIndex startIndex
           in \<lparr>firstKeptEntryIndex = cutIndex, turnStartIndex = turnStart,
               isSplitTurn = (\<not> isUserMessage \<and> turnStart \<noteq> None)\<rparr>)"

subsection \<open>What is summarised and what is kept\<close>

definition getMessageFromEntry :: "entry \<Rightarrow> agent_message option" where
  "getMessageFromEntry e =
     (case entryBody e of
        MessageEntry m terminate \<Rightarrow> Some m
      | BranchSummaryEntry fromId summary details u \<Rightarrow> Some (BranchSummaryMessage summary fromId (entryTimestamp e))
      | CompactionEntry summary tail tokensBefore details u \<Rightarrow>
          Some (CompactionSummaryMessage summary tokensBefore (entryTimestamp e))
      | _ \<Rightarrow> None)"

definition getMessageFromEntryForCompaction :: "entry \<Rightarrow> agent_message option" where
  "getMessageFromEntryForCompaction e = (if is_compaction e then None else getMessageFromEntry e)"

text \<open>The strings of an array property, which is a list of file names.\<close>

definition string_array :: "string \<Rightarrow> js_value \<Rightarrow> string list" where
  "string_array k v =
     (case v of
        JObject symbols es \<Rightarrow>
          (case map_of es (js_of k) of
             Some (JArray vs) \<Rightarrow> List.map_filter (\<lambda>x. case x of JString s \<Rightarrow> Some (text_of s) | _ \<Rightarrow> None) vs
           | _ \<Rightarrow> [])
      | _ \<Rightarrow> [])"

definition add_detail_files :: "js_value \<Rightarrow> file_operations \<Rightarrow> file_operations" where
  "add_detail_files details ops =
     ops\<lparr>filesRead := fold set_add (string_array ''readFiles'' details) (filesRead ops),
         filesEdited := fold set_add (string_array ''modifiedFiles'' details) (filesEdited ops)\<rparr>"

definition extractFileOperations :: "agent_message list \<Rightarrow> entry list \<Rightarrow> nat option \<Rightarrow> file_operations" where
  "extractFileOperations ms es prevCompactionIndex =
     fold extractFileOpsFromMessage ms
       (case prevCompactionIndex of
          None \<Rightarrow> createFileOps
        | Some i \<Rightarrow>
            (case entryBody (es ! i) of
               CompactionEntry summary tail tokensBefore details u \<Rightarrow> add_detail_files details createFileOps
             | _ \<Rightarrow> createFileOps))"

fun message_timestamp :: "agent_message \<Rightarrow> int" where
  "message_timestamp (UserMessage content timestamp) = timestamp"
| "message_timestamp (AssistantMessage m) = asstTimestamp m"
| "message_timestamp (ToolResultMessage r) = resTimestamp r"
| "message_timestamp (BashExecutionMessage b) = bashTimestamp b"
| "message_timestamp (CustomMessage t content display details timestamp) = timestamp"
| "message_timestamp (BranchSummaryMessage summary fromId timestamp) = timestamp"
| "message_timestamp (CompactionSummaryMessage summary tokensBefore timestamp) = timestamp"

record compaction_preparation =
  messagesToSummarize :: "agent_message list"
  turnPrefixMessages :: "agent_message list"
  retainedTail :: "agent_message list"
  prepSplitTurn :: bool
  prepTokensBefore :: int
  prepPreviousSummary :: "string option"
  prepFileOps :: file_operations
  prepSettings :: compaction_settings

definition virtual_entry :: "entry \<Rightarrow> nat \<Rightarrow> agent_message \<Rightarrow> entry" where
  "virtual_entry c i m =
     \<lparr>entryId = entryId c @ '':retained:'' @ show_nat i, entryBody = MessageEntry m False, entrySeq = entrySeq c,
      entryParent = Some (if i = 0 then entryId c else entryId c @ '':retained:'' @ show_nat (i - 1)),
      entryTimestamp = message_timestamp m\<rparr>"

definition compactable_entries :: "entry list \<Rightarrow> nat option \<Rightarrow> entry list" where
  "compactable_entries path prev =
     (case prev of
        None \<Rightarrow> path
      | Some i \<Rightarrow>
          (case entryBody (path ! i) of
             CompactionEntry summary tail tokensBefore details u \<Rightarrow>
               map (\<lambda>(j, m). virtual_entry (path ! i) j m) (enumerate 0 tail)
           | _ \<Rightarrow> []) @ drop (Suc i) path)"

definition messages_between :: "entry list \<Rightarrow> nat \<Rightarrow> nat \<Rightarrow> agent_message list" where
  "messages_between es i j = List.map_filter (\<lambda>k. getMessageFromEntryForCompaction (es ! k)) [i..<j]"

definition prepareCompaction :: "entry list \<Rightarrow> compaction_settings \<Rightarrow> compaction_preparation option" where
  "prepareCompaction path settings =
     (if path = [] \<or> is_compaction (last path) then None
      else
        let prev = last_index is_compaction path;
            es = compactable_entries path prev;
            cut = findCutPoint es 0 (length es) (keepRecentTokens settings);
            historyEnd = (case turnStartIndex cut of Some t \<Rightarrow> if isSplitTurn cut then t else firstKeptEntryIndex cut
                          | None \<Rightarrow> firstKeptEntryIndex cut);
            summarized = messages_between es 0 historyEnd;
            prefix = (case turnStartIndex cut of
                 Some t \<Rightarrow> if isSplitTurn cut then messages_between es t (firstKeptEntryIndex cut) else []
               | None \<Rightarrow> [])
        in Some \<lparr>messagesToSummarize = summarized, turnPrefixMessages = prefix,
             retainedTail = messages_between es (firstKeptEntryIndex cut) (length es),
             prepSplitTurn = isSplitTurn cut,
             prepTokensBefore = estimatedTokens (estimateContextTokens (contextMessages (buildSessionContext [] [] path))),
             prepPreviousSummary = (case prev of
                  None \<Rightarrow> None
                | Some i \<Rightarrow> (case entryBody (path ! i) of
                    CompactionEntry summary tail tokensBefore details u \<Rightarrow> Some summary | _ \<Rightarrow> None)),
             prepFileOps = (let ops = extractFileOperations summarized path prev
                        in if isSplitTurn cut then fold extractFileOpsFromMessage prefix ops else ops),
             prepSettings = settings\<rparr>)"


subsection \<open>The prompts\<close>

definition SUMMARIZATION_SYSTEM_PROMPT :: string where
  "SUMMARIZATION_SYSTEM_PROMPT = join newline
    [''You are a context summarization assistant. Your task is to read a conversation between a user and an AI assistant, then produce a structured summary following the exact format specified.'',
     '''',
     ''Do NOT continue the conversation. Do NOT respond to any questions in the conversation. ONLY output the structured summary.'']"

definition SUMMARIZATION_PROMPT :: string where
  "SUMMARIZATION_PROMPT = join newline
    [''The messages above are a conversation to summarize. Create a structured context checkpoint summary that another LLM will use to continue the work.'',
     '''',
     ''Use this EXACT format:'',
     '''',
     ''## Goal'',
     ''[What is the user trying to accomplish? Can be multiple items if the session covers different tasks.]'',
     '''',
     ''## Constraints & Preferences'',
     ''- [Any constraints, preferences, or requirements mentioned by user]'',
     ''- [Or \"(none)\" if none were mentioned]'',
     '''',
     ''## Progress'',
     ''### Done'',
     ''- [x] [Completed tasks/changes]'',
     '''',
     ''### In Progress'',
     ''- [ ] [Current work]'',
     '''',
     ''### Blocked'',
     ''- [Issues preventing progress, if any]'',
     '''',
     ''## Key Decisions'',
     ''- **[Decision]**: [Brief rationale]'',
     '''',
     ''## Next Steps'',
     ''1. [Ordered list of what should happen next]'',
     '''',
     ''## Critical Context'',
     ''- [Any data, examples, or references needed to continue]'',
     ''- [Or \"(none)\" if not applicable]'',
     '''',
     ''Keep each section concise. Preserve exact file paths, function names, and error messages.'']"

definition UPDATE_SUMMARIZATION_PROMPT :: string where
  "UPDATE_SUMMARIZATION_PROMPT = join newline
    [''The messages above are NEW conversation messages to incorporate into the existing summary provided in <previous-summary> tags.'',
     '''',
     ''Update the existing structured summary with new information. RULES:'',
     ''- PRESERVE all existing information from the previous summary'',
     ''- ADD new progress, decisions, and context from the new messages'',
     ''- UPDATE the Progress section: move items from \"In Progress\" to \"Done\" when completed'',
     ''- UPDATE \"Next Steps\" based on what was accomplished'',
     ''- PRESERVE exact file paths, function names, and error messages'',
     ''- If something is no longer relevant, you may remove it'',
     '''',
     ''Use this EXACT format:'',
     '''',
     ''## Goal'',
     ''[Preserve existing goals, add new ones if the task expanded]'',
     '''',
     ''## Constraints & Preferences'',
     ''- [Preserve existing, add new ones discovered]'',
     '''',
     ''## Progress'',
     ''### Done'',
     ''- [x] [Include previously done items AND newly completed items]'',
     '''',
     ''### In Progress'',
     ''- [ ] [Current work - update based on progress]'',
     '''',
     ''### Blocked'',
     ''- [Current blockers - remove if resolved]'',
     '''',
     ''## Key Decisions'',
     ''- **[Decision]**: [Brief rationale] (preserve all previous, add new)'',
     '''',
     ''## Next Steps'',
     ''1. [Update based on current state]'',
     '''',
     ''## Critical Context'',
     ''- [Preserve important context, add new if needed]'',
     '''',
     ''Keep each section concise. Preserve exact file paths, function names, and error messages.'']"

definition TURN_PREFIX_SUMMARIZATION_PROMPT :: string where
  "TURN_PREFIX_SUMMARIZATION_PROMPT = join newline
    [''This is the PREFIX of a turn that was too large to keep. The SUFFIX (recent work) is retained.'',
     '''',
     ''Summarize the prefix to provide context for the retained suffix:'',
     '''',
     ''## Original Request'',
     ''[What did the user ask for in this turn?]'',
     '''',
     ''## Early Progress'',
     ''- [Key decisions and work done in the prefix]'',
     '''',
     ''## Context for Suffix'',
     ''- [Information needed to understand the retained recent work]'',
     '''',
     ''Be concise. Focus on what's needed to understand the kept suffix.'']"

subsection \<open>Model calls\<close>

record summary_model =
  modelMaxTokens :: int
  modelContextWindow :: int
  modelReasoning :: bool

record summary_request =
  reqSystemPrompt :: string
  reqMessages :: "agent_message list"
  reqMaxTokens :: int
  reqReasoning :: "string option"
  reqCacheRetention :: "string option"
  reqSessionId :: "string option"

record 'w summary_world =
  completeSimple :: "summary_request \<Rightarrow> 'w \<Rightarrow> assistant_message \<times> 'w"
  freshSessionId :: "'w \<Rightarrow> string \<times> 'w"
  clock :: "'w \<Rightarrow> int"
  pause :: "int \<Rightarrow> 'w \<Rightarrow> bool \<times> 'w"
  report :: "retry_event \<Rightarrow> 'w \<Rightarrow> 'w"

definition completeSimpleWithRetries ::
  "'w summary_world \<Rightarrow> retry_policy option \<Rightarrow> summary_request \<Rightarrow> 'w \<Rightarrow> assistant_message \<times> 'w" where
  "completeSimpleWithRetries env policy request w =
     (case freshSessionId env w of (sid, w1) \<Rightarrow>
        let isolated = request\<lparr>reqCacheRetention := Some ''none'', reqSessionId := Some sid\<rparr>
        in case retryAssistantCall \<lparr>produce = completeSimple env isolated, sleepFor = pause env, notify = report env\<rparr>
                  policy w1 of
             (response, es, w2) \<Rightarrow> (response, w2))"

datatype compaction_error = CompactionAborted string | SummarizationFailed string

text \<open>The summary and its usage, or the error of a response that failed.\<close>

definition summary_result :: "string \<Rightarrow> string \<Rightarrow> assistant_message \<Rightarrow> compaction_error + string \<times> usage" where
  "summary_result aborted_text failed_prefix response =
     (if asstStopReason response = AbortedStop
      then Inl (CompactionAborted (or_text (asstErrorMessage response) aborted_text))
      else if asstStopReason response = ErrorStop
      then Inl (SummarizationFailed (failed_prefix @ or_text (asstErrorMessage response) ''Unknown error''))
      else Inr (contentText (BlockContent (asstContent response)) newline, asstUsage response))"

text \<open>An optional text that is present and not empty.\<close>

definition given :: "string option \<Rightarrow> bool" where
  "given t \<longleftrightarrow> t \<noteq> None \<and> t \<noteq> Some ''''"

definition limited_tokens :: "int \<Rightarrow> summary_model \<Rightarrow> int" where
  "limited_tokens n model = (if 0 < modelMaxTokens model then min n (modelMaxTokens model) else n)"

definition reasoning_option :: "summary_model \<Rightarrow> string option \<Rightarrow> string option" where
  "reasoning_option model level = (if modelReasoning model \<and> given level \<and> level \<noteq> Some ''off'' then level else None)"

definition conversation_block :: "agent_message list \<Rightarrow> string" where
  "conversation_block ms =
     ''<conversation>'' @ newline @ serializeConversation (convertToLlm ms) @ newline @ ''</conversation>'' @ newline @ newline"

definition summary_request_for :: "string \<Rightarrow> int \<Rightarrow> int \<Rightarrow> string option \<Rightarrow> summary_request" where
  "summary_request_for prompt now maxTokens reasoning =
     \<lparr>reqSystemPrompt = SUMMARIZATION_SYSTEM_PROMPT, reqMessages = [user_text prompt now], reqMaxTokens = maxTokens,
      reqReasoning = reasoning, reqCacheRetention = None, reqSessionId = None\<rparr>"

definition summary_prompt :: "agent_message list \<Rightarrow> string option \<Rightarrow> string option \<Rightarrow> string" where
  "summary_prompt ms customInstructions previous =
     (let base = (if given previous then UPDATE_SUMMARIZATION_PROMPT else SUMMARIZATION_PROMPT) @
        (if given customInstructions then newline @ newline @ ''Additional focus: '' @ the customInstructions else '''')
      in conversation_block ms @
         (if given previous
          then ''<previous-summary>'' @ newline @ the previous @ newline @ ''</previous-summary>'' @ newline @ newline
          else '''') @ base)"

definition generateSummaryWithUsage ::
  "'w summary_world \<Rightarrow> retry_policy option \<Rightarrow> agent_message list \<Rightarrow> summary_model \<Rightarrow> int \<Rightarrow> string option \<Rightarrow>
   string option \<Rightarrow> string option \<Rightarrow> 'w \<Rightarrow> (compaction_error + string \<times> usage) \<times> 'w" where
  "generateSummaryWithUsage env policy ms model reserve customInstructions previous level w =
     (case completeSimpleWithRetries env policy
             (summary_request_for (summary_prompt ms customInstructions previous) (clock env w)
                (limited_tokens ((4 * reserve) div 5) model) (reasoning_option model level)) w of
        (response, w') \<Rightarrow> (summary_result ''Summarization aborted'' ''Summarization failed: '' response, w'))"

definition generateSummary ::
  "'w summary_world \<Rightarrow> retry_policy option \<Rightarrow> agent_message list \<Rightarrow> summary_model \<Rightarrow> int \<Rightarrow> string option \<Rightarrow>
   string option \<Rightarrow> string option \<Rightarrow> 'w \<Rightarrow> (compaction_error + string) \<times> 'w" where
  "generateSummary env policy ms model reserve customInstructions previous level w =
     (case generateSummaryWithUsage env policy ms model reserve customInstructions previous level w of
        (result, w') \<Rightarrow> (and_then result (\<lambda>(t, u). Inr t), w'))"

definition generateTurnPrefixSummary ::
  "'w summary_world \<Rightarrow> retry_policy option \<Rightarrow> agent_message list \<Rightarrow> summary_model \<Rightarrow> int \<Rightarrow> string option \<Rightarrow>
   'w \<Rightarrow> (compaction_error + string \<times> usage) \<times> 'w" where
  "generateTurnPrefixSummary env policy ms model reserve level w =
     (case completeSimpleWithRetries env policy
             (summary_request_for (conversation_block ms @ TURN_PREFIX_SUMMARIZATION_PROMPT) (clock env w)
                (limited_tokens (reserve div 2) model) (reasoning_option model level)) w of
        (response, w') \<Rightarrow>
          (summary_result ''Turn prefix summarization aborted'' ''Turn prefix summarization failed: '' response, w'))"

record compact_result =
  resultSummary :: string
  resultTokensBefore :: int
  resultUsage :: usage
  resultTail :: "agent_message list"
  resultFiles :: "string list \<times> string list"

text \<open>The summary of the history, unless there is none and the cut splits a turn.\<close>

definition history_summary ::
  "'w summary_world \<Rightarrow> retry_policy option \<Rightarrow> compaction_preparation \<Rightarrow> summary_model \<Rightarrow> string option \<Rightarrow> string option \<Rightarrow>
   'w \<Rightarrow> (compaction_error + string \<times> usage) \<times> 'w" where
  "history_summary env policy p model customInstructions level w =
     generateSummaryWithUsage env policy (messagesToSummarize p) model (reserveTokens (prepSettings p))
       customInstructions (prepPreviousSummary p) level w"

definition split_summary ::
  "'w summary_world \<Rightarrow> retry_policy option \<Rightarrow> compaction_preparation \<Rightarrow> summary_model \<Rightarrow> string option \<Rightarrow> string option \<Rightarrow>
   'w \<Rightarrow> (compaction_error + string \<times> usage) \<times> 'w" where
  "split_summary env policy p model customInstructions level w =
     (case (if messagesToSummarize p = [] then (Inr (''No prior history.'', None), w)
            else case history_summary env policy p model customInstructions level w of
                   (result, w1) \<Rightarrow> (and_then result (\<lambda>(t, u). Inr (t, Some u)), w1)) of
        (Inl e, w1) \<Rightarrow> (Inl e, w1)
      | (Inr (historyText, historyUsage), w1) \<Rightarrow>
          (case generateTurnPrefixSummary env policy (turnPrefixMessages p) model (reserveTokens (prepSettings p)) level w1 of
             (result, w2) \<Rightarrow>
               (and_then result (\<lambda>(t, u).
                  Inr (historyText @ newline @ newline @ ''---'' @ newline @ newline @
                         ''**Turn Context (split turn):**'' @ newline @ newline @ t,
                       case historyUsage of None \<Rightarrow> u | Some hu \<Rightarrow> combineUsage hu u)), w2)))"

definition compact_branch ::
  "'w summary_world \<Rightarrow> retry_policy option \<Rightarrow> compaction_preparation \<Rightarrow> summary_model \<Rightarrow> string option \<Rightarrow> string option \<Rightarrow>
   'w \<Rightarrow> (compaction_error + compact_result) \<times> 'w" where
  "compact_branch env policy p model customInstructions level w =
     (case (if prepSplitTurn p \<and> turnPrefixMessages p \<noteq> []
            then split_summary env policy p model customInstructions level w
            else history_summary env policy p model customInstructions level w) of
        (result, w') \<Rightarrow>
          (and_then result (\<lambda>(summary, u).
             case computeFileLists (prepFileOps p) of (readFiles, modifiedFiles) \<Rightarrow>
               Inr \<lparr>resultSummary = summary @ formatFileOperations readFiles modifiedFiles,
                    resultTokensBefore = prepTokensBefore p, resultUsage = u, resultTail = retainedTail p,
                    resultFiles = (readFiles, modifiedFiles)\<rparr>), w'))"

end
