(* ===== verification/CompactionCorrect.thy ===== *)
theory CompactionCorrect
  imports Compaction
begin

section \<open>Compaction is correct\<close>

text \<open>
  The cut of a branch: where it lies, what it summarises and what it keeps; the files a summary lists;
  the outcome of the model calls.
\<close>

subsection \<open>The cut point\<close>

lemma find_in_range: "find P (rev [i..<j]) = Some k \<Longrightarrow> i \<le> k \<and> k < j \<and> P k"
  by (auto simp: find_Some_iff rev_nth)

lemma find_last_in_range:
  "find P (rev [i..<j]) = Some k \<Longrightarrow> k < l \<Longrightarrow> l < j \<Longrightarrow> \<not> P l"
proof (induction j)
  case (Suc j)
  then show ?case by (cases "P j") (auto split: if_splits, metis less_antisym)
qed simp

lemma retreat_le: "retreat es s c \<le> c"
  by (induction es s c rule: retreat.induct) auto

lemma retreat_ge: "s \<le> c \<Longrightarrow> s \<le> retreat es s c"
  by (induction es s c rule: retreat.induct) auto

lemma retreat_passes: "retreat es s c \<le> k \<Longrightarrow> k < c \<Longrightarrow> entry_type (es ! k) \<noteq> CompactionType \<and> entry_type (es ! k) \<noteq> MessageType"
proof (induction es s c rule: retreat.induct)
  case (2 es s i)
  then show ?case by (cases "k = i") (auto split: if_splits)
qed simp

lemma retreat_stops:
  "s < retreat es s c \<Longrightarrow> entry_type (es ! (retreat es s c - 1)) = CompactionType \<or> entry_type (es ! (retreat es s c - 1)) = MessageType"
  by (induction es s c rule: retreat.induct) (auto split: if_splits)

text \<open>The cut point chosen before the retreat.\<close>

definition chosen_cut :: "entry list \<Rightarrow> nat \<Rightarrow> nat \<Rightarrow> int \<Rightarrow> nat" where
  "chosen_cut es s e keep =
     (case budget_index es keep 0 (rev [s..<e]) of
        None \<Rightarrow> hd (findValidCutPoints es s e)
      | Some i \<Rightarrow> (case find (\<lambda>c. i \<le> c) (findValidCutPoints es s e) of
            None \<Rightarrow> hd (findValidCutPoints es s e) | Some c \<Rightarrow> c))"

lemma cut_first_kept:
  "firstKeptEntryIndex (findCutPoint es s e keep) =
     (if findValidCutPoints es s e = [] then s else retreat es s (chosen_cut es s e keep))"
  by (simp add: findCutPoint_def chosen_cut_def Let_def)

lemma set_cut_points [simp]: "set (findValidCutPoints es s e) = {i. s \<le> i \<and> i < e \<and> is_cut_point (es ! i)}"
  by (auto simp: findValidCutPoints_def)

lemma sorted_cut_points: "sorted (findValidCutPoints es s e)"
  by (simp add: findValidCutPoints_def sorted_wrt_filter)

lemma chosen_cut_point: "findValidCutPoints es s e \<noteq> [] \<Longrightarrow> chosen_cut es s e keep \<in> set (findValidCutPoints es s e)"
  by (auto simp: chosen_cut_def find_Some_iff simp del: set_cut_points split: option.splits)

lemma first_kept_bounds: "s \<le> e \<Longrightarrow> s \<le> firstKeptEntryIndex (findCutPoint es s e keep) \<and> firstKeptEntryIndex (findCutPoint es s e keep) \<le> e"
  using chosen_cut_point[of es s e keep] retreat_le[of es s "chosen_cut es s e keep"] retreat_ge[of s "chosen_cut es s e keep" es]
  by (auto simp: cut_first_kept)

lemma turn_start_bounds:
  assumes "turnStartIndex (findCutPoint es s e keep) = Some t"
  shows "s \<le> t \<and> t \<le> firstKeptEntryIndex (findCutPoint es s e keep)"
  using assms find_in_range[of "\<lambda>i. starts_turn (es ! i)" s "Suc (firstKeptEntryIndex (findCutPoint es s e keep))" t]
  by (auto simp: findCutPoint_def findTurnStartIndex_def Let_def split: if_splits)

subsection \<open>Nothing is lost\<close>

lemma messages_between_append:
  "i \<le> j \<Longrightarrow> j \<le> k \<Longrightarrow> messages_between es i j @ messages_between es j k = messages_between es i k"
  using upt_add_eq_append[of i j "k - j"] by (simp add: messages_between_def List.map_filter_def)

lemma map_filter_append: "List.map_filter f (xs @ ys) = List.map_filter f xs @ List.map_filter f ys"
  by (simp add: List.map_filter_def)

lemma messages_between_all: "messages_between es 0 (length es) = List.map_filter getMessageFromEntryForCompaction es"
proof -
  have "List.map_filter (\<lambda>k. getMessageFromEntryForCompaction (es ! k)) [0..<length es] =
      List.map_filter getMessageFromEntryForCompaction (map ((!) es) [0..<length es])"
    by (simp add: List.map_filter_def filter_map o_def)
  then show ?thesis by (simp add: messages_between_def map_nth)
qed

text \<open>The entries that are cut, the cut, and the end of the history that is summarised.\<close>

definition cut_entries :: "entry list \<Rightarrow> entry list" where
  "cut_entries path = compactable_entries path (last_index is_compaction path)"

definition branch_cut :: "entry list \<Rightarrow> compaction_settings \<Rightarrow> cut_point" where
  "branch_cut path settings =
     findCutPoint (cut_entries path) 0 (length (cut_entries path)) (keepRecentTokens settings)"

definition history_end :: "cut_point \<Rightarrow> nat" where
  "history_end cp = (case turnStartIndex cp of None \<Rightarrow> firstKeptEntryIndex cp | Some t \<Rightarrow> t)"

lemma split_turn_iff: "isSplitTurn (findCutPoint es s e keep) \<longleftrightarrow> turnStartIndex (findCutPoint es s e keep) \<noteq> None"
  by (simp add: findCutPoint_def Let_def)

lemma preparation_fields:
  assumes "prepareCompaction path settings = Some p"
  shows "messagesToSummarize p = messages_between (cut_entries path) 0 (history_end (branch_cut path settings))"
    and "turnPrefixMessages p = messages_between (cut_entries path) (history_end (branch_cut path settings))
      (firstKeptEntryIndex (branch_cut path settings))"
    and "retainedTail p = messages_between (cut_entries path) (firstKeptEntryIndex (branch_cut path settings))
      (length (cut_entries path))"
    and "prepPreviousSummary p = (case last_index is_compaction path of
      None \<Rightarrow> None
    | Some i \<Rightarrow> (case entryBody (path ! i) of CompactionEntry summary tail n details u \<Rightarrow> Some summary | _ \<Rightarrow> None))"
    and "prepSettings p = settings"
    and "prepFileOps p = fold extractFileOpsFromMessage (turnPrefixMessages p)
      (extractFileOperations (messagesToSummarize p) path (last_index is_compaction path))"
    and "prepSplitTurn p = isSplitTurn (branch_cut path settings)"
proof -
  let ?cut = "branch_cut path settings"
  have split: "isSplitTurn ?cut \<longleftrightarrow> turnStartIndex ?cut \<noteq> None"
    by (simp add: branch_cut_def split_turn_iff)
  note unfolded = assms[unfolded prepareCompaction_def Let_def, folded cut_entries_def, folded branch_cut_def]
  have none: "messages_between es i i = []" for es i by (simp add: messages_between_def List.map_filter_def)
  show "messagesToSummarize p = messages_between (cut_entries path) 0 (history_end ?cut)"
    and "turnPrefixMessages p = messages_between (cut_entries path) (history_end ?cut) (firstKeptEntryIndex ?cut)"
    and "retainedTail p = messages_between (cut_entries path) (firstKeptEntryIndex ?cut) (length (cut_entries path))"
    and "prepPreviousSummary p = (case last_index is_compaction path of
      None \<Rightarrow> None
    | Some i \<Rightarrow> (case entryBody (path ! i) of CompactionEntry summary tail n details u \<Rightarrow> Some summary | _ \<Rightarrow> None))"
    and "prepSettings p = settings"
    and "prepFileOps p = fold extractFileOpsFromMessage (turnPrefixMessages p)
      (extractFileOperations (messagesToSummarize p) path (last_index is_compaction path))"
    and "prepSplitTurn p = isSplitTurn ?cut"
    using unfolded split by (cases "turnStartIndex ?cut"; auto simp: history_end_def none split: if_splits)+
qed

lemma history_end_le: "history_end (branch_cut path settings) \<le> firstKeptEntryIndex (branch_cut path settings)"
  using turn_start_bounds[of "cut_entries path" 0 "length (cut_entries path)" "keepRecentTokens settings"]
  by (auto simp: history_end_def branch_cut_def split: option.split)

lemma first_kept_le: "firstKeptEntryIndex (branch_cut path settings) \<le> length (cut_entries path)"
  using first_kept_bounds[of 0 "length (cut_entries path)" "cut_entries path" "keepRecentTokens settings"]
  by (simp add: branch_cut_def)

lemma cut_partition:
  assumes "prepareCompaction path settings = Some p"
  shows "messagesToSummarize p @ turnPrefixMessages p @ retainedTail p =
    List.map_filter getMessageFromEntryForCompaction (cut_entries path)"
  using history_end_le[of path settings] first_kept_le[of path settings]
  by (simp add: preparation_fields(1-3)[OF assms] messages_between_append messages_between_all)

lemma compactable_without: "\<forall>e \<in> set path. \<not> is_compaction e \<Longrightarrow> cut_entries path = path"
  using last_index_None[of is_compaction path] by (simp add: cut_entries_def compactable_entries_def)

lemma last_compaction:
  assumes "is_compaction c" and "\<forall>e \<in> set post. \<not> is_compaction e"
  shows "last_index is_compaction (pre @ c # post) = Some (length pre)"
  using last_index_append[of is_compaction pre "c # post"] last_index_Cons_hd[OF assms] by simp

lemma virtual_messages:
  "List.map_filter getMessageFromEntryForCompaction (map (\<lambda>(j, m). virtual_entry c j m) (enumerate n tail)) = tail"
  by (induction tail arbitrary: n)
    (auto simp: List.map_filter_def getMessageFromEntryForCompaction_def getMessageFromEntry_def virtual_entry_def
      is_compaction_def entry_type_def)

lemma compactable_after:
  assumes "entryBody c = CompactionEntry summary tail n details u" and "\<forall>e \<in> set post. \<not> is_compaction e"
  shows "cut_entries (pre @ c # post) =
    map (\<lambda>(j, m). virtual_entry c j m) (enumerate 0 tail) @ post"
proof -
  have "is_compaction c" using assms(1) by (simp add: is_compaction_def entry_type_def)
  from last_compaction[OF this assms(2)] show ?thesis
    using assms(1) by (simp add: cut_entries_def compactable_entries_def)
qed

definition branch_messages :: "entry list \<Rightarrow> agent_message list" where
  "branch_messages es = List.map_filter getMessageFromEntryForCompaction es"

lemma compacted_context:
  assumes "entryBody c = CompactionEntry s tail n details u"
  shows "contextMessages (buildSessionContext [] [] (pre @ [c])) = CompactionSummaryMessage s n (entryTimestamp c) # tail"
proof -
  have "is_compaction c" using assms by (simp add: is_compaction_def entry_type_def)
  from default_transform_compacted[OF this, of "[]" pre] assms show ?thesis
    by (simp add: buildSessionContext_def buildContextEntries_def Let_def sessionEntryToContextMessages_def)
qed

text \<open>C11: A compaction loses no message: what is summarised, the summarised part of a split turn and the
  retained tail are, in order, all messages since the last compaction, with its retained tail first and
  its summary carried over as the previous one; and once the summary is stored with the retained tail, the
  context is that summary followed by exactly the retained tail.\<close>

theorem compaction_partition:
  assumes "prepareCompaction (pre @ post) settings = Some p" and "\<forall>e \<in> set post. \<not> is_compaction e"
    and "pre = [] \<or> entryBody (last pre) = CompactionEntry summary tail n details u"
    and "entryBody c = CompactionEntry s (retainedTail p) n' details' u'"
  shows "messagesToSummarize p @ turnPrefixMessages p @ retainedTail p =
      (if pre = [] then [] else tail) @ branch_messages post \<and>
    prepPreviousSummary p = (if pre = [] then None else Some summary) \<and>
    contextMessages (buildSessionContext [] [] (pre @ post @ [c])) =
      CompactionSummaryMessage s n' (entryTimestamp c) # retainedTail p"
proof -
  have stored: "contextMessages (buildSessionContext [] [] (pre @ post @ [c])) =
      CompactionSummaryMessage s n' (entryTimestamp c) # retainedTail p"
    using compacted_context[OF assms(4), of "pre @ post"] by simp
  show ?thesis
  proof (cases "pre = []")
    case True
    with assms(1,2) stored show ?thesis
      using cut_partition[OF assms(1)] compactable_without[OF assms(2)] preparation_fields(4)[OF assms(1)]
        last_index_None[of is_compaction post]
      by (simp add: branch_messages_def)
  next
    case False
    with assms(3) have body: "entryBody (last pre) = CompactionEntry summary tail n details u" by simp
    then have last: "is_compaction (last pre)" by (simp add: is_compaction_def entry_type_def)
    have split: "pre @ post = butlast pre @ last pre # post" using False by simp
    show ?thesis
      using cut_partition[OF assms(1)] compactable_after[OF body assms(2), of "butlast pre"]
        preparation_fields(4)[OF assms(1)] last_compaction[OF last assms(2), of "butlast pre"] body stored False
      by (simp add: split virtual_messages branch_messages_def map_filter_append nth_append)
  qed
qed

subsection \<open>The retained tail\<close>

lemma messages_between_Cons:
  "i < j \<Longrightarrow> messages_between es i j =
     (case getMessageFromEntryForCompaction (es ! i) of None \<Rightarrow> [] | Some m \<Rightarrow> [m]) @ messages_between es (Suc i) j"
  by (simp add: messages_between_def upt_conv_Cons List.map_filter_def split: option.split)

lemma set_messages_between:
  "m \<in> set (messages_between es i j) \<longleftrightarrow> (\<exists>k. i \<le> k \<and> k < j \<and> getMessageFromEntryForCompaction (es ! k) = Some m)"
  by (force simp: messages_between_def List.map_filter_def)

text \<open>The message of an entry that is no cut point is a tool result; that of one that is, is none.\<close>

lemma cut_point_message:
  "is_cut_point e \<Longrightarrow> \<exists>m. getMessageFromEntryForCompaction e = Some m \<and> role_of m \<noteq> ToolResultRole"
  "\<not> is_cut_point e \<Longrightarrow> getMessageFromEntryForCompaction e = Some m \<Longrightarrow> role_of m = ToolResultRole"
  "entry_type e \<noteq> MessageType \<Longrightarrow> getMessageFromEntryForCompaction e = Some m \<Longrightarrow> role_of m \<noteq> ToolResultRole"
  by (auto simp: is_cut_point_def getMessageFromEntryForCompaction_def getMessageFromEntry_def is_compaction_def
      entry_type_def split: entry_body.splits if_splits)

lemma kept_head:
  assumes "findValidCutPoints es s e \<noteq> []"
    and "messages_between es (firstKeptEntryIndex (findCutPoint es s e keep)) e = m # ms"
  shows "role_of m \<noteq> ToolResultRole"
proof -
  define c where "c = chosen_cut es s e keep"
  define k where "k = retreat es s c"
  have "c \<in> set (findValidCutPoints es s e)" using chosen_cut_point[OF assms(1)] by (simp add: c_def)
  then have c: "c < e" "is_cut_point (es ! c)" by auto
  have k: "k \<le> c" using retreat_le by (simp add: k_def)
  have before: "role_of m' \<noteq> ToolResultRole" if "m' \<in> set (messages_between es k c)" for m'
    using that retreat_passes[of es s c] cut_point_message(3) by (auto simp: set_messages_between k_def)
  from cut_point_message(1)[OF c(2)] obtain m' where m': "getMessageFromEntryForCompaction (es ! c) = Some m'"
    "role_of m' \<noteq> ToolResultRole" by blast
  have "messages_between es k e = messages_between es k c @ m' # messages_between es (Suc c) e"
    using messages_between_append[OF k, of e es] messages_between_Cons[OF c(1), of es] c(1) m'(1) by simp
  moreover have "messages_between es k e = m # ms"
    using assms by (simp add: cut_first_kept k_def c_def)
  ultimately show ?thesis
    using before m'(2) by (cases "messages_between es k c") auto
qed

text \<open>C13: A retained tail never begins with the result of a tool call that was summarised: it begins with a
  tool result only if the branch holds nothing but tool results, and then nothing is summarised.\<close>

theorem retained_tail_start:
  assumes "prepareCompaction path settings = Some p" and "retainedTail p = m # ms" and "role_of m = ToolResultRole"
  shows "messagesToSummarize p = [] \<and> turnPrefixMessages p = [] \<and> list_all (\<lambda>m. role_of m = ToolResultRole) (retainedTail p)"
proof -
  let ?es = "cut_entries path"
  have none: "findValidCutPoints ?es 0 (length ?es) = []"
    using kept_head[of ?es 0 "length ?es" "keepRecentTokens settings" m ms] assms(2,3)
    by (auto simp: preparation_fields(3)[OF assms(1)] branch_cut_def)
  then have cut0: "firstKeptEntryIndex (branch_cut path settings) = 0" "history_end (branch_cut path settings) = 0"
    by (simp_all add: branch_cut_def findCutPoint_def history_end_def)
  have "\<not> is_cut_point (?es ! i)" if "i < length ?es" for i
    using none that set_cut_points[of ?es 0 "length ?es"] by auto
  then have "list_all (\<lambda>m. role_of m = ToolResultRole) (messages_between ?es 0 (length ?es))"
    using cut_point_message(2) by (fastforce simp: list_all_iff set_messages_between)
  with cut0 show ?thesis
    by (simp add: preparation_fields(1-3)[OF assms(1)] messages_between_def List.map_filter_def)
qed

subsection \<open>The token budget\<close>

definition entry_tokens :: "entry \<Rightarrow> int" where
  "entry_tokens e = (case entry_message (entryBody e) of None \<Rightarrow> 0 | Some m \<Rightarrow> estimateTokens m)"

definition tokens_between :: "entry list \<Rightarrow> nat \<Rightarrow> nat \<Rightarrow> int" where
  "tokens_between es i j = sum_list (map (\<lambda>k. entry_tokens (es ! k)) [i..<j])"

lemma estimateTokens_nonneg: "0 \<le> estimateTokens m"
  by (cases m) (auto simp: ceil_quarter_def)

lemma entry_tokens_nonneg: "0 \<le> entry_tokens e"
  by (simp add: entry_tokens_def estimateTokens_nonneg split: option.split)

lemma tokens_between_snoc: "i \<le> j \<Longrightarrow> tokens_between es i (Suc j) = tokens_between es i j + entry_tokens (es ! j)"
  by (simp add: tokens_between_def)

lemma tokens_between_empty [simp]: "tokens_between es i i = 0"
  by (simp add: tokens_between_def)

lemma tokens_between_antimono: "i \<le> j \<Longrightarrow> tokens_between es j e \<le> tokens_between es i e"
proof (induction e)
  case (Suc e)
  then show ?case
    using entry_tokens_nonneg[of "es ! e"]
    by (cases "j \<le> e"; cases "i \<le> e") (auto simp: tokens_between_snoc, auto simp: tokens_between_def sum_list_nonneg entry_tokens_nonneg)
qed (simp add: tokens_between_def)

lemma budget_index_spec:
  "acc < budget \<Longrightarrow> s \<le> e \<Longrightarrow>
   (case budget_index es budget acc (rev [s..<e]) of
      None \<Rightarrow> acc + tokens_between es s e < budget
    | Some i \<Rightarrow> s \<le> i \<and> i < e \<and> budget \<le> acc + tokens_between es i e \<and> acc + tokens_between es (Suc i) e < budget)"
proof (induction e arbitrary: acc)
  case (Suc e)
  show ?case
  proof (cases "s \<le> e")
    case True
    let ?acc = "acc + entry_tokens (es ! e)"
    have shift: "tokens_between es i e + entry_tokens (es ! e) = tokens_between es i (Suc e)" if "i \<le> e" for i
      using tokens_between_snoc[OF that] by simp
    show ?thesis
    proof (cases "budget \<le> ?acc")
      case reached: True
      then have "entry_message (entryBody (es ! e)) \<noteq> None"
        using Suc.prems(1) by (cases "entry_message (entryBody (es ! e))") (auto simp: entry_tokens_def)
      with reached True Suc.prems(1) show ?thesis
        by (auto simp: entry_tokens_def tokens_between_def)
    next
      case False
      then have "budget_index es budget acc (rev [s..<Suc e]) = budget_index es budget ?acc (rev [s..<e])"
        using True by (auto simp: entry_tokens_def split: option.splits)
      moreover note Suc.IH[of ?acc]
      ultimately show ?thesis
        using False True shift by (fastforce simp: algebra_simps split: option.splits)
    qed
  next
    case False
    with Suc.prems have "s = Suc e" by simp
    with Suc.prems(1) show ?thesis by simp
  qed
qed simp

text \<open>The earliest cut point after whose entry the messages fit into the budget; the first one if none does.\<close>

definition earliest_fitting_cut :: "entry list \<Rightarrow> nat \<Rightarrow> nat \<Rightarrow> int \<Rightarrow> nat" where
  "earliest_fitting_cut es s e keep =
     (case find (\<lambda>c. tokens_between es (Suc c) e < keep) (findValidCutPoints es s e) of
        None \<Rightarrow> hd (findValidCutPoints es s e)
      | Some c \<Rightarrow> c)"

lemma find_hd: "xs \<noteq> [] \<Longrightarrow> P (hd xs) \<Longrightarrow> find P xs = Some (hd xs)"
  by (cases xs) auto

lemma chosen_cut_earliest:
  assumes "0 < keep" and "s \<le> e" and "findValidCutPoints es s e \<noteq> []"
  shows "chosen_cut es s e keep = earliest_fitting_cut es s e keep"
proof (cases "budget_index es keep 0 (rev [s..<e])")
  case None
  have "s \<le> hd (findValidCutPoints es s e)"
    using assms(3) list.set_sel(1)[OF assms(3)] by simp
  with None have "tokens_between es (Suc (hd (findValidCutPoints es s e))) e < keep"
    using budget_index_spec[OF assms(1,2), of es] tokens_between_antimono[of s "Suc (hd (findValidCutPoints es s e))" es e]
    by simp
  with None show ?thesis
    by (simp add: chosen_cut_def earliest_fitting_cut_def find_hd[OF assms(3)])
next
  case (Some i)
  with budget_index_spec[OF assms(1,2), of es]
  have i: "keep \<le> tokens_between es i e" "tokens_between es (Suc i) e < keep" by simp_all
  have "tokens_between es (Suc c) e < keep \<longleftrightarrow> i \<le> c" for c
    using i tokens_between_antimono[of "Suc i" "Suc c" es e] tokens_between_antimono[of "Suc c" i es e] by fastforce
  with Some show ?thesis by (simp add: chosen_cut_def earliest_fitting_cut_def)
qed

text \<open>C12: The cut of a branch keeps as much as the budget allows: it lies at the earliest cut point whose
  following messages are within the budget, together with the entries right before it that are
  neither messages nor compactions; if the messages after the last cut point alone exceed the budget, it
  lies at the first one.\<close>

theorem cut_is_earliest_fit:
  assumes "0 < keep" and "s \<le> e" and "findValidCutPoints es s e \<noteq> []"
  shows "firstKeptEntryIndex (findCutPoint es s e keep) \<le> earliest_fitting_cut es s e keep \<and>
    earliest_fitting_cut es s e keep < e \<and> is_cut_point (es ! earliest_fitting_cut es s e keep) \<and>
    list_all (\<lambda>i. entry_type (es ! i) \<notin> {MessageType, CompactionType})
      [firstKeptEntryIndex (findCutPoint es s e keep)..<earliest_fitting_cut es s e keep] \<and>
    (s < firstKeptEntryIndex (findCutPoint es s e keep) \<longrightarrow>
      entry_type (es ! (firstKeptEntryIndex (findCutPoint es s e keep) - 1)) \<in> {MessageType, CompactionType})"
  using chosen_cut_point[OF assms(3), of keep] retreat_le[of es s "chosen_cut es s e keep"]
    retreat_passes[of es s "chosen_cut es s e keep"] retreat_stops[of s es "chosen_cut es s e keep"] assms(3)
  by (auto simp: cut_first_kept chosen_cut_earliest[OF assms] list_all_iff)

subsection \<open>The files of a summary\<close>

definition previous_files :: "string \<Rightarrow> entry list \<Rightarrow> string set" where
  "previous_files k path =
     (case last_index is_compaction path of
        None \<Rightarrow> {}
      | Some i \<Rightarrow> (case entryBody (path ! i) of
            CompactionEntry summary tail n details u \<Rightarrow> set (string_array k details) | _ \<Rightarrow> {}))"

lemma proper_detail_files: "proper_file_ops ops \<Longrightarrow> proper_file_ops (add_detail_files details ops)"
  by (simp add: proper_file_ops_def add_detail_files_def distinct_fold_set_add)

lemma proper_extractFileOperations: "proper_file_ops (extractFileOperations ms path i)"
  by (auto simp: extractFileOperations_def intro!: proper_fold_extract proper_detail_files split: option.split entry_body.split)

lemma set_extractFileOperations:
  "set (filesRead (extractFileOperations ms path (last_index is_compaction path))) = previous_files ''readFiles'' path \<union> touched ''read'' ms"
  "set (filesEdited (extractFileOperations ms path (last_index is_compaction path))) = previous_files ''modifiedFiles'' path \<union> touched ''edit'' ms"
  "set (filesWritten (extractFileOperations ms path (last_index is_compaction path))) = touched ''write'' ms"
  by (auto simp: extractFileOperations_def previous_files_def set_fold_extract add_detail_files_def createFileOps_def
      split: option.split entry_body.split)

lemma touched_append: "touched tool (ms @ ns) = touched tool ms \<union> touched tool ns"
  by (auto simp: touched_def)

text \<open>The file lists of a compaction are sorted, without repetitions, and disjoint: the modified files are
  those that a tool call of the summarised messages wrote or edited or that the previous summary lists as
  modified, and the read files are those read there or listed as read, less the modified ones.\<close>

theorem compaction_file_lists:
  assumes "prepareCompaction path settings = Some p" and "computeFileLists (prepFileOps p) = (readFiles, modifiedFiles)"
  shows "sorted readFiles \<and> distinct readFiles \<and> sorted modifiedFiles \<and> distinct modifiedFiles \<and>
    set modifiedFiles = touched ''edit'' (messagesToSummarize p @ turnPrefixMessages p) \<union>
      touched ''write'' (messagesToSummarize p @ turnPrefixMessages p) \<union> previous_files ''modifiedFiles'' path \<and>
    set readFiles = (touched ''read'' (messagesToSummarize p @ turnPrefixMessages p) \<union> previous_files ''readFiles'' path) -
      set modifiedFiles"
proof -
  have "proper_file_ops (prepFileOps p)"
    by (simp add: preparation_fields(6)[OF assms(1)] proper_fold_extract proper_extractFileOperations)
  note lists = file_lists_of_operations[OF this assms(2)]
  show ?thesis
    using lists(3-6) unfolding lists(1,2) preparation_fields(6)[OF assms(1)]
    by (auto simp: set_fold_extract set_extractFileOperations touched_append)
qed

subsection \<open>The model calls\<close>

definition failed_response :: "assistant_message \<Rightarrow> bool" where
  "failed_response m \<longleftrightarrow> asstStopReason m = AbortedStop \<or> asstStopReason m = ErrorStop"

lemma first_response:
  "\<not> failed_response (fst (produce env w)) \<Longrightarrow> fst (retryAssistantCall env policy w) = fst (produce env w)"
  by (cases "produce env w") (auto simp: failed_response_def retryAssistantCall_def retry_loop.simps[of env policy 0 w]
      finish_retry_def)

text \<open>Some call to the model was answered by a failure.\<close>

definition some_call_failed :: "'w summary_world \<Rightarrow> bool" where
  "some_call_failed env \<longleftrightarrow> (\<exists>request w. failed_response (fst (completeSimple env request w)))"

lemma completed:
  "completeSimpleWithRetries env policy request w = (r, w') \<Longrightarrow> failed_response r \<Longrightarrow> some_call_failed env"
  unfolding completeSimpleWithRetries_def some_call_failed_def Let_def
  using first_response[of "\<lparr>produce = completeSimple env _, sleepFor = pause env, notify = report env\<rparr>"]
  by (auto split: prod.splits) (metis fst_conv retry_world.select_convs(1))

lemma summary_result_Inl: "summary_result a b m = Inl e \<longleftrightarrow> failed_response m \<and>
    e = (if asstStopReason m = AbortedStop then CompactionAborted (or_text (asstErrorMessage m) a)
         else SummarizationFailed (b @ or_text (asstErrorMessage m) ''Unknown error''))"
  by (auto simp: summary_result_def failed_response_def)

lemma history_failure: "history_summary env policy p model instr level w = (Inl e, w') \<Longrightarrow> some_call_failed env"
  by (auto simp: history_summary_def generateSummaryWithUsage_def summary_result_Inl split: prod.splits intro: completed)

lemma prefix_failure: "generateTurnPrefixSummary env policy ms model reserve level w = (Inl e, w') \<Longrightarrow> some_call_failed env"
  by (auto simp: generateTurnPrefixSummary_def summary_result_Inl split: prod.splits intro: completed)

lemma split_failure: "split_summary env policy p model instr level w = (Inl e, w') \<Longrightarrow> some_call_failed env"
  by (auto simp: split_summary_def and_then_Inl_iff split: prod.splits sum.splits if_splits dest: history_failure prefix_failure)

text \<open>A compaction fails only when a model call was answered by an error or an abort; otherwise its result
  carries the retained tail and the token count that were prepared, the file lists, and a summary that ends
  with these lists.\<close>

theorem compact_outcome:
  "case fst (compact_branch env policy p model instr level w) of
     Inl e \<Rightarrow> some_call_failed env
   | Inr r \<Rightarrow> resultTail r = retainedTail p \<and> resultTokensBefore r = prepTokensBefore p \<and>
       resultFiles r = computeFileLists (prepFileOps p) \<and>
       (\<exists>t. resultSummary r = t @ formatFileOperations (fst (resultFiles r)) (snd (resultFiles r)))"
proof -
  obtain result w' where run: "(if prepSplitTurn p \<and> turnPrefixMessages p \<noteq> []
      then split_summary env policy p model instr level w
      else history_summary env policy p model instr level w) = (result, w')" by fastforce
  have "some_call_failed env" if "result = Inl e" for e
    using run that by (auto split: if_splits dest: history_failure split_failure)
  with run show ?thesis
    by (cases result) (auto simp: compact_branch_def split: prod.split)
qed

subsection \<open>What the code does not mean to do\<close>

text \<open>Where a cut splits a turn and no history comes before that turn, the result of a compaction does not
  depend on the summary of the previous compaction: it is handed to no model call, and it is lost, since
  the new summary replaces it in the context.\<close>

theorem previous_summary_dropped:
  assumes "messagesToSummarize p = []" and "prepSplitTurn p" and "turnPrefixMessages p \<noteq> []"
  shows "compact_branch env policy (p\<lparr>prepPreviousSummary := s\<rparr>) model instr level w = compact_branch env policy p model instr level w"
  using assms by (simp add: compact_branch_def split_summary_def)

text \<open>The messages after the last cut point exceed the budget: nothing is summarised, however long the branch.\<close>

lemma oversized_end_keeps_everything:
  assumes "0 < keep" and "s \<le> e" and "findValidCutPoints es s e \<noteq> []"
    and "\<forall>c. s \<le> c \<and> c < e \<and> is_cut_point (es ! c) \<longrightarrow> keep \<le> tokens_between es (Suc c) e"
  shows "firstKeptEntryIndex (findCutPoint es s e keep) \<le> hd (findValidCutPoints es s e)"
proof -
  have "find (\<lambda>c. tokens_between es (Suc c) e < keep) (findValidCutPoints es s e) = None"
    using assms(4) by (auto simp: find_None_iff)
  with cut_first_kept[of es s e keep] chosen_cut_earliest[OF assms(1-3)] retreat_le[of es s] assms(3) show ?thesis
    by (simp add: earliest_fitting_cut_def)
qed

subsection \<open>Concrete branches\<close>

definition user_entry :: "string \<Rightarrow> string \<Rightarrow> entry" where
  "user_entry i t = context_entry i (MessageEntry (UserMessage (PlainContent t) 0) False) 0"

definition answer_entry :: "string \<Rightarrow> string \<Rightarrow> entry" where
  "answer_entry i t = context_entry i (MessageEntry (AssistantMessage ((scripted_answer StopStop None)\<lparr>asstContent := [TextContent t]\<rparr>)) False) 0"

definition kept_result :: tool_result where
  "kept_result = \<lparr>resToolCallId = '''', resToolName = '''', resContent = [TextContent ''result''], resDetails = JNull,
     resUsage = None, resAddedToolNames = [], resIsError = False, resTimestamp = 0\<rparr>"

definition small_settings :: compaction_settings where
  "small_settings = \<lparr>compactionEnabled = True, reserveTokens = 0, keepRecentTokens = 1\<rparr>"

lemma context_entry_simps [simp]:
  "entryId (context_entry i b n) = i" "entryBody (context_entry i b n) = b" "entryTimestamp (context_entry i b n) = 0"
  by (simp_all add: context_entry_def)

lemmas preparation_defs = prepareCompaction_def findCutPoint_def findValidCutPoints_def findTurnStartIndex_def
  messages_between_def compactable_entries_def is_cut_point_def starts_turn_def is_user_message_def is_compaction_def
  entry_type_def getMessageFromEntryForCompaction_def getMessageFromEntry_def last_index_def virtual_entry_def
  ceil_quarter_def List.map_filter_def

theorem compaction_partition_witness:
  "\<exists>p. prepareCompaction ([context_entry ''c'' (CompactionEntry ''old'' [user_text ''kept'' 0] 9 JNull None) 1] @
      [user_entry ''u'' ''hello'']) small_settings = Some p \<and>
    messagesToSummarize p @ turnPrefixMessages p @ retainedTail p = [user_text ''kept'' 0, UserMessage (PlainContent ''hello'') 0] \<and>
    prepPreviousSummary p = Some ''old''"
proof -
  let ?pre = "[context_entry ''c'' (CompactionEntry ''old'' [user_text ''kept'' 0] 9 JNull None) 1]"
  let ?post = "[user_entry ''u'' ''hello'']"
  have post: "\<forall>e \<in> set ?post. \<not> is_compaction e" by (simp add: user_entry_def is_compaction_def entry_type_def)
  have "prepareCompaction (?pre @ ?post) small_settings \<noteq> None"
    by (simp add: prepareCompaction_def Let_def user_entry_def is_compaction_def entry_type_def)
  then obtain p where p: "prepareCompaction (?pre @ ?post) small_settings = Some p" by blast
  have "?pre = [] \<or> entryBody (last ?pre) = CompactionEntry ''old'' [user_text ''kept'' 0] 9 JNull None" by simp
  note claim = compaction_partition[OF p post this, of "context_entry ''n'' (CompactionEntry ''new'' (retainedTail p) 9 JNull None) 2"]
  have "messagesToSummarize p @ turnPrefixMessages p @ retainedTail p = [user_text ''kept'' 0] @ branch_messages ?post"
    and "prepPreviousSummary p = Some ''old''"
    using claim by simp_all
  moreover have "branch_messages ?post = [UserMessage (PlainContent ''hello'') 0]"
    by (simp add: branch_messages_def user_entry_def preparation_defs)
  ultimately show ?thesis using p by auto
qed

lemma result_prepared:
  "prepareCompaction [context_entry ''r'' (MessageEntry (ToolResultMessage kept_result) False) 1] small_settings = Some p \<Longrightarrow>
   retainedTail p = [ToolResultMessage kept_result]"
  by (auto simp: preparation_defs Let_def)

theorem retained_tail_start_witness:
  "\<exists>p. prepareCompaction [context_entry ''r'' (MessageEntry (ToolResultMessage kept_result) False) 1] small_settings = Some p \<and>
     messagesToSummarize p = []"
proof -
  have "prepareCompaction [context_entry ''r'' (MessageEntry (ToolResultMessage kept_result) False) 1] small_settings \<noteq> None"
    by (simp add: prepareCompaction_def Let_def is_compaction_def entry_type_def)
  then obtain p where p: "prepareCompaction [context_entry ''r'' (MessageEntry (ToolResultMessage kept_result) False) 1]
    small_settings = Some p" by blast
  have "role_of (ToolResultMessage kept_result) = ToolResultRole" by simp
  from retained_tail_start[OF p result_prepared[OF p] this] p show ?thesis by blast
qed

theorem cut_is_earliest_fit_witness:
  "is_cut_point ([user_entry ''u'' ''hello''] ! earliest_fitting_cut [user_entry ''u'' ''hello''] 0 1 1)"
proof -
  have "findValidCutPoints [user_entry ''u'' ''hello''] 0 1 \<noteq> []"
    by (simp add: user_entry_def preparation_defs)
  moreover have "0 < (1 :: int)" "0 \<le> (1 :: nat)" by simp_all
  ultimately show ?thesis using cut_is_earliest_fit[of 1 0 1] by blast
qed

theorem compaction_file_lists_witness:
  "\<exists>p. prepareCompaction [user_entry ''u'' ''hello''] small_settings = Some p \<and>
    set (snd (computeFileLists (prepFileOps p))) =
      touched ''edit'' (messagesToSummarize p @ turnPrefixMessages p) \<union>
      touched ''write'' (messagesToSummarize p @ turnPrefixMessages p) \<union> previous_files ''modifiedFiles'' [user_entry ''u'' ''hello'']"
proof -
  have "prepareCompaction [user_entry ''u'' ''hello''] small_settings \<noteq> None"
    by (simp add: prepareCompaction_def Let_def user_entry_def is_compaction_def entry_type_def)
  then obtain p where p: "prepareCompaction [user_entry ''u'' ''hello''] small_settings = Some p" by blast
  obtain rs ms where "computeFileLists (prepFileOps p) = (rs, ms)" by fastforce
  from compaction_file_lists[OF p this] this p show ?thesis by auto
qed

text \<open>
  After a first compaction whose tail holds the whole turn, a second one splits that turn and summarises
  no history: the previous summary is there, and is dropped.
\<close>

definition split_path :: "entry list" where
  "split_path = [context_entry ''c'' (CompactionEntry ''old'' [UserMessage (PlainContent ''ask'') 0] 9 JNull None) 1,
      answer_entry ''a'' ''working'', answer_entry ''b'' ''done'']"

lemma previous_summary_dropped_reached:
  "case prepareCompaction split_path small_settings of
     None \<Rightarrow> False
   | Some p \<Rightarrow> prepPreviousSummary p = Some ''old'' \<and> messagesToSummarize p = [] \<and> prepSplitTurn p \<and> turnPrefixMessages p \<noteq> []"
  by code_simp

theorem previous_summary_dropped_witness:
  "\<exists>p. prepareCompaction split_path small_settings = Some p \<and> prepPreviousSummary p = Some ''old'' \<and>
     (\<forall>(env :: assistant_message list summary_world) policy model instr level w.
       compact_branch env policy (p\<lparr>prepPreviousSummary := None\<rparr>) model instr level w = compact_branch env policy p model instr level w)"
proof -
  obtain p where p: "prepareCompaction split_path small_settings = Some p" "prepPreviousSummary p = Some ''old''"
    and split: "messagesToSummarize p = []" "prepSplitTurn p" "turnPrefixMessages p \<noteq> []"
    using previous_summary_dropped_reached by (auto split: option.splits)
  have "compact_branch env policy (p\<lparr>prepPreviousSummary := None\<rparr>) model instr level w = compact_branch env policy p model instr level w"
    for env :: "assistant_message list summary_world" and policy model instr level w
    by (rule previous_summary_dropped[OF split])
  with p show ?thesis by blast
qed

text \<open>
  A change of settings between two turns makes the turn before it the prefix of a split turn, although the
  retained tail begins with the next turn's user message; without the change it is history.
\<close>

definition settings_path :: "bool \<Rightarrow> entry list" where
  "settings_path change = [user_entry ''a'' ''ask'', answer_entry ''b'' ''done''] @
     (if change then [context_entry ''m'' (ThinkingLevelEntry ''high'') 1] else []) @ [user_entry ''c'' ''next'']"

lemma settings_change_splits_turn:
  "case prepareCompaction (settings_path change) small_settings of
     None \<Rightarrow> False
   | Some p \<Rightarrow> prepSplitTurn p = change \<and> (messagesToSummarize p = []) = change \<and> (turnPrefixMessages p \<noteq> []) = change \<and>
       retainedTail p = [UserMessage (PlainContent ''next'') 0]"
proof -
  have "case prepareCompaction (settings_path True) small_settings of
     None \<Rightarrow> False
   | Some p \<Rightarrow> prepSplitTurn p \<and> messagesToSummarize p = [] \<and> turnPrefixMessages p \<noteq> [] \<and>
       retainedTail p = [UserMessage (PlainContent ''next'') 0]"
    by code_simp
  moreover have "case prepareCompaction (settings_path False) small_settings of
     None \<Rightarrow> False
   | Some p \<Rightarrow> \<not> prepSplitTurn p \<and> messagesToSummarize p \<noteq> [] \<and> turnPrefixMessages p = [] \<and>
       retainedTail p = [UserMessage (PlainContent ''next'') 0]"
    by code_simp
  ultimately show ?thesis by (cases change) (auto split: option.splits)
qed

end
