(* ===== verification/BranchSummary.thy ===== *)
theory BranchSummary
  imports CompactionCorrect SessionStorage
begin

section \<open>Branch summaries\<close>

text \<open>
  \<^verbatim>\<open>packages/agent/src/harness/compaction/branch-summarization.ts\<close>: the entries that a navigation to
  another branch leaves behind, the part of them that fits into a model's context, and their summary.
\<close>

subsection \<open>The abandoned entries\<close>

definition truthy_id :: "string option \<Rightarrow> bool" where
  "truthy_id i \<longleftrightarrow> i \<noteq> None \<and> i \<noteq> Some ''''"

text \<open>The walk from the old leaf to the common ancestor; it does not look for cycles.\<close>

partial_function (option) abandoned ::
  "session_state \<Rightarrow> string option \<Rightarrow> string option \<Rightarrow> entry list \<Rightarrow> (session_error + entry list) option" where
  "abandoned st common current collected =
     (if truthy_id current \<and> current \<noteq> common then
        (case map_of (entriesById st) (the current) of
           None \<Rightarrow> Some (Inl (SessionError InvalidEntry (''Entry '' @ the current @ '' not found'')))
         | Some e \<Rightarrow> abandoned st common (entryParent e) (collected @ [e]))
      else Some (Inr collected))"

definition collectEntriesForBranchSummary ::
  "session_state \<Rightarrow> string option \<Rightarrow> string \<Rightarrow> (session_error + entry list \<times> string option) option" where
  "collectEntriesForBranchSummary st oldLeafId targetId =
     (if \<not> truthy_id oldLeafId then Some (Inr ([], None))
      else
        (case findEntriesOnBranch st newest_first no_bounds (the oldLeafId) of
           Inl err \<Rightarrow> Some (Inl err)
         | Inr oldPath \<Rightarrow>
             (case findEntriesOnBranch st newest_first no_bounds targetId of
                Inl err \<Rightarrow> Some (Inl err)
              | Inr targetPath \<Rightarrow>
                  (let common = map_option entryId (find (\<lambda>e. entryId e \<in> entryId ` set oldPath) targetPath)
                   in map_option (\<lambda>r. and_then r (\<lambda>es. Inr (rev es, common))) (abandoned st common oldLeafId [])))))"

subsection \<open>What is summarised\<close>

definition branchMessageFromEntry :: "entry \<Rightarrow> agent_message option" where
  "branchMessageFromEntry e =
     (case entryBody e of
        MessageEntry m terminate \<Rightarrow> if role_of m = ToolResultRole then None else Some m
      | BranchSummaryEntry fromId summary details u \<Rightarrow> Some (BranchSummaryMessage summary fromId (entryTimestamp e))
      | CompactionEntry summary tail n details u \<Rightarrow> Some (CompactionSummaryMessage summary n (entryTimestamp e))
      | _ \<Rightarrow> None)"

definition add_summary_files :: "entry \<Rightarrow> file_operations \<Rightarrow> file_operations" where
  "add_summary_files e ops =
     (case entryBody e of BranchSummaryEntry fromId summary details u \<Rightarrow> add_detail_files details ops | _ \<Rightarrow> ops)"

record branch_preparation =
  branchMessages :: "agent_message list"
  branchFileOps :: file_operations
  branchTokens :: int

definition is_summary_entry :: "entry \<Rightarrow> bool" where
  "is_summary_entry e \<longleftrightarrow> entry_type e = CompactionType \<or> entry_type e = BranchSummaryType"

text \<open>The loop over the entries, the newest first.\<close>

fun take_branch :: "int \<Rightarrow> entry list \<Rightarrow> branch_preparation \<Rightarrow> branch_preparation" where
  "take_branch budget [] p = p"
| "take_branch budget (e # es) p =
     (case branchMessageFromEntry e of
        None \<Rightarrow> take_branch budget es p
      | Some m \<Rightarrow>
          (let p = p\<lparr>branchFileOps := extractFileOpsFromMessage m (branchFileOps p)\<rparr>;
               added = p\<lparr>branchMessages := m # branchMessages p, branchTokens := branchTokens p + estimateTokens m\<rparr>
           in if 0 < budget \<and> budget < branchTokens p + estimateTokens m
              then (if is_summary_entry e \<and> 10 * branchTokens p < 9 * budget then added else p)
              else take_branch budget es added))"

definition prepareBranchEntries :: "entry list \<Rightarrow> int \<Rightarrow> branch_preparation" where
  "prepareBranchEntries es budget =
     take_branch budget (rev es)
       \<lparr>branchMessages = [], branchFileOps = fold add_summary_files es createFileOps, branchTokens = 0\<rparr>"

definition BRANCH_SUMMARY_PREAMBLE :: string where
  "BRANCH_SUMMARY_PREAMBLE = join newline
    [''The user explored a different conversation branch before returning here.'',
     ''Summary of that exploration:'',
     '''',
     '''']"

definition BRANCH_SUMMARY_PROMPT :: string where
  "BRANCH_SUMMARY_PROMPT = join newline
    [''Create a structured summary of this conversation branch for context when returning later.'',
     '''',
     ''Use this EXACT format:'',
     '''',
     ''## Goal'',
     ''[What was the user trying to accomplish in this branch?]'',
     '''',
     ''## Constraints & Preferences'',
     ''- [Any constraints, preferences, or requirements mentioned]'',
     ''- [Or \"(none)\" if none were mentioned]'',
     '''',
     ''## Progress'',
     ''### Done'',
     ''- [x] [Completed tasks/changes]'',
     '''',
     ''### In Progress'',
     ''- [ ] [Work that was started but not finished]'',
     '''',
     ''### Blocked'',
     ''- [Issues preventing progress, if any]'',
     '''',
     ''## Key Decisions'',
     ''- **[Decision]**: [Brief rationale]'',
     '''',
     ''## Next Steps'',
     ''1. [What should happen next to continue this work]'',
     '''',
     ''Keep each section concise. Preserve exact file paths, function names, and error messages.'']"

record branch_summary_result =
  branchSummary :: string
  branchUsage :: "usage option"
  branchReadFiles :: "string list"
  branchModifiedFiles :: "string list"

datatype branch_summary_error = BranchSummaryAborted string | BranchSummaryFailed string

definition branch_instructions :: "string option \<Rightarrow> bool \<Rightarrow> string" where
  "branch_instructions customInstructions replaceInstructions =
     (if replaceInstructions \<and> given customInstructions then the customInstructions
      else if given customInstructions
      then BRANCH_SUMMARY_PROMPT @ newline @ newline @ ''Additional focus: '' @ the customInstructions
      else BRANCH_SUMMARY_PROMPT)"

definition generateBranchSummary ::
  "'w summary_world \<Rightarrow> retry_policy option \<Rightarrow> entry list \<Rightarrow> summary_model \<Rightarrow> string option \<Rightarrow> bool \<Rightarrow> int \<Rightarrow>
   'w \<Rightarrow> (branch_summary_error + branch_summary_result) \<times> 'w" where
  "generateBranchSummary env policy es model customInstructions replaceInstructions reserve w =
     (let window = (if modelContextWindow model = 0 then 128000 else modelContextWindow model);
          p = prepareBranchEntries es (window - reserve)
      in if branchMessages p = [] then
           (Inr \<lparr>branchSummary = ''No content to summarize'', branchUsage = None, branchReadFiles = [],
                 branchModifiedFiles = []\<rparr>, w)
         else
           (case completeSimpleWithRetries env policy
                   (summary_request_for (conversation_block (branchMessages p) @
                      branch_instructions customInstructions replaceInstructions) (clock env w) 2048 None) w of
              (response, w') \<Rightarrow>
                (if asstStopReason response = AbortedStop
                 then Inl (BranchSummaryAborted (or_text (asstErrorMessage response) ''Branch summary aborted''))
                 else if asstStopReason response = ErrorStop
                 then Inl (BranchSummaryFailed
                   (''Branch summary failed: '' @ or_text (asstErrorMessage response) ''Unknown error''))
                 else
                   (case computeFileLists (branchFileOps p) of
                      (readFiles, modifiedFiles) \<Rightarrow>
                        let summary = BRANCH_SUMMARY_PREAMBLE @ contentText (BlockContent (asstContent response)) newline @
                              formatFileOperations readFiles modifiedFiles
                        in Inr \<lparr>branchSummary = (if summary = '''' then ''No summary generated'' else summary),
                               branchUsage = Some (asstUsage response), branchReadFiles = readFiles,
                               branchModifiedFiles = modifiedFiles\<rparr>), w')))"

subsection \<open>The abandoned entries are those off the target's branch\<close>

lemma branch_suffix: "is_branch es (p @ q) \<Longrightarrow> q \<noteq> [] \<Longrightarrow> is_branch es q"
proof (induction p)
  case (Cons x p)
  then show ?case by (cases "p @ q") auto
qed simp

lemma decreasing_distinct: "sorted_wrt (>) (ns :: nat list) \<Longrightarrow> distinct ns"
  by (induction ns) auto

lemma branch_sorted:
  assumes "session_inv st" and "is_branch (entries st) (e # path)"
  shows "distinct (e # path)"
proof -
  have d: "distinct (map entryId (entries st))" and "e \<in> set (entries st)"
    using inv_forest[OF assms(1)] branch_subset[OF assms(2)] by (auto simp: forest_def)
  then obtain path' where p: "is_branch (entries st) (e # path')" "sorted_wrt (>) (map entrySeq (e # path'))"
    using branch_exists[OF inv_forest[OF assms(1)]] by blast
  have "distinct (map entrySeq (e # path'))"
    using p(2) decreasing_distinct by blast
  with branch_unique[OF d assms(2) p(1)] show ?thesis by (auto simp: distinct_map)
qed

lemma entry_by_id:
  assumes "session_inv st" and "e \<in> set (entries st)"
  shows "map_of (entriesById st) (entryId e) = Some e"
  using find_entry[OF _ assms(2)] inv_forest[OF assms(1)] by (simp add: inv_byId[OF assms(1)] forest_def)

lemma abandoned_walk:
  assumes inv: "session_inv st" and ids: "\<forall>e \<in> set (entries st). entryId e \<noteq> ''''"
  shows "is_branch (entries st) (r @ rest) \<Longrightarrow> r @ rest \<noteq> [] \<Longrightarrow>
    common = (case rest of [] \<Rightarrow> None | a # s \<Rightarrow> Some (entryId a)) \<Longrightarrow> common \<notin> Some ` entryId ` set r \<Longrightarrow>
    abandoned st common (Some (entryId (hd (r @ rest)))) acc = Some (Inr (acc @ r))"
proof (induction r arbitrary: acc)
  case Nil
  then show ?case by (cases rest) (simp_all add: abandoned.simps)
next
  case (Cons x r)
  have x: "x \<in> set (entries st)" using branch_subset[OF Cons.prems(1)] by simp
  have here: "truthy_id (Some (entryId x)) \<and> Some (entryId x) \<noteq> common"
    using x ids Cons.prems(4) by (auto simp: truthy_id_def)
  show ?case
  proof (cases "r @ rest")
    case Nil
    with Cons.prems have "entryParent x = None" "common = None" by auto
    with Nil here entry_by_id[OF inv x] show ?thesis
      by (simp add: abandoned.simps[of st None "Some _"] abandoned.simps[of st None None] truthy_id_def)
  next
    case (Cons y ys)
    with Cons.prems have "entryParent x = Some (entryId (hd (r @ rest)))" "is_branch (entries st) (r @ rest)" by auto
    with Cons.IH[of "acc @ [x]"] Cons.prems(3,4) Cons here entry_by_id[OF inv x] show ?thesis
      by (simp add: abandoned.simps[of st _ "Some (entryId x)"])
  qed
qed

lemma find_split: "find P xs = Some x \<Longrightarrow> \<exists>ys zs. xs = ys @ x # zs \<and> P x \<and> (\<forall>y \<in> set ys. \<not> P y)"
proof (induction xs)
  case (Cons z xs)
  show ?case
  proof (cases "P z")
    case True
    with Cons.prems show ?thesis by (intro exI[of _ "[]"] exI[of _ xs]) simp
  next
    case False
    with Cons obtain ys zs where "xs = ys @ x # zs" "P x" "\<forall>y \<in> set ys. \<not> P y" by auto
    with False show ?thesis by (intro exI[of _ "z # ys"] exI[of _ zs]) simp
  qed
qed simp

text \<open>C15: Leaving a branch for another one, exactly the entries of the old branch that are not on the target's
  branch are summarised, from the oldest on: the two branches end in the same entries, the newest of
  these is the common ancestor that is reported, and the walk to it ends without an error.\<close>

theorem abandoned_entries:
  assumes "session_inv st" and "\<forall>e \<in> set (entries st). entryId e \<noteq> ''''"
    and "is_branch (entries st) (e # path)" and "is_branch (entries st) (t # target)"
  shows "\<exists>es rest before. e # path = rev es @ rest \<and> t # target = before @ rest \<and> set es \<inter> set (t # target) = {} \<and>
    collectEntriesForBranchSummary st (Some (entryId e)) (entryId t) =
      Some (Inr (es, case rest of [] \<Rightarrow> None | a # s \<Rightarrow> Some (entryId a)))"
proof -
  let ?shared = "\<lambda>x. entryId x \<in> entryId ` set (e # path)"
  have ids: "distinct (map entryId (entries st))" using inv_forest[OF assms(1)] by (simp add: forest_def)
  have inside: "set (e # path) \<subseteq> set (entries st)" "set (t # target) \<subseteq> set (entries st)"
    using branch_subset assms(3,4) by blast+
  have same: "?shared x \<longleftrightarrow> x \<in> set (e # path)" if "x \<in> set (t # target)" for x
    using that inside same_entry[OF ids, of x] by blast
  have e: "truthy_id (Some (entryId e))" using assms(2) inside by (auto simp: truthy_id_def)
  have run: "collectEntriesForBranchSummary st (Some (entryId e)) (entryId t) =
      map_option (\<lambda>r. and_then r (\<lambda>es. Inr (rev es, map_option entryId (find ?shared (t # target)))))
        (abandoned st (map_option entryId (find ?shared (t # target))) (Some (entryId e)) [])"
    using e newest_branch[OF assms(1,3)] newest_branch[OF assms(1,4)]
    by (simp add: collectEntriesForBranchSummary_def Let_def del: find.simps)
  show ?thesis
  proof (cases "find ?shared (t # target)")
    case None
    then have "\<forall>x \<in> set (t # target). x \<notin> set (e # path)" using same by (simp only: find_None_iff) blast
    moreover have "abandoned st None (Some (entryId e)) [] = Some (Inr (e # path))"
      using abandoned_walk[OF assms(1,2), of "e # path" "[]" None "[]"] assms(3) by simp
    ultimately show ?thesis
      using run None by (intro exI[of _ "rev (e # path)"] exI[of _ "[]"] exI[of _ "t # target"]) auto
  next
    case (Some a)
    from find_split[OF Some] obtain before new where new: "t # target = before @ a # new" "\<forall>x \<in> set before. \<not> ?shared x"
      "?shared a" by blast
    then have "a \<in> set (e # path)" using same[of a] by simp
    then obtain r old where old: "e # path = r @ a # old" by (meson split_list)
    have "is_branch (entries st) (a # old)" "is_branch (entries st) (a # new)"
      using branch_suffix[of "entries st" r "a # old"] branch_suffix[of "entries st" before "a # new"] assms(3,4)
      unfolding old new(1) by simp_all
    then have suffix: "old = new" using branch_unique[OF ids] by blast
    have d: "distinct (r @ a # old)" using branch_sorted[OF assms(1,3)] unfolding old .
    have apart: "set r \<inter> set (t # target) = {}"
      using d new(2) old suffix unfolding new(1) by auto
    have "Some (entryId a) \<notin> Some ` entryId ` set r"
      using d inside(1) same_entry[OF ids, of a] unfolding old by auto
    then have "abandoned st (Some (entryId a)) (Some (entryId e)) [] = Some (Inr r)"
      using abandoned_walk[OF assms(1,2), of r "a # old" "Some (entryId a)" "[]"] assms(3) old[symmetric]
      by (simp only: old[symmetric]) simp
    with run Some apart old new(1) suffix show ?thesis
      by (intro exI[of _ "rev r"] exI[of _ "a # old"] exI[of _ before]) auto
  qed
qed

subsection \<open>The budget\<close>

lemma take_branch_spec:
  assumes "branchTokens p = sum_list (map estimateTokens (branchMessages p))" and "0 < budget \<longrightarrow> branchTokens p \<le> budget"
  shows "\<exists>pre. List.map_filter branchMessageFromEntry (rev es) @ branchMessages p = pre @ branchMessages (take_branch budget es p) \<and>
    branchTokens (take_branch budget es p) = sum_list (map estimateTokens (branchMessages (take_branch budget es p))) \<and>
    (budget \<le> 0 \<longrightarrow> pre = []) \<and>
    (0 < budget \<longrightarrow> branchTokens (take_branch budget es p) \<le> budget \<or>
      10 * sum_list (map estimateTokens (tl (branchMessages (take_branch budget es p)))) < 9 * budget)"
  using assms
proof (induction budget es p rule: take_branch.induct)
  case (1 budget p)
  then show ?case by (intro exI[of _ "[]"]) (simp add: List.map_filter_def)
next
  case (2 budget e es p)
  show ?case
  proof (cases "branchMessageFromEntry e")
    case None
    with 2 show ?thesis by (simp add: List.map_filter_def)
  next
    case (Some m)
    let ?p = "p\<lparr>branchFileOps := extractFileOpsFromMessage m (branchFileOps p)\<rparr>"
    let ?added = "?p\<lparr>branchMessages := m # branchMessages ?p, branchTokens := branchTokens ?p + estimateTokens m\<rparr>"
    have listed: "List.map_filter branchMessageFromEntry (rev (e # es)) @ branchMessages p =
        List.map_filter branchMessageFromEntry (rev es) @ branchMessages ?added"
      using Some by (simp add: List.map_filter_def)
    show ?thesis
    proof (cases "0 < budget \<and> budget < branchTokens p + estimateTokens m")
      case True
      with Some 2(3,4) listed show ?thesis
        by (cases "is_summary_entry e \<and> 10 * branchTokens p < 9 * budget") (auto simp: Let_def List.map_filter_def)
    next
      case False
      then have "take_branch budget (e # es) p = take_branch budget es ?added" using Some by (auto simp: Let_def)
      moreover have "branchTokens ?added = sum_list (map estimateTokens (branchMessages ?added))"
        "0 < budget \<longrightarrow> branchTokens ?added \<le> budget"
        using False 2(3) by auto
      ultimately show ?thesis
        using "2.IH"(2)[OF Some refl refl] False listed by simp
    qed
  qed
qed

text \<open>The messages of a branch that are summarised are its last ones, their token count is what is
  reported, all of them are taken when there is no budget, and otherwise they fit into it, except for one
  summary entry that goes in front of messages that fill less than nine tenths of it.\<close>

theorem branch_within_budget:
  assumes "prepareBranchEntries es budget = p"
  shows "\<exists>pre. List.map_filter branchMessageFromEntry es = pre @ branchMessages p \<and>
    branchTokens p = sum_list (map estimateTokens (branchMessages p)) \<and> (budget \<le> 0 \<longrightarrow> pre = []) \<and>
    (0 < budget \<longrightarrow> branchTokens p \<le> budget \<or> 10 * sum_list (map estimateTokens (tl (branchMessages p))) < 9 * budget)"
  using take_branch_spec[of "\<lparr>branchMessages = [], branchFileOps = fold add_summary_files es createFileOps, branchTokens = 0\<rparr>"
      budget "rev es"] assms
  by (simp add: prepareBranchEntries_def)

lemma sample_inv: "session_inv sample_session"
  by (rule inv_applyMutations[OF inv_new sample_replay])

theorem abandoned_entries_witness:
  "collectEntriesForBranchSummary sample_session (Some ''b'') ''c'' =
     Some (Inr ([sample_entry ''b'' ''go'' 2 (Some ''a'')], Some ''a''))"
proof -
  let ?a = "sample_entry ''a'' ''hi'' 1 None" and ?b = "sample_entry ''b'' ''go'' 2 (Some ''a'')"
    and ?c = "sample_entry ''c'' ''other'' 6 (Some ''a'')"
  have ids: "\<forall>e \<in> set (entries sample_session). entryId e \<noteq> ''''"
    and branches: "is_branch (entries sample_session) (?b # [?a])" "is_branch (entries sample_session) (?c # [?a])"
    by (simp_all add: sample_session_def sample_entry_def)
  from abandoned_entries[OF sample_inv ids branches] obtain es rest before where
    r: "[?b, ?a] = rev es @ rest" "[?c, ?a] = before @ rest" "set es \<inter> set [?c, ?a] = {}"
    "collectEntriesForBranchSummary sample_session (Some (entryId ?b)) (entryId ?c) =
      Some (Inr (es, case rest of [] \<Rightarrow> None | a # s \<Rightarrow> Some (entryId a)))" by blast
  have apart: "?b \<noteq> ?c" "?a \<notin> set es" using r(3) by (auto simp: sample_entry_def provision_def)
  have "es = [?b] \<and> rest = [?a]"
  proof (cases "rev es")
    case Nil
    with r(1,2) apart(1) show ?thesis by (cases before) auto
  next
    case (Cons x xs)
    with r(1) apart(2) show ?thesis by (cases xs) (auto simp: rev_swap)
  qed
  with r(4) show ?thesis by (simp add: sample_entry_def)
qed

theorem branch_within_budget_witness:
  "branchTokens (prepareBranchEntries [sample_entry ''a'' ''hi'' 1 None] 10) \<le> 10 \<or>
   10 * sum_list (map estimateTokens (tl (branchMessages (prepareBranchEntries [sample_entry ''a'' ''hi'' 1 None] 10)))) < 9 * 10"
  using branch_within_budget[OF refl, of "[sample_entry ''a'' ''hi'' 1 None]" 10]
  by (elim exE conjE) (erule mp, simp)

end
