(* ===== verification/EditDiff.thy ===== *)
theory EditDiff
  imports Truncate
begin

section \<open>Edits\<close>

text \<open>
  \<^verbatim>\<open>packages/agent/src/harness/tools/edit-diff.ts\<close>: line endings, the search for a text, exactly and in a
  normalised form, and the application of several replacements to one content. Text is a list of
  UTF-16 code units. The Unicode normalisation form NFKC is a parameter \<open>nfkc\<close>.
\<close>

subsection \<open>Line endings\<close>

datatype line_ending = LF | CRLF

text \<open>\<open>content.indexOf(pattern)\<close>\<close>

definition index_of :: "'a list \<Rightarrow> 'a list \<Rightarrow> nat option" where
  "index_of p s = find (\<lambda>i. take (length p) (drop i s) = p) [0..<Suc (length s)]"

definition detectLineEnding :: "js_string \<Rightarrow> line_ending" where
  "detectLineEnding s =
     (case index_of [10] s of
        None \<Rightarrow> LF
      | Some lf \<Rightarrow> (case index_of [13, 10] s of None \<Rightarrow> LF | Some crlf \<Rightarrow> if crlf < lf then CRLF else LF))"

fun replace_crlf :: "js_string \<Rightarrow> js_string" where
  "replace_crlf (u # v # us) = (if u = 13 \<and> v = 10 then 10 # replace_crlf us else u # replace_crlf (v # us))"
| "replace_crlf us = us"

definition normalizeToLF :: "js_string \<Rightarrow> js_string" where
  "normalizeToLF s = map (\<lambda>u. if u = 13 then 10 else u) (replace_crlf s)"

definition restoreLineEndings :: "js_string \<Rightarrow> line_ending \<Rightarrow> js_string" where
  "restoreLineEndings s ending = (if ending = CRLF then concat (map (\<lambda>u. if u = 10 then [13, 10] else [u]) s) else s)"

definition stripBom :: "js_string \<Rightarrow> js_string \<times> js_string" where
  "stripBom s = (case s of u # us \<Rightarrow> if u = 0xFEFF then ([0xFEFF], us) else ([], s) | [] \<Rightarrow> ([], s))"

subsection \<open>Normalised text\<close>

text \<open>The white space that \<open>trimEnd\<close> removes.\<close>

definition white_space :: "16 word \<Rightarrow> bool" where
  "white_space u \<longleftrightarrow>
     (let n = unat u
      in 9 \<le> n \<and> n \<le> 13 \<or> n = 32 \<or> n = 0xA0 \<or> n = 0x1680 \<or> 0x2000 \<le> n \<and> n \<le> 0x200A \<or> n = 0x2028 \<or> n = 0x2029 \<or>
         n = 0x202F \<or> n = 0x205F \<or> n = 0x3000 \<or> n = 0xFEFF)"

definition trim_end :: "js_string \<Rightarrow> js_string" where
  "trim_end s = rev (dropWhile white_space (rev s))"

definition plain_unit :: "16 word \<Rightarrow> 16 word" where
  "plain_unit u =
     (let n = unat u
      in if 0x2018 \<le> n \<and> n \<le> 0x201B then 0x27
         else if 0x201C \<le> n \<and> n \<le> 0x201F then 0x22
         else if 0x2010 \<le> n \<and> n \<le> 0x2015 \<or> n = 0x2212 then 0x2D
         else if n = 0xA0 \<or> 0x2002 \<le> n \<and> n \<le> 0x200A \<or> n = 0x202F \<or> n = 0x205F \<or> n = 0x3000 then 0x20
         else u)"

definition normalizeForFuzzyMatch :: "(js_string \<Rightarrow> js_string) \<Rightarrow> js_string \<Rightarrow> js_string" where
  "normalizeForFuzzyMatch nfkc s = map plain_unit (join [10] (map trim_end (split_lines (nfkc s))))"

record fuzzy_match =
  matchFound :: bool
  matchAt :: nat
  matchSize :: nat
  matchFuzzy :: bool
  matchContent :: js_string

definition fuzzyFindText :: "(js_string \<Rightarrow> js_string) \<Rightarrow> js_string \<Rightarrow> js_string \<Rightarrow> fuzzy_match" where
  "fuzzyFindText nfkc content oldText =
     (case index_of oldText content of
        Some i \<Rightarrow> \<lparr>matchFound = True, matchAt = i, matchSize = length oldText, matchFuzzy = False, matchContent = content\<rparr>
      | None \<Rightarrow>
          (let fuzzyContent = normalizeForFuzzyMatch nfkc content; fuzzyOldText = normalizeForFuzzyMatch nfkc oldText
           in case index_of fuzzyOldText fuzzyContent of
                None \<Rightarrow> \<lparr>matchFound = False, matchAt = 0, matchSize = 0, matchFuzzy = False, matchContent = content\<rparr>
              | Some i \<Rightarrow> \<lparr>matchFound = True, matchAt = i, matchSize = length fuzzyOldText, matchFuzzy = True,
                    matchContent = fuzzyContent\<rparr>))"

text \<open>\<open>content.split(pattern).length - 1\<close>: the pieces between occurrences, or the code units for an empty pattern.\<close>

lemma index_of_Some: "index_of p s = Some i \<Longrightarrow> i \<le> length s \<and> take (length p) (drop i s) = p"
  by (auto simp: index_of_def find_Some_iff simp del: upt_Suc)

function count_pieces :: "js_string \<Rightarrow> js_string \<Rightarrow> nat" where
  "count_pieces p s =
     (if p = [] then 0
      else (case index_of p s of None \<Rightarrow> 0 | Some i \<Rightarrow> Suc (count_pieces p (drop (i + length p) s))))"
  by pat_completeness auto
termination
proof (relation "measure (\<lambda>(p, s). length s)", goal_cases)
  case (2 p s i)
  then have "take (length p) (drop i s) = p" by (simp add: index_of_Some)
  with 2(1) have "drop i s \<noteq> []" by auto
  with 2(1) show ?case by (cases p) auto
qed simp

declare count_pieces.simps [simp del]

definition countOccurrences :: "(js_string \<Rightarrow> js_string) \<Rightarrow> js_string \<Rightarrow> js_string \<Rightarrow> int" where
  "countOccurrences nfkc content oldText =
     (let fuzzyContent = normalizeForFuzzyMatch nfkc content; fuzzyOldText = normalizeForFuzzyMatch nfkc oldText
      in if fuzzyOldText = [] then int (length fuzzyContent) - 1 else int (count_pieces fuzzyOldText fuzzyContent))"

subsection \<open>Replacements\<close>

record edit =
  oldText :: js_string
  newText :: js_string

record matched_edit =
  editIndex :: nat
  matchIndex :: nat
  matchLength :: nat
  editText :: js_string

datatype edit_error = EmptyOldText nat | NotFound nat | Duplicate nat int | Overlap nat nat | NoChange
  | OutsideBase | LineCountDiffers

definition edits_name :: "nat \<Rightarrow> string" where
  "edits_name i = ''edits['' @ show_nat i @ '']''"

definition edit_error_text :: "string \<Rightarrow> nat \<Rightarrow> edit_error \<Rightarrow> string" where
  "edit_error_text path amount e =
     (case e of
        NotFound i \<Rightarrow>
          if amount = 1 then ''Could not find the exact text in '' @ path @
            ''. The old text must match exactly including all whitespace and newlines.''
          else ''Could not find '' @ edits_name i @ '' in '' @ path @
            ''. The oldText must match exactly including all whitespace and newlines.''
      | Duplicate i n \<Rightarrow>
          if amount = 1 then ''Found '' @ show_int n @ '' occurrences of the text in '' @ path @
            ''. The text must be unique. Please provide more context to make it unique.''
          else ''Found '' @ show_int n @ '' occurrences of '' @ edits_name i @ '' in '' @ path @
            ''. Each oldText must be unique. Please provide more context to make it unique.''
      | EmptyOldText i \<Rightarrow>
          if amount = 1 then ''oldText must not be empty in '' @ path @ ''.''
          else edits_name i @ ''.oldText must not be empty in '' @ path @ ''.''
      | NoChange \<Rightarrow>
          if amount = 1 then ''No changes made to '' @ path @
            ''. The replacement produced identical content. This might indicate an issue with special characters or the text not existing as expected.''
          else ''No changes made to '' @ path @ ''. The replacements produced identical content.''
      | Overlap i j \<Rightarrow> edits_name i @ '' and '' @ edits_name j @ '' overlap in '' @ path @
          ''. Merge them into one edit or target disjoint regions.''
      | OutsideBase \<Rightarrow> ''Replacement range is outside the base content.''
      | LineCountDiffers \<Rightarrow> ''Cannot preserve unchanged lines because the base content has a different line count.'')"

text \<open>Replacements from the last to the first; their positions are relative to \<open>offset\<close>, which is not after them.\<close>

definition replace_at :: "nat \<Rightarrow> matched_edit \<Rightarrow> js_string \<Rightarrow> js_string" where
  "replace_at offset r s =
     (let i = matchIndex r - offset in take i s @ editText r @ drop (i + matchLength r) s)"

definition applyReplacements :: "js_string \<Rightarrow> matched_edit list \<Rightarrow> nat \<Rightarrow> js_string" where
  "applyReplacements content rs offset = foldr (replace_at offset) rs content"

fun splitLinesWithEndings :: "js_string \<Rightarrow> js_string list" where
  "splitLinesWithEndings [] = []"
| "splitLinesWithEndings (u # us) =
     (if u = 10 then [10] # splitLinesWithEndings us
      else (case splitLinesWithEndings us of [] \<Rightarrow> [[u]] | l # ls \<Rightarrow> (u # l) # ls))"

fun spans_from :: "nat \<Rightarrow> js_string list \<Rightarrow> (nat \<times> nat) list" where
  "spans_from offset [] = []"
| "spans_from offset (l # ls) = (offset, offset + length l) # spans_from (offset + length l) ls"

definition getLineSpans :: "js_string \<Rightarrow> (nat \<times> nat) list" where
  "getLineSpans content = spans_from 0 (splitLinesWithEndings content)"

definition getReplacementLineRange :: "(nat \<times> nat) list \<Rightarrow> matched_edit \<Rightarrow> edit_error + nat \<times> nat" where
  "getReplacementLineRange spans r =
     (let s = matchIndex r; e = matchIndex r + matchLength r
      in case find (\<lambda>i. fst (spans ! i) \<le> s \<and> s < snd (spans ! i)) [0..<length spans] of
           None \<Rightarrow> Inl OutsideBase
         | Some startLine \<Rightarrow>
             (case find (\<lambda>i. e \<le> snd (spans ! i)) [startLine..<length spans] of
                None \<Rightarrow> Inl OutsideBase
              | Some endLine \<Rightarrow> Inr (startLine, Suc endLine)))"

record line_group =
  groupStart :: nat
  groupEnd :: nat
  groupEdits :: "matched_edit list"

fun group_edits :: "(nat \<times> nat) list \<Rightarrow> line_group list \<Rightarrow> matched_edit list \<Rightarrow> edit_error + line_group list" where
  "group_edits spans gs [] = Inr gs"
| "group_edits spans gs (r # rs) =
     and_then (getReplacementLineRange spans r) (\<lambda>(s, e).
       if gs \<noteq> [] \<and> s < groupEnd (last gs)
       then group_edits spans (butlast gs @ [(last gs)\<lparr>groupEnd := max (groupEnd (last gs)) e,
              groupEdits := groupEdits (last gs) @ [r]\<rparr>]) rs
       else group_edits spans (gs @ [\<lparr>groupStart = s, groupEnd = e, groupEdits = [r]\<rparr>]) rs)"

fun overlay_groups :: "js_string list \<Rightarrow> js_string \<Rightarrow> (nat \<times> nat) list \<Rightarrow> nat \<Rightarrow> line_group list \<Rightarrow> js_string" where
  "overlay_groups originalLines base spans index [] = concat (drop index originalLines)"
| "overlay_groups originalLines base spans index (g # gs) =
     concat (take (groupStart g - index) (drop index originalLines)) @
     (let from = fst (spans ! groupStart g); to = snd (spans ! (groupEnd g - 1))
      in applyReplacements (take (to - from) (drop from base)) (groupEdits g) from) @
     overlay_groups originalLines base spans (groupEnd g) gs"

definition applyReplacementsPreservingUnchangedLines ::
  "js_string \<Rightarrow> js_string \<Rightarrow> matched_edit list \<Rightarrow> edit_error + js_string" where
  "applyReplacementsPreservingUnchangedLines original base rs =
     (let originalLines = splitLinesWithEndings original; spans = getLineSpans base
      in and_then (throw_if (length originalLines \<noteq> length spans) LineCountDiffers) (\<lambda>_.
         and_then (group_edits spans [] (sort_key matchIndex rs)) (\<lambda>groups.
         Inr (overlay_groups originalLines base spans 0 groups))))"

subsection \<open>Applying edits\<close>

fun find_empty :: "nat \<Rightarrow> edit list \<Rightarrow> nat option" where
  "find_empty i [] = None"
| "find_empty i (e # es) = (if oldText e = [] then Some i else find_empty (Suc i) es)"

fun match_edits :: "(js_string \<Rightarrow> js_string) \<Rightarrow> js_string \<Rightarrow> nat \<Rightarrow> edit list \<Rightarrow> edit_error + matched_edit list" where
  "match_edits nfkc base i [] = Inr []"
| "match_edits nfkc base i (e # es) =
     (let m = fuzzyFindText nfkc base (oldText e); n = countOccurrences nfkc base (oldText e)
      in and_then (throw_if (\<not> matchFound m) (NotFound i)) (\<lambda>_.
         and_then (throw_if (1 < n) (Duplicate i n)) (\<lambda>_.
         and_then (match_edits nfkc base (Suc i) es) (\<lambda>ms.
         Inr (\<lparr>editIndex = i, matchIndex = matchAt m, matchLength = matchSize m, editText = newText e\<rparr> # ms)))))"

fun check_overlap :: "matched_edit list \<Rightarrow> edit_error + unit" where
  "check_overlap (a # b # ms) =
     (if matchIndex b < matchIndex a + matchLength a then Inl (Overlap (editIndex a) (editIndex b))
      else check_overlap (b # ms))"
| "check_overlap ms = Inr ()"

definition normalize_edit :: "edit \<Rightarrow> edit" where
  "normalize_edit e = \<lparr>oldText = normalizeToLF (oldText e), newText = normalizeToLF (newText e)\<rparr>"

definition applyEditsToNormalizedContent ::
  "(js_string \<Rightarrow> js_string) \<Rightarrow> js_string \<Rightarrow> edit list \<Rightarrow> edit_error + js_string \<times> js_string" where
  "applyEditsToNormalizedContent nfkc content edits =
     (let es = map normalize_edit edits;
          fuzzy = (\<exists>e \<in> set es. matchFuzzy (fuzzyFindText nfkc content (oldText e)));
          base = (if fuzzy then normalizeForFuzzyMatch nfkc content else content)
      in and_then (case find_empty 0 es of None \<Rightarrow> Inr () | Some i \<Rightarrow> Inl (EmptyOldText i)) (\<lambda>_.
         and_then (match_edits nfkc base 0 es) (\<lambda>ms.
         let sorted = sort_key matchIndex ms
         in and_then (check_overlap sorted) (\<lambda>_.
            and_then (if fuzzy then applyReplacementsPreservingUnchangedLines content base sorted
                      else Inr (applyReplacements base sorted 0)) (\<lambda>new.
            and_then (throw_if (content = new) NoChange) (\<lambda>_.
            Inr (content, new)))))))"

end
