(* ===== verification/EditCorrect.thy ===== *)
theory EditCorrect
  imports EditDiff "HOL-Library.Multiset"
begin

section \<open>Edits are correct\<close>

text \<open>
  Replacing from the last match to the first is splicing the new texts between the untouched parts;
  the lines that a fuzzy edit does not touch keep their original text; line endings survive.
\<close>

subsection \<open>Splicing\<close>

text \<open>The text from \<open>pos\<close> to \<open>to\<close> with the replacements spliced in, from left to right.\<close>

fun spliced :: "nat \<Rightarrow> nat \<Rightarrow> js_string \<Rightarrow> matched_edit list \<Rightarrow> js_string" where
  "spliced pos to s [] = take (to - pos) (drop pos s)"
| "spliced pos to s (r # rs) =
     take (matchIndex r - pos) (drop pos s) @ editText r @ spliced (matchIndex r + matchLength r) to s rs"

text \<open>Replacements in order, without overlap, between two positions.\<close>

fun in_order :: "nat \<Rightarrow> nat \<Rightarrow> matched_edit list \<Rightarrow> bool" where
  "in_order pos to [] = (pos \<le> to)"
| "in_order pos to (r # rs) = (pos \<le> matchIndex r \<and> in_order (matchIndex r + matchLength r) to rs)"

lemma in_order_le: "in_order pos to rs \<Longrightarrow> pos \<le> to"
proof (induction rs arbitrary: pos)
  case (Cons r rs)
  then have "pos \<le> matchIndex r" "matchIndex r + matchLength r \<le> to" by auto
  then show ?case by simp
qed simp

lemma in_order_weaken: "in_order pos to rs \<Longrightarrow> pos' \<le> pos \<Longrightarrow> to \<le> to' \<Longrightarrow> in_order pos' to' rs"
  by (induction rs arbitrary: pos pos') auto

lemma take_between: "i \<le> j \<Longrightarrow> j \<le> k \<Longrightarrow> take (k - i) (drop i s) = take (j - i) (drop i s) @ take (k - j) (drop j s)"
  using take_add[of "j - i" "k - j" "drop i s"] by (simp add: drop_drop)

text \<open>The right-to-left loop, on the part of the text from \<open>from\<close> to \<open>to\<close>.\<close>

lemma replacements_splice:
  assumes "in_order pos to rs" and "from \<le> pos" and "to \<le> length s"
  shows "applyReplacements (take (to - from) (drop from s)) rs from = take (pos - from) (drop from s) @ spliced pos to s rs"
  using assms(1,2)
proof (induction rs arbitrary: pos)
  case Nil
  then show ?case using take_between[of "from" pos to s] by (simp add: applyReplacements_def)
next
  case (Cons r rs)
  let ?stop = "matchIndex r + matchLength r"
  have rest: "in_order ?stop to rs" "from \<le> ?stop" "pos \<le> matchIndex r" "?stop \<le> to"
    using Cons.prems in_order_le[of ?stop to rs] by auto
  have len: "length (take (?stop - from) (drop from s)) = ?stop - from"
    using rest assms(3) by simp
  have "applyReplacements (take (to - from) (drop from s)) (r # rs) from =
      replace_at from r (take (?stop - from) (drop from s) @ spliced ?stop to s rs)"
    using Cons.IH[OF rest(1,2)] by (simp add: applyReplacements_def)
  also have "\<dots> = take (matchIndex r - from) (drop from s) @ editText r @ spliced ?stop to s rs"
  proof -
    have "matchIndex r - from + matchLength r = ?stop - from" using rest Cons.prems(2) by simp
    then show ?thesis using len rest Cons.prems(2)
      by (simp add: replace_at_def Let_def min_absorb1)
  qed
  also have "take (matchIndex r - from) (drop from s) =
      take (pos - from) (drop from s) @ take (matchIndex r - pos) (drop pos s)"
    using take_between[of "from" pos "matchIndex r" s] rest Cons.prems(2) by simp
  finally show ?case by simp
qed

lemma replacements_whole:
  "in_order 0 (length s) rs \<Longrightarrow> applyReplacements s rs 0 = spliced 0 (length s) s rs"
  using replacements_splice[of 0 "length s" rs 0 s] by simp

subsection \<open>Matches\<close>

lemma exact_match:
  "index_of (oldText e) base \<noteq> None \<Longrightarrow> match_edits nfkc base i (e # es) = Inr ms \<Longrightarrow>
   \<exists>m ms'. ms = m # ms' \<and> match_edits nfkc base (Suc i) es = Inr ms' \<and> editIndex m = i \<and> editText m = newText e \<and>
     matchIndex m + matchLength m \<le> length base \<and> take (matchLength m) (drop (matchIndex m) base) = oldText e"
proof -
  assume "index_of (oldText e) base \<noteq> None" and run: "match_edits nfkc base i (e # es) = Inr ms"
  then obtain k where k: "index_of (oldText e) base = Some k" by blast
  from index_of_Some[OF k] have at: "k \<le> length base" "take (length (oldText e)) (drop k base) = oldText e" by auto
  then have "length (oldText e) \<le> length (drop k base)" by (metis length_take min.cobounded1)
  with at have "k + length (oldText e) \<le> length base" by simp
  with k at run show ?thesis by (auto simp: Let_def fuzzyFindText_def result_simps)
qed

lemma match_edits_exact:
  "\<forall>e \<in> set es. index_of (oldText e) base \<noteq> None \<Longrightarrow> match_edits nfkc base i es = Inr ms \<Longrightarrow>
   map editIndex ms = [i..<i + length es] \<and>
   (\<forall>m \<in> set ms. matchIndex m + matchLength m \<le> length base \<and>
      take (matchLength m) (drop (matchIndex m) base) = oldText (es ! (editIndex m - i)) \<and>
      editText m = newText (es ! (editIndex m - i)))"
proof (induction es arbitrary: i ms)
  case (Cons e es)
  from exact_match[OF _ Cons.prems(2)] Cons.prems(1) obtain m ms' where m: "ms = m # ms'"
    "match_edits nfkc base (Suc i) es = Inr ms'" "editIndex m = i" "editText m = newText e"
    "matchIndex m + matchLength m \<le> length base" "take (matchLength m) (drop (matchIndex m) base) = oldText e" by auto
  with Cons.IH[of "Suc i" ms'] Cons.prems(1) have ih: "map editIndex ms' = [Suc i..<Suc i + length es]"
    "\<And>m. m \<in> set ms' \<Longrightarrow> matchIndex m + matchLength m \<le> length base \<and>
      take (matchLength m) (drop (matchIndex m) base) = oldText (es ! (editIndex m - Suc i)) \<and>
      editText m = newText (es ! (editIndex m - Suc i))" by auto
  have "editIndex x - i = Suc (editIndex x - Suc i)" if "x \<in> set ms'" for x
  proof -
    have "editIndex x \<in> set [Suc i..<Suc i + length es]" using that ih(1) by (metis image_eqI set_map)
    then show ?thesis by auto
  qed
  moreover have "[i..<i + length (e # es)] = i # [Suc i..<Suc i + length es]" by (simp add: upt_conv_Cons del: upt_Suc)
  ultimately show ?case using ih m by auto
qed simp

lemma overlap_in_order:
  "check_overlap ms = Inr u \<Longrightarrow> sorted (map matchIndex ms) \<Longrightarrow> \<forall>m \<in> set ms. matchIndex m + matchLength m \<le> n \<Longrightarrow>
   (ms \<noteq> [] \<longrightarrow> pos \<le> matchIndex (hd ms)) \<Longrightarrow> (ms = [] \<longrightarrow> pos \<le> n) \<Longrightarrow> in_order pos n ms"
proof (induction ms arbitrary: pos rule: check_overlap.induct)
  case (1 a b ms)
  then show ?case by (auto split: if_splits)
qed auto

text \<open>C27: When every old text occurs exactly, a successful edit replaces, for each of the edits once, an
  occurrence of its old text by its new text; these occurrences do not overlap, everything between,
  before and after them is unchanged, and the result differs from the content.\<close>

theorem exact_edits:
  assumes "applyEditsToNormalizedContent nfkc content edits = Inr (base, new)"
    and "\<forall>e \<in> set edits. index_of (normalizeToLF (oldText e)) content \<noteq> None"
  shows "base = content \<and> new \<noteq> content \<and> (\<exists>ms. new = spliced 0 (length content) content ms \<and>
    in_order 0 (length content) ms \<and> mset (map editIndex ms) = mset [0..<length edits] \<and>
    (\<forall>m \<in> set ms. take (matchLength m) (drop (matchIndex m) content) = normalizeToLF (oldText (edits ! editIndex m)) \<and>
       editText m = normalizeToLF (newText (edits ! editIndex m))))"
proof -
  let ?es = "map normalize_edit edits"
  have exact: "\<forall>e \<in> set ?es. index_of (oldText e) content \<noteq> None" using assms(2) by (auto simp: normalize_edit_def)
  then have nofuzzy: "\<not> (\<exists>e \<in> set ?es. matchFuzzy (fuzzyFindText nfkc content (oldText e)))"
    by (auto simp: fuzzyFindText_def)
  from assms(1) obtain ms u where run: "match_edits nfkc content 0 ?es = Inr ms"
    "check_overlap (sort_key matchIndex ms) = Inr u" "new = applyReplacements content (sort_key matchIndex ms) 0"
    "base = content" "content \<noteq> new"
    unfolding applyEditsToNormalizedContent_def Let_def if_not_P[OF nofuzzy] by (auto simp: result_simps)
  from match_edits_exact[OF exact run(1)] have m: "map editIndex ms = [0..<length edits]"
    "\<And>m. m \<in> set ms \<Longrightarrow> matchIndex m + matchLength m \<le> length content"
    "\<And>m. m \<in> set ms \<Longrightarrow> take (matchLength m) (drop (matchIndex m) content) = oldText (?es ! editIndex m) \<and>
       editText m = newText (?es ! editIndex m)" by auto
  have idx: "editIndex m < length edits" if "m \<in> set ms" for m
    using m(1) that by (metis atLeastLessThan_iff atLeastLessThan_upt image_eqI set_map)
  have ordered: "in_order 0 (length content) (sort_key matchIndex ms)"
    by (rule overlap_in_order[OF run(2)]) (use m(2) in auto)
  have perm: "mset (map editIndex (sort_key matchIndex ms)) = mset [0..<length edits]"
    unfolding m(1)[symmetric] by (simp only: mset_map mset_sort)
  show ?thesis
    using run(4,5) ordered perm m(3) idx replacements_whole[OF ordered] run(3)
    by (intro conjI exI[of _ "sort_key matchIndex ms"]) (auto simp: normalize_edit_def)
qed

subsection \<open>Lines\<close>

text \<open>Where a line begins.\<close>

definition line_offset :: "js_string list \<Rightarrow> nat \<Rightarrow> nat" where
  "line_offset ls i = sum_list (map length (take i ls))"

lemma concat_lines: "concat (splitLinesWithEndings s) = s"
  by (induction s) (auto split: list.splits)

lemma line_offset_Suc: "i < length ls \<Longrightarrow> line_offset ls (Suc i) = line_offset ls i + length (ls ! i)"
  by (simp add: line_offset_def take_Suc_conv_app_nth)

lemma line_offset_mono: "i \<le> j \<Longrightarrow> line_offset ls i \<le> line_offset ls j"
proof -
  assume "i \<le> j"
  then have "take j ls = take i ls @ take (j - i) (drop i ls)" using take_add[of i "j - i" ls] by simp
  then show ?thesis by (simp add: line_offset_def)
qed

lemma spans_from_nth: "i < length ls \<Longrightarrow> spans_from n ls ! i = (n + line_offset ls i, n + line_offset ls (Suc i))"
proof (induction ls arbitrary: n i)
  case (Cons l ls)
  then show ?case by (cases i) (auto simp: line_offset_def)
qed simp

lemma length_spans_from [simp]: "length (spans_from n ls) = length ls"
  by (induction ls arbitrary: n) auto

lemma concat_between: "i \<le> j \<Longrightarrow> concat (take (j - i) (drop i ls)) = take (line_offset ls j - line_offset ls i) (drop (line_offset ls i) (concat ls))"
proof -
  assume ij: "i \<le> j"
  have whole: "concat ls = concat (take i ls) @ concat (drop i ls)" by (simp flip: concat_append)
  have off: "line_offset ls i = length (concat (take i ls))" for i by (simp add: line_offset_def length_concat)
  have "drop i ls = take (j - i) (drop i ls) @ drop j ls" using append_take_drop_id[of "j - i" "drop i ls"] ij by simp
  moreover have "take j ls = take i ls @ take (j - i) (drop i ls)" using take_add[of i "j - i" ls] ij by simp
  then have "line_offset ls j - line_offset ls i = length (concat (take (j - i) (drop i ls)))" by (simp add: off)
  ultimately show ?thesis using whole off[of i]
    by (metis append_eq_conv_conj concat_append)
qed

text \<open>A replacement touches the lines that its range meets, and the line it begins in.\<close>

definition touches :: "js_string list \<Rightarrow> matched_edit \<Rightarrow> nat \<Rightarrow> bool" where
  "touches ls r i \<longleftrightarrow> matchIndex r < line_offset ls (Suc i) \<and>
     (line_offset ls i \<le> matchIndex r \<or> line_offset ls i < matchIndex r + matchLength r)"

lemma find_upt_Some: "find P [i..<j] = Some k \<Longrightarrow> i \<le> k \<and> k < j \<and> P k \<and> (\<forall>l. i \<le> l \<and> l < k \<longrightarrow> \<not> P l)"
proof (induction "j - i" arbitrary: i)
  case (Suc n)
  then have "i < j" by simp
  then have u: "[i..<j] = i # [Suc i..<j]" by (simp add: upt_conv_Cons)
  show ?case
  proof (cases "P i")
    case True
    with Suc.prems u \<open>i < j\<close> show ?thesis by auto
  next
    case False
    with Suc.prems u have "find P [Suc i..<j] = Some k" by simp
    with Suc.hyps(1)[of "Suc i"] Suc.hyps(2) have k: "Suc i \<le> k" "k < j" "P k" "\<forall>l. Suc i \<le> l \<and> l < k \<longrightarrow> \<not> P l" by auto
    with False show ?thesis by (metis Suc_leD Suc_leI le_neq_implies_less)
  qed
qed simp

lemma line_range:
  assumes "getReplacementLineRange (spans_from 0 ls) r = Inr (s, e)"
  shows "s < e" "e \<le> length ls" "line_offset ls s \<le> matchIndex r" "matchIndex r < line_offset ls (Suc s)"
    "matchIndex r + matchLength r \<le> line_offset ls e" "touches ls r i \<longleftrightarrow> s \<le> i \<and> i < e"
proof -
  let ?sp = "spans_from 0 ls"
  from assms obtain j where s: "find (\<lambda>i. fst (?sp ! i) \<le> matchIndex r \<and> matchIndex r < snd (?sp ! i)) [0..<length ?sp] = Some s"
    and j: "find (\<lambda>i. matchIndex r + matchLength r \<le> snd (?sp ! i)) [s..<length ?sp] = Some j" and e: "e = Suc j"
    by (auto simp: getReplacementLineRange_def Let_def split: option.splits)
  from find_upt_Some[OF s] have s': "s < length ls" "line_offset ls s \<le> matchIndex r" "matchIndex r < line_offset ls (Suc s)"
    by (auto simp: spans_from_nth)
  from find_upt_Some[OF j] have j': "s \<le> j" "j < length ls" "matchIndex r + matchLength r \<le> line_offset ls (Suc j)"
    "\<And>l. s \<le> l \<Longrightarrow> l < j \<Longrightarrow> line_offset ls (Suc l) < matchIndex r + matchLength r"
    by (auto simp: spans_from_nth not_le)
  show "s < e" "e \<le> length ls" "line_offset ls s \<le> matchIndex r" "matchIndex r < line_offset ls (Suc s)"
    "matchIndex r + matchLength r \<le> line_offset ls e"
    using s' j' e by auto
  have inside: "touches ls r i" if "s \<le> i" "i < e"
  proof (cases "i = s")
    case True
    with s' show ?thesis by (simp add: touches_def)
  next
    case False
    with that e have "s < i" "i \<le> j" by auto
    then have "line_offset ls (Suc (i - 1)) < matchIndex r + matchLength r" using j'(4)[of "i - 1"] by auto
    moreover have "matchIndex r < line_offset ls (Suc i)"
      using s'(3) line_offset_mono[of "Suc s" "Suc i" ls] \<open>s < i\<close> by simp
    ultimately show ?thesis using \<open>s < i\<close> by (simp add: touches_def)
  qed
  have "s \<le> i" if "touches ls r i"
  proof (rule ccontr)
    assume "\<not> s \<le> i"
    then have "line_offset ls (Suc i) \<le> line_offset ls s" by (intro line_offset_mono) simp
    with that s'(2) show False by (simp add: touches_def)
  qed
  moreover have "i < e" if "touches ls r i"
  proof (rule ccontr)
    assume "\<not> i < e"
    then have "line_offset ls e \<le> line_offset ls i" "line_offset ls (Suc s) \<le> line_offset ls i"
      using j'(1) e by (auto intro!: line_offset_mono)
    with that s'(3) j'(3) e show False by (simp add: touches_def)
  qed
  ultimately show "touches ls r i \<longleftrightarrow> s \<le> i \<and> i < e" using inside by blast
qed

text \<open>Groups of lines in order, each with the replacements inside it.\<close>

definition good_group :: "js_string list \<Rightarrow> line_group \<Rightarrow> bool" where
  "good_group ls g \<longleftrightarrow> groupStart g < groupEnd g \<and> groupEnd g \<le> length ls \<and>
     in_order (line_offset ls (groupStart g)) (line_offset ls (groupEnd g)) (groupEdits g) \<and>
     (\<forall>i. (\<exists>r \<in> set (groupEdits g). touches ls r i) \<longleftrightarrow> groupStart g \<le> i \<and> i < groupEnd g)"

fun good_groups :: "js_string list \<Rightarrow> nat \<Rightarrow> line_group list \<Rightarrow> bool" where
  "good_groups ls n [] = True"
| "good_groups ls n (g # gs) = (n \<le> groupStart g \<and> good_group ls g \<and> good_groups ls (groupEnd g) gs)"

lemma good_groups_snoc:
  "good_groups ls n (gs @ [g]) \<longleftrightarrow> good_groups ls n gs \<and> good_group ls g \<and> (if gs = [] then n else groupEnd (last gs)) \<le> groupStart g"
  by (induction gs arbitrary: n) auto

lemma in_order_bounds: "in_order pos to rs \<Longrightarrow> m \<in> set rs \<Longrightarrow> pos \<le> matchIndex m \<and> matchIndex m + matchLength m \<le> to"
proof (induction rs arbitrary: pos)
  case (Cons r rs)
  then have "in_order (matchIndex r + matchLength r) to rs" "pos \<le> matchIndex r" by auto
  with Cons in_order_le[of "matchIndex r + matchLength r" to rs] show ?case by fastforce
qed simp

lemma in_order_append:
  "in_order pos mid rs \<Longrightarrow> in_order mid to rs' \<Longrightarrow> in_order pos to (rs @ rs')"
  by (induction rs arbitrary: pos) (auto intro: in_order_weaken)

lemma in_order_tight:
  "in_order pos to rs \<Longrightarrow> rs \<noteq> [] \<Longrightarrow> in_order pos (matchIndex (last rs) + matchLength (last rs)) rs"
  by (induction rs arbitrary: pos) auto

lemma in_order_snoc:
  assumes "in_order pos to rs" "rs \<noteq> []" "matchIndex (last rs) + matchLength (last rs) \<le> matchIndex r"
    "matchIndex r + matchLength r \<le> to'"
  shows "in_order pos to' (rs @ [r])"
  using in_order_append[OF in_order_tight[OF assms(1,2)], of to' "[r]"] assms(3,4) by simp

lemma in_order_split: "in_order pos to (rs @ r # rs') \<Longrightarrow>
   (rs \<noteq> [] \<longrightarrow> matchIndex (last rs) + matchLength (last rs) \<le> matchIndex r) \<and> pos \<le> matchIndex r"
proof (induction rs arbitrary: pos)
  case (Cons a rs)
  then have "in_order (matchIndex a + matchLength a) to (rs @ r # rs')" "pos \<le> matchIndex a" by auto
  with Cons.IH[of "matchIndex a + matchLength a"] show ?case by auto
qed simp

lemma group_edits_good:
  "group_edits (spans_from 0 ls) gs rs = Inr gs' \<Longrightarrow> good_groups ls 0 gs \<Longrightarrow> \<forall>g \<in> set gs. groupEdits g \<noteq> [] \<Longrightarrow>
   in_order 0 n (concat (map groupEdits gs) @ rs) \<Longrightarrow>
   good_groups ls 0 gs' \<and> concat (map groupEdits gs') = concat (map groupEdits gs) @ rs"
proof (induction rs arbitrary: gs)
  case (Cons r rs)
  from Cons.prems(1) obtain s e where range: "getReplacementLineRange (spans_from 0 ls) r = Inr (s, e)"
    and rest: "group_edits (spans_from 0 ls) (if gs \<noteq> [] \<and> s < groupEnd (last gs)
       then butlast gs @ [(last gs)\<lparr>groupEnd := max (groupEnd (last gs)) e, groupEdits := groupEdits (last gs) @ [r]\<rparr>]
       else gs @ [\<lparr>groupStart = s, groupEnd = e, groupEdits = [r]\<rparr>]) rs = Inr gs'"
    by (auto simp: result_simps split: if_splits)
  note lr = line_range[OF range]
  show ?case
  proof (cases "gs \<noteq> [] \<and> s < groupEnd (last gs)")
    case True
    define g where "g = last gs"
    have gs: "gs = butlast gs @ [g]" using True by (simp add: g_def)
    have g: "good_group ls g" "groupEdits g \<noteq> []" "s < groupEnd g"
      using Cons.prems(2,3) gs True by (metis good_groups_snoc, metis in_set_conv_decomp, simp add: g_def)
    let ?g = "g\<lparr>groupEnd := max (groupEnd g) e, groupEdits := groupEdits g @ [r]\<rparr>"
    have "in_order 0 n ((concat (map groupEdits (butlast gs)) @ groupEdits g) @ r # rs)"
      using Cons.prems(4) by (subst (asm) gs) simp
    from in_order_split[OF this] g(2) have follow: "matchIndex (last (groupEdits g)) + matchLength (last (groupEdits g)) \<le> matchIndex r"
      by simp
    have inside: "in_order (line_offset ls (groupStart g)) (line_offset ls (groupEnd g)) (groupEdits g)"
      using g(1) by (simp add: good_group_def)
    have start: "line_offset ls (groupStart g) \<le> matchIndex r"
      using in_order_bounds[OF inside last_in_set[OF g(2)]] follow by simp
    have "matchIndex r + matchLength r \<le> line_offset ls (max (groupEnd g) e)"
      using lr(5) line_offset_mono[of e "max (groupEnd g) e" ls] by simp
    from in_order_snoc[OF inside g(2) follow this]
    have "in_order (line_offset ls (groupStart g)) (line_offset ls (groupEnd ?g)) (groupEdits ?g)" by simp
    moreover have "groupStart g \<le> s"
    proof (rule ccontr)
      assume "\<not> groupStart g \<le> s"
      then have "line_offset ls (Suc s) \<le> line_offset ls (groupStart g)" by (intro line_offset_mono) simp
      with start lr(4) show False by simp
    qed
    moreover from this have "(\<exists>r' \<in> set (groupEdits ?g). touches ls r' i) \<longleftrightarrow> groupStart g \<le> i \<and> i < max (groupEnd g) e" for i
      using g(1,3) lr(6)[of i] by (auto simp: good_group_def)
    ultimately have good: "good_group ls ?g"
      using g(1,3) lr(1,2) by (auto simp: good_group_def)
    have order: "(if butlast gs = [] then 0 else groupEnd (last (butlast gs))) \<le> groupStart g" "good_groups ls 0 (butlast gs)"
      using Cons.prems(2) by (subst (asm) gs, simp add: good_groups_snoc)+
    have "good_groups ls 0 (butlast gs @ [?g])" using order good by (simp add: good_groups_snoc)
    moreover have flat: "concat (map groupEdits (butlast gs @ [?g])) = concat (map groupEdits gs) @ [r]"
      by (subst (2) gs) simp
    moreover have "group_edits (spans_from 0 ls) (butlast gs @ [?g]) rs = Inr gs'"
      using rest True by (simp add: g_def)
    moreover have "\<forall>h \<in> set (butlast gs @ [?g]). groupEdits h \<noteq> []"
      using Cons.prems(3) by (auto dest: in_set_butlastD)
    moreover have "in_order 0 n (concat (map groupEdits (butlast gs @ [?g])) @ rs)"
      unfolding flat using Cons.prems(4) by simp
    ultimately show ?thesis using Cons.IH[of "butlast gs @ [?g]"] by simp
  next
    case False
    let ?g = "\<lparr>groupStart = s, groupEnd = e, groupEdits = [r]\<rparr>"
    have "good_group ls ?g" using lr by (auto simp: good_group_def)
    then have "good_groups ls 0 (gs @ [?g])" using Cons.prems(2) False by (auto simp: good_groups_snoc)
    with Cons.IH[of "gs @ [?g]"] rest False Cons.prems(3,4) show ?thesis by auto
  qed
qed simp


lemma spliced_append:
  "in_order pos mid rs \<Longrightarrow> in_order mid to rs' \<Longrightarrow>
   spliced pos to s (rs @ rs') = spliced pos mid s rs @ spliced mid to s rs'"
proof (induction rs arbitrary: pos)
  case Nil
  then have "pos \<le> mid" by simp
  show ?case
  proof (cases rs')
    case Nil
    then show ?thesis using \<open>pos \<le> mid\<close> \<open>in_order mid to rs'\<close> take_between[of pos mid to s] by simp
  next
    case (Cons r rest)
    then show ?thesis using \<open>pos \<le> mid\<close> \<open>in_order mid to rs'\<close> take_between[of pos mid "matchIndex r" s] by simp
  qed
qed simp

text \<open>What a group of lines becomes.\<close>

definition group_text :: "js_string list \<Rightarrow> line_group \<Rightarrow> js_string" where
  "group_text ls g = spliced (line_offset ls (groupStart g)) (line_offset ls (groupEnd g)) (concat ls) (groupEdits g)"

text \<open>What a line becomes: the first line of a group carries the text of the group.\<close>

definition line_piece :: "js_string list \<Rightarrow> line_group list \<Rightarrow> js_string list \<Rightarrow> nat \<Rightarrow> js_string" where
  "line_piece ls gs L i =
     (case find (\<lambda>g. groupStart g \<le> i \<and> i < groupEnd g) gs of
        None \<Rightarrow> L ! i
      | Some g \<Rightarrow> if i = groupStart g then group_text ls g else [])"

lemma line_offset_length: "line_offset ls (length ls) = length (concat ls)"
  by (simp add: line_offset_def length_concat)

lemma line_offset_bound: "line_offset ls i \<le> length (concat ls)"
  using line_offset_mono[of i "max i (length ls)" ls] by (simp add: line_offset_def length_concat)

lemma overlay_group:
  assumes "good_group ls g"
  shows "(let from = fst (spans_from 0 ls ! groupStart g); to = snd (spans_from 0 ls ! (groupEnd g - 1))
      in applyReplacements (take (to - from) (drop from (concat ls))) (groupEdits g) from) = group_text ls g"
proof -
  from assms have g: "groupStart g < length ls" "groupEnd g - 1 < length ls" "Suc (groupEnd g - 1) = groupEnd g"
    and ord: "in_order (line_offset ls (groupStart g)) (line_offset ls (groupEnd g)) (groupEdits g)"
    by (auto simp: good_group_def)
  from g show ?thesis
    using replacements_splice[OF ord order_refl, of "concat ls"] line_offset_bound[of ls "groupEnd g"]
    by (simp add: spans_from_nth group_text_def)
qed

lemma good_groups_start: "good_groups ls n gs \<Longrightarrow> g \<in> set gs \<Longrightarrow> n \<le> groupStart g"
proof (induction gs arbitrary: n)
  case (Cons h gs)
  from Cons.prems have h: "n \<le> groupStart h" "groupStart h < groupEnd h" "good_groups ls (groupEnd h) gs"
    by (auto simp: good_group_def)
  with Cons.IH[OF h(3)] Cons.prems(2) show ?case by fastforce
qed simp

lemma good_groups_all: "good_groups ls n gs \<Longrightarrow> g \<in> set gs \<Longrightarrow> good_group ls g"
  by (induction gs arbitrary: n) auto

lemma concat_take_map: "i \<le> j \<Longrightarrow> j \<le> length L \<Longrightarrow> take (j - i) (drop i L) = map ((!) L) [i..<j]"
  by (rule nth_equalityI) auto

lemma map_pieces_outside:
  "good_groups ls j gs \<Longrightarrow> i \<le> j \<Longrightarrow> j \<le> length L \<Longrightarrow>
   map (line_piece ls gs L) [i..<j] = take (j - i) (drop i L)"
proof -
  assume *: "good_groups ls j gs" "i \<le> j" "j \<le> length L"
  have "find (\<lambda>g. groupStart g \<le> k \<and> k < groupEnd g) gs = None" if "k < j" for k
    using good_groups_start[OF *(1)] that by (fastforce simp: find_None_iff)
  then have "map (line_piece ls gs L) [i..<j] = map ((!) L) [i..<j]" by (auto simp: line_piece_def)
  with concat_take_map[OF *(2,3)] show ?thesis by simp
qed

lemma map_pieces_group:
  assumes "groupStart g < groupEnd g"
  shows "concat (map (line_piece ls (g # gs) L) [groupStart g..<groupEnd g]) = group_text ls g"
proof -
  have "map (line_piece ls (g # gs) L) [groupStart g..<groupEnd g] =
      group_text ls g # map (\<lambda>_. []) [Suc (groupStart g)..<groupEnd g]"
    using assms by (subst upt_conv_Cons) (auto simp: line_piece_def)
  moreover have "concat (map (\<lambda>_. []) xs) = []" for xs :: "nat list" by (induction xs) auto
  ultimately show ?thesis by simp
qed

lemma overlay_pieces:
  "good_groups ls n gs \<Longrightarrow> length L = length ls \<Longrightarrow> n \<le> length ls \<Longrightarrow>
   overlay_groups L (concat ls) (spans_from 0 ls) n gs = concat (map (line_piece ls gs L) [n..<length L])"
proof (induction gs arbitrary: n)
  case Nil
  then show ?case using map_pieces_outside[of ls "length L" "[]" n L] by simp
next
  case (Cons g gs)
  from Cons.prems have g: "n \<le> groupStart g" "good_group ls g" "good_groups ls (groupEnd g) gs" by auto
  then have s: "groupStart g < groupEnd g" "groupEnd g \<le> length ls" by (auto simp: good_group_def)
  have "[n..<length L] = [n..<groupStart g] @ [groupStart g..<groupEnd g] @ [groupEnd g..<length L]"
    using g(1) s Cons.prems(2) upt_add_eq_append[of n "groupStart g" "length L - groupStart g"]
      upt_add_eq_append[of "groupStart g" "groupEnd g" "length L - groupEnd g"] by simp
  moreover have "map (line_piece ls (g # gs) L) [n..<groupStart g] = take (groupStart g - n) (drop n L)"
    by (rule map_pieces_outside) (use g s Cons.prems in auto)
  moreover have "concat (map (line_piece ls (g # gs) L) [groupEnd g..<length L]) =
      concat (map (line_piece ls gs L) [groupEnd g..<length L])"
    by (rule arg_cong[where f = concat]) (auto simp: line_piece_def)
  ultimately show ?case
    using Cons.IH[OF g(3) Cons.prems(2) s(2)] map_pieces_group[OF s(1), of ls gs L] overlay_group[OF g(2)]
    by (simp del: map_eq_conv)
qed

lemma overlay_spliced:
  "good_groups ls n gs \<Longrightarrow> n \<le> length ls \<Longrightarrow>
   overlay_groups ls (concat ls) (spans_from 0 ls) n gs =
     spliced (line_offset ls n) (length (concat ls)) (concat ls) (concat (map groupEdits gs)) \<and>
   in_order (line_offset ls n) (length (concat ls)) (concat (map groupEdits gs))"
proof (induction gs arbitrary: n)
  case Nil
  show ?case
    using concat_between[of n "length ls" ls] Nil line_offset_bound[of ls n] by (simp add: line_offset_length)
next
  case (Cons g gs)
  from Cons.prems have g: "n \<le> groupStart g" "good_group ls g" "good_groups ls (groupEnd g) gs" by auto
  then have s: "groupStart g < groupEnd g" "groupEnd g \<le> length ls"
    and inside: "in_order (line_offset ls (groupStart g)) (line_offset ls (groupEnd g)) (groupEdits g)"
    by (auto simp: good_group_def)
  from Cons.IH[OF g(3) s(2)] have ih: "overlay_groups ls (concat ls) (spans_from 0 ls) (groupEnd g) gs =
       spliced (line_offset ls (groupEnd g)) (length (concat ls)) (concat ls) (concat (map groupEdits gs))"
    "in_order (line_offset ls (groupEnd g)) (length (concat ls)) (concat (map groupEdits gs))" by auto
  have before: "in_order (line_offset ls n) (line_offset ls (groupStart g)) []" using line_offset_mono[OF g(1)] by simp
  note both = in_order_append[OF inside ih(2)]
  have "overlay_groups ls (concat ls) (spans_from 0 ls) n (g # gs) =
      spliced (line_offset ls n) (line_offset ls (groupStart g)) (concat ls) [] @
      spliced (line_offset ls (groupStart g)) (length (concat ls)) (concat ls) (groupEdits g @ concat (map groupEdits gs))"
    using ih(1) overlay_group[OF g(2)] concat_between[OF g(1), of ls] spliced_append[OF inside ih(2), of "concat ls"]
    by (simp add: group_text_def)
  also have "\<dots> = spliced (line_offset ls n) (length (concat ls)) (concat ls) (groupEdits g @ concat (map groupEdits gs))"
    using spliced_append[OF before both, of "concat ls"] by simp
  finally show ?case using in_order_append[OF before both] by simp
qed

lemma in_order_sorted: "in_order pos to rs \<Longrightarrow> sort_key matchIndex rs = rs"
proof -
  assume "in_order pos to rs"
  then have "sorted (map matchIndex rs)"
  proof (induction rs arbitrary: pos)
    case (Cons r rs)
    then have "in_order (matchIndex r + matchLength r) to rs" by simp
    with Cons.IH in_order_bounds[OF this] show ?case by fastforce
  qed simp
  then show ?thesis by (simp add: sort_key_id_if_sorted)
qed

text \<open>C28: An edit made in the normalised text and laid over the original: the result is what the plain
  replacements make of the normalised text, line for line, except that each line which no replacement
  touches has its original text.\<close>

theorem fuzzy_edit_keeps_lines:
  assumes "applyReplacementsPreservingUnchangedLines original base rs = Inr new" and "in_order 0 (length base) rs"
  shows "\<exists>piece plain. new = concat (map piece [0..<length (splitLinesWithEndings original)]) \<and>
    applyReplacements base rs 0 = concat (map plain [0..<length (splitLinesWithEndings original)]) \<and>
    (\<forall>i < length (splitLinesWithEndings original).
       if \<exists>r \<in> set rs. touches (splitLinesWithEndings base) r i then piece i = plain i
       else piece i = splitLinesWithEndings original ! i \<and> plain i = splitLinesWithEndings base ! i)"
proof -
  let ?L = "splitLinesWithEndings original" and ?ls = "splitLinesWithEndings base"
  from assms obtain gs where len: "length ?L = length ?ls" and gs: "group_edits (spans_from 0 ?ls) [] rs = Inr gs"
    and new: "new = overlay_groups ?L base (spans_from 0 ?ls) 0 gs"
    by (auto simp: applyReplacementsPreservingUnchangedLines_def getLineSpans_def Let_def result_simps
        in_order_sorted[OF assms(2)])
  from group_edits_good[OF gs] assms(2) have good: "good_groups ?ls 0 gs" "concat (map groupEdits gs) = rs" by auto
  have "applyReplacements base rs 0 = overlay_groups ?ls base (spans_from 0 ?ls) 0 gs"
    using overlay_spliced[OF good(1)] good(2) replacements_whole[OF assms(2)]
    by (simp add: concat_lines line_offset_def)
  also have "\<dots> = concat (map (line_piece ?ls gs ?ls) [0..<length ?L])"
    using overlay_pieces[OF good(1) refl] len by (simp add: concat_lines)
  finally have plain: "applyReplacements base rs 0 = concat (map (line_piece ?ls gs ?ls) [0..<length ?L])" .
  have piece: "new = concat (map (line_piece ?ls gs ?L) [0..<length ?L])"
    using overlay_pieces[OF good(1) len] new by (simp add: concat_lines)
  have group: "(\<exists>r \<in> set (groupEdits g). touches ?ls r i) \<longleftrightarrow> groupStart g \<le> i \<and> i < groupEnd g"
    if "g \<in> set gs" for g i using good_groups_all[OF good(1) that] by (simp add: good_group_def)
  have piece_of: "if \<exists>r \<in> set rs. touches ?ls r i then line_piece ?ls gs ?L i = line_piece ?ls gs ?ls i
      else line_piece ?ls gs ?L i = ?L ! i \<and> line_piece ?ls gs ?ls i = ?ls ! i" for i
  proof (cases "find (\<lambda>g. groupStart g \<le> i \<and> i < groupEnd g) gs")
    case None
    then have "\<not> (\<exists>r \<in> set rs. touches ?ls r i)"
      using group[of _ i] by (fastforce simp: find_None_iff simp flip: good(2))
    with None show ?thesis by (simp add: line_piece_def)
  next
    case (Some g)
    then have "g \<in> set gs" "groupStart g \<le> i \<and> i < groupEnd g" by (auto simp: find_Some_iff)
    then have "\<exists>r \<in> set rs. touches ?ls r i" using group[of g i] by (fastforce simp flip: good(2))
    with Some show ?thesis by (simp add: line_piece_def)
  qed
  show ?thesis
    by (rule exI[of _ "line_piece ?ls gs ?L"], rule exI[of _ "line_piece ?ls gs ?ls"]) (use piece plain piece_of in simp)
qed


subsection \<open>Line endings\<close>

lemma find_upt_Suc: "find P [Suc i..<Suc j] = map_option Suc (find (\<lambda>k. P (Suc k)) [i..<j])"
proof -
  have "find P (map Suc ks) = map_option Suc (find (\<lambda>k. P (Suc k)) ks)" for ks by (induction ks) auto
  then show ?thesis by (simp flip: map_Suc_upt del: upt_Suc)
qed

lemma index_of_Nil [simp]: "p \<noteq> [] \<Longrightarrow> index_of p [] = None"
  by (auto simp: index_of_def)

lemma index_of_Cons: "index_of p (x # xs) = (if take (length p) (x # xs) = p then Some 0 else map_option Suc (index_of p xs))"
proof -
  have "[0..<Suc (length (x # xs))] = 0 # [Suc 0..<Suc (Suc (length xs))]" by (simp add: upt_conv_Cons del: upt_Suc)
  then show ?thesis by (simp add: index_of_def find_upt_Suc del: upt_Suc)
qed

text \<open>Text whose lines all end with a carriage return and a line feed, without a carriage return elsewhere.\<close>

fun crlf_only :: "js_string \<Rightarrow> bool" where
  "crlf_only (u # v # us) = (if u = 13 then v = 10 \<and> crlf_only us else u \<noteq> 10 \<and> crlf_only (v # us))"
| "crlf_only us = (\<forall>u \<in> set us. u \<noteq> 10 \<and> u \<noteq> 13)"

lemma detect_crlf:
  "crlf_only s \<Longrightarrow> 10 \<in> set s \<Longrightarrow> \<exists>k. index_of [13, 10] s = Some k \<and> index_of [10] s = Some (Suc k)"
proof (induction s rule: crlf_only.induct)
  case (1 u v us)
  show ?case
  proof (cases "u = 13")
    case True
    with 1 show ?thesis by (simp add: index_of_Cons)
  next
    case False
    with 1 have "\<exists>k. index_of [13, 10] (v # us) = Some k \<and> index_of [10] (v # us) = Some (Suc k)" by auto
    with False 1 show ?thesis by (subst (1 2) index_of_Cons) auto
  qed
qed auto

lemma index_of_absent: "x \<notin> set s \<Longrightarrow> index_of [x] s = None"
  by (induction s) (auto simp: index_of_Cons)

lemma crlf_normalize:
  "crlf_only s \<Longrightarrow> concat (map (\<lambda>u. if u = 10 then [13, 10] else [u]) (normalizeToLF s)) = s"
  by (induction s rule: crlf_only.induct) (auto simp: normalizeToLF_def split: if_splits)

lemma crlf_no_newline: "crlf_only s \<Longrightarrow> 10 \<notin> set s \<Longrightarrow> 13 \<notin> set s"
  by (induction s rule: crlf_only.induct) (auto split: if_splits)

lemma replace_crlf_plain: "13 \<notin> set s \<Longrightarrow> replace_crlf s = s"
  by (induction s rule: replace_crlf.induct) auto

lemma normalize_plain: "13 \<notin> set s \<Longrightarrow> normalizeToLF s = s"
  by (auto simp: normalizeToLF_def replace_crlf_plain intro!: map_idI)

lemma detect_plain: "13 \<notin> set s \<Longrightarrow> detectLineEnding s = LF"
proof -
  have "13 \<notin> set s \<Longrightarrow> index_of [13, 10] s = None"
    by (induction s) (auto simp: index_of_Cons)
  then show "13 \<notin> set s \<Longrightarrow> detectLineEnding s = LF" by (simp add: detectLineEnding_def split: option.splits)
qed

text \<open>Reading a file for an edit and writing it back: text that uses one kind of line ending
  throughout is the same text again after its line endings were normalised and restored.\<close>

theorem line_endings_roundtrip:
  assumes "13 \<notin> set s \<or> crlf_only s"
  shows "restoreLineEndings (normalizeToLF s) (detectLineEnding s) = s"
proof (cases "13 \<in> set s")
  case False
  then show ?thesis by (simp add: restoreLineEndings_def detect_plain normalize_plain)
next
  case True
  with assms have crlf: "crlf_only s" "10 \<in> set s" using crlf_no_newline by auto
  from detect_crlf[OF this] have "detectLineEnding s = CRLF" by (auto simp: detectLineEnding_def)
  with crlf_normalize[OF crlf(1)] show ?thesis by (simp add: restoreLineEndings_def)
qed

lemma line_endings_roundtrip_witness:
  "restoreLineEndings (normalizeToLF [97, 13, 10, 98, 13, 10]) (detectLineEnding [97, 13, 10, 98, 13, 10]) = [97, 13, 10, 98, 13, 10]"
  by (rule line_endings_roundtrip) simp

text \<open>A file with both line endings is rewritten outside the edit: its first ending wins.\<close>

lemma mixed_line_endings_rewritten:
  "restoreLineEndings (normalizeToLF [97, 13, 10, 98, 10]) (detectLineEnding [97, 13, 10, 98, 10]) = [97, 13, 10, 98, 13, 10]"
  by (simp add: restoreLineEndings_def normalizeToLF_def detectLineEnding_def index_of_Cons)

subsection \<open>Witnesses\<close>

lemma exact_edits_witness:
  "\<exists>ms. [97, 120, 99, 100] = spliced 0 (length ([97, 98, 99, 100] :: js_string)) [97, 98, 99, 100] ms \<and>
     in_order 0 (length ([97, 98, 99, 100] :: js_string)) ms \<and> mset (map editIndex ms) = mset [0]"
proof -
  let ?e = "[\<lparr>oldText = [98], newText = [120]\<rparr>] :: edit list"
  have "applyEditsToNormalizedContent id [97, 98, 99, 100] ?e = Inr ([97, 98, 99, 100], [97, 120, 99, 100])"
    by (simp add: applyEditsToNormalizedContent_def normalize_edit_def normalizeToLF_def fuzzyFindText_def index_of_Cons
        countOccurrences_def normalizeForFuzzyMatch_def plain_unit_def trim_end_def white_space_def count_pieces.simps
        applyReplacements_def replace_at_def Let_def result_simps)
  note ran = this
  have found: "\<forall>e \<in> set ?e. index_of (normalizeToLF (oldText e)) [97, 98, 99, 100] \<noteq> None"
    by (simp add: normalizeToLF_def index_of_Cons)
  show ?thesis using exact_edits[OF ran found] by auto
qed

lemma fuzzy_edit_witness:
  "\<exists>piece plain. [43, 10, 97, 32, 10] = concat (map piece [0..<2]) \<and>
     applyReplacements [45, 10, 97, 10] [\<lparr>editIndex = 0, matchIndex = 0, matchLength = 1, editText = [43]\<rparr>] 0 =
       concat (map plain [0..<2]) \<and> piece 1 = ([97, 32, 10] :: js_string) \<and> plain 1 = [97, 10]"
proof -
  let ?r = "[\<lparr>editIndex = 0, matchIndex = 0, matchLength = 1, editText = [43]\<rparr>]"
  have run: "applyReplacementsPreservingUnchangedLines [0x2014, 10, 97, 32, 10] [45, 10, 97, 10] ?r = Inr [43, 10, 97, 32, 10]"
    by (simp add: applyReplacementsPreservingUnchangedLines_def getLineSpans_def getReplacementLineRange_def
        applyReplacements_def replace_at_def Let_def result_simps upt_conv_Cons)
  have ord: "in_order 0 (length ([45, 10, 97, 10] :: js_string)) ?r" by simp
  have lines: "splitLinesWithEndings [0x2014, 10, 97, 32, 10] = [[0x2014, 10], [97, 32, 10]]"
    "splitLinesWithEndings [45, 10, 97, 10] = [[45, 10], [97, 10]]" by simp_all
  have "\<not> touches [[45, 10], [97, 10]] (hd ?r) 1" by (simp add: touches_def line_offset_def)
  moreover from fuzzy_edit_keeps_lines[OF run ord] obtain piece plain where
    "[43, 10, 97, 32, 10] = concat (map piece [0..<2])"
    "applyReplacements [45, 10, 97, 10] ?r 0 = concat (map plain [0..<2])"
    and line: "\<And>i. i < 2 \<Longrightarrow> if \<exists>r \<in> set ?r. touches [[45, 10], [97, 10]] r i then piece i = plain i
       else piece i = [[0x2014, 10], [97, 32, 10]] ! i \<and> plain i = [[45, 10], [97, 10]] ! i"
    unfolding lines list.size by (metis One_nat_def Suc_1 add_0 plus_1_eq_Suc)
  ultimately show ?thesis using line[of 1] by (intro exI[of _ piece] exI[of _ plain]) simp
qed

text \<open>An old text that occurs twice, overlapping itself, counts as unique.\<close>

lemma overlapping_occurrences_accepted:
  "applyEditsToNormalizedContent id [97, 97, 97] [\<lparr>oldText = [97, 97], newText = [98]\<rparr>] = Inr ([97, 97, 97], [98, 97])"
  by (simp add: applyEditsToNormalizedContent_def normalize_edit_def normalizeToLF_def fuzzyFindText_def index_of_Cons
      countOccurrences_def normalizeForFuzzyMatch_def plain_unit_def trim_end_def white_space_def count_pieces.simps
      applyReplacements_def replace_at_def Let_def result_simps)

text \<open>A last line of white space only is lost by the normalisation, and a fuzzy edit of another line fails.\<close>

lemma blank_last_line_fails:
  "applyEditsToNormalizedContent id [0x2014, 10, 32] [\<lparr>oldText = [45], newText = [43]\<rparr>] = Inl LineCountDiffers"
  by (simp add: applyEditsToNormalizedContent_def normalize_edit_def normalizeToLF_def fuzzyFindText_def index_of_Cons
      countOccurrences_def normalizeForFuzzyMatch_def plain_unit_def trim_end_def white_space_def count_pieces.simps
      applyReplacementsPreservingUnchangedLines_def getLineSpans_def Let_def result_simps)

end
